(* ===== verification/Tokens.thy ===== *)
theory Tokens
  imports Prelude
begin

text \<open>
  Tokens and source locations: the classes \<open>LocationImpl\<close> and \<open>Location\<close> of
  parser/Location.h and \<open>Token\<close> of parser/Token.h. The token types are a C enumeration
  whose numeric values are persisted in the module cache, so a token type is its number,
  wrapped in \<open>ttype\<close>, and each enumerator is a name for one number.
\<close>

section \<open>Locations\<close>

record location_impl =
  loc_name :: string
  loc_lineNumber :: int
  loc_startCol :: int
  loc_endCol :: int

text \<open>\<open>Location\<close> is a pointer that may be null; its accessors have defaults for null.\<close>

type_synonym location = "location_impl option"

definition getName :: "location \<Rightarrow> string" where
  "getName loc = (case loc of None \<Rightarrow> [] | Some l \<Rightarrow> loc_name l)"

definition getLineNumber :: "location \<Rightarrow> int" where
  "getLineNumber loc = (case loc of None \<Rightarrow> 0 | Some l \<Rightarrow> loc_lineNumber l)"

definition getStartCol :: "location \<Rightarrow> int" where
  "getStartCol loc = (case loc of None \<Rightarrow> 0 | Some l \<Rightarrow> loc_startCol l)"

definition getEndCol :: "location \<Rightarrow> int" where
  "getEndCol loc = (case loc of None \<Rightarrow> 0 | Some l \<Rightarrow> loc_endCol l)"

lemmas location_defs [state_simps] =
  getName_def getLineNumber_def getStartCol_def getEndCol_def

section \<open>Token types\<close>

datatype ttype = TType (tt_code: nat)

abbreviation T_ann :: ttype where "T_ann \<equiv> TType 0"
abbreviation T_bitAnd :: ttype where "T_bitAnd \<equiv> TType 1"
abbreviation T_bitLSh :: ttype where "T_bitLSh \<equiv> TType 2"
abbreviation T_bitOr :: ttype where "T_bitOr \<equiv> TType 3"
abbreviation T_bitRSh :: ttype where "T_bitRSh \<equiv> TType 4"
abbreviation T_bitXor :: ttype where "T_bitXor \<equiv> TType 5"
abbreviation T_aliasKw :: ttype where "T_aliasKw \<equiv> TType 6"
abbreviation T_breakKw :: ttype where "T_breakKw \<equiv> TType 7"
abbreviation T_caseKw :: ttype where "T_caseKw \<equiv> TType 8"
abbreviation T_catchKw :: ttype where "T_catchKw \<equiv> TType 9"
abbreviation T_classKw :: ttype where "T_classKw \<equiv> TType 10"
abbreviation T_constKw :: ttype where "T_constKw \<equiv> TType 11"
abbreviation T_continueKw :: ttype where "T_continueKw \<equiv> TType 12"
abbreviation T_dollar :: ttype where "T_dollar \<equiv> TType 13"
abbreviation T_enumKw :: ttype where "T_enumKw \<equiv> TType 14"
abbreviation T_forKw :: ttype where "T_forKw \<equiv> TType 15"
abbreviation T_elseKw :: ttype where "T_elseKw \<equiv> TType 16"
abbreviation T_ifKw :: ttype where "T_ifKw \<equiv> TType 17"
abbreviation T_importKw :: ttype where "T_importKw \<equiv> TType 18"
abbreviation T_inKw :: ttype where "T_inKw \<equiv> TType 19"
abbreviation T_isKw :: ttype where "T_isKw \<equiv> TType 20"
abbreviation T_lambdaKw :: ttype where "T_lambdaKw \<equiv> TType 21"
abbreviation T_moduleKw :: ttype where "T_moduleKw \<equiv> TType 22"
abbreviation T_nullKw :: ttype where "T_nullKw \<equiv> TType 23"
abbreviation T_onKw :: ttype where "T_onKw \<equiv> TType 24"
abbreviation T_operKw :: ttype where "T_operKw \<equiv> TType 25"
abbreviation T_returnKw :: ttype where "T_returnKw \<equiv> TType 26"
abbreviation T_switchKw :: ttype where "T_switchKw \<equiv> TType 27"
abbreviation T_throwKw :: ttype where "T_throwKw \<equiv> TType 28"
abbreviation T_tryKw :: ttype where "T_tryKw \<equiv> TType 29"
abbreviation T_typeofKw :: ttype where "T_typeofKw \<equiv> TType 30"
abbreviation T_whileKw :: ttype where "T_whileKw \<equiv> TType 31"
abbreviation T_assign :: ttype where "T_assign \<equiv> TType 32"
abbreviation T_assignAnd :: ttype where "T_assignAnd \<equiv> TType 33"
abbreviation T_assignAsterisk :: ttype where "T_assignAsterisk \<equiv> TType 34"
abbreviation T_assignLSh :: ttype where "T_assignLSh \<equiv> TType 35"
abbreviation T_assignOr :: ttype where "T_assignOr \<equiv> TType 36"
abbreviation T_assignRSh :: ttype where "T_assignRSh \<equiv> TType 37"
abbreviation T_assignXor :: ttype where "T_assignXor \<equiv> TType 38"
abbreviation T_assignMinus :: ttype where "T_assignMinus \<equiv> TType 39"
abbreviation T_assignPercent :: ttype where "T_assignPercent \<equiv> TType 40"
abbreviation T_assignPlus :: ttype where "T_assignPlus \<equiv> TType 41"
abbreviation T_assignSlash :: ttype where "T_assignSlash \<equiv> TType 42"
abbreviation T_asterisk :: ttype where "T_asterisk \<equiv> TType 43"
abbreviation T_bang :: ttype where "T_bang \<equiv> TType 44"
abbreviation T_colon :: ttype where "T_colon \<equiv> TType 45"
abbreviation T_comma :: ttype where "T_comma \<equiv> TType 46"
abbreviation T_decr :: ttype where "T_decr \<equiv> TType 47"
abbreviation T_define :: ttype where "T_define \<equiv> TType 48"
abbreviation T_dot :: ttype where "T_dot \<equiv> TType 49"
abbreviation T_end :: ttype where "T_end \<equiv> TType 50"
abbreviation T_eq :: ttype where "T_eq \<equiv> TType 51"
abbreviation T_ge :: ttype where "T_ge \<equiv> TType 52"
abbreviation T_gt :: ttype where "T_gt \<equiv> TType 53"
abbreviation T_ident :: ttype where "T_ident \<equiv> TType 54"
abbreviation T_incr :: ttype where "T_incr \<equiv> TType 55"
abbreviation T_integer :: ttype where "T_integer \<equiv> TType 56"
abbreviation T_lbracket :: ttype where "T_lbracket \<equiv> TType 57"
abbreviation T_lcurly :: ttype where "T_lcurly \<equiv> TType 58"
abbreviation T_le :: ttype where "T_le \<equiv> TType 59"
abbreviation T_lparen :: ttype where "T_lparen \<equiv> TType 60"
abbreviation T_lt :: ttype where "T_lt \<equiv> TType 61"
abbreviation T_minus :: ttype where "T_minus \<equiv> TType 62"
abbreviation T_ne :: ttype where "T_ne \<equiv> TType 63"
abbreviation T_percent :: ttype where "T_percent \<equiv> TType 64"
abbreviation T_plus :: ttype where "T_plus \<equiv> TType 65"
abbreviation T_quest :: ttype where "T_quest \<equiv> TType 66"
abbreviation T_rbracket :: ttype where "T_rbracket \<equiv> TType 67"
abbreviation T_rcurly :: ttype where "T_rcurly \<equiv> TType 68"
abbreviation T_rparen :: ttype where "T_rparen \<equiv> TType 69"
abbreviation T_semi :: ttype where "T_semi \<equiv> TType 70"
abbreviation T_slash :: ttype where "T_slash \<equiv> TType 71"
abbreviation T_string :: ttype where "T_string \<equiv> TType 72"
abbreviation T_tilde :: ttype where "T_tilde \<equiv> TType 73"
abbreviation T_istrBegin :: ttype where "T_istrBegin \<equiv> TType 74"
abbreviation T_istrEnd :: ttype where "T_istrEnd \<equiv> TType 75"
abbreviation T_logicAnd :: ttype where "T_logicAnd \<equiv> TType 76"
abbreviation T_logicOr :: ttype where "T_logicOr \<equiv> TType 77"
abbreviation T_floatLit :: ttype where "T_floatLit \<equiv> TType 78"
abbreviation T_octalLit :: ttype where "T_octalLit \<equiv> TType 79"
abbreviation T_hexLit :: ttype where "T_hexLit \<equiv> TType 80"
abbreviation T_binLit :: ttype where "T_binLit \<equiv> TType 81"
abbreviation T_scoping :: ttype where "T_scoping \<equiv> TType 82"
abbreviation T_doKw :: ttype where "T_doKw \<equiv> TType 83"
abbreviation T_doc :: ttype where "T_doc \<equiv> TType 84"
abbreviation T_popErrCtx :: ttype where "T_popErrCtx \<equiv> TType 85"
abbreviation T_fileName :: ttype where "T_fileName \<equiv> TType 125"
abbreviation T_lineNumber :: ttype where "T_lineNumber \<equiv> TType 126"

text \<open>Enumerators compare as their numbers do.\<close>

instantiation ttype :: linorder
begin

definition less_eq_ttype :: "ttype \<Rightarrow> ttype \<Rightarrow> bool" where
  "less_eq_ttype a b \<longleftrightarrow> tt_code a \<le> tt_code b"

definition less_ttype :: "ttype \<Rightarrow> ttype \<Rightarrow> bool" where
  "less_ttype a b \<longleftrightarrow> tt_code a < tt_code b"

instance
  by standard (auto simp: less_eq_ttype_def less_ttype_def ttype.expand)

end

lemma less_TType [simp]: "TType a < TType b \<longleftrightarrow> a < b"
  by (simp add: less_ttype_def)

lemma less_eq_TType [simp]: "TType a \<le> TType b \<longleftrightarrow> a \<le> b"
  by (simp add: less_eq_ttype_def)

section \<open>Tokens\<close>

record token =
  tok_type :: ttype
  tok_data :: string
  tok_loc :: location

definition mkToken :: "ttype \<Rightarrow> string \<Rightarrow> location \<Rightarrow> token" where
  "mkToken tt d loc = \<lparr>tok_type = tt, tok_data = d, tok_loc = loc\<rparr>"

lemma mkToken_sel [simp]:
  "tok_type (mkToken tt d loc) = tt"
  "tok_data (mkToken tt d loc) = d"
  "tok_loc (mkToken tt d loc) = loc"
  by (simp_all add: mkToken_def)

text \<open>
  The family of checks \<open>isAlias()\<close> .. \<open>isScoping()\<close>: each compares the type with one
  enumerator.
\<close>

definition tok_is :: "ttype \<Rightarrow> token \<Rightarrow> bool" where
  "tok_is tt tok \<longleftrightarrow> tok_type tok = tt"

abbreviation isEnd :: "token \<Rightarrow> bool" where "isEnd \<equiv> tok_is T_end"
abbreviation isIdent :: "token \<Rightarrow> bool" where "isIdent \<equiv> tok_is T_ident"
abbreviation isString :: "token \<Rightarrow> bool" where "isString \<equiv> tok_is T_string"
abbreviation isIstrBegin :: "token \<Rightarrow> bool" where "isIstrBegin \<equiv> tok_is T_istrBegin"
abbreviation isIstrEnd :: "token \<Rightarrow> bool" where "isIstrEnd \<equiv> tok_is T_istrEnd"
abbreviation isLParen :: "token \<Rightarrow> bool" where "isLParen \<equiv> tok_is T_lparen"
abbreviation isRParen :: "token \<Rightarrow> bool" where "isRParen \<equiv> tok_is T_rparen"

definition isBinOp :: "token \<Rightarrow> bool" where
  "isBinOp tok \<longleftrightarrow> tok_type tok \<in>
     {T_plus, T_minus, T_asterisk, T_slash, T_percent, T_eq, T_ne, T_lt, T_gt, T_le, T_ge,
      T_isKw, T_logicAnd, T_logicOr, T_bitAnd, T_bitOr, T_bitXor, T_bitLSh, T_bitRSh}"

definition isAugAssign :: "token \<Rightarrow> bool" where
  "isAugAssign tok \<longleftrightarrow> tok_type tok \<in>
     {T_assignAnd, T_assignAsterisk, T_assignLSh, T_assignOr, T_assignRSh, T_assignXor,
      T_assignMinus, T_assignPercent, T_assignPlus, T_assignSlash}"

end
