(* ===== verification/Toker_State.thy ===== *)
theory Toker_State
  imports Tokens
begin

text \<open>
  The tokenizer's state and its character level (class \<open>Toker\<close>, parser/Toker.h and
  parser/Toker.cc): the fields of the object, the two-character putback buffer, line and
  column accounting, and the indentation transform of I-strings.
\<close>

section \<open>State\<close>

text \<open>The enumeration of tokenizer states, in the order of the declaration.\<close>

datatype tstate =
    st_none
  | st_interpNone
  | st_ident
  | st_slash
  | st_minus
  | st_plus
  | st_digram
  | st_comment
  | st_ccomment
  | st_ccomment2
  | st_string
  | st_strEscapeChar
  | st_istrEscapeChar
  | st_strOctal
  | st_istrOctal
  | st_strHex
  | st_istrHex
  | st_number
  | st_intdot
  | st_period
  | st_zero
  | st_float
  | st_exponent
  | st_exponent2
  | st_exponent3
  | st_amp
  | st_istr
  | st_pipe
  | st_ltgt
  | st_postaug
  | st_hex
  | st_octal
  | st_binary
  | st_strint
  | st_rawStr
  | st_rawStrBody
  | st_rawStrEscape
  | st_strEscapedIndentedNewline
  | st_istrEscapedIndentedNewline
  | st_indentStr

definition putbackSize :: nat where "putbackSize = 2"

definition tabWidth :: int where "tabWidth = 8"

definition int_max :: int where "int_max = 2147483647"

text \<open>
  \<open>src\<close> is what the input stream still holds. \<open>tokens\<close> is the put-back list, whose
  back is the last element. The putback buffer is the array with its index: characters
  from \<open>putbackIndex\<close> on are waiting to be read again.
\<close>

record toker =
  tokens :: "token list"
  src :: string
  currentName :: string
  currentLine :: int
  currentStartCol :: int
  currentEndCol :: int
  saveEndCol :: int
  lastLoc :: location
  tk_state :: tstate
  putbackBuf :: string
  putbackIndex :: nat
  indentedString :: bool
  indentLevel :: int
  minIndentLevel :: int

text \<open>
  The constructor. \<open>saveEndCol\<close>, \<open>putbackBuf\<close>, \<open>indentLevel\<close> and \<open>minIndentLevel\<close>
  are not initialised by the code: \<open>junk\<close> stands for whatever they hold.
\<close>

definition newToker :: "toker \<Rightarrow> string \<Rightarrow> string \<Rightarrow> int \<Rightarrow> toker" where
  "newToker junk source sourceName lineNumber =
     junk\<lparr>tokens := [], src := source, tk_state := st_none, putbackIndex := putbackSize,
          indentedString := False, currentName := sourceName, currentLine := lineNumber,
          currentStartCol := 1, currentEndCol := 1,
          lastLoc := Some \<lparr>loc_name = sourceName, loc_lineNumber = 1, loc_startCol = 1,
                           loc_endCol = 0\<rparr>\<rparr>"

section \<open>Characters and locations\<close>

text \<open>Returns the location and the tokenizer with \<open>lastLoc\<close> updated.\<close>

definition getLocation :: "toker \<Rightarrow> location \<times> toker" where
  "getLocation t =
     (if currentName t = getName (lastLoc t) \<and>
         currentLine t = getLineNumber (lastLoc t) \<and>
         currentStartCol t = getStartCol (lastLoc t) \<and>
         currentEndCol t = getEndCol (lastLoc t)
      then (lastLoc t, t)
      else let loc = Some \<lparr>loc_name = currentName t, loc_lineNumber = currentLine t,
                           loc_startCol = currentStartCol t,
                           loc_endCol = currentEndCol t - 1\<rparr>
           in (loc, t\<lparr>lastLoc := loc\<rparr>))"

text \<open>The line and column bookkeeping at the end of \<open>getChar()\<close>.\<close>

definition countChar :: "char option \<Rightarrow> toker \<Rightarrow> toker" where
  "countChar r t =
     (let t1 = t\<lparr>currentEndCol := currentEndCol t + 1\<rparr>
      in if r = Some (CHR ''\<newline>'')
         then t1\<lparr>currentLine := currentLine t1 + 1, saveEndCol := currentEndCol t1 - 1,
                 currentStartCol := 1, currentEndCol := 1\<rparr>
         else t1)"

text \<open>\<open>None\<close> is the end of the stream (\<open>getChar()\<close> returns false).\<close>

definition getChar :: "toker \<Rightarrow> char option \<times> toker" where
  "getChar t =
     (if putbackIndex t < putbackSize
      then let ch = putbackBuf t ! putbackIndex t
           in (Some ch, countChar (Some ch) (t\<lparr>putbackIndex := putbackIndex t + 1\<rparr>))
      else case src t of
             [] \<Rightarrow> (None, countChar None t)
           | ch # rest \<Rightarrow> (Some ch, countChar (Some ch) (t\<lparr>src := rest\<rparr>)))"

text \<open>\<open>None\<close> is the failed assertion \<open>putbackIndex && "Toker putback overflow"\<close>.\<close>

definition ungetChar :: "char \<Rightarrow> toker \<Rightarrow> toker option" where
  "ungetChar ch t =
     (if putbackIndex t = 0 then None
      else let t1 = t\<lparr>putbackIndex := putbackIndex t - 1,
                      putbackBuf := (putbackBuf t)[putbackIndex t - 1 := ch]\<rparr>
           in Some (if ch = CHR ''\<newline>''
                    then t1\<lparr>currentLine := currentLine t1 - 1,
                            currentEndCol := saveEndCol t1\<rparr>
                    else t1\<lparr>currentEndCol := currentEndCol t1 - 1\<rparr>))"

text \<open>
  What is still to be read: the waiting putback characters, then the stream. \<open>remaining\<close>
  is its length, stated on the index alone.
\<close>

definition pending :: "toker \<Rightarrow> string" where
  "pending t = drop (putbackIndex t) (putbackBuf t) @ src t"

definition remaining :: "toker \<Rightarrow> nat" where
  "remaining t = (putbackSize - putbackIndex t) + length (src t)"

text \<open>The putback array has its declared size and the index stays inside it.\<close>

definition putback_ok :: "toker \<Rightarrow> bool" where
  "putback_ok t \<longleftrightarrow> length (putbackBuf t) = putbackSize \<and> putbackIndex t \<le> putbackSize"

section \<open>Indentation of I-strings\<close>

definition initIndent :: "bool \<Rightarrow> toker \<Rightarrow> toker" where
  "initIndent indented t =
     (if indented then t\<lparr>indentedString := True, indentLevel := 0, minIndentLevel := int_max\<rparr>
      else t\<lparr>indentedString := False\<rparr>)"

text \<open>
  The loop of \<open>evaluateIndentation()\<close>: the arguments after the text are \<open>inPrefix\<close>,
  \<open>indent\<close> (read only after a newline has set it) and \<open>minIndentLevel\<close>. The last
  conditional of the function is the case of the empty rest. The code's third branch, a
  newline inside a prefix, cannot be reached after its first and is left out.
\<close>

fun evalIndent :: "string \<Rightarrow> bool \<Rightarrow> int \<Rightarrow> int \<Rightarrow> int" where
  "evalIndent [] inPrefix indent m =
     (if inPrefix \<and> indent \<noteq> 0 \<and> indent < m then indent else m)"
| "evalIndent (c # cs) inPrefix indent m =
     (if c = CHR ''\<newline>'' then evalIndent cs True 0 m
      else if inPrefix then
        (if c = CHR '' '' then evalIndent cs True (indent + 1) m
         else if c = CHR 0x09 then evalIndent cs True ((indent div tabWidth + 1) * tabWidth) m
         else evalIndent cs False indent (if indent < m then indent else m))
      else evalIndent cs False indent m)"

definition evaluateIndentation :: "string \<Rightarrow> toker \<Rightarrow> toker" where
  "evaluateIndentation val t = t\<lparr>minIndentLevel := evalIndent val False 0 (minIndentLevel t)\<rparr>"

text \<open>\<open>indent\<close> less \<open>minIndentLevel\<close>, when it is at least that.\<close>

definition lessIndent :: "int \<Rightarrow> int \<Rightarrow> int" where
  "lessIndent m indent = (if indent \<ge> m then indent - m else indent)"

fun fixIndent :: "int \<Rightarrow> string \<Rightarrow> bool \<Rightarrow> int \<Rightarrow> string" where
  "fixIndent m [] inPrefix indent =
     (if inPrefix then CHR ''\<newline>'' # replicate (nat (lessIndent m indent)) (CHR '' '') else [])"
| "fixIndent m (c # cs) inPrefix indent =
     (if c = CHR ''\<newline>'' then (if inPrefix then [CHR ''\<newline>''] else []) @ fixIndent m cs True 0
      else if inPrefix then
        (if c = CHR '' '' then fixIndent m cs True (indent + 1)
         else if c = CHR 0x09 then fixIndent m cs True ((indent div tabWidth + 1) * tabWidth)
         else CHR ''\<newline>'' # replicate (nat (lessIndent m indent)) (CHR '' '') @
              c # fixIndent m cs False indent)
      else c # fixIndent m cs False indent)"

definition fixIndentation :: "string \<Rightarrow> toker \<Rightarrow> string" where
  "fixIndentation val t = fixIndent (minIndentLevel t) val False 0"

definition reindent :: "string \<Rightarrow> toker \<Rightarrow> string \<times> toker" where
  "reindent val t = (let t' = evaluateIndentation val t in (fixIndentation val t', t'))"

end
