(* ===== verification/Toker_Step.thy ===== *)
theory Toker_Step
  imports Toker_State
begin

text \<open>
  One iteration of the loop of \<open>Toker::readToken()\<close> (parser/Toker.cc): the character
  read, the local variables of the function and the tokenizer go in, and the loop either
  goes round again, returns a token, or throws. One definition per group of states, and a
  case that falls through to the next calls its definition.
\<close>

section \<open>Locals and outcomes\<close>

text \<open>
  The locals of \<open>readToken()\<close>. \<open>buf\<close> is the string stream. The others are not
  initialised on entry (but \<open>sci\<close>, which starts at 0).
\<close>

record locals =
  terminator :: char
  symchars :: "char list"
  sci :: nat
  t1 :: ttype
  t2 :: ttype
  t3 :: ttype
  codeChar :: byte
  codeLen :: int
  buf :: string

text \<open>
  What can go wrong: \<open>ParseError::abort\<close> on a token with a message, a failed assertion,
  or a write past the end of the local array \<open>symchars\<close>.
\<close>

datatype lexError =
    ParseAbort token string
  | AssertFailed string
  | SymcharsOverflow

datatype outcome =
    Loop locals toker
  | Return token toker
  | Throw lexError

text \<open>\<open>return Token(tt, d, getLocation())\<close>\<close>

definition ret :: "ttype \<Rightarrow> string \<Rightarrow> toker \<Rightarrow> outcome" where
  "ret tt d t = (case getLocation t of (loc, t') \<Rightarrow> Return (mkToken tt d loc) t')"

text \<open>\<open>ParseError::abort(Token(tt, d, getLocation()), msg)\<close>\<close>

definition abort :: "ttype \<Rightarrow> string \<Rightarrow> string \<Rightarrow> toker \<Rightarrow> outcome" where
  "abort tt d msg t = Throw (ParseAbort (mkToken tt d (fst (getLocation t))) msg)"

text \<open>\<open>ungetChar(ch)\<close>, then the rest of the code.\<close>

definition unget :: "char \<Rightarrow> toker \<Rightarrow> (toker \<Rightarrow> outcome) \<Rightarrow> outcome" where
  "unget ch t k =
     (case ungetChar ch t of
        None \<Rightarrow> Throw (AssertFailed ''Toker putback overflow'')
      | Some t' \<Rightarrow> k t')"

text \<open>\<open>symchars[i] = ch\<close>, then the rest of the code.\<close>

definition setSym :: "nat \<Rightarrow> char \<Rightarrow> locals \<Rightarrow> (locals \<Rightarrow> outcome) \<Rightarrow> outcome" where
  "setSym i ch l k =
     (if i < length (symchars l) then k (l\<lparr>symchars := (symchars l)[i := ch]\<rparr>)
      else Throw SymcharsOverflow)"

text \<open>\<open>symchars[sci++] = ch\<close>, then the rest of the code.\<close>

definition pushSym :: "char \<Rightarrow> locals \<Rightarrow> (locals \<Rightarrow> outcome) \<Rightarrow> outcome" where
  "pushSym ch l k = setSym (sci l) ch (l\<lparr>sci := sci l + 1\<rparr>) k"

text \<open>\<open>buf << s\<close>\<close>

definition out :: "string \<Rightarrow> locals \<Rightarrow> locals" where
  "out s l = l\<lparr>buf := buf l @ s\<rparr>"

abbreviation goto :: "tstate \<Rightarrow> toker \<Rightarrow> toker" where
  "goto s t \<equiv> t\<lparr>tk_state := s\<rparr>"

section \<open>Identifiers and the prefixed literals\<close>

text \<open>The keyword table of \<open>fixIdent()\<close>.\<close>

definition keywordTable :: "(string \<times> ttype) list" where
  "keywordTable =
    [(''break'', T_breakKw), (''catch'', T_catchKw), (''class'', T_classKw),
     (''continue'', T_continueKw), (''else'', T_elseKw), (''if'', T_ifKw),
     (''import'', T_importKw), (''in'', T_inKw), (''is'', T_isKw), (''null'', T_nullKw),
     (''return'', T_returnKw), (''throw'', T_throwKw), (''try'', T_tryKw),
     (''while'', T_whileKw), (''on'', T_onKw), (''oper'', T_operKw), (''for'', T_forKw),
     (''typeof'', T_typeofKw), (''const'', T_constKw), (''module'', T_moduleKw),
     (''lambda'', T_lambdaKw), (''enum'', T_enumKw), (''alias'', T_aliasKw),
     (''case'', T_caseKw), (''switch'', T_switchKw), (''do'', T_doKw)]"

definition identType :: "string \<Rightarrow> ttype" where
  "identType data = (case map_of keywordTable data of Some tt \<Rightarrow> tt | None \<Rightarrow> T_ident)"

text \<open>
  \<open>fixIdent(buf.str(), getLocation())\<close>: the location is computed for the argument, and
  once more by the last branch.
\<close>

definition fixIdent :: "string \<Rightarrow> toker \<Rightarrow> outcome" where
  "fixIdent data t =
     (case getLocation t of (loc, t') \<Rightarrow>
        (case map_of keywordTable data of
           Some tt \<Rightarrow> Return (mkToken tt data loc) t'
         | None \<Rightarrow> ret T_ident data t'))"

definition isQuote :: "char \<Rightarrow> bool" where
  "isQuote ch \<longleftrightarrow> ch = CHR ''\"'' \<or> ch = CHR 0x27"

definition step_ident :: "char \<Rightarrow> locals \<Rightarrow> toker \<Rightarrow> outcome" where
  "step_ident ch l t =
     (if \<not> isalnum ch \<and> ch \<noteq> CHR ''_'' \<and> char_pos ch
      then unget ch t (\<lambda>t. fixIdent (buf l) (goto st_none t))
      else Loop (out [ch] l) t)"

definition step_indentStr :: "char \<Rightarrow> locals \<Rightarrow> toker \<Rightarrow> outcome" where
  "step_indentStr ch l t =
     (if isQuote ch
      then Loop (l\<lparr>terminator := ch, buf := [], t1 := T_string\<rparr>)
                (initIndent True (goto st_string t))
      else if tk_state t = st_indentStr \<and> ch = CHR 0x60
      then ret T_istrBegin [CHR 0x60] (initIndent True (goto st_istr t))
      else step_ident ch l (goto st_ident t))"

definition step_rawStr :: "char \<Rightarrow> locals \<Rightarrow> toker \<Rightarrow> outcome" where
  "step_rawStr ch l t =
     (if isQuote ch
      then Loop (l\<lparr>terminator := ch, buf := []\<rparr>) (goto st_rawStrBody t)
      else step_indentStr ch l t)"

definition step_strint :: "char \<Rightarrow> locals \<Rightarrow> toker \<Rightarrow> outcome" where
  "step_strint ch l t =
     (if isQuote ch
      then Loop ((out ''/'' l)\<lparr>t1 := T_integer, terminator := ch\<rparr>) (goto st_string t)
      else step_rawStr ch l t)"

section \<open>The first character of a token\<close>

definition step_interpNone :: "char \<Rightarrow> locals \<Rightarrow> toker \<Rightarrow> outcome" where
  "step_interpNone ch l t0 =
     (let t = goto st_none t0 in
      if isspace ch then
        Loop l (if isblank ch then t\<lparr>currentStartCol := currentStartCol t + 1\<rparr> else t)
      else if isalpha ch \<or> ch = CHR ''_'' \<or> char_neg ch then Loop (out [ch] l) (goto st_ident t)
      else if ch = CHR ''#'' then setSym 0 ch l (\<lambda>l. Loop l (goto st_comment t))
      else if ch = CHR '';'' then ret T_semi '';'' t
      else if ch = CHR '','' then ret T_comma '','' t
      else if ch = CHR ''='' then
        pushSym ch l (\<lambda>l. Loop (l\<lparr>t1 := T_assign, t2 := T_eq\<rparr>) (goto st_digram t))
      else if ch = CHR ''!'' then
        pushSym ch l (\<lambda>l. Loop (l\<lparr>t1 := T_bang, t2 := T_ne\<rparr>) (goto st_digram t))
      else if ch = CHR ''>'' then
        pushSym ch l (\<lambda>l. Loop (l\<lparr>t1 := T_gt, t2 := T_ge, t3 := T_bitRSh\<rparr>) (goto st_ltgt t))
      else if ch = CHR ''<'' then
        pushSym ch l (\<lambda>l. Loop (l\<lparr>t1 := T_lt, t2 := T_le, t3 := T_bitLSh\<rparr>) (goto st_ltgt t))
      else if ch = CHR ''('' then ret T_lparen ''('' t
      else if ch = CHR '')'' then ret T_rparen '')'' t
      else if ch = CHR ''{'' then ret T_lcurly ''{'' t
      else if ch = CHR ''}'' then ret T_rcurly ''}'' t
      else if ch = CHR ''['' then ret T_lbracket ''['' t
      else if ch = CHR '']'' then ret T_rbracket '']'' t
      else if ch = CHR ''$'' then ret T_dollar ''$'' t
      else if ch = CHR ''+'' then Loop l (goto st_plus t)
      else if ch = CHR ''-'' then Loop l (goto st_minus t)
      else if ch = CHR ''&'' then Loop l (goto st_amp t)
      else if ch = CHR ''|'' then Loop l (goto st_pipe t)
      else if ch = CHR ''*'' then
        pushSym ch (l\<lparr>t1 := T_asterisk, t2 := T_assignAsterisk\<rparr>)
          (\<lambda>l. Loop l (goto st_postaug t))
      else if ch = CHR ''%'' then
        pushSym ch (l\<lparr>t1 := T_percent, t2 := T_assignPercent\<rparr>)
          (\<lambda>l. Loop l (goto st_postaug t))
      else if ch = CHR ''/'' then Loop l (goto st_slash t)
      else if ch = CHR ''^'' then
        pushSym ch (l\<lparr>t1 := T_bitXor, t2 := T_assignXor\<rparr>) (\<lambda>l. Loop l (goto st_postaug t))
      else if isQuote ch then
        Loop (l\<lparr>terminator := ch, t1 := T_string\<rparr>) (goto st_string (initIndent False t))
      else if ch = CHR '':'' then
        pushSym ch l (\<lambda>l. Loop (l\<lparr>t1 := T_colon, t2 := T_define, t3 := T_scoping\<rparr>)
          (goto st_digram t))
      else if ch = CHR ''.'' then Loop l (goto st_period t)
      else if ch = CHR ''@'' then ret T_ann ''@'' t
      else if isdigit ch then
        (if ch = CHR ''0'' then Loop l (goto st_zero t)
         else Loop (out [ch] l) (goto st_number t))
      else if ch = CHR ''~'' then ret T_tilde ''~'' t
      else if ch = CHR 0x60 then ret T_istrBegin [CHR 0x60] (goto st_istr (initIndent False t))
      else if ch = CHR ''?'' then ret T_quest ''?'' t
      else abort T_dot [] ''unknown token'' t)"

definition step_none :: "char \<Rightarrow> locals \<Rightarrow> toker \<Rightarrow> outcome" where
  "step_none ch l t =
     (if ch = CHR ''i'' \<or> ch = CHR ''b'' then Loop (out [ch] l) (goto st_strint t)
      else if ch = CHR ''r'' then Loop (out [ch] l) (goto st_rawStr t)
      else if ch = CHR ''I'' then Loop (out [ch] l) (goto st_indentStr t)
      else step_interpNone ch l t)"

section \<open>Operators\<close>

text \<open>
  The shape shared by the states after \<open>&\<close>, \<open>|\<close>, \<open>-\<close> and \<open>+\<close>: the doubled
  operator, the augmented assignment, or the character is put back.
\<close>

definition step_oper ::
  "char \<Rightarrow> ttype \<Rightarrow> ttype \<Rightarrow> ttype \<Rightarrow> char \<Rightarrow> locals \<Rightarrow> toker \<Rightarrow> outcome" where
  "step_oper op doubled augmented single ch l t0 =
     (let t = goto st_none t0 in
      if ch = op then ret doubled [op, op] t
      else if ch = CHR ''='' then ret augmented [op, CHR ''=''] t
      else unget ch t (ret single [op]))"

definition step_amp :: "char \<Rightarrow> locals \<Rightarrow> toker \<Rightarrow> outcome" where
  "step_amp = step_oper (CHR ''&'') T_logicAnd T_assignAnd T_bitAnd"

definition step_pipe :: "char \<Rightarrow> locals \<Rightarrow> toker \<Rightarrow> outcome" where
  "step_pipe = step_oper (CHR ''|'') T_logicOr T_assignOr T_bitOr"

definition step_minus :: "char \<Rightarrow> locals \<Rightarrow> toker \<Rightarrow> outcome" where
  "step_minus = step_oper (CHR ''-'') T_decr T_assignMinus T_minus"

definition step_plus :: "char \<Rightarrow> locals \<Rightarrow> toker \<Rightarrow> outcome" where
  "step_plus = step_oper (CHR ''+'') T_incr T_assignPlus T_plus"

definition step_digram :: "char \<Rightarrow> locals \<Rightarrow> toker \<Rightarrow> outcome" where
  "step_digram ch l t0 =
     (let t = goto st_none t0 in
      if ch = CHR ''='' then
        pushSym ch l (\<lambda>l. pushSym (CHR 0x00) l (\<lambda>l. ret (t2 l) (cstr (symchars l)) t))
      else if ch = CHR '':'' \<and> t3 l = T_scoping then ret (t3 l) ''::'' t
      else setSym 1 (CHR 0x00) l (\<lambda>l. unget ch t (ret (t1 l) (cstr (symchars l)))))"

definition step_ltgt :: "char \<Rightarrow> locals \<Rightarrow> toker \<Rightarrow> outcome" where
  "step_ltgt ch l t =
     (if ch = symchars l ! 0 then
        pushSym ch l (\<lambda>l. Loop (l\<lparr>t1 := t3 l, t2 := if ch = CHR ''<'' then T_assignLSh
                                                     else T_assignRSh\<rparr>)
                               (goto st_postaug t))
      else step_digram ch l t)"

definition step_postaug :: "char \<Rightarrow> locals \<Rightarrow> toker \<Rightarrow> outcome" where
  "step_postaug ch l t0 =
     (let t = goto st_none t0 in
      if ch = CHR ''='' then
        pushSym ch l (\<lambda>l. pushSym (CHR 0x00) l (\<lambda>l. ret (t2 l) (cstr (symchars l)) t))
      else pushSym (CHR 0x00) l (\<lambda>l. unget ch t (ret (t1 l) (cstr (symchars l)))))"

definition step_slash :: "char \<Rightarrow> locals \<Rightarrow> toker \<Rightarrow> outcome" where
  "step_slash ch l t =
     (if ch = CHR ''/'' then setSym 0 ch l (\<lambda>l. Loop l (goto st_comment t))
      else if ch = CHR ''='' then ret T_assignSlash ''/='' (goto st_none t)
      else if ch = CHR ''*'' then Loop l (goto st_ccomment t)
      else unget ch t (\<lambda>t. ret T_slash ''/'' (goto st_none t)))"

section \<open>Comments\<close>

text \<open>
  \<open>val[0]\<close> of an empty \<open>std::string\<close> is the NUL character.
\<close>

definition str0 :: "string \<Rightarrow> char" where
  "str0 s = (case s of [] \<Rightarrow> CHR 0x00 | c # _ \<Rightarrow> c)"

definition step_comment :: "char \<Rightarrow> locals \<Rightarrow> toker \<Rightarrow> outcome" where
  "step_comment ch l0 t =
     (let l = out [ch] l0 in
      if ch = CHR ''\<newline>'' then
        (if str0 (buf l) = symchars l ! 0 then ret T_doc (drop 1 (buf l)) (goto st_none t)
         else Loop (l\<lparr>buf := []\<rparr>) (goto st_none t))
      else Loop l t)"

definition step_ccomment :: "char \<Rightarrow> locals \<Rightarrow> toker \<Rightarrow> outcome" where
  "step_ccomment ch l t =
     (if ch = CHR ''*'' then Loop l (goto st_ccomment2 t) else Loop (out [ch] l) t)"

definition step_ccomment2 :: "char \<Rightarrow> locals \<Rightarrow> toker \<Rightarrow> outcome" where
  "step_ccomment2 ch l t =
     (if ch = CHR ''/'' then
        (if str0 (buf l) = CHR ''*'' then ret T_doc (drop 1 (buf l)) (goto st_none t)
         else Loop (l\<lparr>buf := []\<rparr>) (goto st_none t))
      else if ch \<noteq> CHR ''*'' then Loop (out [CHR ''*'', ch] l) (goto st_ccomment t)
      else Loop (out ''**'' l) t)"

section \<open>Strings\<close>

definition step_string :: "char \<Rightarrow> locals \<Rightarrow> toker \<Rightarrow> outcome" where
  "step_string ch l t0 =
     (if ch = terminator l then
        (let t = goto st_none t0 in
         if indentedString t
         then (case reindent (buf l) t of (val, t') \<Rightarrow> ret (t1 l) val t')
         else ret (t1 l) (buf l) t)
      else if ch = CHR 0x5C then Loop l (goto st_strEscapeChar t0)
      else Loop (out [ch] l) t0)"

text \<open>
  The escape states exist twice, for plain strings and for i-strings (\<open>interp\<close>); each
  pair shares its code, which returns to the string it came from.
\<close>

definition base :: "bool \<Rightarrow> tstate" where
  "base interp = (if interp then st_istr else st_string)"

definition step_escape :: "bool \<Rightarrow> char \<Rightarrow> locals \<Rightarrow> toker \<Rightarrow> outcome" where
  "step_escape interp ch l t =
     (let back = goto (base interp) t in
      if ch = CHR ''t'' then Loop (out [CHR 0x09] l) back
      else if ch = CHR ''n'' then Loop (out [CHR 0x0A] l) back
      else if ch = CHR ''a'' then Loop (out [CHR 0x07] l) back
      else if ch = CHR ''r'' then Loop (out [CHR 0x0D] l) back
      else if ch = CHR ''b'' then Loop (out [CHR 0x08] l) back
      else if ch = CHR ''x'' then
        Loop (l\<lparr>codeChar := 0, codeLen := 0\<rparr>) (goto (if interp then st_istrHex else st_strHex) t)
      else if ch = CHR ''\<newline>'' then
        (if indentedString t then
           Loop l (goto (if interp then st_istrEscapedIndentedNewline
                         else st_strEscapedIndentedNewline) (t\<lparr>indentLevel := 0\<rparr>))
         else Loop l back)
      else if isdigit ch \<and> (of_char ch :: nat) < 56 then
        Loop (l\<lparr>codeChar := byte_of_char ch - 48, codeLen := 1\<rparr>)
             (goto (if interp then st_istrOctal else st_strOctal) t)
      else Loop (out [ch] l) back)"

definition step_escapedNewline :: "bool \<Rightarrow> char \<Rightarrow> locals \<Rightarrow> toker \<Rightarrow> outcome" where
  "step_escapedNewline interp ch l t =
     (if ch = CHR '' '' then Loop l (t\<lparr>indentLevel := indentLevel t + 1\<rparr>)
      else if ch = CHR 0x09 then
        Loop l (t\<lparr>indentLevel := (indentLevel t div tabWidth + 1) * tabWidth\<rparr>)
      else unget ch t (\<lambda>t. Loop l (goto (base interp)
             (if indentLevel t < minIndentLevel t
              then t\<lparr>minIndentLevel := indentLevel t\<rparr> else t))))"

definition step_strOctal :: "bool \<Rightarrow> char \<Rightarrow> locals \<Rightarrow> toker \<Rightarrow> outcome" where
  "step_strOctal interp ch l t =
     (if isdigit ch \<and> (of_char ch :: nat) < 56 \<and> codeLen l < 3 then
        Loop (l\<lparr>codeChar := or (push_bit 3 (codeChar l)) (byte_of_char ch - 48),
                codeLen := codeLen l + 1\<rparr>) t
      else unget ch t (\<lambda>t. Loop (out [char_of_byte (codeChar l)] l) (goto (base interp) t)))"

text \<open>The value of a hexadecimal digit, as the code subtracts it.\<close>

definition hexDigit :: "char \<Rightarrow> byte option" where
  "hexDigit ch =
     (if isdigit ch then Some (byte_of_char ch - 48)
      else if 97 \<le> (of_char ch :: nat) \<and> (of_char ch :: nat) \<le> 102
      then Some (byte_of_char ch - 97 + 10)
      else if 65 \<le> (of_char ch :: nat) \<and> (of_char ch :: nat) \<le> 70
      then Some (byte_of_char ch - 65 + 10)
      else None)"

definition step_strHex :: "bool \<Rightarrow> char \<Rightarrow> locals \<Rightarrow> toker \<Rightarrow> outcome" where
  "step_strHex interp ch l t =
     (case hexDigit ch of
        None \<Rightarrow> abort T_string (buf l)
          ''invalid hex code escape sequence (must be two hex digits)'' t
      | Some d \<Rightarrow>
          let code = or (push_bit 4 (codeChar l)) d; len = codeLen l + 1;
              l' = l\<lparr>codeChar := code, codeLen := len\<rparr>
          in if len = 2 then Loop (out [char_of_byte code] l') (goto (base interp) t)
             else Loop l' t)"

definition step_rawStrBody :: "char \<Rightarrow> locals \<Rightarrow> toker \<Rightarrow> outcome" where
  "step_rawStrBody ch l t =
     (if ch = terminator l then ret T_string (buf l) (goto st_none t)
      else Loop (out [ch] l) (if ch = CHR 0x5C then goto st_rawStrEscape t else t))"

definition step_rawStrEscape :: "char \<Rightarrow> locals \<Rightarrow> toker \<Rightarrow> outcome" where
  "step_rawStrEscape ch l t = Loop (out [ch] l) (goto st_rawStrBody t)"

definition step_istr :: "char \<Rightarrow> locals \<Rightarrow> toker \<Rightarrow> outcome" where
  "step_istr ch l t =
     (if ch = CHR 0x60 then
        (if buf l \<noteq> [] then unget ch t (ret T_string (buf l))
         else ret T_istrEnd [CHR 0x60] (goto st_none t))
      else if ch = CHR ''$'' then ret T_string (buf l) (goto st_interpNone t)
      else if ch = CHR 0x5C then Loop l (goto st_istrEscapeChar t)
      else Loop (out [ch] l) t)"

section \<open>Numbers\<close>

text \<open>The three states of constants in a given radix, which differ in the digits they accept.\<close>

definition step_radix ::
  "(char \<Rightarrow> bool) \<Rightarrow> string \<Rightarrow> ttype \<Rightarrow> char \<Rightarrow> locals \<Rightarrow> toker \<Rightarrow> outcome" where
  "step_radix digit msg tt ch l t =
     (if digit ch then Loop (out [ch] l) t
      else unget ch t (\<lambda>t. if length (buf l) = 0 then abort T_string (buf l) msg t
                           else ret tt (buf l) (goto st_none t)))"

definition step_binary :: "char \<Rightarrow> locals \<Rightarrow> toker \<Rightarrow> outcome" where
  "step_binary = step_radix (\<lambda>ch. ch = CHR ''0'' \<or> ch = CHR ''1'')
     ''invalid binary constant'' T_binLit"

definition step_octal :: "char \<Rightarrow> locals \<Rightarrow> toker \<Rightarrow> outcome" where
  "step_octal = step_radix (\<lambda>ch. 48 \<le> (of_char ch :: nat) \<and> (of_char ch :: nat) \<le> 55)
     ''invalid octal constant'' T_octalLit"

definition step_hex :: "char \<Rightarrow> locals \<Rightarrow> toker \<Rightarrow> outcome" where
  "step_hex = step_radix isxdigit ''invalid hex constant'' T_hexLit"

text \<open>The code tests \<open>ch == 'b' || ch == 'b'\<close>.\<close>

definition step_zero :: "char \<Rightarrow> locals \<Rightarrow> toker \<Rightarrow> outcome" where
  "step_zero ch l t =
     (if ch = CHR ''x'' \<or> ch = CHR ''X'' then Loop l (goto st_hex t)
      else if ch = CHR ''o'' \<or> ch = CHR ''O'' then Loop (out ''0'' l) (goto st_octal t)
      else if ch = CHR ''b'' \<or> ch = CHR ''b'' then Loop l (goto st_binary t)
      else if ch = CHR ''.'' then Loop (out [ch] l) (goto st_float t)
      else if isdigit ch then unget ch (goto st_octal t) (Loop l)
      else unget ch t (\<lambda>t. ret T_integer ''0'' (goto st_none t)))"

definition step_period :: "char \<Rightarrow> locals \<Rightarrow> toker \<Rightarrow> outcome" where
  "step_period ch l t =
     (if isdigit ch then Loop (out [CHR ''.'', ch] l) (goto st_float t)
      else unget ch t (\<lambda>t. ret T_dot ''.'' (goto st_none t)))"

definition step_number :: "char \<Rightarrow> locals \<Rightarrow> toker \<Rightarrow> outcome" where
  "step_number ch l t =
     (if isdigit ch then Loop (out [ch] l) t
      else if ch = CHR ''.'' then Loop l (goto st_intdot t)
      else if ch = CHR ''e'' \<or> ch = CHR ''E'' then Loop (out [ch] l) (goto st_exponent t)
      else unget ch t (\<lambda>t. ret T_integer (buf l) (goto st_none t)))"

definition step_intdot :: "char \<Rightarrow> locals \<Rightarrow> toker \<Rightarrow> outcome" where
  "step_intdot ch l t =
     (if isdigit ch then Loop (out [CHR ''.'', ch] l) (goto st_float t)
      else unget ch t (\<lambda>t. unget (CHR ''.'') t
             (\<lambda>t. ret T_integer (buf l) (goto st_none t))))"

definition step_float :: "char \<Rightarrow> locals \<Rightarrow> toker \<Rightarrow> outcome" where
  "step_float ch l t =
     (if isdigit ch then Loop (out [ch] l) t
      else if ch = CHR ''e'' \<or> ch = CHR ''E'' then Loop (out [ch] l) (goto st_exponent t)
      else unget ch t (\<lambda>t. ret (if tk_state t = st_float then T_floatLit else T_integer)
             (buf l) (goto st_none t)))"

definition step_exponent2 :: "char \<Rightarrow> locals \<Rightarrow> toker \<Rightarrow> outcome" where
  "step_exponent2 ch l t =
     (if isdigit ch then Loop (out [ch] l) (goto st_exponent3 t)
      else abort T_string (buf l) ''invalid float specification'' t)"

definition step_exponent :: "char \<Rightarrow> locals \<Rightarrow> toker \<Rightarrow> outcome" where
  "step_exponent ch l t =
     (if ch = CHR ''+'' \<or> ch = CHR ''-'' then Loop (out [ch] l) (goto st_exponent2 t)
      else step_exponent2 ch l t)"

definition step_exponent3 :: "char \<Rightarrow> locals \<Rightarrow> toker \<Rightarrow> outcome" where
  "step_exponent3 ch l t =
     (if isdigit ch then Loop (out [ch] l) t
      else unget ch t (\<lambda>t. ret T_floatLit (buf l) (goto st_none t)))"

section \<open>The switch\<close>

text \<open>
  \<open>switch (state)\<close>. Every enumerator has a case, so the default of the code, which throws
  "tokenizer in illegal state", has no equation.
\<close>

definition step :: "char \<Rightarrow> locals \<Rightarrow> toker \<Rightarrow> outcome" where
  "step ch l t =
     (case tk_state t of
        st_none \<Rightarrow> step_none ch l t
      | st_interpNone \<Rightarrow> step_interpNone ch l t
      | st_amp \<Rightarrow> step_amp ch l t
      | st_pipe \<Rightarrow> step_pipe ch l t
      | st_minus \<Rightarrow> step_minus ch l t
      | st_ltgt \<Rightarrow> step_ltgt ch l t
      | st_digram \<Rightarrow> step_digram ch l t
      | st_period \<Rightarrow> step_period ch l t
      | st_strint \<Rightarrow> step_strint ch l t
      | st_rawStr \<Rightarrow> step_rawStr ch l t
      | st_indentStr \<Rightarrow> step_indentStr ch l t
      | st_ident \<Rightarrow> step_ident ch l t
      | st_slash \<Rightarrow> step_slash ch l t
      | st_comment \<Rightarrow> step_comment ch l t
      | st_ccomment \<Rightarrow> step_ccomment ch l t
      | st_ccomment2 \<Rightarrow> step_ccomment2 ch l t
      | st_string \<Rightarrow> step_string ch l t
      | st_strEscapeChar \<Rightarrow> step_escape False ch l t
      | st_istrEscapeChar \<Rightarrow> step_escape True ch l t
      | st_strEscapedIndentedNewline \<Rightarrow> step_escapedNewline False ch l t
      | st_istrEscapedIndentedNewline \<Rightarrow> step_escapedNewline True ch l t
      | st_strOctal \<Rightarrow> step_strOctal False ch l t
      | st_istrOctal \<Rightarrow> step_strOctal True ch l t
      | st_strHex \<Rightarrow> step_strHex False ch l t
      | st_istrHex \<Rightarrow> step_strHex True ch l t
      | st_binary \<Rightarrow> step_binary ch l t
      | st_rawStrBody \<Rightarrow> step_rawStrBody ch l t
      | st_rawStrEscape \<Rightarrow> step_rawStrEscape ch l t
      | st_octal \<Rightarrow> step_octal ch l t
      | st_hex \<Rightarrow> step_hex ch l t
      | st_zero \<Rightarrow> step_zero ch l t
      | st_number \<Rightarrow> step_number ch l t
      | st_intdot \<Rightarrow> step_intdot ch l t
      | st_float \<Rightarrow> step_float ch l t
      | st_exponent \<Rightarrow> step_exponent ch l t
      | st_exponent2 \<Rightarrow> step_exponent2 ch l t
      | st_exponent3 \<Rightarrow> step_exponent3 ch l t
      | st_istr \<Rightarrow> step_istr ch l t
      | st_plus \<Rightarrow> step_plus ch l t
      | st_postaug \<Rightarrow> step_postaug ch l t)"

end
