(* ===== verification/Toker_Spec.thy ===== *)
theory Toker_Spec
  imports Toker_Step
begin

text \<open>
  What one iteration of the tokenizer's loop may do, proved once for all forty states:
  which characters it gives back, which states it moves between, and that the local array
  \<open>symchars\<close> is never overrun. Termination, progress, safety and the accounting of the
  input all follow from this one fact (\<open>step_post\<close>).
\<close>

section \<open>Primitives\<close>

text \<open>The fields that say where the tokenizer is in its input.\<close>

definition sameInput :: "toker \<Rightarrow> toker \<Rightarrow> bool" where
  "sameInput t u \<longleftrightarrow> src u = src t \<and> putbackBuf u = putbackBuf t \<and>
     putbackIndex u = putbackIndex t \<and> currentName u = currentName t \<and>
     currentLine u = currentLine t \<and> currentEndCol u = currentEndCol t \<and>
     saveEndCol u = saveEndCol t \<and> tokens u = tokens t"

lemma sameInput_refl [simp, intro]: "sameInput t t"
  by (simp add: sameInput_def)

lemma sameInput_trans: "sameInput t u \<Longrightarrow> sameInput u v \<Longrightarrow> sameInput t v"
  by (simp add: sameInput_def)

lemma sameInput_pending: "sameInput t u \<Longrightarrow> pending u = pending t"
  by (simp add: sameInput_def pending_def)

lemma sameInput_remaining: "sameInput t u \<Longrightarrow> remaining u = remaining t"
  by (simp add: sameInput_def remaining_def)

lemma sameInput_ok: "sameInput t u \<Longrightarrow> putback_ok u = putback_ok t"
  by (simp add: sameInput_def putback_ok_def)

lemma getLocation_snd [simp]:
  "tokens (snd (getLocation t)) = tokens t" "src (snd (getLocation t)) = src t"
  "currentName (snd (getLocation t)) = currentName t"
  "currentLine (snd (getLocation t)) = currentLine t"
  "currentStartCol (snd (getLocation t)) = currentStartCol t"
  "currentEndCol (snd (getLocation t)) = currentEndCol t"
  "saveEndCol (snd (getLocation t)) = saveEndCol t"
  "tk_state (snd (getLocation t)) = tk_state t"
  "putbackBuf (snd (getLocation t)) = putbackBuf t"
  "putbackIndex (snd (getLocation t)) = putbackIndex t"
  "indentedString (snd (getLocation t)) = indentedString t"
  "indentLevel (snd (getLocation t)) = indentLevel t"
  "minIndentLevel (snd (getLocation t)) = minIndentLevel t"
  by (simp_all add: getLocation_def Let_def)

lemma getLocation_loc [simp]:
  "lastLoc (snd (getLocation t)) = fst (getLocation t)"
  "getLineNumber (fst (getLocation t)) = currentLine t"
  "getName (fst (getLocation t)) = currentName t"
  by (auto simp: getLocation_def getLineNumber_def getName_def Let_def)

lemma ret_eq: "ret tt d t = Return (mkToken tt d (fst (getLocation t))) (snd (getLocation t))"
  by (simp add: ret_def split: prod.split)

lemma fixIdent_eq:
  "fixIdent d t = (if map_of keywordTable d = None
     then ret T_ident d (snd (getLocation t)) else ret (identType d) d t)"
  by (simp add: fixIdent_def ret_def identType_def split: prod.split option.split)

lemma initIndent_sel [simp]:
  "sameInput t (initIndent b u) = sameInput t u"
  "tk_state (initIndent b t) = tk_state t"
  by (simp_all add: initIndent_def sameInput_def)

lemma sameInput_goto [simp]: "sameInput t (goto s u) = sameInput t u"
  by (simp add: sameInput_def)

lemma sameInput_getLocation [simp]: "sameInput t (snd (getLocation u)) = sameInput t u"
  by (simp add: sameInput_def)

lemma reindent_snd:
  "sameInput t (snd (reindent val u)) = sameInput t u"
  "tk_state (snd (reindent val u)) = tk_state u"
  by (simp_all add: reindent_def evaluateIndentation_def sameInput_def Let_def)

text \<open>\<open>getChar\<close> takes the first pending character; \<open>ungetChar\<close> puts one in front.\<close>

lemma countChar_sel [simp]:
  "src (countChar r t) = src t" "putbackBuf (countChar r t) = putbackBuf t"
  "putbackIndex (countChar r t) = putbackIndex t" "tk_state (countChar r t) = tk_state t"
  "tokens (countChar r t) = tokens t" "lastLoc (countChar r t) = lastLoc t"
  "currentName (countChar r t) = currentName t"
  "indentedString (countChar r t) = indentedString t"
  by (simp_all add: countChar_def Let_def)

lemma getChar_Some:
  assumes "getChar t = (Some ch, t')"
  shows "remaining t = Suc (remaining t')" and "putbackIndex t' \<ge> 1"
    and "putback_ok t \<Longrightarrow> putback_ok t' \<and> pending t = ch # pending t'"
    and "putbackIndex t' \<ge> putbackIndex t" and "putbackIndex t \<ge> 1 \<Longrightarrow> putbackIndex t' \<ge> 2"
    and "tk_state t' = tk_state t" and "tokens t' = tokens t"
  using assms
  by (auto simp: getChar_def remaining_def putbackSize_def putback_ok_def pending_def Let_def
      drop_Cons_nth split: if_splits list.splits)

lemma getChar_None:
  assumes "getChar t = (None, t')"
  shows "remaining t = 0" and "remaining t' = 0" and "tk_state t' = tk_state t"
    and "putback_ok t \<Longrightarrow> putback_ok t' \<and> pending t = [] \<and> pending t' = []"
    and "tokens t' = tokens t"
  using assms
  by (auto simp: getChar_def remaining_def putbackSize_def putback_ok_def pending_def Let_def
      split: if_splits list.splits)

lemma ungetChar_Some:
  assumes "ungetChar ch t = Some t'"
  shows "remaining t' \<le> Suc (remaining t)"
    and "putback_ok t \<Longrightarrow> putback_ok t' \<and> pending t' = ch # pending t"
    and "tk_state t' = tk_state t" and "tokens t' = tokens t"
    and "putbackIndex t' = putbackIndex t - 1"
    and "currentName t' = currentName t"
  using assms
  by (auto simp: ungetChar_def remaining_def putbackSize_def putback_ok_def pending_def Let_def
      nth_list_update_drop split: if_splits)

lemma ungetChar_None: "ungetChar ch t = None \<longleftrightarrow> putbackIndex t = 0"
  by (simp add: ungetChar_def Let_def)

text \<open>Putting a character back undoes reading it, but for the start column.\<close>

lemma ungetChar_goto:
  "ungetChar ch (goto s t) = map_option (goto s) (ungetChar ch t)"
  by (simp add: ungetChar_def Let_def)

section \<open>The summary of one iteration\<close>

text \<open>
  How many characters of the token being read a state has consumed at least; \<open>stall\<close>
  marks the states that may put a character back and go round again.
\<close>

definition need :: "tstate \<Rightarrow> string \<Rightarrow> nat" where
  "need s b = (case s of st_none \<Rightarrow> 0 | st_interpNone \<Rightarrow> 0
     | st_istr \<Rightarrow> (if b = [] then 0 else 1) | st_intdot \<Rightarrow> 2 | _ \<Rightarrow> 1)"

definition stall :: "tstate \<Rightarrow> nat" where
  "stall s = (if s \<in> {st_zero, st_strOctal, st_istrOctal, st_strEscapedIndentedNewline,
                      st_istrEscapedIndentedNewline} then 1 else 0)"

text \<open>The states \<open>readToken()\<close> may be entered in, and how much of \<open>symchars\<close> is in use.\<close>

definition restState :: "tstate \<Rightarrow> bool" where
  "restState s \<longleftrightarrow> s = st_none \<or> s = st_interpNone \<or> s = st_istr"

definition locals_ok :: "tstate \<Rightarrow> locals \<Rightarrow> bool" where
  "locals_ok s l \<longleftrightarrow> length (symchars l) = 4 \<and>
     (if s = st_digram \<or> s = st_ltgt then sci l = 1
      else if s = st_postaug then sci l = 1 \<or> sci l = 2 else sci l = 0)"

lemma need_simps [simp]:
  "need st_none b = 0" "need st_interpNone b = 0" "need st_intdot b = 2"
  "need st_istr b = (if b = [] then 0 else 1)" "need st_number b = 1"
  by (simp_all add: need_def)

lemma need_le1: "s \<noteq> st_intdot \<Longrightarrow> need s b \<le> Suc n"
  by (simp add: need_def split: tstate.split)

lemma need_ge1: "\<not> restState s \<Longrightarrow> Suc 0 \<le> need s b"
  by (simp add: need_def restState_def split: tstate.split)

lemma restState_simps [simp]: "restState st_none" "restState st_interpNone" "restState st_istr"
  by (simp_all add: restState_def)

text \<open>
  The state left by a returned token: only a string or the beginning of an I-string leaves
  the tokenizer inside an I-string.
\<close>

definition restAfter :: "tstate \<Rightarrow> ttype \<Rightarrow> bool" where
  "restAfter s tt \<longleftrightarrow> s = st_none \<or>
     (s = st_interpNone \<or> s = st_istr) \<and> (tt = T_string \<or> tt = T_istrBegin)"

lemma restAfter_simps [simp]:
  "restAfter st_none tt" "restAfter st_istr T_string" "restAfter st_istr T_istrBegin"
  "restAfter st_interpNone T_string"
  by (simp_all add: restAfter_def)

lemma restAfter_restState: "restAfter s tt \<Longrightarrow> restState s"
  by (auto simp: restAfter_def)

text \<open>
  \<open>l\<close> and \<open>t\<close> are the locals and the tokenizer after \<open>ch\<close> was read; \<open>G\<close> stands for
  the locals being in order, which only the use of \<open>symchars\<close> depends on. Going round again
  either keeps the input where it is or puts \<open>ch\<close> back and leaves a stalling state; a
  returned token leaves the input after \<open>ch\<close>, before it, or, after an integer and a
  period, before the period, and carries the location left in \<open>lastLoc\<close>. Assertions fail only when the putback buffer is full.
\<close>

definition stepPost :: "bool \<Rightarrow> char \<Rightarrow> locals \<Rightarrow> toker \<Rightarrow> outcome \<Rightarrow> bool" where
  "stepPost G ch l t r = (case r of
     Loop l' t' \<Rightarrow>
       (G \<longrightarrow> locals_ok (tk_state t') l') \<and>
       (tk_state t' = st_intdot \<longrightarrow> tk_state t = st_number \<and> ch = CHR ''.'' \<and> sameInput t t') \<and>
       (tk_state t' = st_number \<longrightarrow> sameInput t t') \<and>
       (sameInput t t' \<and> need (tk_state t') (buf l') \<le> Suc (need (tk_state t) (buf l)) \<or>
        (\<exists>u. ungetChar ch t = Some u \<and> sameInput u t' \<and>
          need (tk_state t') (buf l') \<le> need (tk_state t) (buf l) \<and>
          stall (tk_state t') < stall (tk_state t)))
   | Return tok t' \<Rightarrow>
       restAfter (tk_state t') (tok_type tok) \<and> tok_loc tok = lastLoc t' \<and>
       getLineNumber (lastLoc t') = currentLine t' \<and> getName (lastLoc t') = currentName t' \<and>
       (sameInput t t' \<or>
        (\<exists>u. ungetChar ch t = Some u \<and> sameInput u t' \<and> 1 \<le> need (tk_state t) (buf l)) \<or>
        (\<exists>u v. tk_state t = st_intdot \<and> ungetChar ch t = Some u \<and>
          ungetChar (CHR ''.'') u = Some v \<and> sameInput v t'))
   | Throw e \<Rightarrow>
       (case e of ParseAbort tok msg \<Rightarrow> True
        | AssertFailed msg \<Rightarrow> putbackIndex t = 0 \<or>
            (tk_state t = st_intdot \<and> putbackIndex t < 2)
        | SymcharsOverflow \<Rightarrow> \<not> G))"

lemma stepPost_if:
  "stepPost G ch l t x \<Longrightarrow> stepPost G ch l t y \<Longrightarrow> stepPost G ch l t (if b then x else y)"
  by simp

lemma stepPost_abort [simp]: "stepPost G ch l t (abort tt d msg u)"
  by (simp add: stepPost_def abort_def)

lemma stepPost_ret: "sameInput t u \<Longrightarrow> restAfter (tk_state u) tt \<Longrightarrow> stepPost G ch l t (ret tt d u)"
  by (simp add: stepPost_def ret_eq)

lemma stepPost_ret_unget:
  "ungetChar ch t = Some v \<Longrightarrow> sameInput v u \<Longrightarrow> 1 \<le> need (tk_state t) (buf l) \<Longrightarrow>
   restAfter (tk_state u) tt \<Longrightarrow> stepPost G ch l t (ret tt d u)"
  by (simp add: stepPost_def ret_eq)

lemma stepPost_fixIdent_unget:
  "ungetChar ch t = Some v \<Longrightarrow> sameInput v u \<Longrightarrow> 1 \<le> need (tk_state t) (buf l) \<Longrightarrow>
   tk_state u = st_none \<Longrightarrow> stepPost G ch l t (fixIdent d u)"
  by (simp add: stepPost_def fixIdent_eq ret_eq)

lemma stepPost_Loop:
  "(G \<Longrightarrow> locals_ok (tk_state u) l') \<Longrightarrow> tk_state u \<noteq> st_intdot \<Longrightarrow> sameInput t u \<Longrightarrow>
   need (tk_state u) (buf l') \<le> Suc (need (tk_state t) (buf l)) \<Longrightarrow>
   stepPost G ch l t (Loop l' u)"
  by (simp add: stepPost_def)

lemma sameInput_ungetChar:
  "sameInput t t' \<Longrightarrow> ungetChar ch t' = Some u \<Longrightarrow>
   \<exists>v. ungetChar ch t = Some v \<and> sameInput v u"
  by (auto simp: ungetChar_def sameInput_def Let_def split: if_splits)

lemma stepPost_unget:
  assumes "sameInput t t'"
    and "\<And>u v. ungetChar ch t' = Some u \<Longrightarrow> tk_state u = tk_state t' \<Longrightarrow>
           ungetChar ch t = Some v \<Longrightarrow> sameInput v u \<Longrightarrow> stepPost G ch l t (k u)"
  shows "stepPost G ch l t (unget ch t' k)"
proof (cases "ungetChar ch t'")
  case None
  then have "putbackIndex t = 0"
    using assms(1) by (simp add: ungetChar_None sameInput_def)
  with None show ?thesis
    by (simp add: unget_def stepPost_def)
next
  case (Some u)
  with assms(1) obtain v where "ungetChar ch t = Some v" "sameInput v u"
    using sameInput_ungetChar by blast
  with Some assms(2) show ?thesis
    by (simp add: unget_def ungetChar_Some)
qed

lemma stepPost_unget_ret:
  assumes "sameInput t t'" and "Suc 0 \<le> need (tk_state t) (buf l)"
  shows "restAfter (tk_state t') tt \<Longrightarrow> stepPost G ch l t (unget ch t' (ret tt d))"
    and "stepPost G ch l t (unget ch t' (\<lambda>u. ret (f u) d (goto st_none u)))"
    and "stepPost G ch l t (unget ch t' (\<lambda>u. fixIdent d (goto st_none u)))"
  using assms
  by (auto intro!: stepPost_unget stepPost_ret_unget stepPost_fixIdent_unget
      simp: restState_def)

lemma stepPost_setSym:
  "(G \<Longrightarrow> i < length (symchars l')) \<Longrightarrow>
   stepPost G ch l t (k (l'\<lparr>symchars := (symchars l')[i := c]\<rparr>)) \<Longrightarrow>
   stepPost G ch l t (setSym i c l' k)"
  by (auto simp: setSym_def stepPost_def)

lemma stepPost_pushSym:
  "(G \<Longrightarrow> sci l' < length (symchars l')) \<Longrightarrow>
   stepPost G ch l t (k (l'\<lparr>sci := sci l' + 1, symchars := (symchars l')[sci l' := c]\<rparr>)) \<Longrightarrow>
   stepPost G ch l t (pushSym c l' k)"
  by (auto simp: pushSym_def setSym_def stepPost_def)

lemmas stepPost_rules =
  stepPost_ret stepPost_Loop stepPost_unget stepPost_setSym stepPost_pushSym
  stepPost_ret_unget stepPost_fixIdent_unget

lemma out_sel [simp]:
  "symchars (out s l) = symchars l" "sci (out s l) = sci l" "buf (out s l) = buf l @ s"
  "t1 (out s l) = t1 l" "t2 (out s l) = t2 l" "t3 (out s l) = t3 l"
  "terminator (out s l) = terminator l" "codeChar (out s l) = codeChar l"
  "codeLen (out s l) = codeLen l"
  by (simp_all add: out_def)

lemma sameInput_upd [simp]:
  "sameInput t (u\<lparr>currentStartCol := n\<rparr>) = sameInput t u"
  "sameInput t (u\<lparr>indentLevel := n\<rparr>) = sameInput t u"
  "sameInput t (u\<lparr>minIndentLevel := n\<rparr>) = sameInput t u"
  by (simp_all add: sameInput_def)

lemma step_interpNone_post:
  assumes "G \<Longrightarrow> length (symchars l) = 4" and "G \<Longrightarrow> sci l = 0"
  shows "stepPost G ch l t (step_interpNone ch l t)"
  unfolding step_interpNone_def Let_def
  by (intro stepPost_if stepPost_ret stepPost_Loop stepPost_setSym stepPost_pushSym stepPost_abort)
     (simp_all add: assms locals_ok_def need_le1)

lemma stepPost_ifI:
  "(b \<Longrightarrow> stepPost G ch l t x) \<Longrightarrow> (\<not> b \<Longrightarrow> stepPost G ch l t y) \<Longrightarrow>
   stepPost G ch l t (if b then x else y)"
  by simp

lemma step_none_post:
  assumes "G \<Longrightarrow> length (symchars l) = 4" and "G \<Longrightarrow> sci l = 0"
  shows "stepPost G ch l t (step_none ch l t)"
  unfolding step_none_def
  by (intro stepPost_if stepPost_Loop step_interpNone_post)
     (simp_all add: assms locals_ok_def need_le1)

lemma step_ident_post:
  assumes "G \<Longrightarrow> length (symchars l) = 4" and "G \<Longrightarrow> sci l = 0" and "\<not> restState (tk_state t)"
    and "sameInput t u" and "tk_state u = st_ident"
  shows "stepPost G ch l t (step_ident ch l u)"
  unfolding step_ident_def
  by (intro stepPost_if stepPost_Loop stepPost_unget_ret)
     (simp_all add: assms locals_ok_def need_le1 need_ge1)

lemma step_indentStr_post:
  assumes "G \<Longrightarrow> length (symchars l) = 4" and "G \<Longrightarrow> sci l = 0" and "\<not> restState (tk_state t)"
  shows "stepPost G ch l t (step_indentStr ch l t)"
  unfolding step_indentStr_def
  by (intro stepPost_if stepPost_Loop stepPost_ret step_ident_post)
     (simp_all add: assms locals_ok_def need_le1)

lemma step_rawStr_post:
  assumes "G \<Longrightarrow> length (symchars l) = 4" and "G \<Longrightarrow> sci l = 0" and "\<not> restState (tk_state t)"
  shows "stepPost G ch l t (step_rawStr ch l t)"
  unfolding step_rawStr_def
  by (intro stepPost_if stepPost_Loop step_indentStr_post)
     (simp_all add: assms locals_ok_def need_le1)

lemma step_strint_post:
  assumes "G \<Longrightarrow> length (symchars l) = 4" and "G \<Longrightarrow> sci l = 0" and "\<not> restState (tk_state t)"
  shows "stepPost G ch l t (step_strint ch l t)"
  unfolding step_strint_def
  by (intro stepPost_if stepPost_Loop step_rawStr_post)
     (simp_all add: assms locals_ok_def need_le1)

text \<open>Operators, comments and numbers return the character they do not belong to.\<close>

lemma step_oper_post:
  assumes "\<not> restState (tk_state t)"
  shows "stepPost G ch l t (step_oper op d a s ch l t)"
  unfolding step_oper_def Let_def
  by (intro stepPost_if stepPost_ret stepPost_unget_ret) (simp_all add: assms need_ge1)

lemma step_digram_post:
  assumes "G \<Longrightarrow> length (symchars l) = 4" and "G \<Longrightarrow> sci l = 1" and "\<not> restState (tk_state t)"
  shows "stepPost G ch l t (step_digram ch l t)"
  unfolding step_digram_def Let_def
  by (intro stepPost_if stepPost_ret stepPost_unget_ret stepPost_setSym stepPost_pushSym)
     (auto simp: assms need_ge1)

lemma step_ltgt_post:
  assumes "G \<Longrightarrow> length (symchars l) = 4" and "G \<Longrightarrow> sci l = 1" and "\<not> restState (tk_state t)"
  shows "stepPost G ch l t (step_ltgt ch l t)"
  unfolding step_ltgt_def
  by (intro stepPost_if stepPost_Loop stepPost_pushSym step_digram_post)
     (simp_all add: assms locals_ok_def need_le1)

lemma step_postaug_post:
  assumes "G \<Longrightarrow> length (symchars l) = 4" and "G \<Longrightarrow> sci l = 1 \<or> sci l = 2" and "\<not> restState (tk_state t)"
  shows "stepPost G ch l t (step_postaug ch l t)"
  using assms(2) unfolding step_postaug_def Let_def
  by (intro stepPost_if stepPost_ret stepPost_unget_ret stepPost_setSym stepPost_pushSym)
     (auto simp: assms need_ge1)

lemma step_slash_post:
  assumes "G \<Longrightarrow> locals_ok (tk_state t) l" and "tk_state t = st_slash"
  shows "stepPost G ch l t (step_slash ch l t)"
  using assms unfolding step_slash_def
  by (intro stepPost_if stepPost_ret stepPost_Loop stepPost_unget_ret stepPost_setSym)
     (simp_all add: locals_ok_def need_ge1 need_le1 restState_def)

lemma step_comment_post:
  assumes "G \<Longrightarrow> locals_ok (tk_state t) l" and "tk_state t = st_comment"
  shows "stepPost G ch l t (step_comment ch l t)"
  using assms unfolding step_comment_def Let_def
  by (intro stepPost_if stepPost_ret stepPost_Loop) (auto simp: locals_ok_def need_le1)

lemma step_ccomment_post:
  assumes "G \<Longrightarrow> locals_ok (tk_state t) l" and "tk_state t = st_ccomment"
  shows "stepPost G ch l t (step_ccomment ch l t)"
  using assms unfolding step_ccomment_def Let_def
  by (intro stepPost_if stepPost_ret stepPost_Loop) (auto simp: locals_ok_def need_le1)

lemma step_ccomment2_post:
  assumes "G \<Longrightarrow> locals_ok (tk_state t) l" and "tk_state t = st_ccomment2"
  shows "stepPost G ch l t (step_ccomment2 ch l t)"
  using assms unfolding step_ccomment2_def Let_def
  by (intro stepPost_if stepPost_ret stepPost_Loop) (auto simp: locals_ok_def need_le1)

lemma base_simps [simp]:
  "base interp \<noteq> st_intdot" "base interp \<noteq> st_digram" "base interp \<noteq> st_ltgt"
  "base interp \<noteq> st_postaug" "base interp \<noteq> st_number" "stall (base interp) = 0"
  by (simp_all add: base_def stall_def)

lemma stall_simps [simp]:
  "stall st_zero = 1" "stall st_strOctal = 1" "stall st_istrOctal = 1" "stall st_octal = 0"
  "stall st_strEscapedIndentedNewline = 1" "stall st_istrEscapedIndentedNewline = 1"
  by (simp_all add: stall_def)

lemma need_base: "need (base interp) b \<le> Suc 0"
  by (simp add: base_def need_def)

lemma step_string_post:
  assumes "G \<Longrightarrow> locals_ok (tk_state t) l" and "tk_state t = st_string"
  shows "stepPost G ch l t (step_string ch l t)"
  using assms unfolding step_string_def Let_def case_prod_beta
  by (intro stepPost_if stepPost_ret stepPost_Loop)
     (auto simp: locals_ok_def need_le1 reindent_snd)

lemma step_escape_post:
  assumes "G \<Longrightarrow> length (symchars l) = 4" and "G \<Longrightarrow> sci l = 0" and "\<not> restState (tk_state t)"
  shows "stepPost G ch l t (step_escape interp ch l t)"
  unfolding step_escape_def Let_def
  by (intro stepPost_if stepPost_Loop) (auto simp: assms locals_ok_def need_le1)

text \<open>Putting the character back and going round again, out of a stalling state.\<close>

lemma stepPost_unget_Loop:
  assumes "sameInput t t'" and "Suc 0 \<le> need (tk_state t) (buf l)" and "stall (tk_state t) = 1"
    and "\<And>u. sameInput u (g u)" and "\<And>u. tk_state u = tk_state t' \<Longrightarrow> tk_state (g u) = s"
    and "stall s = 0" and "need s (buf l') \<le> Suc 0" and "G \<Longrightarrow> locals_ok s l'" and "s \<noteq> st_intdot" and "s \<noteq> st_number"
  shows "stepPost G ch l t (unget ch t' (\<lambda>u. Loop l' (g u)))"
proof (rule stepPost_unget)
  fix u v assume "tk_state u = tk_state t'" "ungetChar ch t = Some v" "sameInput v u"
  moreover from \<open>sameInput v u\<close> assms(4) have "sameInput v (g u)"
    by (rule sameInput_trans)
  ultimately show "stepPost G ch l t (Loop l' (g u))"
    using assms by (simp add: stepPost_def)
qed (rule assms)

lemma step_escapedNewline_post:
  assumes "G \<Longrightarrow> length (symchars l) = 4" and "G \<Longrightarrow> sci l = 0"
    and "tk_state t = (if interp then st_istrEscapedIndentedNewline
                       else st_strEscapedIndentedNewline)"
  shows "stepPost G ch l t (step_escapedNewline interp ch l t)"
  unfolding step_escapedNewline_def
  by (intro stepPost_if stepPost_Loop stepPost_unget_Loop [where s = "base interp"])
     (auto simp: assms locals_ok_def need_le1 need_base need_ge1 restState_def)

lemma step_strOctal_post:
  assumes "G \<Longrightarrow> length (symchars l) = 4" and "G \<Longrightarrow> sci l = 0"
    and "tk_state t = (if interp then st_istrOctal else st_strOctal)"
  shows "stepPost G ch l t (step_strOctal interp ch l t)"
  unfolding step_strOctal_def
  by (intro stepPost_if stepPost_Loop stepPost_unget_Loop [where s = "base interp"])
     (auto simp: assms locals_ok_def need_le1 need_base need_ge1 restState_def)

lemma step_strHex_post:
  assumes "G \<Longrightarrow> length (symchars l) = 4" and "G \<Longrightarrow> sci l = 0"
    and "tk_state t = (if interp then st_istrHex else st_strHex)"
  shows "stepPost G ch l t (step_strHex interp ch l t)"
proof (cases "hexDigit ch")
  case None
  then show ?thesis by (simp add: step_strHex_def)
next
  case (Some d)
  then show ?thesis
    unfolding step_strHex_def option.case Let_def
    by (simp, intro conjI impI stepPost_if stepPost_Loop)
       (auto simp: assms locals_ok_def need_le1)
qed

lemma step_rawStrBody_post:
  assumes "G \<Longrightarrow> locals_ok (tk_state t) l" and "tk_state t = st_rawStrBody"
  shows "stepPost G ch l t (step_rawStrBody ch l t)"
  using assms unfolding step_rawStrBody_def
  by (intro stepPost_if stepPost_ret stepPost_Loop) (auto simp: locals_ok_def need_le1)

lemma step_rawStrEscape_post:
  assumes "G \<Longrightarrow> locals_ok (tk_state t) l" and "tk_state t = st_rawStrEscape"
  shows "stepPost G ch l t (step_rawStrEscape ch l t)"
  using assms unfolding step_rawStrEscape_def
  by (intro stepPost_Loop) (auto simp: locals_ok_def need_le1)

lemma step_istr_post:
  assumes "G \<Longrightarrow> locals_ok (tk_state t) l" and "tk_state t = st_istr"
  shows "stepPost G ch l t (step_istr ch l t)"
  using assms unfolding step_istr_def
  by (cases "buf l = []")
     (simp_all, intro conjI impI stepPost_if stepPost_ret stepPost_Loop stepPost_unget_ret;
      simp add: locals_ok_def need_le1)+

lemma step_radix_post:
  assumes "G \<Longrightarrow> locals_ok (tk_state t) l"
    and "tk_state t = st_hex \<or> tk_state t = st_octal \<or> tk_state t = st_binary"
  shows "stepPost G ch l t (step_radix digit msg tt ch l t)"
  unfolding step_radix_def
proof (intro stepPost_if stepPost_Loop stepPost_unget stepPost_abort)
  fix u v assume "ungetChar ch t = Some v" "sameInput v u"
  then show "stepPost G ch l t (ret tt (buf l) (goto st_none u))"
    using assms by (intro stepPost_ret_unget) (auto simp: need_ge1 restState_def)
qed (use assms in \<open>auto simp: locals_ok_def need_le1\<close>)

lemma step_zero_post:
  assumes "G \<Longrightarrow> locals_ok (tk_state t) l" and "tk_state t = st_zero"
  shows "stepPost G ch l t (step_zero ch l t)"
  using assms unfolding step_zero_def
  by (intro stepPost_if stepPost_ret stepPost_Loop stepPost_unget_ret
      stepPost_unget_Loop [where s = st_octal and g = "\<lambda>u. u"])
     (auto simp: locals_ok_def need_le1 need_ge1 restState_def)

lemma step_period_post:
  assumes "G \<Longrightarrow> locals_ok (tk_state t) l" and "tk_state t = st_period"
  shows "stepPost G ch l t (step_period ch l t)"
  using assms unfolding step_period_def
  by (intro stepPost_if stepPost_Loop stepPost_unget_ret)
     (auto simp: locals_ok_def need_le1 need_ge1 restState_def)

lemma step_number_post:
  assumes "G \<Longrightarrow> locals_ok (tk_state t) l" and "tk_state t = st_number"
  shows "stepPost G ch l t (step_number ch l t)"
proof (cases "\<not> isdigit ch \<and> ch = CHR ''.''")
  case True
  with assms show ?thesis
    by (simp add: step_number_def stepPost_def locals_ok_def)
next
  case False
  with assms show ?thesis unfolding step_number_def
    by (simp, intro conjI impI stepPost_if stepPost_Loop stepPost_unget_ret)
       (auto simp: locals_ok_def need_le1)
qed

lemma step_intdot_post:
  assumes "G \<Longrightarrow> locals_ok (tk_state t) l" and "tk_state t = st_intdot"
  shows "stepPost G ch l t (step_intdot ch l t)"
proof (cases "isdigit ch")
  case True
  with assms show ?thesis
    by (simp add: step_intdot_def stepPost_def locals_ok_def need_def)
next
  case False
  with assms show ?thesis
    by (auto simp: step_intdot_def stepPost_def unget_def ret_eq ungetChar_None ungetChar_Some
        split: option.split)
qed

lemma step_float_post:
  assumes "G \<Longrightarrow> locals_ok (tk_state t) l" and "tk_state t = st_float"
  shows "stepPost G ch l t (step_float ch l t)"
  using assms unfolding step_float_def
  by (intro stepPost_if stepPost_Loop stepPost_unget_ret)
     (auto simp: locals_ok_def need_le1 need_ge1 restState_def)

lemma step_exponent2_post:
  assumes "G \<Longrightarrow> length (symchars l) = 4" and "G \<Longrightarrow> sci l = 0"
  shows "stepPost G ch l t (step_exponent2 ch l t)"
  unfolding step_exponent2_def
  by (intro stepPost_if stepPost_Loop stepPost_abort) (auto simp: assms locals_ok_def need_le1)

lemma step_exponent_post:
  assumes "G \<Longrightarrow> length (symchars l) = 4" and "G \<Longrightarrow> sci l = 0"
  shows "stepPost G ch l t (step_exponent ch l t)"
  unfolding step_exponent_def
  by (intro stepPost_if stepPost_Loop step_exponent2_post)
     (auto simp: assms locals_ok_def need_le1)

lemma step_exponent3_post:
  assumes "G \<Longrightarrow> locals_ok (tk_state t) l" and "tk_state t = st_exponent3"
  shows "stepPost G ch l t (step_exponent3 ch l t)"
  using assms unfolding step_exponent3_def
  by (intro stepPost_if stepPost_Loop stepPost_unget_ret)
     (auto simp: locals_ok_def need_le1 need_ge1 restState_def)

lemmas step_posts =
  step_interpNone_post step_none_post step_ident_post step_indentStr_post step_rawStr_post
  step_strint_post step_oper_post step_digram_post step_ltgt_post step_postaug_post
  step_slash_post step_comment_post step_ccomment_post step_ccomment2_post step_string_post
  step_escape_post step_escapedNewline_post step_strOctal_post step_strHex_post
  step_rawStrBody_post step_rawStrEscape_post step_istr_post step_radix_post step_zero_post
  step_period_post step_number_post step_intdot_post step_float_post step_exponent2_post
  step_exponent_post step_exponent3_post

lemma step_post: "stepPost (locals_ok (tk_state t) l) ch l t (step ch l t)"
  by (cases "tk_state t")
     (simp_all add: step_def step_amp_def step_pipe_def step_minus_def step_plus_def
       step_binary_def step_octal_def step_hex_def locals_ok_def restState_def step_posts)

end
