(* ===== verification/Toker_Read.thy ===== *)
theory Toker_Read
  imports Toker_Spec
begin

text \<open>
  \<open>Toker::readToken()\<close> and \<open>Toker::getToken()\<close> (parser/Toker.cc): the loop over
  characters, with the proof that it ends, the end of the stream, the put-back list, and
  the batch reading of I-strings. The safety, progress and accounting theorems of the
  tokenizer are proved here from the summary of one iteration.
\<close>

section \<open>Reading a token from the stream\<close>

text \<open>The code after the loop of \<open>readToken()\<close>: the stream has ended.\<close>

definition atEnd :: "locals \<Rightarrow> toker \<Rightarrow> outcome" where
  "atEnd l t =
     (if tk_state t = st_none \<or> tk_state t = st_comment then ret T_end [] (goto st_none t)
      else if tk_state t = st_ident then ret T_ident (buf l) (goto st_none t)
      else abort T_end [] ''End of stream in the middle of a token'' t)"

text \<open>The result of \<open>readToken()\<close>: an exception, or a token and the tokenizer after it.\<close>

type_synonym readResult = "lexError + token \<times> toker"

fun finish :: "outcome \<Rightarrow> readResult" where
  "finish (Return tok t) = Inr (tok, t)"
| "finish (Throw e) = Inl e"
| "finish (Loop l t) = Inl (AssertFailed [])"

text \<open>
  Each round of the loop reads a character. A round that puts it back leaves a stalling
  state for one that does not stall, so twice the remaining input plus the stall mark
  decreases.
\<close>

lemma loop_decreases:
  assumes "getChar t = (Some ch, ta)" and "step ch l ta = Loop lb tb"
  shows "2 * remaining tb + stall (tk_state tb) < 2 * remaining t + stall (tk_state t)"
proof -
  note g = getChar_Some [OF assms(1)]
  have "sameInput ta tb \<or> (\<exists>u. ungetChar ch ta = Some u \<and> sameInput u tb \<and>
      stall (tk_state tb) < stall (tk_state t))"
    using step_post [of ta l ch] assms(2) g by (auto simp: stepPost_def)
  moreover have "stall (tk_state tb) \<le> 1" by (simp add: stall_def)
  ultimately show ?thesis
    using g by (auto simp: sameInput_remaining dest!: ungetChar_Some(1))
qed

function readLoop :: "locals \<Rightarrow> toker \<Rightarrow> readResult" where
  "readLoop l t =
     (case getChar t of
        (None, ta) \<Rightarrow> finish (atEnd l ta)
      | (Some ch, ta) \<Rightarrow>
          (case step ch l ta of
             Loop lb tb \<Rightarrow> readLoop lb tb
           | r \<Rightarrow> finish r))"
  by pat_completeness auto
termination
  by (relation "measure (\<lambda>(l, t). 2 * remaining t + stall (tk_state t))")
     (auto dest: loop_decreases [OF sym])

declare readLoop.simps [simp del]

text \<open>
  \<open>junk\<close> is what the uninitialised locals hold on entry.
\<close>

definition readToken :: "locals \<Rightarrow> toker \<Rightarrow> readResult" where
  "readToken junk t =
     (if restState (tk_state t)
      then readLoop (junk\<lparr>sci := 0, buf := []\<rparr>)
             (t\<lparr>currentStartCol := getEndCol (lastLoc t) + 1\<rparr>)
      else Inl (AssertFailed ''readToken(): tokenizer in invalid state''))"

text \<open>\<open>char symchars[4]\<close>\<close>

definition junk_ok :: "locals \<Rightarrow> bool" where
  "junk_ok junk \<longleftrightarrow> length (symchars junk) = 4"

text \<open>A tokenizer between two calls of \<open>readToken()\<close>.\<close>

definition toker_ok :: "toker \<Rightarrow> bool" where
  "toker_ok t \<longleftrightarrow> putback_ok t \<and> restState (tk_state t)"

section \<open>What the loop preserves\<close>

text \<open>Line breaks still to be read, and the line the reading will end on.\<close>

definition newlines :: "string \<Rightarrow> int" where
  "newlines s = int (count_list s (CHR ''\<newline>''))"

definition lastLine :: "toker \<Rightarrow> int" where
  "lastLine t = currentLine t + newlines (pending t)"

lemma newlines_simps [simp]:
  "newlines [] = 0" "newlines (c # s) = newlines s + (if c = CHR ''\<newline>'' then 1 else 0)"
  "newlines (s @ s') = newlines s + newlines s'"
  by (simp_all add: newlines_def)

lemma sameInput_lastLine: "sameInput t u \<Longrightarrow> lastLine u = lastLine t"
  by (simp add: lastLine_def sameInput_pending) (simp add: sameInput_def)

lemma getChar_line:
  assumes "getChar t = (Some ch, ta)" and "putback_ok t"
  shows "lastLine ta = lastLine t" and "currentName ta = currentName t"
proof -
  have p: "pending t = ch # pending ta" using getChar_Some(3) [OF assms(1)] assms(2) by simp
  have l: "currentLine ta = currentLine t + (if ch = CHR ''\<newline>'' then 1 else 0)"
    using assms(1) by (auto simp: getChar_def countChar_def Let_def split: if_splits list.splits)
  from p l show "lastLine ta = lastLine t" by (simp add: lastLine_def)
  show "currentName ta = currentName t"
    using assms(1) by (auto simp: getChar_def countChar_def Let_def split: if_splits list.splits)
qed

lemma ungetChar_line:
  assumes "ungetChar ch t = Some u" and "putback_ok t"
  shows "lastLine u = lastLine t"
proof -
  have p: "pending u = ch # pending t" using ungetChar_Some(2) [OF assms(1)] assms(2) by simp
  have l: "currentLine u = currentLine t - (if ch = CHR ''\<newline>'' then 1 else 0)"
    using assms(1) by (auto simp: ungetChar_def Let_def split: if_splits)
  from p l show ?thesis by (simp add: lastLine_def)
qed

text \<open>
  The invariant of the loop; \<open>cs\<close> is what the call has consumed so far.
\<close>

definition loopInv :: "string \<Rightarrow> locals \<Rightarrow> toker \<Rightarrow> bool" where
  "loopInv cs l t \<longleftrightarrow> locals_ok (tk_state t) l \<and> putback_ok t \<and>
     need (tk_state t) (buf l) \<le> length cs \<and>
     (tk_state t = st_intdot \<longrightarrow> cs \<noteq> [] \<and> last cs = CHR ''.'') \<and>
     (tk_state t = st_number \<or> tk_state t = st_intdot \<longrightarrow> 1 \<le> putbackIndex t)"

text \<open>
  What a call guarantees: a parse error is the only exception; the token and the tokenizer
  left split the input in two, in order, and only the end token may consume nothing; the
  lines add up and the token's location is on the line reached.
\<close>

definition readPost :: "string \<Rightarrow> toker \<Rightarrow> readResult \<Rightarrow> bool" where
  "readPost cs t r = (case r of
     Inl e \<Rightarrow> \<exists>tok msg. e = ParseAbort tok msg
   | Inr (tok, t') \<Rightarrow> toker_ok t' \<and> restAfter (tk_state t') (tok_type tok) \<and> tokens t' = tokens t \<and>
       (\<exists>ds. cs @ pending t = ds @ pending t' \<and> (ds = [] \<longrightarrow> isEnd tok)) \<and>
       lastLine t' = lastLine t \<and> currentName t' = currentName t \<and>
       tok_loc tok = lastLoc t' \<and> getLineNumber (tok_loc tok) = currentLine t' \<and>
       getName (tok_loc tok) = currentName t')"

lemma readPost_next:
  assumes "readPost cs' u r" and "cs' @ pending u = cs @ pending t"
    and "lastLine u = lastLine t" and "tokens u = tokens t" and "currentName u = currentName t"
  shows "readPost cs t r"
  using assms by (auto simp: readPost_def split: sum.splits)

lemma atEnd_post:
  assumes "loopInv cs l t" and "getChar t = (None, ta)"
  shows "readPost cs t (finish (atEnd l ta))"
proof -
  note g = getChar_None [OF assms(2)]
  have ok: "putback_ok t" using assms(1) by (simp add: loopInv_def)
  have line: "lastLine ta = lastLine t" "currentName ta = currentName t"
    using assms(2) g ok
    by (auto simp: lastLine_def getChar_def countChar_def Let_def split: if_splits list.splits)
  have st: "tk_state ta = st_ident \<Longrightarrow> cs \<noteq> []"
    using assms(1) g by (auto simp: loopInv_def need_def)
  define u where "u = snd (getLocation (goto st_none ta))"
  have same: "sameInput ta u" by (simp add: u_def)
  have u: "tk_state u = st_none" "lastLoc u = fst (getLocation (goto st_none ta))"
    "currentLine u = currentLine ta" "currentName u = currentName ta"
    by (simp_all add: u_def)
  have "readPost cs t (finish (Return (mkToken tt d (lastLoc u)) u))"
    if "tt = T_end \<or> cs \<noteq> []" for tt d
    using that g ok line sameInput_ok [OF same] sameInput_pending [OF same]
      sameInput_lastLine [OF same] u same
    by (auto simp: readPost_def toker_ok_def sameInput_def mkToken_def tok_is_def)
  moreover have "readPost cs t (finish (abort tt d msg ta))" for tt d msg
    by (simp add: abort_def readPost_def)
  ultimately show ?thesis
    using st by (simp add: atEnd_def ret_eq u u_def [symmetric])
qed

text \<open>A token returned from the loop: the three places the input may be left at.\<close>

lemma readPost_Return:
  assumes "restAfter (tk_state t') (tok_type tok)" "tok_loc tok = lastLoc t'"
    and "getLineNumber (lastLoc t') = currentLine t'" "getName (lastLoc t') = currentName t'"
    and "sameInput u t'" "putback_ok u" "lastLine u = lastLine t" "tokens u = tokens t"
    and "currentName u = currentName t" "cs @ pending t = ds @ pending u" "ds \<noteq> []"
  shows "readPost cs t (Inr (tok, t'))"
proof -
  have "cs @ pending t = ds @ pending t'" "lastLine t' = lastLine t" "putback_ok t'"
    using assms sameInput_pending sameInput_lastLine sameInput_ok by metis+
  moreover have "tokens t' = tokens t" "currentName t' = currentName t"
    using assms by (simp_all add: sameInput_def)
  ultimately show ?thesis
    using assms by (auto simp: readPost_def toker_ok_def dest: restAfter_restState)
qed

lemma readLoop_post: "loopInv cs l t \<Longrightarrow> readPost cs t (readLoop l t)"
proof (induction l t arbitrary: cs rule: readLoop.induct)
  case (1 l t)
  note inv = 1(2) [unfolded loopInv_def]
  show ?case
  proof (cases "getChar t")
    case (Pair r ta)
    show ?thesis
    proof (cases r)
      case None
      with Pair 1(2) show ?thesis
        using atEnd_post by (simp add: readLoop.simps)
    next
      case (Some ch)
      with Pair have get: "getChar t = (Some ch, ta)" by simp
      note g = getChar_Some [OF get]
      from g(3) inv have ok: "putback_ok ta" and pen: "pending t = ch # pending ta" by auto
      have line: "lastLine ta = lastLine t" "currentName ta = currentName t"
        using getChar_line [OF get] inv by auto
      have undo: "putback_ok u \<and> pending u = pending t \<and> lastLine u = lastLine t \<and>
          tokens u = tokens t \<and> currentName u = currentName t"
        if "ungetChar ch ta = Some u" for u
        using ungetChar_Some [OF that] ungetChar_line [OF that ok] ok pen line g by simp
      have sp: "stepPost True ch l ta (step ch l ta)"
        using step_post [of ta l ch] inv g by simp
      show ?thesis
      proof (cases "step ch l ta")
        case (Loop lb tb)
        then have step: "readLoop l t = readLoop lb tb"
          using get by (simp add: readLoop.simps [of l t])
        note IH = 1(1) [OF get [symmetric] refl Loop]
        from sp have lo: "locals_ok (tk_state tb) lb"
          and dot: "tk_state tb = st_intdot \<Longrightarrow> tk_state t = st_number \<and> ch = CHR ''.'' \<and> sameInput ta tb"
          and num: "tk_state tb = st_number \<Longrightarrow> sameInput ta tb"
          and n: "need (tk_state tb) (buf lb) \<le> Suc (need (tk_state t) (buf l))"
          unfolding Loop stepPost_def outcome.case g(6) by (simp, simp, simp, fastforce)
        show ?thesis
        proof (cases "sameInput ta tb")
          case True
          then have "putback_ok tb" "putbackIndex tb \<ge> 1" "pending tb = pending ta"
            using ok g(2) sameInput_ok [OF True] sameInput_pending [OF True] True
            by (simp_all add: sameInput_def)
          then have "loopInv (cs @ [ch]) lb tb"
            using lo dot n inv by (auto simp: loopInv_def)
          from IH [OF this] have "readPost (cs @ [ch]) tb (readLoop lb tb)" .
          moreover have "lastLine tb = lastLine t" "tokens tb = tokens t"
              "currentName tb = currentName t"
            using True line g(7) sameInput_lastLine [OF True] by (simp_all add: sameInput_def)
          moreover have "(cs @ [ch]) @ pending tb = cs @ pending t"
            using \<open>pending tb = pending ta\<close> pen by simp
          ultimately show ?thesis unfolding step by (blast intro: readPost_next)
        next
          case False
          with sp [unfolded Loop] obtain u where u: "ungetChar ch ta = Some u" "sameInput u tb"
              "need (tk_state tb) (buf lb) \<le> need (tk_state t) (buf l)"
            using g by (auto simp: stepPost_def)
          have s: "putback_ok tb" "pending tb = pending t" "lastLine tb = lastLine t"
              "tokens tb = tokens t" "currentName tb = currentName t"
            using undo [OF u(1)] sameInput_ok [OF u(2)] sameInput_pending [OF u(2)]
              sameInput_lastLine [OF u(2)] u(2) by (simp_all add: sameInput_def)
          then have "loopInv cs lb tb"
            using lo dot num u inv False by (auto simp: loopInv_def)
          from readPost_next [OF IH [OF this]] s show ?thesis
            unfolding step by simp
        qed
      next
        case (Return tok t')
        then have step: "readLoop l t = Inr (tok, t')"
          using get by (simp add: readLoop.simps [of l t])
        from sp Return have loc: "restAfter (tk_state t') (tok_type tok)" "tok_loc tok = lastLoc t'"
            "getLineNumber (lastLoc t') = currentLine t'" "getName (lastLoc t') = currentName t'"
          by (auto simp: stepPost_def)
        from sp Return consider "sameInput ta t'"
          | u where "ungetChar ch ta = Some u" "sameInput u t'" "1 \<le> need (tk_state t) (buf l)"
          | u v where "tk_state t = st_intdot" "ungetChar ch ta = Some u"
              "ungetChar (CHR ''.'') u = Some v" "sameInput v t'"
          using g by (auto simp: stepPost_def)
        then show ?thesis
        proof cases
          case 1
          then show ?thesis unfolding step
            using pen line g ok
            by (intro readPost_Return [OF loc, where u = ta and ds = "cs @ [ch]"]) simp_all
        next
          case 2
          then have "cs \<noteq> []" using inv by auto
          with 2 show ?thesis unfolding step
            using undo [OF 2(1)]
            by (intro readPost_Return [OF loc, where u = u and ds = cs]) simp_all
        next
          case 3
          with inv have "cs \<noteq> []" "last cs = CHR ''.''" "2 \<le> length cs" by auto
          then obtain cs' where cs: "cs = cs' @ ''.''" "cs' \<noteq> []"
            by (cases cs rule: rev_cases) (auto simp: Suc_le_eq)
          show ?thesis unfolding step
            using 3 undo [OF 3(2)] ungetChar_Some [OF 3(3)] ungetChar_line [OF 3(3)] cs
            by (intro readPost_Return [OF loc, where u = v and ds = cs']) simp_all
        qed
      next
        case (Throw e)
        then have "readLoop l t = Inl e"
          using get by (simp add: readLoop.simps [of l t])
        moreover have "\<exists>tok msg. e = ParseAbort tok msg"
          using sp Throw g inv by (cases e) (auto simp: stepPost_def)
        ultimately show ?thesis by (simp add: readPost_def)
      qed
    qed
  qed
qed

section \<open>Reading one token\<close>

lemma readToken_eq:
  assumes "restState (tk_state t)"
  shows "readToken junk t = readLoop (junk\<lparr>sci := 0, buf := []\<rparr>)
    (t\<lparr>currentStartCol := getEndCol (lastLoc t) + 1\<rparr>)"
  using assms by (simp add: readToken_def)

lemma readToken_post:
  assumes "toker_ok t" and "junk_ok junk"
  shows "readPost [] t (readToken junk t)"
proof -
  define u where "u = t\<lparr>currentStartCol := getEndCol (lastLoc t) + 1\<rparr>"
  have "loopInv [] (junk\<lparr>sci := 0, buf := []\<rparr>) u"
    using assms
    by (auto simp: loopInv_def u_def junk_ok_def locals_ok_def toker_ok_def restState_def
        putback_ok_def)
  from readLoop_post [OF this] have "readPost [] u (readToken junk t)"
    using assms by (simp add: readToken_eq toker_ok_def u_def)
  then show ?thesis
    by (rule readPost_next) (simp_all add: u_def lastLine_def pending_def)
qed

text \<open>
  A token that is not the end token costs a character, whatever state the tokenizer is in.
\<close>

lemma readLoop_remaining:
  "remaining t + need (tk_state t) (buf l) \<le> R \<Longrightarrow> readLoop l t = Inr (tok, t') \<Longrightarrow>
   remaining t' \<le> R \<and> (isEnd tok \<or> remaining t' < R)"
proof (induction l t rule: readLoop.induct)
  case (1 l t)
  show ?case
  proof (cases "getChar t")
    case (Pair r ta)
    show ?thesis
    proof (cases r)
      case None
      with Pair 1 show ?thesis
        using getChar_None [of t ta]
        by (auto simp: readLoop.simps [of l t] atEnd_def ret_eq abort_def tok_is_def remaining_def
            need_def split: if_splits)
    next
      case (Some ch)
      with Pair have get: "getChar t = (Some ch, ta)" by simp
      note g = getChar_Some [OF get]
      note sp = step_post [of ta l ch]
      have undo: "remaining u \<le> remaining t" if "ungetChar ch ta = Some u" for u
        using ungetChar_Some(1) [OF that] g(1) by simp
      show ?thesis
      proof (cases "step ch l ta")
        case (Loop lb tb)
        have "remaining tb + need (tk_state tb) (buf lb) \<le> remaining t + need (tk_state t) (buf l)"
          using sp [unfolded Loop] g(1,6) undo
          by (fastforce simp: stepPost_def dest: sameInput_remaining)
        with 1 get Loop show ?thesis by (simp add: readLoop.simps [of l t])
      next
        case (Return tok2 t2)
        with 1 get have eq: "tok2 = tok" "t2 = t'" by (simp_all add: readLoop.simps [of l t])
        from sp [unfolded Return stepPost_def] consider "sameInput ta t2"
          | u where "ungetChar ch ta = Some u" "sameInput u t2" "1 \<le> need (tk_state ta) (buf l)"
          | u v where "tk_state ta = st_intdot" "ungetChar ch ta = Some u"
              "ungetChar (CHR ''.'') u = Some v" "sameInput v t2"
          by auto
        then show ?thesis
          using 1(2) g(1,6) undo eq
          by cases (fastforce dest: sameInput_remaining ungetChar_Some(1))+
      next
        case (Throw e)
        with 1 get show ?thesis by (simp add: readLoop.simps [of l t])
      qed
    qed
  qed
qed

lemma readToken_remaining:
  assumes "readToken junk t = Inr (tok, t')"
  shows "remaining t' \<le> remaining t" and "isEnd tok \<or> remaining t' < remaining t"
proof -
  have "restState (tk_state t)" using assms by (simp add: readToken_def split: if_splits)
  then have "remaining (t\<lparr>currentStartCol := getEndCol (lastLoc t) + 1\<rparr>) +
      need (tk_state t) [] \<le> remaining t"
    by (auto simp: restState_def remaining_def)
  with readLoop_remaining [of "t\<lparr>currentStartCol := getEndCol (lastLoc t) + 1\<rparr>"
      "junk\<lparr>sci := 0, buf := []\<rparr>" "remaining t" tok t']
  show "remaining t' \<le> remaining t" "isEnd tok \<or> remaining t' < remaining t"
    using assms readToken_eq [OF \<open>restState (tk_state t)\<close>] by auto
qed

end
