(* ===== verification/Toker_Indent.thy ===== *)
theory Toker_Indent
  imports Toker_State
begin

text \<open>
  What the indentation transform of I-strings means, line by line:
  \<open>evaluateIndentation()\<close> and \<open>fixIndentation()\<close> (parser/Toker.cc) work through the text a
  character at a time, and are shown here to compute the smallest indentation of the lines
  and to remove it from each of them.
\<close>

section \<open>Lines\<close>

fun lines :: "string \<Rightarrow> string list" where
  "lines [] = [[]]"
| "lines (c # s) =
     (if c = CHR ''\<newline>'' then [] # lines s else (c # hd (lines s)) # tl (lines s))"

definition isIndent :: "char \<Rightarrow> bool" where
  "isIndent c \<longleftrightarrow> c = CHR '' '' \<or> c = CHR 0x09"

text \<open>The column reached by a prefix of blanks and tabs, from column \<open>n\<close>, and the rest.\<close>

fun indentFrom :: "int \<Rightarrow> string \<Rightarrow> int" where
  "indentFrom n [] = n"
| "indentFrom n (c # s) =
     (if c = CHR '' '' then indentFrom (n + 1) s
      else if c = CHR 0x09 then indentFrom ((n div tabWidth + 1) * tabWidth) s
      else n)"

definition afterIndent :: "string \<Rightarrow> string" where
  "afterIndent s = dropWhile isIndent s"

text \<open>
  A line keeps what follows its indentation, and \<open>m\<close> columns less of the indentation when it has
  them; a line of white space becomes empty, unless it is the last one.
\<close>

definition fixLine :: "int \<Rightarrow> bool \<Rightarrow> int \<Rightarrow> string \<Rightarrow> string" where
  "fixLine m isLast n s =
     (if afterIndent s = [] \<and> \<not> isLast then []
      else replicate (nat (lessIndent m (indentFrom n s))) (CHR '' '') @ afterIndent s)"

fun fixLines :: "int \<Rightarrow> int \<Rightarrow> string list \<Rightarrow> string" where
  "fixLines m n [] = []"
| "fixLines m n (s # ss) = CHR ''\<newline>'' # fixLine m (ss = []) n s @ fixLines m 0 ss"

text \<open>The indentation a line contributes.\<close>

definition lineIndent :: "bool \<Rightarrow> int \<Rightarrow> string \<Rightarrow> int \<Rightarrow> int" where
  "lineIndent isLast n s m =
     (if afterIndent s \<noteq> [] \<or> isLast \<and> indentFrom n s \<noteq> 0 then min (indentFrom n s) m else m)"

fun linesIndent :: "int \<Rightarrow> string list \<Rightarrow> int \<Rightarrow> int" where
  "linesIndent n [] m = m"
| "linesIndent n (s # ss) m = linesIndent 0 ss (lineIndent (ss = []) n s m)"

section \<open>Equivalence\<close>

lemma lines_nonempty [simp]: "lines s \<noteq> []"
  by (cases s) simp_all

lemma lines_Cons: "lines s = hd (lines s) # tl (lines s)"
  by simp

lemma afterIndent_simps [simp]:
  "afterIndent [] = []" "afterIndent (CHR '' '' # s) = afterIndent s" "afterIndent (CHR 0x09 # s) = afterIndent s"
  "c \<noteq> CHR '' '' \<Longrightarrow> c \<noteq> CHR 0x09 \<Longrightarrow> afterIndent (c # s) = c # s"
  by (simp_all add: afterIndent_def isIndent_def)

lemma fixIndent_lines:
  "fixIndent m s False i = hd (lines s) @ fixLines m 0 (tl (lines s))"
  "fixIndent m s True n = fixLines m n (lines s)"
proof (induction s arbitrary: i n)
  case Nil
  { case 1 show ?case by simp }
  { case 2 show ?case by (simp add: fixLine_def) }
next
  case (Cons c s)
  { case 1 show ?case using Cons by simp }
  { case 2
    obtain l ls where ls: "lines s = l # ls" by (cases "lines s") simp_all
    show ?case by (auto simp: Cons(1) Cons(2) ls fixLine_def) }
qed

lemma evalIndent_lines:
  "evalIndent s False i m = linesIndent 0 (tl (lines s)) m"
  "evalIndent s True n m = linesIndent n (lines s) m"
proof (induction s arbitrary: i n m)
  case Nil
  { case 1 show ?case by simp }
  { case 2 show ?case by (auto simp: lineIndent_def) }
next
  case (Cons c s)
  { case 1 show ?case using Cons by simp }
  { case 2
    obtain l ls where ls: "lines s = l # ls" by (cases "lines s") simp_all
    show ?case by (simp add: Cons(1) Cons(2) ls lineIndent_def min_def) }
qed

section \<open>The smallest indentation, and its removal\<close>

text \<open>
  The lines whose indentation counts, of the lines after the first: those with something on
  them, and a last one of white space that is not empty. The header of the tokenizer says
  that lines of white space are ignored, which the last one is not.
\<close>

fun countedIndents :: "string list \<Rightarrow> int list" where
  "countedIndents [] = []"
| "countedIndents (l # ls) =
     (if afterIndent l \<noteq> [] \<or> ls = [] \<and> indentFrom 0 l \<noteq> 0 then [indentFrom 0 l] else []) @
     countedIndents ls"

text \<open>
  A line after its indentation is cut by \<open>m\<close>: the columns left, and what follows the
  indentation. Lines of white space become empty, except the last one.
\<close>

definition dedent :: "int \<Rightarrow> bool \<Rightarrow> string \<Rightarrow> string" where
  "dedent m isLast l =
     (if afterIndent l = [] \<and> \<not> isLast then []
      else replicate (nat (indentFrom 0 l - m)) (CHR '' '') @ afterIndent l)"

fun dedentLines :: "int \<Rightarrow> string list \<Rightarrow> string" where
  "dedentLines m [] = []"
| "dedentLines m (l # ls) = CHR ''\<newline>'' # dedent m (ls = []) l @ dedentLines m ls"

definition dedentText :: "int \<Rightarrow> string \<Rightarrow> string" where
  "dedentText m val = hd (lines val) @ dedentLines m (tl (lines val))"

lemma linesIndent_Min: "linesIndent 0 ls m = Min (insert m (set (countedIndents ls)))"
proof (induction ls arbitrary: m)
  case (Cons l ls)
  have "Min (insert (min i m) (set xs)) = Min (insert m (insert i (set xs)))" for i xs
    by (cases "xs = []") (simp_all add: min.commute min.left_commute)
  note min = this
  consider "lineIndent (ls = []) 0 l m = min (indentFrom 0 l) m"
      "countedIndents (l # ls) = indentFrom 0 l # countedIndents ls"
    | "lineIndent (ls = []) 0 l m = m" "countedIndents (l # ls) = countedIndents ls"
    by (cases "afterIndent l \<noteq> [] \<or> ls = [] \<and> indentFrom 0 l \<noteq> 0") (auto simp: lineIndent_def)
  then show ?case
    by cases (simp_all add: Cons min [of "indentFrom 0 l" "countedIndents ls"]
        del: countedIndents.simps)
qed simp

lemma fixLine_dedent:
  assumes "afterIndent l \<noteq> [] \<or> isLast \<and> indentFrom 0 l \<noteq> 0 \<longrightarrow> m \<le> indentFrom 0 l"
  shows "fixLine m isLast 0 l = dedent m isLast l"
  using assms by (auto simp: fixLine_def dedent_def lessIndent_def)

lemma fixLines_dedent:
  "\<forall>i\<in>set (countedIndents ls). m \<le> i \<Longrightarrow> fixLines m 0 ls = dedentLines m ls"
proof (induction ls)
  case (Cons l ls)
  then have "fixLine m (ls = []) 0 l = dedent m (ls = []) l"
    by (intro fixLine_dedent) auto
  with Cons show ?case by simp
qed simp

text \<open>The two loops, for an indentation that is at most that of every line that counts.\<close>

lemma evalIndent_Min:
  "evalIndent val False 0 m = Min (insert m (set (countedIndents (tl (lines val)))))"
  by (simp add: evalIndent_lines(1) linesIndent_Min)

lemma fixIndent_dedent:
  "\<forall>i\<in>set (countedIndents (tl (lines val))). m \<le> i \<Longrightarrow>
    fixIndent m val False 0 = dedentText m val"
  by (simp add: fixIndent_lines(1) fixLines_dedent dedentText_def)

text \<open>
  C5. \<open>reindent()\<close>, as the code runs it character by character, removes from every line
  after the first the smallest of the indentations that count and of the value
  \<open>minIndentLevel\<close> had before, and leaves this minimum in \<open>minIndentLevel\<close>. What counts is
  the indentation of the lines with something on them, and of a last line that is all white
  space but not empty. Lines of white space become empty, except the last one, which keeps
  the columns beyond the minimum.
\<close>

theorem reindent_lines:
  "reindent val t =
     (let m = Min (insert (minIndentLevel t) (set (countedIndents (tl (lines val)))))
      in (dedentText m val, t\<lparr>minIndentLevel := m\<rparr>))"
  by (simp add: reindent_def evaluateIndentation_def fixIndentation_def evalIndent_Min
      fixIndent_dedent Let_def)

end
