(* ===== verification/Toker_Get.thy ===== *)
theory Toker_Get
  imports Toker_Read Toker_Indent
begin

text \<open>
  The public operations of the tokenizer (parser/Toker.h, parser/Toker.cc):
  \<open>getToken()\<close> with its put-back list and the batch reading of indented I-strings,
  \<open>putBack()\<close> and \<open>continueIString()\<close>. The theorems say that no assertion of the
  tokenizer fails, that tokens are read and returned in order, and how the input is
  consumed.
\<close>

section \<open>Operations\<close>

definition putBack :: "token \<Rightarrow> toker \<Rightarrow> toker" where
  "putBack tok t = t\<lparr>tokens := tokens t @ [tok]\<rparr>"

definition continueIString :: "toker \<Rightarrow> lexError + toker" where
  "continueIString t =
     (if tk_state t = st_none then Inr (goto st_istr t)
      else Inl (AssertFailed ''continueIString in invalid state''))"

text \<open>
  The body of the loop over the tokens of an I-string, before the next token is read: it
  counts the parentheses of an embedded expression and reenters the string after it.
\<close>

definition track :: "int \<Rightarrow> token \<Rightarrow> toker \<Rightarrow> lexError + int \<times> toker" where
  "track parens tok t =
     (if parens \<noteq> 0 then
        (if isLParen tok then Inr (parens + 1, t)
         else if isRParen tok then
           (if parens - 1 = 0 then andThen (continueIString t) (\<lambda>t'. Inr (parens - 1, t'))
            else Inr (parens - 1, t))
         else if isIstrBegin tok then
           Inl (ParseAbort tok ''Nested i-strings are not currently supported.'')
         else Inr (parens, t))
      else if isLParen tok then Inr (parens + 1, t)
      else if isIdent tok then andThen (continueIString t) (\<lambda>t'. Inr (parens, t'))
      else Inr (parens, t))"

lemma continueIString_Inr:
  "continueIString t = Inr t' \<longleftrightarrow> tk_state t = st_none \<and> t' = goto st_istr t"
  by (auto simp: continueIString_def)

lemma track_cases:
  assumes "track parens tok t = Inr (parens', t')"
  shows "t' = t \<or> tk_state t = st_none \<and> t' = goto st_istr t"
  using assms
  by (auto simp: track_def andThen_eq_Inr continueIString_Inr split: if_splits)

text \<open>
  The loop. The locals of each call of \<open>readToken()\<close> hold whatever the stack does:
  \<open>junk\<close> gives them for the state the call is made in.
\<close>

function batch ::
  "(toker \<Rightarrow> locals) \<Rightarrow> int \<Rightarrow> token list \<Rightarrow> toker \<Rightarrow> lexError + token list \<times> toker" where
  "batch junk parens toks t =
     (if isIstrEnd (last toks) \<or> isEnd (last toks) then Inr (toks, t)
      else andThen (track parens (last toks) t) (\<lambda>(parens', t').
             andThen (readToken (junk t') t') (\<lambda>(tok, t'').
               batch junk parens' (toks @ [tok]) t'')))"
  by pat_completeness auto
termination
proof (relation "measure (\<lambda>(junk, parens, toks, t). 2 * remaining t +
    (if isEnd (last toks) then 0 else 1))", simp, goal_cases)
  case (1 junk parens toks t a parens' t' b tok t'')
  from 1(2,3) have "remaining t' = remaining t"
    using track_cases [of parens "last toks" t parens' t'] by (auto simp: remaining_def)
  with 1 readToken_remaining [of "junk t'" t' tok t''] show ?case by auto
qed

declare batch.simps [simp del]

text \<open>The two loops over the tokens read: the smallest indentation, then its removal.\<close>

definition evaluateTokens :: "token list \<Rightarrow> toker \<Rightarrow> toker" where
  "evaluateTokens toks t =
     fold (\<lambda>tok t. if isString tok then evaluateIndentation (tok_data tok) t else t) toks t"

definition fixToken :: "toker \<Rightarrow> token \<Rightarrow> token" where
  "fixToken t tok =
     (if isString tok then tok\<lparr>tok_data := fixIndentation (tok_data tok) t\<rparr> else tok)"

definition getToken :: "(toker \<Rightarrow> locals) \<Rightarrow> toker \<Rightarrow> readResult" where
  "getToken junk t =
     (if tokens t \<noteq> [] then
        (let temp = last (tokens t); t1 = t\<lparr>tokens := butlast (tokens t)\<rparr>
         in Inr (temp,
              if tk_state t1 = st_istr \<and> \<not> isString temp \<and> \<not> isIstrBegin temp
              then goto st_none t1
              else if isIstrBegin temp then goto st_istr t1 else t1))
      else andThen (readToken (junk t) t) (\<lambda>(tok, t1).
        if indentedString t1 \<and> isIstrBegin tok then
          andThen (batch junk 0 [tok] t1) (\<lambda>(toks, t2).
            let t3 = evaluateTokens toks t2; toks' = map (fixToken t3) toks
            in Inr (hd toks', t3\<lparr>tokens := tokens t3 @ rev (tl toks')\<rparr>))
        else Inr (tok, t1)))"

section \<open>What the batch preserves\<close>

lemma evaluateTokens_sel [simp]:
  "sameInput u (evaluateTokens toks t) = sameInput u t"
  "tk_state (evaluateTokens toks t) = tk_state t"
  by (induction toks arbitrary: t)
     (simp_all add: evaluateTokens_def evaluateIndentation_def sameInput_def)

lemma fixToken_sel [simp]:
  "tok_type (fixToken t tok) = tok_type tok" "tok_loc (fixToken t tok) = tok_loc tok"
  by (simp_all add: fixToken_def)

text \<open>
  The batch appends tokens to the ones it has, consumes input, and leaves the tokenizer in
  order; the only exception is a parse error.
\<close>

definition batchPost :: "token list \<Rightarrow> toker \<Rightarrow> lexError + token list \<times> toker \<Rightarrow> bool" where
  "batchPost toks t r = (case r of
     Inl e \<Rightarrow> \<exists>tok msg. e = ParseAbort tok msg
   | Inr (toks', t') \<Rightarrow> toker_ok t' \<and> tokens t' = tokens t \<and>
       (\<exists>more. toks' = toks @ more) \<and> (isIstrEnd (last toks') \<or> isEnd (last toks')) \<and>
       restAfter (tk_state t') (tok_type (last toks')) \<and>
       (\<exists>ds. pending t = ds @ pending t') \<and> lastLine t' = lastLine t \<and>
       currentName t' = currentName t)"

lemma batchPost_next:
  assumes "batchPost (toks @ [tok]) u r" and "pending t = ds @ pending u"
    and "lastLine u = lastLine t" and "tokens u = tokens t" and "currentName u = currentName t"
  shows "batchPost toks t r"
  using assms by (auto simp: batchPost_def split: sum.splits)

lemma track_Inl:
  assumes "track parens tok t = Inl e" and "restAfter (tk_state t) (tok_type tok)"
  shows "\<exists>tok msg. e = ParseAbort tok msg"
  using assms
  by (auto simp: track_def andThen_def continueIString_def restAfter_def tok_is_def
      split: if_splits)

lemma batch_post:
  "(\<And>u. junk_ok (junk u)) \<Longrightarrow> toker_ok t \<Longrightarrow> restAfter (tk_state t) (tok_type (last toks)) \<Longrightarrow>
    batchPost toks t (batch junk parens toks t)"
proof (induction junk parens toks t rule: batch.induct)
  case (1 junk parens toks t)
  note junk = 1(2)
  show ?case
  proof (cases "isIstrEnd (last toks) \<or> isEnd (last toks)")
    case True
    with 1 show ?thesis by (simp add: batch.simps batchPost_def)
  next
    case more: False
    show ?thesis
    proof (cases "track parens (last toks) t")
      case (Inl e)
      with track_Inl [OF this 1(4)] more show ?thesis
        by (auto simp: batch.simps [of junk parens toks t] batchPost_def)
    next
      case (Inr a)
      then obtain parens' t' where tr: "track parens (last toks) t = Inr (parens', t')"
        by (cases a) auto
      have t': "toker_ok t'" "pending t' = pending t" "lastLine t' = lastLine t"
        "tokens t' = tokens t" "currentName t' = currentName t"
        using track_cases [OF tr] 1(3)
        by (auto simp: toker_ok_def putback_ok_def pending_def lastLine_def)
      note rd = readToken_post [OF t'(1) junk [of t']]
      show ?thesis
      proof (cases "readToken (junk t') t'")
        case (Inl e)
        with rd more tr show ?thesis
          by (simp add: batch.simps [of junk parens toks t] batchPost_def readPost_def)
      next
        case (Inr b)
        then obtain tok u where r: "readToken (junk t') t' = Inr (tok, u)" by (cases b) auto
        with rd obtain ds where u: "toker_ok u" "restAfter (tk_state u) (tok_type tok)"
          "pending t = ds @ pending u" "lastLine u = lastLine t" "tokens u = tokens t"
          "currentName u = currentName t"
          using t' by (auto simp: readPost_def)
        have "batchPost (toks @ [tok]) u (batch junk parens' (toks @ [tok]) u)"
          by (rule 1(1) [OF more tr refl r refl junk]) (simp_all add: u)
        moreover have "batch junk parens toks t = batch junk parens' (toks @ [tok]) u"
          using more tr r by (simp add: batch.simps [of junk parens toks t])
        ultimately show ?thesis
          using u by (metis batchPost_next)
      qed
    qed
  qed
qed

text \<open>The same for \<open>getToken()\<close>.\<close>

definition getPost :: "toker \<Rightarrow> readResult \<Rightarrow> bool" where
  "getPost t r = (case r of
     Inl e \<Rightarrow> \<exists>tok msg. e = ParseAbort tok msg
   | Inr (tok, t') \<Rightarrow> toker_ok t' \<and> (\<exists>ds. pending t = ds @ pending t') \<and>
       lastLine t' = lastLine t \<and> currentName t' = currentName t)"

lemma getToken_post:
  assumes junk: "\<And>u. junk_ok (junk u)" and ok: "toker_ok t"
  shows "getPost t (getToken junk t)"
proof (cases "tokens t = []")
  case False
  with ok show ?thesis
    by (auto simp: getToken_def getPost_def Let_def toker_ok_def putback_ok_def pending_def
        lastLine_def)
next
  case True
  note rd = readToken_post [OF ok junk [of t]]
  show ?thesis
  proof (cases "readToken (junk t) t")
    case (Inl e)
    with rd True show ?thesis by (simp add: getToken_def getPost_def readPost_def)
  next
    case (Inr b)
    then obtain tok u where r: "readToken (junk t) t = Inr (tok, u)" by (cases b) auto
    with rd obtain ds where u: "toker_ok u" "restAfter (tk_state u) (tok_type tok)"
      "pending t = ds @ pending u" "lastLine u = lastLine t" "tokens u = tokens t"
      "currentName u = currentName t"
      by (auto simp: readPost_def)
    have b: "batchPost [tok] u (batch junk 0 [tok] u)"
      by (rule batch_post) (simp_all add: u junk)
    show ?thesis
    proof (cases "indentedString u \<and> isIstrBegin tok")
      case False
      with True r u show ?thesis
        by (auto simp: getToken_def getPost_def)
    next
      case batch: True
      show ?thesis
      proof (cases "batch junk 0 [tok] u")
        case (Inl e)
        with b batch True r show ?thesis
          by (simp add: getToken_def getPost_def batchPost_def)
      next
        case (Inr c)
        then obtain toks v where v: "batch junk 0 [tok] u = Inr (toks, v)" by (cases c) auto
        define w where "w = evaluateTokens toks v"
        have w: "sameInput v w" "tk_state w = tk_state v" by (simp_all add: w_def)
        have eq: "getToken junk t = Inr (hd (map (fixToken w) toks),
            w\<lparr>tokens := tokens w @ rev (tl (map (fixToken w) toks))\<rparr>)"
          using True r batch v by (simp add: getToken_def w_def Let_def)
        have "toker_ok v" "\<exists>ds. pending u = ds @ pending v" "lastLine v = lastLine u"
          "currentName v = currentName u"
          using b v by (auto simp: batchPost_def)
        then show ?thesis
          using u w sameInput_ok [OF w(1)] sameInput_pending [OF w(1)]
            sameInput_lastLine [OF w(1)]
          unfolding eq by (auto simp: getPost_def toker_ok_def putback_ok_def pending_def
              lastLine_def sameInput_def)
      qed
    qed
  qed
qed

section \<open>The theorems\<close>

text \<open>A tokenizer and locals to evaluate the theorems on.\<close>

definition blankLocals :: locals where
  "blankLocals = \<lparr>terminator = CHR 0x00, symchars = replicate 4 (CHR 0x00), sci = 0,
     t1 = T_end, t2 = T_end, t3 = T_end, codeChar = 0, codeLen = 0, buf = []\<rparr>"

definition blankToker :: toker where
  "blankToker = \<lparr>tokens = [], src = [], currentName = [], currentLine = 0, currentStartCol = 0,
     currentEndCol = 0, saveEndCol = 0, lastLoc = None, tk_state = st_none,
     putbackBuf = replicate 2 (CHR 0x00), putbackIndex = 0, indentedString = False,
     indentLevel = 0, minIndentLevel = 0\<rparr>"

definition sampleToker :: "string \<Rightarrow> toker" where
  "sampleToker s = newToker blankToker s ''sample.crk'' 1"

lemma blankLocals_ok [simp]: "junk_ok blankLocals"
  by (simp add: blankLocals_def junk_ok_def)

lemma newToker_ok: "length (putbackBuf junk) = 2 \<Longrightarrow> toker_ok (newToker junk s n k)"
  by (simp add: newToker_def toker_ok_def putback_ok_def putbackSize_def)

lemma sampleToker_ok [simp]: "toker_ok (sampleToker s)"
  by (simp add: sampleToker_def newToker_ok blankToker_def)

lemma sampleToker_pending [simp]: "pending (sampleToker s) = s"
  by (simp add: sampleToker_def newToker_def pending_def blankToker_def putbackSize_def)

text \<open>
  C1. Reading a token never fails an assertion (the putback buffer does not overflow,
  \<open>continueIString()\<close> is not called in a wrong state, \<open>readToken()\<close> is not entered in a
  wrong one) and never writes past \<open>symchars\<close>: the only exception is a parse error. A
  token leaves the tokenizer ready for the next call.
\<close>

theorem getToken_safe:
  assumes "\<forall>u. junk_ok (junk u)" and "toker_ok t"
  shows "case getToken junk t of Inl e \<Rightarrow> \<exists>tok msg. e = ParseAbort tok msg
    | Inr (tok, t') \<Rightarrow> toker_ok t'"
  using getToken_post [of junk t] assms by (auto simp: getPost_def split: sum.splits)

lemma getToken_safe_witness:
  "case getToken (\<lambda>_. blankLocals) (sampleToker ''x += 0x1F;'') of
     Inl e \<Rightarrow> \<exists>tok msg. e = ParseAbort tok msg | Inr (tok, t') \<Rightarrow> toker_ok t'"
  by (rule getToken_safe) simp_all

text \<open>
  C2. \<open>readToken()\<close> consumes a prefix of the input, in order, without losing or repeating a
  character; the prefix is empty only for the end token. The line counter advances by the
  line breaks of the prefix, and the token's location is on the line it ends on.
\<close>

theorem readToken_splits:
  assumes "junk_ok junk" and "toker_ok t" and "readToken junk t = Inr (tok, t')"
  shows "\<exists>ds. pending t = ds @ pending t' \<and> (ds = [] \<longrightarrow> isEnd tok) \<and>
    currentLine t' = currentLine t + newlines ds \<and>
    getLineNumber (tok_loc tok) = currentLine t' \<and> getName (tok_loc tok) = currentName t"
proof -
  from readToken_post [OF assms(2,1)] assms(3) obtain ds where
    ds: "pending t = ds @ pending t'" "ds = [] \<longrightarrow> isEnd tok" "lastLine t' = lastLine t"
      "getLineNumber (tok_loc tok) = currentLine t'" "getName (tok_loc tok) = currentName t'"
      "currentName t' = currentName t"
    by (auto simp: readPost_def)
  then have "currentLine t' = currentLine t + newlines ds"
    by (simp add: lastLine_def)
  with ds show ?thesis by auto
qed

lemma readToken_splits_witness:
  "\<exists>tok t' ds. readToken blankLocals (sampleToker ''a'') = Inr (tok, t') \<and>
     pending (sampleToker ''a'') = ds @ pending t' \<and> (ds = [] \<longrightarrow> isEnd tok)"
proof -
  obtain tok t' where r: "readToken blankLocals (sampleToker ''a'') = Inr (tok, t')"
    by (simp add: readToken_def sampleToker_def newToker_def blankToker_def blankLocals_def
        readLoop.simps getChar_def countChar_def putbackSize_def step_def step_none_def
        step_interpNone_def char_simps atEnd_def ret_eq out_def Let_def)
  from readToken_splits [OF blankLocals_ok sampleToker_ok r] r show ?thesis by blast
qed

text \<open>\<open>n\<close> calls of \<open>getToken()\<close>, as the parser makes them.\<close>

fun takeTokens :: "(toker \<Rightarrow> locals) \<Rightarrow> nat \<Rightarrow> toker \<Rightarrow> lexError + token list \<times> toker" where
  "takeTokens junk 0 t = Inr ([], t)"
| "takeTokens junk (Suc n) t =
     andThen (getToken junk t) (\<lambda>(tok, t').
       andThen (takeTokens junk n t') (\<lambda>(toks, t''). Inr (tok # toks, t'')))"

lemma getToken_putBack:
  "tk_state t = st_none \<Longrightarrow> \<not> isIstrBegin tok \<Longrightarrow> getToken junk (putBack tok t) = Inr (tok, t)"
  by (simp add: getToken_def putBack_def)

lemma takeTokens_putBack:
  "tk_state t = st_none \<Longrightarrow> list_all (\<lambda>tok. \<not> isIstrBegin tok) toks \<Longrightarrow>
   takeTokens junk (length toks) (foldr putBack toks t) = Inr (toks, t)"
proof (induction toks)
  case (Cons tok toks)
  have "tk_state (foldr putBack toks t) = st_none"
    using Cons.prems(1) by (induction toks) (simp_all add: putBack_def)
  with Cons show ?case by (simp add: getToken_putBack)
qed simp

text \<open>
  C3. A token put back is the next one returned: when the tokenizer is in its normal state, outside
  I-strings, and none of the tokens begins an I-string, any number of tokens put back from the last to
  the first is read again from the first to the last, and the tokenizer is as it was before.
\<close>

theorem putBack_replay:
  assumes "tk_state t = st_none" and "list_all (\<lambda>tok. \<not> isIstrBegin tok) toks"
  shows "takeTokens junk (length toks) (foldr putBack toks t) = Inr (toks, t)"
  by (rule takeTokens_putBack [OF assms])

lemma putBack_replay_witness:
  "takeTokens (\<lambda>_. blankLocals) 2
     (putBack (mkToken T_ident ''a'' None) (putBack (mkToken T_semi '';'' None) (sampleToker ''b''))) =
   Inr ([mkToken T_ident ''a'' None, mkToken T_semi '';'' None], sampleToker ''b'')"
  using putBack_replay [of "sampleToker ''b''"
      "[mkToken T_ident ''a'' None, mkToken T_semi '';'' None]" "\<lambda>_. blankLocals"]
  by (simp add: sampleToker_def newToker_def blankToker_def tok_is_def numeral_2_eq_2)

section \<open>Indented I-strings\<close>

text \<open>The indentations that count in the strings of a batch.\<close>

definition batchIndents :: "token list \<Rightarrow> int list" where
  "batchIndents toks =
     concat (map (\<lambda>tok. if isString tok then countedIndents (tl (lines (tok_data tok))) else [])
       toks)"

definition dedentToken :: "int \<Rightarrow> token \<Rightarrow> token" where
  "dedentToken m tok =
     (if isString tok then tok\<lparr>tok_data := dedentText m (tok_data tok)\<rparr> else tok)"

lemma dedentToken_type [simp]: "tok_type (dedentToken m tok) = tok_type tok"
  by (simp add: dedentToken_def)

lemma evaluateTokens_Min:
  "minIndentLevel (evaluateTokens toks t) =
     Min (insert (minIndentLevel t) (set (batchIndents toks)))"
proof (induction toks arbitrary: t)
  case (Cons tok toks)
  have "Min (insert (Min (insert m A)) B) = Min (insert m (A \<union> B))"
    if "finite A" "finite B" for m :: int and A B
    using that by (cases "A = {}"; cases "B = {}") (simp_all add: Min_Un ac_simps)
  with Cons show ?case
    by (simp add: evaluateTokens_def batchIndents_def evaluateIndentation_def evalIndent_Min)
qed (simp add: evaluateTokens_def batchIndents_def)

lemma fixToken_dedent:
  assumes "\<forall>i\<in>set (batchIndents toks). minIndentLevel w \<le> i" and "tok \<in> set toks"
  shows "fixToken w tok = dedentToken (minIndentLevel w) tok"
proof -
  have "fixIndent (minIndentLevel w) (tok_data tok) False 0 =
      dedentText (minIndentLevel w) (tok_data tok)" if "isString tok"
    using assms that by (intro fixIndent_dedent) (auto simp: batchIndents_def)
  then show ?thesis by (simp add: fixToken_def dedentToken_def fixIndentation_def)
qed

lemma foldr_putBack: "foldr putBack toks t = t\<lparr>tokens := tokens t @ rev toks\<rparr>"
  by (induction toks) (simp_all add: putBack_def)

text \<open>
  The state after a token is taken from the put-back list. The tokens of a batch end with
  the end of the string, or of the file, which leaves the normal state.
\<close>

definition delivered :: "token \<Rightarrow> tstate \<Rightarrow> tstate" where
  "delivered tok s =
     (if s = st_istr \<and> \<not> isString tok \<and> \<not> isIstrBegin tok then st_none
      else if isIstrBegin tok then st_istr else s)"

lemma takeTokens_delivered:
  "takeTokens junk (length toks) (foldr putBack toks t) =
     Inr (toks, goto (fold delivered toks (tk_state t)) t)"
proof (induction toks arbitrary: t)
  case (Cons tok toks)
  have "getToken junk (foldr putBack (tok # toks) t) =
      Inr (tok, foldr putBack toks (goto (delivered tok (tk_state t)) t))"
    by (cases t) (simp add: getToken_def foldr_putBack putBack_def delivered_def Let_def butlast_append)
  with Cons show ?case by simp
qed simp

lemma delivered_end:
  assumes "s = st_none \<or> s = st_istr" and "toks \<noteq> []"
    and "isIstrEnd (last toks) \<or> isEnd (last toks)"
  shows "fold delivered toks s = st_none"
  using assms
proof (induction toks arbitrary: s)
  case (Cons tok toks)
  have "delivered tok s = st_none \<or> delivered tok s = st_istr"
    using Cons.prems(1) by (auto simp: delivered_def)
  with Cons show ?case
    by (cases "toks = []") (auto simp: delivered_def tok_is_def)
qed simp

text \<open>
  C4. An indented I-string is read as one batch and delivered in order. When the tokenizer
  is in order, has no token put back, and meets the beginning of an indented I-string, then
  either the batch ends with a parse error, which is the one \<open>getToken()\<close> has, or it reads
  tokens up to the end of the string (or of the file): then the calls of \<open>getToken()\<close> return
  just these tokens, in their order, every string cut by the smallest of the indentations
  that count in any of them (and of \<open>minIndentLevel\<close>, which the escaped line breaks of the
  strings lower), and leave the tokenizer in its normal state with no token put back, where
  the batch ended.
\<close>

theorem getToken_istring_batch:
  assumes "\<forall>u. junk_ok (junk u)" and "toker_ok t" and "tokens t = []"
    and "readToken (junk t) t = Inr (tok, u)" and "isIstrBegin tok" and "indentedString u"
  shows "case batch junk 0 [tok] u of
      Inl e \<Rightarrow> (\<exists>tok msg. e = ParseAbort tok msg) \<and> getToken junk t = Inl e
    | Inr (toks, v) \<Rightarrow>
        hd toks = tok \<and> (isIstrEnd (last toks) \<or> isEnd (last toks)) \<and>
        (\<exists>w. takeTokens junk (length toks) t =
            Inr (map (dedentToken (Min (insert (minIndentLevel v) (set (batchIndents toks))))) toks, w) \<and>
          tokens w = [] \<and> tk_state w = st_none \<and> sameInput v w)"
proof -
  have "toker_ok u" "restAfter (tk_state u) (tok_type tok)" "tokens u = []"
    using readToken_post [of t "junk t"] assms by (auto simp: readPost_def)
  then have post: "batchPost [tok] u (batch junk 0 [tok] u)" and nil: "tokens u = []"
    using assms(1) by (auto intro: batch_post)
  show ?thesis
  proof (cases "batch junk 0 [tok] u")
    case (Inl e)
    with post assms(3-6) show ?thesis by (auto simp: batchPost_def getToken_def)
  next
    case (Inr b)
    then obtain toks v where b: "batch junk 0 [tok] u = Inr (tok # toks, v)"
      using post by (cases b) (auto simp: batchPost_def)
    with post nil have v: "tokens v = []" "tk_state v = st_none"
        "isIstrEnd (last (tok # toks)) \<or> isEnd (last (tok # toks))"
      by (auto simp: batchPost_def restAfter_def tok_is_def)
    define w where "w = evaluateTokens (tok # toks) v"
    define m where "m = Min (insert (minIndentLevel v) (set (batchIndents (tok # toks))))"
    have w: "sameInput v w" "tk_state w = st_none" "tokens w = []" "minIndentLevel w = m"
      using v evaluateTokens_sel(1) [of v "tok # toks" v]
      by (simp_all add: w_def sameInput_def evaluateTokens_Min m_def)
    have "map (fixToken w) (tok # toks) = map (dedentToken m) (tok # toks)"
      by (rule map_cong [OF refl], subst fixToken_dedent [of "tok # toks"])
         (simp_all add: w(4) m_def)
    then have "getToken junk t =
        Inr (dedentToken m tok, foldr putBack (map (dedentToken m) toks) w)"
      using assms(3-6) b by (simp add: getToken_def w_def [symmetric] foldr_putBack)
    moreover have "takeTokens junk (length (map (dedentToken m) toks))
        (foldr putBack (map (dedentToken m) toks) w) = Inr (map (dedentToken m) toks,
          goto (fold delivered (map (dedentToken m) toks) st_none) w)"
      using w(2) by (simp only: takeTokens_delivered)
    moreover have "fold delivered (map (dedentToken m) toks) st_none = st_none"
      using v(3) by (cases "toks = []")
        (auto intro!: delivered_end simp: last_map tok_is_def)
    moreover have "goto st_none w = w" using w(2) by simp
    ultimately show ?thesis
      using b v(3) w m_def by auto
  qed
qed

definition istrSample :: toker where
  "istrSample = sampleToker
     (''I'' @ [CHR 0x60, CHR ''\<newline>''] @ ''    a$x '' @ [CHR ''\<newline>''] @ ''  b'' @ [CHR 0x60])"

definition istrRead :: "token \<times> toker" where
  "istrRead = projr (readToken blankLocals istrSample)"

definition istrBatch :: "token list \<times> toker" where
  "istrBatch = projr (batch (\<lambda>_. blankLocals) 0 [fst istrRead] (snd istrRead))"

lemma istrRead_eq: "readToken blankLocals istrSample = Inr (fst istrRead, snd istrRead)"
  by code_simp

lemma istrBatch_eq:
  "batch (\<lambda>_. blankLocals) 0 [fst istrRead] (snd istrRead) =
   Inr (fst istrBatch, snd istrBatch)"
  by code_simp

lemma istrBatch_ok:
  "tokens istrSample = []" "isIstrBegin (fst istrRead)" "indentedString (snd istrRead)"
  "length (fst istrBatch) = 5"
  by code_simp+

lemma istrBatch_data:
  "map tok_data (map (dedentToken (Min (insert (minIndentLevel (snd istrBatch))
      (set (batchIndents (fst istrBatch)))))) (fst istrBatch)) =
    [[CHR 0x60], ''\<newline>  a'', ''x'', '' \<newline>b'', [CHR 0x60]]"
  by code_simp

lemma getToken_istring_batch_witness:
  "\<exists>toks w. takeTokens (\<lambda>_. blankLocals) 5 istrSample = Inr (toks, w) \<and>
     map tok_data toks = [[CHR 0x60], ''\<newline>  a'', ''x'', '' \<newline>b'', [CHR 0x60]] \<and>
     tk_state w = st_none"
proof -
  have "toker_ok istrSample" by (simp add: istrSample_def)
  from getToken_istring_batch [of "\<lambda>_. blankLocals", OF _ this istrBatch_ok(1) istrRead_eq
      istrBatch_ok(2,3)]
  obtain w where "takeTokens (\<lambda>_. blankLocals) 5 istrSample =
      Inr (map (dedentToken (Min (insert (minIndentLevel (snd istrBatch))
        (set (batchIndents (fst istrBatch)))))) (fst istrBatch), w)" "tk_state w = st_none"
    unfolding istrBatch_eq sum.case prod.case istrBatch_ok(4) by auto
  with istrBatch_data show ?thesis by (intro exI conjI) assumption+
qed

end
