(* ===== verification/Toker_Lang.thy ===== *)
theory Toker_Lang
  imports Toker_Get
begin

text \<open>
  The language the tokenizer accepts, stated on strings: which token a piece of source text
  is read as, and what follows it. \<open>lexTok s tt d s'\<close> says that a tokenizer about to read
  \<open>s\<close> returns the token \<open>tt\<close> with the text \<open>d\<close> and is left with \<open>s'\<close>, whatever the
  putback buffer, the columns and the uninitialised locals hold. From it come the round
  trip of a rendered token stream and the skipping of comments.
\<close>

section \<open>Reading from a string\<close>

definition lexes ::
  "tstate \<Rightarrow> bool \<Rightarrow> locals \<Rightarrow> string \<Rightarrow> ttype \<Rightarrow> string \<Rightarrow> string \<Rightarrow> bool" where
  "lexes st ind l s tt d s' \<longleftrightarrow>
     (\<forall>t. putback_ok t \<and> tk_state t = st \<and> indentedString t = ind \<and> pending t = s \<longrightarrow>
       (\<exists>t'. readLoop l t = Inr (mkToken tt d (lastLoc t'), t') \<and> putback_ok t' \<and>
          tk_state t' = st_none \<and> pending t' = s' \<and> tokens t' = tokens t))"

definition fresh :: "locals \<Rightarrow> bool" where
  "fresh l \<longleftrightarrow> length (symchars l) = 4 \<and> sci l = 0 \<and> buf l = []"

definition lexTok :: "string \<Rightarrow> ttype \<Rightarrow> string \<Rightarrow> string \<Rightarrow> bool" where
  "lexTok s tt d s' \<longleftrightarrow> (\<forall>l ind. fresh l \<longrightarrow> lexes st_none ind l s tt d s')"

text \<open>A character is always there to be read from a nonempty rest.\<close>

lemma getChar_pending:
  assumes "putback_ok t" and "pending t = c # s"
  obtains ta where "getChar t = (Some c, ta)" and "putback_ok ta" and "pending ta = s"
    and "tk_state ta = tk_state t" and "indentedString ta = indentedString t"
    and "tokens ta = tokens t" and "1 \<le> putbackIndex ta"
proof (cases "getChar t")
  case (Pair r ta)
  show thesis
  proof (cases r)
    case None
    with Pair assms show thesis using getChar_None(4) [of t ta] by simp
  next
    case (Some d)
    with Pair have get: "getChar t = (Some d, ta)" by simp
    have "indentedString ta = indentedString t"
      using get by (auto simp: getChar_def Let_def split: if_splits list.splits)
    with getChar_Some [OF get] assms show thesis
      by (intro that [of ta]) (simp_all add: get)
  qed
qed

lemma lexes_Loop:
  assumes "\<And>t. tk_state t = st \<Longrightarrow> indentedString t = ind \<Longrightarrow>
      \<exists>t'. step c l t = Loop l' t' \<and> sameInput t t' \<and> tk_state t' = st' \<and>
        indentedString t' = ind'"
    and "lexes st' ind' l' s tt d s'"
  shows "lexes st ind l (c # s) tt d s'"
  unfolding lexes_def
proof (intro allI impI, elim conjE)
  fix t assume t: "putback_ok t" "tk_state t = st" "indentedString t = ind" "pending t = c # s"
  from getChar_pending [OF t(1,4)] obtain ta where ta: "getChar t = (Some c, ta)"
    "putback_ok ta" "pending ta = s" "tk_state ta = st" "indentedString ta = ind"
    "tokens ta = tokens t"
    using t by metis
  from assms(1) [OF ta(4,5)] obtain tb where tb: "step c l ta = Loop l' tb" "sameInput ta tb"
    "tk_state tb = st'" "indentedString tb = ind'"
    by blast
  have "putback_ok tb" "pending tb = s" "tokens tb = tokens t"
    using ta tb(2) sameInput_ok [OF tb(2)] sameInput_pending [OF tb(2)]
    by (simp_all add: sameInput_def)
  with assms(2) tb(3,4) have "\<exists>t'. readLoop l' tb = Inr (mkToken tt d (lastLoc t'), t') \<and>
      putback_ok t' \<and> tk_state t' = st_none \<and> pending t' = s' \<and> tokens t' = tokens t"
    unfolding lexes_def by metis
  moreover have "readLoop l t = readLoop l' tb"
    using ta(1) tb(1) by (simp add: readLoop.simps [of l t])
  ultimately show "\<exists>t'. readLoop l t = Inr (mkToken tt d (lastLoc t'), t') \<and>
      putback_ok t' \<and> tk_state t' = st_none \<and> pending t' = s' \<and> tokens t' = tokens t"
    by simp
qed

lemma lexes_ret:
  assumes "\<And>t. tk_state t = st \<Longrightarrow> indentedString t = ind \<Longrightarrow> step c l t = ret tt d (goto st_none t)"
  shows "lexes st ind l (c # s) tt d s"
  unfolding lexes_def
proof (intro allI impI, elim conjE)
  fix t assume t: "putback_ok t" "tk_state t = st" "indentedString t = ind" "pending t = c # s"
  from getChar_pending [OF t(1,4)] obtain ta where ta: "getChar t = (Some c, ta)"
    "putback_ok ta" "pending ta = s" "tk_state ta = st" "indentedString ta = ind"
    "tokens ta = tokens t"
    using t by metis
  define u where "u = snd (getLocation (goto st_none ta))"
  have same: "sameInput ta u" and u: "tk_state u = st_none"
    "lastLoc u = fst (getLocation (goto st_none ta))" by (simp_all add: u_def)
  have "readLoop l t = Inr (mkToken tt d (lastLoc u), u)"
    using ta(1) assms [OF ta(4,5)] by (simp add: readLoop.simps [of l t] ret_eq u_def)
  moreover have "putback_ok u" "pending u = s" "tokens u = tokens t"
    using ta sameInput_ok [OF same] sameInput_pending [OF same] same
    by (simp_all add: sameInput_def)
  ultimately show "\<exists>t'. readLoop l t = Inr (mkToken tt d (lastLoc t'), t') \<and> putback_ok t' \<and>
      tk_state t' = st_none \<and> pending t' = s \<and> tokens t' = tokens t"
    using u(1) by blast
qed

lemma lexes_unget:
  assumes "\<And>t. tk_state t = st \<Longrightarrow> indentedString t = ind \<Longrightarrow>
      step c l t = unget c t (\<lambda>u. ret tt d (goto st_none u)) \<or>
      step c l t = unget c (goto st_none t) (ret tt d)"
  shows "lexes st ind l (c # s) tt d (c # s)"
  unfolding lexes_def
proof (intro allI impI, elim conjE)
  fix t assume t: "putback_ok t" "tk_state t = st" "indentedString t = ind" "pending t = c # s"
  from getChar_pending [OF t(1,4)] obtain ta where ta: "getChar t = (Some c, ta)"
    "putback_ok ta" "pending ta = s" "tk_state ta = st" "indentedString ta = ind"
    "tokens ta = tokens t" "1 \<le> putbackIndex ta"
    using t by metis
  from ta(7) obtain v where v: "ungetChar c ta = Some v"
    by (cases "ungetChar c ta") (simp_all add: ungetChar_None)
  define u where "u = snd (getLocation (goto st_none v))"
  have same: "sameInput v u" and u: "tk_state u = st_none"
    "lastLoc u = fst (getLocation (goto st_none v))" by (simp_all add: u_def)
  have "step c l ta = Return (mkToken tt d (lastLoc u)) u"
    using assms [OF ta(4,5)] v u by (auto simp: unget_def ungetChar_goto ret_eq u_def)
  then have "readLoop l t = Inr (mkToken tt d (lastLoc u), u)"
    using ta(1) by (simp add: readLoop.simps [of l t])
  moreover have "putback_ok u" "pending u = c # s" "tokens u = tokens t"
    using ungetChar_Some [OF v] ta sameInput_ok [OF same] sameInput_pending [OF same] same
    by (simp_all add: sameInput_def)
  ultimately show "\<exists>t'. readLoop l t = Inr (mkToken tt d (lastLoc t'), t') \<and> putback_ok t' \<and>
      tk_state t' = st_none \<and> pending t' = c # s \<and> tokens t' = tokens t"
    using u(1) by blast
qed

text \<open>The end of the source.\<close>

lemma lexTok_end: "lexTok [] T_end [] []"
  unfolding lexTok_def lexes_def
proof (intro allI impI, elim conjE)
  fix l ind t assume t: "fresh l" "putback_ok t" "tk_state t = st_none" "pending t = []"
  from t have none: "getChar t = (None, countChar None t)"
    by (auto simp: getChar_def pending_def putback_ok_def putbackSize_def Let_def)
  define u where "u = snd (getLocation (goto st_none (countChar None t)))"
  have same: "sameInput (countChar None t) u" and u: "tk_state u = st_none"
    "lastLoc u = fst (getLocation (goto st_none (countChar None t)))" by (simp_all add: u_def)
  have "readLoop l t = Inr (mkToken T_end [] (lastLoc u), u)"
    using none t by (simp add: readLoop.simps [of l t] atEnd_def ret_eq u_def)
  moreover have "putback_ok u" "pending u = []" "tokens u = tokens t"
    using t sameInput_ok [OF same] sameInput_pending [OF same] same
    by (simp_all add: sameInput_def putback_ok_def pending_def)
  ultimately show "\<exists>t'. readLoop l t = Inr (mkToken T_end [] (lastLoc t'), t') \<and> putback_ok t' \<and>
      tk_state t' = st_none \<and> pending t' = [] \<and> tokens t' = tokens t"
    using u(1) by blast
qed

section \<open>White space and comments\<close>

lemma lexes_blank:
  assumes "isspace c" and "fresh l" and "lexTok s tt d s'"
  shows "lexes st_none ind l (c # s) tt d s'"
proof (rule lexes_Loop [where l' = l and st' = st_none and ind' = ind])
  fix t :: toker assume t: "tk_state t = st_none" "indentedString t = ind"
  have "c \<noteq> CHR ''i''" "c \<noteq> CHR ''b''" "c \<noteq> CHR ''r''" "c \<noteq> CHR ''I''"
    using assms(1) by (auto simp: isspace_def)
  then have "step c l t = Loop l (if isblank c
      then (goto st_none t)\<lparr>currentStartCol := currentStartCol (goto st_none t) + 1\<rparr>
      else goto st_none t)"
    using assms(1) t by (simp add: step_def step_none_def step_interpNone_def Let_def)
  then show "\<exists>t'. step c l t = Loop l t' \<and> sameInput t t' \<and> tk_state t' = st_none \<and>
      indentedString t' = ind"
    using t by (auto simp: sameInput_def)
qed (use assms in \<open>simp add: lexTok_def\<close>)

lemma lexTok_blank: "isspace c \<Longrightarrow> lexTok s tt d s' \<Longrightarrow> lexTok (c # s) tt d s'"
  unfolding lexTok_def [of "c # s"] by (blast intro: lexes_blank)

text \<open>
  A comment that does not begin with its introducer twice runs to the end of the line and
  leaves nothing but a changed entry of \<open>symchars\<close>.
\<close>

lemma fresh_sym: "fresh l \<Longrightarrow> fresh (l\<lparr>symchars := (symchars l)[i := c]\<rparr>)"
  by (simp add: fresh_def)

lemma lexes_comment:
  assumes "length (symchars l) = 4" and "sci l = 0"
    and "CHR ''\<newline>'' \<notin> set body" and "str0 (buf l @ body @ ''\<newline>'') \<noteq> symchars l ! 0"
    and "lexTok s tt d s'"
  shows "lexes st_comment ind l (body @ CHR ''\<newline>'' # s) tt d s'"
  using assms
proof (induction body arbitrary: l)
  case Nil
  have "lexes st_none ind (l\<lparr>buf := []\<rparr>) s tt d s'"
    using Nil by (simp add: lexTok_def fresh_def)
  then show ?case
    using Nil
    by (auto intro!: lexes_Loop [where ind' = ind] exI simp: step_def step_comment_def Let_def out_def
        sameInput_def)
next
  case (Cons c body)
  have "lexes st_comment ind (out [c] l) (body @ CHR ''\<newline>'' # s) tt d s'"
    using Cons by simp
  then show ?case
    using Cons
    by (auto intro!: lexes_Loop [where ind' = ind] exI simp: step_def step_comment_def Let_def)
qed

lemma str0_newline:
  "str0 (body @ ''\<newline>'') = (if body = [] then CHR ''\<newline>'' else str0 body)"
  by (cases body) (simp_all add: str0_def)

lemma lexTok_comment:
  assumes "CHR ''\<newline>'' \<notin> set body" and "lexTok s tt d s'"
  shows "str0 body \<noteq> CHR ''#'' \<Longrightarrow> lexTok (CHR ''#'' # body @ CHR ''\<newline>'' # s) tt d s'"
    and "str0 body \<noteq> CHR ''/'' \<Longrightarrow> lexTok (''//'' @ body @ CHR ''\<newline>'' # s) tt d s'"
proof -
  assume hash: "str0 body \<noteq> CHR ''#''"
  show "lexTok (CHR ''#'' # body @ CHR ''\<newline>'' # s) tt d s'"
    unfolding lexTok_def
  proof (intro allI impI)
    fix l ind assume l: "fresh l"
    define l' where "l' = l\<lparr>symchars := (symchars l)[0 := CHR ''#'']\<rparr>"
    have l': "length (symchars l') = 4" "sci l' = 0" "buf l' = []" "symchars l' ! 0 = CHR ''#''"
      using l by (auto simp: l'_def fresh_def)
    have "lexes st_comment ind l' (body @ CHR ''\<newline>'' # s) tt d s'"
      using assms hash l' by (intro lexes_comment) (auto simp: str0_newline)
    then show "lexes st_none ind l (CHR ''#'' # body @ CHR ''\<newline>'' # s) tt d s'"
      using l
      by (auto intro!: lexes_Loop [where ind' = ind] exI
          simp: step_def step_none_def step_interpNone_def setSym_def fresh_def l'_def char_simps
            sameInput_def)
  qed
next
  assume slash: "str0 body \<noteq> CHR ''/''"
  show "lexTok (''//'' @ body @ CHR ''\<newline>'' # s) tt d s'"
    unfolding lexTok_def
  proof (intro allI impI)
    fix l ind assume l: "fresh l"
    define l' where "l' = l\<lparr>symchars := (symchars l)[0 := CHR ''/'']\<rparr>"
    have l': "length (symchars l') = 4" "sci l' = 0" "buf l' = []" "symchars l' ! 0 = CHR ''/''"
      using l by (auto simp: l'_def fresh_def)
    have "lexes st_comment ind l' (body @ CHR ''\<newline>'' # s) tt d s'"
      using assms slash l' by (intro lexes_comment) (auto simp: str0_newline)
    then have "lexes st_slash ind l (CHR ''/'' # body @ CHR ''\<newline>'' # s) tt d s'"
      using l
      by (auto intro!: lexes_Loop [where ind' = ind] exI
          simp: step_def step_slash_def setSym_def fresh_def l'_def sameInput_def)
    then show "lexes st_none ind l (''//'' @ body @ CHR ''\<newline>'' # s) tt d s'"
      by (simp, intro lexes_Loop [where st = st_none and st' = st_slash and ind' = ind and l' = l])
         (auto simp: step_def step_none_def step_interpNone_def char_simps sameInput_def isQuote_def)
  qed
qed

section \<open>Identifiers and keywords\<close>

definition identStart :: "char \<Rightarrow> bool" where
  "identStart c \<longleftrightarrow> isalpha c \<or> c = CHR ''_'' \<or> char_neg c"

definition identChar :: "char \<Rightarrow> bool" where
  "identChar c \<longleftrightarrow> isalnum c \<or> c = CHR ''_'' \<or> \<not> char_pos c"

text \<open>What may follow a word: a character that neither continues it nor opens a literal.\<close>

definition wordEnd :: "char \<Rightarrow> bool" where
  "wordEnd c \<longleftrightarrow> \<not> identChar c \<and> \<not> isQuote c \<and> c \<noteq> CHR 0x60"

lemma getLocation_twice:
  "getLocation (snd (getLocation t)) = (fst (getLocation t), snd (getLocation t))"
  by (auto simp: getLocation_def Let_def)

lemma fixIdent_ret: "fixIdent d t = ret (identType d) d t"
  by (simp add: fixIdent_eq ret_eq identType_def getLocation_twice split: option.split)

lemma lexes_ident:
  assumes "list_all identChar w" and "wordEnd c"
  shows "lexes st_ident ind l (w @ c # s) (identType (buf l @ w)) (buf l @ w) (c # s)"
  using assms(1)
proof (induction w arbitrary: l)
  case Nil
  show ?case
    using assms(2)
    by (auto intro!: lexes_unget simp: step_def step_ident_def wordEnd_def identChar_def fixIdent_ret)
next
  case (Cons a w)
  then have "lexes st_ident ind (out [a] l) (w @ c # s) (identType (buf l @ a # w))
      (buf l @ a # w) (c # s)"
    using Cons.IH [of "out [a] l"] by simp
  then show ?case
    using Cons.prems
    by (auto intro!: lexes_Loop [where ind' = ind] exI simp: step_def step_ident_def identChar_def)
qed

text \<open>
  After \<open>i\<close>, \<open>b\<close>, \<open>r\<close> or \<open>I\<close>, what is not a literal goes on as an identifier.
\<close>

lemma getChar_goto: "getChar (goto s t) = (fst (getChar t), goto s (snd (getChar t)))"
  by (simp add: getChar_def countChar_def Let_def split: list.split)

lemma step_prefix:
  assumes "\<not> isQuote x" and "x \<noteq> CHR 0x60"
    and "tk_state t = st_strint \<or> tk_state t = st_rawStr \<or> tk_state t = st_indentStr"
  shows "step x l t = step x l (goto st_ident t)"
  using assms by (auto simp: step_def step_strint_def step_rawStr_def step_indentStr_def)

lemma lexes_prefix:
  assumes "lexes st_ident ind l (x # r) tt d s'" and x: "\<not> isQuote x" "x \<noteq> CHR 0x60"
    and st: "st = st_strint \<or> st = st_rawStr \<or> st = st_indentStr"
  shows "lexes st ind l (x # r) tt d s'"
  unfolding lexes_def
proof (intro allI impI, elim conjE)
  fix t assume t: "putback_ok t" "tk_state t = st" "indentedString t = ind" "pending t = x # r"
  have "putback_ok (goto st_ident t)" "pending (goto st_ident t) = x # r"
    using t by (simp_all add: putback_ok_def pending_def)
  then have "\<exists>t'. readLoop l (goto st_ident t) = Inr (mkToken tt d (lastLoc t'), t') \<and> putback_ok t' \<and>
      tk_state t' = st_none \<and> pending t' = s' \<and> tokens t' = tokens t"
    using assms(1) [unfolded lexes_def, rule_format, of "goto st_ident t"] t by simp
  moreover from getChar_pending [OF t(1,4)] obtain ta where ta: "getChar t = (Some x, ta)"
    "tk_state ta = st"
    using t by metis
  then have "step x l ta = step x l (goto st_ident ta)"
    using step_prefix x st by blast
  then have "readLoop l t = readLoop l (goto st_ident t)"
    using ta(1) by (simp add: readLoop.simps [of l t] readLoop.simps [of l "goto st_ident t"] getChar_goto)
  ultimately show "\<exists>t'. readLoop l t = Inr (mkToken tt d (lastLoc t'), t') \<and> putback_ok t' \<and>
      tk_state t' = st_none \<and> pending t' = s' \<and> tokens t' = tokens t"
    by simp
qed

lemma identChar_plain: "identChar x \<Longrightarrow> \<not> isQuote x \<and> x \<noteq> CHR 0x60"
  by (auto simp: identChar_def isQuote_def char_simps)

lemma identStart_simp: "identStart a \<Longrightarrow> \<not> isspace a \<and> (isalpha a \<or> a = CHR ''_'' \<or> char_neg a)"
  by (auto simp: identStart_def char_simps)

lemma step_word:
  assumes "identStart a" and "tk_state t = st_none"
  shows "step a l t = Loop (out [a] l) (goto (if a = CHR ''i'' \<or> a = CHR ''b'' then st_strint
    else if a = CHR ''r'' then st_rawStr else if a = CHR ''I'' then st_indentStr else st_ident) t)"
  using assms(2) identStart_simp [OF assms(1)]
  by (simp add: step_def step_none_def step_interpNone_def Let_def)

lemma lexTok_word:
  assumes "identStart a" and "list_all identChar w" and "wordEnd c"
  shows "lexTok (a # w @ c # s) (identType (a # w)) (a # w) (c # s)"
  unfolding lexTok_def
proof (intro allI impI)
  fix l ind assume l: "fresh l"
  obtain x r where xr: "w @ c # s = x # r" "\<not> isQuote x" "x \<noteq> CHR 0x60"
    using assms(2,3) identChar_plain by (cases w) (auto simp: wordEnd_def)
  define st where "st = (if a = CHR ''i'' \<or> a = CHR ''b'' then st_strint
    else if a = CHR ''r'' then st_rawStr else if a = CHR ''I'' then st_indentStr else st_ident)"
  have "lexes st_ident ind (out [a] l) (w @ c # s) (identType (a # w)) (a # w) (c # s)"
    using lexes_ident [OF assms(2,3), of ind "out [a] l" s] l by (simp add: fresh_def)
  then have "lexes st ind (out [a] l) (w @ c # s) (identType (a # w)) (a # w) (c # s)"
    using lexes_prefix [where x = x and r = r] xr by (auto simp: st_def)
  moreover have "\<exists>t'. step a l t = Loop (out [a] l) t' \<and> sameInput t t' \<and> tk_state t' = st \<and>
      indentedString t' = ind" if "tk_state t = st_none" "indentedString t = ind" for t
    using that step_word [OF assms(1) that(1)] by (simp add: st_def sameInput_def)
  ultimately show "lexes st_none ind l (a # w @ c # s) (identType (a # w)) (a # w) (c # s)"
    by (intro lexes_Loop [where st' = st and ind' = ind and l' = "out [a] l"]) simp_all
qed

section \<open>Decimal integers\<close>

definition intEnd :: "char \<Rightarrow> bool" where
  "intEnd c \<longleftrightarrow> \<not> isdigit c \<and> c \<noteq> CHR ''.'' \<and> c \<noteq> CHR ''e'' \<and> c \<noteq> CHR ''E''"

lemma lexes_number:
  assumes "list_all isdigit w" and "intEnd c"
  shows "lexes st_number ind l (w @ c # s) T_integer (buf l @ w) (c # s)"
  using assms(1)
proof (induction w arbitrary: l)
  case Nil
  show ?case
    using assms(2)
    by (auto intro!: lexes_unget simp: step_def step_number_def intEnd_def)
next
  case (Cons a w)
  then have "lexes st_number ind (out [a] l) (w @ c # s) T_integer (buf l @ a # w) (c # s)"
    using Cons.IH [of "out [a] l"] by simp
  then show ?case
    using Cons.prems
    by (auto intro!: lexes_Loop [where ind' = ind] exI simp: step_def step_number_def)
qed

lemma digit_cases:
  assumes "isdigit a"
  shows "a \<in> set ''0123456789''"
proof -
  have "a = char_of (of_char a :: nat)" by simp
  moreover from assms have "(of_char a :: nat) \<in> {48, 49, 50, 51, 52, 53, 54, 55, 56, 57}"
    unfolding isdigit_def insert_iff empty_iff by presburger
  ultimately have "a \<in> char_of ` {48, 49, 50, 51, 52, 53, 54, 55, 56, 57 :: nat}"
    by blast
  then show ?thesis by (simp add: char_of_def bit_simps)
qed

lemma step_none_digit:
  assumes "isdigit a" and "tk_state t = st_none"
  shows "step a l t = (if a = CHR ''0'' then Loop l (goto st_zero t)
    else Loop (out [a] l) (goto st_number t))"
  using digit_cases [OF assms(1)] assms(2)
  by (elim set_ConsD [THEN disjE] disjE)
     (simp_all add: step_def step_none_def step_interpNone_def char_simps isQuote_def Let_def)

lemma lexTok_int:
  assumes "isdigit a" and "a \<noteq> CHR ''0''" and "list_all isdigit w" and "intEnd c"
  shows "lexTok (a # w @ c # s) T_integer (a # w) (c # s)"
  unfolding lexTok_def
proof (intro allI impI)
  fix l ind assume l: "fresh l"
  have "lexes st_number ind (out [a] l) (w @ c # s) T_integer (a # w) (c # s)"
    using lexes_number [OF assms(3,4), of ind "out [a] l" s] l by (simp add: fresh_def)
  moreover have "step a l t = Loop (out [a] l) (goto st_number t)"
    if "tk_state t = st_none" for t
    using that assms(1,2) by (simp add: step_none_digit)
  ultimately show "lexes st_none ind l (a # w @ c # s) T_integer (a # w) (c # s)"
    by (intro lexes_Loop [where st' = st_number and ind' = ind and l' = "out [a] l"])
      (auto simp: sameInput_def)
qed

section \<open>Strings\<close>

text \<open>The literal of a string: quotes, backslashes and line breaks are escaped.\<close>

fun escape :: "string \<Rightarrow> string" where
  "escape [] = []"
| "escape (c # s) =
     (if c = CHR ''\"'' \<or> c = CHR 0x5C then [CHR 0x5C, c]
      else if c = CHR ''\<newline>'' then [CHR 0x5C, CHR ''n''] else [c]) @ escape s"

definition literal :: "string \<Rightarrow> string" where
  "literal s = CHR ''\"'' # escape s @ ''\"''"

lemma step_escaped:
  assumes "x = CHR ''\"'' \<and> a = x \<or> x = CHR 0x5C \<and> a = x \<or> x = CHR ''n'' \<and> a = CHR ''\<newline>''"
    and "tk_state t = st_strEscapeChar"
  shows "step x l t = Loop (out [a] l) (goto st_string t)"
  using assms(1)
proof (elim disjE conjE)
  show "x = CHR ''\"'' \<Longrightarrow> a = x \<Longrightarrow> ?thesis"
    using assms(2) by (simp add: step_def step_escape_def base_def isdigit_def Let_def)
  show "x = CHR 0x5C \<Longrightarrow> a = x \<Longrightarrow> ?thesis"
    using assms(2) by (simp add: step_def step_escape_def base_def isdigit_def Let_def)
  show "x = CHR ''n'' \<Longrightarrow> a = CHR ''\<newline>'' \<Longrightarrow> ?thesis"
    using assms(2) by (simp add: step_def step_escape_def base_def Let_def)
qed

lemma lexes_string:
  assumes "terminator l = CHR ''\"''" and "t1 l = T_string"
  shows "lexes st_string False l (escape s @ CHR ''\"'' # r) T_string (buf l @ s) r"
  using assms
proof (induction s arbitrary: l)
  case Nil
  then show ?case
    by (auto intro!: lexes_ret simp: step_def step_string_def Let_def)
next
  case (Cons a s)
  from Cons have IH: "lexes st_string False (out [a] l) (escape s @ CHR ''\"'' # r) T_string
      (buf l @ a # s) r"
    using Cons.IH [of "out [a] l"] by simp
  have esc: "lexes st_string False l (CHR 0x5C # x # escape s @ CHR ''\"'' # r) T_string
      (buf l @ a # s) r"
    if "x = CHR ''\"'' \<and> a = x \<or> x = CHR 0x5C \<and> a = x \<or> x = CHR ''n'' \<and> a = CHR ''\<newline>''" for x
  proof (rule lexes_Loop)
    show "lexes st_strEscapeChar False l (x # escape s @ CHR ''\"'' # r) T_string (buf l @ a # s) r"
    proof (rule lexes_Loop [OF _ IH])
      fix t :: toker assume "tk_state t = st_strEscapeChar" "indentedString t = False"
      with step_escaped [OF that] show "\<exists>t'. step x l t = Loop (out [a] l) t' \<and>
          sameInput t t' \<and> tk_state t' = st_string \<and> indentedString t' = False"
        by (simp add: sameInput_def)
    qed
  qed (use Cons.prems in \<open>simp_all add: step_def step_string_def sameInput_def\<close>)
  show ?case
  proof (cases "a = CHR ''\"'' \<or> a = CHR 0x5C \<or> a = CHR ''\<newline>''")
    case True
    with esc [of a] esc [of "CHR ''n''"] show ?thesis by (elim disjE) simp_all
  next
    case False
    then show ?thesis
      using Cons.prems
      by (simp, intro lexes_Loop [OF _ IH]) (simp add: step_def step_string_def sameInput_def)
  qed
qed

lemma lexTok_string: "lexTok (literal s @ r) T_string s r"
  unfolding lexTok_def
proof (intro allI impI)
  fix l ind assume l: "fresh l"
  let ?l = "l\<lparr>terminator := CHR ''\"'', t1 := T_string\<rparr>"
  have str: "lexes st_string False ?l (escape s @ CHR ''\"'' # r) T_string s r"
    using lexes_string [of ?l s r] l by (simp add: fresh_def)
  have "step (CHR ''\"'') l t = Loop ?l (goto st_string (initIndent False (goto st_none t)))"
    if "tk_state t = st_none" for t
    using that by (simp add: step_def step_none_def step_interpNone_def isQuote_def char_simps Let_def)
  then have "lexes st_none ind l (CHR ''\"'' # escape s @ CHR ''\"'' # r) T_string s r"
    by (intro lexes_Loop [OF _ str]) (simp add: initIndent_def sameInput_def)
  then show "lexes st_none ind l (literal s @ r) T_string s r"
    by (simp add: literal_def)
qed

end
