(* ===== verification/Toker_Round.thy ===== *)
theory Toker_Round
  imports Toker_Lang
begin

text \<open>
  The operators of the language, and the round trip of the tokenizer: a token stream written
  out with blanks between its tokens is read back as it was.
\<close>

section \<open>Operators\<close>

definition opTable :: "(string \<times> ttype) list" where
  "opTable =
    [('';'', T_semi), ('','', T_comma), (''('', T_lparen), ('')'', T_rparen), (''{'', T_lcurly),
     (''}'', T_rcurly), (''['', T_lbracket), ('']'', T_rbracket), (''$'', T_dollar),
     (''@'', T_ann), (''~'', T_tilde), (''?'', T_quest), (''.'', T_dot),
     (''+'', T_plus), (''++'', T_incr), (''+='', T_assignPlus),
     (''-'', T_minus), (''--'', T_decr), (''-='', T_assignMinus),
     (''&'', T_bitAnd), (''&&'', T_logicAnd), (''&='', T_assignAnd),
     (''|'', T_bitOr), (''||'', T_logicOr), (''|='', T_assignOr),
     (''/'', T_slash), (''/='', T_assignSlash),
     (''='', T_assign), (''=='', T_eq), (''!'', T_bang), (''!='', T_ne),
     ('':'', T_colon), ('':='', T_define), (''::'', T_scoping),
     (''<'', T_lt), (''<='', T_le), (''<<'', T_bitLSh), (''<<='', T_assignLSh),
     (''>'', T_gt), (''>='', T_ge), (''>>'', T_bitRSh), (''>>='', T_assignRSh),
     (''*'', T_asterisk), (''*='', T_assignAsterisk), (''%'', T_percent),
     (''%='', T_assignPercent), (''^'', T_bitXor), (''^='', T_assignXor)]"

lemma lexTok_ret:
  assumes "\<And>l t. fresh l \<Longrightarrow> tk_state t = st_none \<Longrightarrow> step c l t = ret tt d (goto st_none t)"
  shows "lexTok (c # s) tt d s"
  unfolding lexTok_def using assms by (blast intro: lexes_ret)

lemma lexTok_Loop:
  assumes "\<And>l t. fresh l \<Longrightarrow> tk_state t = st_none \<Longrightarrow> step c l t = Loop (f l) (goto st t)"
    and "\<And>l ind. fresh l \<Longrightarrow> lexes st ind (f l) s tt d s'"
  shows "lexTok (c # s) tt d s'"
  unfolding lexTok_def
proof (intro allI impI)
  fix l ind assume l: "fresh l"
  show "lexes st_none ind l (c # s) tt d s'"
    by (rule lexes_Loop [OF _ assms(2) [OF l]]) (simp add: assms(1) l sameInput_def)
qed

lemmas first_defs = step_def step_none_def step_interpNone_def char_simps isQuote_def Let_def

lemma lexTok_punct:
  "lexTok (CHR '';'' # s) T_semi '';'' s" "lexTok (CHR '','' # s) T_comma '','' s"
  "lexTok (CHR ''('' # s) T_lparen ''('' s" "lexTok (CHR '')'' # s) T_rparen '')'' s"
  "lexTok (CHR ''{'' # s) T_lcurly ''{'' s" "lexTok (CHR ''}'' # s) T_rcurly ''}'' s"
  "lexTok (CHR ''['' # s) T_lbracket ''['' s" "lexTok (CHR '']'' # s) T_rbracket '']'' s"
  "lexTok (CHR ''$'' # s) T_dollar ''$'' s" "lexTok (CHR ''@'' # s) T_ann ''@'' s"
  "lexTok (CHR ''~'' # s) T_tilde ''~'' s" "lexTok (CHR ''?'' # s) T_quest ''?'' s"
  by (rule lexTok_ret, simp add: first_defs)+

text \<open>The states after the first character of a longer operator.\<close>

lemma lexes_oper:
  assumes "\<And>c t. tk_state t = st \<Longrightarrow> step c l t = step_oper op db au si c l t"
  shows "lexes st ind l (op # s) db [op, op] s"
    and "op \<noteq> CHR ''='' \<Longrightarrow> lexes st ind l (CHR ''='' # s) au [op, CHR ''=''] s"
    and "op \<noteq> CHR '' '' \<Longrightarrow> lexes st ind l (CHR '' '' # s) si [op] (CHR '' '' # s)"
  by ((intro lexes_ret lexes_unget; simp add: assms step_oper_def Let_def))+

lemma lexTok_plus:
  "lexTok (''++'' @ s) T_incr ''++'' s" "lexTok (''+='' @ s) T_assignPlus ''+='' s"
  "lexTok (''+ '' @ s) T_plus ''+'' (CHR '' '' # s)"
  unfolding append_Cons append_Nil
  by (rule lexTok_Loop [where f = "\<lambda>l. l" and st = st_plus],
      simp add: first_defs, rule lexes_oper, simp add: step_def step_plus_def, simp?)+

lemma lexTok_minus:
  "lexTok (''--'' @ s) T_decr ''--'' s" "lexTok (''-='' @ s) T_assignMinus ''-='' s"
  "lexTok (''- '' @ s) T_minus ''-'' (CHR '' '' # s)"
  unfolding append_Cons append_Nil
  by (rule lexTok_Loop [where f = "\<lambda>l. l" and st = st_minus],
      simp add: first_defs, rule lexes_oper, simp add: step_def step_minus_def, simp?)+

lemma lexTok_amp:
  "lexTok (''&&'' @ s) T_logicAnd ''&&'' s" "lexTok (''&='' @ s) T_assignAnd ''&='' s"
  "lexTok (''& '' @ s) T_bitAnd ''&'' (CHR '' '' # s)"
  unfolding append_Cons append_Nil
  by (rule lexTok_Loop [where f = "\<lambda>l. l" and st = st_amp],
      simp add: first_defs, rule lexes_oper, simp add: step_def step_amp_def, simp?)+

lemma lexTok_pipe:
  "lexTok (''||'' @ s) T_logicOr ''||'' s" "lexTok (''|='' @ s) T_assignOr ''|='' s"
  "lexTok (''| '' @ s) T_bitOr ''|'' (CHR '' '' # s)"
  unfolding append_Cons append_Nil
  by (rule lexTok_Loop [where f = "\<lambda>l. l" and st = st_pipe],
      simp add: first_defs, rule lexes_oper, simp add: step_def step_pipe_def, simp?)+

lemma lexTok_slash:
  "lexTok (''/='' @ s) T_assignSlash ''/='' s" "lexTok (''/ '' @ s) T_slash ''/'' (CHR '' '' # s)"
  unfolding append_Cons append_Nil
  by (rule lexTok_Loop [where f = "\<lambda>l. l" and st = st_slash], simp add: first_defs,
      (intro lexes_ret lexes_unget; simp add: step_def step_slash_def))+

lemma lexTok_period: "lexTok (''. '' @ s) T_dot ''.'' (CHR '' '' # s)"
  unfolding append_Cons append_Nil
  by (rule lexTok_Loop [where f = "\<lambda>l. l" and st = st_period], simp add: first_defs,
      rule lexes_unget, simp add: step_def step_period_def isdigit_def)

text \<open>The operators collected in \<open>symchars\<close>: the array has one character, or two.\<close>

definition sym1 :: "char \<Rightarrow> locals \<Rightarrow> bool" where
  "sym1 c l \<longleftrightarrow> (\<exists>x y z. symchars l = [c, x, y, z]) \<and> sci l = 1"

definition sym2 :: "char \<Rightarrow> char \<Rightarrow> locals \<Rightarrow> bool" where
  "sym2 c d l \<longleftrightarrow> (\<exists>y z. symchars l = [c, d, y, z]) \<and> sci l = 2"

lemma lexes_digram:
  assumes "sym1 c l" and "c \<noteq> CHR 0x00"
  shows "lexes st_digram ind l (CHR ''='' # s) (t2 l) [c, CHR ''=''] s"
    and "t3 l = T_scoping \<Longrightarrow> lexes st_digram ind l (CHR '':'' # s) T_scoping ''::'' s"
    and "lexes st_digram ind l (CHR '' '' # s) (t1 l) [c] (CHR '' '' # s)"
  using assms
  by (auto simp: step_def step_digram_def sym1_def pushSym_def setSym_def cstr_def Let_def
      intro!: lexes_ret lexes_unget)

lemma lexes_ltgt:
  assumes "sym1 c l" and "c \<noteq> CHR 0x00" and "c \<noteq> CHR ''=''" and "c \<noteq> CHR '' ''"
  shows "lexes st_ltgt ind l (CHR ''='' # s) (t2 l) [c, CHR ''=''] s"
    and "lexes st_ltgt ind l (CHR '' '' # s) (t1 l) [c] (CHR '' '' # s)"
  using assms
  by (auto simp: step_def step_ltgt_def step_digram_def sym1_def pushSym_def setSym_def cstr_def
      Let_def intro!: lexes_ret lexes_unget)

lemma lexes_postaug1:
  assumes "sym1 c l" and "c \<noteq> CHR 0x00"
  shows "lexes st_postaug ind l (CHR ''='' # s) (t2 l) [c, CHR ''=''] s"
    and "lexes st_postaug ind l (CHR '' '' # s) (t1 l) [c] (CHR '' '' # s)"
  using assms
  by (auto simp: step_def step_postaug_def sym1_def pushSym_def setSym_def cstr_def Let_def
      intro!: lexes_ret lexes_unget)

lemma lexes_postaug2:
  assumes "sym2 c d l" and "c \<noteq> CHR 0x00" and "d \<noteq> CHR 0x00"
  shows "lexes st_postaug ind l (CHR ''='' # s) (t2 l) [c, d, CHR ''=''] s"
    and "lexes st_postaug ind l (CHR '' '' # s) (t1 l) [c, d] (CHR '' '' # s)"
  using assms
  by (auto simp: step_def step_postaug_def sym2_def pushSym_def setSym_def cstr_def Let_def
      intro!: lexes_ret lexes_unget)

definition push1 :: "char \<Rightarrow> ttype \<Rightarrow> ttype \<Rightarrow> locals \<Rightarrow> locals" where
  "push1 c a b l = l\<lparr>sci := 1, symchars := (symchars l)[0 := c], t1 := a, t2 := b\<rparr>"

lemma push1_sel [simp]: "t1 (push1 c a b l) = a" "t2 (push1 c a b l) = b" "t3 (push1 c a b l) = t3 l"
  by (simp_all add: push1_def)

lemma length4: "length xs = 4 \<Longrightarrow> \<exists>a b c d. xs = [a, b, c, d]"
  by (auto simp: eval_nat_numeral length_Suc_conv)

lemma push1_sym1 [simp]: "fresh l \<Longrightarrow> sym1 c (push1 c a b l)"
  by (auto simp: fresh_def sym1_def push1_def dest!: length4)

lemma push1_t3: "fresh l \<Longrightarrow> sym1 c ((push1 c a b l)\<lparr>t3 := x\<rparr>)"
  by (auto simp: fresh_def sym1_def push1_def dest!: length4)

lemmas push_defs = first_defs fresh_def pushSym_def setSym_def push1_def

lemma lexTok_assign:
  "lexTok (''== '' @ s) T_eq ''=='' (CHR '' '' # s)" "lexTok (''= '' @ s) T_assign ''='' (CHR '' '' # s)"
  unfolding append_Cons append_Nil
  by (rule lexTok_Loop [where f = "push1 (CHR ''='') T_assign T_eq" and st = st_digram],
      simp add: push_defs,
      insert lexes_digram [where l = "push1 (CHR ''='') T_assign T_eq l" and c = "CHR ''=''" for l],
      simp)+

lemma lexTok_bang:
  "lexTok (''!= '' @ s) T_ne ''!='' (CHR '' '' # s)" "lexTok (''! '' @ s) T_bang ''!'' (CHR '' '' # s)"
  unfolding append_Cons append_Nil
  by (rule lexTok_Loop [where f = "push1 (CHR ''!'') T_bang T_ne" and st = st_digram],
      simp add: push_defs,
      insert lexes_digram [where l = "push1 (CHR ''!'') T_bang T_ne l" and c = "CHR ''!''" for l],
      simp)+

lemma lexTok_colon:
  "lexTok ('':= '' @ s) T_define '':='' (CHR '' '' # s)"
  "lexTok ('':: '' @ s) T_scoping ''::'' (CHR '' '' # s)"
  "lexTok ('': '' @ s) T_colon '':'' (CHR '' '' # s)"
  unfolding append_Cons append_Nil
  by (rule lexTok_Loop [where f = "\<lambda>l. (push1 (CHR '':'') T_colon T_define l)\<lparr>t3 := T_scoping\<rparr>"
        and st = st_digram],
      simp add: push_defs,
      insert lexes_digram [where l = "(push1 (CHR '':'') T_colon T_define l)\<lparr>t3 := T_scoping\<rparr>"
        and c = "CHR '':''" for l],
      simp add: push1_t3)+

lemma lexTok_asterisk:
  "lexTok (''*= '' @ s) T_assignAsterisk ''*='' (CHR '' '' # s)"
  "lexTok (''* '' @ s) T_asterisk ''*'' (CHR '' '' # s)"
  unfolding append_Cons append_Nil
  by (rule lexTok_Loop [where f = "push1 (CHR ''*'') T_asterisk T_assignAsterisk" and st = st_postaug],
      simp add: push_defs,
      insert lexes_postaug1 [where l = "push1 (CHR ''*'') T_asterisk T_assignAsterisk l" and c = "CHR ''*''" for l],
      simp)+

lemma lexTok_percent:
  "lexTok (''%= '' @ s) T_assignPercent ''%='' (CHR '' '' # s)"
  "lexTok (''% '' @ s) T_percent ''%'' (CHR '' '' # s)"
  unfolding append_Cons append_Nil
  by (rule lexTok_Loop [where f = "push1 (CHR ''%'') T_percent T_assignPercent" and st = st_postaug],
      simp add: push_defs,
      insert lexes_postaug1 [where l = "push1 (CHR ''%'') T_percent T_assignPercent l" and c = "CHR ''%''" for l],
      simp)+

lemma lexTok_xor:
  "lexTok (''^= '' @ s) T_assignXor ''^='' (CHR '' '' # s)"
  "lexTok (''^ '' @ s) T_bitXor ''^'' (CHR '' '' # s)"
  unfolding append_Cons append_Nil
  by (rule lexTok_Loop [where f = "push1 (CHR ''^'') T_bitXor T_assignXor" and st = st_postaug],
      simp add: push_defs,
      insert lexes_postaug1 [where l = "push1 (CHR ''^'') T_bitXor T_assignXor l" and c = "CHR ''^''" for l],
      simp)+

text \<open>Shifts: the second character goes on to \<open>st_postaug\<close>.\<close>

definition push2 :: "char \<Rightarrow> ttype \<Rightarrow> ttype \<Rightarrow> locals \<Rightarrow> locals" where
  "push2 c a b l = l\<lparr>sci := 2, symchars := (symchars l)[1 := c], t1 := a, t2 := b\<rparr>"

lemma push2_sym2: "sym1 c l \<Longrightarrow> sym2 c d (push2 d a b l)"
  by (auto simp: sym1_def sym2_def push2_def)

lemma lexes_shift:
  assumes "sym1 c l" and "c = CHR ''<'' \<and> au = T_assignLSh \<or> c = CHR ''>'' \<and> au = T_assignRSh"
    and "lexes st_postaug ind (push2 c (t3 l) au l) s tt d s'"
  shows "lexes st_ltgt ind l (c # s) tt d s'"
proof (rule lexes_Loop [OF _ assms(3)])
  fix t :: toker assume t: "tk_state t = st_ltgt" "indentedString t = ind"
  from assms(1) have "symchars l ! 0 = c" "sci l = 1" "length (symchars l) = 4"
    by (auto simp: sym1_def)
  then have "step c l t = Loop (push2 c (t3 l) au l) (goto st_postaug t)"
    using t assms(2)
    by (auto simp: step_def step_ltgt_def pushSym_def setSym_def push2_def numeral_2_eq_2)
  then show "\<exists>t'. step c l t = Loop (push2 c (t3 l) au l) t' \<and> sameInput t t' \<and>
      tk_state t' = st_postaug \<and> indentedString t' = ind"
    using t by (simp add: sameInput_def)
qed

lemma lexes_shift_ops:
  assumes "sym1 c l" and "c = CHR ''<'' \<and> au = T_assignLSh \<or> c = CHR ''>'' \<and> au = T_assignRSh"
  shows "lexes st_ltgt ind l (c # CHR ''='' # s) au [c, c, CHR ''=''] s"
    and "lexes st_ltgt ind l (c # CHR '' '' # s) (t3 l) [c, c] (CHR '' '' # s)"
  using lexes_postaug2 [of c c "push2 c (t3 l) au l" ind s] push2_sym2 [OF assms(1)] assms
  by (auto intro!: lexes_shift simp: push2_def)

lemma lexTok_lt:
  "lexTok (''<<= '' @ s) T_assignLSh ''<<='' (CHR '' '' # s)"
  "lexTok (''<< '' @ s) T_bitLSh ''<<'' (CHR '' '' # s)"
  "lexTok (''<= '' @ s) T_le ''<='' (CHR '' '' # s)"
  "lexTok (''< '' @ s) T_lt ''<'' (CHR '' '' # s)"
  unfolding append_Cons append_Nil
  by (rule lexTok_Loop [where f = "\<lambda>l. (push1 (CHR ''<'') T_lt T_le l)\<lparr>t3 := T_bitLSh\<rparr>" and st = st_ltgt],
      simp add: push_defs,
      insert lexes_ltgt [where l = "(push1 (CHR ''<'') T_lt T_le l)\<lparr>t3 := T_bitLSh\<rparr>" and c = "CHR ''<''" for l]
        lexes_shift_ops [where l = "(push1 (CHR ''<'') T_lt T_le l)\<lparr>t3 := T_bitLSh\<rparr>" and c = "CHR ''<''" and au = T_assignLSh for l],
      simp add: push1_t3)+

lemma lexTok_gt:
  "lexTok (''>>= '' @ s) T_assignRSh ''>>='' (CHR '' '' # s)"
  "lexTok (''>> '' @ s) T_bitRSh ''>>'' (CHR '' '' # s)"
  "lexTok (''>= '' @ s) T_ge ''>='' (CHR '' '' # s)"
  "lexTok (''> '' @ s) T_gt ''>'' (CHR '' '' # s)"
  unfolding append_Cons append_Nil
  by (rule lexTok_Loop [where f = "\<lambda>l. (push1 (CHR ''>'') T_gt T_ge l)\<lparr>t3 := T_bitRSh\<rparr>" and st = st_ltgt],
      simp add: push_defs,
      insert lexes_ltgt [where l = "(push1 (CHR ''>'') T_gt T_ge l)\<lparr>t3 := T_bitRSh\<rparr>" and c = "CHR ''>''" for l]
        lexes_shift_ops [where l = "(push1 (CHR ''>'') T_gt T_ge l)\<lparr>t3 := T_bitRSh\<rparr>" and c = "CHR ''>''" and au = T_assignRSh for l],
      simp add: push1_t3)+

text \<open>Every operator of the table, followed by a blank.\<close>

lemmas lexTok_ops =
  lexTok_punct lexTok_plus lexTok_minus lexTok_amp lexTok_pipe lexTok_slash lexTok_period
  lexTok_assign lexTok_bang lexTok_colon lexTok_asterisk lexTok_percent lexTok_xor lexTok_lt
  lexTok_gt

lemma lexTok_op:
  assumes "(op, tt) \<in> set opTable"
  shows "lexTok (op @ CHR '' '' # s) tt op (CHR '' '' # s)"
proof -
  have "list_all (\<lambda>(op, tt). lexTok (op @ CHR '' '' # s) tt op (CHR '' '' # s)) opTable"
    using lexTok_ops [of s] lexTok_ops [of "CHR '' '' # s"] unfolding opTable_def by simp
  with assms show ?thesis by (auto simp: list_all_iff)
qed

section \<open>The round trip\<close>

text \<open>
  The tokens a stream is written from. \<open>lexeme_ok\<close> says that a word is one and that a
  decimal constant does not begin with zero.
\<close>

datatype lexeme =
    LWord string
  | LInt string
  | LStr string
  | LOp string

fun lexeme_ok :: "lexeme \<Rightarrow> bool" where
  "lexeme_ok (LWord w) = (w \<noteq> [] \<and> identStart (hd w) \<and> list_all identChar (tl w))"
| "lexeme_ok (LInt w) = (w \<noteq> [] \<and> hd w \<noteq> CHR ''0'' \<and> list_all isdigit w)"
| "lexeme_ok (LStr s) = True"
| "lexeme_ok (LOp s) = (map_of opTable s \<noteq> None)"

fun lexeme_text :: "lexeme \<Rightarrow> string" where
  "lexeme_text (LStr s) = literal s"
| "lexeme_text (LWord w) = w"
| "lexeme_text (LInt w) = w"
| "lexeme_text (LOp s) = s"

fun lexeme_type :: "lexeme \<Rightarrow> ttype" where
  "lexeme_type (LStr s) = T_string"
| "lexeme_type (LWord w) = identType w"
| "lexeme_type (LInt w) = T_integer"
| "lexeme_type (LOp s) = the (map_of opTable s)"

fun lexeme_data :: "lexeme \<Rightarrow> string" where
  "lexeme_data (LStr s) = s"
| "lexeme_data (LWord w) = w"
| "lexeme_data (LInt w) = w"
| "lexeme_data (LOp s) = s"

lemma wordEnd_blank: "wordEnd (CHR '' '')"
  by (simp add: wordEnd_def identChar_def isQuote_def char_simps)

lemma intEnd_blank: "intEnd (CHR '' '')"
  by (simp add: intEnd_def isdigit_def)

lemma lexTok_lexeme:
  assumes "lexeme_ok x"
  shows "lexTok (lexeme_text x @ CHR '' '' # s) (lexeme_type x) (lexeme_data x) (CHR '' '' # s)"
proof (cases x)
  case (LWord w)
  with assms lexTok_word [OF _ _ wordEnd_blank] show ?thesis by (cases w) auto
next
  case (LInt w)
  with assms lexTok_int [OF _ _ _ intEnd_blank] show ?thesis by (cases w) auto
next
  case (LStr w)
  then show ?thesis by (simp add: lexTok_string)
next
  case (LOp w)
  with assms lexTok_op [OF map_of_SomeD] show ?thesis by auto
qed

text \<open>
  What may stand between two tokens: white space, and comments that are not documentation
  (whose text does not begin with the introducer once more). Block comments are taken
  without inner asterisks.
\<close>

datatype gap =
    Blank char
  | Hash string
  | Slashes string
  | Block string

fun gap_ok :: "gap \<Rightarrow> bool" where
  "gap_ok (Blank c) = isspace c"
| "gap_ok (Hash s) = (CHR ''\<newline>'' \<notin> set s \<and> str0 s \<noteq> CHR ''#'')"
| "gap_ok (Slashes s) = (CHR ''\<newline>'' \<notin> set s \<and> str0 s \<noteq> CHR ''/'')"
| "gap_ok (Block s) = (CHR ''*'' \<notin> set s)"

fun gap_text :: "gap \<Rightarrow> string" where
  "gap_text (Blank c) = [c]"
| "gap_text (Hash s) = ''#'' @ s @ ''\<newline>''"
| "gap_text (Slashes s) = ''//'' @ s @ ''\<newline>''"
| "gap_text (Block s) = ''/*'' @ s @ ''*/''"

lemma lexes_ccomment:
  assumes "CHR ''*'' \<notin> set body" and "length (symchars l) = 4" and "sci l = 0"
    and "str0 (buf l) \<noteq> CHR ''*''" and "lexTok s tt d s'"
  shows "lexes st_ccomment ind l (body @ ''*/'' @ s) tt d s'"
  using assms
proof (induction body arbitrary: l)
  case Nil
  have "lexes st_none ind (l\<lparr>buf := []\<rparr>) s tt d s'"
    using Nil by (simp add: lexTok_def fresh_def)
  then have "lexes st_ccomment2 ind l (CHR ''/'' # s) tt d s'"
    by (rule lexes_Loop [rotated]) (use Nil in \<open>simp add: step_def step_ccomment2_def sameInput_def\<close>)
  then have "lexes st_ccomment ind l (CHR ''*'' # CHR ''/'' # s) tt d s'"
    by (rule lexes_Loop [rotated]) (simp add: step_def step_ccomment_def sameInput_def)
  then show ?case by simp
next
  case (Cons c body)
  then have "str0 (buf l @ [c]) \<noteq> CHR ''*''" by (cases "buf l") (auto simp: str0_def)
  with Cons have "lexes st_ccomment ind (out [c] l) (body @ ''*/'' @ s) tt d s'" by simp
  then have "lexes st_ccomment ind l (c # body @ ''*/'' @ s) tt d s'"
    by (rule lexes_Loop [rotated])
       (use Cons.prems(1) in \<open>auto simp: step_def step_ccomment_def sameInput_def\<close>)
  then show ?case by simp
qed

lemma lexTok_block:
  assumes "CHR ''*'' \<notin> set body" and "lexTok s tt d s'"
  shows "lexTok (''/*'' @ body @ ''*/'' @ s) tt d s'"
  unfolding append_Cons append_Nil
proof (rule lexTok_Loop [where f = "\<lambda>l. l" and st = st_slash])
  fix l ind assume l: "fresh l"
  have "lexes st_ccomment ind l (body @ CHR ''*'' # CHR ''/'' # s) tt d s'"
    using lexes_ccomment [OF assms(1) _ _ _ assms(2), of l ind] l by (simp add: fresh_def str0_def)
  then show "lexes st_slash ind l (CHR ''*'' # body @ CHR ''*'' # CHR ''/'' # s) tt d s'"
    by (rule lexes_Loop [rotated]) (simp add: step_def step_slash_def sameInput_def)
qed (simp add: first_defs)

lemma lexTok_gap:
  assumes "gap_ok g" and "lexTok s tt d s'"
  shows "lexTok (gap_text g @ s) tt d s'"
  using assms lexTok_blank lexTok_comment [of _ s tt d s'] lexTok_block by (cases g) auto

lemma lexTok_gaps:
  "list_all gap_ok gs \<Longrightarrow> lexTok s tt d s' \<Longrightarrow> lexTok (concat (map gap_text gs) @ s) tt d s'"
  by (induction gs) (simp_all add: lexTok_gap)

text \<open>A program text: tokens, each followed by a blank and any gaps.\<close>

fun render :: "(lexeme \<times> gap list) list \<Rightarrow> string" where
  "render [] = []"
| "render ((x, gs) # xs) = lexeme_text x @ CHR '' '' # concat (map gap_text gs) @ render xs"

text \<open>One call on a tokenizer with nothing put back.\<close>

definition startsAt :: "string \<Rightarrow> toker \<Rightarrow> bool" where
  "startsAt s t \<longleftrightarrow> putback_ok t \<and> tk_state t = st_none \<and> tokens t = [] \<and> pending t = s"

lemma getToken_lexTok:
  assumes "lexTok s tt d s'" and "tt \<noteq> T_istrBegin" and "startsAt s t" and "junk_ok (junk t)"
  obtains t' where "getToken junk t = Inr (mkToken tt d (lastLoc t'), t')" and "startsAt s' t'"
proof -
  define l where "l = (junk t)\<lparr>sci := 0, buf := []\<rparr>"
  define u where "u = t\<lparr>currentStartCol := getEndCol (lastLoc t) + 1\<rparr>"
  have "fresh l" using assms(4) by (simp add: l_def fresh_def junk_ok_def)
  then have "lexes st_none (indentedString u) l s tt d s'"
    using assms(1) by (simp add: lexTok_def)
  moreover have "putback_ok u" "tk_state u = st_none" "pending u = s" "tokens u = []"
    using assms(3) by (simp_all add: u_def startsAt_def putback_ok_def pending_def)
  ultimately obtain t' where t': "readLoop l u = Inr (mkToken tt d (lastLoc t'), t')"
      "putback_ok t'" "tk_state t' = st_none" "pending t' = s'" "tokens t' = []"
    unfolding lexes_def by metis
  have "readToken (junk t) t = Inr (mkToken tt d (lastLoc t'), t')"
    using t'(1) assms(3) by (simp add: readToken_eq startsAt_def l_def u_def)
  with t' assms(2,3) show thesis
    by (intro that [of t']) (simp_all add: getToken_def startsAt_def tok_is_def)
qed

lemma identType_not_istr: "identType w \<noteq> T_istrBegin"
proof -
  have "list_all (\<lambda>(k, tt). tt \<noteq> T_istrBegin) keywordTable" by (simp add: keywordTable_def)
  then show ?thesis
    by (auto simp: identType_def list_all_iff dest!: map_of_SomeD split: option.split)
qed

lemma lexeme_not_istr: "lexeme_ok x \<Longrightarrow> lexeme_type x \<noteq> T_istrBegin"
proof (cases x)
  case (LOp w)
  have "list_all (\<lambda>(k, tt). tt \<noteq> T_istrBegin) opTable" by (simp add: opTable_def)
  then show "lexeme_ok x \<Longrightarrow> ?thesis"
    using LOp by (force simp: list_all_iff dest: map_of_SomeD)
qed (simp_all add: identType_not_istr)

lemma T_end_not: "T_end \<noteq> T_istrBegin"
  by simp

lemma takeTokens_render:
  assumes junk: "\<And>u. junk_ok (junk u)"
  shows "list_all (\<lambda>(x, gs). lexeme_ok x \<and> list_all gap_ok gs) xs \<Longrightarrow> list_all gap_ok gs0 \<Longrightarrow>
    startsAt (concat (map gap_text gs0) @ render xs) t \<Longrightarrow>
    \<exists>toks t'. takeTokens junk (Suc (length xs)) t = Inr (toks, t') \<and>
      map tok_type toks = map (lexeme_type \<circ> fst) xs @ [T_end] \<and>
      map tok_data toks = map (lexeme_data \<circ> fst) xs @ [[]]"
proof (induction xs arbitrary: gs0 t)
  case Nil
  from Nil have "lexTok (concat (map gap_text gs0) @ []) T_end [] []"
    by (intro lexTok_gaps lexTok_end)
  with Nil.prems(3) obtain t' where "getToken junk t = Inr (mkToken T_end [] (lastLoc t'), t')"
    using getToken_lexTok [of _ T_end "[]" "[]" t junk] junk by (metis render.simps(1) T_end_not)
  then show ?case by simp
next
  case (Cons p xs)
  obtain x gs where p: "p = (x, gs)" by (cases p)
  let ?rest = "CHR '' '' # concat (map gap_text gs) @ render xs"
  have "lexTok (concat (map gap_text gs0) @ lexeme_text x @ ?rest) (lexeme_type x)
      (lexeme_data x) ?rest"
    using Cons.prems p by (intro lexTok_gaps lexTok_lexeme) auto
  moreover have "lexeme_type x \<noteq> T_istrBegin"
    using Cons.prems(1) p lexeme_not_istr by simp
  moreover have "startsAt (concat (map gap_text gs0) @ lexeme_text x @ ?rest) t"
    using Cons.prems(3) p by simp
  ultimately obtain t' where t': "startsAt ?rest t'"
      "getToken junk t = Inr (mkToken (lexeme_type x) (lexeme_data x) (lastLoc t'), t')"
    using getToken_lexTok junk by metis
  have "\<exists>toks t''. takeTokens junk (Suc (length xs)) t' = Inr (toks, t'') \<and>
      map tok_type toks = map (lexeme_type \<circ> fst) xs @ [T_end] \<and>
      map tok_data toks = map (lexeme_data \<circ> fst) xs @ [[]]"
    by (rule Cons.IH [of "Blank (CHR '' '') # gs"])
       (use Cons.prems p t'(1) in \<open>simp_all add: isspace_def\<close>)
  with t'(2) p show ?case by auto
qed

text \<open>
  C6. Round trip: a program text made of words and keywords, decimal constants, string
  literals with their quotes, backslashes and line breaks escaped, and operators, with white
  space and comments between them, is read as exactly those tokens, with their types and
  texts, and then the end of the stream.
\<close>

theorem tokenize_render:
  assumes "list_all (\<lambda>(x, gs). lexeme_ok x \<and> list_all gap_ok gs) xs"
    and "\<forall>u. junk_ok (junk u)" and "length (putbackBuf old) = 2"
  shows "\<exists>toks t'. takeTokens junk (Suc (length xs)) (newToker old (render xs) name k) = Inr (toks, t') \<and>
    map tok_type toks = map (lexeme_type \<circ> fst) xs @ [T_end] \<and>
    map tok_data toks = map (lexeme_data \<circ> fst) xs @ [[]]"
proof (rule takeTokens_render [where ?gs0.0 = "[]"])
  show "startsAt (concat (map gap_text []) @ render xs) (newToker old (render xs) name k)"
    using assms(3)
    by (simp add: startsAt_def newToker_def putback_ok_def pending_def putbackSize_def)
qed (use assms in simp_all)

lemma tokenize_render_witness:
  "\<exists>toks t'. takeTokens (\<lambda>_. blankLocals) 5
      (sampleToker (''if x # note'' @ [CHR ''\<newline>''] @ ''>>= 10 '')) = Inr (toks, t') \<and>
     map tok_type toks = [T_ifKw, T_ident, T_assignRSh, T_integer, T_end] \<and>
     map tok_data toks = [''if'', ''x'', ''>>='', ''10'', []]"
  using tokenize_render [of "[(LWord ''if'', []), (LWord ''x'', [Hash '' note'']),
      (LOp ''>>='', []), (LInt ''10'', [])]" "\<lambda>_. blankLocals" blankToker "''sample.crk''" 1]
  by (simp add: sampleToker_def blankToker_def identStart_def identChar_def char_simps opTable_def
      str0_def identType_def keywordTable_def eval_nat_numeral del: takeTokens.simps)

end
