(* ===== verification/Serial.thy ===== *)
theory Serial
  imports Prelude "HOL-Library.Monad_Syntax"
begin

text \<open>
  The binary format of the module cache: \<open>Serializer\<close> (model/Serializer.cc, .h),
  \<open>Deserializer\<close> (model/Deserializer.cc, .h), nested deserializers
  (model/NestedDeserializer.h), and the part of \<open>std::istream\<close> they use. The locale
  \<open>codec\<close> is what every serialized type promises: its writer appends bytes, its reader
  takes exactly those bytes off the stream and gives the value back, and both feed the same
  bytes to the digest.
\<close>

type_synonym uint = "32 word"

section \<open>Writing\<close>

text \<open>
  A serializer. \<open>s_hash\<close> is the bytes given to the hasher so far (the digest is a function
  of them). The object map sends the address of an object to its id; it is shared by a
  serializer and the serializers nested in it.
\<close>

record serializer =
  dst :: "byte list"
  s_hash :: "byte list"
  s_digestEnabled :: bool
  s_objMap :: "nat \<rightharpoonup> nat"
  lastId :: nat

definition newSerializer :: serializer where
  "newSerializer = \<lparr>dst = [], s_hash = [], s_digestEnabled = False, s_objMap = Map.empty, lastId = 0\<rparr>"

definition nestedSerializer :: "serializer \<Rightarrow> serializer" where
  "nestedSerializer parent = \<lparr>dst = [], s_hash = [], s_digestEnabled = False,
     s_objMap = s_objMap parent, lastId = lastId parent\<rparr>"

text \<open>What the parent sees of the shared object map after the nested one was used.\<close>

definition shareObjMap :: "serializer \<Rightarrow> serializer \<Rightarrow> serializer" where
  "shareObjMap child parent = parent\<lparr>s_objMap := s_objMap child, lastId := lastId child\<rparr>"

text \<open>\<open>dst << b\<close> and \<open>hasher.add(b)\<close>.\<close>

definition put :: "byte \<Rightarrow> serializer \<Rightarrow> serializer" where
  "put b s = s\<lparr>dst := dst s @ [b]\<rparr>"

definition hashByte :: "byte \<Rightarrow> serializer \<Rightarrow> serializer" where
  "hashByte b s = (if s_digestEnabled s then s\<lparr>s_hash := s_hash s @ [b]\<rparr> else s)"

text \<open>The loop of \<open>write(unsigned int)\<close>.\<close>

lemma unat_drop_bit7: "unat (drop_bit 7 (v :: uint)) = unat v div 2 ^ 7"
  unfolding unat_drop_bit_eq by (rule drop_bit_eq_div)

function writeLoop :: "uint \<Rightarrow> serializer \<Rightarrow> serializer" where
  "writeLoop val s =
     (if val = 0 then s
      else let b = (ucast (and val 0x7f) :: byte); val' = drop_bit 7 val;
               b' = (if val' \<noteq> 0 then or b 0x80 else b)
           in writeLoop val' (hashByte b' (put b' s)))"
  by pat_completeness auto
termination
proof (relation "measure (\<lambda>(val, s). unat val)", simp, goal_cases)
  case (1 val s b val' b')
  then have "0 < unat val" by (simp add: unat_gt_0)
  then have "unat val div 2 ^ 7 < unat val" by (intro div_less_dividend) auto
  with 1 show ?case by (simp add: unat_drop_bit7)
qed

declare writeLoop.simps [simp del]

definition writeUInt :: "uint \<Rightarrow> serializer \<Rightarrow> serializer" where
  "writeUInt val s = (if val = 0 then hashByte 0 (put 0 s) else writeLoop val s)"

text \<open>\<open>write(size_t, const void *)\<close>: the length is narrowed to an unsigned int.\<close>

definition writeBlob :: "byte list \<Rightarrow> serializer \<Rightarrow> serializer" where
  "writeBlob bs s =
     (let s1 = writeUInt (of_nat (length bs)) s; s2 = s1\<lparr>dst := dst s1 @ bs\<rparr>
      in if s_digestEnabled s2 then s2\<lparr>s_hash := s_hash s2 @ bs\<rparr> else s2)"

definition writeString :: "string \<Rightarrow> serializer \<Rightarrow> serializer" where
  "writeString str s = writeBlob (bytes_of str) s"

text \<open>Returns whether the caller has to write the object's state.\<close>

definition writeObject :: "nat \<Rightarrow> serializer \<Rightarrow> bool \<times> serializer" where
  "writeObject obj s =
     (case s_objMap s obj of
        None \<Rightarrow>
          (let i = lastId s; s1 = s\<lparr>lastId := i + 1, s_objMap := (s_objMap s)(obj \<mapsto> i)\<rparr>
           in (True, writeUInt (of_nat (2 * i + 1)) s1))
      | Some i \<Rightarrow> (False, writeUInt (of_nat (2 * i)) s))"

definition registerObject :: "nat \<Rightarrow> serializer \<Rightarrow> nat \<times> serializer" where
  "registerObject obj s =
     (case s_objMap s obj of
        None \<Rightarrow> (lastId s, s\<lparr>lastId := lastId s + 1, s_objMap := (s_objMap s)(obj \<mapsto> lastId s)\<rparr>)
      | Some i \<Rightarrow> (i, s))"

text \<open>\<open>-1\<close> when the object is not known.\<close>

definition getObjectId :: "nat \<Rightarrow> serializer \<Rightarrow> int" where
  "getObjectId obj s = (case s_objMap s obj of None \<Rightarrow> -1 | Some i \<Rightarrow> int i)"

text \<open>The bytes of a double are a parameter: its object representation.\<close>

definition writeDouble :: "byte list \<Rightarrow> serializer \<Rightarrow> serializer" where
  "writeDouble bs s =
     (let s1 = s\<lparr>dst := dst s @ bs\<rparr>
      in if s_digestEnabled s1 then s1\<lparr>s_hash := s_hash s1 @ bs\<rparr> else s1)"

text \<open>\<open>StackFrame\<close>: the flag is set for the extent of a block and restored after it.\<close>

definition withDigest :: "bool \<Rightarrow> (serializer \<Rightarrow> serializer) \<Rightarrow> serializer \<Rightarrow> serializer" where
  "withDigest b body s =
     (let s1 = body (s\<lparr>s_digestEnabled := b\<rparr>) in s1\<lparr>s_digestEnabled := s_digestEnabled s\<rparr>)"

section \<open>Reading\<close>

text \<open>
  What can go wrong. \<open>ShiftOverflow\<close> is the undefined shift of a varint that does not fit 32
  bits; \<open>UnresolvedObject\<close> and \<open>CheckFailed\<close> are a failed assertion and a failed
  \<open>SPUG_CHECK\<close>.
\<close>

datatype derror =
    DeserializationError string
  | ShiftOverflow
  | UnresolvedObject
  | CheckFailed string

text \<open>
  A deserializer and its stream: the bytes left, \<open>eofbit\<close> and \<open>failbit\<close>. \<open>'o\<close> is the type
  of the objects it reads.
\<close>

record 'o deserializer =
  input :: "byte list"
  eofbit :: bool
  failbit :: bool
  d_hash :: "byte list"
  d_digestEnabled :: bool
  d_objMap :: "int \<rightharpoonup> 'o"
  userData :: int

type_synonym ('o, 'a) reads = "'o deserializer \<Rightarrow> derror + 'a \<times> 'o deserializer"

definition newDeserializer :: "byte list \<Rightarrow> 'o deserializer" where
  "newDeserializer bs = \<lparr>input = bs, eofbit = False, failbit = False, d_hash = [],
     d_digestEnabled = False, d_objMap = Map.empty, userData = 0\<rparr>"

text \<open>
  \<open>istream::get()\<close> on a stream that has not seen its end: past the last byte it sets both
  bits and returns \<open>EOF\<close>, which is 0xff as a byte.
\<close>

definition streamGet :: "'o deserializer \<Rightarrow> byte \<times> 'o deserializer" where
  "streamGet d =
     (if eofbit d \<or> failbit d then (0xff, d\<lparr>failbit := True\<rparr>)
      else case input d of
             [] \<Rightarrow> (0xff, d\<lparr>eofbit := True, failbit := True\<rparr>)
           | b # rest \<Rightarrow> (b, d\<lparr>input := rest\<rparr>))"

text \<open>\<open>istream::read()\<close> returns what it could get.\<close>

definition streamRead :: "nat \<Rightarrow> 'o deserializer \<Rightarrow> byte list \<times> 'o deserializer" where
  "streamRead n d =
     (if eofbit d \<or> failbit d then ([], d\<lparr>failbit := True\<rparr>)
      else if n \<le> length (input d) then (take n (input d), d\<lparr>input := drop n (input d)\<rparr>)
      else (input d, d\<lparr>input := [], eofbit := True, failbit := True\<rparr>))"

definition d_hashBytes :: "byte list \<Rightarrow> 'o deserializer \<Rightarrow> 'o deserializer" where
  "d_hashBytes bs d = (if d_digestEnabled d then d\<lparr>d_hash := d_hash d @ bs\<rparr> else d)"

text \<open>
  The loop of \<open>readUInt()\<close>. The result is \<open>None\<close> when the end of the stream was met and the
  caller asked to be told (\<open>eof\<close> not null).
\<close>

function readLoopUInt :: "bool \<Rightarrow> uint \<Rightarrow> nat \<Rightarrow> ('o, uint option) reads" where
  "readLoopUInt tell val offset d =
     (if eofbit d then
        (if tell then Inr (None, d) else Inl (DeserializationError ''EOF deserializing meta-data''))
      else
        (case streamGet d of (b, d1) \<Rightarrow>
           let d2 = d_hashBytes [b] d1; bits = unat (and b 0x7f) * 2 ^ offset
           in if 2 ^ 32 \<le> bits \<or> 32 \<le> offset then Inl ShiftOverflow
              else let val' = or val (of_nat bits)
                   in if and b 0x80 \<noteq> 0 then readLoopUInt tell val' (offset + 7) d2
                      else Inr (Some val', d2)))"
  by pat_completeness auto
termination
  by (relation "measure (\<lambda>(tell, val, offset, d). 32 - offset)") auto

declare readLoopUInt.simps [simp del]

definition readUIntEof :: "('o, uint option) reads" where
  "readUIntEof = readLoopUInt True 0 0"

definition readUInt :: "('o, uint) reads" where
  "readUInt d = andThen (readLoopUInt False 0 0 d) (\<lambda>(v, d1). Inr (the v, d1))"

definition readBlob :: "('o, byte list) reads" where
  "readBlob d =
     andThen (readUInt d) (\<lambda>(size, d1).
       case streamRead (unat size) d1 of (bs, d2) \<Rightarrow>
         if failbit d2 then Inl (DeserializationError ''EOF deserializing meta-data'')
         else Inr (bs, d_hashBytes bs d2))"

definition readString :: "('o, string) reads" where
  "readString d = andThen (readBlob d) (\<lambda>(bs, d1). Inr (chars_of bs, d1))"

text \<open>
  \<open>reader.read(*this)\<close> is a parameter. The id is a signed int, its low bit the definition flag. The result says whether it was called.
\<close>

definition readObject :: "('o, 'o) reads \<Rightarrow> ('o, 'o \<times> bool \<times> int) reads" where
  "readObject reader d =
     andThen (readUInt d) (\<lambda>(w, d1).
       if odd (sint w) then
         andThen (reader (d1\<lparr>userData := 0\<rparr>)) (\<lambda>(obj, d2).
           Inr ((obj, True, userData d2), d2\<lparr>d_objMap := (d_objMap d2)(sint w div 2 \<mapsto> obj)\<rparr>))
       else
         case d_objMap d1 (sint w div 2) of
           None \<Rightarrow> Inl UnresolvedObject
         | Some obj \<Rightarrow> Inr ((obj, False, 0), d1))"

definition getObject :: "int \<Rightarrow> 'o deserializer \<Rightarrow> 'o option" where
  "getObject i d = d_objMap d i"

definition d_registerObject :: "int \<Rightarrow> 'o \<Rightarrow> ('o, unit) reads" where
  "d_registerObject i obj d =
     (if d_objMap d i = None then Inr ((), d\<lparr>d_objMap := (d_objMap d)(i \<mapsto> obj)\<rparr>)
      else Inl (CheckFailed ''The object id is already registered.''))"

definition readDouble :: "('o, byte list) reads" where
  "readDouble d =
     (case streamRead 8 d of (bs, d1) \<Rightarrow>
        if failbit d1 then Inl (DeserializationError ''EOF deserializing meta-data'')
        else Inr (bs, d_hashBytes bs d1))"

definition d_withDigest :: "bool \<Rightarrow> ('o, 'a) reads \<Rightarrow> ('o, 'a) reads" where
  "d_withDigest b body d =
     andThen (body (d\<lparr>d_digestEnabled := b\<rparr>)) (\<lambda>(x, d1).
       Inr (x, d1\<lparr>d_digestEnabled := d_digestEnabled d\<rparr>))"

text \<open>The loops that read a known number of items.\<close>

primrec readN :: "('o, 'a) reads \<Rightarrow> nat \<Rightarrow> ('o, 'a list) reads" where
  "readN rd 0 d = Inr ([], d)"
| "readN rd (Suc n) d =
     andThen (rd d) (\<lambda>(x, d1). andThen (readN rd n d1) (\<lambda>(xs, d2). Inr (x # xs, d2)))"

text \<open>\<open>NestedDeserializer\<close>: the data is a string of the parent, the object map is shared.\<close>

definition nestedDeserializer :: "('o, 'o deserializer) reads" where
  "nestedDeserializer parent =
     andThen (readString parent) (\<lambda>(data, p1).
       Inr ((newDeserializer (bytes_of data))\<lparr>d_objMap := d_objMap p1\<rparr>, p1))"

end
