(* ===== verification/Codec.thy ===== *)
theory Codec
  imports Serial
begin

text \<open>
  The laws of the cache format. \<open>emit\<close> and \<open>absorb\<close> are what a write and a read of some
  bytes do to the two ends; the locale \<open>codec\<close> states the contract of a serialized type,
  and is interpreted here on the varints and strings of the format and, in the later
  theories, on tokens, imports and their lists.
\<close>

section \<open>Appending and taking bytes\<close>

text \<open>Bytes written, and the bytes of them that go to the digest.\<close>

definition emit :: "byte list \<Rightarrow> byte list \<Rightarrow> serializer \<Rightarrow> serializer" where
  "emit bs hs s = s\<lparr>dst := dst s @ bs, s_hash := s_hash s @ (if s_digestEnabled s then hs else [])\<rparr>"

text \<open>The stream is in order and holds \<open>bs\<close> next.\<close>

definition holds :: "byte list \<Rightarrow> 'o deserializer \<Rightarrow> bool" where
  "holds bs d \<longleftrightarrow> \<not> eofbit d \<and> \<not> failbit d \<and> (\<exists>rest. input d = bs @ rest)"

definition absorb :: "byte list \<Rightarrow> byte list \<Rightarrow> 'o deserializer \<Rightarrow> 'o deserializer" where
  "absorb bs hs d = d\<lparr>input := drop (length bs) (input d),
     d_hash := d_hash d @ (if d_digestEnabled d then hs else [])\<rparr>"

lemma emit_sel [simp]:
  "dst (emit bs hs s) = dst s @ bs" "s_digestEnabled (emit bs hs s) = s_digestEnabled s"
  "s_objMap (emit bs hs s) = s_objMap s" "lastId (emit bs hs s) = lastId s"
  "s_hash (emit bs hs s) = s_hash s @ (if s_digestEnabled s then hs else [])"
  by (simp_all add: emit_def)

lemma emit_emit [simp, wire_simps]: "emit bs hs (emit bs' hs' s) = emit (bs' @ bs) (hs' @ hs) s"
  by (simp add: emit_def)

lemma emit_Nil [simp]: "emit [] [] s = s"
  by (simp add: emit_def)

lemma absorb_sel [simp]:
  "input (absorb bs hs d) = drop (length bs) (input d)" "eofbit (absorb bs hs d) = eofbit d"
  "failbit (absorb bs hs d) = failbit d" "d_digestEnabled (absorb bs hs d) = d_digestEnabled d"
  "d_objMap (absorb bs hs d) = d_objMap d" "userData (absorb bs hs d) = userData d"
  "d_hash (absorb bs hs d) = d_hash d @ (if d_digestEnabled d then hs else [])"
  by (simp_all add: absorb_def)

lemma absorb_absorb [simp, wire_simps]:
  "absorb bs hs (absorb bs' hs' d) = absorb (bs' @ bs) (hs' @ hs) d"
  by (simp add: absorb_def add.commute)

lemma absorb_Nil [simp]: "absorb [] [] d = d"
  by (simp add: absorb_def)

lemma holds_append: "holds (bs @ bs') d \<Longrightarrow> holds bs d"
  by (auto simp: holds_def)

lemma holds_absorb: "holds (bs @ bs') d \<Longrightarrow> holds bs' (absorb bs hs d)"
  by (auto simp: holds_def)

lemma holds_Nil: "holds bs d \<Longrightarrow> holds [] d"
  by (simp add: holds_def)

section \<open>The contract of a serialized type\<close>

locale codec =
  fixes wr :: "'a \<Rightarrow> serializer \<Rightarrow> serializer"
    and rd :: "'o deserializer \<Rightarrow> derror + 'a \<times> 'o deserializer"
    and enc :: "'a \<Rightarrow> byte list"
    and hsh :: "'a \<Rightarrow> byte list"
    and ok :: "'a \<Rightarrow> bool"
  assumes wr_emit: "wr a s = emit (enc a) (hsh a) s"
    and rd_absorb: "ok a \<Longrightarrow> holds (enc a) d \<Longrightarrow> rd d = Inr (a, absorb (enc a) (hsh a) d)"
begin

text \<open>What was written on an empty stream is read back, and both digests agree.\<close>

lemma roundtrip:
  assumes "ok a" and "input d = dst (wr a newSerializer) @ rest" and "\<not> eofbit d" and "\<not> failbit d"
  shows "rd d = Inr (a, d\<lparr>input := rest, d_hash := d_hash d @ (if d_digestEnabled d then hsh a else [])\<rparr>)"
  using assms rd_absorb [of a d] by (simp add: wr_emit newSerializer_def holds_def absorb_def)

text \<open>Lists without a count: a writer loop, and a reader loop for a known number.\<close>

lemma wrAll_emit: "fold wr xs s = emit (concat (map enc xs)) (concat (map hsh xs)) s"
  by (induction xs arbitrary: s) (simp_all add: wr_emit)

lemma readN_absorb:
  "list_all ok xs \<Longrightarrow> holds (concat (map enc xs)) d \<Longrightarrow>
   readN rd (length xs) d = Inr (xs, absorb (concat (map enc xs)) (concat (map hsh xs)) d)"
proof (induction xs arbitrary: d)
  case (Cons x xs)
  then have "rd d = Inr (x, absorb (enc x) (hsh x) d)"
    using rd_absorb holds_append by fastforce
  with Cons holds_absorb show ?case by fastforce
qed simp

end

section \<open>Varints\<close>

text \<open>Seven bits to a byte, the low ones first, the high bit on all bytes but the last.\<close>

fun encNat :: "nat \<Rightarrow> byte list" where
  "encNat n = (if n < 128 then [of_nat n] else of_nat (n mod 128 + 128) # encNat (n div 128))"

declare encNat.simps [simp del]

definition encUInt :: "uint \<Rightarrow> byte list" where
  "encUInt v = encNat (unat v)"


lemma or_80: "n < 128 \<Longrightarrow> or (of_nat n :: byte) 0x80 = of_nat (n + 128)"
proof -
  have "list_all (\<lambda>n. or (of_nat n :: byte) 0x80 = of_nat (n + 128)) [0..<128]" by code_simp
  then show "n < 128 \<Longrightarrow> ?thesis" by (simp add: list_all_iff)
qed

lemma low7: "unat (and (v :: uint) 0x7f) = unat v mod 128"
proof -
  have "and v 0x7f = take_bit 7 v" by (simp add: take_bit_eq_mask mask_eq_decr_exp)
  moreover have "unat (take_bit 7 v) = take_bit 7 (unat v)" by (simp only: unsigned_take_bit_eq)
  moreover have "take_bit 7 (unat v) = unat v mod 128" by (simp add: take_bit_eq_mod)
  ultimately show ?thesis by simp
qed

lemma low7_byte: "(ucast (and (v :: uint) 0x7f) :: byte) = of_nat (unat v mod 128)"
  by (simp add: low7 [symmetric] of_nat_unat)

lemma emit_one: "hashByte b (put b s) = emit [b] [b] s"
  by (simp add: hashByte_def put_def emit_def)

lemma writeLoop_emit: "v \<noteq> 0 \<Longrightarrow> writeLoop v s = emit (encUInt v) (encUInt v) s"
proof (induction v s rule: writeLoop.induct)
  case (1 v s)
  have d: "unat (drop_bit 7 v) = unat v div 128" using unat_drop_bit7 [of v] by simp
  show ?case
  proof (cases "drop_bit 7 v = 0")
    case True
    with d have "unat v < 128" by (simp add: div_eq_0_iff)
    with 1(2) True show ?thesis
      by (simp add: writeLoop.simps [of v s] writeLoop.simps [of 0] Let_def low7_byte emit_one encUInt_def
          encNat.simps)
  next
    case False
    with d have "\<not> unat v < 128" by (metis div_less unat_0 unsigned_eq_0_iff)
    with 1 False d show ?thesis
      by (simp add: writeLoop.simps [of v s] Let_def low7_byte emit_one encUInt_def or_80
          encNat.simps [of "unat v"])
  qed
qed

lemma writeUInt_emit [simp, wire_simps]: "writeUInt v s = emit (encUInt v) (encUInt v) s"
  by (simp add: writeUInt_def writeLoop_emit emit_one encUInt_def encNat.simps)

text \<open>Reading them back: after \<open>k\<close> bits, the next groups are added above.\<close>

lemma or_add_above:
  assumes "unat (v :: uint) < 2 ^ k" and "n * 2 ^ k < 2 ^ 32"
  shows "or v (of_nat (n * 2 ^ k)) = v + of_nat (n * 2 ^ k)"
    and "unat (or v (of_nat (n * 2 ^ k))) = unat v + n * 2 ^ k"
proof -
  have n: "unat (of_nat (n * 2 ^ k) :: uint) = n * 2 ^ k"
    using assms(2) by (simp only: unat_of_nat) simp
  have p: "(of_nat (n * 2 ^ k) :: uint) = push_bit k (of_nat n)"
    by (simp add: push_bit_eq_mult)
  have "\<not> bit v i" if "k \<le> i" for i
  proof -
    have "v = take_bit k v"
      using assms(1) by (metis take_bit_nat_eq_self unsigned_take_bit_eq word_unat_eq_iff)
    with that show ?thesis by (metis bit_take_bit_iff not_less)
  qed
  then have disj: "\<not> bit v i \<or> \<not> bit (of_nat (n * 2 ^ k) :: uint) i" for i
    unfolding p by (auto simp: bit_push_bit_iff)
  then show or: "or v (of_nat (n * 2 ^ k)) = v + of_nat (n * 2 ^ k)"
    by (simp add: disjunctive_add)
  have "unat (or v (of_nat (n * 2 ^ k))) = or (unat v) (n * 2 ^ k)"
    by (simp only: unsigned_or_eq n)
  also have "\<dots> = unat v + n * 2 ^ k"
  proof (rule disjunctive_add [symmetric])
    fix i
    show "\<not> bit (unat v) i \<or> \<not> bit (n * 2 ^ k) i"
      using disj [of i] n by (metis bit_unsigned_iff)
  qed
  finally show "unat (or v (of_nat (n * 2 ^ k))) = unat v + n * 2 ^ k" .
qed

lemma byte_group:
  assumes "n < 128"
  shows "unat (and (of_nat n :: byte) 0x7f) = n" and "and (of_nat n :: byte) 0x80 = 0"
    and "unat (and (of_nat (n + 128) :: byte) 0x7f) = n" and "and (of_nat (n + 128) :: byte) 0x80 \<noteq> 0"
proof -
  have "list_all (\<lambda>n. unat (and (of_nat n :: byte) 0x7f) = n \<and> and (of_nat n :: byte) 0x80 = 0 \<and>
      unat (and (of_nat (n + 128) :: byte) 0x7f) = n \<and> and (of_nat (n + 128) :: byte) 0x80 \<noteq> 0)
    [0..<128]" by code_simp
  with assms show "unat (and (of_nat n :: byte) 0x7f) = n" "and (of_nat n :: byte) 0x80 = 0"
    "unat (and (of_nat (n + 128) :: byte) 0x7f) = n" "and (of_nat (n + 128) :: byte) 0x80 \<noteq> 0"
    by (simp_all add: list_all_iff)
qed

lemma streamGet_holds:
  "holds (b # bs) d \<Longrightarrow> streamGet d = (b, d\<lparr>input := tl (input d)\<rparr>)"
  by (auto simp: holds_def streamGet_def)

lemma d_hashBytes_absorb: "d_hashBytes bs (d\<lparr>input := drop (length bs) (input d)\<rparr>) = absorb bs bs d"
  by (simp add: d_hashBytes_def absorb_def)

lemma group_split: "a * 2 ^ k + b * 2 ^ (k + 7) = (a + b * 128) * 2 ^ k" for a b :: nat
  by (simp add: algebra_simps power_add)

lemma readLoopUInt_absorb:
  "holds (encNat n) d \<Longrightarrow> unat val < 2 ^ k \<Longrightarrow> n * 2 ^ k < 2 ^ 32 \<Longrightarrow> k < 32 \<Longrightarrow>
   readLoopUInt tell val k d = Inr (Some (val + of_nat (n * 2 ^ k)), absorb (encNat n) (encNat n) d)"
proof (induction n arbitrary: val k d rule: encNat.induct)
  case (1 n)
  have eof: "\<not> eofbit d" using 1(2) by (simp add: holds_def)
  show ?case
  proof (cases "n < 128")
    case True
    then have enc: "encNat n = [of_nat n]" by (simp add: encNat.simps)
    have "d_hashBytes [of_nat n] (d\<lparr>input := tl (input d)\<rparr>) = absorb [of_nat n] [of_nat n] d"
      using d_hashBytes_absorb [of "[of_nat n]" d] by (simp add: drop_Suc)
    then show ?thesis
      using 1(2-5) True eof streamGet_holds [of "of_nat n" "[]" d] or_add_above(1) [of val k n]
      by (simp add: readLoopUInt.simps [of tell val k d] enc byte_group Let_def)
  next
    case False
    let ?lo = "n mod 128" and ?hi = "n div 128"
    define b :: byte where "b = of_nat (?lo + 128)"
    have b: "unat (and b 0x7f) = ?lo" "and b 0x80 \<noteq> 0"
      unfolding b_def by (rule byte_group, simp)+
    have enc: "encNat n = b # encNat ?hi" using False by (simp add: encNat.simps b_def)
    have split: "?lo * 2 ^ k + ?hi * 2 ^ (k + 7) = n * 2 ^ k"
      using group_split [where a = ?lo and b = ?hi and k = k] by simp
    then have small: "?lo * 2 ^ k < 2 ^ 32" "?hi * 2 ^ (k + 7) < 2 ^ 32"
      using 1(4) by linarith+
    have "1 \<le> ?hi" using False by simp
    then have "2 ^ (k + 7) \<le> ?hi * 2 ^ (k + 7)" by simp
    with small(2) have "(2::nat) ^ (k + 7) < 2 ^ 32" by linarith
    then have k: "k + 7 < 32" by (rule power_less_imp_less_exp [rotated]) simp
    have val': "unat (or val (of_nat (?lo * 2 ^ k))) < 2 ^ (k + 7)"
    proof -
      have "?lo * 2 ^ k \<le> 127 * 2 ^ k" by simp
      with 1(3) have "unat val + ?lo * 2 ^ k < 2 ^ k + 127 * 2 ^ k" by linarith
      then show ?thesis using or_add_above(2) [OF 1(3) small(1)] by (simp add: power_add)
    qed
    have "d_hashBytes [b] (d\<lparr>input := tl (input d)\<rparr>) = absorb [b] [b] d"
      using d_hashBytes_absorb [of "[b]" d] by (simp add: drop_Suc)
    then have "readLoopUInt tell val k d =
        readLoopUInt tell (or val (of_nat (?lo * 2 ^ k))) (k + 7) (absorb [b] [b] d)"
      using 1(2,5) eof small(1) streamGet_holds [of b "encNat ?hi" d]
      by (simp add: readLoopUInt.simps [of tell val k d] enc b Let_def)
    also have "\<dots> = Inr (Some (or val (of_nat (?lo * 2 ^ k)) + of_nat (?hi * 2 ^ (k + 7))),
        absorb (encNat ?hi) (encNat ?hi) (absorb [b] [b] d))"
    proof (rule 1(1) [OF False _ val' small(2) k])
      show "holds (encNat ?hi) (absorb [b] [b] d)"
        using 1(2) holds_absorb [of "[b]" "encNat ?hi" d "[b]"] enc by simp
    qed
    also have "or val (of_nat (?lo * 2 ^ k)) + of_nat (?hi * 2 ^ (k + 7)) = val + of_nat (n * 2 ^ k)"
      using or_add_above(1) [OF 1(3) small(1)] split by (metis add.assoc of_nat_add)
    finally show ?thesis by (simp add: enc)
  qed
qed

lemma readLoopUInt_enc:
  "holds (encUInt v) d \<Longrightarrow>
   readLoopUInt tell 0 0 d = Inr (Some v, absorb (encUInt v) (encUInt v) d)"
  using readLoopUInt_absorb [of "unat v" d 0 0 tell]
  by (simp add: encUInt_def order_less_le_trans [OF unsigned_less])

lemma readUInt_absorb [wire_simps]:
  "holds (encUInt v) d \<Longrightarrow> readUInt d = Inr (v, absorb (encUInt v) (encUInt v) d)"
  by (simp add: readUInt_def readLoopUInt_enc)

lemma readUIntEof_absorb [wire_simps]:
  "holds (encUInt v) d \<Longrightarrow> readUIntEof d = Inr (Some v, absorb (encUInt v) (encUInt v) d)"
  by (simp add: readUIntEof_def readLoopUInt_enc)

text \<open>
  At the end of the data, the byte 0xff that \<open>get()\<close> returns goes to the digest before the
  end is noticed.
\<close>

lemma readUIntEof_end:
  "holds [] d \<Longrightarrow> input d = [] \<Longrightarrow> readUIntEof d = Inr (None, d\<lparr>eofbit := True, failbit := True,
     d_hash := d_hash d @ (if d_digestEnabled d then [0xff] else [])\<rparr>)"
  by (simp add: readUIntEof_def readLoopUInt.simps holds_def streamGet_def d_hashBytes_def Let_def)

interpretation uintc: codec writeUInt readUInt encUInt encUInt "\<lambda>_. True"
  by unfold_locales (simp_all add: wire_simps)

section \<open>Blobs and strings\<close>

definition encBlob :: "byte list \<Rightarrow> byte list" where
  "encBlob bs = encUInt (of_nat (length bs)) @ bs"

definition encString :: "string \<Rightarrow> byte list" where
  "encString str = encBlob (bytes_of str)"

text \<open>The length is written as a 32 bit number.\<close>

definition blob_ok :: "byte list \<Rightarrow> bool" where
  "blob_ok bs \<longleftrightarrow> length bs < 2 ^ 32"

definition string_ok :: "string \<Rightarrow> bool" where
  "string_ok str \<longleftrightarrow> length str < 2 ^ 32"

lemma writeBlob_emit [simp, wire_simps]: "writeBlob bs s = emit (encBlob bs) (encBlob bs) s"
  by (simp add: writeBlob_def encBlob_def emit_def Let_def)

lemma readBlob_absorb [wire_simps]:
  assumes "blob_ok bs" and "holds (encBlob bs) d"
  shows "readBlob d = Inr (bs, absorb (encBlob bs) (encBlob bs) d)"
proof -
  let ?n = "of_nat (length bs) :: uint" and ?d = "absorb (encUInt (of_nat (length bs))) (encUInt (of_nat (length bs))) d"
  have n: "unat ?n = length bs"
    using assms(1) by (simp add: blob_ok_def unat_of_nat take_bit_eq_mod)
  have h: "holds (encUInt ?n) d" "holds bs ?d"
    using assms(2) unfolding encBlob_def by (auto dest: holds_append holds_absorb)
  then have "streamRead (length bs) ?d = (bs, ?d\<lparr>input := drop (length bs) (input ?d)\<rparr>)"
    by (auto simp: streamRead_def holds_def)
  moreover have "\<not> failbit ?d" using h by (simp add: holds_def)
  ultimately show ?thesis
    using readUInt_absorb [OF h(1)] n d_hashBytes_absorb [of bs ?d]
    by (simp add: readBlob_def encBlob_def del: absorb_sel)
qed

interpretation blobc: codec writeBlob readBlob encBlob encBlob blob_ok
  by unfold_locales (simp_all add: wire_simps)

lemma writeString_emit [simp, wire_simps]: "writeString str s = emit (encString str) (encString str) s"
  by (simp add: writeString_def encString_def)

lemma readString_absorb [wire_simps]:
  "string_ok str \<Longrightarrow> holds (encString str) d \<Longrightarrow>
   readString d = Inr (str, absorb (encString str) (encString str) d)"
  using readBlob_absorb [of "bytes_of str" d]
  by (simp add: readString_def encString_def blob_ok_def string_ok_def)

interpretation stringc: codec writeString readString encString encString string_ok
  by unfold_locales (simp_all add: wire_simps)

section \<open>Lengths\<close>

lemma length_encNat: "n < 128 ^ Suc k \<Longrightarrow> length (encNat n) \<le> Suc k"
proof (induction k arbitrary: n)
  case 0
  then show ?case by (simp add: encNat.simps)
next
  case (Suc k)
  then have "n div 128 < 128 ^ Suc k" by (simp add: less_mult_imp_div_less mult.commute)
  with Suc.IH [of "n div 128"] show ?case by (simp add: encNat.simps [of n])
qed

lemma length_encUInt: "length (encUInt v) \<le> 5"
proof -
  have "unat v < 2 ^ 32" using unsigned_less [of v] by simp
  then have "unat v < 128 ^ Suc 4" by simp
  from length_encNat [OF this] show ?thesis by (simp add: encUInt_def)
qed

lemma length_encString: "length (encString str) \<le> length str + 5"
  using length_encUInt [of "of_nat (length str)"] by (simp add: encString_def encBlob_def)

text \<open>A successful read does not add input, and a number costs a byte.\<close>

lemma readLoopUInt_input:
  "readLoopUInt tell val k d = Inr (r, d') \<Longrightarrow>
   length (input d') \<le> length (input d) \<and> (r \<noteq> None \<longrightarrow> length (input d') < length (input d))"
proof (induction tell val k d rule: readLoopUInt.induct)
  case (1 tell val k d)
  obtain b d1 where g: "streamGet d = (b, d1)" by (cases "streamGet d")
  have len: "length (input d1) \<le> length (input d)"
    "and b 0x80 = 0 \<Longrightarrow> length (input d1) < length (input d)"
    using g by (auto simp: streamGet_def split: if_splits list.splits)
  have h: "input (d_hashBytes [b] d1) = input d1" by (simp add: d_hashBytes_def)
  show ?case
  proof (cases "eofbit d")
    case True
    with 1(2) show ?thesis by (auto simp: readLoopUInt.simps [of tell val k d] split: if_splits)
  next
    case False
    note eof = this
    let ?bits = "unat (and b 0x7f) * 2 ^ k"
    have over: "\<not> (2 ^ 32 \<le> ?bits \<or> 32 \<le> k)"
      using 1(2) eof g by (auto simp: readLoopUInt.simps [of tell val k d] Let_def split: if_splits)
    show ?thesis
    proof (cases "and b 0x80 = 0")
      case True
      with 1(2) eof g over len h show ?thesis
        by (auto simp: readLoopUInt.simps [of tell val k d] Let_def)
    next
      case False
      have "readLoopUInt tell (or val (of_nat ?bits)) (k + 7) (d_hashBytes [b] d1) = Inr (r, d')"
        using 1(2) eof g over False by (simp add: readLoopUInt.simps [of tell val k d] Let_def)
      with 1(1) [OF eof g [symmetric] refl refl over refl False] len h show ?thesis by fastforce
    qed
  qed
qed

lemma readUIntEof_input:
  "readUIntEof d = Inr (r, d') \<Longrightarrow> length (input d') \<le> length (input d)"
  "readUIntEof d = Inr (Some v, d') \<Longrightarrow> length (input d') < length (input d)"
  using readLoopUInt_input unfolding readUIntEof_def by blast+

lemma readUInt_input: "readUInt d = Inr (v, d') \<Longrightarrow> length (input d') \<le> length (input d)"
  using readLoopUInt_input by (fastforce simp: readUInt_def andThen_eq_Inr)

lemma streamRead_input: "streamRead n d = (bs, d') \<Longrightarrow> length (input d') \<le> length (input d)"
  by (auto simp: streamRead_def split: if_splits)

lemma readBlob_input: "readBlob d = Inr (bs, d') \<Longrightarrow> length (input d') \<le> length (input d)"
proof -
  assume "readBlob d = Inr (bs, d')"
  then obtain v d1 where v: "readUInt d = Inr (v, d1)"
    and rest: "(case streamRead (unat v) d1 of (bs, d2) \<Rightarrow>
       if failbit d2 then Inl (DeserializationError ''EOF deserializing meta-data'')
       else Inr (bs, d_hashBytes bs d2)) = Inr (bs, d')"
    by (auto simp: readBlob_def andThen_eq_Inr)
  obtain bs' d2 where s: "streamRead (unat v) d1 = (bs', d2)" by (cases "streamRead (unat v) d1")
  from rest have "d' = d_hashBytes bs' d2" by (auto simp: s split: if_splits)
  note r = v s this
  then have "input d' = input d2" by (simp add: d_hashBytes_def)
  with r show ?thesis using readUInt_input streamRead_input by fastforce
qed

lemma readString_input: "readString d = Inr (str, d') \<Longrightarrow> length (input d') \<le> length (input d)"
  by (auto simp: readString_def andThen_eq_Inr dest: readBlob_input)

lemma nestedDeserializer_input:
  "nestedDeserializer d = Inr (n, d') \<Longrightarrow> length (input d') \<le> length (input d)"
  by (auto simp: nestedDeserializer_def andThen_eq_Inr dest: readString_input)

end
