(* ===== verification/Codec_Objects.thy ===== *)
theory Codec_Objects
  imports Codec
begin

text \<open>
  Objects that occur several times: \<open>Serializer::writeObject()\<close> writes an object's state the
  first time and only its id afterwards, \<open>Deserializer::readObject()\<close> resolves the ids. The
  lemmas of the locale \<open>obj_codec\<close> say that a list of objects, with repetitions, is read
  back as it was written.
\<close>

section \<open>Reads that may change the object map\<close>

definition consumed :: "byte list \<Rightarrow> byte list \<Rightarrow> 'o deserializer \<Rightarrow> 'o deserializer \<Rightarrow> bool" where
  "consumed bs hs d d' \<longleftrightarrow> input d' = drop (length bs) (input d) \<and> eofbit d' = eofbit d \<and>
     failbit d' = failbit d \<and> d_digestEnabled d' = d_digestEnabled d \<and>
     d_hash d' = d_hash d @ (if d_digestEnabled d then hs else [])"

lemma consumed_absorb [simp, intro]: "consumed bs hs d (absorb bs hs d)"
  by (simp add: consumed_def)

lemma consumed_objMap [simp]:
  "consumed bs hs d (d'\<lparr>d_objMap := m\<rparr>) = consumed bs hs d d'"
  "consumed bs hs d (d'\<lparr>userData := u\<rparr>) = consumed bs hs d d'"
  by (simp_all add: consumed_def)

lemma consumed_trans:
  "consumed bs hs d d' \<Longrightarrow> consumed bs' hs' d' d'' \<Longrightarrow> consumed (bs @ bs') (hs @ hs') d d''"
  by (simp add: consumed_def add.commute)

lemma consumed_holds:
  "consumed bs hs d d' \<Longrightarrow> holds (bs @ bs') d \<Longrightarrow> holds bs' d'"
  by (auto simp: consumed_def holds_def)

section \<open>Ids on both sides\<close>

text \<open>
  Every id the writer has given out is known to the reader, who has the object's content
  under it.
\<close>

definition idsAgree :: "(nat \<Rightarrow> 'o) \<Rightarrow> serializer \<Rightarrow> 'o deserializer \<Rightarrow> bool" where
  "idsAgree content s d \<longleftrightarrow>
     (\<forall>p i. s_objMap s p = Some i \<longrightarrow> i < lastId s \<and> d_objMap d (int i) = Some (content p))"

text \<open>The call pattern of the code: the id, then the state when the id is new.\<close>

definition writeWith :: "('o \<Rightarrow> serializer \<Rightarrow> serializer) \<Rightarrow> (nat \<Rightarrow> 'o) \<Rightarrow> nat \<Rightarrow> serializer \<Rightarrow> serializer" where
  "writeWith wr content p s =
     (case writeObject p s of (new, s1) \<Rightarrow> if new then wr (content p) s1 else s1)"

primrec readObjects :: "('o, 'o) reads \<Rightarrow> nat \<Rightarrow> ('o, 'o list) reads" where
  "readObjects rd 0 d = Inr ([], d)"
| "readObjects rd (Suc n) d =
     andThen (readObject rd d) (\<lambda>((x, _, _), d1).
       andThen (readObjects rd n d1) (\<lambda>(xs, d2). Inr (x # xs, d2)))"

lemma sint_of_nat32: "n < 2 ^ 31 \<Longrightarrow> sint (of_nat n :: uint) = int n"
  using signed_take_bit_int_eq_self [of 31 "int n"] by (simp add: signed_of_nat)

lemma id_word:
  assumes "i < 2 ^ 30"
  shows "sint (of_nat (2 * i + 1) :: uint) = 2 * int i + 1" and "sint (of_nat (2 * i) :: uint) = 2 * int i"
  using sint_of_nat32 [of "2 * i + 1"] sint_of_nat32 [of "2 * i"] assms by (simp_all only: of_nat_add of_nat_mult) simp_all

locale obj_codec = codec wr rd enc hsh ok
  for wr :: "'o \<Rightarrow> serializer \<Rightarrow> serializer"
    and rd :: "'o deserializer \<Rightarrow> derror + 'o \<times> 'o deserializer"
    and enc hsh :: "'o \<Rightarrow> byte list" and ok :: "'o \<Rightarrow> bool"
begin

lemma object_roundtrip:
  assumes "ok (content p)" and "lastId s < 2 ^ 30"
  shows "\<exists>bs hs. writeWith wr content p s = emit bs hs (snd (registerObject p s)) \<and>
    (\<forall>d. idsAgree content s d \<and> holds bs d \<longrightarrow>
      (\<exists>new u d'. readObject rd d = Inr ((content p, new, u), d') \<and> consumed bs hs d d' \<and>
        idsAgree content (writeWith wr content p s) d'))"
proof (cases "s_objMap s p")
  case None
  let ?i = "lastId s"
  let ?w = "of_nat (2 * lastId s + 1) :: uint"
  let ?bs = "encUInt ?w @ enc (content p)" and ?hs = "encUInt ?w @ hsh (content p)"
  let ?s = "snd (registerObject p s)"
  have w: "writeWith wr content p s = emit ?bs ?hs ?s"
    using None by (simp add: writeWith_def writeObject_def registerObject_def wr_emit Let_def)
  have "\<exists>new u d'. readObject rd d = Inr ((content p, new, u), d') \<and> consumed ?bs ?hs d d' \<and>
      idsAgree content (emit ?bs ?hs ?s) d'"
    if d: "idsAgree content s d" "holds ?bs d" for d
  proof -
    let ?d = "absorb (encUInt ?w) (encUInt ?w) d"
    let ?d2 = "absorb (enc (content p)) (hsh (content p)) (?d\<lparr>userData := 0\<rparr>)"
    have "readUInt d = Inr (?w, ?d)" using d(2) holds_append readUInt_absorb by blast
    moreover have "holds (enc (content p)) (?d\<lparr>userData := 0\<rparr>)"
      using holds_absorb [OF d(2)] by (simp add: holds_def)
    then have "rd (?d\<lparr>userData := 0\<rparr>) = Inr (content p, ?d2)"
      using assms(1) rd_absorb by blast
    ultimately have "readObject rd d =
        Inr ((content p, True, userData ?d2), ?d2\<lparr>d_objMap := (d_objMap ?d2)(int ?i \<mapsto> content p)\<rparr>)"
      using id_word [OF assms(2)] by (simp add: readObject_def)
    moreover have "consumed ?bs ?hs d (?d2\<lparr>d_objMap := (d_objMap ?d2)(int ?i \<mapsto> content p)\<rparr>)"
      by (simp add: consumed_def add.commute)
    moreover have "idsAgree content (emit ?bs ?hs ?s)
        (?d2\<lparr>d_objMap := (d_objMap ?d2)(int ?i \<mapsto> content p)\<rparr>)"
      using d(1) None by (fastforce simp: idsAgree_def registerObject_def)
    ultimately show ?thesis by blast
  qed
  with w show ?thesis by metis
next
  case (Some i)
  let ?w = "of_nat (2 * i) :: uint"
  have w: "writeWith wr content p s = emit (encUInt ?w) (encUInt ?w) (snd (registerObject p s))"
    using Some by (simp add: writeWith_def writeObject_def registerObject_def)
  have "\<exists>new u d'. readObject rd d = Inr ((content p, new, u), d') \<and>
      consumed (encUInt ?w) (encUInt ?w) d d' \<and>
      idsAgree content (emit (encUInt ?w) (encUInt ?w) (snd (registerObject p s))) d'"
    if d: "idsAgree content s d" "holds (encUInt ?w) d" for d
  proof -
    have i: "i < lastId s" "d_objMap d (int i) = Some (content p)"
      using d(1) Some by (auto simp: idsAgree_def)
    have "readObject rd d = Inr ((content p, False, 0), absorb (encUInt ?w) (encUInt ?w) d)"
      using id_word(2) [of i] assms(2) i readUInt_absorb [OF d(2)] by (simp add: readObject_def)
    moreover have "idsAgree content (emit (encUInt ?w) (encUInt ?w) (snd (registerObject p s)))
        (absorb (encUInt ?w) (encUInt ?w) d)"
      using d(1) Some by (simp add: idsAgree_def registerObject_def)
    ultimately show ?thesis by blast
  qed
  with w show ?thesis by metis
qed

lemma lastId_register: "lastId (snd (registerObject p s)) \<le> Suc (lastId s)"
  by (simp add: registerObject_def split: option.split)

lemma objects_roundtrip:
  "list_all (\<lambda>p. ok (content p)) ps \<Longrightarrow> lastId s + length ps \<le> 2 ^ 30 \<Longrightarrow>
   \<exists>bs hs. fold (writeWith wr content) ps s = emit bs hs (fold (\<lambda>p s. snd (registerObject p s)) ps s) \<and>
    (\<forall>d. idsAgree content s d \<and> holds bs d \<longrightarrow>
      (\<exists>d'. readObjects rd (length ps) d = Inr (map content ps, d') \<and> consumed bs hs d d' \<and>
        idsAgree content (fold (writeWith wr content) ps s) d'))"
proof (induction ps arbitrary: s)
  case Nil
  show ?case by (intro exI [of _ "[]"]) (auto simp: consumed_def)
next
  case (Cons p ps)
  from Cons.prems object_roundtrip [of content p s] obtain bs hs where
    b: "writeWith wr content p s = emit bs hs (snd (registerObject p s))"
      "\<And>d. idsAgree content s d \<Longrightarrow> holds bs d \<Longrightarrow>
        \<exists>new u d'. readObject rd d = Inr ((content p, new, u), d') \<and> consumed bs hs d d' \<and>
          idsAgree content (writeWith wr content p s) d'"
    by auto
  let ?s = "writeWith wr content p s"
  have "lastId ?s + length ps \<le> 2 ^ 30"
    using Cons.prems(2) lastId_register [of p s] b(1) by simp
  with Cons.IH [of ?s] Cons.prems(1) obtain bs' hs' where
    b': "fold (writeWith wr content) ps ?s = emit bs' hs' (fold (\<lambda>p s. snd (registerObject p s)) ps ?s)"
      "\<And>d. idsAgree content ?s d \<Longrightarrow> holds bs' d \<Longrightarrow>
        \<exists>d'. readObjects rd (length ps) d = Inr (map content ps, d') \<and> consumed bs' hs' d d' \<and>
          idsAgree content (fold (writeWith wr content) ps ?s) d'"
    by auto
  have emit_register: "fold (\<lambda>p s. snd (registerObject p s)) qs (emit bs hs u) =
      emit bs hs (fold (\<lambda>p s. snd (registerObject p s)) qs u)" for qs u
  proof (induction qs arbitrary: u)
    case (Cons q qs)
    have "snd (registerObject q (emit bs hs u)) = emit bs hs (snd (registerObject q u))"
      by (simp add: registerObject_def emit_def split: option.split)
    with Cons.IH show ?case by simp
  qed simp
  have all: "fold (writeWith wr content) (p # ps) s = emit (bs @ bs') (hs @ hs')
      (fold (\<lambda>p s. snd (registerObject p s)) (p # ps) s)"
    using b'(1) b(1) by (simp add: emit_register)
  have "\<exists>d'. readObjects rd (length (p # ps)) d = Inr (map content (p # ps), d') \<and>
      consumed (bs @ bs') (hs @ hs') d d' \<and> idsAgree content (fold (writeWith wr content) (p # ps) s) d'"
    if d: "idsAgree content s d" "holds (bs @ bs') d" for d
  proof -
    from d obtain new u d1 where d1: "readObject rd d = Inr ((content p, new, u), d1)"
        "consumed bs hs d d1" "idsAgree content ?s d1"
      using b(2) holds_append by blast
    moreover have "holds bs' d1" using d d1(2) consumed_holds by blast
    ultimately obtain d2 where "readObjects rd (length ps) d1 = Inr (map content ps, d2)"
        "consumed bs' hs' d1 d2" "idsAgree content (fold (writeWith wr content) ps ?s) d2"
      using b'(2) by blast
    with d1 show ?thesis by (auto intro: consumed_trans)
  qed
  with all show ?case by blast
qed

end

end
