(* ===== verification/Imports.thy ===== *)
theory Imports
  imports Codec_Objects
begin

text \<open>
  Import statements as the cache stores them: \<open>ImportedDef\<close> (model/ImportedDef.cc) and
  \<open>Import\<close> (model/Import.cc), with the loop over tagged fields of model/ProtoBuf.h. Both are
  interpretations of the contract \<open>codec\<close>, and imports, which are shared objects, of
  \<open>obj_codec\<close>.
\<close>

section \<open>Symbols\<close>

record importedDef =
  local :: string
  source :: string

text \<open>\<open>CRACK_PB_KEY(id, type)\<close> with \<open>ProtoBuf::string\<close>.\<close>

definition pbKeyString :: "nat \<Rightarrow> uint" where
  "pbKeyString i = or (push_bit 3 (of_nat i)) 2"

lemma pbKeyString_simps [simp]: "pbKeyString 1 = 10" "pbKeyString (Suc 0) = 10" "pbKeyString 2 = 18"
  by (simp_all add: pbKeyString_def)

definition serializeImportedDef :: "importedDef \<Rightarrow> serializer \<Rightarrow> serializer" where
  "serializeImportedDef def s =
     (let s1 = writeString (source def) s in
      if local def \<noteq> source def then
        let ser = writeString (local def) (writeUInt (pbKeyString 1) (nestedSerializer s1))
        in writeBlob (dst ser) (shareObjMap ser s1)
      else writeUInt 0 s1)"

text \<open>
  The loop between \<open>CRACK_PB_BEGIN\<close> and \<open>CRACK_PB_END\<close>, over the nested deserializer: a
  field that is not known is skipped, its content being taken for the next header.
\<close>

function importedDefFields :: "string \<Rightarrow> ('o, string) reads" where
  "importedDefFields loc d =
     (case readUIntEof d of
        Inl e \<Rightarrow> Inl e
      | Inr (None, d1) \<Rightarrow> Inr (loc, d1)
      | Inr (Some h, d1) \<Rightarrow>
          if h = pbKeyString 1 then
            (case readString d1 of
               Inl e \<Rightarrow> Inl e
             | Inr (loc', d2) \<Rightarrow> importedDefFields loc' d2)
          else importedDefFields loc d1)"
  by pat_completeness auto
termination
  by (relation "measure (\<lambda>(loc, d). length (input d))")
     (auto dest!: readUIntEof_input(2) readString_input)

declare importedDefFields.simps [simp del]

definition deserializeImportedDef :: "('o, importedDef) reads" where
  "deserializeImportedDef d =
     andThen (readString d) (\<lambda>(src, d1).
     andThen (nestedDeserializer d1) (\<lambda>(optional, d2).
     andThen (importedDefFields [] optional) (\<lambda>(loc, _).
       Inr (if loc \<noteq> [] then \<lparr>local = loc, source = src\<rparr> else \<lparr>local = src, source = src\<rparr>, d2))))"

text \<open>The encoding; an empty local name for another source name would be lost.\<close>

definition encLocal :: "string \<Rightarrow> byte list" where
  "encLocal loc = encUInt 10 @ encString loc"

definition encImportedDef :: "importedDef \<Rightarrow> byte list" where
  "encImportedDef def = encString (source def) @
     (if local def \<noteq> source def then encBlob (encLocal (local def)) else encUInt 0)"

definition name_ok :: "string \<Rightarrow> bool" where
  "name_ok str \<longleftrightarrow> length str < 2 ^ 31"

definition importedDef_ok :: "importedDef \<Rightarrow> bool" where
  "importedDef_ok def \<longleftrightarrow> name_ok (local def) \<and> name_ok (source def) \<and>
     (local def = [] \<longrightarrow> source def = [])"

lemma name_ok_string_ok: "name_ok str \<Longrightarrow> string_ok str"
  by (simp add: name_ok_def string_ok_def)

lemma nestedSerializer_sel [simp]:
  "dst (nestedSerializer s) = []" "s_objMap (nestedSerializer s) = s_objMap s"
  "lastId (nestedSerializer s) = lastId s"
  by (simp_all add: nestedSerializer_def)

lemma shareObjMap_same: "shareObjMap (emit bs hs (nestedSerializer s)) s = s"
  by (simp add: shareObjMap_def)

lemma serializeImportedDef_emit [simp, wire_simps]:
  "serializeImportedDef def s = emit (encImportedDef def) (encImportedDef def) s"
  by (simp add: serializeImportedDef_def encImportedDef_def encLocal_def shareObjMap_same Let_def)

lemma holds_new: "holds bs ((newDeserializer bs)\<lparr>d_objMap := m\<rparr>)"
  by (simp add: holds_def newDeserializer_def)

lemma nestedDeserializer_absorb:
  assumes "blob_ok bs" and "holds (encBlob bs) d"
  shows "nestedDeserializer d = Inr ((newDeserializer bs)\<lparr>d_objMap := d_objMap d\<rparr>,
    absorb (encBlob bs) (encBlob bs) d)"
  using readString_absorb [of "chars_of bs" d] assms
  by (simp add: nestedDeserializer_def encString_def string_ok_def blob_ok_def)

lemma importedDefFields_enc:
  assumes "string_ok loc" and "holds (encLocal loc) d" and "input d = encLocal loc"
  shows "\<exists>d'. importedDefFields [] d = Inr (loc, d')"
proof -
  let ?d1 = "absorb (encUInt 10) (encUInt 10) d"
  let ?d2 = "absorb (encString loc) (encString loc) ?d1"
  have h: "holds (encUInt 10) d" "holds (encString loc) ?d1"
    using assms(2) by (auto simp: encLocal_def dest: holds_append holds_absorb)
  have "holds [] ?d2" "input ?d2 = []"
    using h(2) assms(3) by (auto simp: encLocal_def holds_def)
  from readUIntEof_end [OF this] show ?thesis
    using readUIntEof_absorb [OF h(1)] readString_absorb [OF assms(1) h(2)]
    by (simp add: importedDefFields.simps [of "[]" d] importedDefFields.simps [of loc] del: absorb_absorb)
qed

lemma importedDefFields_empty:
  "holds [] d \<Longrightarrow> input d = [] \<Longrightarrow> \<exists>d'. importedDefFields loc d = Inr (loc, d')"
  by (simp add: importedDefFields.simps [of loc d] readUIntEof_end)

lemma encUInt_0: "encUInt 0 = encBlob []"
  by (simp add: encBlob_def)

lemma deserializeImportedDef_absorb:
  assumes "importedDef_ok def" and "holds (encImportedDef def) d"
  shows "deserializeImportedDef d = Inr (def, absorb (encImportedDef def) (encImportedDef def) d)"
proof -
  let ?opt = "if local def \<noteq> source def then encLocal (local def) else []"
  have enc: "encImportedDef def = encString (source def) @ encBlob ?opt"
    by (simp add: encImportedDef_def encUInt_0)
  let ?d1 = "absorb (encString (source def)) (encString (source def)) d"
  have h: "holds (encString (source def)) d" "holds (encBlob ?opt) ?d1"
    using assms(2) unfolding enc by (auto dest: holds_append holds_absorb)
  have ok: "string_ok (source def)" "string_ok (local def)" "blob_ok ?opt"
    using assms(1) length_encString [of "local def"] length_encUInt [of 10]
    by (auto simp: importedDef_ok_def name_ok_def string_ok_def blob_ok_def encLocal_def)
  let ?n = "(newDeserializer ?opt)\<lparr>d_objMap := d_objMap ?d1\<rparr>"
  have "holds ?opt ?n" "input ?n = ?opt" by (rule holds_new) (simp add: newDeserializer_def)
  then obtain d' where "importedDefFields [] ?n = Inr (if local def \<noteq> source def then local def else [], d')"
    using importedDefFields_enc [OF ok(2), of ?n] importedDefFields_empty [of ?n "[]"]
    by (auto split: if_splits)
  then show ?thesis
    using readString_absorb [OF ok(1) h(1)] nestedDeserializer_absorb [OF ok(3) h(2)] assms(1)
    by (auto simp: deserializeImportedDef_def enc importedDef_ok_def)
qed

interpretation importedDefc:
  codec serializeImportedDef deserializeImportedDef encImportedDef encImportedDef importedDef_ok
  by unfold_locales (simp_all add: deserializeImportedDef_absorb)

section \<open>Import statements\<close>

record import =
  moduleName :: "string list"
  syms :: "importedDef list"

definition serializeImport :: "import \<Rightarrow> serializer \<Rightarrow> serializer" where
  "serializeImport imp s =
     (let s1 = writeUInt (of_nat (length (moduleName imp))) s;
          s2 = fold writeString (moduleName imp) s1;
          s3 = writeUInt (of_nat (length (syms imp))) s2;
          s4 = fold serializeImportedDef (syms imp) s3
      in writeUInt 0 s4)"

definition deserializeImport :: "('o, import) reads" where
  "deserializeImport d =
     andThen (readUInt d) (\<lambda>(count, d1).
     andThen (readN readString (unat count) d1) (\<lambda>(names, d2).
     andThen (readUInt d2) (\<lambda>(count', d3).
     andThen (readN deserializeImportedDef (unat count') d3) (\<lambda>(defs, d4).
     andThen (readString d4) (\<lambda>(_, d5).
       Inr (\<lparr>moduleName = names, syms = defs\<rparr>, d5))))))"

definition encImport :: "import \<Rightarrow> byte list" where
  "encImport imp = encUInt (of_nat (length (moduleName imp))) @ concat (map encString (moduleName imp)) @
     encUInt (of_nat (length (syms imp))) @ concat (map encImportedDef (syms imp)) @ encString []"

definition import_ok :: "import \<Rightarrow> bool" where
  "import_ok imp \<longleftrightarrow> length (moduleName imp) < 2 ^ 31 \<and> list_all name_ok (moduleName imp) \<and>
     length (syms imp) < 2 ^ 31 \<and> list_all importedDef_ok (syms imp)"

lemma encUInt_0_string: "encUInt 0 = encString []"
  by (simp add: encString_def encBlob_def bytes_of_def)

lemma serializeImport_emit: "serializeImport imp s = emit (encImport imp) (encImport imp) s"
  by (simp add: serializeImport_def encImport_def stringc.wrAll_emit importedDefc.wrAll_emit Let_def
      encUInt_0_string del: writeString_emit serializeImportedDef_emit)

lemma unat_count: "n < 2 ^ 31 \<Longrightarrow> unat (of_nat n :: uint) = n"
  by (simp add: unat_of_nat take_bit_eq_mod)

lemma deserializeImport_absorb:
  assumes "import_ok imp" and "holds (encImport imp) d"
  shows "deserializeImport d = Inr (imp, absorb (encImport imp) (encImport imp) d)"
proof -
  let ?e1 = "encUInt (of_nat (length (moduleName imp)))" and ?e2 = "concat (map encString (moduleName imp))"
  let ?e3 = "encUInt (of_nat (length (syms imp)))" and ?e4 = "concat (map encImportedDef (syms imp))"
  let ?d1 = "absorb ?e1 ?e1 d" let ?d2 = "absorb ?e2 ?e2 ?d1"
  let ?d3 = "absorb ?e3 ?e3 ?d2" let ?d4 = "absorb ?e4 ?e4 ?d3"
  have h: "holds ?e1 d" "holds (?e2 @ ?e3 @ ?e4 @ encString []) ?d1"
    using assms(2) unfolding encImport_def by (blast intro: holds_append holds_absorb)+
  have h2: "holds ?e2 ?d1" "holds (?e3 @ ?e4 @ encString []) ?d2"
    using h(2) by (blast intro: holds_append holds_absorb)+
  have h3: "holds ?e3 ?d2" "holds (?e4 @ encString []) ?d3"
    using h2(2) by (blast intro: holds_append holds_absorb)+
  have h4: "holds ?e4 ?d3" "holds (encString []) ?d4"
    using h3(2) by (blast intro: holds_append holds_absorb)+
  have ok: "list_all string_ok (moduleName imp)" "list_all importedDef_ok (syms imp)"
    using assms(1) by (auto simp: import_ok_def list_all_iff name_ok_string_ok)
  show ?thesis
    using assms(1) readUInt_absorb [OF h(1)] stringc.readN_absorb [OF ok(1) h2(1)]
      readUInt_absorb [OF h3(1)] importedDefc.readN_absorb [OF ok(2) h4(1)]
      readString_absorb [OF _ h4(2)]
    by (simp add: deserializeImport_def import_ok_def unat_count encImport_def string_ok_def)
qed

interpretation importc: codec serializeImport deserializeImport encImport encImport import_ok
  by unfold_locales (simp_all add: serializeImport_emit deserializeImport_absorb)

interpretation importo: obj_codec serializeImport deserializeImport encImport encImport import_ok
  by unfold_locales

end
