(* ===== verification/Generic_Serial.thy ===== *)
theory Generic_Serial
  imports Imports Toker_Get
begin

text \<open>
  Stored generics (model/Generic.cc, Generic.h): the serialization of tokens with as much
  location information as changes, the serialization of a whole generic, its replay into the
  tokenizer, and the token serializer annotations use (compiler/TokSerializer.cc).
\<close>

section \<open>Tokens\<close>

text \<open>The token types whose text is stored.\<close>

definition hasData :: "ttype \<Rightarrow> bool" where
  "hasData tt \<longleftrightarrow> tt \<in> {T_integer, T_string, T_ident, T_floatLit, T_octalLit, T_hexLit, T_binLit}"

definition serializeToken :: "token \<Rightarrow> serializer \<Rightarrow> serializer" where
  "serializeToken tok s =
     (let s1 = writeUInt (of_nat (tt_code (tok_type tok))) s;
          s2 = (if hasData (tok_type tok) then writeString (tok_data tok) s1 else s1)
      in withDigest False (writeUInt (word_of_int (getStartCol (tok_loc tok)))) s2)"

text \<open>The table of \<open>TOKTXT\<close>; the other types get the empty text.\<close>

definition tokTextTable :: "(ttype \<times> string) list" where
  "tokTextTable =
    [(T_ann, ''@''), (T_bitAnd, ''&''), (T_bitLSh, ''<<''), (T_bitOr, ''|''), (T_bitRSh, ''>>''),
     (T_bitXor, ''^''), (T_dollar, ''$''), (T_assign, ''=''), (T_assignAnd, ''&=''),
     (T_assignAsterisk, ''*=''), (T_assignLSh, ''<<=''), (T_assignOr, ''|=''),
     (T_assignRSh, ''>>=''), (T_assignXor, ''^=''), (T_assignMinus, ''-=''),
     (T_assignPercent, ''%=''), (T_assignPlus, ''+=''), (T_assignSlash, ''/=''),
     (T_asterisk, ''*''), (T_bang, ''!''), (T_colon, '':''), (T_comma, '',''), (T_decr, ''--''),
     (T_define, '':=''), (T_dot, ''.''), (T_eq, ''==''), (T_ge, ''>=''), (T_gt, ''>''),
     (T_incr, ''++''), (T_lbracket, ''[''), (T_lcurly, ''{''), (T_le, ''<=''), (T_lparen, ''(''),
     (T_lt, ''<''), (T_minus, ''-''), (T_ne, ''!=''), (T_percent, ''%''), (T_plus, ''+''),
     (T_quest, ''?''), (T_rbracket, '']''), (T_rcurly, ''}''), (T_rparen, '')''), (T_semi, '';''),
     (T_slash, ''/''), (T_tilde, ''~''), (T_logicAnd, ''&&''), (T_logicOr, ''||''),
     (T_scoping, ''::''), (T_isKw, ''is'')]"

definition tokText :: "ttype \<Rightarrow> string" where
  "tokText tt = (case map_of tokTextTable tt of Some s \<Rightarrow> s | None \<Rightarrow> [])"

text \<open>The end of the function: the column, and the token at the current file and line.\<close>

definition readColumn :: "ttype \<Rightarrow> string \<Rightarrow> string \<Rightarrow> int \<Rightarrow> ('o, token) reads" where
  "readColumn tt txt fileName lineNum d =
     andThen (d_withDigest False readUInt d) (\<lambda>(w, d1).
       Inr (mkToken tt txt (Some \<lparr>loc_name = cstr fileName, loc_lineNumber = lineNum,
         loc_startCol = sint w, loc_endCol = sint w + int (length txt)\<rparr>), d1))"

text \<open>\<open>fileName\<close> and \<open>lineNum\<close> are reference parameters: their new values are returned.\<close>

definition deserializeToken :: "string \<Rightarrow> int \<Rightarrow> ('o, token \<times> string \<times> int) reads" where
  "deserializeToken fileName lineNum d =
     andThen (readUInt d) (\<lambda>(w, d1).
       let tt = TType (unat w) in
       if hasData tt then
         andThen (readString d1) (\<lambda>(txt, d2).
         andThen (readColumn tt txt fileName lineNum d2) (\<lambda>(tok, d3).
           Inr ((tok, fileName, lineNum), d3)))
       else if tt = T_fileName then
         andThen (readString d1) (\<lambda>(name, d2). Inr ((mkToken tt [] None, name, lineNum), d2))
       else if tt = T_lineNumber then
         andThen (readUInt d1) (\<lambda>(n, d2). Inr ((mkToken tt [] None, fileName, sint n), d2))
       else
         andThen (readColumn tt (tokText tt) fileName lineNum d1) (\<lambda>(tok, d2).
           Inr ((tok, fileName, lineNum), d2)))"

text \<open>Returns the count, and the file and line that are current after the token.\<close>

definition serializeFullToken ::
  "string \<Rightarrow> int \<Rightarrow> token \<Rightarrow> serializer \<Rightarrow> int \<times> string \<times> int \<times> serializer" where
  "serializeFullToken fileName lineNum tok s =
     (let loc = tok_loc tok;
          (recount1, fileName', s1) =
            (if getName loc \<noteq> fileName
             then (1, getName loc, writeString (getName loc) (writeUInt (of_nat (tt_code T_fileName)) s))
             else (0, fileName, s));
          (recount2, lineNum', s2) =
            (if getLineNumber loc \<noteq> lineNum
             then (recount1 + 1, getLineNumber loc,
                   writeUInt (word_of_int (getLineNumber loc))
                     (writeUInt (of_nat (tt_code T_lineNumber)) s1))
             else (recount1, lineNum, s1))
      in (recount2 + 1, fileName', lineNum', serializeToken tok s2))"

section \<open>Encodings\<close>

definition encToken :: "token \<Rightarrow> byte list" where
  "encToken tok = encUInt (of_nat (tt_code (tok_type tok))) @
     (if hasData (tok_type tok) then encString (tok_data tok) else []) @
     encUInt (word_of_int (getStartCol (tok_loc tok)))"

text \<open>What of it goes to the digest: all but the column.\<close>

definition hshToken :: "token \<Rightarrow> byte list" where
  "hshToken tok = encUInt (of_nat (tt_code (tok_type tok))) @
     (if hasData (tok_type tok) then encString (tok_data tok) else [])"

definition encPlace :: "string \<Rightarrow> int \<Rightarrow> token \<Rightarrow> byte list" where
  "encPlace fn ln tok =
     (if getName (tok_loc tok) \<noteq> fn then encUInt 125 @ encString (getName (tok_loc tok)) else []) @
     (if getLineNumber (tok_loc tok) \<noteq> ln
      then encUInt 126 @ encUInt (word_of_int (getLineNumber (tok_loc tok))) else [])"

definition fullCount :: "string \<Rightarrow> int \<Rightarrow> token \<Rightarrow> nat" where
  "fullCount fn ln tok = Suc ((if getName (tok_loc tok) \<noteq> fn then 1 else 0) +
     (if getLineNumber (tok_loc tok) \<noteq> ln then 1 else 0))"

lemma withDigest_emit: "withDigest False (emit bs hs) s = emit bs [] s"
  by (simp add: withDigest_def emit_def)

lemma serializeToken_emit [wire_simps]: "serializeToken tok s = emit (encToken tok) (hshToken tok) s"
proof -
  have "withDigest False (writeUInt v) u = emit (encUInt v) [] u" for v u
    using withDigest_emit [of "encUInt v" "encUInt v" u] by (simp add: withDigest_def)
  then show ?thesis by (simp add: serializeToken_def encToken_def hshToken_def Let_def)
qed

lemma serializeFullToken_emit [wire_simps]:
  "serializeFullToken fn ln tok s =
     (int (fullCount fn ln tok), getName (tok_loc tok), getLineNumber (tok_loc tok),
      emit (encPlace fn ln tok @ encToken tok) (encPlace fn ln tok @ hshToken tok) s)"
  by (simp add: serializeFullToken_def serializeToken_emit encPlace_def fullCount_def Let_def)

text \<open>
  What comes back: the text of a token without stored text is looked up, and the end column
  is computed.
\<close>

definition storedText :: "token \<Rightarrow> string" where
  "storedText tok = (if hasData (tok_type tok) then tok_data tok else tokText (tok_type tok))"

definition storedToken :: "token \<Rightarrow> token" where
  "storedToken tok = mkToken (tok_type tok) (storedText tok)
     (Some \<lparr>loc_name = getName (tok_loc tok), loc_lineNumber = getLineNumber (tok_loc tok),
        loc_startCol = getStartCol (tok_loc tok),
        loc_endCol = getStartCol (tok_loc tok) + int (length (storedText tok))\<rparr>)"

definition int_ok :: "int \<Rightarrow> bool" where
  "int_ok k \<longleftrightarrow> - (2 ^ 31) \<le> k \<and> k < 2 ^ 31"

text \<open>
  A token as the tokenizer makes it: an ordinary type, numbers that are C ints, lines that
  are not the negative start value, names without NUL, sizes that fit.
\<close>

definition token_ok :: "token \<Rightarrow> bool" where
  "token_ok tok \<longleftrightarrow> tt_code (tok_type tok) < 125 \<and> name_ok (tok_data tok) \<and>
     name_ok (getName (tok_loc tok)) \<and> CHR 0x00 \<notin> set (getName (tok_loc tok)) \<and>
     0 \<le> getLineNumber (tok_loc tok) \<and> int_ok (getLineNumber (tok_loc tok)) \<and>
     int_ok (getStartCol (tok_loc tok))"

lemma sint_int_ok: "int_ok k \<Longrightarrow> sint (word_of_int k :: uint) = k"
  by (simp add: int_ok_def signed_of_int signed_take_bit_int_eq_self)

lemma cstr_id: "CHR 0x00 \<notin> set s \<Longrightarrow> cstr s = s"
  by (induction s) (auto simp: cstr_def)

lemma readColumn_absorb:
  assumes "holds (encUInt (word_of_int k)) d" and "int_ok k"
  shows "readColumn tt txt fn ln d = Inr (mkToken tt txt (Some \<lparr>loc_name = cstr fn,
    loc_lineNumber = ln, loc_startCol = k, loc_endCol = k + int (length txt)\<rparr>),
    absorb (encUInt (word_of_int k)) [] d)"
proof -
  have "holds (encUInt (word_of_int k)) (d\<lparr>d_digestEnabled := False\<rparr>)"
    using assms(1) by (simp add: holds_def)
  from readUInt_absorb [OF this] show ?thesis
    using assms(2) by (simp add: readColumn_def d_withDigest_def sint_int_ok absorb_def)
qed

lemma unat_code: "c < 2 ^ 31 \<Longrightarrow> unat (of_nat c :: uint) = c"
  by (rule unat_count)

lemma deserializeToken_absorb:
  assumes "token_ok tok" and "holds (encToken tok) d"
  shows "deserializeToken (getName (tok_loc tok)) (getLineNumber (tok_loc tok)) d =
    Inr ((storedToken tok, getName (tok_loc tok), getLineNumber (tok_loc tok)),
      absorb (encToken tok) (hshToken tok) d)"
proof -
  let ?tt = "tok_type tok" and ?w = "of_nat (tt_code (tok_type tok)) :: uint"
  let ?col = "word_of_int (getStartCol (tok_loc tok)) :: uint"
  let ?str = "encString (tok_data tok)"
  let ?d1 = "absorb (encUInt ?w) (encUInt ?w) d"
  have code: "tt_code ?tt < 125" using assms(1) by (simp add: token_ok_def)
  then have tt: "TType (unat ?w) = ?tt" by (simp add: unat_code)
  have special: "?tt \<noteq> T_fileName" "?tt \<noteq> T_lineNumber" using code by auto
  have h: "holds (encUInt ?w) d"
    and h1: "holds ((if hasData ?tt then ?str else []) @ encUInt ?col) ?d1"
    using assms(2) unfolding encToken_def by (blast intro: holds_append holds_absorb)+
  have col: "int_ok (getStartCol (tok_loc tok))" "cstr (getName (tok_loc tok)) = getName (tok_loc tok)"
    using assms(1) by (auto simp: token_ok_def cstr_id)
  show ?thesis
  proof (cases "hasData ?tt")
    case True
    let ?d2 = "absorb ?str ?str ?d1"
    have "holds ?str ?d1" "holds (encUInt ?col) ?d2"
      using h1 True by (auto dest: holds_append holds_absorb)
    then show ?thesis
      using True tt h readUInt_absorb [OF h] readString_absorb [of "tok_data tok" ?d1] assms(1) col
        readColumn_absorb [of "getStartCol (tok_loc tok)" ?d2]
      by (simp add: deserializeToken_def token_ok_def name_ok_string_ok encToken_def hshToken_def
          storedToken_def storedText_def Let_def)
  next
    case False
    then have "holds (encUInt ?col) ?d1" using h1 by simp
    then show ?thesis
      using False tt special readUInt_absorb [OF h] readColumn_absorb [of "getStartCol (tok_loc tok)" ?d1]
        col
      by (simp add: deserializeToken_def encToken_def hshToken_def storedToken_def storedText_def
          Let_def)
  qed
qed

section \<open>Token lists\<close>

text \<open>The token loop of \<open>Generic::deserialize()\<close>: place tokens are not kept.\<close>

primrec readTokens :: "nat \<Rightarrow> string \<Rightarrow> int \<Rightarrow> ('o, token list) reads" where
  "readTokens 0 fn ln d = Inr ([], d)"
| "readTokens (Suc n) fn ln d =
     andThen (deserializeToken fn ln d) (\<lambda>((tok, fn', ln'), d1).
       andThen (readTokens n fn' ln' d1) (\<lambda>(toks, d2).
         Inr (if tok_type tok < T_fileName then tok # toks else toks, d2)))"

lemma deserializeToken_fileName:
  assumes "name_ok name" and "holds (encUInt 125 @ encString name) d"
  shows "deserializeToken fn ln d = Inr ((mkToken T_fileName [] None, name, ln),
    absorb (encUInt 125 @ encString name) (encUInt 125 @ encString name) d)"
proof -
  have h: "holds (encUInt 125) d" "holds (encString name) (absorb (encUInt 125) (encUInt 125) d)"
    using assms(2) by (blast intro: holds_append holds_absorb)+
  show ?thesis
    using readUInt_absorb [OF h(1)] readString_absorb [OF name_ok_string_ok [OF assms(1)] h(2)]
    by (simp add: deserializeToken_def hasData_def Let_def)
qed

lemma deserializeToken_lineNumber:
  assumes "int_ok k" and "holds (encUInt 126 @ encUInt (word_of_int k)) d"
  shows "deserializeToken fn ln d = Inr ((mkToken T_lineNumber [] None, fn, k),
    absorb (encUInt 126 @ encUInt (word_of_int k)) (encUInt 126 @ encUInt (word_of_int k)) d)"
proof -
  have h: "holds (encUInt 126) d" "holds (encUInt (word_of_int k)) (absorb (encUInt 126) (encUInt 126) d)"
    using assms(2) by (blast intro: holds_append holds_absorb)+
  show ?thesis
    using readUInt_absorb [OF h(1)] readUInt_absorb [OF h(2)] assms(1)
    by (simp add: deserializeToken_def hasData_def sint_int_ok Let_def)
qed

text \<open>The place tokens before a token bring the reader's file and line up to date.\<close>

lemma readTokens_place:
  assumes "token_ok tok" and "holds (encPlace fn ln tok) d" and "rln = ln \<or> ln = -1"
  shows "readTokens (fullCount fn ln tok + n) fn rln d =
    readTokens (Suc n) (getName (tok_loc tok)) (getLineNumber (tok_loc tok))
      (absorb (encPlace fn ln tok) (encPlace fn ln tok) d)"
proof -
  let ?name = "getName (tok_loc tok)" and ?line = "getLineNumber (tok_loc tok)"
  let ?bf = "encUInt 125 @ encString ?name" and ?bl = "encUInt 126 @ encUInt (word_of_int ?line)"
  have ok: "name_ok ?name" "int_ok ?line" "?line \<noteq> -1"
    using assms(1) by (auto simp: token_ok_def)
  have line: "readTokens (Suc m) f r u = readTokens m f ?line (absorb ?bl ?bl u)"
    if "holds ?bl u" for m f r u
    using deserializeToken_lineNumber [OF ok(2) that, of f r] by (simp add: andThen_def split: sum.split)
  have fname: "readTokens (Suc m) f r u = readTokens m ?name r (absorb ?bf ?bf u)"
    if "holds ?bf u" for m f r u
    using deserializeToken_fileName [OF ok(1) that, of f r] by (simp add: andThen_def split: sum.split)
  show ?thesis
  proof (cases "?name = fn")
    case True
    then show ?thesis
      using line [of d "Suc n" fn rln] assms(2,3) ok(3)
      by (cases "?line = ln") (auto simp: encPlace_def fullCount_def simp del: readTokens.simps)
  next
    case False
    then have h: "holds ?bf d" using assms(2) by (auto simp: encPlace_def intro: holds_append)
    have "holds ?bl (absorb ?bf ?bf d)" if "?line \<noteq> ln"
      using assms(2) False that holds_absorb [of ?bf ?bl d ?bf] by (simp add: encPlace_def)
    then show ?thesis
      using fname [OF h] line [of "absorb ?bf ?bf d" "Suc n" ?name rln] False assms(3) ok(3)
      by (cases "?line = ln") (auto simp: encPlace_def fullCount_def simp del: readTokens.simps)
  qed
qed

text \<open>The writing loop; it threads the current file and line and adds up the counts.\<close>

primrec writeTokens ::
  "token list \<Rightarrow> string \<Rightarrow> int \<Rightarrow> int \<Rightarrow> serializer \<Rightarrow> int \<times> string \<times> int \<times> serializer" where
  "writeTokens [] fn ln recount s = (recount, fn, ln, s)"
| "writeTokens (tok # toks) fn ln recount s =
     (case serializeFullToken fn ln tok s of (n, fn', ln', s1) \<Rightarrow>
        writeTokens toks fn' ln' (recount + n) s1)"

primrec encTokens :: "token list \<Rightarrow> string \<Rightarrow> int \<Rightarrow> byte list" where
  "encTokens [] fn ln = []"
| "encTokens (tok # toks) fn ln = encPlace fn ln tok @ encToken tok @
     encTokens toks (getName (tok_loc tok)) (getLineNumber (tok_loc tok))"

primrec hshTokens :: "token list \<Rightarrow> string \<Rightarrow> int \<Rightarrow> byte list" where
  "hshTokens [] fn ln = []"
| "hshTokens (tok # toks) fn ln = encPlace fn ln tok @ hshToken tok @
     hshTokens toks (getName (tok_loc tok)) (getLineNumber (tok_loc tok))"

primrec fullCounts :: "token list \<Rightarrow> string \<Rightarrow> int \<Rightarrow> nat" where
  "fullCounts [] fn ln = 0"
| "fullCounts (tok # toks) fn ln = fullCount fn ln tok +
     fullCounts toks (getName (tok_loc tok)) (getLineNumber (tok_loc tok))"

primrec lastPlace :: "token list \<Rightarrow> string \<times> int \<Rightarrow> string \<times> int" where
  "lastPlace [] p = p"
| "lastPlace (tok # toks) p = lastPlace toks (getName (tok_loc tok), getLineNumber (tok_loc tok))"

lemma writeTokens_emit:
  "writeTokens toks fn ln recount s =
     (recount + int (fullCounts toks fn ln), fst (lastPlace toks (fn, ln)), snd (lastPlace toks (fn, ln)),
      emit (encTokens toks fn ln) (hshTokens toks fn ln) s)"
  by (induction toks arbitrary: fn ln recount s) (simp_all add: serializeFullToken_emit)

lemma readTokens_one:
  assumes "token_ok tok" and "holds (encPlace fn ln tok @ encToken tok) d" and "rln = ln \<or> ln = -1"
  shows "readTokens (fullCount fn ln tok + n) fn rln d =
    andThen (readTokens n (getName (tok_loc tok)) (getLineNumber (tok_loc tok))
        (absorb (encPlace fn ln tok @ encToken tok) (encPlace fn ln tok @ hshToken tok) d))
      (\<lambda>(toks, d'). Inr (storedToken tok # toks, d'))"
proof -
  have h: "holds (encPlace fn ln tok) d"
      "holds (encToken tok) (absorb (encPlace fn ln tok) (encPlace fn ln tok) d)"
    using assms(2) by (blast intro: holds_append holds_absorb)+
  have "tok_type tok < T_fileName"
    using assms(1) by (simp add: token_ok_def less_ttype_def)
  then show ?thesis
    using readTokens_place [OF assms(1) h(1) assms(3)] deserializeToken_absorb [OF assms(1) h(2)]
    by (simp add: storedToken_def)
qed

lemma readTokens_absorb:
  "list_all token_ok toks \<Longrightarrow> holds (encTokens toks fn ln) d \<Longrightarrow> rln = ln \<or> ln = -1 \<Longrightarrow>
   readTokens (fullCounts toks fn ln) fn rln d =
     Inr (map storedToken toks, absorb (encTokens toks fn ln) (hshTokens toks fn ln) d)"
proof (induction toks arbitrary: fn ln rln d)
  case (Cons tok toks)
  let ?name = "getName (tok_loc tok)" and ?line = "getLineNumber (tok_loc tok)"
  let ?d = "absorb (encPlace fn ln tok @ encToken tok) (encPlace fn ln tok @ hshToken tok) d"
  have h: "holds ((encPlace fn ln tok @ encToken tok) @ encTokens toks ?name ?line) d"
    using Cons.prems(2) by simp
  then have "readTokens (fullCounts toks ?name ?line) ?name ?line ?d =
      Inr (map storedToken toks, absorb (encTokens toks ?name ?line) (hshTokens toks ?name ?line) ?d)"
    using Cons.prems(1) holds_absorb [OF h] by (intro Cons.IH) auto
  with Cons.prems readTokens_one [OF _ holds_append [OF h], where n = "fullCounts toks ?name ?line"]
  show ?case by simp
qed simp

section \<open>Generics\<close>

text \<open>
  The stored part of a generic: parameter names, the tokens of its body, and the compile-time
  imports, which are objects given by their addresses.
\<close>

record generic =
  parms :: "string list"
  body :: "token list"
  compileNSImports :: "nat list"

text \<open>The first loop over the body counts the tokens, place tokens included.\<close>

definition countToken :: "token \<Rightarrow> string \<times> int \<times> int \<Rightarrow> string \<times> int \<times> int" where
  "countToken tok = (\<lambda>(fn, ln, num).
     let loc = tok_loc tok;
         (fn', num1) = (if getName loc \<noteq> fn then (getName loc, num + 1) else (fn, num));
         (ln', num2) = (if getLineNumber loc \<noteq> ln then (getLineNumber loc, num1 + 1) else (ln, num1))
     in (fn', ln', num2))"

definition numTokens :: "token list \<Rightarrow> int" where
  "numTokens toks = snd (snd (fold countToken toks ([], -1, int (length toks))))"

text \<open>\<open>Inl\<close> is the failed check on the counts. \<open>content\<close> is the imports' state.\<close>

definition serializeGeneric :: "(nat \<Rightarrow> import) \<Rightarrow> generic \<Rightarrow> serializer \<Rightarrow> derror + serializer" where
  "serializeGeneric content g s =
     (let s1 = writeUInt (of_nat (length (compileNSImports g))) s;
          s2 = fold (writeWith serializeImport content) (compileNSImports g) s1;
          s3 = writeUInt (of_nat (length (parms g))) s2;
          s4 = fold writeString (parms g) s3;
          s5 = writeUInt (word_of_int (numTokens (body g))) s4;
          (recount, _, _, s6) = writeTokens (body g) [] (-1) 0 s5
      in if recount = numTokens (body g) then Inr (writeUInt 0 s6)
         else Inl (CheckFailed ''Token count mismatch''))"

text \<open>
  \<open>lineNum\<close> is not initialised: \<open>junk\<close> is what it holds. The object map of the reader holds
  imports; the third component of the result is their contents.
\<close>

definition deserializeGeneric :: "int \<Rightarrow> (import, string list \<times> token list \<times> import list) reads" where
  "deserializeGeneric junk d =
     andThen (readUInt d) (\<lambda>(impCount, d1).
     andThen (readObjects deserializeImport (nat (sint impCount)) d1) (\<lambda>(imps, d2).
     andThen (readUInt d2) (\<lambda>(parmCount, d3).
     andThen (readN readString (nat (sint parmCount)) d3) (\<lambda>(ps, d4).
     andThen (readUInt d4) (\<lambda>(tokCount, d5).
     andThen (readTokens (nat (sint tokCount)) [] junk d5) (\<lambda>(toks, d6).
     andThen (readString d6) (\<lambda>(_, d7).
       Inr ((ps, toks, imps), d7))))))))"

text \<open>\<open>replay()\<close> puts the body back from the last token to the first.\<close>

definition replay :: "generic \<Rightarrow> toker \<Rightarrow> toker" where
  "replay g t = fold putBack (rev (body g)) t"

lemma fold_countToken:
  "fold countToken toks (fn, ln, num) =
     (fst (lastPlace toks (fn, ln)), snd (lastPlace toks (fn, ln)),
      num + int (fullCounts toks fn ln) - int (length toks))"
proof (induction toks arbitrary: fn ln num)
  case (Cons tok toks)
  have "countToken tok (fn, ln, num) = (getName (tok_loc tok), getLineNumber (tok_loc tok),
      num + int (fullCount fn ln tok) - 1)"
    by (auto simp: countToken_def fullCount_def Let_def)
  with Cons show ?case by simp
qed simp

lemma numTokens_count: "numTokens toks = int (fullCounts toks [] (-1))"
  by (simp add: numTokens_def fold_countToken)

text \<open>
  The two ways \<open>serialize()\<close> counts the tokens it writes, before writing and while
  writing, always agree, so its check never fails.
\<close>

theorem serializeGeneric_check: "\<exists>s'. serializeGeneric content g s = Inr s'"
  by (simp add: serializeGeneric_def writeTokens_emit numTokens_count Let_def)

definition generic_ok :: "(nat \<Rightarrow> import) \<Rightarrow> generic \<Rightarrow> bool" where
  "generic_ok content g \<longleftrightarrow> length (compileNSImports g) < 2 ^ 30 \<and>
     list_all (\<lambda>p. import_ok (content p)) (compileNSImports g) \<and>
     length (parms g) < 2 ^ 31 \<and> list_all name_ok (parms g) \<and>
     numTokens (body g) < 2 ^ 31 \<and> list_all token_ok (body g)"

lemma imports_roundtrip:
  assumes "list_all (\<lambda>p. import_ok (content p)) ps" and "lastId s + length ps \<le> 2 ^ 30"
  obtains bs hs where "fold (writeWith serializeImport content) ps s =
      emit bs hs (fold (\<lambda>p s. snd (registerObject p s)) ps s)"
    and "\<And>d. idsAgree content s d \<Longrightarrow> holds bs d \<Longrightarrow>
      \<exists>d'. readObjects deserializeImport (length ps) d = Inr (map content ps, d') \<and> consumed bs hs d d'"
  using importo.objects_roundtrip [OF assms] by blast

lemma dst_new [simp]: "dst newSerializer = []"
  by (simp add: newSerializer_def)

lemma dst_register: "dst (fold (\<lambda>p s. snd (registerObject p s)) ps u) = dst u"
  by (induction ps arbitrary: u) (simp_all add: registerObject_def split: option.split)

text \<open>The three counts a generic is written with, and what is written after its imports.\<close>

definition importCount :: "generic \<Rightarrow> uint" where
  "importCount g = of_nat (length (compileNSImports g))"

definition parmCount :: "generic \<Rightarrow> uint" where
  "parmCount g = of_nat (length (parms g))"

definition tokenCount :: "generic \<Rightarrow> uint" where
  "tokenCount g = word_of_int (numTokens (body g))"

definition encRest :: "generic \<Rightarrow> byte list" where
  "encRest g = encUInt (parmCount g) @ concat (map encString (parms g)) @ encUInt (tokenCount g) @
     encTokens (body g) [] (-1) @ encString []"

lemma generic_counts:
  assumes "generic_ok content g"
  shows "nat (sint (importCount g)) = length (compileNSImports g)" "nat (sint (parmCount g)) = length (parms g)"
    "nat (sint (tokenCount g)) = fullCounts (body g) [] (-1)"
  using assms [unfolded generic_ok_def]
  by (simp_all add: importCount_def parmCount_def tokenCount_def sint_of_nat32 numTokens_count sint_int_ok int_ok_def)

lemma generic_image:
  assumes "generic_ok content g" and "serializeGeneric content g newSerializer = Inr s"
  obtains bs hs where "dst s = encUInt (importCount g) @ bs @ encRest g"
    and "\<And>d. holds bs d \<Longrightarrow> \<exists>d'. readObjects deserializeImport (length (compileNSImports g)) d =
      Inr (map content (compileNSImports g), d') \<and> consumed bs hs d d'"
proof -
  let ?s1 = "emit (encUInt (importCount g)) (encUInt (importCount g)) newSerializer"
  from assms(1) have "list_all (\<lambda>p. import_ok (content p)) (compileNSImports g)"
    "lastId ?s1 + length (compileNSImports g) \<le> 2 ^ 30" by (simp_all add: generic_ok_def newSerializer_def)
  then obtain bs hs where
    imps: "fold (writeWith serializeImport content) (compileNSImports g) ?s1 =
        emit bs hs (fold (\<lambda>p s. snd (registerObject p s)) (compileNSImports g) ?s1)"
      "\<And>d. idsAgree content ?s1 d \<Longrightarrow> holds bs d \<Longrightarrow>
        \<exists>d'. readObjects deserializeImport (length (compileNSImports g)) d =
          Inr (map content (compileNSImports g), d') \<and> consumed bs hs d d'"
    by (rule imports_roundtrip) (rule that)
  have out: "dst s = encUInt (importCount g) @ bs @ encRest g"
    using assms(2)
    by (auto simp: serializeGeneric_def writeTokens_emit numTokens_count Let_def imps(1) encRest_def
        stringc.wrAll_emit dst_register importCount_def [symmetric] parmCount_def [symmetric] tokenCount_def
        encUInt_0_string simp del: writeString_emit)
  have "idsAgree content ?s1 d" for d by (simp add: idsAgree_def newSerializer_def)
  from that [OF out imps(2) [OF this]] show ?thesis .
qed

lemma deserializeGeneric_rest:
  fixes d :: "import deserializer"
  assumes "generic_ok content g" and "readUInt d = Inr (importCount g, d1)"
    and "readObjects deserializeImport (length (compileNSImports g)) d1 = Inr (imps, d2)" and "holds (encRest g) d2"
  shows "\<exists>hs. deserializeGeneric junk d = Inr ((parms g, map storedToken (body g), imps), absorb (encRest g) hs d2)"
proof -
  let ?n2 = "encUInt (parmCount g)" let ?n3 = "encUInt (tokenCount g)"
  let ?ps = "concat (map encString (parms g))" and ?ts = "encTokens (body g) [] (-1)"
  let ?d3 = "absorb ?n2 ?n2 d2" let ?d4 = "absorb ?ps ?ps ?d3" let ?d5 = "absorb ?n3 ?n3 ?d4"
  let ?d6 = "absorb ?ts (hshTokens (body g) [] (-1)) ?d5"
  note h2 = assms(4) [unfolded encRest_def]
  have h3: "holds ?n2 d2" "holds (?ps @ ?n3 @ ?ts @ encString []) ?d3"
    using h2 by (blast intro: holds_append holds_absorb)+
  have h4: "holds ?ps ?d3" "holds (?n3 @ ?ts @ encString []) ?d4"
    using h3(2) by (blast intro: holds_append holds_absorb)+
  have h5: "holds ?n3 ?d4" "holds (?ts @ encString []) ?d5"
    using h4(2) by (blast intro: holds_append holds_absorb)+
  have h6: "holds ?ts ?d5" "holds (encString []) ?d6"
    using h5(2) by (blast intro: holds_append holds_absorb)+
  have names: "list_all string_ok (parms g)" and toks: "list_all token_ok (body g)"
    using assms(1) by (auto simp: generic_ok_def list_all_iff name_ok_string_ok)
  have "deserializeGeneric junk d =
      Inr ((parms g, map storedToken (body g), imps), absorb (encString []) (encString []) ?d6)"
    using assms(2,3) readUInt_absorb [OF h3(1)]
      stringc.readN_absorb [OF names h4(1)] readUInt_absorb [OF h5(1)]
      readTokens_absorb [OF toks h6(1), of junk] readString_absorb [OF _ h6(2)]
    by (simp add: deserializeGeneric_def generic_counts [OF assms(1)] string_ok_def del: absorb_absorb)
  then show ?thesis by (auto simp: encRest_def)
qed


text \<open>A sample to evaluate the theorems on: one import used twice, one parameter, a body.\<close>

definition sampleImport :: import where
  "sampleImport = \<lparr>moduleName = [''crack'', ''io''],
     syms = [\<lparr>local = ''out'', source = ''cout''\<rparr>, \<lparr>local = ''err'', source = ''err''\<rparr>]\<rparr>"

definition sampleAt :: "int \<Rightarrow> int \<Rightarrow> location" where
  "sampleAt line col = Some \<lparr>loc_name = ''f.crk'', loc_lineNumber = line, loc_startCol = col,
     loc_endCol = col + 1\<rparr>"

definition sampleGeneric :: generic where
  "sampleGeneric = \<lparr>parms = [''T''],
     body = [mkToken T_ident ''a'' (sampleAt 3 1), mkToken T_plus ''+'' (sampleAt 3 3),
             mkToken T_integer ''1'' (sampleAt 4 1)],
     compileNSImports = [7, 7]\<rparr>"

lemma sampleGeneric_ok: "generic_ok (\<lambda>_. sampleImport) sampleGeneric"
  by (simp add: generic_ok_def sampleGeneric_def sampleImport_def import_ok_def importedDef_ok_def
      name_ok_def token_ok_def int_ok_def sampleAt_def getName_def getLineNumber_def getStartCol_def
      numTokens_def countToken_def Let_def)


section \<open>The digest\<close>

text \<open>Tokens that differ only in where on the line they are.\<close>

definition sameButColumn :: "token \<Rightarrow> token \<Rightarrow> bool" where
  "sameButColumn a b \<longleftrightarrow> tok_type a = tok_type b \<and> tok_data a = tok_data b \<and>
     getName (tok_loc a) = getName (tok_loc b) \<and> getLineNumber (tok_loc a) = getLineNumber (tok_loc b)"

lemma hshTokens_column:
  "list_all2 sameButColumn xs ys \<Longrightarrow>
   hshTokens xs fn ln = hshTokens ys fn ln \<and> fullCounts xs fn ln = fullCounts ys fn ln"
  by (induction xs ys arbitrary: fn ln rule: list_all2_induct)
     (simp_all add: sameButColumn_def encPlace_def hshToken_def fullCount_def)

text \<open>
  The digest of a generic's meta-data does not depend on the columns of its tokens, as
  the code intends: reformatting a line leaves the digest of the module as it was.
\<close>

theorem digest_ignores_columns:
  assumes "list_all2 sameButColumn (body g) toks"
    and "serializeGeneric content g s = Inr s1"
    and "serializeGeneric content (g\<lparr>body := toks\<rparr>) s = Inr s2"
  shows "s_hash s1 = s_hash s2"
proof -
  have "hshTokens (body g) [] (-1) = hshTokens toks [] (-1)"
    "fullCounts (body g) [] (-1) = fullCounts toks [] (-1)"
    using hshTokens_column [OF assms(1)] by auto
  with assms(2,3) show ?thesis
    by (auto simp: serializeGeneric_def writeTokens_emit numTokens_count Let_def)
qed

definition movedBody :: "token list" where
  "movedBody = [mkToken T_ident ''a'' (sampleAt 3 5), mkToken T_plus ''+'' (sampleAt 3 9),
     mkToken T_integer ''1'' (sampleAt 4 2)]"

definition digestOn :: serializer where
  "digestOn = newSerializer\<lparr>s_digestEnabled := True\<rparr>"

lemma digest_ignores_columns_witness:
  "\<exists>s1 s2. serializeGeneric (\<lambda>_. sampleImport) sampleGeneric digestOn = Inr s1 \<and>
     serializeGeneric (\<lambda>_. sampleImport) (sampleGeneric\<lparr>body := movedBody\<rparr>) digestOn = Inr s2 \<and>
     s_hash s1 = s_hash s2"
proof -
  have moved: "list_all2 sameButColumn (body sampleGeneric) movedBody"
    by (simp add: sampleGeneric_def movedBody_def sameButColumn_def sampleAt_def getName_def
        getLineNumber_def)
  obtain s1 s2 where "serializeGeneric (\<lambda>_. sampleImport) sampleGeneric digestOn = Inr s1"
    "serializeGeneric (\<lambda>_. sampleImport) (sampleGeneric\<lparr>body := movedBody\<rparr>) digestOn = Inr s2"
    using serializeGeneric_check by blast
  with digest_ignores_columns [OF moved this] show ?thesis by blast
qed

section \<open>Replay\<close>

text \<open>
  Replaying a generic into a tokenizer makes the following calls of \<open>getToken()\<close> return
  its body in order, after which the tokenizer goes on where it was.
\<close>

theorem replay_tokens:
  assumes "tk_state t = st_none" and "list_all (\<lambda>tok. \<not> isIstrBegin tok) (body g)"
  shows "takeTokens junk (length (body g)) (replay g t) = Inr (body g, t)"
  using takeTokens_putBack [OF assms] by (simp add: replay_def foldr_conv_fold)

lemma replay_tokens_witness:
  "takeTokens (\<lambda>_. blankLocals) 3 (replay sampleGeneric (sampleToker ''x'')) =
     Inr (body sampleGeneric, sampleToker ''x'')"
  using replay_tokens [of "sampleToker ''x''" sampleGeneric "\<lambda>_. blankLocals"]
  by (simp add: sampleGeneric_def sampleToker_def newToker_def blankToker_def tok_is_def
      numeral_3_eq_3 del: takeTokens.simps)

end
