(* ===== verification/Tok_Serializer.thy ===== *)
theory Tok_Serializer
  imports Generic_Serial
begin

text \<open>
  \<open>compiler::TokSerializer\<close> (compiler/TokSerializer.cc): a queue of tokens that annotations
  turn into a string constant of the program and back.
\<close>

section \<open>State and operations\<close>

text \<open>\<open>ts_loc\<close> is the pointer to a location, null at first.\<close>

record tokSerializer =
  ts_tokens :: "token list"
  ts_loc :: "location option"

definition ts_create :: tokSerializer where
  "ts_create = \<lparr>ts_tokens = [], ts_loc = None\<rparr>"

definition ts_insert :: "token \<Rightarrow> tokSerializer \<Rightarrow> tokSerializer" where
  "ts_insert tok ts = ts\<lparr>ts_tokens := tok # ts_tokens ts\<rparr>"

text \<open>An end token is not taken off the queue.\<close>

definition ts_getToken :: "tokSerializer \<Rightarrow> token option \<times> tokSerializer" where
  "ts_getToken ts =
     (case ts_tokens ts of
        [] \<Rightarrow> (None, ts)
      | tok # rest \<Rightarrow> if isEnd tok then (None, ts) else (Some tok, ts\<lparr>ts_tokens := rest\<rparr>))"

definition ts_setLocation :: "location option \<Rightarrow> tokSerializer \<Rightarrow> tokSerializer" where
  "ts_setLocation loc ts = ts\<lparr>ts_loc := loc\<rparr>"

text \<open>
  The loop of \<open>serialize()\<close> also takes the location of the first token when there is none.
  The result is the size, which the code stores in four bytes of the platform's order, and
  the data.
\<close>

definition ts_endToken :: "location option \<Rightarrow> token" where
  "ts_endToken loc = mkToken T_end [] (case loc of Some l \<Rightarrow> l | None \<Rightarrow> None)"

definition ts_serialize :: "tokSerializer \<Rightarrow> (uint \<times> byte list) \<times> tokSerializer" where
  "ts_serialize ts =
     (case fold (\<lambda>tok (fn, ln, ser, loc).
          case serializeFullToken fn ln tok ser of (_, fn', ln', ser') \<Rightarrow>
            (fn', ln', ser', case loc of None \<Rightarrow> Some (tok_loc tok) | Some l \<Rightarrow> Some l))
        (ts_tokens ts) ([], -1, newSerializer, ts_loc ts) of (fn, ln, ser, loc) \<Rightarrow>
      case serializeFullToken fn ln (ts_endToken loc) ser of (_, _, _, ser') \<Rightarrow>
        ((of_nat (length (dst ser')), dst ser'), ts\<lparr>ts_loc := loc\<rparr>))"

text \<open>Every token read costs input, so the loop of \<open>create()\<close> ends.\<close>

lemma readLoopUInt_tell: "readLoopUInt tell val k d = Inr (r, d') \<Longrightarrow> \<not> tell \<Longrightarrow> r \<noteq> None"
proof (induction tell val k d rule: readLoopUInt.induct)
  case (1 tell val k d)
  obtain b d1 where g: "streamGet d = (b, d1)" by (cases "streamGet d")
  show ?case
    using 1(1) [OF _ g [symmetric] refl refl _ refl] 1(2,3) g
    by (auto simp: readLoopUInt.simps [of False val k d] Let_def split: if_splits)
qed

lemma readUInt_input_less: "readUInt d = Inr (v, d') \<Longrightarrow> length (input d') < length (input d)"
proof -
  assume "readUInt d = Inr (v, d')"
  then obtain r where r: "readLoopUInt False 0 0 d = Inr (r, d')"
    by (auto simp: readUInt_def andThen_eq_Inr)
  have "r \<noteq> None" using readLoopUInt_tell [OF r] by simp
  with readLoopUInt_input [OF r] show ?thesis by simp
qed

lemma readColumn_input:
  "readColumn tt txt fn ln d = Inr (tok, d') \<Longrightarrow> length (input d') \<le> length (input d)"
  using readUInt_input
  by (fastforce simp: readColumn_def d_withDigest_def andThen_eq_Inr)

lemma deserializeToken_input:
  assumes "deserializeToken fn ln d = Inr (r, d')"
  shows "length (input d') < length (input d)"
proof -
  from assms obtain w d1 where w: "readUInt d = Inr (w, d1)"
    by (auto simp: deserializeToken_def andThen_eq_Inr)
  with assms have "length (input d') \<le> length (input d1)"
    by (auto simp: deserializeToken_def andThen_eq_Inr Let_def split: if_splits
        dest!: readString_input readUInt_input readColumn_input)
  with readUInt_input_less [OF w] show ?thesis by simp
qed

function createLoop :: "string \<Rightarrow> int \<Rightarrow> tokSerializer \<Rightarrow> (unit, tokSerializer) reads" where
  "createLoop fn ln ts d =
     (case deserializeToken fn ln d of
        Inl e \<Rightarrow> Inl e
      | Inr ((tok, fn', ln'), d1) \<Rightarrow>
          if isEnd tok then Inr (ts\<lparr>ts_loc := Some (tok_loc tok)\<rparr>, d1)
          else createLoop fn' ln'
            (if tok_type tok \<noteq> T_fileName \<and> tok_type tok \<noteq> T_lineNumber
             then ts\<lparr>ts_tokens := ts_tokens ts @ [tok]\<rparr> else ts) d1)"
  by pat_completeness auto
termination
  by (relation "measure (\<lambda>(fn, ln, ts, d). length (input d))") (auto dest: deserializeToken_input)

declare createLoop.simps [simp del]

definition ts_createFrom :: "byte list \<Rightarrow> derror + tokSerializer" where
  "ts_createFrom bs =
     andThen (createLoop [] 0 ts_create (newDeserializer bs)) (\<lambda>(ts, _).
       Inr (if ts_loc ts = None \<and> ts_tokens ts \<noteq> []
            then ts\<lparr>ts_loc := Some (tok_loc (hd (ts_tokens ts)))\<rparr> else ts))"

section \<open>Round trip\<close>

lemma createLoop_place:
  assumes "token_ok tok" and "holds (encPlace fn ln tok) d" and "rln = ln \<or> ln = -1"
  shows "createLoop fn rln ts d = createLoop (getName (tok_loc tok)) (getLineNumber (tok_loc tok)) ts
    (absorb (encPlace fn ln tok) (encPlace fn ln tok) d)"
proof -
  let ?name = "getName (tok_loc tok)" and ?line = "getLineNumber (tok_loc tok)"
  let ?bf = "encUInt 125 @ encString ?name" and ?bl = "encUInt 126 @ encUInt (word_of_int ?line)"
  have ok: "name_ok ?name" "int_ok ?line" "?line \<noteq> -1"
    using assms(1) by (auto simp: token_ok_def)
  have line: "createLoop f r ts u = createLoop f ?line ts (absorb ?bl ?bl u)"
    if "holds ?bl u" for f r u
    using deserializeToken_lineNumber [OF ok(2) that, of f r]
    by (simp add: createLoop.simps [of f r] tok_is_def)
  have fname: "createLoop f r ts u = createLoop ?name r ts (absorb ?bf ?bf u)"
    if "holds ?bf u" for f r u
    using deserializeToken_fileName [OF ok(1) that, of f r]
    by (simp add: createLoop.simps [of f r] tok_is_def)
  show ?thesis
  proof (cases "?name = fn")
    case True
    then show ?thesis
      using line [of d fn rln] assms(2,3) ok(3) by (cases "?line = ln") (auto simp: encPlace_def)
  next
    case False
    then have h: "holds ?bf d" using assms(2) by (auto simp: encPlace_def intro: holds_append)
    have "holds ?bl (absorb ?bf ?bf d)" if "?line \<noteq> ln"
      using assms(2) False that holds_absorb [of ?bf ?bl d ?bf] by (simp add: encPlace_def)
    then show ?thesis
      using fname [OF h] line [of "absorb ?bf ?bf d" ?name rln] False assms(3) ok(3)
      by (cases "?line = ln") (auto simp: encPlace_def)
  qed
qed

lemma createLoop_token:
  assumes "token_ok tok" and "holds (encPlace fn ln tok @ encToken tok) d" and "rln = ln \<or> ln = -1"
  shows "createLoop fn rln ts d =
    (if isEnd tok then Inr (ts\<lparr>ts_loc := Some (tok_loc (storedToken tok))\<rparr>,
        absorb (encPlace fn ln tok @ encToken tok) (encPlace fn ln tok @ hshToken tok) d)
     else createLoop (getName (tok_loc tok)) (getLineNumber (tok_loc tok))
       (ts\<lparr>ts_tokens := ts_tokens ts @ [storedToken tok]\<rparr>)
       (absorb (encPlace fn ln tok @ encToken tok) (encPlace fn ln tok @ hshToken tok) d))"
proof -
  let ?name = "getName (tok_loc tok)" and ?line = "getLineNumber (tok_loc tok)"
  have h: "holds (encPlace fn ln tok) d"
      "holds (encToken tok) (absorb (encPlace fn ln tok) (encPlace fn ln tok) d)"
    using assms(2) by (blast intro: holds_append holds_absorb)+
  have "tok_type tok \<noteq> T_fileName" "tok_type tok \<noteq> T_lineNumber"
    using assms(1) by (auto simp: token_ok_def)
  then show ?thesis
    using createLoop_place [OF assms(1) h(1) assms(3)] deserializeToken_absorb [OF assms(1) h(2)]
    by (simp add: createLoop.simps [of ?name ?line] storedToken_def tok_is_def)
qed

lemma createLoop_tokens:
  "list_all (\<lambda>tok. token_ok tok \<and> \<not> isEnd tok) toks \<Longrightarrow> token_ok e \<Longrightarrow> isEnd e \<Longrightarrow>
   holds (encTokens (toks @ [e]) fn ln) d \<Longrightarrow> rln = ln \<or> ln = -1 \<Longrightarrow>
   \<exists>d'. createLoop fn rln ts d =
     Inr (ts\<lparr>ts_tokens := ts_tokens ts @ map storedToken toks, ts_loc := Some (tok_loc (storedToken e))\<rparr>, d')"
proof (induction toks arbitrary: fn ln rln ts d)
  case Nil
  then show ?case using createLoop_token [of e fn ln d rln ts] by simp
next
  case (Cons tok toks)
  let ?d = "absorb (encPlace fn ln tok @ encToken tok) (encPlace fn ln tok @ hshToken tok) d"
  have h: "holds ((encPlace fn ln tok @ encToken tok) @
      encTokens (toks @ [e]) (getName (tok_loc tok)) (getLineNumber (tok_loc tok))) d"
    using Cons.prems(4) by simp
  from Cons.prems createLoop_token [OF _ holds_append [OF h], of rln ts]
  have "createLoop fn rln ts d = createLoop (getName (tok_loc tok)) (getLineNumber (tok_loc tok))
      (ts\<lparr>ts_tokens := ts_tokens ts @ [storedToken tok]\<rparr>) ?d" by simp
  moreover obtain d' where "createLoop (getName (tok_loc tok)) (getLineNumber (tok_loc tok))
      (ts\<lparr>ts_tokens := ts_tokens ts @ [storedToken tok]\<rparr>) ?d =
      Inr (ts\<lparr>ts_tokens := (ts_tokens ts @ [storedToken tok]) @ map storedToken toks,
             ts_loc := Some (tok_loc (storedToken e))\<rparr>, d')"
    using Cons.IH [OF _ Cons.prems(2,3) holds_absorb [OF h], of _ "ts\<lparr>ts_tokens := ts_tokens ts @ [storedToken tok]\<rparr>"] Cons.prems(1)
    by auto
  ultimately show ?case by simp
qed

text \<open>The location the serializer ends with.\<close>

definition ts_finalLoc :: "tokSerializer \<Rightarrow> location option" where
  "ts_finalLoc ts = (case ts_loc ts of Some l \<Rightarrow> Some l
     | None \<Rightarrow> (case ts_tokens ts of [] \<Rightarrow> None | tok # _ \<Rightarrow> Some (tok_loc tok)))"

lemma ts_serialize_loop:
  "fold (\<lambda>tok (fn, ln, ser, loc).
      case serializeFullToken fn ln tok ser of (_, fn', ln', ser') \<Rightarrow>
        (fn', ln', ser', case loc of None \<Rightarrow> Some (tok_loc tok) | Some l \<Rightarrow> Some l))
    toks (fn, ln, ser, loc) =
   (fst (lastPlace toks (fn, ln)), snd (lastPlace toks (fn, ln)),
    emit (encTokens toks fn ln) (hshTokens toks fn ln) ser,
    case loc of Some l \<Rightarrow> Some l | None \<Rightarrow> (case toks of [] \<Rightarrow> None | tok # _ \<Rightarrow> Some (tok_loc tok)))"
  by (induction toks arbitrary: fn ln ser loc)
     (simp_all add: serializeFullToken_emit split: option.split)

lemma encTokens_snoc:
  "encTokens (toks @ [e]) fn ln = encTokens toks fn ln @
     encPlace (fst (lastPlace toks (fn, ln))) (snd (lastPlace toks (fn, ln))) e @ encToken e"
  by (induction toks arbitrary: fn ln) simp_all

lemma ts_serialize_eq:
  "ts_serialize ts =
     ((of_nat (length (encTokens (ts_tokens ts @ [ts_endToken (ts_finalLoc ts)]) [] (-1))),
       encTokens (ts_tokens ts @ [ts_endToken (ts_finalLoc ts)]) [] (-1)),
      ts\<lparr>ts_loc := ts_finalLoc ts\<rparr>)"
  unfolding ts_serialize_def ts_serialize_loop
  by (simp add: serializeFullToken_emit encTokens_snoc ts_finalLoc_def split: option.split)

text \<open>
  C11. Tokens serialized by an annotation are recovered from the string, in order, in their stored form
  (\<open>storedToken\<close>: types, places and the texts of identifiers and constants; other texts are those of the
  types, end columns are computed), with the serializer's location.
\<close>

theorem tokSerializer_roundtrip:
  assumes "list_all (\<lambda>tok. token_ok tok \<and> \<not> isEnd tok) (ts_tokens ts)"
    and "token_ok (ts_endToken (ts_finalLoc ts))"
  shows "ts_createFrom (snd (fst (ts_serialize ts))) =
    Inr \<lparr>ts_tokens = map storedToken (ts_tokens ts),
         ts_loc = Some (tok_loc (storedToken (ts_endToken (ts_finalLoc ts))))\<rparr>"
proof -
  let ?e = "ts_endToken (ts_finalLoc ts)"
  have "isEnd ?e" by (simp add: ts_endToken_def tok_is_def)
  moreover have "holds (encTokens (ts_tokens ts @ [?e]) [] (-1))
      (newDeserializer (encTokens (ts_tokens ts @ [?e]) [] (-1)))"
    by (simp add: holds_def newDeserializer_def)
  ultimately obtain d' where "createLoop [] 0 ts_create
      (newDeserializer (encTokens (ts_tokens ts @ [?e]) [] (-1))) =
      Inr (ts_create\<lparr>ts_tokens := ts_tokens ts_create @ map storedToken (ts_tokens ts),
             ts_loc := Some (tok_loc (storedToken ?e))\<rparr>, d')"
    using createLoop_tokens [OF assms, of "[]" "-1" _ 0 ts_create] by blast
  then show ?thesis by (simp add: ts_createFrom_def ts_serialize_eq ts_create_def)
qed

lemma tokSerializer_roundtrip_witness:
  "ts_createFrom (snd (fst (ts_serialize (ts_insert (mkToken T_ident ''a'' (sampleAt 3 1)) ts_create)))) =
     Inr \<lparr>ts_tokens = [mkToken T_ident ''a'' (sampleAt 3 1)],
       ts_loc = Some (Some \<lparr>loc_name = ''f.crk'', loc_lineNumber = 3, loc_startCol = 1, loc_endCol = 1\<rparr>)\<rparr>"
  using tokSerializer_roundtrip [of "ts_insert (mkToken T_ident ''a'' (sampleAt 3 1)) ts_create"]
  by (simp add: ts_insert_def ts_create_def ts_finalLoc_def ts_endToken_def token_ok_def int_ok_def
      name_ok_def tok_is_def sampleAt_def getName_def getLineNumber_def getStartCol_def storedToken_def
      storedText_def hasData_def tokText_def tokTextTable_def)

end
