(* ===== verification/Int_Const.thy ===== *)
theory Int_Const
  imports Prelude "HOL-Library.Signed_Division"
begin

text \<open>
  Integer constants of the compiler (model/IntConst.cc): a 64 bit value that may be read as
  signed or unsigned, its conversion to the integer types, and constant folding. Types are
  compared by identity, so they are numbers here.
\<close>

section \<open>Constants\<close>

text \<open>
  \<open>ic_val\<close> is the union of \<open>sval\<close> and \<open>uval\<close>. \<open>uneg\<close> marks a negative value that stands
  for an unsigned one (as in \<open>~0\<close>).
\<close>

record intConst =
  ic_type :: nat
  ic_val :: "64 word"
  reqUnsigned :: bool
  uneg :: bool

abbreviation sval :: "intConst \<Rightarrow> int" where "sval c \<equiv> sint (ic_val c)"
abbreviation uval :: "intConst \<Rightarrow> int" where "uval c \<equiv> uint (ic_val c)"

text \<open>The constructors from \<open>int64_t\<close> and \<open>uint64_t\<close>.\<close>

definition newIntConst :: "nat \<Rightarrow> 64 word \<Rightarrow> intConst" where
  "newIntConst ty v = \<lparr>ic_type = ty, ic_val = v, reqUnsigned = False, uneg = False\<rparr>"

definition newUIntConst :: "nat \<Rightarrow> 64 word \<Rightarrow> intConst" where
  "newUIntConst ty v =
     \<lparr>ic_type = ty, ic_val = v, reqUnsigned = (uint v > 2 ^ 63 - 1), uneg = False\<rparr>"

text \<open>The fields of \<open>Construct\<close> the conversion looks at.\<close>

record numTypes =
  byteType :: nat
  int16Type :: nat
  int32Type :: nat
  int64Type :: nat
  uint16Type :: nat
  uint32Type :: nat
  uint64Type :: nat
  intType :: nat
  uintType :: nat
  intzType :: nat
  uintzType :: nat
  float32Type :: nat
  float64Type :: nat
  floatType :: nat
  intSize :: int
  intzSize :: int

section \<open>Conversion\<close>

text \<open>
  What \<open>convert()\<close> does: nothing, refuse (a null pointer), a new integer constant, a float
  constant of a signed value (\<open>createFloatConst\<close>, a parameter of the compiler's back end),
  or the general conversion \<open>Expr::convert\<close>.
\<close>

datatype conversion =
    Unchanged
  | Refused
  | IntResult intConst
  | FloatResult int nat
  | Delegated

text \<open>
  The two unsigned comparisons with a negated bound are made in 64 bits;
  \<open>UINT32_MAX + 1\<close> wraps to zero in 32 bits, \<open>UINT16_MAX + 1\<close> does not.
\<close>

definition belowNeg32 :: "64 word \<Rightarrow> bool" where
  "belowNeg32 v \<longleftrightarrow> v < - (ucast ((- 1 :: 32 word) + 1))"

definition belowNeg16 :: "64 word \<Rightarrow> bool" where
  "belowNeg16 v \<longleftrightarrow> v < - (of_int (65535 + 1))"

definition convert :: "numTypes \<Rightarrow> intConst \<Rightarrow> nat \<Rightarrow> conversion" where
  "convert nt c newType =
     (let accept = IntResult (if reqUnsigned c then newUIntConst newType (ic_val c)
                              else newIntConst newType (ic_val c))
      in
      if newType = ic_type c then Unchanged
      else if newType = int64Type nt \<or> newType = intType nt \<and> intSize nt = 64 \<or>
              newType = intzType nt \<and> intzSize nt = 64 then
        (if reqUnsigned c then Refused else accept)
      else if newType = uint64Type nt \<or> newType = uintType nt \<and> intSize nt = 64 then
        (if \<not> (reqUnsigned c \<or> uneg c) \<and> sval c < 0 then Refused else accept)
      else if newType = int32Type nt \<or> newType = intType nt \<or> newType = intzType nt then
        (if reqUnsigned c \<or> sval c > 2 ^ 31 - 1 \<or> sval c < - (2 ^ 31) then Refused else accept)
      else if newType = int16Type nt then
        (if reqUnsigned c \<or> sval c > 2 ^ 15 - 1 \<or> sval c < - (2 ^ 15) then Refused else accept)
      else if newType = float32Type nt \<or> newType = float64Type nt \<or> newType = floatType nt then
        FloatResult (sval c) newType
      else if newType = uint32Type nt \<or> newType = uintType nt \<or> newType = uintzType nt then
        (if uneg c \<and> (belowNeg32 (ic_val c) \<or> sval c \<ge> 0) \<or> \<not> uneg c \<and> uval c > 2 ^ 32 - 1
         then Refused else accept)
      else if newType = uint16Type nt then
        (if uneg c \<and> (belowNeg16 (ic_val c) \<or> sval c \<ge> 0) \<or> \<not> uneg c \<and> uval c > 2 ^ 16 - 1
         then Refused else accept)
      else if newType = byteType nt then
        (if uneg c \<and> (sval c < - (255 + 1) \<or> sval c \<ge> 0) \<or> \<not> uneg c \<and> uval c > 255
         then Refused else accept)
      else if \<not> (newType = intType nt \<or> newType = uintType nt \<or> newType = intzType nt \<or>
                 newType = uintzType nt) then Delegated
      else accept)"

text \<open>The default type of a constant.\<close>

definition selectType :: "numTypes \<Rightarrow> 64 word \<Rightarrow> nat" where
  "selectType nt v =
     (if sint v > 2 ^ 31 - 1 \<or> sint v < - (2 ^ 31) then int64Type nt else intType nt)"

section \<open>Folding\<close>

text \<open>
  A fold returns null when the other operand is no integer constant. Division by zero
  throws; an operation whose signed result does not fit 64 bits, or a shift by a count that
  is negative or too large, is undefined in C++.
\<close>

datatype foldError = DivZeroError | Undefined

type_synonym folded = "foldError + intConst option"

definition fits64 :: "int \<Rightarrow> bool" where
  "fits64 k \<longleftrightarrow> - (2 ^ 63) \<le> k \<and> k < 2 ^ 63"

definition create_s :: "intConst \<Rightarrow> int \<Rightarrow> folded" where
  "create_s c k = (if fits64 k then Inr (Some (newIntConst (ic_type c) (word_of_int k))) else Inl Undefined)"

definition withOther :: "intConst option \<Rightarrow> (intConst \<Rightarrow> folded) \<Rightarrow> folded" where
  "withOther other f = (case other of None \<Rightarrow> Inr None | Some o' \<Rightarrow> f o')"

definition foldAdd :: "intConst \<Rightarrow> intConst option \<Rightarrow> folded" where
  "foldAdd c other = withOther other (\<lambda>o'. create_s c (sval c + sval o'))"

definition foldSub :: "intConst \<Rightarrow> intConst option \<Rightarrow> folded" where
  "foldSub c other = withOther other (\<lambda>o'. create_s c (sval c - sval o'))"

definition foldMul :: "intConst \<Rightarrow> intConst option \<Rightarrow> folded" where
  "foldMul c other = withOther other (\<lambda>o'. create_s c (sval c * sval o'))"

definition foldSDiv :: "intConst \<Rightarrow> intConst option \<Rightarrow> folded" where
  "foldSDiv c other = withOther other (\<lambda>o'.
     if sval o' = 0 then Inl DivZeroError else create_s c (sval c sdiv sval o'))"

text \<open>The remainder is undefined when the quotient does not fit.\<close>

definition foldSRem :: "intConst \<Rightarrow> intConst option \<Rightarrow> folded" where
  "foldSRem c other = withOther other (\<lambda>o'.
     if sval o' = 0 then Inl DivZeroError
     else if \<not> fits64 (sval c sdiv sval o') then Inl Undefined
     else create_s c (sval c smod sval o'))"

definition foldUDiv :: "intConst \<Rightarrow> intConst option \<Rightarrow> folded" where
  "foldUDiv c other = withOther other (\<lambda>o'.
     if uval o' = 0 then Inl DivZeroError
     else Inr (Some (newUIntConst (ic_type c) (ic_val c div ic_val o'))))"

definition foldURem :: "intConst \<Rightarrow> intConst option \<Rightarrow> folded" where
  "foldURem c other = withOther other (\<lambda>o'.
     if uval o' = 0 then Inl DivZeroError
     else Inr (Some (newUIntConst (ic_type c) (ic_val c mod ic_val o'))))"

definition hibit :: "64 word \<Rightarrow> bool" where
  "hibit v \<longleftrightarrow> and v 0x8000000000000000 \<noteq> 0"

text \<open>The macro \<open>FOLDB\<close>; on the flag \<open>uneg\<close> the operator works on booleans.\<close>

definition foldBits ::
  "(64 word \<Rightarrow> 64 word \<Rightarrow> 64 word) \<Rightarrow> (bool \<Rightarrow> bool \<Rightarrow> bool) \<Rightarrow> intConst \<Rightarrow> intConst option \<Rightarrow> folded"
where
  "foldBits opw opb c other = withOther other (\<lambda>o'.
     let v = opw (ic_val c) (ic_val o')
     in Inr (Some ((newUIntConst (ic_type c) v)\<lparr>uneg := opb (uneg c) (uneg o'), reqUnsigned := hibit v\<rparr>)))"

definition foldOr :: "intConst \<Rightarrow> intConst option \<Rightarrow> folded" where
  "foldOr = foldBits or (\<or>)"

definition foldAnd :: "intConst \<Rightarrow> intConst option \<Rightarrow> folded" where
  "foldAnd = foldBits and (\<and>)"

definition foldXor :: "intConst \<Rightarrow> intConst option \<Rightarrow> folded" where
  "foldXor = foldBits xor (\<noteq>)"

definition foldNeg :: "intConst \<Rightarrow> folded" where
  "foldNeg c = create_s c (- sval c)"

definition foldBitNot :: "intConst \<Rightarrow> intConst" where
  "foldBitNot c = (newIntConst (ic_type c) (not (ic_val c)))\<lparr>uneg := \<not> uneg c, reqUnsigned := reqUnsigned c\<rparr>"

definition shiftCount :: "intConst \<Rightarrow> (nat \<Rightarrow> folded) \<Rightarrow> folded" where
  "shiftCount o' f = (if 0 \<le> sval o' \<and> sval o' < 64 then f (nat (sval o')) else Inl Undefined)"

definition foldAShr :: "intConst \<Rightarrow> intConst option \<Rightarrow> folded" where
  "foldAShr c other = withOther other (\<lambda>o'. shiftCount o' (\<lambda>n.
     let v = (if reqUnsigned c then drop_bit n (ic_val c) else signed_drop_bit n (ic_val c))
     in Inr (Some ((newIntConst (ic_type c) v)\<lparr>uneg := uneg c, reqUnsigned := False\<rparr>))))"

definition foldLShr :: "intConst \<Rightarrow> intConst option \<Rightarrow> folded" where
  "foldLShr c other = withOther other (\<lambda>o'. shiftCount o' (\<lambda>n.
     Inr (Some ((newIntConst (ic_type c) (drop_bit n (ic_val c)))\<lparr>uneg := uneg c, reqUnsigned := False\<rparr>))))"

text \<open>
  The left shift keeps the bits that stay in the word (what every supported compiler does).
  The mask is shifted right by the count plus one, which is undefined for a count of 63.
\<close>

definition foldShl :: "intConst \<Rightarrow> intConst option \<Rightarrow> folded" where
  "foldShl c other = withOther other (\<lambda>o'. shiftCount o' (\<lambda>n.
     if n + 1 \<ge> 64 then Inl Undefined
     else
       let v = push_bit n (ic_val c);
           negative = uneg c \<or> reqUnsigned c \<and> hibit (ic_val c);
           mask = drop_bit (n + 1) 0x8000000000000000;
           req = (if negative then and mask (not (ic_val c)) \<noteq> 0 else and mask (ic_val c) \<noteq> 0)
       in Inr (Some ((newIntConst (ic_type c) v)\<lparr>uneg := uneg c, reqUnsigned := req\<rparr>))))"

section \<open>Conversion preserves the value\<close>

text \<open>The number a constant stands for, and the constants the constructors make.\<close>

definition constValue :: "intConst \<Rightarrow> int" where
  "constValue c = (if reqUnsigned c then uval c else sval c)"

definition const_ok :: "intConst \<Rightarrow> bool" where
  "const_ok c \<longleftrightarrow> (reqUnsigned c \<longrightarrow> sval c < 0)"

text \<open>
  The numbers of each integer type. \<open>int\<close> and \<open>uint\<close> have the size of the platform, and so
  has \<open>intz\<close>; \<open>uintz\<close> is limited to 32 bits by the code on every platform.
\<close>

definition typeRange :: "numTypes \<Rightarrow> nat \<Rightarrow> int set" where
  "typeRange nt ty =
     (if ty = int64Type nt \<or> ty = intType nt \<and> intSize nt = 64 \<or> ty = intzType nt \<and> intzSize nt = 64
      then {- (2 ^ 63)..<2 ^ 63}
      else if ty = uint64Type nt \<or> ty = uintType nt \<and> intSize nt = 64 then {0..<2 ^ 64}
      else if ty = int32Type nt \<or> ty = intType nt \<or> ty = intzType nt then {- (2 ^ 31)..<2 ^ 31}
      else if ty = int16Type nt then {- (2 ^ 15)..<2 ^ 15}
      else if ty = uint32Type nt \<or> ty = uintType nt \<or> ty = uintzType nt then {0..<2 ^ 32}
      else if ty = uint16Type nt then {0..<2 ^ 16}
      else {0..<2 ^ 8})"

definition integerTypes :: "numTypes \<Rightarrow> nat list" where
  "integerTypes nt = [byteType nt, int16Type nt, int32Type nt, int64Type nt, uint16Type nt,
     uint32Type nt, uint64Type nt, intType nt, uintType nt, intzType nt, uintzType nt]"

definition floatTypes :: "numTypes \<Rightarrow> nat list" where
  "floatTypes nt = [float32Type nt, float64Type nt, floatType nt]"

lemma sval_range: "- (2 ^ 63) \<le> sval c" "sval c < 2 ^ 63"
  using sint_range_size [of "ic_val c"] by (simp_all add: word_size)

lemma uval_range: "0 \<le> uval c" "uval c < 2 ^ 64"
  using uint_range_size [of "ic_val c"] by (simp_all add: word_size)

lemma uval_sval: "uval c = (if sval c < 0 then sval c + 2 ^ 64 else sval c)"
proof -
  have "uval c = take_bit 64 (sval c)" by (simp add: uint_sint)
  then have u: "uval c = sval c mod 2 ^ 64" by (simp add: take_bit_eq_mod)
  show ?thesis
  proof (cases "sval c < 0")
    case True
    have "sval c mod 2 ^ 64 = (sval c + 2 ^ 64) mod 2 ^ 64" by (simp only: mod_add_self2)
    also have "\<dots> = sval c + 2 ^ 64"
      using True sval_range [of c] by (intro mod_pos_pos_trivial) simp_all
    finally show ?thesis using True u by simp
  next
    case False
    with u sval_range [of c] show ?thesis by simp
  qed
qed

lemma newIntConst_sel [simp]:
  "ic_val (newIntConst ty v) = v" "reqUnsigned (newIntConst ty v) = False"
  "uneg (newIntConst ty v) = False" "ic_type (newIntConst ty v) = ty"
  "ic_val (newUIntConst ty v) = v" "uneg (newUIntConst ty v) = False"
  "ic_type (newUIntConst ty v) = ty"
  by (simp_all add: newIntConst_def newUIntConst_def)

lemma newUIntConst_req: "reqUnsigned (newUIntConst ty v) \<longleftrightarrow> sint v < 0"
  using uval_sval [of "newUIntConst ty v"] sval_range [of "newUIntConst ty v"]
  unfolding newUIntConst_def by (simp split: if_split_asm)

text \<open>The constant a successful conversion makes.\<close>

definition accepted :: "intConst \<Rightarrow> nat \<Rightarrow> intConst" where
  "accepted c ty = (if reqUnsigned c then newUIntConst ty (ic_val c) else newIntConst ty (ic_val c))"

lemma accepted_value:
  assumes "const_ok c"
  shows "constValue (accepted c ty) = constValue c" and "const_ok (accepted c ty)"
    and "ic_type (accepted c ty) = ty"
  using assms by (auto simp: accepted_def constValue_def const_ok_def newUIntConst_req)

text \<open>The guards of \<open>convert()\<close> in terms of the number.\<close>

lemma constValue_guards:
  assumes "const_ok c"
  shows "reqUnsigned c \<longleftrightarrow> constValue c \<notin> {- (2 ^ 63)..<2 ^ 63}"
    and "\<not> reqUnsigned c \<and> sval c < 0 \<longleftrightarrow> constValue c \<notin> {0..<2 ^ 64}"
    and "k < 2 ^ 63 \<Longrightarrow> (reqUnsigned c \<or> sval c > k - 1 \<or> sval c < - k) \<longleftrightarrow> constValue c \<notin> {- k..<k}"
    and "0 \<le> k \<Longrightarrow> k < 2 ^ 63 \<Longrightarrow> uval c > k - 1 \<longleftrightarrow> constValue c \<notin> {0..<k}"
proof -
  have s: "- (2 ^ 63) \<le> sval c" "sval c < 2 ^ 63" by (rule sval_range)+
  have neg: "uval c = sval c + 2 ^ 64" if "sval c < 0" using uval_sval [of c] that by simp
  have pos: "uval c = sval c" if "\<not> sval c < 0" using uval_sval [of c] that by simp
  note facts = s neg pos assms
  show "reqUnsigned c \<longleftrightarrow> constValue c \<notin> {- (2 ^ 63)..<2 ^ 63}"
    using facts by (cases "reqUnsigned c") (simp_all add: constValue_def const_ok_def)
  show "\<not> reqUnsigned c \<and> sval c < 0 \<longleftrightarrow> constValue c \<notin> {0..<2 ^ 64}"
    using facts by (cases "reqUnsigned c") (simp_all add: constValue_def const_ok_def, linarith)
  show "k < 2 ^ 63 \<Longrightarrow> (reqUnsigned c \<or> sval c > k - 1 \<or> sval c < - k) \<longleftrightarrow> constValue c \<notin> {- k..<k}"
    using facts by (cases "reqUnsigned c") (simp_all add: constValue_def const_ok_def, linarith+)
  show "0 \<le> k \<Longrightarrow> k < 2 ^ 63 \<Longrightarrow> uval c > k - 1 \<longleftrightarrow> constValue c \<notin> {0..<k}"
    using facts by (cases "reqUnsigned c"; cases "sval c < 0") (simp_all add: constValue_def const_ok_def, linarith+)
qed

lemma convert_typeRange:
  assumes ok: "const_ok c" "\<not> uneg c" and ty: "ty \<noteq> ic_type c" "ty \<in> set (integerTypes nt)"
    and nt: "distinct (integerTypes nt @ floatTypes nt)"
  shows "convert nt c ty =
    (if constValue c \<in> typeRange nt ty then IntResult (accepted c ty) else Refused)"
proof -
  let ?int64 = "ty = int64Type nt \<or> ty = intType nt \<and> intSize nt = 64 \<or> ty = intzType nt \<and> intzSize nt = 64"
  let ?uint64 = "ty = uint64Type nt \<or> ty = uintType nt \<and> intSize nt = 64"
  let ?int32 = "ty = int32Type nt \<or> ty = intType nt \<or> ty = intzType nt"
  let ?uint32 = "ty = uint32Type nt \<or> ty = uintType nt \<or> ty = uintzType nt"
  have fl: "\<not> (ty = float32Type nt \<or> ty = float64Type nt \<or> ty = floatType nt)"
    using ty(2) nt by (auto simp: floatTypes_def)
  note defs = convert_def typeRange_def Let_def accepted_def [symmetric]
  note g = constValue_guards [OF ok(1)]
  consider "?int64" | "\<not> ?int64" "?uint64" | "\<not> ?int64" "\<not> ?uint64" "?int32"
    | "\<not> ?int64" "\<not> ?uint64" "\<not> ?int32" "ty = int16Type nt"
    | "\<not> ?int64" "\<not> ?uint64" "\<not> ?int32" "ty \<noteq> int16Type nt" "?uint32"
    | "\<not> ?int64" "\<not> ?uint64" "\<not> ?int32" "ty \<noteq> int16Type nt" "\<not> ?uint32" "ty = uint16Type nt"
    | "\<not> ?int64" "\<not> ?uint64" "\<not> ?int32" "ty \<noteq> int16Type nt" "\<not> ?uint32" "ty \<noteq> uint16Type nt"
        "ty = byteType nt"
    using ty(2) unfolding integerTypes_def list.set insert_iff empty_iff by argo
  then show ?thesis
  proof cases
    case 1
    then show ?thesis using ty(1) g(1) by (simp only: defs if_True if_False) (auto simp: accepted_def)
  next
    case 2
    then show ?thesis using ty(1) ok(2) g(2) by (simp only: defs if_True if_False) auto
  next
    case 3
    then show ?thesis using ty(1) g(3) [of "2 ^ 31"] by (simp only: defs if_True if_False) auto
  next
    case 4
    then show ?thesis using ty(1) g(3) [of "2 ^ 15"] by (simp only: defs if_True if_False) auto
  next
    case 5
    then show ?thesis using ty(1) fl ok(2) g(4) [of "2 ^ 32"] by (simp only: defs if_True if_False) auto
  next
    case 6
    then show ?thesis using ty(1) fl ok(2) g(4) [of "2 ^ 16"] by (simp only: defs if_True if_False) auto
  next
    case 7
    then show ?thesis using ty(1) fl ok(2) g(4) [of "2 ^ 8"] by (simp only: defs if_True if_False) auto
  qed
qed

text \<open>
  C12. The conversion of an ordinary constant to an integer type is exact: it is refused
  exactly when its number is outside the range of the type, and otherwise the new constant
  has the new type and stands for the same number.
\<close>

theorem convert_exact:
  assumes "const_ok c" and "\<not> uneg c" and "ty \<noteq> ic_type c" and "ty \<in> set (integerTypes nt)"
    and "distinct (integerTypes nt @ floatTypes nt)"
  shows "(constValue c \<notin> typeRange nt ty \<longrightarrow> convert nt c ty = Refused) \<and>
    (constValue c \<in> typeRange nt ty \<longrightarrow>
      (\<exists>c'. convert nt c ty = IntResult c' \<and> constValue c' = constValue c \<and> ic_type c' = ty \<and>
        const_ok c'))"
  using convert_typeRange [OF assms] accepted_value [OF assms(1), of ty] by auto

definition numTypes64 :: numTypes where
  "numTypes64 = \<lparr>byteType = 1, int16Type = 2, int32Type = 3, int64Type = 4, uint16Type = 5,
     uint32Type = 6, uint64Type = 7, intType = 8, uintType = 9, intzType = 10, uintzType = 11,
     float32Type = 12, float64Type = 13, floatType = 14, intSize = 32, intzSize = 64\<rparr>"

lemma convert_exact_witness:
  "convert numTypes64 (newIntConst 8 300) 1 = Refused \<and>
   (\<exists>c'. convert numTypes64 (newIntConst 8 300) 2 = IntResult c' \<and> constValue c' = 300)"
  using convert_exact [of "newIntConst 8 300" 1 numTypes64] convert_exact [of "newIntConst 8 300" 2 numTypes64]
  by (auto simp: const_ok_def constValue_def integerTypes_def floatTypes_def numTypes64_def typeRange_def)

text \<open>
  C13. A negative constant that stands for an unsigned number (such as \<open>~k\<close>) is accepted
  by \<open>byte\<close> and \<open>uint16\<close> exactly when its upper bits are all set (it is at least minus the
  number of values of the type, so \<open>byte\<close> accepts -256, where a comment has -255), but by \<open>uint32\<close>
  whatever it is: the bound of the check wraps to zero.
\<close>

theorem convert_uneg:
  assumes "uneg c" and "sval c < 0" and "\<not> reqUnsigned c" and "ty \<noteq> ic_type c"
    and "distinct (integerTypes nt @ floatTypes nt)"
  shows "(ty = byteType nt \<longrightarrow> (convert nt c ty = Refused \<longleftrightarrow> sval c < - 256)) \<and>
    (ty = uint16Type nt \<longrightarrow> (convert nt c ty = Refused \<longleftrightarrow> sval c < - 65536)) \<and>
    (ty = uint32Type nt \<longrightarrow> convert nt c ty = IntResult (newIntConst ty (ic_val c)))"
proof -
  have u: "uval c = sval c + 2 ^ 64" using assms(2) by (simp add: uval_sval)
  have "belowNeg16 (ic_val c) \<longleftrightarrow> sval c < - 65536"
    using u by (auto simp: belowNeg16_def word_less_def)
  note below16 = this
  have below32: "\<not> belowNeg32 (ic_val c)" by (simp add: belowNeg32_def)
  have ne: "ty \<noteq> int64Type nt" "ty \<noteq> uint64Type nt" "ty \<noteq> int32Type nt" "ty \<noteq> int16Type nt"
      "ty \<noteq> intType nt" "ty \<noteq> intzType nt" "ty \<noteq> uintType nt" "ty \<noteq> float32Type nt"
      "ty \<noteq> float64Type nt" "ty \<noteq> floatType nt"
    if "ty = byteType nt \<or> ty = uint16Type nt \<or> ty = uint32Type nt"
    using that assms(5) by (auto simp: integerTypes_def floatTypes_def)
  have ne': "uint16Type nt \<noteq> uint32Type nt" "byteType nt \<noteq> uint32Type nt" "byteType nt \<noteq> uint16Type nt"
      "uint16Type nt \<noteq> uintzType nt" "byteType nt \<noteq> uintzType nt"
    using assms(5) by (auto simp: integerTypes_def)
  note defs = convert_def Let_def
  show ?thesis
  proof (intro conjI impI)
    assume ty: "ty = byteType nt"
    then have "ty \<noteq> uint32Type nt" "ty \<noteq> uint16Type nt" "ty \<noteq> uintzType nt" using ne' by simp_all
    with ty ne assms(1-4) show "convert nt c ty = Refused \<longleftrightarrow> sval c < - 256"
      by (simp add: defs)
  next
    assume ty: "ty = uint16Type nt"
    then have "ty \<noteq> uint32Type nt" "ty \<noteq> uintzType nt" using ne' by simp_all
    with ty ne assms(1-4) below16 show "convert nt c ty = Refused \<longleftrightarrow> sval c < - 65536"
      by (simp add: defs)
  next
    assume ty: "ty = uint32Type nt"
    with ne assms(1-4) below32 show "convert nt c ty = IntResult (newIntConst ty (ic_val c))"
      by (simp add: defs)
  qed
qed

lemma convert_uneg_witness:
  "convert numTypes64 ((newIntConst 8 (- 0x200000000))\<lparr>uneg := True\<rparr>) 6 =
     IntResult (newIntConst 6 (- 0x200000000))"
  using convert_uneg [of "(newIntConst 8 (- 0x200000000))\<lparr>uneg := True\<rparr>" 6 numTypes64]
  by (simp add: integerTypes_def floatTypes_def numTypes64_def newIntConst_def)

section \<open>Folding computes the number\<close>

lemma create_s_value:
  "create_s c k = Inr (Some c') \<Longrightarrow> sval c' = k \<and> \<not> reqUnsigned c' \<and> \<not> uneg c'"
  by (auto simp: create_s_def fits64_def signed_of_int signed_take_bit_int_eq_self split: if_splits)

lemma create_s_cases:
  "case create_s c k of Inr (Some c') \<Rightarrow> sval c' = k | Inl Undefined \<Rightarrow> \<not> fits64 k | _ \<Rightarrow> False"
  using create_s_value [of c k] by (cases "fits64 k") (simp_all add: create_s_def)

lemma sdiv_overflow:
  assumes "\<not> fits64 (sval a sdiv sval b)" and "sval b \<noteq> 0"
  shows "sval a = - (2 ^ 63)" and "sval b = -1"
proof -
  have a: "\<bar>sval a\<bar> \<le> 2 ^ 63" "sval a < 2 ^ 63" using sval_range [of a] by linarith+
  have "sval a sdiv sval b \<in> {- \<bar>sval a\<bar>..\<bar>sval a\<bar>}" by (rule sdiv_int_range)
  then have q: "- \<bar>sval a\<bar> \<le> sval a sdiv sval b" "sval a sdiv sval b \<le> \<bar>sval a\<bar>" by simp_all
  from q a assms(1) have e: "sval a sdiv sval b = 2 ^ 63" unfolding fits64_def by linarith
  with q a show "sval a = - (2 ^ 63)" by linarith
  then have "sval a sdiv sval b = - sval a" "sval a \<noteq> 0" using e by simp_all
  then show "sval b = -1" using int_sdiv_negated_is_minus1 by blast
qed

text \<open>
  C14. Folding a signed operation of two constants gives the exact result of the operation
  (division truncates towards zero), a division by zero is reported, and the folding is
  undefined in exactly the cases in which the result does not fit 64 bits, which for a
  division is the smallest number divided by minus one.
\<close>

theorem fold_signed:
  "(case foldAdd a (Some b) of Inr (Some c) \<Rightarrow> sval c = sval a + sval b
      | Inl Undefined \<Rightarrow> \<not> fits64 (sval a + sval b) | _ \<Rightarrow> False) \<and>
   (case foldSub a (Some b) of Inr (Some c) \<Rightarrow> sval c = sval a - sval b
      | Inl Undefined \<Rightarrow> \<not> fits64 (sval a - sval b) | _ \<Rightarrow> False) \<and>
   (case foldMul a (Some b) of Inr (Some c) \<Rightarrow> sval c = sval a * sval b
      | Inl Undefined \<Rightarrow> \<not> fits64 (sval a * sval b) | _ \<Rightarrow> False) \<and>
   (case foldSDiv a (Some b) of Inr (Some c) \<Rightarrow> sval b \<noteq> 0 \<and> sval c = sval a sdiv sval b
      | Inl Undefined \<Rightarrow> sval a = - (2 ^ 63) \<and> sval b = -1 | Inl DivZeroError \<Rightarrow> sval b = 0
      | _ \<Rightarrow> False)"
proof (intro conjI)
  show "case foldSDiv a (Some b) of Inr (Some c) \<Rightarrow> sval b \<noteq> 0 \<and> sval c = sval a sdiv sval b
      | Inl Undefined \<Rightarrow> sval a = - (2 ^ 63) \<and> sval b = -1 | Inl DivZeroError \<Rightarrow> sval b = 0
      | _ \<Rightarrow> False"
  proof (cases "sval b = 0")
    case nz: False
    then have eq: "foldSDiv a (Some b) = create_s a (sval a sdiv sval b)"
      by (simp add: foldSDiv_def withOther_def)
    show ?thesis
    proof (cases "fits64 (sval a sdiv sval b)")
      case True
      then have c: "create_s a (sval a sdiv sval b) =
          Inr (Some (newIntConst (ic_type a) (word_of_int (sval a sdiv sval b))))"
        by (simp add: create_s_def)
      have v: "sval b \<noteq> 0 \<and>
          sval (newIntConst (ic_type a) (word_of_int (sval a sdiv sval b))) = sval a sdiv sval b"
        using create_s_value [OF c] nz by blast
      then show ?thesis unfolding eq c by (simp only: sum.case option.case) simp
    next
      case False
      then have c: "create_s a (sval a sdiv sval b) = Inl Undefined" by (simp add: create_s_def)
      from sdiv_overflow [OF False nz] show ?thesis unfolding eq c by (simp only: sum.case foldError.case)
    qed
  qed (simp add: foldSDiv_def withOther_def)
qed (unfold foldAdd_def foldSub_def foldMul_def withOther_def option.case, rule create_s_cases,
    rule create_s_cases, rule create_s_cases)

text \<open>Unsigned division works on the unsigned readings and marks large results.\<close>

lemma uint_div_mod: "uint (a div b) = uint a div uint b" "uint (a mod b) = uint a mod uint b"
  for a b :: "64 word"
  by (simp_all add: uint_div uint_mod)

text \<open>
  C15. Unsigned division and remainder are exact on the unsigned readings, their results are
  well formed (marked as unsigned exactly when they do not fit a signed number), and zero
  divisors are reported.
\<close>

theorem fold_unsigned:
  "(case foldUDiv a (Some b) of Inr (Some c) \<Rightarrow> uval b \<noteq> 0 \<and> constValue c = uval a div uval b \<and> const_ok c
      | Inl DivZeroError \<Rightarrow> uval b = 0 | _ \<Rightarrow> False) \<and>
   (case foldURem a (Some b) of Inr (Some c) \<Rightarrow> uval b \<noteq> 0 \<and> constValue c = uval a mod uval b \<and> const_ok c
      | Inl DivZeroError \<Rightarrow> uval b = 0 | _ \<Rightarrow> False)"
proof -
  have new: "constValue (newUIntConst ty v) = uint v \<and> const_ok (newUIntConst ty v)" for ty v
    using uval_sval [of "newUIntConst ty v"]
    by (cases "sint v < 0") (simp_all add: constValue_def const_ok_def newUIntConst_req)
  show ?thesis
    using new [of "ic_type a" "ic_val a div ic_val b"] new [of "ic_type a" "ic_val a mod ic_val b"]
    by (cases "uval b = 0") (simp_all only: foldUDiv_def foldURem_def withOther_def uint_div_mod
        option.case sum.case foldError.case if_True if_False simp_thms HOL.refl)
qed

end
