(* ===== verification/Graph_Search.thy ===== *)
theory Graph_Search
  imports Prelude
begin

text \<open>
  Searches over graphs of objects. The compiler keeps types, namespaces, overloads and
  contexts as objects that point to their parents, and walks them recursively. The recursion
  ends because no object is its own ancestor, so the walks are modelled as partial functions:
  \<open>None\<close> is a walk that does not return. This theory holds the loops over a list of parents
  and the locale of acyclic object graphs with what a recursive search over one computes.
\<close>

section \<open>Loops over a list of parents\<close>

text \<open>A loop that returns true at the first element the test holds for.\<close>

primrec anyM :: "('a \<Rightarrow> bool option) \<Rightarrow> 'a list \<Rightarrow> bool option" where
  "anyM f [] = Some False"
| "anyM f (x # xs) = Option.bind (f x) (\<lambda>b. if b then Some True else anyM f xs)"

text \<open>A loop that returns the first non-null result.\<close>

primrec firstM :: "('a \<Rightarrow> 'b option option) \<Rightarrow> 'a list \<Rightarrow> 'b option option" where
  "firstM f [] = Some None"
| "firstM f (x # xs) = Option.bind (f x) (\<lambda>r. case r of None \<Rightarrow> firstM f xs | Some y \<Rightarrow> Some (Some y))"

text \<open>A loop that appends to a result list.\<close>

primrec concatM :: "('a \<Rightarrow> 'b list option) \<Rightarrow> 'a list \<Rightarrow> 'b list option" where
  "concatM f [] = Some []"
| "concatM f (x # xs) = Option.bind (f x) (\<lambda>ys. Option.bind (concatM f xs) (\<lambda>zs. Some (ys @ zs)))"

text \<open>A loop that threads a state through its body.\<close>

primrec iterM :: "('a \<Rightarrow> 's \<Rightarrow> 's option) \<Rightarrow> 'a list \<Rightarrow> 's \<Rightarrow> 's option" where
  "iterM f [] s = Some s"
| "iterM f (x # xs) s = Option.bind (f x s) (iterM f xs)"

lemma anyM_mono [partial_function_mono]:
  assumes "\<And>x. mono_option (\<lambda>f. B f x)"
  shows "mono_option (\<lambda>f. anyM (B f) xs)"
proof (induction xs)
  case (Cons x xs)
  have "mono_option (\<lambda>f. if b then Some True else anyM (B f) xs)" for b
    by (cases b) (simp_all add: Cons option.const_mono)
  then show ?case unfolding anyM.simps by (intro bind_mono assms)
qed (simp add: option.const_mono)

lemma firstM_mono [partial_function_mono]:
  assumes "\<And>x. mono_option (\<lambda>f. B f x)"
  shows "mono_option (\<lambda>f. firstM (B f) xs)"
proof (induction xs)
  case (Cons x xs)
  have "mono_option (\<lambda>f. case r of None \<Rightarrow> firstM (B f) xs | Some y \<Rightarrow> Some (Some y))" for r
    by (cases r) (simp_all add: Cons option.const_mono)
  then show ?case unfolding firstM.simps by (intro bind_mono assms)
qed (simp add: option.const_mono)

lemma concatM_mono [partial_function_mono]:
  assumes "\<And>x. mono_option (\<lambda>f. B f x)"
  shows "mono_option (\<lambda>f. concatM (B f) xs)"
proof (induction xs)
  case (Cons x xs)
  then show ?case unfolding concatM.simps by (intro bind_mono assms option.const_mono)
qed (simp add: option.const_mono)

lemma iterM_mono [partial_function_mono]:
  assumes "\<And>x s. mono_option (\<lambda>f. B f x s)"
  shows "mono_option (\<lambda>f. iterM (B f) xs s)"
proof (induction xs arbitrary: s)
  case (Cons x xs)
  then show ?case unfolding iterM.simps by (intro bind_mono assms)
qed (simp add: option.const_mono)

text \<open>What the loops return when the body returns on every element.\<close>

lemma anyM_total:
  "(\<And>x. x \<in> set xs \<Longrightarrow> f x = Some (P x)) \<Longrightarrow> anyM f xs = Some (\<exists>x \<in> set xs. P x)"
  by (induction xs) auto

lemma firstM_total:
  "(\<And>x. x \<in> set xs \<Longrightarrow> f x = Some (g x)) \<Longrightarrow>
   firstM f xs = Some (case List.find (\<lambda>x. g x \<noteq> None) xs of None \<Rightarrow> None | Some x \<Rightarrow> g x)"
  by (induction xs) (auto split: option.splits)

lemma concatM_total:
  "(\<And>x. x \<in> set xs \<Longrightarrow> f x = Some (g x)) \<Longrightarrow> concatM f xs = Some (concat (map g xs))"
  by (induction xs) auto

lemma iterM_append: "iterM f (xs @ ys) s = Option.bind (iterM f xs s) (iterM f ys)"
  by (induction xs arbitrary: s) (auto split: bind_splits)

section \<open>Acyclic object graphs\<close>

text \<open>
  A graph is given by the successors (the parents) of an object in a state. \<open>acyc s\<close> says that
  the state's graph has no infinite path, that is, every recursive walk ends. \<open>below\<close> is the
  reflexive and transitive closure: \<open>below s a b\<close> when \<open>b\<close> is reached from \<open>a\<close>.
\<close>

definition edges :: "('a \<Rightarrow> 'a list) \<Rightarrow> ('a \<times> 'a) set" where
  "edges succ = {(b, a). b \<in> set (succ a)}"

definition reaches :: "('a \<Rightarrow> 'a list) \<Rightarrow> 'a \<Rightarrow> 'a \<Rightarrow> bool" where
  "reaches succ a b \<longleftrightarrow> (b, a) \<in> (edges succ)\<^sup>*"

lemma reaches_refl [simp, intro]: "reaches succ a a"
  by (simp add: reaches_def)

lemma reaches_step: "p \<in> set (succ a) \<Longrightarrow> reaches succ p b \<Longrightarrow> reaches succ a b"
  unfolding reaches_def edges_def by (meson case_prodI mem_Collect_eq rtrancl.rtrancl_into_rtrancl)

lemma reaches_unfold: "reaches succ a b \<longleftrightarrow> a = b \<or> (\<exists>p \<in> set (succ a). reaches succ p b)"
proof
  assume "reaches succ a b"
  then show "a = b \<or> (\<exists>p \<in> set (succ a). reaches succ p b)"
    unfolding reaches_def by (rule rtranclE) (auto simp: edges_def)
qed (auto intro: reaches_step)

lemma reaches_trans: "reaches succ a b \<Longrightarrow> reaches succ b c \<Longrightarrow> reaches succ a c"
  unfolding reaches_def by (rule rtrancl_trans)

lemma reaches_last:
  "reaches succ a b \<longleftrightarrow> a = b \<or> (\<exists>q. reaches succ a q \<and> b \<in> set (succ q))"
proof
  assume "reaches succ a b"
  then show "a = b \<or> (\<exists>q. reaches succ a q \<and> b \<in> set (succ q))"
    unfolding reaches_def by (rule converse_rtranclE) (auto simp: edges_def)
next
  assume "a = b \<or> (\<exists>q. reaches succ a q \<and> b \<in> set (succ q))"
  moreover have "reaches succ a b" if "reaches succ a q" "b \<in> set (succ q)" for q
    using that reaches_trans [of succ a q b] reaches_step [of b succ q b] by simp
  ultimately show "reaches succ a b" by auto
qed

locale object_graph =
  fixes succ :: "'s \<Rightarrow> 'a \<Rightarrow> 'a list" and acyc :: "'s \<Rightarrow> bool"
  assumes acyclic: "acyc s \<Longrightarrow> wf (edges (succ s))"
begin

lemma graph_induct [consumes 1, case_names node]:
  assumes "acyc s" and "\<And>a. (\<And>p. p \<in> set (succ s a) \<Longrightarrow> P p) \<Longrightarrow> P a"
  shows "P a"
  using acyclic [OF assms(1)]
proof (induction a rule: wf_induct_rule)
  case (less a)
  show ?case by (rule assms(2)) (use less in \<open>simp add: edges_def\<close>)
qed

text \<open>A recursive search that stops at the objects the test holds for.\<close>

lemma search_decides:
  assumes "acyc s" and "\<And>a. f a = (if P a then Some True else anyM f (succ s a))"
  shows "f a = Some (\<exists>b. reaches (succ s) a b \<and> P b)"
  using assms(1)
proof (induction a rule: graph_induct)
  case (node a)
  show ?case
  proof (cases "P a")
    case False
    have "anyM f (succ s a) = Some (\<exists>p \<in> set (succ s a). \<exists>b. reaches (succ s) p b \<and> P b)"
      using node by (rule anyM_total)
    moreover have "(\<exists>p \<in> set (succ s a). \<exists>b. reaches (succ s) p b \<and> P b) \<longleftrightarrow>
        (\<exists>b. reaches (succ s) a b \<and> P b)"
      using False by (metis reaches_unfold)
    ultimately show ?thesis using False assms(2) [of a] by simp
  qed (use assms(2) [of a] in auto)
qed

text \<open>Two objects of an acyclic graph do not reach each other.\<close>

lemma reaches_antisym:
  assumes "acyc s" and "reaches (succ s) a b" and "reaches (succ s) b a"
  shows "a = b"
proof (rule ccontr)
  assume "a \<noteq> b"
  then have "(b, a) \<in> (edges (succ s))\<^sup>+" "(a, b) \<in> (edges (succ s))\<^sup>+"
    using assms(2,3) unfolding reaches_def by (auto simp: rtrancl_eq_or_trancl)
  then have "(a, a) \<in> (edges (succ s))\<^sup>+" by (rule trancl_trans [rotated])
  moreover have "wf ((edges (succ s))\<^sup>+)" using acyclic [OF assms(1)] by (rule wf_trancl)
  ultimately show False by (meson wf_irrefl)
qed

lemma no_self_parent: "acyc s \<Longrightarrow> p \<in> set (succ s a) \<Longrightarrow> \<not> reaches (succ s) p a"
proof
  assume a: "acyc s" "p \<in> set (succ s a)" "reaches (succ s) p a"
  then have "a = p" using reaches_antisym [of s a p] reaches_step [of p "succ s" a p] by simp
  with a(2) have "(a, a) \<in> edges (succ s)" by (simp add: edges_def)
  with acyclic [OF a(1)] show False using wf_irrefl [of "edges (succ s)" a] by simp
qed

end

text \<open>A graph whose edges lead to smaller ranks is acyclic; this is how a state is shown to be.\<close>

lemma wf_by_rank: "(\<And>a p. p \<in> set (succ a) \<Longrightarrow> r p < (r a :: nat)) \<Longrightarrow> wf (edges succ)"
  by (rule wf_subset [OF wf_measure [of r]]) (auto simp: edges_def)

text \<open>An edge to an object from which the source cannot be reached keeps a graph acyclic.\<close>

lemma wf_add_parent:
  assumes "wf (edges succ)" and "\<not> reaches succ b t"
  shows "wf (edges (succ(t := succ t @ [b])))"
proof -
  have "edges (succ(t := succ t @ [b])) = insert (b, t) (edges succ)"
    by (auto simp: edges_def)
  moreover have "(t, b) \<notin> (edges succ)\<^sup>*" using assms(2) by (simp add: reaches_def)
  ultimately show ?thesis using assms(1) by (simp add: wf_insert)
qed

end
