(* ===== verification/Preorder.thy ===== *)
theory Preorder
  imports Graph_Search
begin

text \<open>
  The order in which a recursive search visits the objects of an acyclic graph: an object, then
  its parents from the first to the last, each with all its ancestors. An ancestor reached on
  several paths is visited several times. The lemmas state what the recursive searches of the
  compiler compute in terms of this order.
\<close>

partial_function (option) preorder :: "('a \<Rightarrow> 'a list) \<Rightarrow> 'a \<Rightarrow> 'a list option" where
  "preorder succ a = Option.bind (concatM (preorder succ) (succ a)) (\<lambda>vs. Some (a # vs))"

definition visited :: "('a \<Rightarrow> 'a list) \<Rightarrow> 'a \<Rightarrow> 'a list" where
  "visited succ a = the (preorder succ a)"

lemma find_concat_map:
  "List.find P (concat (map f xs)) =
     (case List.find (\<lambda>x. List.find P (f x) \<noteq> None) xs of None \<Rightarrow> None | Some x \<Rightarrow> List.find P (f x))"
  by (induction xs) (auto simp: find_append split: option.splits)

context object_graph
begin

lemma preorder_returns:
  assumes "acyc s"
  shows "preorder (succ s) a = Some (visited (succ s) a)"
  using assms
proof (induction a rule: graph_induct)
  case (node a)
  have "concatM (preorder (succ s)) (succ s a) = Some (concat (map (visited (succ s)) (succ s a)))"
    by (rule concatM_total) (rule node)
  then show ?case by (simp add: visited_def [of _ a]) (simp add: preorder.simps [of _ a])
qed

lemma visited_unfold:
  assumes "acyc s"
  shows "visited (succ s) a = a # concat (map (visited (succ s)) (succ s a))"
proof -
  have "concatM (preorder (succ s)) (succ s a) = Some (concat (map (visited (succ s)) (succ s a)))"
    by (rule concatM_total) (rule preorder_returns [OF assms])
  then show ?thesis by (simp add: visited_def [of _ a] preorder.simps [of _ a])
qed

lemma set_visited:
  assumes "acyc s"
  shows "set (visited (succ s) a) = {b. reaches (succ s) a b}"
  using assms
proof (induction a rule: graph_induct)
  case (node a)
  then show ?case using reaches_unfold [of "succ s" a] visited_unfold [OF assms, of a] by auto
qed

text \<open>A search that returns the first answer of the objects visited.\<close>

lemma search_first:
  assumes "acyc s" and "\<And>a. f a = (case g a of Some x \<Rightarrow> Some (Some x) | None \<Rightarrow> firstM f (succ s a))"
  shows "f a = Some (case List.find (\<lambda>b. g b \<noteq> None) (visited (succ s) a) of None \<Rightarrow> None | Some b \<Rightarrow> g b)"
  using assms(1)
proof (induction a rule: graph_induct)
  case (node a)
  let ?F = "\<lambda>a. case List.find (\<lambda>b. g b \<noteq> None) (visited (succ s) a) of None \<Rightarrow> None | Some b \<Rightarrow> g b"
  have some: "?F p \<noteq> None \<longleftrightarrow> List.find (\<lambda>b. g b \<noteq> None) (visited (succ s) p) \<noteq> None" for p
  proof (cases "List.find (\<lambda>b. g b \<noteq> None) (visited (succ s) p)")
    case (Some b)
    then have "g b \<noteq> None" by (auto simp: find_Some_iff simp del: not_None_eq)
    with Some show ?thesis by simp
  qed simp
  have "firstM f (succ s a) = Some (case List.find (\<lambda>p. ?F p \<noteq> None) (succ s a) of None \<Rightarrow> None | Some p \<Rightarrow> ?F p)"
    by (rule firstM_total) (rule node)
  moreover have "(case List.find (\<lambda>p. ?F p \<noteq> None) (succ s a) of None \<Rightarrow> None | Some p \<Rightarrow> ?F p) =
      (case List.find (\<lambda>b. g b \<noteq> None) (concat (map (visited (succ s)) (succ s a))) of None \<Rightarrow> None | Some b \<Rightarrow> g b)"
    unfolding some find_concat_map by (auto split: option.splits)
  ultimately show ?case
    by (subst assms(2)) (auto simp: visited_unfold [OF assms(1), of a] split: option.splits)
qed

text \<open>A walk that collects what the objects visited contribute.\<close>

lemma collect_visited:
  assumes "acyc s" and "\<And>a. f a = Option.bind (concatM f (succ s a)) (\<lambda>vs. Some (g a @ vs))"
  shows "f a = Some (concat (map g (visited (succ s) a)))"
  using assms(1)
proof (induction a rule: graph_induct)
  case (node a)
  have "concatM f (succ s a) = Some (concat (map (\<lambda>p. concat (map g (visited (succ s) p))) (succ s a)))"
    by (rule concatM_total) (rule node)
  moreover have "concat (map g (concat (map (visited (succ s)) ps))) =
      concat (map (\<lambda>p. concat (map g (visited (succ s) p))) ps)" for ps
    by (induction ps) auto
  ultimately show ?case by (subst assms(2)) (simp add: visited_unfold [OF assms(1), of a])
qed

text \<open>The objects visited do not depend on the parents of objects that are not reached.\<close>

lemma visited_cong:
  assumes "acyc s" and "acyc s'" and "\<And>b. reaches (succ s) a b \<Longrightarrow> succ s' b = succ s b"
  shows "visited (succ s') a = visited (succ s) a"
  using assms(1,3)
proof (induction a rule: graph_induct)
  case (node a)
  have "visited (succ s') p = visited (succ s) p" if "p \<in> set (succ s a)" for p
    using node that by (simp add: reaches_step [of p])
  then have same: "map (visited (succ s')) (succ s a) = map (visited (succ s)) (succ s a)" by simp
  have "succ s' a = succ s a" by (rule node(2) [OF reaches_refl])
  then show ?case
    unfolding visited_unfold [OF assms(1), of a] visited_unfold [OF assms(2), of a] using same by (simp only:)
qed

end

text \<open>Giving parents to an object that no object has as a parent keeps a graph acyclic.\<close>

lemma wf_new_parents:
  assumes "wf (edges succ)" and "\<And>a. t \<notin> set (succ a)" and "t \<notin> set ps"
  shows "wf (edges (succ(t := ps)))"
proof -
  have "edges (succ(t := ps)) \<subseteq> edges succ \<union> {(b, a). a = t \<and> b \<in> set ps}" by (auto simp: edges_def)
  moreover have "wf (edges succ \<union> {(b, a). a = t \<and> b \<in> set ps})"
  proof (rule wf_Un [OF assms(1)])
    show "wf {(b, a). a = t \<and> b \<in> set ps}"
      by (rule wf_subset [OF wf_measure [of "\<lambda>a. if a = t then 1 else 0"]]) (use assms(3) in auto)
    show "Domain (edges succ) \<inter> Range {(b, a). a = t \<and> b \<in> set ps} = {}"
      using assms(2) by (auto simp: edges_def)
  qed
  ultimately show ?thesis using wf_subset by blast
qed

end
