(* ===== verification/Std_Map.thy ===== *)
theory Std_Map
  imports Prelude "HOL-Library.List_Lexorder" "HOL-Library.Char_ord"
begin

text \<open>
  \<open>std::map\<close>: the compiler iterates over its maps in key order, so a map is the list of its
  entries sorted by key. \<open>find\<close> is \<open>map_of\<close>, \<open>m[k] = v\<close> is \<open>mapSet\<close>. The keys are strings
  compared byte by byte (the order of \<open>Char_ord\<close> and \<open>List_Lexorder\<close>).
\<close>

type_synonym ('k, 'v) stdmap = "('k \<times> 'v) list"

fun mapSet :: "'k::linorder \<Rightarrow> 'v \<Rightarrow> ('k, 'v) stdmap \<Rightarrow> ('k, 'v) stdmap" where
  "mapSet k v [] = [(k, v)]"
| "mapSet k v ((k', v') # m) =
    (if k < k' then (k, v) # (k', v') # m
     else if k = k' then (k, v) # m
     else (k', v') # mapSet k v m)"

definition mapErase :: "'k::linorder \<Rightarrow> ('k, 'v) stdmap \<Rightarrow> ('k, 'v) stdmap" where
  "mapErase k m = filter (\<lambda>e. fst e \<noteq> k) m"

definition map_ok :: "('k::linorder, 'v) stdmap \<Rightarrow> bool" where
  "map_ok m \<longleftrightarrow> sorted_wrt (<) (map fst m)"

named_theorems map_simps \<open>what a lookup returns after a change of a map\<close>

lemma map_ok_Nil [simp]: "map_ok []"
  by (simp add: map_ok_def)

lemma set_mapSet: "fst ` set (mapSet k v m) = insert k (fst ` set m)"
  by (induction k v m rule: mapSet.induct) auto

lemma map_ok_mapSet [simp]: "map_ok m \<Longrightarrow> map_ok (mapSet k v m)"
proof (induction k v m rule: mapSet.induct)
  case (2 k v k' v' m)
  have keys: "set (map fst (mapSet k v m)) = insert k (set (map fst m))"
    using set_mapSet [of k v m] by simp
  from 2 show ?case unfolding map_ok_def
    by (auto simp: keys simp del: set_map intro: less_trans)
qed (simp add: map_ok_def)

lemma map_ok_mapErase [simp]: "map_ok m \<Longrightarrow> map_ok (mapErase k m)"
  unfolding map_ok_def mapErase_def by (induction m) auto

lemma map_of_mapSet [map_simps]: "map_ok m \<Longrightarrow> map_of (mapSet k v m) = (map_of m)(k \<mapsto> v)"
proof (induction k v m rule: mapSet.induct)
  case (2 k v k' v' m)
  then have "map_ok m" by (simp add: map_ok_def)
  with 2 show ?case by (auto simp: fun_eq_iff)
qed simp

lemma map_of_mapErase [map_simps]: "map_of (mapErase k m) = (map_of m)(k := None)"
  unfolding mapErase_def by (induction m) (auto simp: fun_eq_iff)

text \<open>A sorted map is determined by its lookups, so it does not depend on the insertion order.\<close>

lemma map_ok_distinct: "map_ok m \<Longrightarrow> distinct (map fst m)"
  by (simp add: map_ok_def strict_sorted_iff)

lemma mapSet_commute:
  "map_ok m \<Longrightarrow> k \<noteq> k' \<Longrightarrow> mapSet k v (mapSet k' v' m) = mapSet k' v' (mapSet k v m)"
  by (induction m) (auto simp: map_ok_def)

lemma mapSet_same [simp]: "mapSet k v (mapSet k v' m) = mapSet k v m"
  by (induction m) auto

lemma mapSet_in_set: "(k, v) \<in> set (mapSet k v m)"
  by (induction m) auto

lemma set_mapSet_subset: "set (mapSet k v m) \<subseteq> insert (k, v) (set m)"
  by (induction k v m rule: mapSet.induct) auto

end
