(* ===== verification/Objects.thy ===== *)
theory Objects
  imports Preorder Std_Map
begin

text \<open>
  The objects of the compiler's model (\<open>src/model\<close>): definitions, namespaces, types, modules,
  overloads and functions. They point to each other, are shared and are changed in place, so
  they live in a store from addresses to objects. One record holds the members of the classes
  \<open>VarDef\<close>, \<open>Namespace\<close>, \<open>TypeDef\<close>, \<open>ModuleDef\<close>, \<open>OverloadDef\<close> and \<open>FuncDef\<close>; the
  dynamic type of an object (what \<open>TypeDefPtr::cast\<close> and the other casts test) is its \<open>kind\<close>.
  A null pointer is \<open>None\<close>. Of the member \<open>impl\<close>, which belongs to the builder, the model keeps
  whether it is set.
\<close>

section \<open>The store\<close>

type_synonym addr = nat

datatype kind = VarObj | ConstVarObj | InstVarObj | TypeObj | ModuleObj | OverloadObj | FuncObj
  | StubObj | AnnotationObj | LocalNS | GlobalNS | CompositeNS

record obj =
  kind :: kind
  \<comment> \<open>\<open>VarDef\<close>\<close>
  name :: string
  owner :: "addr option"
  deftype :: "addr option"
  exposed :: bool
  hasImpl :: bool
  \<comment> \<open>\<open>Namespace\<close>\<close>
  defs :: "(string, addr) stdmap"
  ordered :: "addr list"
  orderedForCache :: "addr list"
  canonicalName :: string
  \<comment> \<open>the parents of a type or of a namespace, those of an overload\<close>
  parents :: "addr list"
  \<comment> \<open>\<open>TypeDef\<close>\<close>
  pointer :: bool
  hasVTable :: bool
  appendage :: bool
  isAbstractClass :: bool
  final :: bool
  forward :: bool
  fieldCount :: nat
  meta :: "addr option"
  genericInfo :: bool
  templateType :: "addr option"
  \<comment> \<open>\<open>ModuleDef\<close>\<close>
  master :: "addr option"
  slaves :: "addr list"
  exports :: "(string, bool) stdmap"
  dependencies :: "(string, addr) stdmap"
  compileTimeDeps :: "(string, addr) stdmap"
  importedModules :: "addr list"
  finished :: bool
  cacheable :: bool
  \<comment> \<open>\<open>OverloadDef\<close> and \<open>FuncDef\<close>\<close>
  funcs :: "addr list"
  flags :: "32 word"
  args :: "(string \<times> addr) list"
  returnType :: "addr option"
  receiverType :: "addr option"

record store =
  cell :: "addr \<Rightarrow> obj"
  nextAddr :: addr

definition upd :: "addr \<Rightarrow> (obj \<Rightarrow> obj) \<Rightarrow> store \<Rightarrow> store" where
  "upd a f h = h\<lparr>cell := (cell h)(a := f (cell h a))\<rparr>"

text \<open>Allocation of a new object.\<close>

definition alloc :: "obj \<Rightarrow> store \<Rightarrow> addr \<times> store" where
  "alloc ob h = (nextAddr h, h\<lparr>cell := (cell h)(nextAddr h := ob), nextAddr := Suc (nextAddr h)\<rparr>)"

lemma cell_upd [state_simps]: "cell (upd a f h) b = (if b = a then f (cell h a) else cell h b)"
  by (simp add: upd_def)

lemma nextAddr_upd [state_simps]: "nextAddr (upd a f h) = nextAddr h"
  by (simp add: upd_def)

section \<open>Constructors\<close>

definition blankObj :: obj where
  "blankObj = \<lparr>kind = VarObj, name = [], owner = None, deftype = None, exposed = False, hasImpl = False,
    defs = [], ordered = [], orderedForCache = [], canonicalName = [], parents = [],
    pointer = False, hasVTable = False, appendage = False, isAbstractClass = False, final = False,
    forward = False, fieldCount = 0, meta = None, genericInfo = False, templateType = None,
    master = None, slaves = [], exports = [], dependencies = [], compileTimeDeps = [], importedModules = [],
    finished = False, cacheable = False, funcs = [], flags = 0, args = [], returnType = None,
    receiverType = None\<rparr>"

text \<open>\<open>VarDef(type, name)\<close>\<close>

definition newVarDef :: "addr option \<Rightarrow> string \<Rightarrow> obj" where
  "newVarDef type nm = blankObj\<lparr>name := nm, deftype := type\<rparr>"

text \<open>\<open>TypeDef(metaType, name, pointer, flags)\<close>; \<open>appendageFlag\<close> is 3.\<close>

definition newTypeDef :: "addr option \<Rightarrow> string \<Rightarrow> bool \<Rightarrow> 32 word \<Rightarrow> obj" where
  "newTypeDef metaType nm ptr fl = blankObj\<lparr>kind := TypeObj, name := nm, deftype := metaType,
     canonicalName := nm, pointer := ptr, appendage := and fl 3 \<noteq> 0\<rparr>"

text \<open>\<open>OverloadDef(name)\<close> and \<open>FuncDef(flags, name, argCount)\<close>\<close>

definition newOverloadDef :: "string \<Rightarrow> obj" where
  "newOverloadDef nm = blankObj\<lparr>kind := OverloadObj, name := nm\<rparr>"

definition newFuncDef :: "32 word \<Rightarrow> string \<Rightarrow> (string \<times> addr) list \<Rightarrow> obj" where
  "newFuncDef fl nm ar = blankObj\<lparr>kind := FuncObj, name := nm, flags := fl, args := ar\<rparr>"

text \<open>\<open>ModuleDef(name, parent)\<close>\<close>

definition newModuleDef :: "string \<Rightarrow> addr option \<Rightarrow> obj" where
  "newModuleDef nm par = blankObj\<lparr>kind := ModuleObj, name := nm, canonicalName := nm,
     parents := (case par of None \<Rightarrow> [] | Some p \<Rightarrow> [p])\<rparr>"

text \<open>
  \<open>LocalNamespace(parent, cName)\<close>, whose name is qualified by the parent's, and
  \<open>GlobalNamespace\<close>, which derives from it.
\<close>

definition localName :: "store \<Rightarrow> addr option \<Rightarrow> string \<Rightarrow> string" where
  "localName h par cName = (case par of
     None \<Rightarrow> cName
   | Some p \<Rightarrow>
       if canonicalName (cell h p) \<noteq> [] then
         (if cName = [] then canonicalName (cell h p) else canonicalName (cell h p) @ ''.'' @ cName)
       else cName)"

definition newLocalNamespace :: "store \<Rightarrow> addr option \<Rightarrow> string \<Rightarrow> obj" where
  "newLocalNamespace h par cName = blankObj\<lparr>kind := LocalNS, canonicalName := localName h par cName,
     parents := (case par of None \<Rightarrow> [] | Some p \<Rightarrow> [p])\<rparr>"

definition newGlobalNamespace :: "store \<Rightarrow> addr option \<Rightarrow> string \<Rightarrow> obj" where
  "newGlobalNamespace h par cName = (newLocalNamespace h par cName)\<lparr>kind := GlobalNS\<rparr>"

text \<open>\<open>CompositeNamespace(parent0, parent1)\<close>\<close>

definition newCompositeNamespace :: "store \<Rightarrow> addr \<Rightarrow> addr \<Rightarrow> obj" where
  "newCompositeNamespace h p0 p1 = blankObj\<lparr>kind := CompositeNS,
     canonicalName := canonicalName (cell h p0), parents := [p0, p1]\<rparr>"

section \<open>Casts\<close>

abbreviation isType :: "store \<Rightarrow> addr \<Rightarrow> bool" where "isType h a \<equiv> kind (cell h a) = TypeObj"
abbreviation isModule :: "store \<Rightarrow> addr \<Rightarrow> bool" where "isModule h a \<equiv> kind (cell h a) = ModuleObj"
abbreviation isOverload :: "store \<Rightarrow> addr \<Rightarrow> bool" where "isOverload h a \<equiv> kind (cell h a) = OverloadObj"
abbreviation isFunc :: "store \<Rightarrow> addr \<Rightarrow> bool" where "isFunc h a \<equiv> kind (cell h a) = FuncObj"

text \<open>\<open>NamespacePtr::cast\<close>: the classes that derive from \<open>Namespace\<close>.\<close>

definition isNamespace :: "store \<Rightarrow> addr \<Rightarrow> bool" where
  "isNamespace h a \<longleftrightarrow> kind (cell h a) \<in> {TypeObj, ModuleObj, LocalNS, GlobalNS, CompositeNS}"

section \<open>Acyclic stores\<close>

text \<open>
  Three graphs of the store are walked recursively: the parents (of types, namespaces and
  overloads), the owners of definitions and namespaces, and both together when the module of a
  local namespace is looked up through its parent.
\<close>

definition parentGraph :: "store \<Rightarrow> addr \<Rightarrow> addr list" where
  "parentGraph h a = parents (cell h a)"

definition parents_ok :: "store \<Rightarrow> bool" where
  "parents_ok h \<longleftrightarrow> wf (edges (parentGraph h))"

text \<open>The namespace an object's module is looked up through: the owner of a type, the parent of a
  local or composite namespace, the owner of a module (for the real module).\<close>

definition outwards :: "store \<Rightarrow> addr \<Rightarrow> addr list" where
  "outwards h a = (case kind (cell h a) of
     TypeObj \<Rightarrow> (case owner (cell h a) of None \<Rightarrow> [] | Some w \<Rightarrow> [w])
   | ModuleObj \<Rightarrow> (case owner (cell h a) of None \<Rightarrow> [] | Some w \<Rightarrow> [w])
   | LocalNS \<Rightarrow> take 1 (parents (cell h a))
   | GlobalNS \<Rightarrow> take 1 (parents (cell h a))
   | CompositeNS \<Rightarrow> take 1 (parents (cell h a))
   | _ \<Rightarrow> [])"

definition owners_ok :: "store \<Rightarrow> bool" where
  "owners_ok h \<longleftrightarrow> wf (edges (outwards h))"

interpretation types: object_graph parentGraph parents_ok
  by unfold_locales (simp add: parents_ok_def)

interpretation scopes: object_graph outwards owners_ok
  by unfold_locales (simp add: owners_ok_def)

lemma parentGraph_mem [simp]: "set (parentGraph h t) = set (parents (cell h t))"
  by (simp add: parentGraph_def)

lemma reaches_parents:
  "reaches (parentGraph h) t b \<longleftrightarrow>
     t = b \<or> (\<exists>p \<in> set (parents (cell h t)). reaches (parentGraph h) p b)"
  using reaches_unfold [of "parentGraph h" t b] by simp

lemma parentGraph_upd [state_simps]:
  "parentGraph (upd a f h) = (parentGraph h)(a := parents (f (cell h a)))"
  by (auto simp: parentGraph_def state_simps)

lemma parents_ok_upd:
  "parents (f (cell h a)) = parents (cell h a) \<Longrightarrow> parents_ok (upd a f h) \<longleftrightarrow> parents_ok h"
  by (simp add: parents_ok_def state_simps) (metis fun_upd_triv parentGraph_def)

end
