(* ===== verification/Types.thy ===== *)
theory Types
  imports Objects
begin

text \<open>
  The class hierarchy (\<open>model/TypeDef.cc\<close>, \<open>model/TypeDef.h\<close>): base classes, derivation,
  the path from a class to an ancestor, the collection of all ancestors of a new class with the
  checks made on them, anchor classes of appendages and the number of vtable slots of a class.
  A class may have several base classes.
\<close>

section \<open>Operations\<close>

text \<open>The classes of the construct these operations compare with; a class not yet defined is null.\<close>

record coreTypes =
  vtableBaseType :: "addr option"
  objectType :: "addr option"

definition addBaseClass :: "addr \<Rightarrow> addr \<Rightarrow> store \<Rightarrow> store" where
  "addBaseClass this base h = upd this (\<lambda>t. t\<lparr>
     fieldCount := fieldCount t + 1, parents := parents t @ [base],
     hasVTable := (hasVTable (cell h base) \<or> hasVTable t)\<rparr>) h"

definition isParent :: "store \<Rightarrow> addr \<Rightarrow> addr \<Rightarrow> bool" where
  "isParent h this type \<longleftrightarrow> type \<in> set (parents (cell h this))"

partial_function (option) isDerivedFrom :: "store \<Rightarrow> addr \<Rightarrow> addr \<Rightarrow> bool option" where
  "isDerivedFrom h this other =
     (if this = other then Some True
      else anyM (\<lambda>p. isDerivedFrom h p other) (parents (cell h this)))"

partial_function (option) matches :: "store \<Rightarrow> addr \<Rightarrow> addr \<Rightarrow> bool option" where
  "matches h this other =
     (if other = this then Some True
      else anyM (\<lambda>p. matches h this p) (parents (cell h other)))"

text \<open>
  \<open>getPathToAncestor\<close> fills a vector of pairs of the index of a base class and the base class.
  At the ancestor the vector is resized to the depth reached, and each caller on the way back
  sets its element. \<open>searchM\<close> is the loop over the base classes: it stops at the first base that
  leads to the ancestor.
\<close>

type_synonym path = "(nat \<times> addr) list"

primrec searchM ::
  "('a \<Rightarrow> 's \<Rightarrow> (bool \<times> 's) option) \<Rightarrow> (nat \<Rightarrow> 'a \<Rightarrow> 's \<Rightarrow> 's) \<Rightarrow> nat \<Rightarrow> 'a list \<Rightarrow> 's \<Rightarrow> (bool \<times> 's) option"
where
  "searchM f found i [] s = Some (False, s)"
| "searchM f found i (x # xs) s = Option.bind (f x s) (\<lambda>(b, s').
     if b then Some (True, found i x s') else searchM f found (Suc i) xs s')"

lemma searchM_mono [partial_function_mono]:
  assumes "\<And>x s. mono_option (\<lambda>f. B f x s)"
  shows "mono_option (\<lambda>f. searchM (B f) found i xs s)"
proof (induction xs arbitrary: i s)
  case (Cons x xs)
  have "mono_option (\<lambda>f. case r of (b, s') \<Rightarrow>
      if b then Some (True, found i x s') else searchM (B f) found (Suc i) xs s')" for r
    by (cases r; cases "fst r") (simp_all add: Cons option.const_mono)
  then show ?case unfolding searchM.simps by (intro bind_mono assms)
qed (simp add: option.const_mono)

definition resize :: "nat \<Rightarrow> path \<Rightarrow> path" where
  "resize n p = take n p @ replicate (n - length p) (0, 0)"

partial_function (option) getPathToAncestor ::
  "store \<Rightarrow> addr \<Rightarrow> addr \<Rightarrow> path \<Rightarrow> nat \<Rightarrow> (bool \<times> path) option" where
  "getPathToAncestor h this ancestor path depth =
     (if this = ancestor then Some (True, resize depth path)
      else searchM (\<lambda>base p. getPathToAncestor h base ancestor p (depth + 1))
        (\<lambda>i base p. p[depth := (i, base)]) 0 (parents (cell h this)) path)"

text \<open>
  \<open>addToAncestors\<close> appends a class and all its ancestors to the list of the ancestors of a new
  class. The errors are those of the source, with the class they name.
\<close>

datatype ancestorError = PrimitiveClass addr | ObjectNotFirst | AlreadyAncestor addr

text \<open>A loop whose body may report an error.\<close>

primrec iterE :: "('a \<Rightarrow> 's \<Rightarrow> ('e + 's) option) \<Rightarrow> 'a list \<Rightarrow> 's \<Rightarrow> ('e + 's) option" where
  "iterE f [] s = Some (Inr s)"
| "iterE f (x # xs) s = Option.bind (f x s) (\<lambda>r. case r of Inl e \<Rightarrow> Some (Inl e) | Inr s' \<Rightarrow> iterE f xs s')"

lemma iterE_mono [partial_function_mono]:
  assumes "\<And>x s. mono_option (\<lambda>f. B f x s)"
  shows "mono_option (\<lambda>f. iterE (B f) xs s)"
proof (induction xs arbitrary: s)
  case (Cons x xs)
  have "mono_option (\<lambda>f. case r of Inl e \<Rightarrow> Some (Inl e) | Inr s' \<Rightarrow> iterE (B f) xs s')" for r
    by (cases r) (simp_all add: Cons option.const_mono)
  then show ?case unfolding iterE.simps by (intro bind_mono assms)
qed (simp add: option.const_mono)

partial_function (option) addToAncestors ::
  "coreTypes \<Rightarrow> store \<Rightarrow> addr \<Rightarrow> addr list \<Rightarrow> (ancestorError + addr list) option" where
  "addToAncestors c h this ancestors =
     (if Some this = vtableBaseType c then Some (Inr ancestors)
      else if \<not> pointer (cell h this) then Some (Inl (PrimitiveClass this))
      else if ancestors \<noteq> [] \<and> Some this = objectType c then Some (Inl ObjectNotFirst)
      else Option.bind (iterE (addToAncestors c h) (parents (cell h this)) ancestors)
        (\<lambda>r. case r of
           Inl e \<Rightarrow> Some (Inl e)
         | Inr anc \<Rightarrow>
             if this \<in> set (take (length ancestors) anc) then Some (Inl (AlreadyAncestor this))
             else Some (Inr (anc @ [this]))))"

text \<open>
  The anchor class of an appendage; \<open>Some None\<close> is the read of \<open>parents[0]\<close> of an appendage
  without base classes. \<open>getInstanceBases\<close> and \<open>countRootAncestors\<close> follow it.
\<close>

partial_function (option) getAnchorType :: "store \<Rightarrow> addr \<Rightarrow> addr option option" where
  "getAnchorType h cur =
     (if \<not> appendage (cell h cur) then Some (Some cur)
      else case parents (cell h cur) of [] \<Rightarrow> Some None | p # _ \<Rightarrow> getAnchorType h p)"

definition getInstanceBases :: "store \<Rightarrow> addr \<Rightarrow> addr list option option" where
  "getInstanceBases h this =
     (if appendage (cell h this) then map_option (map_option (\<lambda>a. [a])) (getAnchorType h this)
      else Some (Some (parents (cell h this))))"

primrec sumM :: "('a \<Rightarrow> nat option) \<Rightarrow> 'a list \<Rightarrow> nat option" where
  "sumM f [] = Some 0"
| "sumM f (x # xs) = Option.bind (f x) (\<lambda>n. Option.bind (sumM f xs) (\<lambda>m. Some (n + m)))"

lemma sumM_mono [partial_function_mono]:
  assumes "\<And>x. mono_option (\<lambda>f. B f x)"
  shows "mono_option (\<lambda>f. sumM (B f) xs)"
proof (induction xs)
  case (Cons x xs)
  then show ?case unfolding sumM.simps by (intro bind_mono assms option.const_mono)
qed (simp add: option.const_mono)

lemma sumM_total:
  "(\<And>x. x \<in> set xs \<Longrightarrow> f x = Some (g x)) \<Longrightarrow> sumM f xs = Some (sum_list (map g xs))"
  by (induction xs) auto

partial_function (option) countRootAncestors :: "store \<Rightarrow> addr \<Rightarrow> bool \<Rightarrow> nat option" where
  "countRootAncestors h this skipFirst =
     (if appendage (cell h this) then
        Option.bind (getAnchorType h this) (\<lambda>a. case a of
          None \<Rightarrow> None | Some anchor \<Rightarrow> countRootAncestors h anchor skipFirst)
      else sumM (\<lambda>p. Option.bind (countRootAncestors h p True) (\<lambda>n. Some (1 + n)))
        (if skipFirst then tl (parents (cell h this)) else parents (cell h this)))"

definition isImplicitFinal :: "string \<Rightarrow> bool" where
  "isImplicitFinal nm \<longleftrightarrow>
     nm = ''oper init'' \<or> nm = ''oper bind'' \<or> nm = ''oper release'' \<or> take 2 nm = ''__''"

text \<open>The name of a specialization of a generic.\<close>

fun joinTypes :: "string list \<Rightarrow> string" where
  "joinTypes [] = []"
| "joinTypes [t] = t"
| "joinTypes (t # ts) = t @ '','' @ joinTypes ts"

definition getSpecializedName :: "string \<Rightarrow> string list \<Rightarrow> string" where
  "getSpecializedName nm typeNames = nm @ ''['' @ joinTypes typeNames @ '']''"

section \<open>Derivation\<close>

lemma isDerivedFrom_reaches:
  "parents_ok h \<Longrightarrow> isDerivedFrom h a b = Some (reaches (parentGraph h) a b)"
  by (drule types.search_decides [where P = "\<lambda>a. a = b"], unfold parentGraph_def,
      rule isDerivedFrom.simps) simp

lemma matches_reaches:
  "parents_ok h \<Longrightarrow> matches h b a = Some (reaches (parentGraph h) a b)"
  by (drule types.search_decides [where P = "\<lambda>a. a = b"], unfold parentGraph_def,
      rule matches.simps) simp

text \<open>
  C16. The two recursive tests of the class hierarchy return on every acyclic hierarchy, and both
  decide the same relation: \<open>a->isDerivedFrom(b)\<close> and \<open>b->matches(a)\<close> hold exactly when \<open>b\<close> is
  \<open>a\<close> or one of its direct or indirect base classes.
\<close>

theorem isDerivedFrom_decides:
  assumes "parents_ok h"
  shows "isDerivedFrom h a b = Some ((a, b) \<in> {(t, p). isParent h t p}\<^sup>*) \<and>
    matches h b a = isDerivedFrom h a b"
proof -
  have "{(t, p). isParent h t p} = (edges (parentGraph h))\<inverse>"
    by (auto simp: isParent_def edges_def parentGraph_def)
  then have "(a, b) \<in> {(t, p). isParent h t p}\<^sup>* \<longleftrightarrow> reaches (parentGraph h) a b"
    by (simp add: reaches_def rtrancl_converse)
  then show ?thesis using isDerivedFrom_reaches [OF assms] matches_reaches [OF assms] by simp
qed

text \<open>A hierarchy with a diamond: 3 derives from 1 and 2, which derive from 0.\<close>

definition diamond :: store where
  "diamond = \<lparr>cell = (\<lambda>a. (newTypeDef None [] True 0)\<lparr>parents :=
     (if a = 1 \<or> a = 2 then [0] else if a = 3 then [1, 2] else [])\<rparr>), nextAddr = 4\<rparr>"

lemma diamond_ok: "parents_ok diamond"
  unfolding parents_ok_def
  by (rule wf_by_rank [where r = id]) (auto simp: diamond_def parentGraph_def split: if_splits)

lemma isDerivedFrom_decides_witness:
  "isDerivedFrom diamond 3 0 = Some True \<and> matches diamond 0 3 = Some True"
proof -
  have "(3, 1) \<in> {(t, p). isParent diamond t p}" "(1, 0) \<in> {(t, p). isParent diamond t p}"
    by (simp_all add: isParent_def diamond_def)
  then have "(3, 0) \<in> {(t, p). isParent diamond t p}\<^sup>*" by (meson rtrancl.simps)
  then show ?thesis using isDerivedFrom_decides [OF diamond_ok, of 3 0] by simp
qed

text \<open>
  Adding a base class keeps the hierarchy acyclic when the base is not derived from the class,
  which the parser makes sure of by refusing forward declared classes as bases.
\<close>

lemma addBaseClass_ok:
  assumes "parents_ok h" and "\<not> reaches (parentGraph h) base this"
  shows "parents_ok (addBaseClass this base h)"
proof -
  have "parentGraph (addBaseClass this base h) =
      (parentGraph h)(this := parentGraph h this @ [base])"
    by (simp add: addBaseClass_def state_simps) (simp add: parentGraph_def)
  then show ?thesis using wf_add_parent [of "parentGraph h" base this] assms
    by (simp add: parents_ok_def)
qed

section \<open>Paths to ancestors\<close>

fun is_path :: "store \<Rightarrow> addr \<Rightarrow> path \<Rightarrow> addr \<Rightarrow> bool" where
  "is_path h t [] anc \<longleftrightarrow> t = anc"
| "is_path h t ((i, b) # p) anc \<longleftrightarrow>
     i < length (parents (cell h t)) \<and> parents (cell h t) ! i = b \<and> is_path h b p anc"

lemma is_path_reaches: "is_path h t p anc \<Longrightarrow> reaches (parentGraph h) t anc"
proof (induction h t p anc rule: is_path.induct)
  case (2 h t i b p anc)
  then have "b \<in> set (parentGraph h t)" by (auto simp: parentGraph_def)
  moreover from 2 have "reaches (parentGraph h) b anc" by simp
  ultimately show ?case by (rule reaches_step)
qed simp

lemma length_resize [simp]: "length (resize n p) = n"
  by (simp add: resize_def)

lemma resize_Suc_update: "(resize (Suc d) p @ q)[d := x] = resize d p @ x # q"
proof -
  have "resize (Suc d) p = resize d p @ [if d < length p then p ! d else (0, 0)]"
    by (simp add: resize_def take_Suc_conv_app_nth Suc_diff_le replicate_append_same)
  then show ?thesis by (simp add: list_update_append)
qed

lemma searchM_total:
  assumes "\<And>x. x \<in> set xs \<Longrightarrow> f x s = Some (if P x then (True, g x) else (False, s))"
  shows "(if \<exists>x \<in> set xs. P x
     then \<exists>j < length xs. P (xs ! j) \<and> (\<forall>k < j. \<not> P (xs ! k)) \<and>
       searchM f found i xs s = Some (True, found (i + j) (xs ! j) (g (xs ! j)))
     else searchM f found i xs s = Some (False, s))"
  using assms
proof (induction xs arbitrary: i)
  case (Cons x xs)
  show ?case
  proof (cases "P x")
    case True
    then have "0 < length (x # xs) \<and> P ((x # xs) ! 0) \<and> (\<forall>k < 0. \<not> P ((x # xs) ! k)) \<and>
        searchM f found i (x # xs) s = Some (True, found (i + 0) ((x # xs) ! 0) (g ((x # xs) ! 0)))"
      using Cons.prems [of x] by simp
    moreover have "\<exists>y \<in> set (x # xs). P y" using True by simp
    ultimately show ?thesis by (simp only: if_True) blast
  next
    case False
    have IH: "if \<exists>x \<in> set xs. P x
       then \<exists>j < length xs. P (xs ! j) \<and> (\<forall>k < j. \<not> P (xs ! k)) \<and>
         searchM f found (Suc i) xs s = Some (True, found (Suc i + j) (xs ! j) (g (xs ! j)))
       else searchM f found (Suc i) xs s = Some (False, s)"
      by (rule Cons.IH) (use Cons.prems in simp)
    have step: "searchM f found i (x # xs) s = searchM f found (Suc i) xs s"
      using False Cons.prems [of x] by simp
    show ?thesis
    proof (cases "\<exists>x \<in> set xs. P x")
      case True
      with IH obtain j where j: "j < length xs" "P (xs ! j)" "\<forall>k < j. \<not> P (xs ! k)"
        "searchM f found (Suc i) xs s = Some (True, found (Suc i + j) (xs ! j) (g (xs ! j)))"
        by auto
      with False have "\<forall>k < Suc j. \<not> P ((x # xs) ! k)" by (auto simp: less_Suc_eq_0_disj)
      with j step have "Suc j < length (x # xs) \<and> P ((x # xs) ! Suc j) \<and>
          (\<forall>k < Suc j. \<not> P ((x # xs) ! k)) \<and> searchM f found i (x # xs) s =
          Some (True, found (i + Suc j) ((x # xs) ! Suc j) (g ((x # xs) ! Suc j)))"
        by simp
      moreover have "\<exists>y \<in> set (x # xs). P y" using True by simp
      ultimately show ?thesis by (simp only: if_True) blast
    qed (use IH step False in auto)
  qed
qed simp


text \<open>
  What a search from \<open>t\<close> at depth \<open>d\<close> returns: it finds the ancestor when there is one, leaves the
  elements before \<open>d\<close>, and adds a path that comes first in the order of the base classes.
\<close>

definition leftmost :: "store \<Rightarrow> addr \<Rightarrow> path \<Rightarrow> addr \<Rightarrow> bool" where
  "leftmost h t q anc \<longleftrightarrow> is_path h t q anc \<and>
     (\<forall>q'. is_path h t q' anc \<longrightarrow> map fst q \<le> map fst q')"

lemma leftmost_step:
  assumes ne: "t \<noteq> anc" and j: "j < length (parents (cell h t))"
    and first: "\<forall>k < j. \<not> reaches (parentGraph h) (parents (cell h t) ! k) anc"
    and q: "leftmost h (parents (cell h t) ! j) q anc"
  shows "leftmost h t ((j, parents (cell h t) ! j) # q) anc"
proof -
  have "map fst ((j, parents (cell h t) ! j) # q) \<le> map fst q'" if p: "is_path h t q' anc" for q'
  proof -
    from p ne obtain i b r where q': "q' = (i, b) # r" by (cases q') auto
    with p have i: "parents (cell h t) ! i = b" "is_path h b r anc" by simp_all
    then have "reaches (parentGraph h) (parents (cell h t) ! i) anc" using is_path_reaches by simp
    with first have "j \<le> i" using linorder_le_less_linear by blast
    then consider "j < i" | "j = i" by linarith
    then show ?thesis
    proof cases
      case 2
      then have "map fst q \<le> map fst r" using q i by (simp add: leftmost_def)
      then show ?thesis using 2 q' by simp
    qed (simp add: q')
  qed
  then show ?thesis using j q by (simp add: leftmost_def)
qed

lemma getPathToAncestor_spec:
  assumes ok: "parents_ok h"
  shows "if reaches (parentGraph h) t anc
    then \<exists>q. getPathToAncestor h t anc p d = Some (True, resize d p @ q) \<and> leftmost h t q anc
    else getPathToAncestor h t anc p d = Some (False, p)"
  using ok
proof (induction t arbitrary: p d rule: types.graph_induct)
  case (node t)
  show ?case
  proof (cases "t = anc")
    case True
    then have "leftmost h t [] anc" by (simp add: leftmost_def)
    moreover have "getPathToAncestor h t anc p d = Some (True, resize d p @ [])"
      using True by (subst getPathToAncestor.simps) simp
    ultimately show ?thesis using True by auto
  next
    case False
    let ?R = "\<lambda>b. reaches (parentGraph h) b anc"
    define g where "g = (\<lambda>b. resize (Suc d) p @
      (SOME q. getPathToAncestor h b anc p (Suc d) = Some (True, resize (Suc d) p @ q) \<and> leftmost h b q anc))"
    have body: "getPathToAncestor h b anc p (Suc d) = Some (if ?R b then (True, g b) else (False, p))"
      and left: "?R b \<Longrightarrow> \<exists>q. g b = resize (Suc d) p @ q \<and> leftmost h b q anc"
      if "b \<in> set (parents (cell h t))" for b
    proof -
      from that have "b \<in> set (parentGraph h t)" by (simp add: parentGraph_def)
      from node [OF this, of p "Suc d"] have n: "if ?R b
        then \<exists>q. getPathToAncestor h b anc p (Suc d) = Some (True, resize (Suc d) p @ q) \<and> leftmost h b q anc
        else getPathToAncestor h b anc p (Suc d) = Some (False, p)" .
      have some: "getPathToAncestor h b anc p (Suc d) = Some (True, g b) \<and>
          (\<exists>q. g b = resize (Suc d) p @ q \<and> leftmost h b q anc)" if "?R b"
      proof -
        from n that have "\<exists>q. getPathToAncestor h b anc p (Suc d) = Some (True, resize (Suc d) p @ q) \<and>
            leftmost h b q anc" by simp
        from someI_ex [OF this] show ?thesis unfolding g_def by blast
      qed
      then show "getPathToAncestor h b anc p (Suc d) = Some (if ?R b then (True, g b) else (False, p))"
        using n by (cases "?R b") simp_all
      from some show "?R b \<Longrightarrow> \<exists>q. g b = resize (Suc d) p @ q \<and> leftmost h b q anc" by blast
    qed
    have unfold: "getPathToAncestor h t anc p d =
        searchM (\<lambda>base p. getPathToAncestor h base anc p (Suc d)) (\<lambda>i base p. p[d := (i, base)]) 0
          (parents (cell h t)) p"
      using False by (subst getPathToAncestor.simps) simp
    have reach: "?R t \<longleftrightarrow> (\<exists>b \<in> set (parents (cell h t)). ?R b)"
      using False reaches_unfold [of "parentGraph h" t anc] by (simp add: parentGraph_def)
    note search = searchM_total [of "parents (cell h t)" "\<lambda>base p. getPathToAncestor h base anc p (Suc d)"
        p ?R g "\<lambda>i base p. p[d := (i, base)]" 0, OF body]
    show ?thesis
    proof (cases "\<exists>b \<in> set (parents (cell h t)). ?R b")
      case True
      with search obtain j where j: "j < length (parents (cell h t))" "?R (parents (cell h t) ! j)"
        "\<forall>k < j. \<not> ?R (parents (cell h t) ! k)" "getPathToAncestor h t anc p d =
          Some (True, (g (parents (cell h t) ! j))[d := (j, parents (cell h t) ! j)])"
        unfolding unfold by auto
      from left [of "parents (cell h t) ! j"] j obtain q where
        q: "g (parents (cell h t) ! j) = resize (Suc d) p @ q" "leftmost h (parents (cell h t) ! j) q anc"
        by auto
      have "getPathToAncestor h t anc p d = Some (True, resize d p @ (j, parents (cell h t) ! j) # q)"
        using j(4) q(1) resize_Suc_update by simp
      with leftmost_step [OF False j(1) j(3) q(2)] True reach show ?thesis by (simp only: if_True) blast
    qed (use search unfold reach in auto)
  qed
qed

text \<open>
  C17. \<open>getPathToAncestor\<close> returns, finds a path exactly when the class is derived from the
  ancestor, and what it leaves in the vector is a path of base-class indices and classes that
  leads from the class to the ancestor, the first one in the order of the base classes.
\<close>

theorem getPathToAncestor_path:
  assumes "parents_ok h"
  shows "\<exists>found q. getPathToAncestor h t anc p 0 = Some (found, q) \<and>
    isDerivedFrom h t anc = Some found \<and>
    (found \<longrightarrow> is_path h t q anc \<and> (\<forall>q'. is_path h t q' anc \<longrightarrow> map fst q \<le> map fst q'))"
  using getPathToAncestor_spec [OF assms, of t anc p 0] isDerivedFrom_reaches [OF assms, of t anc]
  by (cases "reaches (parentGraph h) t anc") (auto simp: leftmost_def resize_def)

lemma getPathToAncestor_path_witness:
  "getPathToAncestor diamond 3 0 [] 0 = Some (True, [(0, 1), (0, 0)]) \<and>
   (\<exists>found q. getPathToAncestor diamond 3 0 [] 0 = Some (found, q) \<and> is_path diamond 3 q 0)"
proof -
  have "getPathToAncestor diamond 3 0 [] 0 = Some (True, [(0, 1), (0, 0)])"
    by (simp add: getPathToAncestor.simps diamond_def resize_def)
  then show ?thesis using getPathToAncestor_path [OF diamond_ok, of 3 0 "[]"]
    isDerivedFrom_reaches [OF diamond_ok, of 3 0] by auto
qed

end
