(* ===== verification/Ancestors.thy ===== *)
theory Ancestors
  imports Types
begin

text \<open>
  The collection of the ancestors of a new class (\<open>TypeDef::addToAncestors\<close>): what it accepts,
  and which classes its errors name.
\<close>

section \<open>The lineage of a class\<close>

text \<open>
  The lineage of a class lists it and all its ancestors but \<open>VTableBase\<close>, bases before derived
  classes, in the order in which the compiler lays them out. A class inherited along two paths
  is listed twice.
\<close>

partial_function (option) walk :: "coreTypes \<Rightarrow> store \<Rightarrow> addr \<Rightarrow> addr list option" where
  "walk c h t =
     (if Some t = vtableBaseType c then Some []
      else Option.bind (concatM (walk c h) (parents (cell h t))) (\<lambda>xs. Some (xs @ [t])))"

definition lineage :: "coreTypes \<Rightarrow> store \<Rightarrow> addr \<Rightarrow> addr list" where
  "lineage c h t = the (walk c h t)"

lemma walk_lineage: "parents_ok h \<Longrightarrow> walk c h t = Some (lineage c h t)"
proof (induction t rule: types.graph_induct)
  case (node t)
  have "concatM (walk c h) (parents (cell h t)) = Some (concat (map (lineage c h) (parents (cell h t))))"
    by (rule concatM_total) (use node in \<open>simp add: parentGraph_def\<close>)
  then show ?case by (simp add: lineage_def walk.simps [of c h t])
qed

lemma lineage_unfold:
  assumes "parents_ok h"
  shows "lineage c h t = (if Some t = vtableBaseType c then []
    else concat (map (lineage c h) (parents (cell h t))) @ [t])"
proof -
  have "concatM (walk c h) (parents (cell h t)) = Some (concat (map (lineage c h) (parents (cell h t))))"
    by (rule concatM_total) (rule walk_lineage [OF assms])
  then show ?thesis by (simp add: lineage_def [of c h t] walk.simps [of c h t])
qed

lemma lineage_reaches:
  assumes ok: "parents_ok h" and "x \<in> set (lineage c h t)"
  shows "reaches (parentGraph h) t x"
  using ok assms(2)
proof (induction t rule: types.graph_induct)
  case (node t)
  show ?case
  proof (cases "x = t")
    case False
    with node.prems lineage_unfold [OF ok, of c t] obtain p where
      p: "p \<in> set (parents (cell h t))" "x \<in> set (lineage c h p)"
      by (auto split: if_splits)
    then have "p \<in> set (parentGraph h t)" by (simp add: parentGraph_def)
    with node.IH [OF this p(2)] show ?thesis by (rule reaches_step [rotated])
  qed simp
qed

lemma not_in_parents_lineage:
  "parents_ok h \<Longrightarrow> t \<notin> set (concat (map (lineage c h) (parents (cell h t))))"
  using types.no_self_parent [of h _ t] lineage_reaches [of h t c]
  by (auto simp: parentGraph_def)

section \<open>What is accepted\<close>

text \<open>
  A list of classes may follow the ancestors collected before it when no class occurs twice, all
  of them are instances of objects, and \<open>Object\<close>, if it is among them, is the first ancestor.
\<close>

definition accepted :: "coreTypes \<Rightarrow> store \<Rightarrow> addr list \<Rightarrow> addr list \<Rightarrow> bool" where
  "accepted c h anc xs \<longleftrightarrow> distinct (anc @ xs) \<and> (\<forall>x \<in> set xs. pointer (cell h x)) \<and>
     (\<forall>ob \<in> set xs. objectType c = Some ob \<longrightarrow> hd (anc @ xs) = ob)"

text \<open>What an error says about the classes.\<close>

fun rejected :: "coreTypes \<Rightarrow> store \<Rightarrow> addr list \<Rightarrow> addr list \<Rightarrow> ancestorError \<Rightarrow> bool" where
  "rejected c h anc xs (PrimitiveClass x) \<longleftrightarrow> x \<in> set xs \<and> \<not> pointer (cell h x)"
| "rejected c h anc xs ObjectNotFirst \<longleftrightarrow>
     (\<exists>ob \<in> set xs. objectType c = Some ob \<and>
        (hd (anc @ xs) \<noteq> ob \<or> 2 \<le> count_list (anc @ xs) ob))"
| "rejected c h anc xs (AlreadyAncestor x) \<longleftrightarrow> x \<in> set xs \<and> 2 \<le> count_list (anc @ xs) x"

definition outcome :: "coreTypes \<Rightarrow> store \<Rightarrow> addr list \<Rightarrow> addr list \<Rightarrow> ancestorError + addr list \<Rightarrow> bool" where
  "outcome c h anc xs r \<longleftrightarrow> (case r of
     Inr l \<Rightarrow> l = anc @ xs \<and> accepted c h anc xs
   | Inl e \<Rightarrow> rejected c h anc xs e)"

lemma count_list_distinct: "distinct xs \<Longrightarrow> count_list xs x \<le> 1"
  by (induction xs) (auto simp: count_list_0_iff)

lemma rejected_not_accepted: "rejected c h anc xs e \<Longrightarrow> \<not> accepted c h anc xs"
proof
  assume "rejected c h anc xs e" and acc: "accepted c h anc xs"
  moreover have "\<not> 2 \<le> count_list (anc @ xs) x" for x
    using acc count_list_distinct [of "anc @ xs" x] by (simp add: accepted_def)
  ultimately show False by (cases e) (auto simp: accepted_def)
qed

lemma rejected_extend: "rejected c h anc xs e \<Longrightarrow> rejected c h anc (xs @ ys) e"
proof (cases e)
  case ObjectNotFirst
  moreover assume "rejected c h anc xs e"
  ultimately obtain ob where ob: "ob \<in> set xs" "objectType c = Some ob"
    "hd (anc @ xs) \<noteq> ob \<or> 2 \<le> count_list (anc @ xs) ob" by auto
  then have "anc @ xs \<noteq> []" by auto
  then have "hd (anc @ xs @ ys) = hd (anc @ xs)" by (metis append_assoc hd_append)
  with ob ObjectNotFirst show ?thesis by auto
qed auto

lemma rejected_shift: "rejected c h (anc @ xs) ys e \<Longrightarrow> rejected c h anc (xs @ ys) e"
  by (cases e) auto

lemma accepted_append:
  assumes "accepted c h anc xs" and "accepted c h (anc @ xs) ys"
  shows "accepted c h anc (xs @ ys)"
proof -
  have "hd (anc @ xs @ ys) = hd (anc @ xs)" if "ob \<in> set xs" for ob
    using that by (cases anc) (auto simp: hd_append)
  then show ?thesis using assms by (auto simp: accepted_def)
qed

lemma iterE_outcome:
  assumes "\<And>p a. p \<in> set ps \<Longrightarrow> distinct a \<Longrightarrow> \<exists>r. f p a = Some r \<and> outcome c h a (g p) r"
    and "distinct anc"
  shows "\<exists>r. iterE f ps anc = Some r \<and> outcome c h anc (concat (map g ps)) r"
  using assms
proof (induction ps arbitrary: anc)
  case Nil
  then show ?case by (simp add: outcome_def accepted_def)
next
  case (Cons p ps)
  then obtain r where r: "f p anc = Some r" "outcome c h anc (g p) r" by force
  show ?case
  proof (cases r)
    case (Inl e)
    then show ?thesis using r rejected_extend [of c h anc "g p" e "concat (map g ps)"]
      by (simp add: outcome_def)
  next
    case (Inr l)
    with r(2) have l: "l = anc @ g p" "accepted c h anc (g p)" by (simp_all add: outcome_def)
    then have "distinct l" by (simp add: accepted_def)
    from Cons.IH [OF Cons.prems(1) this] obtain r' where
      r': "iterE f ps l = Some r'" "outcome c h l (concat (map g ps)) r'" by auto
    have "outcome c h anc (concat (map g (p # ps))) r'"
      using r'(2) l accepted_append [of c h anc "g p" "concat (map g ps)"]
        rejected_shift [of c h anc "g p" "concat (map g ps)"]
      by (auto simp: outcome_def split: sum.splits)
    then show ?thesis using r(1) r'(1) Inr by simp
  qed
qed

text \<open>\<open>Object\<close> derives from nothing but \<open>VTableBase\<close>.\<close>

definition object_root :: "coreTypes \<Rightarrow> store \<Rightarrow> bool" where
  "object_root c h \<longleftrightarrow> (\<forall>ob. objectType c = Some ob \<longrightarrow>
     (\<forall>p \<in> set (parents (cell h ob)). vtableBaseType c = Some p))"

lemma lineage_object:
  assumes "parents_ok h" and "object_root c h" and "objectType c = Some ob"
    and "vtableBaseType c \<noteq> Some ob"
  shows "lineage c h ob = [ob]"
proof -
  have "lineage c h p = []" if "p \<in> set (parents (cell h ob))" for p
    using that assms lineage_unfold [OF assms(1), of c p] by (auto simp: object_root_def)
  then have "concat (map (lineage c h) (parents (cell h ob))) = []" by simp
  then show ?thesis using assms(4) lineage_unfold [OF assms(1), of c ob] by auto
qed

lemma addToAncestors_outcome:
  assumes ok: "parents_ok h" and root: "object_root c h" and "distinct anc"
  shows "\<exists>r. addToAncestors c h t anc = Some r \<and> outcome c h anc (lineage c h t) r"
  using ok assms(3)
proof (induction t arbitrary: anc rule: types.graph_induct)
  case (node t)
  note dist = node.prems
  let ?ps = "concat (map (lineage c h) (parents (cell h t)))"
  consider "Some t = vtableBaseType c" | "Some t \<noteq> vtableBaseType c" "\<not> pointer (cell h t)" |
    "Some t \<noteq> vtableBaseType c" "pointer (cell h t)" "anc \<noteq> []" "Some t = objectType c" |
    "Some t \<noteq> vtableBaseType c" "pointer (cell h t)" "anc = [] \<or> Some t \<noteq> objectType c"
    by blast
  then show ?case
  proof cases
    case 1
    then show ?thesis using dist lineage_unfold [OF ok, of c t]
      by (simp add: addToAncestors.simps [of c h t] outcome_def accepted_def)
  next
    case 2
    then show ?thesis using lineage_unfold [OF ok, of c t]
      by (simp add: addToAncestors.simps [of c h t] outcome_def)
  next
    case 3
    then have "lineage c h t = [t]" using lineage_object [OF ok root, of t] by simp
    with 3 show ?thesis
      by (cases anc) (auto simp: addToAncestors.simps [of c h t] outcome_def)
  next
    case 4
    have lin: "lineage c h t = ?ps @ [t]" using 4 lineage_unfold [OF ok, of c t] by simp
    have "\<exists>r. addToAncestors c h p a = Some r \<and> outcome c h a (lineage c h p) r"
      if "p \<in> set (parents (cell h t))" and "distinct a" for p a
      using node.IH [of p a] that by (simp add: parentGraph_def)
    from iterE_outcome [of "parents (cell h t)" "addToAncestors c h" c h "lineage c h", OF this dist]
    obtain r where r: "iterE (addToAncestors c h) (parents (cell h t)) anc = Some r"
      "outcome c h anc ?ps r" by auto
    show ?thesis
    proof (cases r)
      case (Inl e)
      have "addToAncestors c h t anc = Some (Inl e)"
        using 4 r(1) Inl by (auto simp: addToAncestors.simps [of c h t])
      then show ?thesis using r(2) Inl rejected_extend [of c h anc ?ps e "[t]"] lin
        by (simp add: outcome_def)
    next
      case (Inr l)
      with r(2) have l: "l = anc @ ?ps" "accepted c h anc ?ps" by (simp_all add: outcome_def)
      have t: "t \<notin> set ?ps" using not_in_parents_lineage [OF ok] .
      have res: "addToAncestors c h t anc =
          (if t \<in> set anc then Some (Inl (AlreadyAncestor t)) else Some (Inr (anc @ ?ps @ [t])))"
        using 4 r(1) Inr l(1) by (auto simp: addToAncestors.simps [of c h t])
      show ?thesis
      proof (cases "t \<in> set anc")
        case True
        then have "1 \<le> count_list anc t" using count_list_0_iff [of anc t] by linarith
        with True show ?thesis using res lin by (simp add: outcome_def)
      next
        case False
        have "accepted c h (anc @ ?ps) [t]"
        proof -
          have "lineage c h t = [t]" if "objectType c = Some t"
            using that 4 lineage_object [OF ok root, of t] by simp
          then have "?ps = []" if "objectType c = Some t" using that lin by simp
          then have "hd (anc @ ?ps @ [t]) = t" if "objectType c = Some t"
            using that 4 by (simp only: append_Nil list.sel) auto
          then show ?thesis using 4 False t l(2) by (simp add: accepted_def)
        qed
        from accepted_append [OF l(2) this] show ?thesis using res False lin by (simp add: outcome_def)
      qed
    qed
  qed
qed

text \<open>
  C18. \<open>addToAncestors\<close> accepts a base class exactly when, in the whole lineage the new class
  gets, no class is inherited twice, none is primitive, and \<open>Object\<close> comes first if it occurs;
  it then appends the lineage, bases before derived classes. Otherwise it reports a class of
  the lineage that breaks one of these rules: one that is primitive, one that occurs twice
  among the ancestors collected and the lineage, or \<open>Object\<close> that is not first or occurs twice.
\<close>

theorem addToAncestors_accepts:
  assumes "parents_ok h" and "object_root c h" and "distinct anc"
  shows "addToAncestors c h t anc = Some (Inr (anc @ lineage c h t)) \<and> accepted c h anc (lineage c h t) \<or>
    (\<exists>e. addToAncestors c h t anc = Some (Inl e) \<and> \<not> accepted c h anc (lineage c h t) \<and>
      rejected c h anc (lineage c h t) e)"
proof -
  from addToAncestors_outcome [OF assms, of t] obtain r where
    r: "addToAncestors c h t anc = Some r" "outcome c h anc (lineage c h t) r" by blast
  show ?thesis
  proof (cases r)
    case (Inl e)
    then show ?thesis using r rejected_not_accepted [of c h anc "lineage c h t" e]
      by (simp add: outcome_def)
  qed (use r in \<open>simp add: outcome_def\<close>)
qed

lemma addToAncestors_accepts_witness:
  "\<exists>e. addToAncestors \<lparr>vtableBaseType = None, objectType = None\<rparr> diamond 3 [] = Some (Inl e)"
proof -
  have "addToAncestors \<lparr>vtableBaseType = None, objectType = None\<rparr> diamond 3 [] =
      Some (Inl (AlreadyAncestor 0))"
    by (simp add: addToAncestors.simps diamond_def newTypeDef_def)
  then show ?thesis
    using addToAncestors_accepts [OF diamond_ok, of "\<lparr>vtableBaseType = None, objectType = None\<rparr>" "[]" 3]
    by (auto simp: object_root_def)
qed

end
