(* ===== verification/VTables.thy ===== *)
theory VTables
  imports Ancestors
begin

text \<open>
  The vtables of a class (\<open>builder/llvm/VTableBuilder.cc\<close> and the callers in
  \<open>builder/llvm/BTypeDef.cc\<close>). A class has one vtable for every class of its hierarchy that
  derives directly from \<open>VTableBase\<close>, and an array of the vtable and the offset of each of its
  instance bases. The constants of LLVM are reduced to what distinguishes them: the vtable
  variable of a class, a function, a null pointer and an offset. The layout of the instances is
  LLVM's: \<open>parentOffset t i\<close>, the offset of the \<open>i\<close>th base in an instance of \<open>t\<close>, is a parameter.
\<close>

section \<open>State and errors\<close>

datatype vconst = VTableVar addr | NullPtr | FuncRep addr | Offset int

record vtableInfo =
  vname :: string
  entries :: "vconst option list"

record vtableBuilder =
  vtables :: "(addr, vtableInfo) stdmap"
  firstVTable :: "addr option"

text \<open>
  The failed checks and assertions of the source; \<open>BadEntry\<close> is the use of an iterator at the
  end of the map, \<open>OutOfBounds\<close> an access past the end of a vector.
\<close>

datatype vtableError = NotFirstParent addr | MissingVTable addr | NoVTableRoot addr
  | VTableExists addr | NoFirstVTable | NullEntry addr
  | StructSize string | FillMismatch | BadEntry addr | OutOfBounds

section \<open>Finding and creating vtables\<close>

text \<open>The first class of the hierarchy that derives from \<open>VTableBase\<close>; \<open>Some None\<close> is the failed check.\<close>

partial_function (option) findFirstVTable :: "addr \<Rightarrow> store \<Rightarrow> addr \<Rightarrow> addr option option" where
  "findFirstVTable vtb h this =
     (if this = vtb then Some (Some this)
      else case List.find (\<lambda>p. p = vtb \<or> hasVTable (cell h p)) (parents (cell h this)) of
        None \<Rightarrow> Some None
      | Some p \<Rightarrow> if p = vtb then Some (Some this) else findFirstVTable vtb h p)"

definition createVTable ::
  "addr \<Rightarrow> string \<Rightarrow> bool \<Rightarrow> vtableBuilder \<Rightarrow> vtableError + vtableBuilder" where
  "createVTable type nm first v =
     (if map_of (vtables v) type \<noteq> None then Inl (VTableExists type)
      else Inr (v\<lparr>vtables := mapSet type \<lparr>vname = nm, entries = []\<rparr> (vtables v),
                  firstVTable := (if first then Some type else firstVTable v)\<rparr>))"

text \<open>\<open>accomodate\<close> and the store of the function in its slot\<close>

definition setEntry :: "nat \<Rightarrow> vconst \<Rightarrow> vtableInfo \<Rightarrow> vtableInfo" where
  "setEntry slot c info = info\<lparr>entries :=
     (entries info @ replicate (slot + 1 - length (entries info)) None)[slot := Some c]\<rparr>"

text \<open>The slot of a virtual function is a member of the function; \<open>slotOf\<close> reads it.\<close>

definition addToAncestor ::
  "(addr \<Rightarrow> nat) \<Rightarrow> addr \<Rightarrow> addr \<Rightarrow> vtableBuilder \<Rightarrow> vtableError + vtableBuilder" where
  "addToAncestor slotOf ancestor func v =
     (case (if map_of (vtables v) ancestor = None then firstVTable v else Some ancestor) of
        None \<Rightarrow> Inl NoFirstVTable
      | Some target \<Rightarrow>
          (case map_of (vtables v) target of
             None \<Rightarrow> Inl (BadEntry target)
           | Some info \<Rightarrow> Inr (v\<lparr>vtables :=
               mapSet target (setEntry (slotOf func) (FuncRep func) info) (vtables v)\<rparr>)))"

definition addToAll :: "(addr \<Rightarrow> nat) \<Rightarrow> addr \<Rightarrow> vtableBuilder \<Rightarrow> vtableBuilder" where
  "addToAll slotOf func v = v\<lparr>vtables :=
     map (\<lambda>(t, info). (t, setEntry (slotOf func) (FuncRep func) info)) (vtables v)\<rparr>"

text \<open>\<open>VTableBuilder::add\<close>\<close>

definition addFuncToVTables ::
  "addr \<Rightarrow> (addr \<Rightarrow> nat) \<Rightarrow> store \<Rightarrow> addr \<Rightarrow> vtableBuilder \<Rightarrow> (vtableError + vtableBuilder) option"
where
  "addFuncToVTables vtb slotOf h func v =
     (case receiverType (cell h func) of
        None \<Rightarrow> Some (Inl (NoVTableRoot func))
      | Some curType \<Rightarrow> Option.bind (findFirstVTable vtb h curType) (\<lambda>r. case r of
            None \<Rightarrow> Some (Inl (NoVTableRoot curType))
          | Some ancestor \<Rightarrow>
              if ancestor = vtb then Some (Inr (addToAll slotOf func v))
              else Some (addToAncestor slotOf ancestor func v)))"

text \<open>
  \<open>extendVTables\<close>: the virtual functions a class defines itself, taken from its overloads, which
  are stored under the name of the functions unless the function is an alias.
\<close>

definition isVirtual :: "store \<Rightarrow> addr \<Rightarrow> bool" where
  "isVirtual h f \<longleftrightarrow> and (flags (cell h f)) 2 \<noteq> 0"

definition ownVirtuals :: "store \<Rightarrow> addr \<Rightarrow> addr list" where
  "ownVirtuals h this = concat (map (\<lambda>(_, d).
     if isFunc h d \<and> isVirtual h d then [d]
     else if isOverload h d then
       filter (\<lambda>f. isVirtual h f \<and> name (cell h f) = name (cell h d)) (funcs (cell h d))
     else []) (defs (cell h this)))"

definition extendVTables ::
  "addr \<Rightarrow> (addr \<Rightarrow> nat) \<Rightarrow> store \<Rightarrow> addr \<Rightarrow> vtableBuilder \<Rightarrow> (vtableError + vtableBuilder) option"
where
  "extendVTables vtb slotOf h this v =
     iterE (addFuncToVTables vtb slotOf h) (ownVirtuals h this) v"

text \<open>
  \<open>createAllVTables\<close>. The flag \<open>firstVTable\<close> of the loop is part of the state: it is cleared
  after the first base class. The full name of a class, which only serves to name the LLVM
  variables, is a parameter.
\<close>

type_synonym creating = "bool \<times> vtableBuilder"

text \<open>The loop over the instance bases; \<open>rec\<close> is the recursive call for a base with a vtable.\<close>

definition createBase ::
  "(addr \<Rightarrow> string \<Rightarrow> bool \<Rightarrow> vtableBuilder \<Rightarrow> (vtableError + vtableBuilder) option) \<Rightarrow>
   addr \<Rightarrow> (addr \<Rightarrow> string) \<Rightarrow> store \<Rightarrow> addr \<Rightarrow> string \<Rightarrow> addr \<Rightarrow> creating \<Rightarrow> (vtableError + creating) option"
where
  "createBase rec vtb fullName h this nm base s = (case s of (first, v) \<Rightarrow>
     Option.bind
       (if base = vtb then Some (createVTable this nm first v)
        else if hasVTable (cell h base) then
          rec base (if first then nm else nm @ '':'' @ fullName base) first v
        else Some (Inr v))
       (\<lambda>r. Some (map_sum id (Pair False) r)))"

lemma createBase_mono [partial_function_mono]:
  assumes "\<And>b n f v. mono_option (\<lambda>g. R g b n f v)"
  shows "mono_option (\<lambda>g. createBase (R g) vtb fullName h this nm base s)"
proof -
  obtain first v where s: "s = (first, v)" by (cases s)
  have "mono_option (\<lambda>g. if base = vtb then Some (createVTable this nm first v)
      else if hasVTable (cell h base) then
        R g base (if first then nm else nm @ '':'' @ fullName base) first v
      else Some (Inr v))"
    by (cases "base = vtb"; cases "hasVTable (cell h base)"; cases first)
      (simp_all add: assms option.const_mono)
  from bind_mono [OF this, of "\<lambda>r g. Some (map_sum id (Pair False) r)"]
  show ?thesis unfolding createBase_def s by (simp add: option.const_mono)
qed

partial_function (option) createAllVTables ::
  "addr \<Rightarrow> (addr \<Rightarrow> nat) \<Rightarrow> (addr \<Rightarrow> string) \<Rightarrow> store \<Rightarrow> addr \<Rightarrow> string \<Rightarrow> bool \<Rightarrow> vtableBuilder \<Rightarrow>
   (vtableError + vtableBuilder) option" where
  "createAllVTables vtb slotOf fullName h this nm first v =
     (case (if this = vtb then createVTable this nm True v else Inr v) of
        Inl e \<Rightarrow> Some (Inl e)
      | Inr v1 \<Rightarrow> Option.bind (getInstanceBases h this) (\<lambda>bs. case bs of
          None \<Rightarrow> Some (Inl OutOfBounds)
        | Some bases \<Rightarrow> Option.bind
            (iterE (createBase (createAllVTables vtb slotOf fullName h) vtb fullName h this nm) bases (first, v1))
            (\<lambda>r. case r of
               Inl e \<Rightarrow> Some (Inl e)
             | Inr (first', v2) \<Rightarrow>
                 if first' \<and> this \<noteq> vtb then Some (Inl NoFirstVTable)
                 else extendVTables vtb slotOf h this v2)))"

section \<open>The vtables array\<close>

text \<open>
  The array has two elements for every instance base: the vtable and the offset of the base. A
  store past its end is \<open>OutOfBounds\<close>.
\<close>

definition storePair ::
  "nat \<Rightarrow> vconst \<Rightarrow> int \<Rightarrow> vconst option list \<Rightarrow> vtableError + vconst option list" where
  "storePair i c off arr =
     (if 2 * i + 1 < length arr then Inr (arr[2 * i := Some c, 2 * i + 1 := Some (Offset off)])
      else Inl OutOfBounds)"

text \<open>The vtable that \<open>fillVTablesVar\<close> stores for the base with index \<open>i\<close>.\<close>

definition vtableOfBase ::
  "addr \<Rightarrow> store \<Rightarrow> addr set \<Rightarrow> addr \<Rightarrow> nat \<Rightarrow> addr \<Rightarrow> (vtableError + vconst) option" where
  "vtableOfBase vtb h vtabs type i base =
     (if base = vtb then
        Some (if i \<noteq> 0 then Inl (NotFirstParent type)
              else if type \<in> vtabs then Inr (VTableVar type) else Inl (BadEntry type))
      else if hasVTable (cell h base) then
        Option.bind (findFirstVTable vtb h base) (\<lambda>r. case r of
          None \<Rightarrow> Some (Inl (NoVTableRoot base))
        | Some root \<Rightarrow>
            Some (if root \<in> vtabs then Inr (VTableVar root) else Inl (MissingVTable root)))
      else Some (Inr NullPtr))"

type_synonym filling = "nat \<times> vconst option list"

text \<open>The body of the first loop of \<open>fillVTablesVar\<close>; the bases come with their index.\<close>

definition fillBase ::
  "addr \<Rightarrow> store \<Rightarrow> (addr \<Rightarrow> nat \<Rightarrow> int) \<Rightarrow> addr set \<Rightarrow> addr \<Rightarrow> int \<Rightarrow> nat \<times> addr \<Rightarrow> filling \<Rightarrow>
   (vtableError + filling) option" where
  "fillBase vtb h parentOffset vtabs type instOffset ib s = (case (ib, s) of ((i, base), (out, arr)) \<Rightarrow>
     Option.bind (vtableOfBase vtb h vtabs type i base) (\<lambda>r. case r of
       Inl e \<Rightarrow> Some (Inl e)
     | Inr c \<Rightarrow> Some (map_sum id (Pair (Suc out)) (storePair out c (instOffset + parentOffset type i) arr))))"

definition enumFrom :: "nat \<Rightarrow> 'a list \<Rightarrow> (nat \<times> 'a) list" where
  "enumFrom start xs = drop start (enumerate 0 xs)"

text \<open>\<open>getParentOffset\<close> is 0 for an appendage, LLVM's layout otherwise.\<close>

definition getParentOffset :: "(addr \<Rightarrow> nat \<Rightarrow> int) \<Rightarrow> store \<Rightarrow> addr \<Rightarrow> nat \<Rightarrow> int" where
  "getParentOffset layout h type i = (if appendage (cell h type) then 0 else layout type i)"

partial_function (option) fillVTablesVar ::
  "addr \<Rightarrow> store \<Rightarrow> (addr \<Rightarrow> nat \<Rightarrow> int) \<Rightarrow> addr set \<Rightarrow> addr \<Rightarrow> nat \<Rightarrow> int \<Rightarrow> filling \<Rightarrow>
   (vtableError + filling) option" where
  "fillVTablesVar vtb h layout vtabs type start instOffset s =
     (if type = vtb then
        (case s of (out, arr) \<Rightarrow>
           Some (if type \<in> vtabs
             then map_sum id (Pair (Suc out)) (storePair out (VTableVar type) instOffset arr)
             else Inl (BadEntry type)))
      else Option.bind (getInstanceBases h type) (\<lambda>bs. case bs of
        None \<Rightarrow> Some (Inl OutOfBounds)
      | Some bases \<Rightarrow> Option.bind
          (iterE (fillBase vtb h (getParentOffset layout h) vtabs type instOffset) (enumFrom start bases) s)
          (\<lambda>r. case r of
             Inl e \<Rightarrow> Some (Inl e)
           | Inr s1 \<Rightarrow> iterE (\<lambda>(i, base) s2.
               if base = vtb then Some (Inr s2)
               else fillVTablesVar vtb h layout vtabs base 1
                 (instOffset + getParentOffset layout h type i) s2) (enumFrom start bases) s1)))"

text \<open>
  \<open>emit\<close>. The struct types of the vtables are kept in the registry of LLVM types of the builder
  (\<open>getLLVMType\<close>, \<open>putLLVMType\<close>), which outlives the module and is reduced to the number of
  elements of each type. The loop over the vtables, in the order of the map: no entry may be null,
  and a struct type that exists under the name of the vtable must have its size.
\<close>

type_synonym structTypes = "string \<rightharpoonup> nat"

fun emitTables :: "(addr, vtableInfo) stdmap \<Rightarrow> structTypes \<Rightarrow> vtableError + structTypes" where
  "emitTables [] s = Inr s"
| "emitTables ((t, info) # rest) s =
     (if None \<in> set (entries info) then Inl (NullEntry t)
      else case s (vname info) of
        None \<Rightarrow> emitTables rest (s(vname info \<mapsto> length (entries info)))
      | Some n \<Rightarrow> if length (entries info) = n then emitTables rest s
                 else Inl (StructSize (vname info)))"

text \<open>
  Then the array must be filled exactly, and the class must have a first vtable. The result is
  the array, with the registry.
\<close>

definition emitVTables ::
  "addr \<Rightarrow> store \<Rightarrow> (addr \<Rightarrow> nat \<Rightarrow> int) \<Rightarrow> addr \<Rightarrow> vtableBuilder \<Rightarrow> structTypes \<Rightarrow>
   (vtableError + vconst option list \<times> structTypes) option" where
  "emitVTables vtb h layout type v structs =
     (case emitTables (vtables v) structs of
        Inl e \<Rightarrow> Some (Inl e)
      | Inr structs' \<Rightarrow> Option.bind (if type = vtb then Some 1 else countRootAncestors h type False) (\<lambda>n.
          Option.bind (fillVTablesVar vtb h layout (fst ` set (vtables v)) type 0 0 (0, replicate (2 * n) None))
            (\<lambda>r. case r of
               Inl e \<Rightarrow> Some (Inl e)
             | Inr (out, arr) \<Rightarrow>
                 Some (if out \<noteq> length arr div 2 then Inl FillMismatch
                       else if firstVTable v = None then Inl NoFirstVTable
                       else Inr (arr, structs')))))"

end
