(* ===== verification/VTable_Layout.thy ===== *)
theory VTable_Layout
  imports VTables
begin

text \<open>
  The vtables array of a class is filled exactly: the number of entries the compiler reserves
  (\<open>countRootAncestors\<close>) is the number \<open>fillVTablesVar\<close> writes.
\<close>

section \<open>Class hierarchies with vtables\<close>

text \<open>
  What the parser and \<open>addBaseClass\<close> guarantee: the flag of a class says whether it derives from
  \<open>VTableBase\<close>, \<open>VTableBase\<close> has no bases and is only a first base, and the bases of a
  class that is no appendage are no appendages.
\<close>

definition vtable_classes :: "addr \<Rightarrow> store \<Rightarrow> bool" where
  "vtable_classes vtb h \<longleftrightarrow> parents_ok h \<and> parents (cell h vtb) = [] \<and> \<not> appendage (cell h vtb) \<and>
     (\<forall>t. hasVTable (cell h t) \<longleftrightarrow> t = vtb \<or> (\<exists>p \<in> set (parents (cell h t)). hasVTable (cell h p))) \<and>
     (\<forall>t. vtb \<notin> set (tl (parents (cell h t)))) \<and>
     (\<forall>t. \<not> appendage (cell h t) \<longrightarrow> (\<forall>p \<in> set (parents (cell h t)). \<not> appendage (cell h p)))"

lemma vtable_classesD:
  assumes "vtable_classes vtb h"
  shows "parents_ok h" and "parents (cell h vtb) = []" and "\<not> appendage (cell h vtb)"
    and "hasVTable (cell h t) \<longleftrightarrow> t = vtb \<or> (\<exists>p \<in> set (parents (cell h t)). hasVTable (cell h p))"
    and "vtb \<notin> set (tl (parents (cell h t)))"
    and "\<not> appendage (cell h t) \<Longrightarrow> p \<in> set (parents (cell h t)) \<Longrightarrow> \<not> appendage (cell h p)"
  using assms unfolding vtable_classes_def by blast+

lemma getInstanceBases_plain [simp]:
  "\<not> appendage (cell h t) \<Longrightarrow> getInstanceBases h t = Some (Some (parents (cell h t)))"
  by (simp add: getInstanceBases_def)

section \<open>The number of entries\<close>

definition skipped :: "bool \<Rightarrow> 'a list \<Rightarrow> 'a list" where
  "skipped skip xs = (if skip then tl xs else xs)"

definition rootCount :: "store \<Rightarrow> addr \<Rightarrow> bool \<Rightarrow> nat" where
  "rootCount h t skip = the (countRootAncestors h t skip)"

lemma set_skipped: "set (skipped skip xs) \<subseteq> set xs"
  by (cases xs) (auto simp: skipped_def)

lemma countRootAncestors_plain:
  "\<not> appendage (cell h t) \<Longrightarrow> countRootAncestors h t skip =
     sumM (\<lambda>p. Option.bind (countRootAncestors h p True) (\<lambda>n. Some (1 + n))) (skipped skip (parents (cell h t)))"
  by (simp add: countRootAncestors.simps [of h t] skipped_def)

lemma countRootAncestors_total:
  assumes ok: "vtable_classes vtb h" and "\<not> appendage (cell h t)"
  shows "countRootAncestors h t skip = Some (rootCount h t skip)"
  using vtable_classesD(1) [OF ok] assms(2)
proof (induction t arbitrary: skip rule: types.graph_induct)
  case (node t)
  have "sumM (\<lambda>p. Option.bind (countRootAncestors h p True) (\<lambda>n. Some (1 + n)))
      (skipped skip (parents (cell h t))) =
    Some (sum_list (map (\<lambda>p. 1 + rootCount h p True) (skipped skip (parents (cell h t)))))"
    using set_skipped [of skip "parents (cell h t)"] node.IH node.prems vtable_classesD(6) [OF ok, of t]
    by (intro sumM_total) (auto simp: parentGraph_def)
  then show ?case using countRootAncestors_plain [OF node.prems, of skip] by (simp add: rootCount_def)
qed

lemma rootCount_unfold:
  assumes ok: "vtable_classes vtb h" and na: "\<not> appendage (cell h t)"
  shows "rootCount h t skip =
    length (skipped skip (parents (cell h t))) +
    sum_list (map (\<lambda>p. rootCount h p True) (skipped skip (parents (cell h t))))"
proof -
  have "sumM (\<lambda>p. Option.bind (countRootAncestors h p True) (\<lambda>n. Some (1 + n)))
      (skipped skip (parents (cell h t))) =
    Some (sum_list (map (\<lambda>p. 1 + rootCount h p True) (skipped skip (parents (cell h t)))))"
    using set_skipped [of skip "parents (cell h t)"] countRootAncestors_total [OF ok]
      vtable_classesD(6) [OF ok na] by (intro sumM_total) auto
  then have "rootCount h t skip = sum_list (map (\<lambda>p. 1 + rootCount h p True) (skipped skip (parents (cell h t))))"
    using countRootAncestors_plain [OF na, of skip] by (simp add: rootCount_def)
  moreover have "sum_list (map (\<lambda>p. 1 + rootCount h p True) xs) =
      length xs + sum_list (map (\<lambda>p. rootCount h p True) xs)" for xs by (induction xs) simp_all
  ultimately show ?thesis by simp
qed

section \<open>Filling a segment of the array\<close>

definition filled :: "nat \<Rightarrow> nat \<Rightarrow> vconst option list \<Rightarrow> vconst option list \<Rightarrow> bool" where
  "filled out n arr arr' \<longleftrightarrow> length arr' = length arr \<and>
     (\<forall>k. k < 2 * out \<or> 2 * (out + n) \<le> k \<longrightarrow> arr' ! k = arr ! k) \<and>
     (\<forall>k. 2 * out \<le> k \<and> k < 2 * (out + n) \<longrightarrow> arr' ! k \<noteq> None)"

text \<open>A filling step from a state that has room for \<open>n\<close> bases fills exactly these.\<close>

definition fills :: "(filling \<Rightarrow> (vtableError + filling) option) \<Rightarrow> nat \<Rightarrow> bool" where
  "fills f n \<longleftrightarrow> (\<forall>out arr. 2 * (out + n) \<le> length arr \<longrightarrow>
     (\<exists>arr'. f (out, arr) = Some (Inr (out + n, arr')) \<and> filled out n arr arr'))"

lemma filled_refl: "filled out 0 arr arr"
  by (auto simp: filled_def)

lemma filled_trans: "filled out n a b \<Longrightarrow> filled (out + n) m b c \<Longrightarrow> filled out (n + m) a c"
  unfolding filled_def by (auto simp: add.assoc) (metis (no_types) add.assoc leI)+

lemma fillsD:
  "fills f n \<Longrightarrow> 2 * (out + n) \<le> length arr \<Longrightarrow>
   \<exists>arr'. f (out, arr) = Some (Inr (out + n, arr')) \<and> filled out n arr arr'"
  by (simp add: fills_def)

lemma fills_skip: "fills (\<lambda>s. Some (Inr s)) 0"
  by (auto simp: fills_def intro: filled_refl)

lemma fills_iterE:
  assumes "\<And>x. x \<in> set xs \<Longrightarrow> fills (f x) (n x)"
  shows "fills (iterE f xs) (sum_list (map n xs))"
  using assms
proof (induction xs)
  case Nil
  then show ?case using fills_skip by (simp add: fills_def)
next
  case (Cons x xs)
  then have x: "fills (f x) (n x)" and xs: "fills (iterE f xs) (sum_list (map n xs))" by simp_all
  show ?case unfolding fills_def
  proof (intro allI impI)
    fix out arr assume room: "2 * (out + sum_list (map n (x # xs))) \<le> length (arr :: vconst option list)"
    then have "2 * (out + n x) \<le> length arr" by simp
    from fillsD [OF x this] obtain b where
      b: "f x (out, arr) = Some (Inr (out + n x, b))" "filled out (n x) arr b" by blast
    from b(2) room have "2 * (out + n x + sum_list (map n xs)) \<le> length b" by (simp add: filled_def)
    with xs obtain c where c: "iterE f xs (out + n x, b) = Some (Inr (out + n x + sum_list (map n xs), c))"
      "filled (out + n x) (sum_list (map n xs)) b c" unfolding fills_def by blast
    have "filled out (n x + sum_list (map n xs)) arr c" using filled_trans [OF b(2) c(2)] .
    with b(1) c(1) show "\<exists>arr'. iterE f (x # xs) (out, arr) =
        Some (Inr (out + sum_list (map n (x # xs)), arr')) \<and> filled out (sum_list (map n (x # xs))) arr arr'"
      by (simp add: add.assoc)
  qed
qed

lemma fills_seq:
  assumes "fills f n" and "fills g m"
  shows "fills (\<lambda>s. Option.bind (f s) (\<lambda>r. case r of Inl e \<Rightarrow> Some (Inl e) | Inr s1 \<Rightarrow> g s1)) (n + m)"
  unfolding fills_def
proof (intro allI impI)
  fix out arr assume room: "2 * (out + (n + m)) \<le> length (arr :: vconst option list)"
  then have "2 * (out + n) \<le> length arr" by simp
  from fillsD [OF assms(1) this] obtain b where
    b: "f (out, arr) = Some (Inr (out + n, b))" "filled out n arr b" by blast
  from b(2) room have "2 * (out + n + m) \<le> length b" by (simp add: filled_def)
  with assms(2) obtain c where c: "g (out + n, b) = Some (Inr (out + n + m, c))" "filled (out + n) m b c"
    unfolding fills_def by blast
  from b(1) c(1) filled_trans [OF b(2) c(2)] show "\<exists>arr'. Option.bind (f (out, arr))
      (\<lambda>r. case r of Inl e \<Rightarrow> Some (Inl e) | Inr s1 \<Rightarrow> g s1) = Some (Inr (out + (n + m), arr')) \<and>
      filled out (n + m) arr arr'" by (simp add: add.assoc)
qed

lemma storePair_fills: "fills (\<lambda>(out, arr). Some (map_sum id (Pair (Suc out)) (storePair out c off arr))) 1"
  unfolding fills_def storePair_def by (auto simp: filled_def nth_list_update)

section \<open>The array is filled exactly\<close>

text \<open>Every class the array refers to has its vtable: the one its hierarchy starts with.\<close>

definition has_vtables :: "addr \<Rightarrow> store \<Rightarrow> addr set \<Rightarrow> addr \<Rightarrow> bool" where
  "has_vtables vtb h vtabs t \<longleftrightarrow> (\<forall>b. reaches (parentGraph h) t b \<and> b \<noteq> vtb \<and> hasVTable (cell h b) \<longrightarrow>
     (\<exists>r \<in> vtabs. findFirstVTable vtb h b = Some (Some r)))"

lemma has_vtables_parent:
  assumes "has_vtables vtb h vtabs t" and p: "p \<in> set (parents (cell h t))"
  shows "has_vtables vtb h vtabs p"
proof -
  have "reaches (parentGraph h) t b" if "reaches (parentGraph h) p b" for b
    by (rule reaches_step [OF _ that]) (use p in \<open>simp add: parentGraph_def\<close>)
  then show ?thesis using assms(1) unfolding has_vtables_def by blast
qed

lemma findFirstVTable_direct:
  "parents (cell h t) = vtb # ps \<Longrightarrow> findFirstVTable vtb h t = Some (Some t)"
  by (subst findFirstVTable.simps) simp

lemma vtableOfBase_found:
  assumes ok: "vtable_classes vtb h" and tabs: "has_vtables vtb h vtabs t" and ne: "t \<noteq> vtb"
    and i: "i < length (parents (cell h t))"
  shows "\<exists>c. vtableOfBase vtb h vtabs t i (parents (cell h t) ! i) = Some (Inr c)"
proof -
  let ?p = "parents (cell h t) ! i"
  have p: "?p \<in> set (parents (cell h t))" using i by simp
  consider "?p = vtb" | "?p \<noteq> vtb" "hasVTable (cell h ?p)" | "?p \<noteq> vtb" "\<not> hasVTable (cell h ?p)"
    by blast
  then show ?thesis
  proof cases
    case 1
    have "i = 0"
    proof (rule ccontr)
      assume "i \<noteq> 0"
      then have "?p = tl (parents (cell h t)) ! (i - 1)" "i - 1 < length (tl (parents (cell h t)))"
        using i by (simp_all add: nth_tl)
      then have "vtb \<in> set (tl (parents (cell h t)))" using 1 by (metis nth_mem)
      with vtable_classesD(5) [OF ok, of t] show False by simp
    qed
    with 1 i obtain ps where ps: "parents (cell h t) = vtb # ps" by (cases "parents (cell h t)") auto
    then have "hasVTable (cell h t)" using vtable_classesD(4) [OF ok, of t] vtable_classesD(4) [OF ok, of vtb]
      by simp
    with tabs ne findFirstVTable_direct [OF ps] have "t \<in> vtabs" by (auto simp: has_vtables_def)
    then show ?thesis using 1 \<open>i = 0\<close> by (simp add: vtableOfBase_def)
  next
    case 2
    have "reaches (parentGraph h) t ?p"
      by (rule reaches_step [OF _ reaches_refl]) (use p in \<open>simp add: parentGraph_def\<close>)
    then obtain r where "r \<in> vtabs" "findFirstVTable vtb h ?p = Some (Some r)"
      using tabs 2 unfolding has_vtables_def by blast
    then show ?thesis using 2 by (simp add: vtableOfBase_def)
  qed (simp add: vtableOfBase_def)
qed

lemma fillBase_fills:
  assumes "\<exists>c. vtableOfBase vtb h vtabs t i b = Some (Inr c)"
  shows "fills (fillBase vtb h po vtabs t off (i, b)) 1"
proof -
  from assms obtain c where "vtableOfBase vtb h vtabs t i b = Some (Inr c)" by blast
  then have "fillBase vtb h po vtabs t off (i, b) =
      (\<lambda>(out, arr). Some (map_sum id (Pair (Suc out)) (storePair out c (off + po t i) arr)))"
    by (auto simp: fillBase_def fun_eq_iff)
  then show ?thesis using storePair_fills by simp
qed

lemma enumFrom_map_snd: "map snd (enumFrom (if skip then 1 else 0) xs) = skipped skip xs"
  by (simp add: enumFrom_def skipped_def drop_map [symmetric] drop_Suc)

lemma enumFrom_nth: "(i, b) \<in> set (enumFrom n xs) \<Longrightarrow> i < length xs \<and> xs ! i = b"
  unfolding enumFrom_def using in_set_enumerate_eq [of "(i, b)" 0 xs] set_drop_subset by fastforce

lemma fillVTablesVar_fills:
  assumes ok: "vtable_classes vtb h" and "\<not> appendage (cell h t)" and "t \<noteq> vtb"
    and "has_vtables vtb h vtabs t"
  shows "fills (fillVTablesVar vtb h layout vtabs t (if skip then 1 else 0) off) (rootCount h t skip)"
  using vtable_classesD(1) [OF ok] assms(2-4)
proof (induction t arbitrary: skip off rule: types.graph_induct)
  case (node t)
  define bs where "bs = enumFrom (if skip then 1 else 0) (parents (cell h t))"
  have nth: "i < length (parents (cell h t)) \<and> parents (cell h t) ! i = b" if "(i, b) \<in> set bs" for i b
    using that unfolding bs_def by (rule enumFrom_nth)
  let ?po = "getParentOffset layout h"
  let ?rec = "\<lambda>(i, base) s2. if base = vtb then Some (Inr s2)
    else fillVTablesVar vtb h layout vtabs base 1 (off + ?po t i) s2"
  have f1: "fills (fillBase vtb h ?po vtabs t off x) 1" if "x \<in> set bs" for x
  proof (cases x)
    case (Pair i b)
    with that have "i < length (parents (cell h t))" "parents (cell h t) ! i = b"
      using nth by simp_all
    with vtableOfBase_found [OF ok node.prems(3,2), of i] Pair show ?thesis
      using fillBase_fills [of vtb h vtabs t i b ?po off] by blast
  qed
  have 1: "fills (iterE (fillBase vtb h ?po vtabs t off) bs) (length bs)"
    using fills_iterE [of bs "fillBase vtb h ?po vtabs t off" "\<lambda>_. 1", OF f1]
    by (simp add: sum_list_triv)
  have f2: "fills (?rec x) (rootCount h (snd x) True)" if "x \<in> set bs" for x
  proof (cases x)
    case (Pair i b)
    with that have i: "i < length (parents (cell h t))" "parents (cell h t) ! i = b"
      using nth by simp_all
    then have b: "b \<in> set (parents (cell h t))" by auto
    show ?thesis
    proof (cases "b = vtb")
      case True
      have "rootCount h vtb True = 0"
        using rootCount_unfold [OF ok vtable_classesD(3) [OF ok], of True] vtable_classesD(2) [OF ok]
        by (simp add: skipped_def)
      then show ?thesis using Pair True fills_skip by simp
    next
      case False
      have "fills (fillVTablesVar vtb h layout vtabs b (if True then 1 else 0) (off + ?po t i)) (rootCount h b True)"
        using b False vtable_classesD(6) [OF ok node.prems(1) b] has_vtables_parent [OF node.prems(3) b]
        by (intro node.IH) (simp_all add: parentGraph_def)
      then show ?thesis using Pair False by simp
    qed
  qed
  have 2: "fills (iterE ?rec bs) (sum_list (map (\<lambda>x. rootCount h (snd x) True) bs))"
    by (rule fills_iterE) (rule f2)
  have n: "rootCount h t skip = length bs + sum_list (map (\<lambda>x. rootCount h (snd x) True) bs)"
    using rootCount_unfold [OF ok node.prems(1), of skip]
    unfolding enumFrom_map_snd [of skip, symmetric] bs_def [symmetric] by (simp add: o_def)
  have "fillVTablesVar vtb h layout vtabs t (if skip then 1 else 0) off =
      (\<lambda>s. Option.bind (iterE (fillBase vtb h ?po vtabs t off) bs s)
        (\<lambda>r. case r of Inl e \<Rightarrow> Some (Inl e) | Inr s1 \<Rightarrow> iterE ?rec bs s1))"
    using node.prems(1,2) by (intro ext, subst fillVTablesVar.simps) (simp add: bs_def)
  then show ?case using fills_seq [OF 1 2] n by simp
qed

lemma vtables_array_filled:
  assumes "vtable_classes vtb h" and "\<not> appendage (cell h t)" and "t \<noteq> vtb"
    and "has_vtables vtb h vtabs t"
  shows "\<exists>n arr. countRootAncestors h t False = Some n \<and>
    fillVTablesVar vtb h layout vtabs t 0 off (0, replicate (2 * n) None) = Some (Inr (n, arr)) \<and>
    length arr = 2 * n \<and> None \<notin> set arr"
proof -
  let ?n = "rootCount h t False"
  have "fills (fillVTablesVar vtb h layout vtabs t 0 off) ?n"
    using fillVTablesVar_fills [OF assms, of layout False off] by simp
  from fillsD [OF this, of 0 "replicate (2 * ?n) None"] obtain arr where
    arr: "fillVTablesVar vtb h layout vtabs t 0 off (0, replicate (2 * ?n) None) = Some (Inr (?n, arr))"
    "filled 0 ?n (replicate (2 * ?n) None) arr" by auto
  from arr(2) have "length arr = 2 * ?n" "\<forall>k < 2 * ?n. arr ! k \<noteq> None" by (simp_all add: filled_def)
  then have "None \<notin> set arr" by (metis in_set_conv_nth)
  with arr(1) \<open>length arr = 2 * ?n\<close> countRootAncestors_total [OF assms(1,2), of False] show ?thesis by blast
qed

text \<open>
  C19. The vtables array of a class is neither overrun nor left with a gap: when every vtable the
  class needs exists, \<open>fillVTablesVar\<close> sets every element of the array of twice
  \<open>countRootAncestors()\<close> elements, so the check of \<open>VTableBuilder::emit\<close> never fails.
\<close>

theorem vtables_array_exact:
  assumes "vtable_classes vtb h" and "\<not> appendage (cell h t)" and "t \<noteq> vtb"
    and "has_vtables vtb h vtabs t"
  shows "\<exists>n arr. countRootAncestors h t False = Some n \<and>
    fillVTablesVar vtb h layout vtabs t 0 off (0, replicate (2 * n) None) = Some (Inr (n, arr)) \<and>
    length arr = 2 * n \<and> None \<notin> set arr"
  by (rule vtables_array_filled [OF assms])

end
