(* ===== verification/VTable_Create.thy ===== *)
theory VTable_Create
  imports VTable_Layout
begin

text \<open>
  The vtables of a class whose ancestors were accepted (\<open>Ancestors\<close>) are created without a
  failed assertion, and they are all that the vtables array (\<open>VTable_Layout\<close>) refers to.
\<close>

section \<open>The vtables of a class\<close>

text \<open>The classes that get a vtable, in the order in which they are created.\<close>

partial_function (option) rootWalk :: "addr \<Rightarrow> store \<Rightarrow> addr \<Rightarrow> addr list option" where
  "rootWalk vtb h t = concatM (\<lambda>b. if b = vtb then Some [t]
     else if hasVTable (cell h b) then rootWalk vtb h b else Some []) (parents (cell h t))"

definition vroots :: "addr \<Rightarrow> store \<Rightarrow> addr \<Rightarrow> addr list" where
  "vroots vtb h t = the (rootWalk vtb h t)"

definition baseRoots :: "addr \<Rightarrow> store \<Rightarrow> addr \<Rightarrow> addr \<Rightarrow> addr list" where
  "baseRoots vtb h t b = (if b = vtb then [t] else if hasVTable (cell h b) then vroots vtb h b else [])"

lemma rootWalk_total: "parents_ok h \<Longrightarrow> rootWalk vtb h t = Some (vroots vtb h t)"
proof (induction t rule: types.graph_induct)
  case (node t)
  have "concatM (\<lambda>b. if b = vtb then Some [t] else if hasVTable (cell h b) then rootWalk vtb h b else Some [])
      (parents (cell h t)) = Some (concat (map (baseRoots vtb h t) (parents (cell h t))))"
    by (rule concatM_total) (use node in \<open>simp add: parentGraph_def baseRoots_def\<close>)
  then show ?case by (simp add: vroots_def rootWalk.simps [of vtb h t])
qed

lemma vroots_unfold:
  assumes "parents_ok h"
  shows "vroots vtb h t = concat (map (baseRoots vtb h t) (parents (cell h t)))"
proof -
  have "concatM (\<lambda>b. if b = vtb then Some [t] else if hasVTable (cell h b) then rootWalk vtb h b else Some [])
      (parents (cell h t)) = Some (concat (map (baseRoots vtb h t) (parents (cell h t))))"
    by (rule concatM_total) (simp add: rootWalk_total [OF assms] baseRoots_def)
  then show ?thesis by (simp add: vroots_def [of vtb h t] rootWalk.simps [of vtb h t])
qed

lemma vtb_has_vtable: "vtable_classes vtb h \<Longrightarrow> hasVTable (cell h vtb)"
  using vtable_classesD(4) by simp

lemma hasVTable_derived:
  assumes ok: "vtable_classes vtb h" and "reaches (parentGraph h) t b" and "hasVTable (cell h b)"
  shows "hasVTable (cell h t)"
  using vtable_classesD(1) [OF ok] assms(2)
proof (induction t rule: types.graph_induct)
  case (node t)
  then consider "t = b" | p where "p \<in> set (parents (cell h t))" "reaches (parentGraph h) p b"
    using reaches_parents [of h t b] by blast
  then show ?case
  proof cases
    case 2
    then have "hasVTable (cell h p)" using node.IH [of p] by simp
    then show ?thesis using 2 vtable_classesD(4) [OF ok, of t] by blast
  qed (use assms(3) in simp)
qed

lemma reaches_vtb: "vtable_classes vtb h \<Longrightarrow> reaches (parentGraph h) vtb b \<Longrightarrow> b = vtb"
  using reaches_parents [of h vtb b] vtable_classesD(2) by simp

lemma findFirstVTable_root:
  assumes ok: "vtable_classes vtb h" and "hasVTable (cell h b)" and "b \<noteq> vtb"
  shows "\<exists>r \<in> set (vroots vtb h b). findFirstVTable vtb h b = Some (Some r)"
  using vtable_classesD(1) [OF ok] assms(2,3)
proof (induction b rule: types.graph_induct)
  case (node b)
  let ?P = "\<lambda>p. p = vtb \<or> hasVTable (cell h p)"
  from node.prems obtain p0 where "p0 \<in> set (parents (cell h b))" "hasVTable (cell h p0)"
    using vtable_classesD(4) [OF ok, of b] by blast
  then have "List.find ?P (parents (cell h b)) \<noteq> None" by (auto simp: find_None_iff)
  then obtain p where p: "List.find ?P (parents (cell h b)) = Some p" by blast
  then have pin: "p \<in> set (parents (cell h b))" "?P p" by (auto simp: find_Some_iff)
  have roots: "set (baseRoots vtb h b p) \<subseteq> set (vroots vtb h b)"
    using pin(1) vroots_unfold [OF vtable_classesD(1) [OF ok], of vtb b] by auto
  show ?case
  proof (cases "p = vtb")
    case True
    then have "findFirstVTable vtb h b = Some (Some b)" using p node.prems
      by (subst findFirstVTable.simps) simp
    moreover have "b \<in> set (vroots vtb h b)" using roots True by (simp add: baseRoots_def)
    ultimately show ?thesis by blast
  next
    case False
    then have "findFirstVTable vtb h b = findFirstVTable vtb h p" using p node.prems
      by (subst findFirstVTable.simps) simp
    moreover obtain r where "r \<in> set (vroots vtb h p)" "findFirstVTable vtb h p = Some (Some r)"
      using node.IH [of p] pin False by auto
    moreover have "set (vroots vtb h p) \<subseteq> set (vroots vtb h b)"
      using roots False pin(2) by (simp add: baseRoots_def)
    ultimately show ?thesis by auto
  qed
qed

lemma vroots_derived:
  assumes ok: "vtable_classes vtb h" and "reaches (parentGraph h) t b"
    and "hasVTable (cell h b)" and "b \<noteq> vtb"
  shows "set (vroots vtb h b) \<subseteq> set (vroots vtb h t)"
  using vtable_classesD(1) [OF ok] assms(2)
proof (induction t rule: types.graph_induct)
  case (node t)
  then consider "t = b" | p where "p \<in> set (parents (cell h t))" "reaches (parentGraph h) p b"
    using reaches_parents [of h t b] by blast
  then show ?case
  proof cases
    case 2
    then have "p \<noteq> vtb" using reaches_vtb [OF ok, of b] assms(4) by blast
    moreover have "hasVTable (cell h p)" using hasVTable_derived [OF ok 2(2) assms(3)] .
    ultimately have "set (vroots vtb h p) \<subseteq> set (vroots vtb h t)"
      using 2(1) vroots_unfold [OF vtable_classesD(1) [OF ok], of vtb t] by (auto simp: baseRoots_def)
    then show ?thesis using node.IH [of p] 2 by auto
  qed simp
qed

lemma has_vtables_roots:
  assumes ok: "vtable_classes vtb h"
  shows "has_vtables vtb h (set (vroots vtb h t)) t"
  unfolding has_vtables_def
proof (intro allI impI)
  fix b assume b: "reaches (parentGraph h) t b \<and> b \<noteq> vtb \<and> hasVTable (cell h b)"
  then obtain r where "r \<in> set (vroots vtb h b)" "findFirstVTable vtb h b = Some (Some r)"
    using findFirstVTable_root [OF ok, of b] by blast
  then show "\<exists>r \<in> set (vroots vtb h t). findFirstVTable vtb h b = Some (Some r)"
    using vroots_derived [OF ok, of t b] b by blast
qed

section \<open>No vtable is created twice\<close>

lemma distinct_concat_part:
  assumes "distinct (concat (map l xs))" and "\<And>x. x \<in> set xs \<Longrightarrow> distinct (l x) \<Longrightarrow> distinct (g x) \<and> set (g x) \<subseteq> set (l x)"
  shows "distinct (concat (map g xs)) \<and> set (concat (map g xs)) \<subseteq> set (concat (map l xs))"
  using assms
proof (induction xs)
  case (Cons x xs)
  then have "distinct (g x) \<and> set (g x) \<subseteq> set (l x)"
    "distinct (concat (map g xs)) \<and> set (concat (map g xs)) \<subseteq> set (concat (map l xs))" by simp_all
  with Cons.prems(1) show ?case by auto
qed simp

lemma vroots_distinct:
  assumes ok: "vtable_classes vtb h" and c: "vtableBaseType c = Some vtb"
    and "t \<noteq> vtb" and "distinct (lineage c h t)"
  shows "distinct (vroots vtb h t) \<and> set (vroots vtb h t) \<subseteq> set (lineage c h t)"
  using vtable_classesD(1) [OF ok] assms(3,4)
proof (induction t rule: types.graph_induct)
  case (node t)
  note pok = vtable_classesD(1) [OF ok]
  have lin: "lineage c h t = concat (map (lineage c h) (parents (cell h t))) @ [t]"
    using lineage_unfold [OF pok, of c t] c node.prems(1) by simp
  have part: "distinct (baseRoots vtb h t b) \<and> set (baseRoots vtb h t b) \<subseteq> set (lineage c h b)"
    if "b \<in> set (parents (cell h t))" and "b \<noteq> vtb" and "distinct (lineage c h b)" for b
    using that node.IH [of b] by (simp add: baseRoots_def parentGraph_def)
  note new = not_in_parents_lineage [OF pok, of t c]
  show ?case
  proof (cases "parents (cell h t)")
    case Nil
    then show ?thesis using vroots_unfold [OF pok, of vtb t] by simp
  next
    case (Cons p ps)
    have rest: "distinct (concat (map (baseRoots vtb h t) ps)) \<and>
        set (concat (map (baseRoots vtb h t) ps)) \<subseteq> set (concat (map (lineage c h) ps))"
      using node.prems(2) lin Cons part vtable_classesD(5) [OF ok, of t]
      by (intro distinct_concat_part) auto
    show ?thesis
    proof (cases "p = vtb")
      case True
      then have "vroots vtb h t = t # concat (map (baseRoots vtb h t) ps)"
        using vroots_unfold [OF pok, of vtb t] Cons by (simp add: baseRoots_def)
      then show ?thesis using rest new lin Cons by auto
    next
      case False
      have "distinct (concat (map (baseRoots vtb h t) (parents (cell h t)))) \<and>
          set (concat (map (baseRoots vtb h t) (parents (cell h t)))) \<subseteq>
          set (concat (map (lineage c h) (parents (cell h t))))"
        using node.prems(2) lin part vtable_classesD(5) [OF ok, of t] False Cons
        by (intro distinct_concat_part) auto
      then show ?thesis using vroots_unfold [OF pok, of vtb t] lin by auto
    qed
  qed
qed

section \<open>Creating them\<close>

abbreviation keys :: "vtableBuilder \<Rightarrow> addr set" where "keys v \<equiv> fst ` set (vtables v)"

text \<open>
  The first vtable of a class is that of the chain of its first bases: it exists when the chain
  leads to \<open>VTableBase\<close> through classes with vtables.
\<close>

inductive leads :: "addr \<Rightarrow> store \<Rightarrow> addr \<Rightarrow> bool" where
  direct: "parents (cell h t) = vtb # ps \<Longrightarrow> leads vtb h t"
| base: "parents (cell h t) = p # ps \<Longrightarrow> hasVTable (cell h p) \<Longrightarrow> leads vtb h p \<Longrightarrow> leads vtb h t"

inductive_simps leads_iff: "leads vtb h t"

text \<open>
  A virtual function is received by the class that first declared it, which is the class itself
  or one it derives from and has a vtable (\<open>initializeMethodInfo\<close> and \<open>wrapOverride\<close> see to it).
\<close>

definition receivers_ok :: "store \<Rightarrow> bool" where
  "receivers_ok h \<longleftrightarrow> (\<forall>t. \<forall>f \<in> set (ownVirtuals h t). \<exists>r. receiverType (cell h f) = Some r \<and>
     reaches (parentGraph h) t r \<and> hasVTable (cell h r))"

lemma keys_find: "a \<in> keys v \<longleftrightarrow> map_of (vtables v) a \<noteq> None"
  by (force simp: map_of_eq_None_iff)

definition sameTables :: "vtableBuilder \<Rightarrow> vtableBuilder \<Rightarrow> bool" where
  "sameTables v v' \<longleftrightarrow> keys v' = keys v \<and> (firstVTable v' = firstVTable v)"

lemma sameTables_simps [simp]: "sameTables v v"
  "sameTables u v \<Longrightarrow> sameTables v w \<Longrightarrow> sameTables u w"
  by (simp_all add: sameTables_def)

lemma iterE_inv:
  assumes "\<And>x s. x \<in> set xs \<Longrightarrow> I s \<Longrightarrow> \<exists>s'. f x s = Some (Inr s') \<and> I s'" and "I s"
  shows "\<exists>s'. iterE f xs s = Some (Inr s') \<and> I s'"
  using assms
proof (induction xs arbitrary: s)
  case (Cons x xs)
  from Cons.prems(1) [of x s] Cons.prems(2) obtain s1 where s1: "f x s = Some (Inr s1)" "I s1" by auto
  from Cons.IH [OF Cons.prems(1) s1(2)] s1(1) show ?case by auto
qed simp

lemma addFunc_keeps:
  assumes "receiverType (cell h f) = Some r" and "findFirstVTable vtb h r = Some (Some root)"
    and "root \<in> keys v \<or> root = vtb"
  shows "\<exists>v'. addFuncToVTables vtb slotOf h f v = Some (Inr v') \<and> sameTables v v'"
proof (cases "root = vtb")
  case True
  have "sameTables v (addToAll slotOf f v)"
    by (auto simp: sameTables_def addToAll_def image_image case_prod_beta)
  then show ?thesis using True assms by (simp add: addFuncToVTables_def)
next
  case False
  with assms(3) obtain info where "map_of (vtables v) root = Some info" using keys_find by auto
  then have "addToAncestor slotOf root f v = Inr (v\<lparr>vtables :=
      mapSet root (setEntry (slotOf f) (FuncRep f) info) (vtables v)\<rparr>)" by (simp add: addToAncestor_def)
  moreover have "sameTables v (v\<lparr>vtables := mapSet root i (vtables v)\<rparr>)" for i
    using assms(3) False set_mapSet [of root i "vtables v"] by (auto simp: sameTables_def)
  ultimately show ?thesis using False assms by (simp add: addFuncToVTables_def)
qed

lemma extendVTables_keeps:
  assumes ok: "vtable_classes vtb h" and rec: "receivers_ok h" and "set (vroots vtb h t) \<subseteq> keys v"
  shows "\<exists>v'. extendVTables vtb slotOf h t v = Some (Inr v') \<and> sameTables v v'"
  unfolding extendVTables_def
proof (rule iterE_inv)
  fix f w assume f: "f \<in> set (ownVirtuals h t)" and w: "sameTables v w"
  from rec f obtain r where r: "receiverType (cell h f) = Some r" "reaches (parentGraph h) t r"
    "hasVTable (cell h r)" unfolding receivers_ok_def by blast
  have "\<exists>root. findFirstVTable vtb h r = Some (Some root) \<and> (root \<in> keys w \<or> root = vtb)"
  proof (cases "r = vtb")
    case True
    then have "findFirstVTable vtb h r = Some (Some vtb)" by (subst findFirstVTable.simps) simp
    then show ?thesis by blast
  next
    case False
    from findFirstVTable_root [OF ok r(3) False] obtain root where
      root: "root \<in> set (vroots vtb h r)" "findFirstVTable vtb h r = Some (Some root)" by blast
    have kw: "keys w = keys v" using w by (simp add: sameTables_def)
    have "root \<in> keys w" unfolding kw
      by (rule subsetD [OF assms(3) subsetD [OF vroots_derived [OF ok r(2,3) False] root(1)]])
    with root(2) show ?thesis by blast
  qed
  then obtain root where root: "findFirstVTable vtb h r = Some (Some root)" "root \<in> keys w \<or> root = vtb"
    by blast
  from addFunc_keeps [OF r(1) root] obtain w' where
    "addFuncToVTables vtb slotOf h f w = Some (Inr w')" "sameTables w w'" by blast
  with w show "\<exists>s'. addFuncToVTables vtb slotOf h f w = Some (Inr s') \<and> sameTables v s'"
    using sameTables_simps(2) [of v w] by blast
qed simp

text \<open>What creating the vtables of a class leaves.\<close>

definition created :: "addr \<Rightarrow> store \<Rightarrow> addr \<Rightarrow> bool \<Rightarrow> vtableBuilder \<Rightarrow> vtableBuilder \<Rightarrow> bool" where
  "created vtb h t first v v' \<longleftrightarrow> keys v' = keys v \<union> set (vroots vtb h t) \<and>
     (firstVTable v' = None \<longleftrightarrow> firstVTable v = None \<and> \<not> (first \<and> leads vtb h t))"

definition leadsBy :: "addr \<Rightarrow> store \<Rightarrow> addr list \<Rightarrow> bool" where
  "leadsBy vtb h ps \<longleftrightarrow> (case ps of [] \<Rightarrow> False | p # _ \<Rightarrow> p = vtb \<or> hasVTable (cell h p) \<and> leads vtb h p)"

lemma leads_leadsBy: "leads vtb h t \<longleftrightarrow> leadsBy vtb h (parents (cell h t))"
  by (subst leads_iff) (auto simp: leadsBy_def split: list.split)

lemma createBases_created:
  assumes bases: "\<And>p nm first v. p \<in> set ps \<Longrightarrow> p \<noteq> vtb \<Longrightarrow> hasVTable (cell h p) \<Longrightarrow>
      distinct (vroots vtb h p) \<Longrightarrow> set (vroots vtb h p) \<inter> keys v = {} \<Longrightarrow>
      \<exists>v'. rec p nm first v = Some (Inr v') \<and> created vtb h p first v v'"
    and "distinct (concat (map (baseRoots vtb h t) ps))"
    and "set (concat (map (baseRoots vtb h t) ps)) \<inter> keys v = {}"
  shows "\<exists>v'. iterE (createBase rec vtb fullName h t nm) ps (first, v) = Some (Inr (first \<and> ps = [], v')) \<and>
    keys v' = keys v \<union> set (concat (map (baseRoots vtb h t) ps)) \<and>
    (firstVTable v' = None \<longleftrightarrow> firstVTable v = None \<and> \<not> (first \<and> leadsBy vtb h ps))"
  using assms
proof (induction ps arbitrary: first v)
  case Nil
  then show ?case by (simp add: leadsBy_def)
next
  case (Cons p ps)
  have "\<exists>v1. createBase rec vtb fullName h t nm p (first, v) = Some (Inr (False, v1)) \<and>
      keys v1 = keys v \<union> set (baseRoots vtb h t p) \<and>
      (firstVTable v1 = None \<longleftrightarrow> firstVTable v = None \<and> \<not> (first \<and> leadsBy vtb h (p # ps)))"
  proof -
    consider "p = vtb" | "p \<noteq> vtb" "hasVTable (cell h p)" | "p \<noteq> vtb" "\<not> hasVTable (cell h p)" by blast
    then show ?thesis
    proof cases
      case 1
      then have "t \<notin> keys v" using Cons.prems(3) by (simp add: baseRoots_def)
      then have "map_of (vtables v) t = None" using keys_find by blast
      then have "createVTable t nm first v = Inr (v\<lparr>vtables := mapSet t \<lparr>vname = nm, entries = []\<rparr> (vtables v),
          firstVTable := (if first then Some t else firstVTable v)\<rparr>)" by (simp add: createVTable_def)
      then show ?thesis using 1 set_mapSet [of t "\<lparr>vname = nm, entries = []\<rparr>" "vtables v"]
        by (simp add: createBase_def baseRoots_def leadsBy_def)
    next
      case 2
      let ?nm = "if first then nm else nm @ '':'' @ fullName p"
      have "distinct (vroots vtb h p)" "set (vroots vtb h p) \<inter> keys v = {}"
        using Cons.prems(2,3) 2 by (auto simp: baseRoots_def)
      from Cons.prems(1) [OF _ 2 this, of ?nm first] obtain v1 where
        "rec p ?nm first v = Some (Inr v1)" "created vtb h p first v v1" by auto
      then show ?thesis using 2 by (simp add: createBase_def created_def baseRoots_def leadsBy_def)
    next
      case 3
      then show ?thesis by (simp add: createBase_def baseRoots_def leadsBy_def)
    qed
  qed
  then obtain v1 where v1: "createBase rec vtb fullName h t nm p (first, v) = Some (Inr (False, v1))"
    "keys v1 = keys v \<union> set (baseRoots vtb h t p)"
    "firstVTable v1 = None \<longleftrightarrow> firstVTable v = None \<and> \<not> (first \<and> leadsBy vtb h (p # ps))"
    by (elim exE conjE) (rule that)
  have de: "distinct (concat (map (baseRoots vtb h t) ps))"
    "set (concat (map (baseRoots vtb h t) ps)) \<inter> keys v1 = {}"
    using Cons.prems(2,3) unfolding v1(2) by auto
  have "\<exists>v2. iterE (createBase rec vtb fullName h t nm) ps (False, v1) = Some (Inr (False \<and> ps = [], v2)) \<and>
    keys v2 = keys v1 \<union> set (concat (map (baseRoots vtb h t) ps)) \<and>
    (firstVTable v2 = None \<longleftrightarrow> firstVTable v1 = None \<and> \<not> (False \<and> leadsBy vtb h ps))"
    by (rule Cons.IH [OF _ de], rule Cons.prems(1)) simp_all
  then obtain v2 where
    "iterE (createBase rec vtb fullName h t nm) ps (False, v1) = Some (Inr (False, v2))"
    "keys v2 = keys v1 \<union> set (concat (map (baseRoots vtb h t) ps))"
    "firstVTable v2 = None \<longleftrightarrow> firstVTable v1 = None"
    unfolding simp_thms by (elim exE conjE) (rule that)
  moreover from this(1) v1(1)
  have "iterE (createBase rec vtb fullName h t nm) (p # ps) (first, v) = Some (Inr (False, v2))" by simp
  moreover have "keys v2 = keys v \<union> set (concat (map (baseRoots vtb h t) (p # ps)))"
    using calculation(2) v1(2) by (simp add: Un_assoc)
  ultimately show ?case using v1(3) by (intro exI [of _ v2]) simp
qed

lemma createAllVTables_created:
  assumes ok: "vtable_classes vtb h" and rec: "receivers_ok h"
    and "\<not> appendage (cell h t)" and "t \<noteq> vtb" and "hasVTable (cell h t)"
    and "distinct (vroots vtb h t)" and "set (vroots vtb h t) \<inter> keys v = {}"
  shows "\<exists>v'. createAllVTables vtb slotOf fullName h t nm first v = Some (Inr v') \<and> created vtb h t first v v'"
  using vtable_classesD(1) [OF ok] assms(3-7)
proof (induction t arbitrary: nm first v rule: types.graph_induct)
  case (node t)
  let ?rec = "createAllVTables vtb slotOf fullName h"
  have roots: "vroots vtb h t = concat (map (baseRoots vtb h t) (parents (cell h t)))"
    by (rule vroots_unfold [OF vtable_classesD(1) [OF ok]])
  have bases: "\<exists>v'. ?rec p nm first v = Some (Inr v') \<and> created vtb h p first v v'"
    if "p \<in> set (parents (cell h t))" "p \<noteq> vtb" "hasVTable (cell h p)" "distinct (vroots vtb h p)"
      "set (vroots vtb h p) \<inter> keys v = {}" for p nm first v
    using node.IH [of p] that vtable_classesD(6) [OF ok node.prems(1) that(1)] by simp
  have "distinct (concat (map (baseRoots vtb h t) (parents (cell h t))))"
    "set (concat (map (baseRoots vtb h t) (parents (cell h t)))) \<inter> keys v = {}"
    using node.prems(4,5) unfolding roots .
  note de = this
  have "\<exists>v2. iterE (createBase ?rec vtb fullName h t nm) (parents (cell h t)) (first, v) =
      Some (Inr (first \<and> parents (cell h t) = [], v2)) \<and> keys v2 = keys v \<union> set (vroots vtb h t) \<and>
    (firstVTable v2 = None \<longleftrightarrow> firstVTable v = None \<and> \<not> (first \<and> leads vtb h t))"
    unfolding roots leads_leadsBy
    by (rule createBases_created [OF _ de]) (rule bases; assumption)
  then obtain v2 where v2: "iterE (createBase ?rec vtb fullName h t nm) (parents (cell h t)) (first, v) =
      Some (Inr (first \<and> parents (cell h t) = [], v2))" "keys v2 = keys v \<union> set (vroots vtb h t)"
    "firstVTable v2 = None \<longleftrightarrow> firstVTable v = None \<and> \<not> (first \<and> leads vtb h t)"
    by (elim exE conjE) (rule that)
  have "parents (cell h t) \<noteq> []"
    using node.prems(2,3) vtable_classesD(4) [OF ok, of t] by auto
  moreover obtain v3 where "extendVTables vtb slotOf h t v2 = Some (Inr v3)" "sameTables v2 v3"
    using extendVTables_keeps [OF ok rec, of t v2 slotOf] v2(2) by auto
  ultimately show ?case using v2 node.prems(1,2)
    by (subst createAllVTables.simps) (simp add: created_def sameTables_def)
qed

definition newVTableBuilder :: vtableBuilder where
  "newVTableBuilder = \<lparr>vtables = [], firstVTable = None\<rparr>"

section \<open>Emitting the vtables\<close>

text \<open>
  The vtables are complete, and their struct types agree: all vtables of one name have one size,
  which is that of the type registered under the name, if there is one.
\<close>

definition complete :: "vtableBuilder \<Rightarrow> bool" where
  "complete v \<longleftrightarrow> (\<forall>(t, info) \<in> set (vtables v). None \<notin> set (entries info))"

definition sameSizes :: "structTypes \<Rightarrow> vtableInfo list \<Rightarrow> bool" where
  "sameSizes s is \<longleftrightarrow> (\<exists>size. \<forall>i \<in> set is.
     length (entries i) = size (vname i) \<and> s (vname i) \<in> {None, Some (size (vname i))})"

lemma sameSizes_Cons_None:
  assumes "s (vname i) = None"
  shows "sameSizes s (i # is) \<longleftrightarrow> sameSizes (s(vname i \<mapsto> length (entries i))) is"
proof
  assume "sameSizes s (i # is)"
  then obtain size where "\<forall>j \<in> set (i # is).
     length (entries j) = size (vname j) \<and> s (vname j) \<in> {None, Some (size (vname j))}"
    unfolding sameSizes_def by blast
  then show "sameSizes (s(vname i \<mapsto> length (entries i))) is"
    unfolding sameSizes_def by (intro exI [of _ size]) auto
next
  assume "sameSizes (s(vname i \<mapsto> length (entries i))) is"
  then obtain size where size: "length (entries j) = size (vname j)"
      "(s(vname i \<mapsto> length (entries i))) (vname j) \<in> {None, Some (size (vname j))}"
    if "j \<in> set is" for j
    unfolding sameSizes_def by blast
  show "sameSizes s (i # is)" unfolding sameSizes_def
  proof (intro exI [of _ "size(vname i := length (entries i))"] ballI)
    fix j assume "j \<in> set (i # is)"
    then show "length (entries j) = (size(vname i := length (entries i))) (vname j) \<and>
        s (vname j) \<in> {None, Some ((size(vname i := length (entries i))) (vname j))}"
      using assms size [of j] by (cases "vname j = vname i") auto
  qed
qed

lemma sameSizes_Cons_Some:
  assumes "s (vname i) = Some n"
  shows "sameSizes s (i # is) \<longleftrightarrow> length (entries i) = n \<and> sameSizes s is"
proof
  assume "sameSizes s (i # is)"
  then show "length (entries i) = n \<and> sameSizes s is"
    using assms unfolding sameSizes_def by auto
next
  assume n: "length (entries i) = n \<and> sameSizes s is"
  then obtain size where size: "length (entries j) = size (vname j)"
      "s (vname j) \<in> {None, Some (size (vname j))}" if "j \<in> set is" for j
    unfolding sameSizes_def by blast
  show "sameSizes s (i # is)" unfolding sameSizes_def
  proof (intro exI [of _ "size(vname i := n)"] ballI)
    fix j assume "j \<in> set (i # is)"
    then show "length (entries j) = (size(vname i := n)) (vname j) \<and>
        s (vname j) \<in> {None, Some ((size(vname i := n)) (vname j))}"
      using assms n size [of j] by (cases "vname j = vname i") auto
  qed
qed

text \<open>What the loop over the vtables finds.\<close>

definition tablesOutcome ::
  "(addr, vtableInfo) stdmap \<Rightarrow> structTypes \<Rightarrow> vtableError + structTypes \<Rightarrow> bool" where
  "tablesOutcome ts s r \<longleftrightarrow> (case r of
     Inr s' \<Rightarrow> (\<forall>(t, info) \<in> set ts. None \<notin> set (entries info)) \<and> sameSizes s (map snd ts)
   | Inl e \<Rightarrow> (\<exists>t info. e = NullEntry t \<and> (t, info) \<in> set ts \<and> None \<in> set (entries info)) \<or>
       (\<exists>t info. e = StructSize (vname info) \<and> (t, info) \<in> set ts \<and> \<not> sameSizes s (map snd ts)))"

lemma tablesOutcome_Cons:
  assumes "tablesOutcome rest s' r" and "None \<notin> set (entries info)"
    and "sameSizes s (info # map snd rest) = sameSizes s' (map snd rest)"
  shows "tablesOutcome ((t, info) # rest) s r"
  using assms by (cases r) (auto simp: tablesOutcome_def)

lemma emitTables_outcome: "tablesOutcome ts s (emitTables ts s)"
proof (induction ts s rule: emitTables.induct)
  case (1 s)
  show ?case by (simp add: sameSizes_def tablesOutcome_def)
next
  case (2 t info rest s)
  show ?case
  proof (cases "None \<in> set (entries info)")
    case True
    then show ?thesis by (auto simp: tablesOutcome_def)
  next
    case False
    show ?thesis
    proof (cases "s (vname info)")
      case None
      with tablesOutcome_Cons [OF 2(1) [OF False None] False sameSizes_Cons_None [of s info, OF None]] False
      show ?thesis by (simp del: fun_upd_apply)
    next
      case (Some n)
      note eq = sameSizes_Cons_Some [of s info n, OF Some]
      show ?thesis
      proof (cases "length (entries info) = n")
        case True
        with tablesOutcome_Cons [OF 2(2) [OF False Some True] False] eq Some False
        show ?thesis by simp
      next
        case ne: False
        with eq Some False show ?thesis by (auto simp: tablesOutcome_def)
      qed
    qed
  qed
qed

text \<open>
  C20. For a class whose ancestors \<open>addToAncestors\<close> accepted (no class occurs twice in its
  lineage), when every virtual function of a class has a receiver class that has vtables, creating
  the vtables fails no assertion (no vtable is created twice), and emitting them fails no check of
  the array. Emission succeeds, with an array without gaps, exactly when every entry of every
  vtable has a function, the struct types registered under the names of the vtables have their
  sizes, and the chain of the first bases of the class leads to \<open>VTableBase\<close>. The failures are
  those of the checks of these conditions, the last being the assertion that the class has a first
  vtable, a case the compiler does not refuse before.
\<close>

theorem vtables_built:
  assumes ok: "vtable_classes vtb h" and rec: "receivers_ok h" and c: "vtableBaseType c = Some vtb"
    and t: "\<not> appendage (cell h t)" "t \<noteq> vtb" "hasVTable (cell h t)" and "distinct (lineage c h t)"
  shows "\<exists>v. createAllVTables vtb slotOf fullName h t nm True newVTableBuilder = Some (Inr v) \<and>
    (if complete v \<and> sameSizes structs (map snd (vtables v)) then
       (if leads vtb h t then \<exists>arr s'. emitVTables vtb h layout t v structs = Some (Inr (arr, s')) \<and>
          None \<notin> set arr
        else emitVTables vtb h layout t v structs = Some (Inl NoFirstVTable))
     else (\<exists>u info. emitVTables vtb h layout t v structs = Some (Inl (NullEntry u)) \<and>
          (u, info) \<in> set (vtables v) \<and> None \<in> set (entries info)) \<or>
       (\<exists>u info. emitVTables vtb h layout t v structs = Some (Inl (StructSize (vname info))) \<and>
          (u, info) \<in> set (vtables v) \<and> \<not> sameSizes structs (map snd (vtables v))))"
proof -
  have "distinct (vroots vtb h t)" using vroots_distinct [OF ok c t(2) assms(7)] by simp
  from createAllVTables_created [OF ok rec t this, of newVTableBuilder slotOf fullName nm True]
  obtain v where v: "createAllVTables vtb slotOf fullName h t nm True newVTableBuilder = Some (Inr v)"
    "keys v = set (vroots vtb h t)" "firstVTable v = None \<longleftrightarrow> \<not> leads vtb h t"
    by (auto simp: newVTableBuilder_def created_def)
  have "has_vtables vtb h (keys v) t" using has_vtables_roots [OF ok, of t] v(2) by simp
  from vtables_array_filled [OF ok t(1,2) this, of layout 0] obtain n arr where
    n: "countRootAncestors h t False = Some n" and
    arr: "fillVTablesVar vtb h layout (keys v) t 0 0 (0, replicate (2 * n) None) = Some (Inr (n, arr))"
      "length arr = 2 * n" "None \<notin> set arr" by blast
  note out = emitTables_outcome [of "vtables v" structs]
  show ?thesis
  proof (cases "emitTables (vtables v) structs")
    case (Inr s')
    then have "emitVTables vtb h layout t v structs =
        Some (if firstVTable v = None then Inl NoFirstVTable else Inr (arr, s'))"
      using n arr t(2) by (simp add: emitVTables_def)
    moreover have "complete v" "sameSizes structs (map snd (vtables v))"
      using out Inr by (simp_all add: complete_def tablesOutcome_def)
    ultimately show ?thesis using v(1,3) arr(3) by auto
  next
    case (Inl e)
    then have "emitVTables vtb h layout t v structs = Some (Inl e)" by (simp add: emitVTables_def)
    moreover have "\<not> (complete v \<and> sameSizes structs (map snd (vtables v)))"
      using out Inl by (auto simp: complete_def tablesOutcome_def)
    ultimately show ?thesis using v(1) out Inl by (auto simp: tablesOutcome_def)
  qed
qed

text \<open>
  A hierarchy with two vtables: 0 is \<open>VTableBase\<close>, 1 is \<open>Object\<close> with a virtual function 11 in
  the overload 10, 2 derives from \<open>VTableBase\<close>, 3 derives from 1 and 2.
\<close>

definition sampleClasses :: store where
  "sampleClasses = \<lparr>cell = (\<lambda>a.
     if a = 10 then (newOverloadDef ''f'')\<lparr>funcs := [11]\<rparr>
     else if a = 11 then (newFuncDef 3 ''f'' [])\<lparr>receiverType := Some 1\<rparr>
     else (newTypeDef None [] True 0)\<lparr>hasVTable := a < 4,
       parents := (if a = 1 \<or> a = 2 then [0] else if a = 3 then [1, 2] else []),
       defs := (if a = 1 then [(''f'', 10)] else [])\<rparr>), nextAddr = 12\<rparr>"

lemma sampleClasses_fields:
  "parents (cell sampleClasses a) = (if a = 1 \<or> a = 2 then [0] else if a = 3 then [1, 2] else [])"
  "hasVTable (cell sampleClasses a) \<longleftrightarrow> a < 4"
  "\<not> appendage (cell sampleClasses a)"
  "defs (cell sampleClasses a) = (if a = 1 then [(''f'', 10)] else [])"
  by (simp_all add: sampleClasses_def newOverloadDef_def newFuncDef_def newTypeDef_def blankObj_def)

lemma sampleClasses_ok: "vtable_classes 0 sampleClasses"
proof -
  have pok: "parents_ok sampleClasses"
    unfolding parents_ok_def
    by (rule wf_by_rank [where r = id]) (auto simp: sampleClasses_fields split: if_splits)
  have flag: "(a < 4) = (a = 0 \<or> (\<exists>p \<in> set (parents (cell sampleClasses a)). p < 4))" for a :: nat
  proof -
    consider "a = 0" | "a = 1" | "a = 2" | "a = 3" | "4 \<le> a" by linarith
    then show ?thesis by cases (simp_all add: sampleClasses_fields(1))
  qed
  show ?thesis unfolding vtable_classes_def sampleClasses_fields(2)
    by (intro conjI allI impI ballI; (rule pok | rule flag | simp add: sampleClasses_fields))
qed

lemma sampleClasses_receivers: "receivers_ok sampleClasses"
proof -
  have "ownVirtuals sampleClasses t = (if t = 1 then [11] else [])" for t
    by (simp add: ownVirtuals_def sampleClasses_def newOverloadDef_def newFuncDef_def
        newTypeDef_def blankObj_def isVirtual_def)
  then show ?thesis unfolding receivers_ok_def
    by (auto simp: sampleClasses_def newFuncDef_def newTypeDef_def)
qed

lemma sampleClasses_lineage:
  "lineage \<lparr>vtableBaseType = Some 0, objectType = Some 1\<rparr> sampleClasses 3 = [1, 2, 3]"
  by (simp add: lineage_def walk.simps sampleClasses_def newTypeDef_def)

lemma vtables_array_exact_witness:
  "\<exists>n arr. fillVTablesVar 0 sampleClasses (\<lambda>t i. 8 * int i) {1, 2} 3 0 0 (0, replicate (2 * n) None) =
     Some (Inr (n, arr)) \<and> None \<notin> set arr"
proof -
  have "vroots 0 sampleClasses 3 = [1, 2]"
    by (simp add: vroots_def rootWalk.simps sampleClasses_def newTypeDef_def)
  then have "has_vtables 0 sampleClasses {1, 2} 3"
    using has_vtables_roots [OF sampleClasses_ok, of 3] by simp
  from vtables_array_exact [OF sampleClasses_ok _ _ this, of "\<lambda>t i. 8 * int i" 0]
  show ?thesis by (auto simp: sampleClasses_def newTypeDef_def blankObj_def)
qed

lemma vtables_built_witness:
  "\<exists>v. createAllVTables 0 (\<lambda>_. 0) (\<lambda>_. ''C'') sampleClasses 3 ''vtable'' True newVTableBuilder = Some (Inr v)"
  using vtables_built [OF sampleClasses_ok sampleClasses_receivers, of
      "\<lparr>vtableBaseType = Some 0, objectType = Some 1\<rparr>" 3 "\<lambda>_. 0" "\<lambda>_. ''C''" "''vtable''"
      "\<lambda>_. None" "\<lambda>_ _. 0"]
  unfolding sampleClasses_lineage
  by (auto simp: sampleClasses_def newTypeDef_def blankObj_def)

end
