(* ===== verification/Class_Bases.thy ===== *)
theory Class_Bases
  imports VTable_Create
begin

text \<open>
  The base class list of a class definition: the checks of \<open>Parser::parseClassDef\<close> on each base
  and the part of \<open>LLVMBuilder::emitBeginClass\<close> that gives the class its bases. Together with
  \<open>VTable_Create\<close>: a class the parser accepts can be given its vtables.
\<close>

section \<open>Checking the bases\<close>

datatype baseError = ForwardBase addr | FinalBase addr | VTableBaseNotFirst
  | DifferentAnchor addr | AppendageBase addr | AncestorError ancestorError | NoAnchor addr

record basesState =
  bases :: "addr list"
  ancestors :: "addr list"
  anchorType :: "addr option"

text \<open>One base class; \<open>isAppendage\<close> is true after \<open>=\<close>, false after a colon.\<close>

definition checkBase ::
  "coreTypes \<Rightarrow> store \<Rightarrow> bool \<Rightarrow> addr \<Rightarrow> basesState \<Rightarrow> (baseError + basesState) option" where
  "checkBase c h isAppendage baseClass s =
     (if forward (cell h baseClass) then Some (Inl (ForwardBase baseClass))
      else if final (cell h baseClass) \<and> \<not> isAppendage then Some (Inl (FinalBase baseClass))
      else if Some baseClass = vtableBaseType c \<and> ancestors s \<noteq> [] then Some (Inl VTableBaseNotFirst)
      else if isAppendage then
        Option.bind (getAnchorType h baseClass) (\<lambda>r. case r of
          None \<Rightarrow> Some (Inl (NoAnchor baseClass))
        | Some anchor \<Rightarrow>
            if anchorType s = None then
              Some (Inr (s\<lparr>anchorType := Some anchor, bases := bases s @ [baseClass]\<rparr>))
            else if Some anchor \<noteq> anchorType s then Some (Inl (DifferentAnchor baseClass))
            else Some (Inr (s\<lparr>bases := bases s @ [baseClass]\<rparr>)))
      else if appendage (cell h baseClass) then Some (Inl (AppendageBase baseClass))
      else Option.bind (addToAncestors c h baseClass (ancestors s)) (\<lambda>r. case r of
          Inl e \<Rightarrow> Some (Inl (AncestorError e))
        | Inr anc \<Rightarrow> Some (Inr (s\<lparr>ancestors := anc, bases := bases s @ [baseClass]\<rparr>))))"

text \<open>The whole list, with \<open>Object\<close> as the implicit base of a class without one.\<close>

definition checkBases ::
  "coreTypes \<Rightarrow> store \<Rightarrow> bool \<Rightarrow> addr list \<Rightarrow> (baseError + basesState) option" where
  "checkBases c h isAppendage baseList =
     iterE (checkBase c h isAppendage) baseList \<lparr>bases = [], ancestors = [], anchorType = None\<rparr>"

definition implicitBase :: "coreTypes \<Rightarrow> addr list \<Rightarrow> addr list" where
  "implicitBase c bs = (if bs = [] then (case objectType c of None \<Rightarrow> [] | Some ob \<Rightarrow> [ob]) else bs)"

section \<open>Giving the class its bases\<close>

text \<open>
  \<open>emitBeginClass\<close> for a class object that exists (created just before or forward declared): it is
  no longer forward declared, is an appendage according to the flag, and gets its bases one by one.
\<close>

definition beginClass :: "addr \<Rightarrow> addr list \<Rightarrow> bool \<Rightarrow> store \<Rightarrow> store" where
  "beginClass this bs isAppendage h =
     foldl (\<lambda>h base. addBaseClass this base h)
       (upd this (\<lambda>t. t\<lparr>forward := False, appendage := isAppendage\<rparr>) h) bs"

lemma cell_addBaseClass:
  "cell (addBaseClass this base h) a = (if a = this then (cell h this)\<lparr>
     fieldCount := fieldCount (cell h this) + 1, parents := parents (cell h this) @ [base],
     hasVTable := (hasVTable (cell h base) \<or> hasVTable (cell h this))\<rparr> else cell h a)"
  by (simp add: addBaseClass_def state_simps)

lemma addBaseClasses:
  assumes "this \<notin> set bs"
  shows "cell (foldl (\<lambda>h base. addBaseClass this base h) h bs) a = (if a = this then (cell h this)\<lparr>
     fieldCount := fieldCount (cell h this) + length bs, parents := parents (cell h this) @ bs,
     hasVTable := (hasVTable (cell h this) \<or> (\<exists>b \<in> set bs. hasVTable (cell h b)))\<rparr> else cell h a)"
  using assms
proof (induction bs arbitrary: h)
  case (Cons b bs)
  have ne: "this \<noteq> b" "this \<notin> set bs" using Cons.prems by auto
  have other: "hasVTable (cell (addBaseClass this b h) x) = hasVTable (cell h x)" if "x \<in> set bs" for x
    using that ne by (auto simp: cell_addBaseClass)
  show ?case using ne Cons.IH [OF ne(2), of "addBaseClass this b h"] other
    by (auto simp: cell_addBaseClass disj_ac)
qed simp

lemma beginClass_cell:
  "this \<notin> set bs \<Longrightarrow> cell (beginClass this bs isAppendage h) a = (if a = this then (cell h this)\<lparr>
     forward := False, appendage := isAppendage,
     fieldCount := fieldCount (cell h this) + length bs, parents := parents (cell h this) @ bs,
     hasVTable := (hasVTable (cell h this) \<or> (\<exists>b \<in> set bs. hasVTable (cell h b)))\<rparr> else cell h a)"
proof -
  assume ne: "this \<notin> set bs"
  define h1 where "h1 = upd this (\<lambda>t. t\<lparr>forward := False, appendage := isAppendage\<rparr>) h"
  have ex: "(\<exists>b \<in> set bs. hasVTable (cell h1 b)) = (\<exists>b \<in> set bs. hasVTable (cell h b))"
    using ne by (auto simp: h1_def state_simps)
  show ?thesis unfolding beginClass_def h1_def [symmetric] addBaseClasses [OF ne] ex
    by (simp add: h1_def state_simps)
qed

section \<open>What the checks ensure\<close>

lemma iterE_Cons_Inr:
  "iterE f (x # xs) s = Some (Inr r) \<longleftrightarrow> (\<exists>s1. f x s = Some (Inr s1) \<and> iterE f xs s1 = Some (Inr r))"
proof (cases "f x s")
  case (Some y)
  then show ?thesis by (cases y) simp_all
qed simp

lemma checkBase_accepts:
  assumes "parents_ok h" and "object_root c h" and "distinct (ancestors s)"
    and "checkBase c h False b s = Some (Inr s')"
  shows "bases s' = bases s @ [b]" and "ancestors s' = ancestors s @ lineage c h b"
    and "distinct (ancestors s')" and "\<not> forward (cell h b)" and "\<not> appendage (cell h b)"
    and "\<not> final (cell h b)" and "Some b = vtableBaseType c \<Longrightarrow> ancestors s = []"
proof -
  from addToAncestors_outcome [OF assms(1,2,3), of b] obtain r where
    r: "addToAncestors c h b (ancestors s) = Some r" "outcome c h (ancestors s) (lineage c h b) r" by blast
  from assms(4) have g: "\<not> forward (cell h b) \<and> \<not> appendage (cell h b) \<and> \<not> final (cell h b) \<and>
      (Some b = vtableBaseType c \<longrightarrow> ancestors s = [])"
    and res: "Option.bind (addToAncestors c h b (ancestors s)) (\<lambda>r. case r of
          Inl e \<Rightarrow> Some (Inl (AncestorError e))
        | Inr anc \<Rightarrow> Some (Inr (s\<lparr>ancestors := anc, bases := bases s @ [b]\<rparr>))) = Some (Inr s')"
    by (auto simp: checkBase_def split: if_splits)
  from res r(1) obtain l where l: "r = Inr l" "s' = s\<lparr>ancestors := l, bases := bases s @ [b]\<rparr>"
    by (cases r) auto
  with r(2) have "l = ancestors s @ lineage c h b" "distinct l"
    by (simp_all add: outcome_def accepted_def)
  with g l(2) show "bases s' = bases s @ [b]" "ancestors s' = ancestors s @ lineage c h b"
    "distinct (ancestors s')" "\<not> forward (cell h b)" "\<not> appendage (cell h b)"
    "\<not> final (cell h b)" "Some b = vtableBaseType c \<Longrightarrow> ancestors s = []"
    by simp_all
qed

text \<open>Only at the beginning of the list, possibly several times, can \<open>VTableBase\<close> occur.\<close>

lemma checkBases_accepts:
  assumes "parents_ok h" and "object_root c h" and c: "vtableBaseType c = Some vtb"
    and "iterE (checkBase c h False) bs s = Some (Inr s')" and "distinct (ancestors s)"
  shows "bases s' = bases s @ bs \<and> ancestors s' = ancestors s @ concat (map (lineage c h) bs) \<and>
    distinct (ancestors s') \<and> (\<forall>b \<in> set bs. \<not> forward (cell h b) \<and> \<not> appendage (cell h b) \<and> \<not> final (cell h b)) \<and>
    (\<exists>k rest. bs = replicate k vtb @ rest \<and> vtb \<notin> set rest \<and> (ancestors s \<noteq> [] \<longrightarrow> k = 0))"
  using assms(4,5)
proof (induction bs arbitrary: s)
  case (Cons b bs)
  from Cons.prems(1) obtain s1 where s1: "checkBase c h False b s = Some (Inr s1)"
    "iterE (checkBase c h False) bs s1 = Some (Inr s')"
    unfolding iterE_Cons_Inr by blast
  note b = checkBase_accepts [OF assms(1,2) Cons.prems(2) s1(1)]
  from Cons.IH [OF s1(2) b(3)] have IH: "bases s' = bases s1 @ bs"
    "ancestors s' = ancestors s1 @ concat (map (lineage c h) bs)" "distinct (ancestors s')"
    "\<forall>b \<in> set bs. \<not> forward (cell h b) \<and> \<not> appendage (cell h b) \<and> \<not> final (cell h b)"
    "\<exists>k rest. bs = replicate k vtb @ rest \<and> vtb \<notin> set rest \<and> (ancestors s1 \<noteq> [] \<longrightarrow> k = 0)" by blast+
  from IH(5) obtain k rest where k: "bs = replicate k vtb @ rest" "vtb \<notin> set rest"
    "ancestors s1 \<noteq> [] \<longrightarrow> k = 0" by blast
  have "\<exists>k rest. b # bs = replicate k vtb @ rest \<and> vtb \<notin> set rest \<and> (ancestors s \<noteq> [] \<longrightarrow> k = 0)"
  proof (cases "b = vtb")
    case True
    then have "ancestors s = []" using b(7) c by simp
    then show ?thesis using True k(1,2) by (intro exI [of _ "Suc k"] exI [of _ rest]) simp
  next
    case False
    then have "ancestors s1 \<noteq> []" using b(2) c lineage_unfold [OF assms(1), of c b] by auto
    then show ?thesis using False k by (intro exI [of _ 0] exI [of _ "b # bs"]) simp
  qed
  then show ?case using IH b by simp
qed (auto intro: exI [of _ 0])

text \<open>The bases of an appendage all have its anchor type.\<close>

lemma checkBase_appendage:
  assumes "checkBase c h True b s = Some (Inr s')"
  obtains a where "getAnchorType h b = Some (Some a)" "anchorType s' = Some a"
    "anchorType s \<noteq> None \<Longrightarrow> anchorType s' = anchorType s" "bases s' = bases s @ [b]"
    "\<not> forward (cell h b)"
proof (cases "getAnchorType h b")
  case None
  with assms show ?thesis by (auto simp: checkBase_def split: if_splits)
next
  case (Some r)
  with assms show ?thesis
    by (cases r) (auto simp: checkBase_def split: if_splits intro!: that)
qed

lemma checkBases_appendage:
  "iterE (checkBase c h True) bs s = Some (Inr s') \<Longrightarrow>
   bases s' = bases s @ bs \<and> (anchorType s \<noteq> None \<longrightarrow> anchorType s' = anchorType s) \<and>
   (\<forall>b \<in> set bs. \<not> forward (cell h b) \<and> anchorType s' \<noteq> None \<and>
      getAnchorType h b = Some (anchorType s'))"
proof (induction bs arbitrary: s)
  case (Cons b bs)
  from Cons.prems obtain s1 where s1: "checkBase c h True b s = Some (Inr s1)"
    "iterE (checkBase c h True) bs s1 = Some (Inr s')"
    unfolding iterE_Cons_Inr by blast
  from checkBase_appendage [OF s1(1)] Cons.IH [OF s1(2)] show ?case by (metis append.assoc
      append_Cons append_Nil list.set_cases option.distinct(1) set_ConsD)
qed simp

section \<open>A new class\<close>

text \<open>A class under definition: it has no bases yet, nothing derives from it, and it has no vtable.\<close>

definition fresh_class :: "addr \<Rightarrow> store \<Rightarrow> addr \<Rightarrow> bool" where
  "fresh_class vtb h t \<longleftrightarrow> t \<noteq> vtb \<and> parents (cell h t) = [] \<and> \<not> hasVTable (cell h t) \<and>
     (\<forall>a. t \<notin> set (parents (cell h a)))"

lemma fresh_not_reached:
  assumes "fresh_class vtb h t" and "reaches (parentGraph h) b t" shows "b = t"
proof -
  from assms(2) have "b = t \<or> (\<exists>q. reaches (parentGraph h) b q \<and> t \<in> set (parentGraph h q))"
    using reaches_last [of "parentGraph h" b t] by blast
  then show ?thesis using assms(1) by (auto simp: fresh_class_def)
qed

lemma lineage_upd:
  assumes ok: "parents_ok h" and ok': "parents_ok h'"
    and same: "\<And>a. a \<noteq> t \<Longrightarrow> parents (cell h' a) = parents (cell h a)"
    and "\<not> reaches (parentGraph h) b t"
  shows "lineage c h' b = lineage c h b"
  using ok assms(4)
proof (induction b rule: types.graph_induct)
  case (node b)
  then have "b \<noteq> t" by auto
  have "lineage c h' p = lineage c h p" if "p \<in> set (parents (cell h b))" for p
    using that node reaches_parents [of h b t] by auto
  then have m: "map (lineage c h') (parents (cell h b)) = map (lineage c h) (parents (cell h b))" by simp
  show ?case unfolding lineage_unfold [OF ok, of c b] lineage_unfold [OF ok', of c b] same [OF \<open>b \<noteq> t\<close>] m
    by (rule HOL.refl)
qed


lemma accepted_bases:
  assumes "parents_ok h" and "object_root c h" and "vtableBaseType c = Some vtb" and "bs \<noteq> vtb # vtb # drop 2 bs"
    and "checkBases c h False bs = Some (Inr s)"
  shows "bases s = bs" "ancestors s = concat (map (lineage c h) bs)" "distinct (ancestors s)"
    "\<forall>b \<in> set bs. \<not> forward (cell h b) \<and> \<not> appendage (cell h b) \<and> \<not> final (cell h b)"
    "vtb \<notin> set (tl bs)"
proof -
  from checkBases_accepts [OF assms(1-3) assms(5) [unfolded checkBases_def]]
  have s: "bases s = bs" "ancestors s = concat (map (lineage c h) bs)" "distinct (ancestors s)"
    "\<forall>b \<in> set bs. \<not> forward (cell h b) \<and> \<not> appendage (cell h b) \<and> \<not> final (cell h b)"
    and "\<exists>k rest. bs = replicate k vtb @ rest \<and> vtb \<notin> set rest" by auto
  then obtain k rest where k: "bs = replicate k vtb @ rest" "vtb \<notin> set rest" by blast
  have "k \<le> 1"
  proof (rule ccontr)
    assume "\<not> k \<le> 1"
    then obtain j where "k = Suc (Suc j)" by (metis One_nat_def not_less_eq_eq Suc_le_D)
    with k assms(4) show False by simp
  qed
  then show "vtb \<notin> set (tl bs)" using k by (cases k; cases rest) auto
  show "bases s = bs" "ancestors s = concat (map (lineage c h) bs)" "distinct (ancestors s)"
    "\<forall>b \<in> set bs. \<not> forward (cell h b) \<and> \<not> appendage (cell h b) \<and> \<not> final (cell h b)"
    using s by simp_all
qed

lemma fresh_classD:
  assumes "fresh_class vtb h t"
  shows "t \<noteq> vtb" "parents (cell h t) = []" "\<not> hasVTable (cell h t)" "t \<notin> set (parents (cell h a))"
  using assms by (simp_all add: fresh_class_def)

lemma beginClass_parents:
  assumes "t \<notin> set bs" and "fresh_class vtb h t"
  shows "parents (cell (beginClass t bs ap h) a) = (if a = t then bs else parents (cell h a))"
  using beginClass_cell [OF assms(1), of ap h a] fresh_classD(2) [OF assms(2)] by simp

lemma beginClass_parents_ok:
  assumes "parents_ok h" and "t \<notin> set bs" and "fresh_class vtb h t"
  shows "parents_ok (beginClass t bs ap h)"
proof -
  let ?h = "beginClass t bs ap h"
  note t = fresh_classD [OF assms(3)]
  have "edges (parentGraph ?h) = edges (parentGraph h) \<union> set bs \<times> {t}"
    using t(2) by (auto simp: edges_def beginClass_parents [OF assms(2,3)] parentGraph_def split: if_splits)
  moreover have "wf (set bs \<times> {t})"
    by (rule wf_subset [OF wf_measure [of "\<lambda>x. if x = t then 1 else 0"]]) (use assms(2) in auto)
  moreover have "Domain (edges (parentGraph h)) \<inter> Range (set bs \<times> {t}) = {}"
    using t(4) by (auto simp: edges_def)
  ultimately show ?thesis using assms(1) unfolding parents_ok_def by (metis wf_Un)
qed

lemma beginClass_flag:
  assumes "t \<notin> set bs" and "fresh_class vtb h t"
    and flags: "\<And>a. hasVTable (cell h a) \<longleftrightarrow> a = vtb \<or> (\<exists>p \<in> set (parents (cell h a)). hasVTable (cell h p))"
  shows "hasVTable (cell (beginClass t bs ap h) a) \<longleftrightarrow>
    a = vtb \<or> (\<exists>p \<in> set (parents (cell (beginClass t bs ap h) a)). hasVTable (cell (beginClass t bs ap h) p))"
proof -
  let ?h = "beginClass t bs ap h"
  note t = fresh_classD [OF assms(2)]
  note par = beginClass_parents [OF assms(1,2), of ap]
  have eq: "hasVTable (cell ?h p) = hasVTable (cell h p)" if "p \<noteq> t" for p
    using beginClass_cell [OF assms(1), of ap h p] that by simp
  show ?thesis
  proof (cases "a = t")
    case True
    have "(\<exists>p \<in> set bs. hasVTable (cell ?h p)) = (\<exists>p \<in> set bs. hasVTable (cell h p))"
      using eq assms(1) by metis
    then show ?thesis using True t par [of t] beginClass_cell [OF assms(1), of ap h t] by simp
  next
    case False
    have "(\<exists>p \<in> set (parents (cell h a)). hasVTable (cell ?h p)) =
        (\<exists>p \<in> set (parents (cell h a)). hasVTable (cell h p))"
      using eq t(4) [of a] by metis
    then show ?thesis using False par [of a] eq [OF False] flags [of a] by simp
  qed
qed

lemma beginClass_vtable_classes:
  assumes "vtable_classes vtb h" and "t \<notin> set bs" and "fresh_class vtb h t" and "vtb \<notin> set (tl bs)"
    and "\<And>b. \<not> ap \<Longrightarrow> b \<in> set bs \<Longrightarrow> \<not> appendage (cell h b)"
  shows "vtable_classes vtb (beginClass t bs ap h)"
proof -
  let ?h = "beginClass t bs ap h"
  note okD = vtable_classesD [OF assms(1)]
  note par = beginClass_parents [OF assms(2,3), of ap]
  have app: "appendage (cell ?h a) \<longleftrightarrow> (if a = t then ap else appendage (cell h a))" for a
    using beginClass_cell [OF assms(2), of ap h a] by simp
  show ?thesis unfolding vtable_classes_def
  proof (intro conjI allI impI ballI)
    show "parents_ok ?h" by (rule beginClass_parents_ok [OF okD(1) assms(2,3)])
    show "parents (cell ?h vtb) = []" using par [of vtb] okD(2) fresh_classD(1) [OF assms(3)] by simp
    show "\<not> appendage (cell ?h vtb)" using app [of vtb] okD(3) fresh_classD(1) [OF assms(3)] by simp
    fix a
    show "hasVTable (cell ?h a) \<longleftrightarrow> a = vtb \<or> (\<exists>p \<in> set (parents (cell ?h a)). hasVTable (cell ?h p))"
      by (rule beginClass_flag [OF assms(2,3) okD(4)])
    show "vtb \<notin> set (tl (parents (cell ?h a)))" using par [of a] assms(4) okD(5) [of a] by simp
    fix p assume "\<not> appendage (cell ?h a)" "p \<in> set (parents (cell ?h a))"
    then show "\<not> appendage (cell ?h p)" using par [of a] app [of a] app [of p] assms(2) assms(5) [of p] okD(6) [of a p]
        fresh_classD(4) [OF assms(3), of a]
      by (auto split: if_splits)
  qed
qed

lemma beginClass_lineage:
  assumes "parents_ok h" and "t \<notin> set bs" and "fresh_class vtb h t" and "vtableBaseType c = Some vtb"
  shows "lineage c (beginClass t bs ap h) t = concat (map (lineage c h) bs) @ [t]"
    "t \<notin> set (concat (map (lineage c h) bs))"
proof -
  let ?h = "beginClass t bs ap h"
  note par = beginClass_parents [OF assms(2,3), of ap]
  have far: "\<not> reaches (parentGraph h) b t" if "b \<in> set bs" for b
    using fresh_not_reached [OF assms(3), of b] that assms(2) by blast
  have pok: "parents_ok ?h" by (rule beginClass_parents_ok [OF assms(1-3)])
  have "lineage c ?h b = lineage c h b" if "b \<in> set bs" for b
    by (rule lineage_upd [OF assms(1) pok]) (use par far that in auto)
  then have m: "map (lineage c ?h) bs = map (lineage c h) bs" by simp
  have "parents (cell ?h t) = bs" using par [of t] by simp
  then show "lineage c ?h t = concat (map (lineage c h) bs) @ [t]" unfolding m [symmetric]
    using lineage_unfold [OF pok, of c t] assms(4) fresh_classD(1) [OF assms(3)] by (simp only: option.inject if_False)
  show "t \<notin> set (concat (map (lineage c h) bs))"
    using far lineage_reaches [OF assms(1), of t c] by auto
qed

lemma beginClass_anchor:
  assumes ok: "parents_ok h" and nt: "t \<notin> set (b # bs)" and fresh: "fresh_class vtb h t"
  shows "getAnchorType (beginClass t (b # bs) True h) t = getAnchorType h b"
proof -
  let ?h = "beginClass t (b # bs) True h"
  have same: "getAnchorType ?h x = getAnchorType h x" if "\<not> reaches (parentGraph h) x t" for x
    using ok that
  proof (induction x rule: types.graph_induct)
    case (node x)
    then have "x \<noteq> t" by auto
    then have x: "appendage (cell ?h x) = appendage (cell h x)" "parents (cell ?h x) = parents (cell h x)"
      using beginClass_cell [OF nt, of True h x] by simp_all
    have "getAnchorType ?h p = getAnchorType h p" if "p \<in> set (parents (cell h x))" for p
      using that node reaches_parents [of h x t] by auto
    then show ?case unfolding getAnchorType.simps [of ?h x] getAnchorType.simps [of h x] x
      by (cases "parents (cell h x)") simp_all
  qed
  have t: "appendage (cell ?h t)" "parents (cell ?h t) = b # bs"
    using beginClass_cell [OF nt, of True h t] fresh_classD(2) [OF fresh] by simp_all
  have "\<not> reaches (parentGraph h) b t" using fresh_not_reached [OF fresh, of b] nt by auto
  then show ?thesis using same [of b] t by (simp add: getAnchorType.simps [of ?h t])
qed

text \<open>
  The base \<open>Object\<close>: an instance class, other than \<open>VTableBase\<close> and the new class.
\<close>

definition object_ok :: "coreTypes \<Rightarrow> store \<Rightarrow> addr \<Rightarrow> addr \<Rightarrow> bool" where
  "object_ok c h vtb t \<longleftrightarrow> object_root c h \<and>
     (\<forall>ob. objectType c = Some ob \<longrightarrow> ob \<noteq> vtb \<and> ob \<noteq> t \<and> \<not> appendage (cell h ob))"

lemma implicit_bases:
  assumes "parents_ok h" and "object_ok c h vtb t" and "vtableBaseType c = Some vtb"
    and "t \<notin> set bs" and "bs \<noteq> vtb # vtb # drop 2 bs" and "checkBases c h False bs = Some (Inr s)"
  shows "t \<notin> set (implicitBase c bs)" "vtb \<notin> set (tl (implicitBase c bs))"
    "\<forall>b \<in> set (implicitBase c bs). \<not> appendage (cell h b)"
    "distinct (concat (map (lineage c h) (implicitBase c bs)))"
proof -
  have root: "object_root c h" using assms(2) by (simp add: object_ok_def)
  note s = accepted_bases [OF assms(1) root assms(3,5,6)]
  have "implicitBase c bs = bs \<or> bs = [] \<and> (\<exists>ob. objectType c = Some ob \<and> implicitBase c bs = [ob])"
    by (auto simp: implicitBase_def split: option.split)
  then show "t \<notin> set (implicitBase c bs)" "vtb \<notin> set (tl (implicitBase c bs))"
      "\<forall>b \<in> set (implicitBase c bs). \<not> appendage (cell h b)"
      "distinct (concat (map (lineage c h) (implicitBase c bs)))"
    using s assms(2,3,4) lineage_object [OF assms(1) root] by (auto simp: object_ok_def)
qed

lemma accepted_appendage:
  assumes ok: "vtable_classes vtb h" and fresh: "fresh_class vtb h t" and nt: "t \<notin> set bs"
    and ne: "bs \<noteq> []" and once: "vtb \<notin> set (tl bs)" and chk: "checkBases c h True bs = Some (Inr s)"
  shows "bases s = bs" "\<forall>b\<in>set bs. \<not> forward (cell h b)"
    "vtable_classes vtb (beginClass t bs True h)"
    "anchorType s \<noteq> None" "getAnchorType (beginClass t bs True h) t = Some (anchorType s)"
    "\<forall>b\<in>set bs. getAnchorType h b = Some (anchorType s)"
proof -
  from checkBases_appendage [OF chk [unfolded checkBases_def]] show s: "bases s = bs"
      "\<forall>b\<in>set bs. \<not> forward (cell h b)" "\<forall>b\<in>set bs. getAnchorType h b = Some (anchorType s)"
    and "anchorType s \<noteq> None" using ne by (auto simp: neq_Nil_conv)
  show "vtable_classes vtb (beginClass t bs True h)"
    by (rule beginClass_vtable_classes [OF ok nt fresh once]) simp
  obtain b bs' where b: "bs = b # bs'" using ne by (cases bs) auto
  show "getAnchorType (beginClass t bs True h) t = Some (anchorType s)"
    using beginClass_anchor [OF vtable_classesD(1) [OF ok] nt [unfolded b] fresh] s(3)
    by (simp add: b)
qed

text \<open>
  C21. A class whose base list the parser accepts keeps the class hierarchy well formed, when
  the list names \<open>VTableBase\<close> not twice at its beginning (for an appendage: only as the first
  base); a class without bases gets \<open>Object\<close>. No base is forward declared, and only an appendage
  may have a final one. With the bases it gets, the hierarchy stays acyclic, the vtable flags stay
  right, \<open>VTableBase\<close> is only a first base, and no class but an appendage derives from an
  appendage: the preconditions of creating its vtables. For a class that is no appendage, the
  lineage is that of its bases followed by itself, and no class occurs in it twice. For an
  appendage, all bases have the same anchor type, which becomes the anchor type of the new class.
\<close>

theorem accepted_class_ok:
  assumes ok: "vtable_classes vtb h" and c: "vtableBaseType c = Some vtb" and ob: "object_ok c h vtb t"
    and fresh: "fresh_class vtb h t" and nt: "t \<notin> set bs"
    and once: "if ap then vtb \<notin> set (tl bs) else bs \<noteq> vtb # vtb # drop 2 bs"
    and ne: "ap \<longrightarrow> bs \<noteq> []" and chk: "checkBases c h ap bs = Some (Inr s)"
  shows "bases s = bs \<and> (\<forall>b\<in>set bs. \<not> forward (cell h b) \<and> (final (cell h b) \<longrightarrow> ap)) \<and>
    vtable_classes vtb (beginClass t (implicitBase c bs) ap h) \<and>
    (if ap then anchorType s \<noteq> None \<and> (\<forall>b\<in>set bs. getAnchorType h b = Some (anchorType s)) \<and>
       getAnchorType (beginClass t (implicitBase c bs) ap h) t = Some (anchorType s)
     else lineage c (beginClass t (implicitBase c bs) ap h) t =
         concat (map (lineage c h) (implicitBase c bs)) @ [t] \<and>
       distinct (concat (map (lineage c h) (implicitBase c bs)) @ [t]) \<and>
       ancestors s = concat (map (lineage c h) bs))"
proof (cases ap)
  case True
  then have "implicitBase c bs = bs" using ne by (simp add: implicitBase_def)
  with True accepted_appendage [OF ok fresh nt, of c s] ne once chk show ?thesis by simp
next
  case False
  note pok = vtable_classesD(1) [OF ok]
  have root: "object_root c h" using ob by (simp add: object_ok_def)
  have chk': "checkBases c h False bs = Some (Inr s)" "bs \<noteq> vtb # vtb # drop 2 bs"
    using chk once False by simp_all
  note s = accepted_bases [OF pok root c chk'(2,1)]
  note imp = implicit_bases [OF pok ob c nt chk'(2,1)]
  have "vtable_classes vtb (beginClass t (implicitBase c bs) False h)"
    by (rule beginClass_vtable_classes [OF ok imp(1) fresh imp(2)]) (use imp(3) in blast)
  with s(1-4) imp(4) beginClass_lineage(1) [OF pok imp(1) fresh c, where ap = False] beginClass_lineage(2) [OF pok imp(1) fresh c] False show ?thesis by auto
qed

abbreviation sampleTypes :: coreTypes where
  "sampleTypes \<equiv> \<lparr>vtableBaseType = Some 0, objectType = Some 1\<rparr>"

lemma accepted_class_ok_witness:
  "vtable_classes 0 (beginClass 4 [1, 2] False sampleClasses) \<and>
   lineage sampleTypes (beginClass 4 [1, 2] False sampleClasses) 4 = [1, 2, 4]"
proof -
  have chk: "checkBases sampleTypes sampleClasses False [1, 2] =
      Some (Inr \<lparr>bases = [1, 2], ancestors = [1, 2], anchorType = None\<rparr>)"
    by (simp add: checkBases_def checkBase_def addToAncestors.simps sampleClasses_def newTypeDef_def blankObj_def)
  have ob: "object_ok sampleTypes sampleClasses 0 4"
    by (simp add: object_ok_def object_root_def sampleClasses_fields)
  have fresh: "fresh_class 0 sampleClasses 4"
    by (auto simp: fresh_class_def sampleClasses_fields)
  from accepted_class_ok [OF sampleClasses_ok _ ob fresh _ _ _ chk] show ?thesis
    by (auto simp: implicitBase_def)
qed

text \<open>
  C22. The check that \<open>VTableBase\<close> is the first base is made on the ancestors collected so far,
  to which \<open>VTableBase\<close> itself is never added: a class that names it twice passes all checks,
  and creating its vtables then fails the assertion that the class has no vtable yet.
\<close>

theorem vtable_base_twice:
  assumes ok: "vtable_classes vtb h" and c: "vtableBaseType c = Some vtb"
    and vtb: "\<not> forward (cell h vtb)" "\<not> final (cell h vtb)" and fresh: "fresh_class vtb h t"
  shows "checkBases c h False [vtb, vtb] =
      Some (Inr \<lparr>bases = [vtb, vtb], ancestors = [], anchorType = None\<rparr>) \<and>
    createAllVTables vtb slotOf fullName (beginClass t [vtb, vtb] False h) t nm True newVTableBuilder =
      Some (Inl (VTableExists t))"
proof
  show "checkBases c h False [vtb, vtb] =
      Some (Inr \<lparr>bases = [vtb, vtb], ancestors = [], anchorType = None\<rparr>)"
    using vtb vtable_classesD(3) [OF ok] c
    by (simp add: checkBases_def checkBase_def addToAncestors.simps [of c h vtb])
next
  have t: "t \<noteq> vtb" "parents (cell h t) = []" using fresh by (simp_all add: fresh_class_def)
  then have "getInstanceBases (beginClass t [vtb, vtb] False h) t = Some (Some [vtb, vtb])"
    by (simp add: getInstanceBases_def beginClass_cell)
  with t show "createAllVTables vtb slotOf fullName (beginClass t [vtb, vtb] False h) t nm True newVTableBuilder =
      Some (Inl (VTableExists t))"
    by (subst createAllVTables.simps)
      (simp add: createBase_def createVTable_def newVTableBuilder_def)
qed

lemma vtable_base_twice_witness:
  "createAllVTables 0 (\<lambda>_. 0) (\<lambda>_. ''C'') (beginClass 4 [0, 0] False sampleClasses) 4 ''vtable'' True
     newVTableBuilder = Some (Inl (VTableExists 4))"
proof -
  have "fresh_class 0 sampleClasses 4"
    by (auto simp: fresh_class_def sampleClasses_fields)
  moreover have "\<not> forward (cell sampleClasses 0)" "\<not> final (cell sampleClasses 0)"
    by (simp_all add: sampleClasses_def newTypeDef_def blankObj_def)
  ultimately show ?thesis using vtable_base_twice [OF sampleClasses_ok, of sampleTypes 4] by simp
qed

end
