(* ===== verification/Module_Names.thy ===== *)
theory Module_Names
  imports Types
begin

text \<open>
  Names of modules and types: \<open>ModuleDef::parseCanonicalName\<close> and \<open>joinName\<close>, the names of
  specializations (\<open>TypeDef::getSpecializedName\<close>), and the path to a generic inside its module
  that \<open>TypeDef::getSpecialization\<close> records for the module cache.
\<close>

section \<open>Splitting and joining\<close>

text \<open>
  The loop of \<open>parseCanonicalName\<close>: the nesting of brackets, the characters since the last
  separator, the rest of the name. \<open>None\<close> is the failed assertion at an unmatched \<open>]\<close>.
\<close>

fun parseName :: "nat \<Rightarrow> string \<Rightarrow> string \<Rightarrow> string list option" where
  "parseName nested cur [] = Some [cur]"
| "parseName nested cur (ch # s) =
    (if nested = 0 then
       (if ch = CHR ''.'' then map_option (\<lambda>r. cur # r) (parseName 0 [] s)
        else if ch = CHR ''['' then parseName 1 (cur @ [ch]) s
        else if ch = CHR '']'' then None
        else parseName 0 (cur @ [ch]) s)
     else
       (if ch = CHR ''['' then parseName (nested + 1) (cur @ [ch]) s
        else if ch = CHR '']'' then parseName (nested - 1) (cur @ [ch]) s
        else parseName nested (cur @ [ch]) s))"

definition parseCanonicalName :: "string \<Rightarrow> string list option" where
  "parseCanonicalName nm = parseName 0 [] nm"

fun joinName :: "string list \<Rightarrow> string" where
  "joinName [] = []"
| "joinName [p] = p"
| "joinName (p # ps) = p @ ''.'' @ joinName ps"

text \<open>
  The path of a generic: the loop of \<open>getSpecialization\<close> over the name of the type relative to its
  module, which takes \<open>substr(startOfLastWord, i)\<close> at every period, \<open>i\<close> being the length.
\<close>

fun genericPath :: "string \<Rightarrow> nat \<Rightarrow> nat \<Rightarrow> string \<Rightarrow> string list" where
  "genericPath whole start i [] = [drop start whole]"
| "genericPath whole start i (ch # s) =
    (if ch = CHR ''.'' then take i (drop start whole) # genericPath whole (i + 1) (i + 1) s
     else genericPath whole start (i + 1) s)"

definition genericName :: "string \<Rightarrow> string list" where
  "genericName typeFullName = genericPath typeFullName 0 0 typeFullName"

section \<open>Round trips\<close>

text \<open>A component: brackets match, and periods occur only inside brackets.\<close>

fun part_ok :: "nat \<Rightarrow> string \<Rightarrow> bool" where
  "part_ok d [] \<longleftrightarrow> d = 0"
| "part_ok d (ch # s) \<longleftrightarrow>
    (if ch = CHR ''['' then part_ok (d + 1) s
     else if ch = CHR '']'' then 0 < d \<and> part_ok (d - 1) s
     else (d = 0 \<longrightarrow> ch \<noteq> CHR ''.'') \<and> part_ok d s)"

lemma parseName_append:
  "part_ok d p \<Longrightarrow> parseName d cur (p @ rest) = parseName 0 (cur @ p) rest"
  by (induction d p arbitrary: cur rule: part_ok.induct) (auto split: if_splits)

lemma parse_join:
  "ps \<noteq> [] \<Longrightarrow> \<forall>p \<in> set ps. part_ok 0 p \<Longrightarrow> parseName 0 [] (joinName ps) = Some ps"
proof (induction ps rule: joinName.induct)
  case (2 p)
  then show ?case using parseName_append [of 0 p "[]" "[]"] by simp
next
  case (3 p q ps)
  then show ?case using parseName_append [of 0 p "[]" "''.'' @ joinName (q # ps)"] by simp
qed simp

lemma join_parse:
  "parseName d cur s = Some ps \<Longrightarrow> ps \<noteq> [] \<and> joinName ps = cur @ s"
proof (induction d cur s arbitrary: ps rule: parseName.induct)
  case (2 nested cur ch s)
  show ?case
  proof (cases "nested = 0 \<and> ch = CHR ''.''")
    case True
    with "2.prems" obtain r where r: "ps = cur # r" "parseName 0 [] s = Some r" by auto
    with "2.IH"(1) [of r] True have "r \<noteq> []" "joinName r = s" by auto
    then show ?thesis using r True by (cases r) auto
  next
    case False
    with 2 show ?thesis by (auto split: if_splits)
  qed
qed auto

text \<open>
  C23. \<open>parseCanonicalName\<close> and \<open>joinName\<close> are inverse to each other: the components of a
  canonical name join to the name, and joined components (with periods only inside matching
  brackets) are split into exactly these components.
\<close>

theorem canonicalName_roundtrip:
  "(\<forall>ps. parseCanonicalName nm = Some ps \<longrightarrow> ps \<noteq> [] \<and> joinName ps = nm) \<and>
   (parts \<noteq> [] \<and> (\<forall>p \<in> set parts. part_ok 0 p) \<longrightarrow> parseCanonicalName (joinName parts) = Some parts)"
  using join_parse [of 0 "[]" nm] parse_join [of parts] by (simp add: parseCanonicalName_def)

lemma canonicalName_roundtrip_witness:
  "parseCanonicalName (joinName [''crack'', ''cont'', ''array[a.b]'']) = Some [''crack'', ''cont'', ''array[a.b]'']"
  using canonicalName_roundtrip [of "[]" "[''crack'', ''cont'', ''array[a.b]'']"] by simp

section \<open>Specializations\<close>

text \<open>What may stand between brackets: matching brackets, any periods.\<close>

fun balanced :: "nat \<Rightarrow> string \<Rightarrow> bool" where
  "balanced d [] \<longleftrightarrow> d = 0"
| "balanced d (ch # s) \<longleftrightarrow>
    (if ch = CHR ''['' then balanced (d + 1) s
     else if ch = CHR '']'' then 0 < d \<and> balanced (d - 1) s else balanced d s)"

lemma balanced_append: "balanced d p \<Longrightarrow> balanced e q \<Longrightarrow> balanced (d + e) (p @ q)"
  by (induction d p arbitrary: e rule: balanced.induct) (auto split: if_splits)

lemma balanced_joinTypes: "\<forall>t \<in> set ts. balanced 0 t \<Longrightarrow> balanced 0 (joinTypes ts)"
proof (induction ts rule: joinTypes.induct)
  case (3 t u ts)
  then have "balanced 0 ('','' @ joinTypes (u # ts))" by simp
  with 3 show ?case using balanced_append [of 0 t 0 "'','' @ joinTypes (u # ts)"] by simp
qed simp_all

lemma part_ok_balanced: "balanced d p \<Longrightarrow> part_ok e q \<Longrightarrow> 0 < e \<Longrightarrow> part_ok (d + e) (p @ q)"
  by (induction d p arbitrary: e rule: balanced.induct) (auto split: if_splits)

lemma part_ok_append: "part_ok d p \<Longrightarrow> part_ok 0 q \<Longrightarrow> part_ok d (p @ q)"
  by (induction d p rule: part_ok.induct) (auto split: if_splits)

lemma joinName_snoc: "joinName (ps @ [p]) = (if ps = [] then p else joinName ps @ ''.'' @ p)"
  by (induction ps rule: joinName.induct) auto

text \<open>
  C24. The canonical name of a specialization has the components of the generic's name, the last
  with the parameters in brackets, however many periods the names of the parameters contain.
\<close>

theorem specialization_components:
  assumes "\<forall>p \<in> set (mods @ [nm]). part_ok 0 p" and "\<forall>t \<in> set types. balanced 0 t"
  shows "parseCanonicalName (getSpecializedName (joinName (mods @ [nm])) types) =
    Some (mods @ [getSpecializedName nm types])"
proof -
  have "part_ok 1 (joinTypes types @ '']'')"
    using part_ok_balanced [of 0 "joinTypes types" 1 "'']''"] balanced_joinTypes [OF assms(2)] by simp
  then have "part_ok 0 (''['' @ joinTypes types @ '']'')" by simp
  then have "part_ok 0 (getSpecializedName nm types)"
    using part_ok_append [of 0 nm "''['' @ joinTypes types @ '']''"] assms(1)
    by (simp add: getSpecializedName_def)
  moreover have "getSpecializedName (joinName (mods @ [nm])) types = joinName (mods @ [getSpecializedName nm types])"
    by (simp add: joinName_snoc getSpecializedName_def)
  ultimately show ?thesis using assms(1) parse_join [of "mods @ [getSpecializedName nm types]"]
    by (simp add: parseCanonicalName_def)
qed

lemma specialization_components_witness:
  "parseCanonicalName (getSpecializedName (joinName [''crack'', ''cont'', ''Map'']) [''a.K'', ''b.V'']) =
     Some [''crack'', ''cont'', ''Map[a.K,b.V]'']"
  using specialization_components [of "[''crack'', ''cont'']" "''Map''" "[''a.K'', ''b.V'']"]
  by (simp add: getSpecializedName_def)

section \<open>The path of a generic\<close>

lemma genericPath_word:
  "CHR ''.'' \<notin> set w \<Longrightarrow> genericPath whole start i (w @ s) = genericPath whole start (i + length w) s"
  by (induction w arbitrary: i) auto

text \<open>
  C25. The recorded path of a generic is right for a generic in a module or in one class; for one
  nested in two classes the second component runs on into the third, because the length given to
  \<open>substr\<close> is the position of the period in the whole name.
\<close>

theorem genericName_nesting:
  assumes "CHR ''.'' \<notin> set a" and "CHR ''.'' \<notin> set b" and "CHR ''.'' \<notin> set c"
  shows "genericName (joinName [a]) = [a] \<and> genericName (joinName [a, b]) = [a, b] \<and>
    genericName (joinName [a, b, c]) = [a, b @ ''.'' @ take (length a) c, c]"
proof (intro conjI)
  show "genericName (joinName [a]) = [a]"
    using genericPath_word [OF assms(1), of a 0 0 "[]"] by (simp add: genericName_def)
  show "genericName (joinName [a, b]) = [a, b]"
    using genericPath_word [OF assms(1), of "a @ ''.'' @ b" 0 0 "''.'' @ b"]
      genericPath_word [OF assms(2), of "a @ ''.'' @ b" "Suc (length a)" "Suc (length a)" "[]"]
    by (simp add: genericName_def)
  show "genericName (joinName [a, b, c]) = [a, b @ ''.'' @ take (length a) c, c]"
    using genericPath_word [OF assms(1), of "a @ ''.'' @ b @ ''.'' @ c" 0 0 "''.'' @ b @ ''.'' @ c"]
      genericPath_word [OF assms(2), of "a @ ''.'' @ b @ ''.'' @ c" "Suc (length a)" "Suc (length a)" "''.'' @ c"]
      genericPath_word [OF assms(3), of "a @ ''.'' @ b @ ''.'' @ c" "Suc (Suc (length a + length b))"
        "Suc (Suc (length a + length b))" "[]"]
    by (simp add: genericName_def take_Cons')
qed

lemma genericName_nesting_witness:
  "genericName ''Outer.Inner.Deep'' = [''Outer'', ''Inner.Deep'', ''Deep'']"
  using genericName_nesting [of "''Outer''" "''Inner''" "''Deep''"] by simp

end
