(* ===== verification/Scopes.thy ===== *)
theory Scopes
  imports Types Preorder
begin

text \<open>
  Symbol tables as they are read: lookup of names through the parent namespaces, the module a
  namespace belongs to, lexical scoping, aliases, and the rules that decide whether a definition
  may be imported (\<open>model/Namespace.cc\<close>, \<open>model/VarDef.cc\<close> and the overriding members of
  \<open>TypeDef\<close>, \<open>ModuleDef\<close>, \<open>LocalNamespace\<close>, \<open>CompositeNamespace\<close>). \<open>None\<close> is a recursion
  that does not end or the use of a null pointer.
\<close>

section \<open>Operations\<close>

text \<open>\<open>lookUp(varName, false)\<close> and \<open>lookUp(varName)\<close>\<close>

definition lookUpHere :: "store \<Rightarrow> addr \<Rightarrow> string \<Rightarrow> addr option" where
  "lookUpHere h this varName = map_of (defs (cell h this)) varName"

partial_function (option) lookUp :: "store \<Rightarrow> string \<Rightarrow> addr \<Rightarrow> addr option option" where
  "lookUp h varName this = (case lookUpHere h this varName of
     Some d \<Rightarrow> Some (Some d)
   | None \<Rightarrow> firstM (lookUp h varName) (parents (cell h this)))"

text \<open>\<open>getNamespaceOwner\<close>: the owner of a type or module, the first parent of other namespaces.\<close>

definition getNamespaceOwner :: "store \<Rightarrow> addr \<Rightarrow> addr option" where
  "getNamespaceOwner h this =
     (if isType h this \<or> isModule h this then owner (cell h this)
      else if isNamespace h this then (case parents (cell h this) of [] \<Rightarrow> None | p # _ \<Rightarrow> Some p)
      else None)"

partial_function (option) isScopedTo :: "store \<Rightarrow> addr \<Rightarrow> addr \<Rightarrow> bool option" where
  "isScopedTo h other this =
     (if this = other then Some True
      else case getNamespaceOwner h this of Some w \<Rightarrow> isScopedTo h other w | None \<Rightarrow> Some False)"

partial_function (option) getModule :: "store \<Rightarrow> addr \<Rightarrow> addr option option" where
  "getModule h this = (case kind (cell h this) of
     ModuleObj \<Rightarrow> Some (Some this)
   | TypeObj \<Rightarrow> (case owner (cell h this) of None \<Rightarrow> None | Some w \<Rightarrow> getModule h w)
   | CompositeNS \<Rightarrow> (case parents (cell h this) of [] \<Rightarrow> None | p # _ \<Rightarrow> getModule h p)
   | LocalNS \<Rightarrow> (case parents (cell h this) of [] \<Rightarrow> Some None | p # _ \<Rightarrow> getModule h p)
   | GlobalNS \<Rightarrow> (case parents (cell h this) of [] \<Rightarrow> Some None | p # _ \<Rightarrow> getModule h p)
   | _ \<Rightarrow> None)"

partial_function (option) getRealModule :: "store \<Rightarrow> addr \<Rightarrow> addr option option" where
  "getRealModule h this = Option.bind (getModule h this) (\<lambda>m. case m of
     None \<Rightarrow> Some None
   | Some md \<Rightarrow> (case owner (cell h md) of Some w \<Rightarrow> getRealModule h w | None \<Rightarrow> Some (Some md)))"

partial_function (option) isHiddenScope :: "store \<Rightarrow> addr \<Rightarrow> bool option" where
  "isHiddenScope h this = (case kind (cell h this) of
     ModuleObj \<Rightarrow> Some False
   | TypeObj \<Rightarrow> (case owner (cell h this) of None \<Rightarrow> None | Some w \<Rightarrow> isHiddenScope h w)
   | CompositeNS \<Rightarrow> (case parents (cell h this) of [] \<Rightarrow> None | p # _ \<Rightarrow> isHiddenScope h p)
   | _ \<Rightarrow> Some True)"

text \<open>Aliases.\<close>

definition hasAliasFor :: "store \<Rightarrow> addr \<Rightarrow> addr \<Rightarrow> bool" where
  "hasAliasFor h this def \<longleftrightarrow> (\<exists>e \<in> set (defs (cell h this)). snd e = def)"

definition isAlias :: "store \<Rightarrow> addr \<Rightarrow> addr \<Rightarrow> string \<Rightarrow> bool" where
  "isAlias h this def nm \<longleftrightarrow> owner (cell h def) \<noteq> Some this \<or> nm \<noteq> name (cell h def)"

partial_function (option) hasGenerics :: "store \<Rightarrow> addr \<Rightarrow> bool option" where
  "hasGenerics h this =
     (if isType h this \<and> genericInfo (cell h this) then Some True
      else anyM (\<lambda>d. hasGenerics h d)
        (map snd (filter (\<lambda>e. \<not> isAlias h this (snd e) (fst e) \<and> isNamespace h (snd e)) (defs (cell h this)))))"

text \<open>Names for messages.\<close>

definition getFullName :: "store \<Rightarrow> addr \<Rightarrow> string" where
  "getFullName h this = (case owner (cell h this) of
     Some w \<Rightarrow> if canonicalName (cell h w) \<noteq> [] then canonicalName (cell h w) @ ''.'' @ name (cell h this)
       else name (cell h this)
   | None \<Rightarrow> name (cell h this))"

definition getDisplayName :: "store \<Rightarrow> addr \<Rightarrow> string option" where
  "getDisplayName h this = (case owner (cell h this) of
     None \<Rightarrow> None
   | Some w \<Rightarrow>
       let md = canonicalName (cell h w) in
       if take 6 md = ''.main.'' then
         (let rest = dropWhile (\<lambda>c. c \<noteq> CHR ''.'') (drop 6 md) in
          Some (if rest \<noteq> [] then tl rest @ ''.'' @ name (cell h this) else name (cell h this)))
       else if md = ''.builtin'' then Some (name (cell h this))
       else Some (getFullName h this))"

text \<open>The rules of importing. \<open>name[0]\<close> of an empty name is the terminating zero.\<close>

definition startsWith :: "char \<Rightarrow> string \<Rightarrow> bool" where
  "startsWith c s \<longleftrightarrow> (case s of [] \<Rightarrow> False | x # _ \<Rightarrow> x = c)"

definition isSerializable :: "store \<Rightarrow> addr \<Rightarrow> bool" where
  "isSerializable h this \<longleftrightarrow> \<not> startsWith (CHR '':'') (name (cell h this))"

definition isExported :: "store \<Rightarrow> addr \<Rightarrow> string \<Rightarrow> bool" where
  "isExported h ns nm \<longleftrightarrow> isModule h ns \<and> map_of (exports (cell h ns)) nm \<noteq> None"

definition isImportableFrom :: "store \<Rightarrow> addr \<Rightarrow> addr \<Rightarrow> string \<Rightarrow> bool option" where
  "isImportableFrom h this md impName = (case owner (cell h this) of
     None \<Rightarrow> None
   | Some w \<Rightarrow> map_option (\<lambda>m. m = Some md \<or> map_of (exports (cell h md)) impName \<noteq> None) (getModule h w))"

definition isImportable :: "store \<Rightarrow> addr \<Rightarrow> addr \<Rightarrow> string \<Rightarrow> bool option" where
  "isImportable h this ns nm = (case owner (cell h this) of
     None \<Rightarrow> None
   | Some w \<Rightarrow>
       Option.bind (getRealModule h w) (\<lambda>m1. Option.bind (getRealModule h ns) (\<lambda>m2.
         Option.bind (if m1 = m2 then Some True
             else if isType h w \<and> isType h ns then map_option (\<lambda>d. d \<or> isExported h ns nm) (isDerivedFrom h ns w)
             else Some (isExported h ns nm))
           (\<lambda>visible. Some (visible \<and>
             (exposed (cell h this) \<or> \<not> startsWith (CHR ''_'') nm \<or> isType h w \<and> take 2 nm \<noteq> ''__''))))))"

section \<open>Lookup\<close>

lemma lookUp_first:
  assumes "parents_ok h"
  shows "lookUp h nm ns = Some (case List.find (\<lambda>n. lookUpHere h n nm \<noteq> None) (visited (parentGraph h) ns) of
      None \<Rightarrow> None | Some n \<Rightarrow> lookUpHere h n nm)"
  by (rule types.search_first [OF assms], unfold parentGraph_def, rule lookUp.simps)

text \<open>
  C26. On every acyclic graph of namespaces \<open>lookUp\<close> returns, and its answer is the definition of
  the name in the first namespace that has one, visiting a namespace, then its parents in order,
  each with all its ancestors.
\<close>

theorem lookUp_nearest:
  assumes "parents_ok h"
  shows "lookUp h nm ns = Some (case List.find (\<lambda>n. lookUpHere h n nm \<noteq> None) (visited (parentGraph h) ns) of
      None \<Rightarrow> None | Some n \<Rightarrow> lookUpHere h n nm) \<and>
    (lookUp h nm ns = Some None \<longleftrightarrow> (\<forall>n. reaches (parentGraph h) ns n \<longrightarrow> lookUpHere h n nm = None))"
proof -
  have "(case List.find P xs of None \<Rightarrow> None | Some n \<Rightarrow> f n) = None \<longleftrightarrow> (\<forall>n \<in> set xs. f n = None)"
    if "P = (\<lambda>n. f n \<noteq> None)" for P and f :: "addr \<Rightarrow> addr option" and xs
    unfolding that by (induction xs) auto
  then show ?thesis unfolding lookUp_first [OF assms] by (simp add: types.set_visited [OF assms])
qed

lemma lookUp_nearest_witness:
  "lookUp (upd 0 (\<lambda>t. t\<lparr>defs := [(''f'', 9)]\<rparr>) diamond) ''f'' 3 = Some (Some 9) \<and>
   (\<exists>n. lookUpHere (upd 0 (\<lambda>t. t\<lparr>defs := [(''f'', 9)]\<rparr>) diamond) n ''f'' \<noteq> None)"
proof -
  let ?h = "upd 0 (\<lambda>t. t\<lparr>defs := [(''f'', 9)]\<rparr>) diamond"
  have ok: "parents_ok ?h" using diamond_ok by (simp add: parents_ok_upd)
  have "lookUp ?h ''f'' 3 = Some (Some 9)"
    by (simp add: lookUp.simps lookUpHere_def state_simps diamond_def newTypeDef_def blankObj_def)
  then show ?thesis using lookUp_nearest [OF ok, of "''f''" 3] by auto
qed

section \<open>Scopes\<close>

text \<open>
  The outward chain of a namespace: its owner, the owner of that one, and so on. What the walks
  along it rely on: it ends, types have owners, a composite namespace has parents, and every
  object on it is a namespace.
\<close>

definition scopes_ok :: "store \<Rightarrow> bool" where
  "scopes_ok h \<longleftrightarrow> owners_ok h \<and>
     (\<forall>a. isType h a \<longrightarrow> owner (cell h a) \<noteq> None) \<and>
     (\<forall>a. kind (cell h a) = CompositeNS \<longrightarrow> parents (cell h a) \<noteq> []) \<and>
     (\<forall>a b. b \<in> set (outwards h a) \<longrightarrow> isNamespace h b)"

lemma outwards_owner: "outwards h a = (case getNamespaceOwner h a of None \<Rightarrow> [] | Some w \<Rightarrow> [w])"
  by (cases "kind (cell h a)"; cases "parents (cell h a)"; cases "owner (cell h a)")
    (simp_all add: outwards_def getNamespaceOwner_def isNamespace_def)

lemma isScopedTo_reaches:
  "owners_ok h \<Longrightarrow> isScopedTo h other a = Some (reaches (outwards h) a other)"
proof (drule scopes.search_decides [where P = "\<lambda>a. a = other" and f = "isScopedTo h other" and a = a])
  fix a
  show "isScopedTo h other a = (if a = other then Some True else anyM (isScopedTo h other) (outwards h a))"
    by (subst isScopedTo.simps) (auto simp: outwards_owner split: option.split bind_split)
qed simp

lemma scopes_okD:
  assumes "scopes_ok h"
  shows "owners_ok h" and "isType h a \<Longrightarrow> owner (cell h a) \<noteq> None"
    and "kind (cell h a) = CompositeNS \<Longrightarrow> parents (cell h a) \<noteq> []"
    and "b \<in> set (outwards h a) \<Longrightarrow> isNamespace h b"
  using assms unfolding scopes_ok_def by auto

text \<open>The module of a namespace is the first module on its outward chain.\<close>

lemma getModule_chain:
  assumes "scopes_ok h" and "isNamespace h a"
  shows "getModule h a = Some (List.find (isModule h) (visited (outwards h) a))"
  using scopes_okD(1) [OF assms(1)] assms(2)
proof (induction a rule: scopes.graph_induct)
  case (node a)
  note ok = scopes_okD [OF assms(1)]
  have out: "visited (outwards h) a = a # concat (map (visited (outwards h)) (outwards h a))"
    by (rule scopes.visited_unfold [OF ok(1)])
  have rec: "getModule h b = Some (List.find (isModule h) (visited (outwards h) b))" if "b \<in> set (outwards h a)" for b
    by (rule node(1)) (use that ok(4) [of b a] in auto)
  show ?case unfolding out using node(2) rec ok(2) [of a] ok(3) [of a]
    by (subst getModule.simps)
      (auto simp: isNamespace_def outwards_def split: kind.split option.splits list.splits)
qed

text \<open>The real module is the outermost namespace of the chain, when that is a module.\<close>

lemma getRealModule_chain:
  assumes "scopes_ok h" and "isNamespace h a"
  shows "getRealModule h a = Some (let e = last (visited (outwards h) a) in if isModule h e then Some e else None)"
  using scopes_okD(1) [OF assms(1)] assms(2)
proof (induction a rule: scopes.graph_induct)
  case (node a)
  note ok = scopes_okD [OF assms(1)]
  let ?R = "\<lambda>a. Some (let e = last (visited (outwards h) a) in if isModule h e then Some e else None)"
  have chain: "visited (outwards h) a = a # concat (map (visited (outwards h)) (outwards h a))"
    by (rule scopes.visited_unfold [OF ok(1)])
  have nonempty: "visited (outwards h) b \<noteq> []" for b using scopes.visited_unfold [OF ok(1), of b] by simp
  have rec: "getRealModule h b = ?R b" if "b \<in> set (outwards h a)" for b
    by (rule node(1)) (use that ok(4) [of b a] in auto)
  show ?case
  proof (cases "outwards h a")
    case Nil
    then show ?thesis using node(2) chain ok(2) [of a] ok(3) [of a]
      by (subst getRealModule.simps, subst getModule.simps)
        (auto simp: isNamespace_def outwards_def Let_def split: kind.split option.splits list.splits)
  next
    case (Cons w ws)
    then have one: "outwards h a = [w]" by (auto simp: outwards_owner split: option.splits)
    show ?thesis
    proof (cases "isModule h a")
      case True
      then have "owner (cell h a) = Some w" using one by (simp add: outwards_def split: option.splits)
      with True rec [of w] show ?thesis using one chain nonempty [of w]
        by (subst getRealModule.simps, subst getModule.simps) (simp add: Let_def)
    next
      case False
      then have "getModule h a = getModule h w" using node(2) one ok(2) [of a] ok(3) [of a]
        by (subst getModule.simps) (auto simp: isNamespace_def outwards_def split: option.splits list.splits)
      then have "getRealModule h a = getRealModule h w" by (simp add: getRealModule.simps)
      with rec [of w] show ?thesis using one chain nonempty [of w] by simp
    qed
  qed
qed

lemma isImportable_returns:
  assumes "scopes_ok h" and "parents_ok h" and "owner (cell h d) = Some w" and "isNamespace h w" and "isNamespace h ns"
  shows "\<exists>b. isImportable h d ns nm = Some b"
  unfolding isImportable_def
  using assms(3) getRealModule_chain [OF assms(1,4)] getRealModule_chain [OF assms(1,5)]
    isDerivedFrom_reaches [OF assms(2), of ns w] by (simp split: bind_split)

end
