(* ===== verification/Overload_Search.thy ===== *)
theory Overload_Search
  imports Preorder
begin

text \<open>
  The searches of overload sets share one scheme: the functions of the overload are tried in
  order, the first that matches is the answer unless it is marked deleted, and if none matches
  the parent overloads are searched in order. A match may also change the arguments (they are
  converted), so the arguments are a state the search threads. The locale holds what every such
  search computes; the searches of \<open>OverloadDef\<close> interpret it.
\<close>

section \<open>The loops\<close>

text \<open>The first function that matches, with the arguments after the match.\<close>

primrec firstMatch :: "('f \<Rightarrow> 'q \<Rightarrow> 'q option option) \<Rightarrow> 'f list \<Rightarrow> 'q \<Rightarrow> ('f \<times> 'q) option option" where
  "firstMatch m [] q = Some None"
| "firstMatch m (f # fs) q = Option.bind (m f q) (\<lambda>r. case r of
     None \<Rightarrow> firstMatch m fs q | Some q' \<Rightarrow> Some (Some (f, q')))"

text \<open>The loop over the parents: it stops at the first function found.\<close>

primrec parentsLoop :: "('a \<Rightarrow> 'q \<Rightarrow> ('f option \<times> 'q) option) \<Rightarrow> 'a list \<Rightarrow> 'q \<Rightarrow> ('f option \<times> 'q) option" where
  "parentsLoop s [] q = Some (None, q)"
| "parentsLoop s (p # ps) q = Option.bind (s p q) (\<lambda>(r, q').
     if r = None then parentsLoop s ps q' else Some (r, q'))"

lemma parentsLoop_mono [partial_function_mono]:
  assumes "\<And>x q. mono_option (\<lambda>f. B f x q)"
  shows "mono_option (\<lambda>f. parentsLoop (B f) xs q)"
proof (induction xs arbitrary: q)
  case (Cons x xs)
  have "mono_option (\<lambda>f. if a = None then parentsLoop (B f) xs q' else Some (a, q'))" for a q'
    by (cases "a = None") (simp_all add: Cons option.const_mono del: not_None_eq)
  then have "mono_option (\<lambda>f. case r of (a, q') \<Rightarrow> if a = None then parentsLoop (B f) xs q' else Some (a, q'))" for r
    by (cases r) simp
  then show ?case unfolding parentsLoop.simps by (intro bind_mono assms)
qed (simp add: option.const_mono)

lemma firstMatch_total:
  "(\<And>f q. f \<in> set fs \<Longrightarrow> m f q = Some (M f q)) \<Longrightarrow>
   firstMatch m fs q = Some (case List.find (\<lambda>f. M f q \<noteq> None) fs of
     None \<Rightarrow> None | Some f \<Rightarrow> Some (f, the (M f q)))"
  by (induction fs) (auto split: option.splits)

section \<open>The nearest matches\<close>

text \<open>
  The matches that no other match is in front of: the overload's own, or when it has none those
  of its parents. \<open>m\<close> gives the first function of an overload that matches.
\<close>

definition nearestMatches :: "('a \<Rightarrow> 'a list) \<Rightarrow> ('a \<Rightarrow> 'f option) \<Rightarrow> 'a \<Rightarrow> 'f list" where
  "nearestMatches succ m a =
     List.map_filter m (visited (\<lambda>b. if m b = None then succ b else []) a)"

interpretation graphs: object_graph "\<lambda>succ. succ" "\<lambda>succ. wf (edges succ)"
  by unfold_locales

lemma nearestMatches_unfold:
  assumes "wf (edges succ)"
  shows "nearestMatches succ m a =
    (case m a of Some f \<Rightarrow> [f] | None \<Rightarrow> concat (map (nearestMatches succ m) (succ a)))"
proof -
  let ?g = "\<lambda>b. if m b = None then succ b else []"
  have wf: "wf (edges ?g)"
    by (rule wf_subset [OF assms]) (auto simp: edges_def split: if_splits)
  have "List.map_filter m (concat (map v xs)) = concat (map (\<lambda>x. List.map_filter m (v x)) xs)"
    for v :: "'a \<Rightarrow> 'a list" and xs
    by (induction xs) (simp_all add: map_filter_def)
  then show ?thesis
    unfolding nearestMatches_def [abs_def] graphs.visited_unfold [OF wf, of a]
    by (auto simp: map_filter_simps split: option.split)
qed

section \<open>What a search computes\<close>

text \<open>
  The reference: the functions of an overload and of its ancestors in the order of the search,
  each with the overload it was found in.
\<close>

definition candidates :: "('a \<Rightarrow> 'a list) \<Rightarrow> ('a \<Rightarrow> 'f list) \<Rightarrow> 'a \<Rightarrow> ('a \<times> 'f) list" where
  "candidates succ fns a = concat (map (\<lambda>b. map (Pair b) (fns b)) (visited succ a))"

text \<open>
  \<open>fnsOf s a\<close> are the functions of the overload \<open>a\<close>, \<open>pick s a f q\<close> the arguments after \<open>f\<close> was matched
  with \<open>q\<close> (\<open>None\<close> when it does not match), \<open>isDeleted\<close> the mark.
\<close>

locale overload_search = object_graph succ acyc
  for succ :: "'s \<Rightarrow> 'a \<Rightarrow> 'a list" and acyc :: "'s \<Rightarrow> bool" +
  fixes fnsOf :: "'s \<Rightarrow> 'a \<Rightarrow> 'f list" and pick :: "'s \<Rightarrow> 'a \<Rightarrow> 'f \<Rightarrow> 'q \<Rightarrow> 'q option"
    and isDeleted :: "'s \<Rightarrow> 'f \<Rightarrow> bool" and search :: "'s \<Rightarrow> 'a \<Rightarrow> 'q \<Rightarrow> ('f option \<times> 'q) option"
  assumes search_unfold: "acyc s \<Longrightarrow> search s a q =
    (case List.find (\<lambda>f. pick s a f q \<noteq> None) (fnsOf s a) of
       Some f \<Rightarrow> Some (if isDeleted s f then None else Some f, the (pick s a f q))
     | None \<Rightarrow> parentsLoop (search s) (succ s a) q)"
begin

text \<open>The search returns.\<close>

lemma search_returns:
  assumes "acyc s"
  shows "\<exists>r. search s a q = Some r"
  using assms
proof (induction a arbitrary: q rule: graph_induct)
  case (node a)
  have "\<exists>r. parentsLoop (search s) ps q = Some r" if "set ps \<subseteq> set (succ s a)" for ps q
    using that
  proof (induction ps arbitrary: q)
    case (Cons p ps)
    then obtain r q' where "search s p q = Some (r, q')" using node [of p q] by auto
    with Cons show ?case by auto
  qed simp
  from this [of "succ s a" q] show ?case
    by (subst search_unfold [OF assms]) (auto split: option.split)
qed

text \<open>A search never answers with a deleted function.\<close>

lemma search_not_deleted:
  assumes "acyc s"
  shows "search s a q = Some (Some f, q') \<Longrightarrow> \<not> isDeleted s f"
  using assms
proof (induction a arbitrary: q rule: graph_induct)
  case (node a)
  have "\<not> isDeleted s f" if "parentsLoop (search s) ps q = Some (Some f, q')" "set ps \<subseteq> set (succ s a)" for ps q
    using that
  proof (induction ps arbitrary: q)
    case (Cons p ps)
    obtain r q1 where r: "search s p q = Some (r, q1)" using search_returns [OF assms] by (metis surj_pair)
    show ?case
    proof (cases r)
      case None
      with Cons r show ?thesis by simp
    next
      case (Some g)
      with r Cons.prems have "search s p q = Some (Some f, q')" by simp
      then show ?thesis using node(1) [of p q] Cons.prems(2) by simp
    qed
  qed simp
  with node(2) show ?case
    by (subst (asm) search_unfold [OF assms]) (auto split: option.splits if_splits)
qed

text \<open>
  A search that changes no arguments answers with the first of the nearest matches that is not
  deleted: a deleted function hides what is behind it, but not what the other parents have.
\<close>

lemma search_nearest:
  assumes "acyc s" and pure: "\<And>b f q'. pick s b f q = Some q' \<Longrightarrow> q' = q"
  shows "search s a q = Some (List.find (\<lambda>f. \<not> isDeleted s f) (nearestMatches (succ s)
    (\<lambda>b. List.find (\<lambda>f. pick s b f q \<noteq> None) (fnsOf s b)) a), q)"
  using assms(1)
proof (induction a rule: graph_induct)
  case (node a)
  let ?m = "\<lambda>b. List.find (\<lambda>f. pick s b f q \<noteq> None) (fnsOf s b)"
  let ?N = "nearestMatches (succ s) ?m"
  have loop: "parentsLoop (search s) ps q =
      Some (List.find (\<lambda>f. \<not> isDeleted s f) (concat (map ?N ps)), q)" if "set ps \<subseteq> set (succ s a)" for ps
    using that node by (induction ps) (auto simp: find_append split: option.splits)
  have keep: "the (pick s a f q) = q" if "?m a = Some f" for f
    using find_SomeD [OF that] pure by fastforce
  show ?case
    unfolding nearestMatches_unfold [OF acyclic [OF assms(1)], of ?m a]
    by (subst search_unfold [OF assms(1)]) (auto simp: loop keep split: option.split)
qed

text \<open>Whatever the arguments, the answer is a function of the flattened overload.\<close>

lemma search_candidate:
  assumes "acyc s"
  shows "search s a q = Some (Some f, q') \<Longrightarrow> \<exists>b. reaches (succ s) a b \<and> f \<in> set (fnsOf s b)"
  using assms
proof (induction a arbitrary: q rule: graph_induct)
  case (node a)
  have "\<exists>p \<in> set ps. \<exists>q1. search s p q1 = Some (Some f, q')"
    if "parentsLoop (search s) ps q = Some (Some f, q')" for ps q
    using that
  proof (induction ps arbitrary: q)
    case (Cons p ps)
    obtain r q1 where r: "search s p q = Some (r, q1)" using search_returns [OF assms] by (metis surj_pair)
    with Cons show ?case by (cases r) auto
  qed simp
  note loop = this
  show ?case
  proof (cases "List.find (\<lambda>f. pick s a f q \<noteq> None) (fnsOf s a)")
    case (Some g)
    with node(2) find_SomeD [OF Some] have "f \<in> set (fnsOf s a)"
      by (subst (asm) search_unfold [OF assms]) (auto split: if_splits)
    then show ?thesis by blast
  next
    case None
    with node(2) have "parentsLoop (search s) (succ s a) q = Some (Some f, q')"
      by (subst (asm) search_unfold [OF assms]) simp
    from loop [OF this] obtain p q1 where p: "p \<in> set (succ s a)" "search s p q1 = Some (Some f, q')"
      by blast
    from node(1) [OF this] obtain b where "reaches (succ s) p b" "f \<in> set (fnsOf s b)" by blast
    with p(1) show ?thesis by (blast intro: reaches_step)
  qed
qed

text \<open>When no function reached is deleted, the search is that of the flattened overload.\<close>

lemma candidates_unfold:
  assumes "acyc s"
  shows "candidates (succ s) fns a = map (Pair a) (fns a) @ concat (map (candidates (succ s) fns) (succ s a))"
proof -
  have "concat (map f (concat (map v ps))) = concat (map (\<lambda>p. concat (map f (v p))) ps)"
    for f :: "'a \<Rightarrow> ('a \<times> 'b) list" and v :: "'a \<Rightarrow> 'a list" and ps
    by (induction ps) auto
  then show ?thesis by (simp add: candidates_def [abs_def] visited_unfold [OF assms, of a])
qed

lemma search_flattened:
  assumes "acyc s" and "\<forall>(b, f) \<in> set (candidates (succ s) (fnsOf s) a). \<not> isDeleted s f"
  shows "search s a q = Some (case List.find (\<lambda>(b, f). pick s b f q \<noteq> None) (candidates (succ s) (fnsOf s) a) of
    None \<Rightarrow> (None, q) | Some (b, f) \<Rightarrow> (Some f, the (pick s b f q)))"
  using assms
proof (induction a rule: graph_induct)
  case (node a)
  let ?P = "\<lambda>(b, f). pick s b f q \<noteq> None" and ?C = "candidates (succ s) (fnsOf s)"
  let ?res = "\<lambda>vs. case List.find ?P vs of None \<Rightarrow> (None, q) | Some (b, f) \<Rightarrow> (Some f, the (pick s b f q))"
  have loop: "parentsLoop (search s) ps q = Some (?res (concat (map ?C ps)))" if "set ps \<subseteq> set (succ s a)" for ps
    using that
  proof (induction ps)
    case (Cons p ps)
    have "\<forall>(b, f) \<in> set (?C p). \<not> isDeleted s f"
      using node(2) Cons.prems candidates_unfold [OF assms(1), of "fnsOf s" a] by auto
    then have "search s p q = Some (?res (?C p))" using node(1) [of p] Cons.prems by auto
    with Cons show ?case by (auto simp: find_append split: option.splits prod.splits)
  qed simp
  have "List.find ?P (map (Pair a) fs) = map_option (Pair a) (List.find (\<lambda>f. pick s a f q \<noteq> None) fs)" for fs
    by (induction fs) auto
  moreover have "\<not> isDeleted s f" if "List.find (\<lambda>f. pick s a f q \<noteq> None) (fnsOf s a) = Some f" for f
    using that node(2) candidates_unfold [OF assms(1), of "fnsOf s" a] by (fastforce simp: find_Some_iff)
  ultimately show ?case
    by (subst search_unfold [OF assms(1)])
      (auto simp: find_append loop candidates_unfold [OF assms(1), of "fnsOf s" a] split: option.splits)
qed

end

end
