(* ===== verification/Overloads.thy ===== *)
theory Overloads
  imports Scopes Overload_Search
begin

text \<open>
  Functions and overloads (\<open>model/FuncDef.cc\<close>, \<open>model/OverloadDef.cc\<close>): how a call selects a
  function. An overload holds the functions of a name in one namespace and has the overloads of
  the name in the enclosing and base namespaces as its parents.
\<close>

section \<open>Functions\<close>

definition hasFlag :: "store \<Rightarrow> addr \<Rightarrow> 32 word \<Rightarrow> bool" where
  "hasFlag h f fl \<longleftrightarrow> and (flags (cell h f)) fl \<noteq> 0"

abbreviation methodFlag :: "32 word" where "methodFlag \<equiv> 1"
abbreviation virtualizedFlag :: "32 word" where "virtualizedFlag \<equiv> 2"
abbreviation forwardFlag :: "32 word" where "forwardFlag \<equiv> 4"
abbreviation abstractFlag :: "32 word" where "abstractFlag \<equiv> 32"
abbreviation builtinFlag :: "32 word" where "builtinFlag \<equiv> 64"
abbreviation deletedFlag :: "32 word" where "deletedFlag \<equiv> 256"

definition isOverridable :: "store \<Rightarrow> addr \<Rightarrow> bool" where
  "isOverridable h f \<longleftrightarrow> hasFlag h f virtualizedFlag \<or> name (cell h f) = ''oper init'' \<or> hasFlag h f forwardFlag"

definition isStatic :: "store \<Rightarrow> addr \<Rightarrow> bool" where
  "isStatic h f \<longleftrightarrow> \<not> hasFlag h f methodFlag"

definition isVirtualOverride :: "store \<Rightarrow> addr \<Rightarrow> bool" where
  "isVirtualOverride h f \<longleftrightarrow> hasFlag h f virtualizedFlag \<and> receiverType (cell h f) \<noteq> owner (cell h f)"

definition isAliasIn :: "store \<Rightarrow> addr \<Rightarrow> addr \<Rightarrow> bool" where
  "isAliasIn h f ovld \<longleftrightarrow> owner (cell h ovld) \<noteq> owner (cell h f) \<or> name (cell h ovld) \<noteq> name (cell h f)"

definition isSerializableFunc :: "store \<Rightarrow> addr \<Rightarrow> bool" where
  "isSerializableFunc h f \<longleftrightarrow> isSerializable h f \<and> \<not> hasFlag h f builtinFlag"

text \<open>\<open>matches(args)\<close> and \<open>matchesWithNames(args)\<close>: the loops over both lists and the final check.\<close>

type_synonym signature = "(string \<times> addr) list"

fun matchesSig :: "signature \<Rightarrow> signature \<Rightarrow> bool" where
  "matchesSig ((_, t) # as) ((_, u) # bs) \<longleftrightarrow> t = u \<and> matchesSig as bs"
| "matchesSig as bs \<longleftrightarrow> as = [] \<and> bs = []"

fun matchesWithNames :: "signature \<Rightarrow> signature \<Rightarrow> bool" where
  "matchesWithNames ((n, t) # as) ((m, u) # bs) \<longleftrightarrow> t = u \<and> n = m \<and> matchesWithNames as bs"
| "matchesWithNames as bs \<longleftrightarrow> as = [] \<and> bs = []"

text \<open>
  Matching of argument expressions. The members of \<open>Expr\<close> that the matching calls are virtual and
  overridden by the kinds of expressions: the type of a value (null for a reference to an
  overload), whether it adapts to other types (a constant does), and its conversion to a type.
\<close>

record 'e exprOps =
  valType :: "'e \<Rightarrow> addr option"
  isAdaptive :: "'e \<Rightarrow> bool"
  convertTo :: "'e \<Rightarrow> addr \<Rightarrow> 'e option"

datatype convertFlag = noConvert | adapt | adaptSecondary | convertAll

definition matchValue ::
  "'e exprOps \<Rightarrow> store \<Rightarrow> convertFlag \<Rightarrow> nat \<Rightarrow> addr \<Rightarrow> 'e \<Rightarrow> 'e option option" where
  "matchValue ops h fl i ty v =
     (let same = (case valType ops v of
        None \<Rightarrow> Some None | Some t \<Rightarrow> map_option (\<lambda>b. if b then Some v else None) (matches h ty t)) in
      case fl of
        noConvert \<Rightarrow> same
      | convertAll \<Rightarrow> Some (convertTo ops v ty)
      | _ \<Rightarrow> if (fl = adapt \<or> i \<noteq> 0) \<and> isAdaptive ops v then Some (convertTo ops v ty) else same)"

fun matchValues ::
  "'e exprOps \<Rightarrow> store \<Rightarrow> convertFlag \<Rightarrow> nat \<Rightarrow> signature \<Rightarrow> 'e list \<Rightarrow> 'e list option option" where
  "matchValues ops h fl i ((_, ty) # as) (v # vs) =
     Option.bind (matchValue ops h fl i ty v) (\<lambda>r. case r of
       None \<Rightarrow> Some None
     | Some v' \<Rightarrow> map_option (map_option ((#) v')) (matchValues ops h fl (i + 1) as vs))"
| "matchValues ops h fl i as vs = Some (if as = [] \<and> vs = [] then Some [] else None)"

section \<open>Overloads\<close>

partial_function (option) flatten :: "store \<Rightarrow> addr \<Rightarrow> addr list option" where
  "flatten h this = Option.bind (concatM (flatten h) (parents (cell h this)))
     (\<lambda>fs. Some (funcs (cell h this) @ fs))"

definition nullIfDeleted :: "store \<Rightarrow> addr \<Rightarrow> addr option" where
  "nullIfDeleted h f = (if hasFlag h f deletedFlag then None else Some f)"

text \<open>
  \<open>getMatch(context, args, convertFlag, allowOverrides)\<close>: the arguments are passed by reference and
  replaced by the converted ones when a function matches, also when that function is deleted.
\<close>

definition tryFunc :: "'e exprOps \<Rightarrow> store \<Rightarrow> convertFlag \<Rightarrow> bool \<Rightarrow> addr \<Rightarrow> 'e list \<Rightarrow> 'e list option option" where
  "tryFunc ops h fl allowOverrides f vals =
     (if \<not> allowOverrides \<and> isVirtualOverride h f then Some None
      else matchValues ops h fl 0 (args (cell h f)) vals)"

partial_function (option) getMatchWith ::
  "'e exprOps \<Rightarrow> store \<Rightarrow> convertFlag \<Rightarrow> bool \<Rightarrow> addr \<Rightarrow> 'e list \<Rightarrow> (addr option \<times> 'e list) option" where
  "getMatchWith ops h fl allowOverrides this vals =
     Option.bind (firstMatch (tryFunc ops h fl allowOverrides) (funcs (cell h this)) vals) (\<lambda>r. case r of
       Some (f, newVals) \<Rightarrow> Some (nullIfDeleted h f, if fl \<noteq> noConvert then newVals else vals)
     | None \<Rightarrow> parentsLoop (getMatchWith ops h fl allowOverrides) (parents (cell h this)) vals)"

definition convertFlagFor :: "'e exprOps \<Rightarrow> 'e list \<Rightarrow> convertFlag" where
  "convertFlagFor ops vals =
     (if list_all (isAdaptive ops) vals then adaptSecondary
      else if list_ex (isAdaptive ops) vals then adapt else noConvert)"

definition getMatch ::
  "'e exprOps \<Rightarrow> store \<Rightarrow> bool \<Rightarrow> addr \<Rightarrow> 'e list \<Rightarrow> (addr option \<times> 'e list) option" where
  "getMatch ops h allowOverrides this vals =
     Option.bind (getMatchWith ops h (convertFlagFor ops vals) allowOverrides this vals) (\<lambda>(r, vals').
       if r = None then getMatchWith ops h convertAll allowOverrides this vals' else Some (r, vals'))"

text \<open>\<open>getMatch(funcType)\<close>, \<open>getSigMatch\<close> and \<open>getNoArgMatch\<close>\<close>

partial_function (option) getTypeMatch :: "store \<Rightarrow> addr \<Rightarrow> addr \<Rightarrow> addr option option" where
  "getTypeMatch h funcType this =
     Option.bind (firstMatch (\<lambda>f u. case deftype (cell h f) of
         None \<Rightarrow> None
       | Some t \<Rightarrow> map_option (\<lambda>b. if b then Some u else None) (isDerivedFrom h t funcType))
       (funcs (cell h this)) ()) (\<lambda>r. case r of
         Some (f, _) \<Rightarrow> Some (nullIfDeleted h f)
       | None \<Rightarrow> firstM (getTypeMatch h funcType) (parents (cell h this)))"

partial_function (option) getSigMatch :: "store \<Rightarrow> signature \<Rightarrow> bool \<Rightarrow> addr \<Rightarrow> addr option option" where
  "getSigMatch h sig matchNames this =
     (case List.find (\<lambda>f. \<not> matchNames \<and> matchesSig (args (cell h f)) sig \<or>
         matchNames \<and> matchesWithNames (args (cell h f)) sig) (funcs (cell h this)) of
       Some f \<Rightarrow> Some (nullIfDeleted h f)
     | None \<Rightarrow> firstM (getSigMatch h sig matchNames) (parents (cell h this)))"

partial_function (option) getNoArgMatch :: "store \<Rightarrow> bool \<Rightarrow> addr \<Rightarrow> addr option option" where
  "getNoArgMatch h acceptAlias this =
     (case List.find (\<lambda>f. args (cell h f) = [] \<and> (acceptAlias \<or> owner (cell h f) = owner (cell h this)))
         (funcs (cell h this)) of
       Some f \<Rightarrow> Some (nullIfDeleted h f)
     | None \<Rightarrow> firstM (getNoArgMatch h acceptAlias) (parents (cell h this)))"

text \<open>Changes of an overload. The first function added gives the overload its type and its implementation.\<close>

definition addFunc :: "addr \<Rightarrow> addr \<Rightarrow> store \<Rightarrow> store" where
  "addFunc this func h = upd this (\<lambda>ob. ob\<lparr>
     deftype := (if funcs ob = [] then deftype (cell h func) else deftype ob),
     hasImpl := (if funcs ob = [] then hasImpl (cell h func) else hasImpl ob),
     funcs := funcs ob @ [func]\<rparr>) h"

definition addParent :: "addr \<Rightarrow> addr \<Rightarrow> bool \<Rightarrow> store \<Rightarrow> store" where
  "addParent this parent before h = upd this (\<lambda>ob. ob\<lparr>
     parents := (if before then parent # parents ob else parents ob @ [parent])\<rparr>) h"

partial_function (option) collectAncestors :: "addr \<Rightarrow> addr \<Rightarrow> store \<Rightarrow> store option" where
  "collectAncestors this ns h =
     iterM (\<lambda>parent h.
         if take 2 (name (cell h this)) = ''__'' \<and> isType h ns \<and> isType h parent then Some h
         else case lookUpHere h parent (name (cell h this)) of
           None \<Rightarrow> collectAncestors this parent h
         | Some var \<Rightarrow> Some (if isOverload h var then addParent this var False h else h))
       (parents (cell h ns)) h"

text \<open>
  \<open>createImpl\<close>: an overload without an implementation takes that of the first parent that gets
  one. \<open>Inl ()\<close> is the failed assertion that there is one in the end.
\<close>

primrec implFrom ::
  "(addr \<Rightarrow> store \<Rightarrow> (unit + store) option) \<Rightarrow> addr \<Rightarrow> addr list \<Rightarrow> store \<Rightarrow> (unit + store) option" where
  "implFrom rec this [] h = Some (Inl ())"
| "implFrom rec this (p # ps) h = Option.bind (rec p h) (\<lambda>r. case r of
     Inl e \<Rightarrow> Some (Inl e)
   | Inr h1 \<Rightarrow> if hasImpl (cell h1 p) then Some (Inr (upd this (\<lambda>ob. ob\<lparr>hasImpl := True\<rparr>) h1))
       else implFrom rec this ps h1)"

lemma implFrom_mono [partial_function_mono]:
  assumes "\<And>p h. mono_option (\<lambda>f. B f p h)"
  shows "mono_option (\<lambda>f. implFrom (B f) this ps h)"
proof (induction ps arbitrary: h)
  case (Cons p ps)
  have "mono_option (\<lambda>f. case r of Inl e \<Rightarrow> Some (Inl e)
      | Inr h1 \<Rightarrow> if hasImpl (cell h1 p) then Some (Inr (upd this (\<lambda>ob. ob\<lparr>hasImpl := True\<rparr>) h1))
          else implFrom (B f) this ps h1)" for r
    by (cases r; cases "hasImpl (cell (projr r) p)") (simp_all add: Cons option.const_mono)
  then show ?case unfolding implFrom.simps by (intro bind_mono assms)
qed (simp add: option.const_mono)

partial_function (option) createImpl :: "addr \<Rightarrow> store \<Rightarrow> (unit + store) option" where
  "createImpl this h =
     (if hasImpl (cell h this) then Some (Inr h) else implFrom createImpl this (parents (cell h this)) h)"

definition hasParent :: "store \<Rightarrow> addr \<Rightarrow> addr \<Rightarrow> bool" where
  "hasParent h this parent \<longleftrightarrow> parent \<in> set (parents (cell h this))"

partial_function (option) hasAncestor :: "store \<Rightarrow> addr \<Rightarrow> addr \<Rightarrow> bool option" where
  "hasAncestor h parent this =
     (if this = parent then Some True else anyM (hasAncestor h parent) (parents (cell h this)))"

text \<open>
  \<open>createAlias\<close>: a new overload with all functions of the overload and its ancestors. When it
  exposes private functions they are marked in place.
\<close>

definition exposeFunc :: "addr \<Rightarrow> addr \<Rightarrow> store \<Rightarrow> store option" where
  "exposeFunc ns f h = map_option (\<lambda>b. if b then h else upd f (\<lambda>ob. ob\<lparr>exposed := True\<rparr>) h)
     (isImportable h f ns (name (cell h f)))"

definition createAlias :: "addr \<Rightarrow> bool \<Rightarrow> store \<Rightarrow> (addr \<times> store) option" where
  "createAlias this exposeAll h = Option.bind (flatten h this) (\<lambda>fs.
     let ob = (newOverloadDef (name (cell h this)))\<lparr>deftype := deftype (cell h this), hasImpl := hasImpl (cell h this),
       funcs := fs\<rparr>;
         (alias, h1) = alloc ob h in
     if \<not> exposeAll then Some (alias, h1)
     else case owner (cell h this) of
       None \<Rightarrow> if fs = [] then Some (alias, h1) else None
     | Some ns \<Rightarrow> map_option (Pair alias) (iterM (exposeFunc ns) fs h1))"

text \<open>Questions about an overload. \<open>isImportable\<close> and \<open>isImportableFrom\<close> override those of \<open>VarDef\<close>.\<close>

partial_function (option) getSecondOrderImports ::
  "store \<Rightarrow> addr \<Rightarrow> addr \<Rightarrow> addr list \<Rightarrow> (addr list \<times> bool) option" where
  "getSecondOrderImports h md this results =
     iterM (\<lambda>parent st. Option.bind (getSecondOrderImports h md parent (fst st)) (\<lambda>r.
         Some (fst r, snd st \<or> snd r)))
       (parents (cell h this))
       (results @ filter (\<lambda>f. owner (cell h f) \<noteq> Some md) (funcs (cell h this)),
        \<exists>f \<in> set (funcs (cell h this)). owner (cell h f) = Some md)"

partial_function (option) privateVisibleTo :: "store \<Rightarrow> addr \<Rightarrow> addr \<Rightarrow> bool option" where
  "privateVisibleTo h ns this =
     Option.bind (anyM (\<lambda>f. case owner (cell h f) of
         Some w \<Rightarrow> if isType h w then map_option Not (isScopedTo h w ns) else Some False
       | None \<Rightarrow> Some False) (funcs (cell h this))) (\<lambda>hidden.
     if hidden then Some False
     else Option.bind (anyM (\<lambda>p. Option.bind (privateVisibleTo h ns p) (\<lambda>v. Some (\<not> v))) (parents (cell h this)))
       (\<lambda>hidden. Some (\<not> hidden)))"

definition hasNonAliases :: "store \<Rightarrow> addr \<Rightarrow> bool" where
  "hasNonAliases h this \<longleftrightarrow> (\<exists>f \<in> set (funcs (cell h this)). \<not> isAliasIn h f this)"

definition hasExposedFuncs :: "store \<Rightarrow> addr \<Rightarrow> bool" where
  "hasExposedFuncs h this \<longleftrightarrow> (\<exists>f \<in> set (funcs (cell h this)). exposed (cell h f))"

definition hasSerializableFuncs :: "store \<Rightarrow> addr \<Rightarrow> bool" where
  "hasSerializableFuncs h this \<longleftrightarrow> (\<exists>f \<in> set (funcs (cell h this)). isSerializableFunc h f)"

definition isSerializableOverload :: "store \<Rightarrow> addr \<Rightarrow> bool" where
  "isSerializableOverload h this \<longleftrightarrow> isSerializable h this \<and> hasSerializableFuncs h this"

definition overloadImportableFrom :: "store \<Rightarrow> addr \<Rightarrow> addr \<Rightarrow> string \<Rightarrow> bool" where
  "overloadImportableFrom h this md impName \<longleftrightarrow>
     map_of (exports (cell h md)) impName \<noteq> None \<or> (\<forall>f \<in> set (funcs (cell h this)). owner (cell h f) = Some md)"

partial_function (option) overloadImportable :: "store \<Rightarrow> addr \<Rightarrow> string \<Rightarrow> addr \<Rightarrow> bool option" where
  "overloadImportable h ns nm this =
     Option.bind (anyM (\<lambda>f. isImportable h f ns nm) (funcs (cell h this))) (\<lambda>b.
       if b then Some True else anyM (overloadImportable h ns nm) (parents (cell h this)))"

partial_function (option) overloadNeedsReceiver :: "store \<Rightarrow> addr \<Rightarrow> bool option" where
  "overloadNeedsReceiver h this =
     (if \<exists>f \<in> set (funcs (cell h this)). isStatic h f then Some False
      else Option.bind (anyM (\<lambda>p. Option.bind (overloadNeedsReceiver h p) (\<lambda>v. Some (\<not> v))) (parents (cell h this)))
        (\<lambda>b. Some (\<not> b)))"

definition getSingleFunction :: "store \<Rightarrow> addr \<Rightarrow> addr option option" where
  "getSingleFunction h this = map_option (\<lambda>fs. case fs of [f] \<Rightarrow> Some f | _ \<Rightarrow> None) (flatten h this)"

partial_function (option) isImportedIn :: "store \<Rightarrow> addr \<Rightarrow> addr \<Rightarrow> bool option" where
  "isImportedIn h ns this = (case funcs (cell h this) of
     f # _ \<Rightarrow> Option.bind (getRealModule h ns) (\<lambda>m. case owner (cell h f) of
       None \<Rightarrow> None | Some w \<Rightarrow> map_option (\<lambda>m'. m' \<noteq> m) (getRealModule h w))
   | [] \<Rightarrow> (case parents (cell h this) of p # _ \<Rightarrow> isImportedIn h ns p | [] \<Rightarrow> None))"

section \<open>Selection\<close>

abbreviation funcsOf :: "store \<Rightarrow> addr \<Rightarrow> addr list" where "funcsOf h a \<equiv> funcs (cell h a)"

definition sigTest :: "store \<Rightarrow> signature \<Rightarrow> bool \<Rightarrow> addr \<Rightarrow> bool" where
  "sigTest h sig matchNames f \<longleftrightarrow>
     (if matchNames then matchesWithNames (args (cell h f)) sig else matchesSig (args (cell h f)) sig)"

lemma matchesSig_types: "matchesSig as bs \<longleftrightarrow> map snd as = map snd bs"
  by (induction as bs rule: matchesSig.induct) auto

lemma matchesWithNames_eq: "matchesWithNames as bs \<longleftrightarrow> as = bs"
  by (induction as bs rule: matchesWithNames.induct) auto

lemma parentsLoop_pure:
  "parentsLoop (\<lambda>p q. map_option (\<lambda>r. (r, q)) (g q p)) ps q = map_option (\<lambda>r. (r, q)) (firstM (g q) ps)"
  by (induction ps) (auto split: bind_split option.splits)

lemma firstMatch_pure:
  "(\<And>f. f \<in> set fs \<Longrightarrow> m f q = Some (M f)) \<Longrightarrow>
   firstMatch m fs q = Some (case List.find (\<lambda>f. M f \<noteq> None) fs of
     None \<Rightarrow> None | Some f \<Rightarrow> Some (f, the (M f)))"
  by (induction fs) (auto split: option.splits)

text \<open>Matching of values returns, and converts nothing under \<open>noConvert\<close>.\<close>

lemma matchValue_returns: "parents_ok h \<Longrightarrow> \<exists>r. matchValue ops h fl i ty v = Some r"
  by (cases fl) (auto simp: matchValue_def matches_reaches Let_def split: option.split)

lemma matchValues_returns: "parents_ok h \<Longrightarrow> \<exists>r. matchValues ops h fl i as vs = Some r"
proof (induction ops h fl i as vs rule: matchValues.induct)
  case (1 ops h fl i n ty as v vs)
  then show ?case using matchValue_returns [of h ops fl i ty v] by (auto split: option.split)
qed simp_all

lemma matchValue_noConvert: "matchValue ops h noConvert i ty v = Some (Some v') \<Longrightarrow> v' = v"
  by (auto simp: matchValue_def split: option.splits if_splits)

lemma matchValues_noConvert: "matchValues ops h fl i as vs = Some (Some vs') \<Longrightarrow> fl = noConvert \<Longrightarrow> vs' = vs"
proof (induction ops h fl i as vs arbitrary: vs' rule: matchValues.induct)
  case (1 ops h fl i n ty as v vs)
  from "1.prems" obtain v' us where v: "matchValue ops h fl i ty v = Some (Some v')"
    "matchValues ops h fl (i + 1) as vs = Some (Some us)" "vs' = v' # us"
    by (auto simp: bind_eq_Some_conv split: option.splits)
  with 1 show ?case using matchValue_noConvert by fastforce
qed (auto split: if_splits)

definition tryVals :: "'e exprOps \<Rightarrow> store \<Rightarrow> convertFlag \<Rightarrow> bool \<Rightarrow> addr \<Rightarrow> 'e list \<Rightarrow> 'e list option" where
  "tryVals ops h fl al f vals = the (tryFunc ops h fl al f vals)"

lemma tryFunc_vals: "parents_ok h \<Longrightarrow> tryFunc ops h fl al f vals = Some (tryVals ops h fl al f vals)"
  using matchValues_returns [of h ops fl 0 "args (cell h f)" vals]
  by (auto simp: tryVals_def tryFunc_def)

lemma tryVals_noConvert: "parents_ok h \<Longrightarrow> tryVals ops h noConvert al f vals = Some vs \<Longrightarrow> vs = vals"
  using tryFunc_vals [of h ops noConvert al f vals]
  by (auto simp: tryFunc_def dest: matchValues_noConvert split: if_splits)

section \<open>The searches as instances of the scheme\<close>

abbreviation isDel :: "store \<Rightarrow> addr \<Rightarrow> bool" where "isDel h f \<equiv> hasFlag h f deletedFlag"

text \<open>A search by a test that leaves the query as it is.\<close>

lemma pure_search:
  assumes "\<And>h a q. S h q a = (case List.find (T h a q) (funcsOf h a) of
    Some f \<Rightarrow> Some (nullIfDeleted h f) | None \<Rightarrow> firstM (S h q) (parents (cell h a)))"
  shows "overload_search parentGraph parents_ok funcsOf (\<lambda>h a f q. if T h a q f then Some q else None) isDel
    (\<lambda>h a q. map_option (\<lambda>r. (r, q)) (S h q a))"
proof unfold_locales
  fix h a q
  have "(\<lambda>f. (if T h a q f then Some q else None) \<noteq> None) = T h a q" by auto
  then show "map_option (\<lambda>r. (r, q)) (S h q a) =
      (case List.find (\<lambda>f. (if T h a q f then Some q else None) \<noteq> None) (funcsOf h a) of
         None \<Rightarrow> parentsLoop (\<lambda>a q. map_option (\<lambda>r. (r, q)) (S h q a)) (parentGraph h a) q
       | Some f \<Rightarrow> Some (if isDel h f then None else Some f, the (if T h a q f then Some q else None)))"
    by (subst assms) (auto simp: nullIfDeleted_def parentGraph_def parentsLoop_pure dest: find_SomeD split: option.split)
qed

interpretation sigs: overload_search parentGraph parents_ok funcsOf
    "\<lambda>h a f q. if sigTest h (fst q) (snd q) f then Some q else None" isDel
    "\<lambda>h a q. map_option (\<lambda>r. (r, q)) (getSigMatch h (fst q) (snd q) a)"
proof (rule pure_search [where T = "\<lambda>h a q. sigTest h (fst q) (snd q)" and S = "\<lambda>h q. getSigMatch h (fst q) (snd q)"])
  fix h a and q :: "signature \<times> bool"
  have "sigTest h (fst q) (snd q) = (\<lambda>f. \<not> snd q \<and> matchesSig (args (cell h f)) (fst q) \<or>
      snd q \<and> matchesWithNames (args (cell h f)) (fst q))" by (rule ext) (auto simp: sigTest_def)
  then show "getSigMatch h (fst q) (snd q) a = (case List.find (sigTest h (fst q) (snd q)) (funcsOf h a) of
      Some f \<Rightarrow> Some (nullIfDeleted h f) | None \<Rightarrow> firstM (getSigMatch h (fst q) (snd q)) (parents (cell h a)))"
    by (subst getSigMatch.simps) simp
qed

definition noArgTest :: "store \<Rightarrow> addr \<Rightarrow> bool \<Rightarrow> addr \<Rightarrow> bool" where
  "noArgTest h a acceptAlias f \<longleftrightarrow>
     args (cell h f) = [] \<and> (acceptAlias \<or> owner (cell h f) = owner (cell h a))"

interpretation noArgs: overload_search parentGraph parents_ok funcsOf
    "\<lambda>h a f q. if noArgTest h a q f then Some q else None" isDel
    "\<lambda>h a q. map_option (\<lambda>r. (r, q)) (getNoArgMatch h q a)"
  by (rule pure_search [where T = noArgTest and S = getNoArgMatch], subst getNoArgMatch.simps)
    (simp add: noArgTest_def [abs_def])

text \<open>Matching of argument values.\<close>

abbreviation callPick :: "'e exprOps \<Rightarrow> convertFlag \<Rightarrow> bool \<Rightarrow> store \<Rightarrow> addr \<Rightarrow> addr \<Rightarrow> 'e list \<Rightarrow> 'e list option" where
  "callPick ops fl al h a f vals \<equiv> tryVals ops h fl al f vals"

lemma getMatchWith_unfold:
  assumes "parents_ok h"
  shows "getMatchWith ops h fl al a vals = (case List.find (\<lambda>f. tryVals ops h fl al f vals \<noteq> None) (funcsOf h a) of
      Some f \<Rightarrow> Some (if isDel h f then None else Some f, the (tryVals ops h fl al f vals))
    | None \<Rightarrow> parentsLoop (getMatchWith ops h fl al) (parentGraph h a) vals)"
proof -
  have first: "firstMatch (tryFunc ops h fl al) (funcsOf h a) vals =
      Some (case List.find (\<lambda>f. tryVals ops h fl al f vals \<noteq> None) (funcsOf h a) of
        None \<Rightarrow> None | Some f \<Rightarrow> Some (f, the (tryVals ops h fl al f vals)))"
    by (rule firstMatch_pure) (rule tryFunc_vals [OF assms])
  have keep: "the (tryVals ops h noConvert al f vals) = vals"
    if "tryVals ops h noConvert al f vals \<noteq> None" for f
    using that tryVals_noConvert [OF assms] by fastforce
  show ?thesis
  proof (cases "List.find (\<lambda>f. tryVals ops h fl al f vals \<noteq> None) (funcsOf h a)")
    case (Some f)
    then have "tryVals ops h fl al f vals \<noteq> None" by (auto dest: find_SomeD)
    with Some first keep [of f] show ?thesis
      by (subst getMatchWith.simps, cases "fl = noConvert") (simp_all add: nullIfDeleted_def del: not_None_eq)
  next
    case None
    with first show ?thesis by (subst getMatchWith.simps) (simp add: parentGraph_def del: not_None_eq)
  qed
qed

interpretation calls: overload_search parentGraph parents_ok funcsOf "callPick ops fl al" isDel
    "\<lambda>h. getMatchWith ops h fl al"
  for ops :: "'e exprOps" and fl al
  by unfold_locales (rule getMatchWith_unfold)

end
