(* ===== verification/Overload_Select.thy ===== *)
theory Overload_Select
  imports Overloads
begin

text \<open>
  What the searches of overloads compute, the aliases that importing makes of overloads, and what
  the deleted mark hides.
\<close>

section \<open>Selection of a function\<close>

lemma flatten_candidates:
  assumes "parents_ok h"
  shows "flatten h a = Some (map snd (candidates (parentGraph h) (funcsOf h) a))"
proof -
  have "flatten h a = Some (concat (map (funcsOf h) (visited (parentGraph h) a)))"
    by (rule types.collect_visited [OF assms], unfold parentGraph_def, rule flatten.simps)
  then show ?thesis by (simp add: candidates_def map_concat o_def)
qed

lemma find_snd:
  "List.find (\<lambda>(b, f). P f) cs = Some (b, f) \<Longrightarrow> List.find P (map snd cs) = Some f"
  "List.find (\<lambda>(b, f). P f) cs = None \<Longrightarrow> List.find P (map snd cs) = None"
  by (induction cs) (auto split: if_splits)

lemma none_deleted:
  assumes "parents_ok h" and "flatten h a = Some fs" and "\<forall>f \<in> set fs. \<not> isDel h f"
  shows "fs = map snd (candidates (parentGraph h) (funcsOf h) a)"
    and "\<forall>(b, f) \<in> set (candidates (parentGraph h) (funcsOf h) a). \<not> isDel h f"
proof -
  show "fs = map snd (candidates (parentGraph h) (funcsOf h) a)"
    using assms flatten_candidates by simp
  with assms(3) show "\<forall>(b, f) \<in> set (candidates (parentGraph h) (funcsOf h) a). \<not> isDel h f" by fastforce
qed

lemma getSigMatch_flattened:
  assumes "parents_ok h" and "flatten h a = Some fs" and "\<forall>f \<in> set fs. \<not> isDel h f"
  shows "getSigMatch h sig names a = Some (List.find (sigTest h sig names) fs)"
proof -
  let ?C = "candidates (parentGraph h) (funcsOf h) a"
  have test: "(\<lambda>(b, f). (if sigTest h (fst (sig, names)) (snd (sig, names)) f then Some (sig, names) else None) \<noteq> None) =
      (\<lambda>(b, f). sigTest h sig names f)" by auto
  show ?thesis
    using sigs.search_flattened [OF assms(1) none_deleted(2) [OF assms], of "(sig, names)"]
      find_snd [of "sigTest h sig names" ?C]
    unfolding test none_deleted(1) [OF assms] by (auto split: option.splits prod.splits)
qed

lemma getNoArgMatch_flattened:
  assumes "parents_ok h" and "flatten h a = Some fs" and "\<forall>f \<in> set fs. \<not> isDel h f"
  shows "getNoArgMatch h True a = Some (List.find (\<lambda>f. args (cell h f) = []) fs)"
proof -
  let ?C = "candidates (parentGraph h) (funcsOf h) a"
  have test: "(\<lambda>(b, f). (if noArgTest h b True f then Some True else None) \<noteq> None) =
      (\<lambda>(b, f). args (cell h f) = [])" by (auto simp: noArgTest_def)
  show ?thesis
    using noArgs.search_flattened [OF assms(1) none_deleted(2) [OF assms], of True]
      find_snd [of "\<lambda>f. args (cell h f) = []" ?C]
    unfolding test none_deleted(1) [OF assms] by (auto split: option.splits prod.splits)
qed

lemma getMatchWith_flattened:
  assumes "parents_ok h" and "flatten h a = Some fs" and "\<forall>f \<in> set fs. \<not> isDel h f"
  shows "getMatchWith ops h fl al a vals = Some (case List.find (\<lambda>f. tryVals ops h fl al f vals \<noteq> None) fs of
    None \<Rightarrow> (None, vals) | Some f \<Rightarrow> (Some f, the (tryVals ops h fl al f vals)))"
  using calls.search_flattened [OF assms(1) none_deleted(2) [OF assms], of ops fl al vals]
    find_snd [of "\<lambda>f. tryVals ops h fl al f vals \<noteq> None" "candidates (parentGraph h) (funcsOf h) a"]
  unfolding none_deleted(1) [OF assms] by (auto split: option.splits prod.splits)

text \<open>
  With deleted functions: the first of the nearest matches that is not deleted.
\<close>

abbreviation selected :: "store \<Rightarrow> (addr \<Rightarrow> addr \<Rightarrow> bool) \<Rightarrow> addr \<Rightarrow> addr option" where
  "selected h test ovld \<equiv> List.find (\<lambda>f. \<not> isDel h f)
     (nearestMatches (\<lambda>b. parents (cell h b)) (\<lambda>b. List.find (test b) (funcs (cell h b))) ovld)"

lemma pure_nearest:
  assumes "overload_search parentGraph parents_ok funcsOf (\<lambda>h a f q. if T h a q f then Some q else None) isDel
      (\<lambda>h a q. map_option (\<lambda>r. (r, q)) (S h q a))" and "parents_ok h"
  shows "S h q ovld = Some (selected h (\<lambda>b. T h b q) ovld)"
proof -
  have test: "(\<lambda>f. (if T h b q f then Some q else None) \<noteq> None) = T h b q" for b by auto
  have pure: "q' = q" if "(if T h b q f then Some q else None) = Some q'" for b f q'
    using that by (simp split: if_splits)
  have "map_option (\<lambda>r. (r, q)) (S h q ovld) = Some (selected h (\<lambda>b. T h b q) ovld, q)"
    using overload_search.search_nearest [OF assms, of q ovld, OF pure] unfolding test parentGraph_def .
  then show ?thesis by auto
qed

lemma getMatchWith_nearest:
  assumes "parents_ok h"
  shows "getMatchWith ops h noConvert al ovld vals =
    Some (selected h (\<lambda>_ f. tryFunc ops h noConvert al f vals \<noteq> Some None) ovld, vals)"
  using calls.search_nearest [where fl = noConvert and ops = ops and al = al and a = ovld and q = vals,
      OF assms tryVals_noConvert [OF assms, where ops = ops and al = al]]
  by (simp add: tryFunc_vals [OF assms] parentGraph_def [abs_def])

text \<open>The general search: it returns a function of the overload that is not deleted.\<close>

lemma flatten_reached:
  assumes "parents_ok h" and "flatten h a = Some fs" and "reaches (parentGraph h) a b"
    and "f \<in> set (funcsOf h b)"
  shows "f \<in> set fs"
  using assms types.set_visited [OF assms(1), of a] flatten_candidates [OF assms(1), of a]
  by (auto simp: candidates_def map_concat o_def)

lemma getMatchWith_found:
  assumes "parents_ok h" and "flatten h a = Some fs"
  shows "\<exists>r vals'. getMatchWith ops h fl al a vals = Some (r, vals') \<and>
    (\<forall>f. r = Some f \<longrightarrow> f \<in> set fs \<and> \<not> isDel h f)"
  using calls.search_returns [OF assms(1), of ops fl al a vals] calls.search_candidate [OF assms(1)]
    calls.search_not_deleted [OF assms(1)] flatten_reached [OF assms] by (metis surj_pair)

lemma getMatch_found:
  assumes "parents_ok h" and "flatten h a = Some fs"
  shows "\<exists>r vals'. getMatch ops h al a vals = Some (r, vals') \<and>
    (\<forall>f. r = Some f \<longrightarrow> f \<in> set fs \<and> \<not> isDel h f)"
proof -
  obtain r vals' where r: "getMatchWith ops h (convertFlagFor ops vals) al a vals = Some (r, vals')"
      "\<forall>f. r = Some f \<longrightarrow> f \<in> set fs \<and> \<not> isDel h f"
    using getMatchWith_found [OF assms] by blast
  show ?thesis
  proof (cases r)
    case None
    with r(1) show ?thesis using getMatchWith_found [OF assms, of ops convertAll al vals']
      by (simp add: getMatch_def)
  qed (use r in \<open>simp add: getMatch_def\<close>)
qed

text \<open>Selection when no function is marked deleted.\<close>

lemma getMatch_flattened:
  assumes "parents_ok h" and "flatten h ovld = Some fs" and "\<forall>f \<in> set fs. \<not> isDel h f"
  shows "\<exists>r vals'. getMatch ops h al ovld vals = Some (r, vals') \<and>
      (r = None \<longrightarrow> (\<forall>f \<in> set fs. tryFunc ops h convertAll al f vals = Some None)) \<and>
      (\<forall>f. r = Some f \<longrightarrow> f \<in> set fs \<and>
        (\<exists>fl \<in> {convertFlagFor ops vals, convertAll}. tryFunc ops h fl al f vals = Some (Some vals')) \<and>
        (tryFunc ops h (convertFlagFor ops vals) al f vals = Some None \<longrightarrow>
          (\<forall>g \<in> set fs. tryFunc ops h (convertFlagFor ops vals) al g vals = Some None)))"
proof -
  let ?fl = "convertFlagFor ops vals"
  let ?find = "\<lambda>fl. List.find (\<lambda>f. tryVals ops h fl al f vals \<noteq> None) fs"
  note try_vals = tryFunc_vals [OF assms(1)] and with_flag = getMatchWith_flattened [OF assms]
  have none: "?find fl = None \<Longrightarrow> \<forall>f \<in> set fs. tryVals ops h fl al f vals = None" for fl
    by (simp add: find_None_iff)
  show "\<exists>r vals'. getMatch ops h al ovld vals = Some (r, vals') \<and>
      (r = None \<longrightarrow> (\<forall>f \<in> set fs. tryFunc ops h convertAll al f vals = Some None)) \<and>
      (\<forall>f. r = Some f \<longrightarrow> f \<in> set fs \<and>
        (\<exists>fl \<in> {?fl, convertAll}. tryFunc ops h fl al f vals = Some (Some vals')) \<and>
        (tryFunc ops h ?fl al f vals = Some None \<longrightarrow> (\<forall>g \<in> set fs. tryFunc ops h ?fl al g vals = Some None)))"
  proof (cases "?find ?fl")
    case (Some f)
    with find_SomeD [OF Some] show ?thesis by (auto simp: getMatch_def with_flag try_vals)
  next
    case None
    then have first: "getMatch ops h al ovld vals = getMatchWith ops h convertAll al ovld vals"
      by (simp add: getMatch_def with_flag)
    show ?thesis
    proof (cases "?find convertAll")
      case (Some f)
      with find_SomeD [OF Some] none [OF None] show ?thesis by (auto simp: first with_flag try_vals)
    next
      case None2: None
      with none [OF None2] show ?thesis by (auto simp: first with_flag try_vals)
    qed
  qed
qed


text \<open>
  A sample: the overload 3 of module 0 holds the function 1 and has the overloads 4 and 5 of other
  namespaces as parents; 4 holds the deleted function 2, 5 the function 6 with the same signature.
\<close>

definition sampleOverloads :: store where
  "sampleOverloads = \<lparr>cell = (\<lambda>a.
     if a = 0 then newModuleDef ''m'' None
     else if a = 1 then (newFuncDef 0 ''f'' [(''x'', 9)])\<lparr>owner := Some 0\<rparr>
     else if a = 2 then (newFuncDef 256 ''f'' [])\<lparr>owner := Some 7\<rparr>
     else if a = 6 then (newFuncDef 0 ''f'' [])\<lparr>owner := Some 8\<rparr>
     else if a = 3 then (newOverloadDef ''f'')\<lparr>owner := Some 0, funcs := [1], parents := [4, 5]\<rparr>
     else if a = 4 then (newOverloadDef ''f'')\<lparr>owner := Some 7, funcs := [2]\<rparr>
     else if a = 5 then (newOverloadDef ''f'')\<lparr>owner := Some 8, funcs := [6]\<rparr>
     else blankObj), nextAddr = 10\<rparr>"

lemmas sample_simps = sampleOverloads_def newModuleDef_def newFuncDef_def newOverloadDef_def blankObj_def

lemma sampleOverloads_ok: "parents_ok sampleOverloads"
  unfolding parents_ok_def
  by (rule wf_by_rank [where r = "\<lambda>a. if a = 3 then 1 else 0"])
    (auto simp: sample_simps parentGraph_def split: if_splits)

lemma sampleOverloads_fields:
  "args (cell sampleOverloads 6) = []" "args (cell sampleOverloads 2) = []"
  "args (cell sampleOverloads (Suc 0)) = [(''x'', 9)]"
  "flags (cell sampleOverloads 6) = 0" "flags (cell sampleOverloads 2) = 256"
  "parents (cell sampleOverloads 10) = []" "nextAddr sampleOverloads = 10"
  by (simp_all add: sample_simps)


section \<open>Aliases of overloads\<close>

text \<open>What a change that only exposes functions keeps.\<close>

definition sameButExposed :: "store \<Rightarrow> store \<Rightarrow> bool" where
  "sameButExposed h h' \<longleftrightarrow> (\<forall>a. \<exists>e. cell h' a = (cell h a)\<lparr>exposed := e\<rparr>)"

lemma sameButExposed_trans:
  assumes "sameButExposed h h1" and "sameButExposed h1 h'"
  shows "sameButExposed h h'"
  unfolding sameButExposed_def
proof
  fix a
  obtain d e where "cell h1 a = (cell h a)\<lparr>exposed := d\<rparr>" "cell h' a = (cell h1 a)\<lparr>exposed := e\<rparr>"
    using assms unfolding sameButExposed_def by blast
  then have "cell h' a = (cell h a)\<lparr>exposed := e\<rparr>" by simp
  then show "\<exists>e. cell h' a = (cell h a)\<lparr>exposed := e\<rparr>" ..
qed

lemma sameButExposed_upd: "sameButExposed h (upd f (\<lambda>ob. ob\<lparr>exposed := b\<rparr>) h)"
  unfolding sameButExposed_def
proof
  fix a
  have "cell (upd f (\<lambda>ob. ob\<lparr>exposed := b\<rparr>) h) a =
      (cell h a)\<lparr>exposed := (if a = f then b else exposed (cell h a))\<rparr>" by (simp add: state_simps)
  then show "\<exists>e. cell (upd f (\<lambda>ob. ob\<lparr>exposed := b\<rparr>) h) a = (cell h a)\<lparr>exposed := e\<rparr>" ..
qed

lemma sameButExposed_refl: "sameButExposed h h"
  using sameButExposed_upd [of h 0 "exposed (cell h 0)"] by (simp add: upd_def fun_upd_idem)

lemma exposeFunc_same:
  "iterM (exposeFunc ns) fs h = Some h' \<Longrightarrow> sameButExposed h h'"
proof (induction fs arbitrary: h)
  case (Cons f fs)
  then obtain h1 where h1: "exposeFunc ns f h = Some h1" "iterM (exposeFunc ns) fs h1 = Some h'"
    by (auto simp: bind_eq_Some_conv)
  have "sameButExposed h h1" using h1(1) sameButExposed_upd sameButExposed_refl
    by (auto simp: exposeFunc_def split: if_splits)
  then show ?case using Cons.IH [OF h1(2)] by (rule sameButExposed_trans)
qed (simp add: sameButExposed_refl)

lemma sameButExposed_fields:
  assumes "sameButExposed h h'"
  shows "parents (cell h' a) = parents (cell h a)" "funcs (cell h' a) = funcs (cell h a)"
    "args (cell h' a) = args (cell h a)" "flags (cell h' a) = flags (cell h a)"
    "owner (cell h' a) = owner (cell h a)" "receiverType (cell h' a) = receiverType (cell h a)"
proof -
  obtain e where "cell h' a = (cell h a)\<lparr>exposed := e\<rparr>"
    using assms unfolding sameButExposed_def by blast
  then show "parents (cell h' a) = parents (cell h a)" "funcs (cell h' a) = funcs (cell h a)"
    "args (cell h' a) = args (cell h a)" "flags (cell h' a) = flags (cell h a)"
    "owner (cell h' a) = owner (cell h a)" "receiverType (cell h' a) = receiverType (cell h a)"
    by simp_all
qed

text \<open>The new overload and what it leaves unchanged, when its cell was not used before.\<close>

lemma createAlias_cells:
  assumes "createAlias this ex h = Some (alias, h')" and "flatten h this = Some fs"
    and "parents (cell h (nextAddr h)) = []"
  shows "alias = nextAddr h" "funcs (cell h' alias) = fs" "parentGraph h' = parentGraph h"
    "\<And>f. f \<noteq> alias \<Longrightarrow> args (cell h' f) = args (cell h f) \<and> flags (cell h' f) = flags (cell h f) \<and>
       owner (cell h' f) = owner (cell h f) \<and> receiverType (cell h' f) = receiverType (cell h f)"
proof -
  let ?ob = "(newOverloadDef (name (cell h this)))\<lparr>deftype := deftype (cell h this), hasImpl := hasImpl (cell h this), funcs := fs\<rparr>"
  let ?h1 = "snd (alloc ?ob h)"
  from assms(1,2) have adr: "alias = nextAddr h" and same: "sameButExposed ?h1 h'"
    by (auto simp: createAlias_def alloc_def Let_def sameButExposed_refl dest: exposeFunc_same
      split: if_splits option.splits)
  show "alias = nextAddr h" by (rule adr)
  note eqs = sameButExposed_fields [OF same]
  have cells: "cell ?h1 a = (if a = alias then ?ob else cell h a)" for a
    by (simp add: alloc_def adr)
  show "funcs (cell h' alias) = fs" by (simp add: eqs cells)
  show "parentGraph h' = parentGraph h"
  proof
    fix x
    have "parents ?ob = []" by (simp add: newOverloadDef_def blankObj_def)
    then show "parentGraph h' x = parentGraph h x"
      using assms(3) adr by (simp add: parentGraph_def eqs cells)
  qed
  show "args (cell h' f) = args (cell h f) \<and> flags (cell h' f) = flags (cell h f) \<and>
      owner (cell h' f) = owner (cell h f) \<and> receiverType (cell h' f) = receiverType (cell h f)" if "f \<noteq> alias" for f
    using that by (simp add: eqs cells)
qed

lemma tryFunc_cong:
  assumes "parents_ok h" and "parentGraph h' = parentGraph h" and "args (cell h' f) = args (cell h f)"
    "flags (cell h' f) = flags (cell h f)" "owner (cell h' f) = owner (cell h f)"
    "receiverType (cell h' f) = receiverType (cell h f)"
  shows "tryFunc ops h' fl al f vals = tryFunc ops h fl al f vals"
proof -
  have "parents_ok h'" using assms(1,2) by (simp add: parents_ok_def)
  then have "matches h' = matches h" using assms(1,2) by (intro ext) (simp add: matches_reaches)
  then have "matchValue ops h' fl i ty v = matchValue ops h fl i ty v" for i ty v
    unfolding matchValue_def by (simp only:)
  then have "matchValues ops h' fl i as vs = matchValues ops h fl i as vs" for i as vs
    by (induction ops h fl i as vs rule: matchValues.induct) (auto split: bind_split option.split)
  then show ?thesis using assms(3-6) by (simp add: tryFunc_def isVirtualOverride_def hasFlag_def)
qed

text \<open>
  C28. The alias that importing makes of an overload, exposing its private functions or not,
  answers every search like the overload itself when no function is deleted. In general it
  answers with the first matching function of the flattened overload, and with none when that is
  deleted; the overload itself goes on to its other parents then, so its alias may hide a
  function that the overload finds.
\<close>

theorem createAlias_selects:
  assumes "parents_ok h" and "flatten h this = Some fs" and "createAlias this ex h = Some (alias, h')"
    and "parents (cell h (nextAddr h)) = []" and "nextAddr h \<notin> set fs"
  shows "getSigMatch h' sig names alias = Some (case List.find (sigTest h sig names) fs of
      None \<Rightarrow> None | Some f \<Rightarrow> if hasFlag h f 256 then None else Some f) \<and>
    ((\<forall>f \<in> set fs. \<not> hasFlag h f 256) \<longrightarrow>
      getSigMatch h' sig names alias = getSigMatch h sig names this \<and>
      getMatch ops h' al alias vals = getMatch ops h al this vals)"
proof -
  note cells = createAlias_cells [OF assms(3,2,4)]
  have ok': "parents_ok h'" using assms(1) cells(3) by (simp add: parents_ok_def)
  have noparents: "parents (cell h' alias) = []"
    using cells(3) assms(4) unfolding cells(1) parentGraph_def by metis
  have old: "f \<noteq> alias" if "f \<in> set fs" for f using that assms(5) cells(1) by auto
  have find_cong: "List.find P xs = List.find Q xs" if "\<And>x. x \<in> set xs \<Longrightarrow> P x = Q x" for P Q and xs :: "addr list"
    using that by (induction xs) auto
  have test: "List.find (sigTest h' sig names) fs = List.find (sigTest h sig names) fs"
    by (rule find_cong) (use cells(4) old in \<open>simp add: sigTest_def\<close>)
  have flag: "hasFlag h' f k = hasFlag h f k" if "f \<in> set fs" for f k
    using cells(4) [OF old [OF that]] by (simp add: hasFlag_def)
  have "(\<lambda>f. \<not> names \<and> matchesSig (args (cell h' f)) sig \<or> names \<and> matchesWithNames (args (cell h' f)) sig) =
      sigTest h' sig names" by (rule ext) (auto simp: sigTest_def)
  then have sigs': "getSigMatch h' sig names alias = Some (case List.find (sigTest h sig names) fs of
      None \<Rightarrow> None | Some f \<Rightarrow> if hasFlag h f 256 then None else Some f)"
    by (subst getSigMatch.simps)
      (auto simp: cells(2) noparents test nullIfDeleted_def flag dest!: find_SomeD split: option.split)
  moreover have "getSigMatch h' sig names alias = getSigMatch h sig names this"
      "getMatch ops h' al alias vals = getMatch ops h al this vals" if nodel: "\<forall>f \<in> set fs. \<not> isDel h f"
  proof -
    show "getSigMatch h' sig names alias = getSigMatch h sig names this"
      unfolding sigs' getSigMatch_flattened [OF assms(1,2) nodel]
      using nodel by (auto dest!: find_SomeD split: option.split)
    have flat': "flatten h' alias = Some fs" by (simp add: flatten.simps cells(2) noparents)
    have nodel': "\<forall>f \<in> set fs. \<not> isDel h' f" using nodel flag by simp
    have vals: "tryVals ops h' fl al f us = tryVals ops h fl al f us" if "f \<in> set fs" for fl f us
      unfolding tryVals_def using cells(4) [OF old [OF that]]
      by (intro arg_cong [where f = the] tryFunc_cong [OF assms(1) cells(3)]) auto
    have "List.find (\<lambda>f. tryVals ops h' fl al f us \<noteq> None) fs = List.find (\<lambda>f. tryVals ops h fl al f us \<noteq> None) fs" for fl us
      by (rule find_cong) (simp add: vals)
    then have "getMatchWith ops h' fl al alias us = getMatchWith ops h fl al this us" for fl us
      unfolding getMatchWith_flattened [OF ok' flat' nodel'] getMatchWith_flattened [OF assms(1,2) nodel]
      by (auto simp: vals dest!: find_SomeD split: option.split)
    then show "getMatch ops h' al alias vals = getMatch ops h al this vals" by (simp only: getMatch_def)
  qed
  ultimately show ?thesis by blast
qed

lemma createAlias_selects_witness:
  "getSigMatch sampleOverloads [] False 3 = Some (Some 6) \<and>
   (\<exists>h'. createAlias 3 False sampleOverloads = Some (10, h') \<and> getSigMatch h' [] False 10 = Some None)"
proof -
  have flat: "flatten sampleOverloads 3 = Some [1, 2, 6]" by (simp add: flatten.simps sample_simps)
  then obtain h' where h': "createAlias 3 False sampleOverloads = Some (10, h')"
    by (simp add: createAlias_def alloc_def Let_def sampleOverloads_fields)
  have found: "getSigMatch sampleOverloads [] False 3 = Some (Some 6)"
    by (simp add: getSigMatch.simps sample_simps nullIfDeleted_def hasFlag_def)
  have "getSigMatch h' [] False 10 = Some (case List.find (sigTest sampleOverloads [] False) [1, 2, 6] of
      None \<Rightarrow> None | Some f \<Rightarrow> if hasFlag sampleOverloads f 256 then None else Some f)"
    using conjunct1 [OF createAlias_selects [OF sampleOverloads_ok flat h'], of "[]" False]
    by (simp add: sampleOverloads_fields)
  also have "\<dots> = Some None" by (simp add: sigTest_def hasFlag_def sampleOverloads_fields)
  finally show ?thesis using found h' by blast
qed

end
