(* ===== verification/Namespaces.thy ===== *)
theory Namespaces
  imports Overload_Select
begin

text \<open>
  Symbol tables as they are changed (\<open>model/Namespace.cc\<close>, \<open>model/CompositeNamespace.cc\<close>,
  \<open>TypeDef::storeDef\<close> and the \<open>setOwner\<close> members): definitions are added and removed, and
  aliases of definitions of other namespaces are made. An operation ends in the new store or in
  the assertion that failed.
\<close>

section \<open>Operations\<close>

datatype nsError = FunctionStored addr | AlreadyOwned addr | NotOwned addr | RemovesOverload addr
  | NotDefined addr | CompositeChanged addr

definition setOwner :: "addr \<Rightarrow> addr \<Rightarrow> store \<Rightarrow> store" where
  "setOwner this ns h = upd this (\<lambda>ob. ob\<lparr>owner := Some ns,
     canonicalName := (case kind ob of
       TypeObj \<Rightarrow> if canonicalName (cell h ns) \<noteq> [] then canonicalName (cell h ns) @ ''.'' @ name ob else name ob
     | ModuleObj \<Rightarrow> canonicalName (cell h ns) @ ''.'' @ name ob
     | _ \<Rightarrow> canonicalName ob)\<rparr>) h"

text \<open>\<open>storeDef\<close>; a class also keeps its instance variables in order.\<close>

definition hasInstSlot :: "store \<Rightarrow> addr \<Rightarrow> bool" where
  "hasInstSlot h d \<longleftrightarrow> kind (cell h d) = InstVarObj"

definition storeDef :: "addr \<Rightarrow> addr \<Rightarrow> store \<Rightarrow> nsError + store" where
  "storeDef this def h =
     (if isFunc h def then Inl (FunctionStored def)
      else Inr (upd this (\<lambda>ob. ob\<lparr>
        defs := mapSet (name (cell h def)) def (defs ob),
        orderedForCache := orderedForCache ob @ [def],
        ordered := (if kind ob = TypeObj \<and> hasInstSlot h def then ordered ob @ [def] else ordered ob)\<rparr>) h))"

definition addDef :: "addr \<Rightarrow> addr \<Rightarrow> store \<Rightarrow> nsError + store" where
  "addDef this def h =
     (if kind (cell h this) = CompositeNS \<and> \<not> isOverload h def then Inl (CompositeChanged this)
      else if owner (cell h def) \<noteq> None then Inl (AlreadyOwned def)
      else andThen (storeDef this def h) (\<lambda>h1. Inr (setOwner def this h1)))"

text \<open>
  \<open>removeDef\<close>. The loops meant to remove the definition from the two ordered lists erase their
  first element whatever it is.
\<close>

definition removeDef :: "addr \<Rightarrow> addr \<Rightarrow> store \<Rightarrow> nsError + store" where
  "removeDef this def h =
     (if kind (cell h this) = CompositeNS then Inl (CompositeChanged this)
      else if isOverload h def then Inl (RemovesOverload def)
      else if lookUpHere h this (name (cell h def)) = None then Inl (NotDefined def)
      else Inr (upd this (\<lambda>ob. ob\<lparr>
        defs := mapErase (name (cell h def)) (defs ob),
        ordered := drop 1 (ordered ob), orderedForCache := drop 1 (orderedForCache ob)\<rparr>) h))"

text \<open>\<open>addAlias(def)\<close>\<close>

definition addAlias1 :: "addr \<Rightarrow> addr \<Rightarrow> store \<Rightarrow> (nsError + store) option" where
  "addAlias1 this def h =
     (if kind (cell h this) = CompositeNS then Some (Inl (CompositeChanged this))
      else if owner (cell h def) = None then Some (Inl (NotOwned def))
      else if isOverload h def then map_option (\<lambda>(child, h1).
        andThen (storeDef this child h1) (\<lambda>h2. Inr (setOwner child this h2))) (createAlias def False h)
      else Some (storeDef this def h))"

text \<open>\<open>isImportable\<close> of a definition, dispatched to the override of overloads; \<open>addAlias(name, def)\<close>\<close>

definition defImportable :: "store \<Rightarrow> addr \<Rightarrow> addr \<Rightarrow> string \<Rightarrow> bool option" where
  "defImportable h def ns nm = (if isOverload h def then overloadImportable h ns nm def else isImportable h def ns nm)"

definition bindName :: "addr \<Rightarrow> string \<Rightarrow> addr \<Rightarrow> store \<Rightarrow> store" where
  "bindName this nm def h = upd this (\<lambda>ob. ob\<lparr>defs := mapSet nm def (defs ob)\<rparr>) h"

definition addAlias :: "addr \<Rightarrow> string \<Rightarrow> addr \<Rightarrow> store \<Rightarrow> (nsError + store) option" where
  "addAlias this nm def h =
     (if kind (cell h this) = CompositeNS then Some (Inl (CompositeChanged this))
      else case owner (cell h def) of
        None \<Rightarrow> Some (Inl (NotOwned def))
      | Some w \<Rightarrow> Option.bind (defImportable h def this nm) (\<lambda>exposes.
          if isOverload h def then map_option (\<lambda>(child, h1). Inr (setOwner child this
              (bindName this nm child (upd child (\<lambda>ob. ob\<lparr>name := nm\<rparr>) h1)))) (createAlias def exposes h)
          else let h1 = bindName this nm def h in
            if exposes then map_option (\<lambda>b. Inr (if b then h1 else upd def (\<lambda>ob. ob\<lparr>exposed := True\<rparr>) h1))
              (defImportable h1 def w (name (cell h1 def)))
            else Some (Inr h1)))"

definition addUnsafeAlias :: "addr \<Rightarrow> string \<Rightarrow> addr \<Rightarrow> store \<Rightarrow> nsError + store" where
  "addUnsafeAlias this nm def h =
     (if kind (cell h this) = CompositeNS then Inl (CompositeChanged this)
      else if owner (cell h def) = None then Inl (NotOwned def)
      else Inr (bindName this nm def h))"

definition aliasMissing :: "addr \<Rightarrow> string \<times> addr \<Rightarrow> store \<Rightarrow> (nsError + store) option" where
  "aliasMissing this e h = Option.bind (lookUp h (fst e) this) (\<lambda>r.
     if r = None then addAlias this (fst e) (snd e) h else Some (Inr h))"

partial_function (option) aliasAll :: "addr \<Rightarrow> addr \<Rightarrow> store \<Rightarrow> (nsError + store) option" where
  "aliasAll this other h =
     Option.bind (iterE (aliasMissing this) (defs (cell h other)) h) (\<lambda>r. case r of
       Inl e \<Rightarrow> Some (Inl e)
     | Inr h1 \<Rightarrow> iterE (aliasAll this) (parents (cell h1 other)) h1)"

section \<open>The invariant of symbol tables\<close>

text \<open>
  Objects beyond \<open>nextAddr\<close> have not been allocated. A symbol table maps names in order to
  allocated definitions that have an owner; it never holds a bare function, and it owns its
  overloads and has them under their own name.
\<close>

definition entry_ok :: "store \<Rightarrow> addr \<Rightarrow> string \<times> addr \<Rightarrow> bool" where
  "entry_ok h n e \<longleftrightarrow> snd e < nextAddr h \<and> owner (cell h (snd e)) \<noteq> None \<and> \<not> isFunc h (snd e) \<and>
     (isOverload h (snd e) \<longrightarrow> owner (cell h (snd e)) = Some n \<and> name (cell h (snd e)) = fst e)"

definition tables_ok :: "store \<Rightarrow> bool" where
  "tables_ok h \<longleftrightarrow> (\<forall>a \<ge> nextAddr h. cell h a = blankObj) \<and>
     (\<forall>n. map_ok (defs (cell h n)) \<and> (\<forall>e \<in> set (defs (cell h n)). entry_ok h n e)) \<and>
     (\<forall>n. \<forall>f \<in> set (funcs (cell h n)). f < nextAddr h)"

lemma tables_okD:
  assumes "tables_ok h"
  shows "nextAddr h \<le> a \<Longrightarrow> cell h a = blankObj" "map_ok (defs (cell h n))"
    "e \<in> set (defs (cell h n)) \<Longrightarrow> entry_ok h n e" "f \<in> set (funcs (cell h n)) \<Longrightarrow> f < nextAddr h"
  using assms unfolding tables_ok_def by auto

text \<open>Allocated objects keep what the invariant reads of them, and only the tables change.\<close>

definition keeps_defs :: "store \<Rightarrow> store \<Rightarrow> bool" where
  "keeps_defs h h' \<longleftrightarrow> nextAddr h \<le> nextAddr h' \<and> (\<forall>a \<ge> nextAddr h'. cell h' a = cell h a) \<and>
     (\<forall>a < nextAddr h. kind (cell h' a) = kind (cell h a) \<and>
        (owner (cell h a) \<noteq> None \<longrightarrow> owner (cell h' a) = owner (cell h a)) \<and>
        (isOverload h a \<longrightarrow> name (cell h' a) = name (cell h a)))"

lemma keeps_defs_refl [simp]: "keeps_defs h h"
  by (simp add: keeps_defs_def)

lemma keeps_defs_trans: "keeps_defs h h1 \<Longrightarrow> keeps_defs h1 h' \<Longrightarrow> keeps_defs h h'"
  unfolding keeps_defs_def by auto

lemma keeps_entry: "keeps_defs h h' \<Longrightarrow> entry_ok h n e \<Longrightarrow> entry_ok h' n e"
  unfolding keeps_defs_def entry_ok_def by auto

lemma tables_ok_changed:
  assumes "tables_ok h" and "keeps_defs h h'"
    and "\<And>n. defs (cell h' n) = defs (cell h n) \<or> (\<exists>k d. defs (cell h' n) = mapSet k d (defs (cell h n)) \<and> entry_ok h' n (k, d)) \<or>
      (\<exists>k. defs (cell h' n) = mapErase k (defs (cell h n)))"
    and "\<And>n f. f \<in> set (funcs (cell h' n)) \<Longrightarrow> f < nextAddr h'"
  shows "tables_ok h'"
  unfolding tables_ok_def
proof (intro conjI allI impI ballI)
  fix a assume "nextAddr h' \<le> a"
  then show "cell h' a = blankObj" using assms(1,2) tables_okD(1) [OF assms(1)] by (auto simp: keeps_defs_def)
next
  fix n
  show "map_ok (defs (cell h' n))" using assms(3) [of n] tables_okD(2) [OF assms(1), of n] by auto
next
  fix n f assume "f \<in> set (funcs (cell h' n))"
  then show "f < nextAddr h'" by (rule assms(4))
next
  fix n e assume e: "e \<in> set (defs (cell h' n))"
  have old: "entry_ok h' n e" if "e \<in> set (defs (cell h n))"
    using keeps_entry [OF assms(2)] tables_okD(3) [OF assms(1) that] .
  from assms(3) [of n] consider "defs (cell h' n) = defs (cell h n)"
    | k d where "defs (cell h' n) = mapSet k d (defs (cell h n))" "entry_ok h' n (k, d)"
    | k where "defs (cell h' n) = mapErase k (defs (cell h n))" by blast
  then show "entry_ok h' n e"
  proof cases
    case 1
    with e old show ?thesis by simp
  next
    case (2 k d)
    with e set_mapSet_subset [of k d "defs (cell h n)"] have "e = (k, d) \<or> e \<in> set (defs (cell h n))" by auto
    with 2(2) old show ?thesis by auto
  next
    case 3
    with e have "e \<in> set (defs (cell h n))" by (simp add: mapErase_def)
    with old show ?thesis by simp
  qed
qed

section \<open>Every operation keeps the invariant\<close>

lemma setOwner_fields [state_simps]:
  "nextAddr (setOwner d ns h) = nextAddr h"
  "kind (cell (setOwner d ns h) a) = kind (cell h a)" "funcs (cell (setOwner d ns h) a) = funcs (cell h a)" "defs (cell (setOwner d ns h) a) = defs (cell h a)"
  "name (cell (setOwner d ns h) a) = name (cell h a)" "parents (cell (setOwner d ns h) a) = parents (cell h a)"
  "owner (cell (setOwner d ns h) a) = (if a = d then Some ns else owner (cell h a))"
  by (simp_all add: setOwner_def cell_upd nextAddr_upd)

lemma addDef_keeps:
  assumes "tables_ok h" and "addDef this def h = Inr h'" and "def < nextAddr h" and "this < nextAddr h"
  shows "tables_ok h'" "keeps_defs h h'"
proof -
  from assms(2) obtain h1 where h1: "storeDef this def h = Inr h1" "h' = setOwner def this h1"
    and new: "owner (cell h def) = None"
    by (auto simp: addDef_def andThen_eq_Inr split: if_splits)
  from h1(1) have st: "\<not> isFunc h def" "nextAddr h1 = nextAddr h"
    and eqs: "\<And>a. kind (cell h1 a) = kind (cell h a)" "\<And>a. owner (cell h1 a) = owner (cell h a)"
      "\<And>a. name (cell h1 a) = name (cell h a)" "\<And>a. funcs (cell h1 a) = funcs (cell h a)"
      "\<And>a. defs (cell h1 a) = (if a = this then mapSet (name (cell h def)) def (defs (cell h this)) else defs (cell h a))"
    and other: "\<And>a. a \<noteq> this \<Longrightarrow> cell h1 a = cell h a"
    by (auto simp: storeDef_def state_simps split: if_splits)
  show keeps: "keeps_defs h h'"
    unfolding keeps_defs_def h1(2)
  proof (intro conjI allI impI)
    fix a assume "nextAddr (setOwner def this h1) \<le> a"
    then have "a \<noteq> def" "a \<noteq> this" using assms(3,4) st(2) by (auto simp: state_simps)
    then show "cell (setOwner def this h1) a = cell h a" using other by (simp add: setOwner_def cell_upd)
  qed (use st eqs new in \<open>auto simp: state_simps\<close>)
  have "entry_ok h' this (name (cell h def), def)"
    using assms(3) st eqs by (auto simp: entry_ok_def h1(2) state_simps)
  then show "tables_ok h'"
    using tables_okD(4) [OF assms(1)] st(2)
    by (intro tables_ok_changed [OF assms(1) keeps]) (auto simp: h1(2) state_simps eqs)
qed

lemma removeDef_keeps:
  assumes "tables_ok h" and "removeDef this def h = Inr h'" and "this < nextAddr h"
  shows "tables_ok h'" "keeps_defs h h'"
proof -
  from assms(2) have h': "h' = upd this (\<lambda>ob. ob\<lparr>defs := mapErase (name (cell h def)) (defs ob),
      ordered := drop 1 (ordered ob), orderedForCache := drop 1 (orderedForCache ob)\<rparr>) h"
    by (auto simp: removeDef_def split: if_splits)
  show keeps: "keeps_defs h h'" using assms(3) by (auto simp: keeps_defs_def h' state_simps)
  show "tables_ok h'" using tables_okD(4) [OF assms(1)]
    by (intro tables_ok_changed [OF assms(1) keeps]) (auto simp: h' state_simps split: if_splits)
qed

text \<open>Binding a name to a definition that may be bound.\<close>

lemma bindName_keeps:
  assumes "tables_ok h" and "this < nextAddr h" and "entry_ok h this (nm, def)"
  shows "tables_ok (bindName this nm def h)" "keeps_defs h (bindName this nm def h)"
proof -
  show keeps: "keeps_defs h (bindName this nm def h)"
    using assms(2) by (auto simp: keeps_defs_def bindName_def state_simps)
  have "entry_ok (bindName this nm def h) this (nm, def)" using keeps_entry [OF keeps assms(3)] .
  then show "tables_ok (bindName this nm def h)" using tables_okD(4) [OF assms(1)]
    by (intro tables_ok_changed [OF assms(1) keeps]) (auto simp: bindName_def state_simps split: if_splits)
qed

text \<open>The copy of an overload made for an alias.\<close>

lemma flatten_funcs:
  assumes "flatten h a = Some fs"
  shows "\<forall>f \<in> set fs. \<exists>n. f \<in> set (funcs (cell h n))"
proof (rule flatten.raw_induct [OF _ assms])
  fix flat :: "store \<Rightarrow> addr \<Rightarrow> addr list option" and h a fs
  assume rec: "\<And>h b y. flat h b = Some y \<Longrightarrow> \<forall>f \<in> set y. \<exists>n. f \<in> set (funcs (cell h n))"
    and step: "Option.bind (concatM (flat h) (parents (cell h a))) (\<lambda>gs. Some (funcs (cell h a) @ gs)) = Some fs"
  from step obtain gs where gs: "concatM (flat h) (parents (cell h a)) = Some gs" "fs = funcs (cell h a) @ gs"
    by (auto simp: bind_eq_Some_conv)
  have "\<forall>f \<in> set gs. \<exists>n. f \<in> set (funcs (cell h n))" if "concatM (flat h) ps = Some gs" for ps gs
    using that
  proof (induction ps arbitrary: gs)
    case (Cons p ps)
    then obtain us vs where "flat h p = Some us" "concatM (flat h) ps = Some vs" "gs = us @ vs"
      by (auto simp: bind_eq_Some_conv)
    with Cons.IH rec [of h p us] show ?case by (metis UnE set_append)
  qed simp
  from this [OF gs(1)] gs(2) show "\<forall>f \<in> set fs. \<exists>n. f \<in> set (funcs (cell h n))" by (metis UnE set_append)
qed

text \<open>Exposing functions.\<close>

lemma exposeFuncs_store:
  "iterM (exposeFunc ns) fs h = Some h' \<Longrightarrow>
   nextAddr h' = nextAddr h \<and> (\<forall>a. a \<notin> set fs \<longrightarrow> cell h' a = cell h a)"
proof (induction fs arbitrary: h)
  case (Cons f fs)
  then obtain h1 where h1: "exposeFunc ns f h = Some h1" "iterM (exposeFunc ns) fs h1 = Some h'"
    by (auto simp: bind_eq_Some_conv)
  have "nextAddr h1 = nextAddr h \<and> (\<forall>a. a \<noteq> f \<longrightarrow> cell h1 a = cell h a)"
    using h1(1) by (auto simp: exposeFunc_def state_simps split: if_splits)
  with Cons.IH [OF h1(2)] show ?case by simp
qed simp

lemma sameButExposed_more:
  assumes "sameButExposed h h'"
  shows "kind (cell h' a) = kind (cell h a)" "name (cell h' a) = name (cell h a)" "defs (cell h' a) = defs (cell h a)"
proof -
  obtain e where "cell h' a = (cell h a)\<lparr>exposed := e\<rparr>"
    using assms unfolding sameButExposed_def by blast
  then show "kind (cell h' a) = kind (cell h a)" "name (cell h' a) = name (cell h a)" "defs (cell h' a) = defs (cell h a)"
    by simp_all
qed

lemma createAlias_store:
  assumes "tables_ok h" and "createAlias d ex h = Some (child, h1)"
  shows "child = nextAddr h" "nextAddr h1 = Suc (nextAddr h)" "kind (cell h1 child) = OverloadObj"
    "owner (cell h1 child) = None" "name (cell h1 child) = name (cell h d)"
    "tables_ok h1" "keeps_defs h h1"
proof -
  from assms(2) obtain fs where fs: "flatten h d = Some fs"
    by (auto simp: createAlias_def bind_eq_Some_conv)
  let ?ob = "(newOverloadDef (name (cell h d)))\<lparr>deftype := deftype (cell h d), hasImpl := hasImpl (cell h d), funcs := fs\<rparr>"
  let ?h1 = "snd (alloc ?ob h)"
  from fs assms(2) have adr: "child = nextAddr h" and
    mid: "h1 = ?h1 \<or> (\<exists>ns. iterM (exposeFunc ns) fs ?h1 = Some h1)"
    by (auto simp: createAlias_def alloc_def Let_def split: if_splits option.splits)
  have old: "\<forall>f \<in> set fs. f < nextAddr h" using flatten_funcs [OF fs] tables_okD(4) [OF assms(1)] by auto
  have same: "sameButExposed ?h1 h1" using mid exposeFunc_same sameButExposed_refl by auto
  have nextA: "nextAddr h1 = Suc (nextAddr h)" and out: "\<And>a. a \<notin> set fs \<Longrightarrow> cell h1 a = cell ?h1 a"
    using mid exposeFuncs_store by (auto simp: alloc_def)
  note eqs = sameButExposed_fields [OF same] sameButExposed_more [OF same]
  have cells: "cell ?h1 a = (if a = child then ?ob else cell h a)" for a by (simp add: alloc_def adr)
  have ob: "kind ?ob = OverloadObj" "owner ?ob = None" "name ?ob = name (cell h d)" "defs ?ob = []"
    by (simp_all add: newOverloadDef_def blankObj_def)
  show "child = nextAddr h" "nextAddr h1 = Suc (nextAddr h)" by (rule adr, rule nextA)
  show "kind (cell h1 child) = OverloadObj" "owner (cell h1 child) = None" "name (cell h1 child) = name (cell h d)"
    using ob by (simp_all add: eqs cells)
  show keeps: "keeps_defs h h1"
    unfolding keeps_defs_def
  proof (intro conjI allI impI)
    fix a assume "nextAddr h1 \<le> a"
    then have "a \<notin> set fs" "a \<noteq> child" using old nextA adr by auto
    then show "cell h1 a = cell h a" using out cells by simp
  qed (use nextA adr in \<open>auto simp: eqs cells\<close>)
  have "defs (cell h child) = []" using tables_okD(1) [OF assms(1), of child] adr by (simp add: blankObj_def)
  then have "defs (cell h1 n) = defs (cell h n)" for n using ob(4) by (simp add: eqs cells)
  moreover have "f < nextAddr h1" if "f \<in> set (funcs (cell h1 n))" for n f
    using that old tables_okD(4) [OF assms(1), of f n] nextA
    by (auto simp: eqs cells less_Suc_eq split: if_splits)
  ultimately show "tables_ok h1" by (intro tables_ok_changed [OF assms(1) keeps]) auto
qed

lemma storeDef_eq:
  "storeDef this d h = Inr h' \<Longrightarrow> \<not> isFunc h d \<and>
   h' = upd this (\<lambda>ob. ob\<lparr>defs := mapSet (name (cell h d)) d (defs ob), orderedForCache := orderedForCache ob @ [d],
     ordered := (if kind ob = TypeObj \<and> hasInstSlot h d then ordered ob @ [d] else ordered ob)\<rparr>) h"
  by (simp add: storeDef_def split: if_splits)

lemma storeDef_keeps:
  assumes "tables_ok h" and "storeDef this d h = Inr h'" and "this < nextAddr h"
    and "d < nextAddr h" "owner (cell h d) \<noteq> None" "\<not> isOverload h d"
  shows "tables_ok h'" "keeps_defs h h'"
proof -
  note h' = storeDef_eq [OF assms(2)]
  show keeps: "keeps_defs h h'" using assms(3) h' by (auto simp: keeps_defs_def state_simps)
  have "entry_ok h this (name (cell h d), d)" using assms(4-6) h' by (simp add: entry_ok_def)
  then have "entry_ok h' this (name (cell h d), d)" by (rule keeps_entry [OF keeps])
  then show "tables_ok h'" using tables_okD(4) [OF assms(1)] h'
    by (intro tables_ok_changed [OF assms(1) keeps]) (auto simp: state_simps split: if_splits)
qed

text \<open>A fresh overload is named, bound and owned.\<close>

lemma adopt_keeps:
  assumes "tables_ok h" and "keeps_defs h0 h" and "child < nextAddr h" "nextAddr h0 \<le> child"
    and "this < nextAddr h0" and "isOverload h child" and "owner (cell h child) = None"
  shows "tables_ok (setOwner child this (bindName this nm child (upd child (\<lambda>ob. ob\<lparr>name := nm\<rparr>) h)))"
    "keeps_defs h0 (setOwner child this (bindName this nm child (upd child (\<lambda>ob. ob\<lparr>name := nm\<rparr>) h)))"
proof -
  let ?h1 = "upd child (\<lambda>ob. ob\<lparr>name := nm\<rparr>) h"
  let ?h2 = "setOwner child this (bindName this nm child ?h1)"
  have ne: "child \<noteq> this" using assms(4,5) by simp
  have next_eq: "nextAddr ?h2 = nextAddr h" by (simp add: bindName_def state_simps)
  have le: "nextAddr h0 \<le> nextAddr h" using assms(2) by (simp add: keeps_defs_def)
  show "keeps_defs h0 ?h2"
    unfolding keeps_defs_def next_eq
  proof (intro conjI allI impI)
    fix a assume "nextAddr h \<le> a"
    then have "a \<noteq> child" "a \<noteq> this" "cell h a = cell h0 a" using assms(2,3,5) le by (auto simp: keeps_defs_def)
    then show "cell ?h2 a = cell h0 a" by (simp add: setOwner_def bindName_def cell_upd)
  qed (use assms(2,4,5) ne in \<open>auto simp: keeps_defs_def bindName_def state_simps\<close>)
  have old: "entry_ok ?h2 n e" if "entry_ok h n e" for n e
  proof -
    have "snd e \<noteq> child" using that assms(7) by (auto simp: entry_ok_def)
    with that show ?thesis by (auto simp: entry_ok_def bindName_def state_simps)
  qed
  have new: "entry_ok ?h2 this (nm, child)"
    using assms(3,6) ne by (auto simp: entry_ok_def bindName_def state_simps)
  show "tables_ok ?h2"
    unfolding tables_ok_def next_eq
  proof (intro conjI allI impI ballI)
    fix a assume "nextAddr h \<le> a"
    then show "cell ?h2 a = blankObj" using assms(3,5) le tables_okD(1) [OF assms(1)]
      by (simp add: setOwner_def bindName_def cell_upd)
  next
    fix n show "map_ok (defs (cell ?h2 n))" using tables_okD(2) [OF assms(1)]
      by (simp add: bindName_def state_simps)
  next
    fix n e assume "e \<in> set (defs (cell ?h2 n))"
    then have "e \<in> set (defs (cell h n)) \<or> n = this \<and> e = (nm, child)"
      using set_mapSet_subset [of nm child "defs (cell h this)"] ne
      by (auto simp: bindName_def state_simps split: if_splits)
    then show "entry_ok ?h2 n e"
      by (elim disjE conjE) (rule old [OF tables_okD(3) [OF assms(1)]], assumption, simp only: new)
  next
    fix n f assume "f \<in> set (funcs (cell ?h2 n))"
    then have "f \<in> set (funcs (cell h n))" by (auto simp: bindName_def state_simps split: if_splits)
    then show "f < nextAddr h" by (rule tables_okD(4) [OF assms(1)])
  qed
qed

lemma addAlias_keeps:
  assumes "tables_ok h" and "addAlias this nm d h = Some (Inr h')" and "this < nextAddr h" and "d < nextAddr h"
    and "\<not> isFunc h d"
  shows "tables_ok h'" "keeps_defs h h'"
proof -
  from assms(2) obtain w where w: "owner (cell h d) = Some w"
    by (auto simp: addAlias_def split: if_splits option.splits)
  have "tables_ok h' \<and> keeps_defs h h'"
  proof (cases "isOverload h d")
    case True
    with assms(2) w obtain ex child h1 where h1: "createAlias d ex h = Some (child, h1)"
      "h' = setOwner child this (bindName this nm child (upd child (\<lambda>ob. ob\<lparr>name := nm\<rparr>) h1))"
      by (auto simp: addAlias_def bind_eq_Some_conv split: if_splits)
    note st = createAlias_store [OF assms(1) h1(1)]
    show ?thesis unfolding h1(2) using adopt_keeps [OF st(6,7) _ _ assms(3) st(3,4)] st(1,2) by simp
  next
    case False
    with w assms(4,5) have entry: "entry_ok h this (nm, d)" by (auto simp: entry_ok_def)
    note bound = bindName_keeps [OF assms(1,3) entry]
    have "h' = bindName this nm d h \<or> h' = upd d (\<lambda>ob. ob\<lparr>exposed := True\<rparr>) (bindName this nm d h)"
      using assms(2) w False by (auto simp: addAlias_def Let_def bind_eq_Some_conv split: if_splits)
    moreover have "tables_ok (upd d (\<lambda>ob. ob\<lparr>exposed := True\<rparr>) g)"
        "keeps_defs h (upd d (\<lambda>ob. ob\<lparr>exposed := True\<rparr>) g)" if "tables_ok g" "keeps_defs h g" for g
    proof -
      have "d < nextAddr g" using that(2) assms(4) by (simp add: keeps_defs_def)
      then have keeps: "keeps_defs g (upd d (\<lambda>ob. ob\<lparr>exposed := True\<rparr>) g)" by (auto simp: keeps_defs_def state_simps)
      show "keeps_defs h (upd d (\<lambda>ob. ob\<lparr>exposed := True\<rparr>) g)" by (rule keeps_defs_trans [OF that(2) keeps])
      show "tables_ok (upd d (\<lambda>ob. ob\<lparr>exposed := True\<rparr>) g)" using tables_okD(4) [OF that(1)]
        by (intro tables_ok_changed [OF that(1) keeps]) (auto simp: state_simps split: if_splits)
    qed
    ultimately show ?thesis using bound by blast
  qed
  then show "tables_ok h'" "keeps_defs h h'" by simp_all
qed

lemma addAlias1_keeps:
  assumes "tables_ok h" and "addAlias1 this d h = Some (Inr h')" and "this < nextAddr h" and "d < nextAddr h"
  shows "tables_ok h'" "keeps_defs h h'"
proof -
  have owned: "owner (cell h d) \<noteq> None" using assms(2) by (auto simp: addAlias1_def split: if_splits)
  have "tables_ok h' \<and> keeps_defs h h'"
  proof (cases "isOverload h d")
    case True
    with assms(2) obtain child h1 h2 where h1: "createAlias d False h = Some (child, h1)"
      "storeDef this child h1 = Inr h2" "h' = setOwner child this h2"
      by (auto simp: addAlias1_def andThen_eq_Inr split: if_splits)
    note st = createAlias_store [OF assms(1) h1(1)]
    note h2 = storeDef_eq [OF h1(2)]
    have added: "addDef this child h1 = Inr h'" using h1 st(3,4) assms(2)
      by (simp add: addDef_def addAlias1_def split: if_splits)
    have "child < nextAddr h1" "this < nextAddr h1" using st(1,2) assms(3) by simp_all
    from addDef_keeps [OF st(6) added this] keeps_defs_trans [OF st(7)] show ?thesis by blast
  next
    case False
    with assms(2) owned have "storeDef this d h = Inr h'" by (auto simp: addAlias1_def split: if_splits)
    from storeDef_keeps [OF assms(1) this assms(3,4) owned False] show ?thesis by blast
  qed
  then show "tables_ok h'" "keeps_defs h h'" by simp_all
qed

lemma iterE_invariant:
  assumes "iterE f xs h = Some (Inr h')" and "I h"
    and "\<And>x h h'. x \<in> set xs \<Longrightarrow> I h \<Longrightarrow> f x h = Some (Inr h') \<Longrightarrow> I h'"
  shows "I h'"
  using assms
proof (induction xs arbitrary: h)
  case (Cons x xs)
  from Cons.prems(1) obtain r where r: "f x h = Some r"
    "(case r of Inl e \<Rightarrow> Some (Inl e) | Inr g \<Rightarrow> iterE f xs g) = Some (Inr h')"
    by (auto simp: bind_eq_Some_conv)
  then obtain h1 where "f x h = Some (Inr h1)" "iterE f xs h1 = Some (Inr h')" by (cases r) auto
  with Cons show ?case by auto
qed simp

lemma aliasAll_keeps:
  assumes "aliasAll this other h = Some (Inr h')" and "tables_ok h" and "this < nextAddr h"
  shows "tables_ok h' \<and> keeps_defs h h'"
proof -
  let ?Q = "\<lambda>h h'. tables_ok h \<longrightarrow> this < nextAddr h \<longrightarrow> tables_ok h' \<and> keeps_defs h h'"
  let ?I = "\<lambda>h0 h. tables_ok h \<and> keeps_defs h0 h"
  have "\<forall>g. r = Inr g \<longrightarrow> ?Q h g" if "aliasAll this other h = Some r" for other h r
  proof (rule aliasAll.raw_induct [where P = "\<lambda>t other h r. t = this \<longrightarrow> (\<forall>g. r = Inr g \<longrightarrow> ?Q h g)", OF _ that, THEN mp])
    fix rec :: "addr \<Rightarrow> addr \<Rightarrow> store \<Rightarrow> (nsError + store) option" and t other h r
    assume rec: "\<And>t other h r. rec t other h = Some r \<Longrightarrow> t = this \<longrightarrow> (\<forall>g. r = Inr g \<longrightarrow> ?Q h g)"
      and step: "Option.bind (iterE (aliasMissing t) (defs (cell h other)) h) (\<lambda>r. case r of
        Inl e \<Rightarrow> Some (Inl e) | Inr h1 \<Rightarrow> iterE (rec t) (parents (cell h1 other)) h1) = Some r"
    show "t = this \<longrightarrow> (\<forall>g. r = Inr g \<longrightarrow> ?Q h g)"
    proof (intro impI allI)
      fix g assume t: "t = this" and r: "r = Inr g" and ok: "tables_ok h" "this < nextAddr h"
      from step r t obtain q where q: "iterE (aliasMissing this) (defs (cell h other)) h = Some q"
        "(case q of Inl e \<Rightarrow> Some (Inl e) | Inr h1 \<Rightarrow> iterE (rec this) (parents (cell h1 other)) h1) = Some (Inr g)"
        by (auto simp: bind_eq_Some_conv)
      then obtain h1 where h1: "iterE (aliasMissing this) (defs (cell h other)) h = Some (Inr h1)"
        "iterE (rec this) (parents (cell h1 other)) h1 = Some (Inr g)" by (cases q) auto
      have "?I h h1"
      proof (rule iterE_invariant [where I = "?I h", OF h1(1)])
        fix e h2 h3 assume e: "e \<in> set (defs (cell h other))" and h2: "?I h h2"
          and h3: "aliasMissing this e h2 = Some (Inr h3)"
        have "entry_ok h2 other e" using tables_okD(3) [OF ok(1) e] h2 keeps_entry by blast
        then have d: "snd e < nextAddr h2" "\<not> isFunc h2 (snd e)" by (simp_all add: entry_ok_def)
        have "this < nextAddr h2" using ok(2) h2 by (simp add: keeps_defs_def)
        moreover have "h3 = h2 \<or> addAlias this (fst e) (snd e) h2 = Some (Inr h3)"
          using h3 by (auto simp: aliasMissing_def bind_eq_Some_conv split: if_splits)
        ultimately show "?I h h3" using addAlias_keeps [OF conjunct1 [OF h2] _ _ d] keeps_defs_trans h2 by blast
      qed (use ok in simp)
      moreover have "?I h g"
      proof (rule iterE_invariant [where I = "?I h", OF h1(2) \<open>?I h h1\<close>])
        fix p h2 h3 assume h2: "?I h h2" and h3: "rec this p h2 = Some (Inr h3)"
        have "this < nextAddr h2" using ok(2) h2 by (simp add: keeps_defs_def)
        then show "?I h h3" using rec [OF h3] h2 keeps_defs_trans by blast
      qed
      ultimately show "?I h g" by blast
    qed
  qed simp
  with assms show ?thesis by blast
qed

end
