(* ===== verification/Contexts.thy ===== *)
theory Contexts
  imports Namespaces
begin

text \<open>
  Contexts (\<open>model/Context.cc\<close>): while it parses, the compiler keeps a chain of contexts, one per
  nested scope. A context is modelled by the list of the frames from itself to the outermost
  one, so \<open>parent\<close> is the tail of the list. This theory holds the walks along the chain and the
  rules of access that depend on it.
\<close>

section \<open>The chain\<close>

datatype scope = ModuleScope | InstanceScope | LocalScope | CompositeScope | InertScope

record frame =
  scope :: scope
  ns :: "addr option"
  compileNS :: "addr option"
  toplevel :: bool
  terminal :: bool
  ctx_returnType :: "addr option"
  breakBranch :: "nat option"
  continueBranch :: "nat option"
  catchBranch :: "nat option"
  builderData :: "nat option"
  nextFuncFlags :: "32 word"
  nextClassFlags :: "32 word"
  compileNSImports :: "(string list \<times> (string \<times> string) list) list"

type_synonym ctx = "frame list"

definition newFrame :: "scope \<Rightarrow> addr option \<Rightarrow> addr option \<Rightarrow> frame" where
  "newFrame sc n cns = \<lparr>scope = sc, ns = n, compileNS = cns, toplevel = False, terminal = False, ctx_returnType = None,
     breakBranch = None, continueBranch = None, catchBranch = None, builderData = None,
     nextFuncFlags = 0, nextClassFlags = 0,
     compileNSImports = []\<rparr>"

text \<open>
  \<open>createSubContext\<close> and the constructor of \<open>Context\<close>: a namespace is created when none is given;
  only local and module scopes can do without. The compile namespace is a new local namespace
  below that of the parent unless one is given.
\<close>

datatype ctxError = MissingNamespace

definition createSubContext ::
  "scope \<Rightarrow> addr option \<Rightarrow> string option \<Rightarrow> addr option \<Rightarrow> ctx \<Rightarrow> store \<Rightarrow> ctxError + (ctx \<times> store)" where
  "createSubContext newScope n nm cns c h =
     (let named = (case nm of None \<Rightarrow> [] | Some s \<Rightarrow> s);
          made = (case n of
            Some a \<Rightarrow> Inr (a, h)
          | None \<Rightarrow> (case newScope of
              LocalScope \<Rightarrow> Inr (alloc (newLocalNamespace h (ns (hd c)) named) h)
            | ModuleScope \<Rightarrow> Inr (alloc (newGlobalNamespace h (ns (hd c)) named) h)
            | _ \<Rightarrow> Inl MissingNamespace)) in
      andThen made (\<lambda>(a, h1). case cns of
        Some k \<Rightarrow> Inr ((newFrame newScope (Some a) (Some k))\<lparr>ctx_returnType := ctx_returnType (hd c)\<rparr> # c, h1)
      | None \<Rightarrow> (case alloc (newLocalNamespace h1 (compileNS (hd c)) (canonicalName (cell h1 a))) h1 of
          (k, h2) \<Rightarrow> Inr ((newFrame newScope (Some a) (Some k))\<lparr>ctx_returnType := ctx_returnType (hd c)\<rparr> # c, h2))))"

text \<open>The walks. The failed assertion of \<open>getModuleContext\<close> is \<open>None\<close> as well.\<close>

fun getClassContext :: "ctx \<Rightarrow> ctx option" where
  "getClassContext [] = None"
| "getClassContext (f # c) = (if scope f = InstanceScope then Some (f # c) else getClassContext c)"

fun getDefContext :: "ctx \<Rightarrow> ctx option" where
  "getDefContext [] = None"
| "getDefContext (f # c) = (if scope f \<noteq> CompositeScope then Some (f # c) else getDefContext c)"

fun getToplevel :: "ctx \<Rightarrow> ctx option" where
  "getToplevel [] = None"
| "getToplevel (f # c) = (if toplevel f then Some (f # c) else getToplevel c)"

fun getModuleContext :: "ctx \<Rightarrow> ctx option" where
  "getModuleContext [] = None"
| "getModuleContext (f # c) = (if scope f = ModuleScope then Some (f # c) else getModuleContext c)"

text \<open>
  \<open>encloses\<close>. Contexts are compared by identity; the model compares their namespaces and those of their
  parents, as the other members of a context change.
\<close>

definition sameContext :: "ctx \<Rightarrow> ctx \<Rightarrow> bool" where
  "sameContext c d \<longleftrightarrow> map ns c = map ns d"

fun encloses :: "ctx \<Rightarrow> ctx \<Rightarrow> bool" where
  "encloses this [] \<longleftrightarrow> False"
| "encloses this (f # c) \<longleftrightarrow> sameContext this (f # c) \<or> (c \<noteq> [] \<and> encloses this c)"

text \<open>A namespace of the current function: local scopes up to the toplevel one.\<close>

fun inSameFunc :: "ctx \<Rightarrow> addr option \<Rightarrow> bool option" where
  "inSameFunc [] varNS = None"
| "inSameFunc (f # c) varNS =
    (if scope f \<noteq> LocalScope then Some False
     else if varNS = ns f then Some True
     else if \<not> toplevel f then inSameFunc c varNS else Some False)"

fun getBreak :: "ctx \<Rightarrow> nat option" where
  "getBreak [] = None"
| "getBreak (f # c) = (case breakBranch f of Some b \<Rightarrow> Some b | None \<Rightarrow> if toplevel f then None else getBreak c)"

fun getContinue :: "ctx \<Rightarrow> nat option" where
  "getContinue [] = None"
| "getContinue (f # c) =
    (case continueBranch f of Some b \<Rightarrow> Some b | None \<Rightarrow> if toplevel f then None else getContinue c)"

text \<open>\<open>getCatch\<close> falls off its end without a result when no context of the chain is toplevel.\<close>

fun getCatch :: "ctx \<Rightarrow> ctx option" where
  "getCatch [] = None"
| "getCatch (f # c) = (if catchBranch f \<noteq> None \<or> toplevel f then Some (f # c) else getCatch c)"

definition isMethod :: "ctx \<Rightarrow> bool option" where
  "isMethod c = (case getToplevel c of Some (_ # p # _) \<Rightarrow> Some (scope p = CompositeScope) | _ \<Rightarrow> None)"

fun collectCompileNSImports :: "ctx \<Rightarrow> (string list \<times> (string \<times> string) list) list" where
  "collectCompileNSImports [] = []"
| "collectCompileNSImports (f # c) = collectCompileNSImports c @ compileNSImports f"

section \<open>Access to variables\<close>

text \<open>\<open>createVarRef\<close>. The result is the kind of expression made, or the error.\<close>

datatype varAccess = ConstantValue | Reference | NotAccessible

definition createVarRef :: "store \<Rightarrow> ctx \<Rightarrow> addr \<Rightarrow> varAccess option" where
  "createVarRef h c varDef = (case c of [] \<Rightarrow> None | f # ps \<Rightarrow>
     if kind (cell h varDef) = ConstVarObj then Some ConstantValue
     else if scope f = InertScope \<or> isType h varDef \<or> isFunc h varDef \<or> isOverload h varDef then Some Reference
     else (case owner (cell h varDef) of
       None \<Rightarrow> map_option (\<lambda>b. if b then Reference else NotAccessible) (inSameFunc c None)
     | Some w \<Rightarrow>
         if isModule h w \<or> kind (cell h w) = GlobalNS then Some Reference
         else if isType h w then
           (let inFunc = (case getToplevel c of Some (_ # p # _) \<Rightarrow> Some (ns p \<noteq> None) | _ \<Rightarrow> None) in
            if scope f = CompositeScope then
              (case ps of [] \<Rightarrow> None | p # _ \<Rightarrow> if ns p = Some w then Some Reference
                else map_option (\<lambda>b. if b then Reference else NotAccessible) inFunc)
            else map_option (\<lambda>b. if b then Reference else NotAccessible) inFunc)
         else map_option (\<lambda>b. if b then Reference else NotAccessible) (inSameFunc c (Some w))))"

text \<open>
  \<open>hasInstanceOf\<close>, \<open>VarDef::isUsableFrom\<close> and \<open>makeThisRef\<close>: the variable \<open>this\<close> is in scope, with a
  type derived from the class.
\<close>

definition hasInstanceOf :: "store \<Rightarrow> ctx \<Rightarrow> addr \<Rightarrow> bool option" where
  "hasInstanceOf h c type = (case c of [] \<Rightarrow> None | f # _ \<Rightarrow> (case ns f of None \<Rightarrow> None | Some n \<Rightarrow>
     Option.bind (lookUp h ''this'' n) (\<lambda>r. case r of
       None \<Rightarrow> Some False
     | Some v \<Rightarrow> (case deftype (cell h v) of None \<Rightarrow> None | Some t \<Rightarrow> isDerivedFrom h t type))))"

definition isUsableFrom :: "store \<Rightarrow> ctx \<Rightarrow> addr \<Rightarrow> bool option" where
  "isUsableFrom h c this =
     (if \<not> hasInstSlot h this then Some True
      else case owner (cell h this) of None \<Rightarrow> None | Some w \<Rightarrow> hasInstanceOf h c w)"

datatype thisRef = NoThis | StaticContext | ThisRef varAccess

definition makeThisRef :: "store \<Rightarrow> ctx \<Rightarrow> bool \<Rightarrow> thisRef option" where
  "makeThisRef h c errorIfMissing = (case c of [] \<Rightarrow> None | f # _ \<Rightarrow> (case ns f of None \<Rightarrow> None | Some n \<Rightarrow>
     Option.bind (lookUp h ''this'' n) (\<lambda>r. case r of
       None \<Rightarrow> Some (if errorIfMissing then StaticContext else NoThis)
     | Some v \<Rightarrow> map_option ThisRef (createVarRef h c v))))"

text \<open>
  \<open>checkAccessible\<close>: names with two leading underscores are private to a class, names with one to
  a module and to derived classes; an alias of the definition in the current module lifts both.
\<close>

datatype accessError = PrivateOverload | PrivateToClass addr | PrivateToModule "addr option"

definition checkAccessible :: "store \<Rightarrow> ctx \<Rightarrow> addr \<Rightarrow> string \<Rightarrow> (accessError + unit) option" where
  "checkAccessible h c var nm =
     (if \<not> startsWith (CHR ''_'') nm then Some (Inr ())
      else case (c, getModuleContext c) of
        (f # _, Some (mf # _)) \<Rightarrow>
          (case (ns mf, ns f) of
             (Some modNs, Some here) \<Rightarrow>
               if hasAliasFor h modNs var then Some (Inr ())
               else if startsWith (CHR ''_'') (tl nm) then
                 (if isOverload h var then
                    map_option (\<lambda>v. if v then Inr () else Inl PrivateOverload) (privateVisibleTo h here var)
                  else case owner (cell h var) of
                    Some w \<Rightarrow> if isType h w then
                        map_option (\<lambda>b. if b then Inr () else Inl (PrivateToClass w)) (isScopedTo h w here)
                      else Some (Inr ())
                  | None \<Rightarrow> Some (Inr ()))
               else (case owner (cell h var) of
                  None \<Rightarrow> None
                | Some w \<Rightarrow> Option.bind (getRealModule h w) (\<lambda>varMod. Option.bind (getRealModule h modNs) (\<lambda>curMod.
                    if varMod = curMod then Some (Inr ())
                    else Option.bind (case getClassContext c of
                          Some (g # _) \<Rightarrow> if isType h w then
                              (case ns g of Some t \<Rightarrow> isDerivedFrom h t w | None \<Rightarrow> None) else Some False
                        | _ \<Rightarrow> Some False)
                      (\<lambda>derived. Some (if derived then Inr () else Inl (PrivateToModule varMod))))))
           | _ \<Rightarrow> None)
      | _ \<Rightarrow> None)"

text \<open>The checks made at the end of a block.\<close>

datatype forwardError = ForwardFunction addr | ForwardType addr

definition forwardOf :: "store \<Rightarrow> addr \<Rightarrow> addr \<Rightarrow> forwardError option" where
  "forwardOf h n d =
     (case (if isOverload h d then List.find (\<lambda>f. hasFlag h f forwardFlag \<and> owner (cell h f) = Some n) (funcs (cell h d))
        else None) of
       Some f \<Rightarrow> Some (ForwardFunction f)
     | None \<Rightarrow> if isType h d \<and> forward (cell h d) \<and> owner (cell h d) = Some n then Some (ForwardType d) else None)"

definition checkForUnresolvedForwards :: "store \<Rightarrow> addr \<Rightarrow> forwardError + unit" where
  "checkForUnresolvedForwards h n =
     (case List.find (\<lambda>e. forwardOf h n (snd e) \<noteq> None) (defs (cell h n)) of
        Some e \<Rightarrow> Inl (the (forwardOf h n (snd e))) | None \<Rightarrow> Inr ())"

end
