(* ===== verification/Context_Access.thy ===== *)
theory Context_Access
  imports Contexts
begin

text \<open>
  What the walks along the chain of contexts compute, and the rules of access: which variables a
  context can refer to, and which private names it may use.
\<close>

section \<open>The frames of the current function\<close>

text \<open>The frames up to and including the first toplevel one.\<close>

fun functionFrames :: "ctx \<Rightarrow> frame list" where
  "functionFrames [] = []"
| "functionFrames (f # c) = (if toplevel f then [f] else f # functionFrames c)"

lemma getBreak_frames:
  "getBreak c = (case List.find (\<lambda>f. breakBranch f \<noteq> None) (functionFrames c) of None \<Rightarrow> None | Some f \<Rightarrow> breakBranch f)"
  by (induction c) (auto split: option.splits)

lemma getContinue_frames:
  "getContinue c =
     (case List.find (\<lambda>f. continueBranch f \<noteq> None) (functionFrames c) of None \<Rightarrow> None | Some f \<Rightarrow> continueBranch f)"
  by (induction c) (auto split: option.splits)

lemma getCatch_frames:
  assumes "getToplevel c \<noteq> None"
  shows "\<exists>f d. getCatch c = Some (f # d) \<and> f \<in> set (functionFrames c) \<and> (catchBranch f \<noteq> None \<or>
    toplevel f \<and> (\<forall>g \<in> set (functionFrames c). catchBranch g = None))"
  using assms by (induction c) (auto split: if_splits)

lemma inSameFunc_frames:
  assumes "getToplevel c \<noteq> None"
  shows "inSameFunc c v = Some (\<exists>f \<in> set (takeWhile (\<lambda>f. scope f = LocalScope) (functionFrames c)). ns f = v)"
  using assms by (induction c) (auto split: if_splits)

lemma toplevel_frames:
  assumes "\<exists>g \<in> set c. toplevel g"
  shows "getToplevel c = Some (dropWhile (\<lambda>g. \<not> toplevel g) c)"
    "functionFrames c = takeWhile (\<lambda>g. \<not> toplevel g) c @ [hd (dropWhile (\<lambda>g. \<not> toplevel g) c)]"
  using assms by (induction c) auto

text \<open>
  C29. Break and continue statements, exceptions and local variables stay inside the current
  function. When some frame of the chain is marked toplevel, \<open>getToplevel\<close> finds the innermost such
  frame, and the frames of the function are those up to it. Then \<open>getBreak\<close> and \<open>getContinue\<close> find
  the innermost target set in a frame of the function and none further out; \<open>getCatch\<close> returns a
  frame of the function with a handler, or its toplevel frame when no frame has one; and
  \<open>inSameFunc\<close> accepts exactly the namespaces of the local frames around the current context.
\<close>

theorem walks_stay_in_function:
  assumes "\<exists>g \<in> set c. toplevel g"
  shows "getToplevel c = Some (dropWhile (\<lambda>g. \<not> toplevel g) c) \<and>
    functionFrames c = takeWhile (\<lambda>g. \<not> toplevel g) c @ [hd (dropWhile (\<lambda>g. \<not> toplevel g) c)] \<and>
    getBreak c = (case List.find (\<lambda>f. breakBranch f \<noteq> None) (functionFrames c) of
      None \<Rightarrow> None | Some f \<Rightarrow> breakBranch f) \<and>
    getContinue c = (case List.find (\<lambda>f. continueBranch f \<noteq> None) (functionFrames c) of
      None \<Rightarrow> None | Some f \<Rightarrow> continueBranch f) \<and>
    (\<exists>f d. getCatch c = Some (f # d) \<and> f \<in> set (functionFrames c) \<and> (catchBranch f \<noteq> None \<or>
      toplevel f \<and> (\<forall>g \<in> set (functionFrames c). catchBranch g = None))) \<and>
    inSameFunc c v = Some (\<exists>f \<in> set (takeWhile (\<lambda>f. scope f = LocalScope) (functionFrames c)). ns f = v)"
proof -
  have "getToplevel c \<noteq> None" using toplevel_frames(1) [OF assms] by simp
  then show ?thesis
    by (intro conjI getBreak_frames getContinue_frames getCatch_frames inSameFunc_frames
        toplevel_frames [OF assms])
qed

definition sampleChain :: ctx where
  "sampleChain = [newFrame LocalScope (Some 3) None,
     (newFrame LocalScope (Some 2) None)\<lparr>toplevel := True\<rparr>,
     (newFrame ModuleScope (Some 1) None)\<lparr>breakBranch := Some 7\<rparr>]"

lemma walks_stay_in_function_witness: "getBreak sampleChain = None \<and> inSameFunc sampleChain (Some 1) = Some False"
  using walks_stay_in_function [of sampleChain "Some 1"]
  by (simp add: sampleChain_def newFrame_def)

section \<open>References to variables\<close>

text \<open>
  C30. Which definitions a context can refer to, in a function (the chain has a toplevel frame that
  is not the last). A constant stands for its value. Every other definition can be referred to
  exactly when the scope is inert, or it is a type, a function or an overload, or it belongs to a
  module or a global namespace, or it is a member of a class and the scope is the composite one of
  that class or the toplevel context of the function has a parent with a namespace, or it belongs
  to another namespace and that is the namespace of a local frame of the same function. The
  condition on members of classes does not ask which class the function belongs to: its second
  part is a pointer and not a comparison.
\<close>

theorem createVarRef_access:
  assumes "getToplevel (f # c) = Some (t # p # d)" and "owner (cell h v) = Some w"
  shows "\<exists>r. createVarRef h (f # c) v = Some r \<and> (r = ConstantValue \<longleftrightarrow> kind (cell h v) = ConstVarObj) \<and>
    (r \<noteq> NotAccessible \<longleftrightarrow> kind (cell h v) = ConstVarObj \<or> scope f = InertScope \<or>
      isType h v \<or> isFunc h v \<or> isOverload h v \<or> isModule h w \<or> kind (cell h w) = GlobalNS \<or>
      (if isType h w then scope f = CompositeScope \<and> ns (hd c) = Some w \<or> ns p \<noteq> None
       else \<exists>g \<in> set (takeWhile (\<lambda>g. scope g = LocalScope) (functionFrames (f # c))). ns g = Some w))"
proof -
  have "inSameFunc (f # c) (Some w) =
      Some (\<exists>g \<in> set (takeWhile (\<lambda>g. scope g = LocalScope) (functionFrames (f # c))). ns g = Some w)"
    by (rule inSameFunc_frames) (metis assms(1) option.distinct(1))
  moreover obtain q c' where "c = q # c'" using assms(1) by (cases c) (auto split: if_splits)
  ultimately show ?thesis using assms
    by (auto simp: createVarRef_def Let_def simp del: inSameFunc.simps functionFrames.simps getToplevel.simps)
qed

text \<open>A function of the class 1 refers to a member of the class 2.\<close>

lemma createVarRef_access_witness:
  "createVarRef (upd 5 (\<lambda>ob. (newVarDef None ''x'')\<lparr>kind := InstVarObj, owner := Some 2\<rparr>) diamond)
     [(newFrame LocalScope (Some 9) None)\<lparr>toplevel := True\<rparr>, newFrame CompositeScope (Some 8) None,
      newFrame InstanceScope (Some 1) None] 5 = Some Reference"
proof -
  let ?f = "(newFrame LocalScope (Some 9) None)\<lparr>toplevel := True\<rparr>"
  let ?c = "[newFrame CompositeScope (Some 8) None, newFrame InstanceScope (Some 1) None]"
  let ?h = "upd 5 (\<lambda>ob. (newVarDef None ''x'')\<lparr>kind := InstVarObj, owner := Some 2\<rparr>) diamond"
  have top: "getToplevel (?f # ?c) = Some (?f # newFrame CompositeScope (Some 8) None # tl ?c)"
    by (simp add: newFrame_def)
  have v: "owner (cell ?h 5) = Some 2" "kind (cell ?h 5) = InstVarObj" "isType ?h 2"
    by (simp_all add: state_simps newVarDef_def diamond_def newTypeDef_def)
  obtain r where "createVarRef ?h (?f # ?c) 5 = Some r" "r \<noteq> ConstantValue" "r \<noteq> NotAccessible"
    using createVarRef_access [OF top v(1)] v(2,3) by (auto simp: newFrame_def)
  then show ?thesis by (cases r) simp_all
qed

section \<open>Private names\<close>

lemma privateVisibleTo_decides:
  assumes "parents_ok h" and "owners_ok h"
  shows "privateVisibleTo h n a = Some (\<forall>b. reaches (parentGraph h) a b \<longrightarrow>
    (\<forall>f \<in> set (funcs (cell h b)). \<forall>w. owner (cell h f) = Some w \<and> isType h w \<longrightarrow> reaches (outwards h) n w))"
proof -
  let ?bad = "\<lambda>b. \<exists>f \<in> set (funcs (cell h b)). \<exists>w. owner (cell h f) = Some w \<and> isType h w \<and> \<not> reaches (outwards h) n w"
  let ?g = "\<lambda>a. Option.bind (privateVisibleTo h n a) (\<lambda>v. Some (\<not> v))"
  have "?g a = (if ?bad a then Some True else anyM ?g (parentGraph h a))" for a
  proof -
    have "anyM (\<lambda>f. case owner (cell h f) of Some w \<Rightarrow> if isType h w then map_option Not (isScopedTo h w n) else Some False
        | None \<Rightarrow> Some False) (funcs (cell h a)) =
      Some (\<exists>f \<in> set (funcs (cell h a)). \<exists>w. owner (cell h f) = Some w \<and> isType h w \<and> \<not> reaches (outwards h) n w)"
      by (rule anyM_total) (auto simp: isScopedTo_reaches [OF assms(2)] split: option.split)
    then show ?thesis
      by (subst privateVisibleTo.simps) (auto simp: parentGraph_def split: bind_split)
  qed
  from types.search_decides [OF assms(1) this, of a] show ?thesis
    by (cases "privateVisibleTo h n a") auto
qed

text \<open>
  C31. The rules of private names. In a well-formed chain a name is refused exactly when it has a
  leading underscore, the definition has no alias in the current module, and: for two leading
  underscores, the definition (for an overload, one of its functions) belongs to a class and the
  current namespace is not lexically inside that class; for one, the outermost modules of the
  definition and of the context differ and the current class is not derived from the class the
  definition belongs to.
\<close>

theorem private_names:
  assumes "scopes_ok h" and "parents_ok h" and "ns f = Some here" and "isNamespace h here"
    and "getModuleContext (f # c) = Some (mf # mc)" and "ns mf = Some modNs" and "isNamespace h modNs"
    and "owner (cell h var) = Some w" and "isNamespace h w"
    and "\<forall>g \<in> set (f # c). scope g = InstanceScope \<longrightarrow> ns g \<noteq> None"
  shows "checkAccessible h (f # c) var nm = Some (Inr ()) \<longleftrightarrow>
    \<not> startsWith (CHR ''_'') nm \<or> hasAliasFor h modNs var \<or>
    (if startsWith (CHR ''_'') (tl nm) then
       (if isOverload h var then
          \<forall>b. reaches (parentGraph h) var b \<longrightarrow> (\<forall>g \<in> set (funcs (cell h b)). \<forall>k.
            owner (cell h g) = Some k \<and> isType h k \<longrightarrow> reaches (outwards h) here k)
        else isType h w \<longrightarrow> reaches (outwards h) here w)
     else getRealModule h w = getRealModule h modNs \<or>
       isType h w \<and> (\<exists>g d t. getClassContext (f # c) = Some (g # d) \<and> ns g = Some t \<and> reaches (parentGraph h) t w))"
proof -
  note own = scopes_okD(1) [OF assms(1)]
  have cls: "ns g \<noteq> None" if "getClassContext c' = Some (g # d)" "set c' \<subseteq> set (f # c)" for g d c'
    using that assms(10) by (induction c') (auto split: if_splits)
  obtain m1 m2 where m: "getRealModule h w = Some m1" "getRealModule h modNs = Some m2"
    using getRealModule_chain [OF assms(1,9)] getRealModule_chain [OF assms(1,7)] by blast
  have nonempty: "getClassContext c' = Some d \<Longrightarrow> d \<noteq> []" for c' d
    by (induction c') (auto split: if_splits)
  show ?thesis
  proof (cases "\<not> startsWith (CHR ''_'') nm \<or> hasAliasFor h modNs var")
    case True
    then show ?thesis using assms(3,5,6)
      by (auto simp: checkAccessible_def simp del: getModuleContext.simps)
  next
    case False
    show ?thesis
    proof (cases "startsWith (CHR ''_'') (tl nm)")
      case True
      with False assms(3,5,6,8) show ?thesis
        by (auto simp: checkAccessible_def privateVisibleTo_decides [OF assms(2) own] isScopedTo_reaches [OF own]
          simp del: getModuleContext.simps)
    next
      case single: False
      show ?thesis
      proof (cases "getClassContext (f # c)")
        case None
        with False single assms(3,5,6,8) m show ?thesis
          by (auto simp: checkAccessible_def simp del: getModuleContext.simps getClassContext.simps)
      next
        case (Some d)
        then obtain g d' where d: "d = g # d'" using nonempty by (cases d) blast+
        with Some cls obtain t where "ns g = Some t" by fastforce
        with False single assms(3,5,6,8) m Some d show ?thesis
          by (auto simp: checkAccessible_def isDerivedFrom_reaches [OF assms(2)]
            simp del: getModuleContext.simps getClassContext.simps)
      qed
    qed
  qed
qed

text \<open>
  A sample: class 1 in module 0, a local namespace 2 inside the class and another, 4, in the module;
  3 is a member of the class whose name starts with two underscores.
\<close>

definition sampleScopes :: store where
  "sampleScopes = \<lparr>cell = (\<lambda>a.
     if a = 0 then newModuleDef ''m'' None
     else if a = 1 then (newTypeDef None ''C'' True 0)\<lparr>owner := Some 0\<rparr>
     else if a = 2 then blankObj\<lparr>kind := LocalNS, parents := [1]\<rparr>
     else if a = 3 then (newVarDef None ''__x'')\<lparr>owner := Some 1\<rparr>
     else if a = 4 then blankObj\<lparr>kind := LocalNS, parents := [0]\<rparr>
     else blankObj), nextAddr = 5\<rparr>"

lemmas sampleScopes_simps = sampleScopes_def newModuleDef_def newTypeDef_def newVarDef_def blankObj_def

lemma sampleScopes_outwards:
  "outwards sampleScopes a = (if a = 1 \<or> a = 4 then [0] else if a = 2 then [1] else [])"
  by (simp add: outwards_def sampleScopes_simps)

lemma sampleScopes_ok: "scopes_ok sampleScopes" "parents_ok sampleScopes"
proof -
  have "owners_ok sampleScopes" unfolding owners_ok_def
    by (rule wf_by_rank [where r = id]) (auto simp: sampleScopes_outwards split: if_splits)
  then show "scopes_ok sampleScopes"
    unfolding scopes_ok_def by (auto simp: sampleScopes_outwards) (auto simp: sampleScopes_simps isNamespace_def split: if_splits)
  show "parents_ok sampleScopes" unfolding parents_ok_def
    by (rule wf_by_rank [where r = id]) (auto simp: sampleScopes_simps parentGraph_def split: if_splits)
qed

lemma private_names_witness:
  "checkAccessible sampleScopes [newFrame LocalScope (Some 4) None, newFrame ModuleScope (Some 0) None] 3 ''__x'' \<noteq>
     Some (Inr ())"
proof -
  have "reaches (outwards sampleScopes) 4 b \<longleftrightarrow> b = 4 \<or> b = 0" for b
    using reaches_unfold [of "outwards sampleScopes" 4 b] reaches_unfold [of "outwards sampleScopes" 0 b]
    by (auto simp: sampleScopes_outwards)
  then show ?thesis
    using private_names [OF sampleScopes_ok, of "newFrame LocalScope (Some 4) None" 4
      "[newFrame ModuleScope (Some 0) None]" "newFrame ModuleScope (Some 0) None" "[]" 0 3 1 "''__x''"]
    by (simp add: newFrame_def isNamespace_def hasAliasFor_def startsWith_def)
      (simp add: sampleScopes_simps)
qed

end
