(* ===== verification/Actions.thy ===== *)
theory Actions
  imports Prelude
begin

text \<open>
  Actions of the parser: computations that read and change a state, may raise an error, and may
  not return. An action maps a state to \<open>None\<close> when it does not return, to \<open>Some (Inl e)\<close> when it
  throws \<open>e\<close>, and to \<open>Some (Inr (x, s))\<close> when it yields \<open>x\<close> in the state \<open>s\<close>. The theory holds the
  sequencing of actions, what it needs to be used in recursive definitions, and the actions that
  only see a part of the state.
\<close>

type_synonym ('e, 's, 'a) action = "'s \<Rightarrow> ('e + 'a \<times> 's) option"

section \<open>Sequencing\<close>

definition yields :: "'a \<Rightarrow> ('e, 's, 'a) action" where
  "yields x s = Some (Inr (x, s))"

definition throw :: "'e \<Rightarrow> ('e, 's, 'a) action" where
  "throw e s = Some (Inl e)"

definition andBind :: "('e, 's, 'a) action \<Rightarrow> ('a \<Rightarrow> ('e, 's, 'b) action) \<Rightarrow> ('e, 's, 'b) action" where
  "andBind m f s = Option.bind (m s) (\<lambda>r. case r of Inl e \<Rightarrow> Some (Inl e) | Inr (x, s') \<Rightarrow> f x s')"

definition gets :: "('s \<Rightarrow> 'a) \<Rightarrow> ('e, 's, 'a) action" where
  "gets f s = Some (Inr (f s, s))"

definition modifies :: "('s \<Rightarrow> 's) \<Rightarrow> ('e, 's, unit) action" where
  "modifies f s = Some (Inr ((), f s))"

text \<open>A value that may be missing because its computation does not return.\<close>

definition returning :: "('s \<Rightarrow> 'a option) \<Rightarrow> ('e, 's, 'a) action" where
  "returning f s = map_option (\<lambda>x. Inr (x, s)) (f s)"

lemma andBind_simps [simp]:
  "andBind (yields x) f s = f x s"
  "andBind (throw e) f s = Some (Inl e)"
  "andBind (gets g) n s = n (g s) s"
  "andBind (modifies h) k s = k () (h s)"
  by (simp_all add: andBind_def yields_def throw_def gets_def modifies_def)

lemma andBind_ext [simp]:
  "andBind (yields x) f = f x" "andBind (throw e) f = throw e"
  by (simp_all add: fun_eq_iff andBind_def yields_def throw_def)

lemma andBind_returns: "m s = Some (Inr (x, s')) \<Longrightarrow> andBind m f s = f x s'"
  by (simp add: andBind_def)

lemma andBind_assoc: "andBind (andBind m f) g = andBind m (\<lambda>x. andBind (f x) g)"
proof
  fix s show "andBind (andBind m f) g s = andBind m (\<lambda>x. andBind (f x) g) s"
    by (cases "m s") (auto simp: andBind_def split: sum.split)
qed

lemma andBind_cong [fundef_cong]:
  assumes "m s = m' s'" and "\<And>x t. m' s' = Some (Inr (x, t)) \<Longrightarrow> f x t = f' x t"
  shows "andBind m f s = andBind m' f' s'"
  using assms by (cases "m' s'") (auto simp: andBind_def split: sum.split)

section \<open>Recursive definitions\<close>

text \<open>
  Actions occur applied to a state in the bodies of recursive definitions, so monotonicity is
  needed for conditionals and case distinctions that are applied to one.
\<close>

lemma mono_andBind [partial_function_mono]:
  assumes "\<And>s. mono_option (\<lambda>f. B f s)" and "\<And>x s. mono_option (\<lambda>f. C f x s)"
  shows "mono_option (\<lambda>f. andBind (B f) (C f) s)"
proof -
  have "mono_option (\<lambda>f. case r of Inl e \<Rightarrow> Some (Inl e) | Inr (x, s') \<Rightarrow> C f x s')" for r
    by (cases r) (auto simp: assms(2) option.const_mono split: prod.split)
  then show ?thesis unfolding andBind_def by (intro bind_mono assms(1))
qed

lemma mono_if_applied [partial_function_mono]:
  "mono_option (\<lambda>f. F f s) \<Longrightarrow> mono_option (\<lambda>f. G f s) \<Longrightarrow> mono_option (\<lambda>f. (if b then F f else G f) s)"
  by (cases b) simp_all

lemma mono_option_applied [partial_function_mono]:
  "mono_option (\<lambda>f. F f s) \<Longrightarrow> (\<And>x. mono_option (\<lambda>f. H f x s)) \<Longrightarrow>
    mono_option (\<lambda>f. (case p of None \<Rightarrow> F f | Some x \<Rightarrow> H f x) s)"
  by (cases p) simp_all

lemma mono_prod_applied [partial_function_mono]:
  "(\<And>x y. mono_option (\<lambda>f. K f x y s)) \<Longrightarrow> mono_option (\<lambda>f. (case q of (x, y) \<Rightarrow> K f x y) s)"
  by (cases q) simp

section \<open>Parts of a state\<close>

text \<open>An action on the part of the state that \<open>get\<close> reads and \<open>put\<close> writes.\<close>

definition onPart :: "('s \<Rightarrow> 'p) \<Rightarrow> ('p \<Rightarrow> 's \<Rightarrow> 's) \<Rightarrow> ('e, 'p, 'a) action \<Rightarrow> ('e, 's, 'a) action" where
  "onPart get put m s = map_option (map_sum id (map_prod id (\<lambda>p. put p s))) (m (get s))"

end
