(* ===== verification/Lazy_Imports.thy ===== *)
theory Lazy_Imports
  imports Imports Module_Names "HOL-Library.Product_Lexorder"
begin

text \<open>
  Lazy imports (model/LazyImports.h, model/LazyImports.cc): the imports of a module that are made
  when a name is first used, grouped by imported module, and their form in the meta-data. The two
  maps of the code share the groups, so the groups are objects with an index of their own.
\<close>

section \<open>The collection\<close>

text \<open>\<open>LazyImports::ModuleImports\<close> and its three constructors.\<close>

record moduleImports =
  mi_module :: "string list"
  rawSharedLib :: bool
  mi_imports :: "importedDef list"

definition noImports :: moduleImports where
  "noImports = \<lparr>mi_module = [], rawSharedLib = False, mi_imports = []\<rparr>"

record lazyImports =
  groups :: "moduleImports list"
  byModule :: "(string \<times> bool, nat) stdmap"
  byLocalName :: "(string, nat) stdmap"

definition newLazyImports :: lazyImports where
  "newLazyImports = \<lparr>groups = [], byModule = [], byLocalName = []\<rparr>"

text \<open>\<open>std::map::emplace\<close> keeps an entry that is there.\<close>

definition mapEmplace :: "'k::linorder \<Rightarrow> 'v \<Rightarrow> ('k, 'v) stdmap \<Rightarrow> ('k, 'v) stdmap" where
  "mapEmplace k v m = (if map_of m k = None then mapSet k v m else m)"

definition addImportTo :: "nat \<Rightarrow> importedDef \<Rightarrow> lazyImports \<Rightarrow> lazyImports" where
  "addImportTo i def lz = lz\<lparr>
     groups := (groups lz)[i := (groups lz ! i)\<lparr>mi_imports := mi_imports (groups lz ! i) @ [def]\<rparr>],
     byLocalName := mapEmplace (local def) i (byLocalName lz)\<rparr>"

text \<open>\<open>None\<close> is the failed assertion of \<open>parseCanonicalName\<close>.\<close>

definition addLazyImport :: "string \<Rightarrow> bool \<Rightarrow> importedDef \<Rightarrow> lazyImports \<Rightarrow> lazyImports option" where
  "addLazyImport modName raw def lz =
     (case map_of (byModule lz) (modName, raw) of
        Some i \<Rightarrow> Some (addImportTo i def lz)
      | None \<Rightarrow> map_option (\<lambda>parsed.
          let i = length (groups lz) in
          addImportTo i def (lz\<lparr>groups := groups lz @ [\<lparr>mi_module = parsed, rawSharedLib = raw, mi_imports = []\<rparr>],
            byModule := mapEmplace (modName, raw) i (byModule lz)\<rparr>)) (parseCanonicalName modName))"

definition getImport :: "string \<Rightarrow> lazyImports \<Rightarrow> derror + moduleImports" where
  "getImport lname lz =
     (case map_of (byLocalName lz) lname of
        None \<Rightarrow> Inr noImports
      | Some i \<Rightarrow> (case List.find (\<lambda>d. local d = lname) (mi_imports (groups lz ! i)) of
          Some d \<Rightarrow> Inr ((groups lz ! i)\<lparr>mi_imports := [d]\<rparr>)
        | None \<Rightarrow> Inl (CheckFailed ''lazy import not found under registered name!'')))"

section \<open>Serialization\<close>

definition serializeSymbol :: "importedDef \<Rightarrow> serializer \<Rightarrow> serializer" where
  "serializeSymbol def sub =
     (let s1 = writeString (source def) (writeUInt (pbKeyString 1) (nestedSerializer sub));
          s2 = (if local def \<noteq> source def then writeString (local def) (writeUInt (pbKeyString 2) s1) else s1)
      in writeBlob (dst s2) (writeUInt (pbKeyString 2) (shareObjMap s2 sub)))"

definition serializeGroup :: "moduleImports \<Rightarrow> serializer \<Rightarrow> serializer" where
  "serializeGroup g s =
     (let s1 = fold (\<lambda>n u. writeString n (writeUInt (pbKeyString 1) u)) (mi_module g) (nestedSerializer s);
          s2 = fold serializeSymbol (mi_imports g) s1
      in writeBlob (dst s2) (writeUInt (pbKeyString 2) (shareObjMap s2 s)))"

definition serializeLazy :: "lazyImports \<Rightarrow> serializer \<Rightarrow> serializer" where
  "serializeLazy lz s = fold (\<lambda>(_, i). serializeGroup (groups lz ! i)) (byModule lz) s"

section \<open>Deserialization\<close>

text \<open>The fields of a symbol: the source name and the local name, if there was one.\<close>

function symbolFields :: "string \<Rightarrow> string option \<Rightarrow> ('o, string \<times> string option) reads" where
  "symbolFields src loc d =
     (case readUIntEof d of
        Inl e \<Rightarrow> Inl e
      | Inr (None, d1) \<Rightarrow> Inr ((src, loc), d1)
      | Inr (Some h, d1) \<Rightarrow>
          if h = pbKeyString 1 then
            (case readString d1 of Inl e \<Rightarrow> Inl e | Inr (src', d2) \<Rightarrow> symbolFields src' loc d2)
          else if h = pbKeyString 2 then
            (case readString d1 of Inl e \<Rightarrow> Inl e | Inr (loc', d2) \<Rightarrow> symbolFields src (Some loc') d2)
          else symbolFields src loc d1)"
  by pat_completeness auto
termination
  by (relation "measure (\<lambda>(src, loc, d). length (input d))")
     (auto dest!: readUIntEof_input(2) readString_input)

declare symbolFields.simps [simp del]

definition deserializeImportSymbol :: "('o, importedDef) reads" where
  "deserializeImportSymbol d =
     andThen (nestedDeserializer d) (\<lambda>(sub, d1).
     andThen (symbolFields [] None sub) (\<lambda>((src, loc), _).
       Inr (\<lparr>local = (case loc of Some l \<Rightarrow> l | None \<Rightarrow> src), source = src\<rparr>, d1)))"

lemma deserializeImportSymbol_input:
  "deserializeImportSymbol d = Inr (x, d') \<Longrightarrow> length (input d') \<le> length (input d)"
  by (auto simp: deserializeImportSymbol_def andThen_eq_Inr dest: nestedDeserializer_input)

text \<open>
  The fields of a group: components of the module name first, then symbols, at the first of which the
  group is made. The name of the module in the map is never that of a shared library.
\<close>

function groupFields :: "nat option \<Rightarrow> string list \<Rightarrow> lazyImports \<Rightarrow> ('o, lazyImports) reads" where
  "groupFields imports modName lz d =
     (case readUIntEof d of
        Inl e \<Rightarrow> Inl e
      | Inr (None, d1) \<Rightarrow> Inr (lz, d1)
      | Inr (Some h, d1) \<Rightarrow>
          if h = pbKeyString 1 then
            (if imports \<noteq> None
             then Inl (CheckFailed ''bad serialization format: module name elements after import symbols.'')
             else (case readString d1 of Inl e \<Rightarrow> Inl e | Inr (n, d2) \<Rightarrow> groupFields imports (modName @ [n]) lz d2))
          else if h = pbKeyString 2 then
            (let i = (case imports of Some i \<Rightarrow> i | None \<Rightarrow> length (groups lz));
                 lz1 = (case imports of Some _ \<Rightarrow> lz
                   | None \<Rightarrow> lz\<lparr>groups := groups lz @ [\<lparr>mi_module = modName, rawSharedLib = False, mi_imports = []\<rparr>],
                       byModule := mapSet (joinName modName, False) i (byModule lz)\<rparr>)
             in (case deserializeImportSymbol d1 of Inl e \<Rightarrow> Inl e
                 | Inr (def, d2) \<Rightarrow> groupFields (Some i) modName (addImportTo i def lz1) d2))
          else groupFields imports modName lz d1)"
  by pat_completeness auto
termination
  by (relation "measure (\<lambda>(imports, modName, lz, d). length (input d))")
     (auto dest!: readUIntEof_input(2) readString_input deserializeImportSymbol_input)

declare groupFields.simps [simp del]

definition deserializeModuleImports :: "lazyImports \<Rightarrow> ('o, lazyImports) reads" where
  "deserializeModuleImports lz d =
     andThen (nestedDeserializer d) (\<lambda>(sub, d1).
     andThen (groupFields None [] lz sub) (\<lambda>(lz', _). Inr (lz', d1)))"

lemma deserializeModuleImports_input:
  "deserializeModuleImports lz d = Inr (x, d') \<Longrightarrow> length (input d') \<le> length (input d)"
  by (auto simp: deserializeModuleImports_def andThen_eq_Inr dest: nestedDeserializer_input)

text \<open>
  The loop that reads the entries, in \<open>deserializeOptional\<close> of ModuleDef.cc; what it does with the
  other field, the tree of aliases, is a parameter.
\<close>

function optionalFields ::
  "(string \<Rightarrow> derror + unit) \<Rightarrow> lazyImports \<Rightarrow> ('o, lazyImports) reads" where
  "optionalFields aliases lz d =
     (case readUIntEof d of
        Inl e \<Rightarrow> Inl e
      | Inr (None, d1) \<Rightarrow> Inr (lz, d1)
      | Inr (Some h, d1) \<Rightarrow>
          if h = pbKeyString 1 then
            (case readString d1 of Inl e \<Rightarrow> Inl e
             | Inr (temp, d2) \<Rightarrow> (case aliases temp of Inl e \<Rightarrow> Inl e | Inr _ \<Rightarrow> optionalFields aliases lz d2))
          else if h = pbKeyString 2 then
            (case deserializeModuleImports lz d1 of Inl e \<Rightarrow> Inl e
             | Inr (lz', d2) \<Rightarrow> optionalFields aliases lz' d2)
          else optionalFields aliases lz d1)"
  by pat_completeness auto
termination
  by (relation "measure (\<lambda>(aliases, lz, d). length (input d))")
     (auto dest!: readUIntEof_input(2) readString_input deserializeModuleImports_input)

declare optionalFields.simps [simp del]

section \<open>What is written is read\<close>

definition encSymbol :: "importedDef \<Rightarrow> byte list" where
  "encSymbol d = encUInt 10 @ encString (source d) @
     (if local d \<noteq> source d then encUInt 18 @ encString (local d) else [])"

definition encSymbolField :: "importedDef \<Rightarrow> byte list" where
  "encSymbolField d = encUInt 18 @ encBlob (encSymbol d)"

definition encNameField :: "string \<Rightarrow> byte list" where
  "encNameField n = encUInt 10 @ encString n"

definition encGroup :: "moduleImports \<Rightarrow> byte list" where
  "encGroup g = concat (map encNameField (mi_module g)) @ concat (map encSymbolField (mi_imports g))"

definition encGroupField :: "moduleImports \<Rightarrow> byte list" where
  "encGroupField g = encUInt 18 @ encBlob (encGroup g)"

definition symbol_ok :: "importedDef \<Rightarrow> bool" where
  "symbol_ok d \<longleftrightarrow> string_ok (source d) \<and> string_ok (local d) \<and> blob_ok (encSymbol d)"

definition group_ok :: "moduleImports \<Rightarrow> bool" where
  "group_ok g \<longleftrightarrow> list_all string_ok (mi_module g) \<and> list_all symbol_ok (mi_imports g) \<and> blob_ok (encGroup g)"

lemma serializeSymbol_emit: "serializeSymbol d s = emit (encSymbolField d) (encSymbolField d) s"
  by (simp add: serializeSymbol_def encSymbolField_def encSymbol_def shareObjMap_same Let_def)

lemma fold_emit:
  "(\<And>x s. f x s = emit (enc x) (enc x) s) \<Longrightarrow> fold f xs s = emit (concat (map enc xs)) (concat (map enc xs)) s"
  by (induction xs arbitrary: s) simp_all

lemma serializeGroup_emit: "serializeGroup g s = emit (encGroupField g) (encGroupField g) s"
proof -
  have "fold (\<lambda>n u. writeString n (writeUInt (pbKeyString 1) u)) ns u =
      emit (concat (map encNameField ns)) (concat (map encNameField ns)) u" for ns u
    by (rule fold_emit) (simp add: encNameField_def)
  moreover have "fold serializeSymbol ds u = emit (concat (map encSymbolField ds)) (concat (map encSymbolField ds)) u" for ds u
    by (rule fold_emit) (rule serializeSymbol_emit)
  ultimately show ?thesis
    by (simp add: serializeGroup_def encGroupField_def encGroup_def shareObjMap_same Let_def)
qed

lemma serializeLazy_emit:
  "dst (serializeLazy lz s) = dst s @ concat (map (\<lambda>(_, i). encGroupField (groups lz ! i)) (byModule lz))"
  unfolding serializeLazy_def
  by (subst fold_emit [where enc = "\<lambda>(_, i). encGroupField (groups lz ! i)"]) (auto simp: serializeGroup_emit)

text \<open>One field: its header, then a string or a nested section; the rest of the stream is left.\<close>

lemma field_header:
  assumes "holds (encUInt k @ bs) d"
  shows "readUIntEof d = Inr (Some k, absorb (encUInt k) (encUInt k) d)" "holds bs (absorb (encUInt k) (encUInt k) d)"
  using assms readUIntEof_absorb [of k d] by (auto dest: holds_append holds_absorb)

lemma symbolFields_enc:
  assumes "symbol_ok def" and "holds (encSymbol def) d" and "input d = encSymbol def"
  shows "\<exists>d'. symbolFields [] None d =
    Inr ((source def, if local def \<noteq> source def then Some (local def) else None), d')"
proof -
  let ?d1 = "absorb (encUInt 10) (encUInt 10) d"
  let ?d2 = "absorb (encString (source def)) (encString (source def)) ?d1"
  let ?d3 = "absorb (encUInt 18) (encUInt 18) ?d2"
  let ?d4 = "absorb (encString (local def)) (encString (local def)) ?d3"
  have ok: "string_ok (source def)" "string_ok (local def)" using assms(1) by (simp_all add: symbol_ok_def)
  define more where "more = (if local def \<noteq> source def then encUInt 18 @ encString (local def) else [])"
  have h: "readUIntEof d = Inr (Some 10, ?d1)" "holds (encString (source def) @ more) ?d1"
    using field_header [of 10 "encString (source def) @ more" d] assms(2) by (simp_all add: encSymbol_def more_def)
  have r1: "readString ?d1 = Inr (source def, ?d2)" and h2: "holds more ?d2"
    using readString_absorb [OF ok(1) holds_append [OF h(2)]] holds_absorb [OF h(2)] by (simp_all del: absorb_absorb)
  have step: "symbolFields [] None d = symbolFields (source def) None ?d2"
    using h(1) r1 by (simp add: symbolFields.simps [of "[]" None d] del: absorb_absorb)
  have rest: "input ?d2 = more" using assms(3) by (simp add: encSymbol_def more_def)
  show ?thesis
  proof (cases "local def = source def")
    case True
    then have "holds [] ?d2" "input ?d2 = []" using h2 rest by (simp_all add: more_def)
    from readUIntEof_end [OF this] True show ?thesis
      by (simp add: step symbolFields.simps [of "source def" None ?d2] del: absorb_absorb)
  next
    case False
    then have more: "more = encUInt 18 @ encString (local def)" by (simp add: more_def)
    note h3 = field_header [OF h2 [unfolded more]]
    note r2 = readString_absorb [OF ok(2) h3(2)]
    have "holds [] ?d4" using h3(2) holds_absorb [of _ "[]"] by (simp del: absorb_absorb)
    moreover have "input ?d4 = []" using rest more by (simp del: absorb_absorb drop_drop)
    ultimately have end4: "readUIntEof ?d4 = Inr (None, ?d4\<lparr>eofbit := True, failbit := True,
      d_hash := d_hash ?d4 @ (if d_digestEnabled ?d4 then [0xff] else [])\<rparr>)" by (rule readUIntEof_end)
    from end4 False h3(1) r2 show ?thesis
      by (simp add: step symbolFields.simps [of "source def" None ?d2]
          symbolFields.simps [of "source def" "Some (local def)" ?d4] del: absorb_absorb)
  qed
qed

lemma deserializeImportSymbol_absorb:
  assumes "symbol_ok def" and "holds (encBlob (encSymbol def)) d"
  shows "deserializeImportSymbol d = Inr (def, absorb (encBlob (encSymbol def)) (encBlob (encSymbol def)) d)"
proof -
  let ?n = "(newDeserializer (encSymbol def))\<lparr>d_objMap := d_objMap d\<rparr>"
  have "holds (encSymbol def) ?n" "input ?n = encSymbol def" by (rule holds_new) (simp add: newDeserializer_def)
  from symbolFields_enc [OF assms(1) this] obtain d' where
    "symbolFields [] None ?n = Inr ((source def, if local def \<noteq> source def then Some (local def) else None), d')" by blast
  then show ?thesis
    using nestedDeserializer_absorb [OF _ assms(2)] assms(1)
    by (cases def) (simp add: deserializeImportSymbol_def symbol_ok_def)
qed

text \<open>What reading a group does to the collection: a new group, even when the module has one already.\<close>

definition readGroup :: "moduleImports \<Rightarrow> lazyImports \<Rightarrow> lazyImports" where
  "readGroup g lz =
     (if mi_imports g = [] then lz
      else fold (addImportTo (length (groups lz))) (mi_imports g) (lz\<lparr>
        groups := groups lz @ [\<lparr>mi_module = mi_module g, rawSharedLib = False, mi_imports = []\<rparr>],
        byModule := mapSet (joinName (mi_module g), False) (length (groups lz)) (byModule lz)\<rparr>))"

lemma groupFields_symbols:
  "list_all symbol_ok ds \<Longrightarrow> holds (concat (map encSymbolField ds)) d \<Longrightarrow> input d = concat (map encSymbolField ds) \<Longrightarrow>
   \<exists>d'. groupFields (Some i) ns lz d = Inr (fold (addImportTo i) ds lz, d')"
proof (induction ds arbitrary: lz d)
  case Nil
  then show ?case by (simp add: groupFields.simps [of "Some i" ns lz d] readUIntEof_end)
next
  case (Cons x ds)
  let ?d1 = "absorb (encUInt 18) (encUInt 18) d"
  let ?d2 = "absorb (encBlob (encSymbol x)) (encBlob (encSymbol x)) ?d1"
  have h: "holds (encUInt 18 @ encBlob (encSymbol x) @ concat (map encSymbolField ds)) d"
    using Cons.prems(2) by (simp add: encSymbolField_def [of x])
  note f = field_header [OF h]
  have r: "deserializeImportSymbol ?d1 = Inr (x, ?d2)"
    using deserializeImportSymbol_absorb [OF _ holds_append [OF f(2)]] Cons.prems(1) by simp
  have "holds (concat (map encSymbolField ds)) ?d2" using f(2) by (rule holds_absorb)
  moreover have "input ?d2 = concat (map encSymbolField ds)"
    using Cons.prems(3) by (simp add: encSymbolField_def [of x])
  ultimately obtain d' where "groupFields (Some i) ns (addImportTo i x lz) ?d2 =
      Inr (fold (addImportTo i) ds (addImportTo i x lz), d')"
    using Cons.IH [of ?d2 "addImportTo i x lz"] Cons.prems(1) by auto
  then show ?case using f(1) r by (simp add: groupFields.simps [of "Some i" ns lz d] Let_def del: absorb_absorb)
qed

lemma groupFields_names:
  "list_all string_ok ns \<Longrightarrow> holds (concat (map encNameField ns) @ bs) d \<Longrightarrow>
   groupFields None ms lz d =
     groupFields None (ms @ ns) lz (absorb (concat (map encNameField ns)) (concat (map encNameField ns)) d)"
proof (induction ns arbitrary: ms d)
  case (Cons n ns)
  let ?d1 = "absorb (encUInt 10) (encUInt 10) d"
  let ?d2 = "absorb (encString n) (encString n) ?d1"
  have h: "holds (encUInt 10 @ encString n @ concat (map encNameField ns) @ bs) d"
    using Cons.prems(2) by (simp add: encNameField_def [of n])
  note f = field_header [OF h]
  have r: "readString ?d1 = Inr (n, ?d2)"
    using readString_absorb [OF _ holds_append [OF f(2)]] Cons.prems(1) by simp
  have "groupFields None ms lz d = groupFields None (ms @ [n]) lz ?d2"
    using f(1) r by (simp add: groupFields.simps [of None ms lz d] del: absorb_absorb)
  also have "\<dots> = groupFields None ((ms @ [n]) @ ns) lz
      (absorb (concat (map encNameField ns)) (concat (map encNameField ns)) ?d2)"
    using Cons.IH [OF _ holds_absorb [OF f(2)], of "ms @ [n]"] Cons.prems(1) by simp
  finally show ?case by (simp add: encNameField_def [of n])
qed simp

lemma groupFields_enc:
  assumes "group_ok g" and "holds (encGroup g) d" and "input d = encGroup g"
  shows "\<exists>d'. groupFields None [] lz d = Inr (readGroup g lz, d')"
proof -
  let ?d = "absorb (concat (map encNameField (mi_module g))) (concat (map encNameField (mi_module g))) d"
  have ok: "list_all string_ok (mi_module g)" "list_all symbol_ok (mi_imports g)" using assms(1) by (simp_all add: group_ok_def)
  note h = assms(2) [unfolded encGroup_def]
  have names: "groupFields None [] lz d = groupFields None (mi_module g) lz ?d"
    using groupFields_names [OF ok(1) h, of "[]" lz] by simp
  have d: "holds (concat (map encSymbolField (mi_imports g))) ?d" "input ?d = concat (map encSymbolField (mi_imports g))"
    using holds_absorb [OF h] assms(3) by (simp_all add: encGroup_def)
  show ?thesis
  proof (cases "mi_imports g")
    case Nil
    with d have "holds [] ?d" "input ?d = []" by simp_all
    from readUIntEof_end [OF this] show ?thesis
      by (simp add: names groupFields.simps [of None "mi_module g" lz ?d] readGroup_def Nil)
  next
    case (Cons x ds)
    let ?i = "length (groups lz)"
    let ?lz = "lz\<lparr>groups := groups lz @ [\<lparr>mi_module = mi_module g, rawSharedLib = False, mi_imports = []\<rparr>],
      byModule := mapSet (joinName (mi_module g), False) ?i (byModule lz)\<rparr>"
    let ?d1 = "absorb (encUInt 18) (encUInt 18) ?d"
    let ?d2 = "absorb (encBlob (encSymbol x)) (encBlob (encSymbol x)) ?d1"
    have h1: "holds (encUInt 18 @ encBlob (encSymbol x) @ concat (map encSymbolField ds)) ?d"
      using d(1) Cons by (simp add: encSymbolField_def [of x])
    note f = field_header [OF h1]
    have r: "deserializeImportSymbol ?d1 = Inr (x, ?d2)"
      using deserializeImportSymbol_absorb [OF _ holds_append [OF f(2)]] ok(2) Cons by simp
    have d2: "holds (concat (map encSymbolField ds)) ?d2" using f(2) by (rule holds_absorb)
    have "input ?d2 = concat (map encSymbolField ds)"
      using d(2) Cons by (simp add: encSymbolField_def [of x] del: absorb_absorb drop_drop)
    with groupFields_symbols [OF _ d2, of ?i "mi_module g" "addImportTo ?i x ?lz"] ok(2) Cons
    obtain d' where "groupFields (Some ?i) (mi_module g) (addImportTo ?i x ?lz) ?d2 =
        Inr (fold (addImportTo ?i) ds (addImportTo ?i x ?lz), d')" by auto
    then show ?thesis using f(1) r Cons
      by (simp add: names groupFields.simps [of None "mi_module g" lz ?d] readGroup_def Let_def del: absorb_absorb)
  qed
qed

lemma deserializeModuleImports_absorb:
  assumes "group_ok g" and "holds (encBlob (encGroup g)) d"
  shows "deserializeModuleImports lz d = Inr (readGroup g lz, absorb (encBlob (encGroup g)) (encBlob (encGroup g)) d)"
proof -
  let ?n = "(newDeserializer (encGroup g))\<lparr>d_objMap := d_objMap d\<rparr>"
  have "holds (encGroup g) ?n" "input ?n = encGroup g" by (rule holds_new) (simp add: newDeserializer_def)
  from groupFields_enc [OF assms(1) this] obtain d' where "groupFields None [] lz ?n = Inr (readGroup g lz, d')" by blast
  then show ?thesis
    using nestedDeserializer_absorb [OF _ assms(2)] assms(1) by (simp add: deserializeModuleImports_def group_ok_def)
qed

lemma optionalFields_groups:
  "list_all group_ok gs \<Longrightarrow> holds (concat (map encGroupField gs)) d \<Longrightarrow> input d = concat (map encGroupField gs) \<Longrightarrow>
   \<exists>d'. optionalFields aliases lz d = Inr (fold readGroup gs lz, d')"
proof (induction gs arbitrary: lz d)
  case Nil
  then show ?case by (simp add: optionalFields.simps [of aliases lz d] readUIntEof_end)
next
  case (Cons g gs)
  let ?d1 = "absorb (encUInt 18) (encUInt 18) d"
  let ?d2 = "absorb (encBlob (encGroup g)) (encBlob (encGroup g)) ?d1"
  have h: "holds (encUInt 18 @ encBlob (encGroup g) @ concat (map encGroupField gs)) d"
    using Cons.prems(2) by (simp add: encGroupField_def [of g])
  note f = field_header [OF h]
  have r: "deserializeModuleImports lz ?d1 = Inr (readGroup g lz, ?d2)"
    using deserializeModuleImports_absorb [OF _ holds_append [OF f(2)], of lz] Cons.prems(1) by simp
  have "holds (concat (map encGroupField gs)) ?d2" using f(2) by (rule holds_absorb)
  moreover have "input ?d2 = concat (map encGroupField gs)"
    using Cons.prems(3) by (simp add: encGroupField_def [of g])
  ultimately obtain d' where "optionalFields aliases (readGroup g lz) ?d2 = Inr (fold readGroup gs (readGroup g lz), d')"
    using Cons.IH [of ?d2 "readGroup g lz"] Cons.prems(1) by auto
  then show ?case using f(1) r by (simp add: optionalFields.simps [of aliases lz d] del: absorb_absorb)
qed

section \<open>What a name resolves to\<close>

text \<open>
  The group and the definition found for a name: the first registered. Every registered name has a
  definition in its group, so that the check in \<open>getImport\<close> cannot fail.
\<close>

definition importFor :: "lazyImports \<Rightarrow> string \<Rightarrow> (nat \<times> importedDef) option" where
  "importFor lz nm = (case map_of (byLocalName lz) nm of
     None \<Rightarrow> None
   | Some i \<Rightarrow> map_option (Pair i) (List.find (\<lambda>d. local d = nm) (mi_imports (groups lz ! i))))"

definition lazy_ok :: "lazyImports \<Rightarrow> bool" where
  "lazy_ok lz \<longleftrightarrow> map_ok (byLocalName lz) \<and>
     (\<forall>nm i. map_of (byLocalName lz) nm = Some i \<longrightarrow>
        i < length (groups lz) \<and> (\<exists>d \<in> set (mi_imports (groups lz ! i)). local d = nm)) \<and>
     (\<forall>i < length (groups lz). \<forall>d \<in> set (mi_imports (groups lz ! i)). map_of (byLocalName lz) (local d) \<noteq> None)"

lemma find_append_Some: "List.find P xs = Some x \<Longrightarrow> List.find P (xs @ ys) = Some x"
  by (induction xs) auto

lemma find_None_append: "\<forall>x \<in> set xs. \<not> P x \<Longrightarrow> List.find P (xs @ [y]) = (if P y then Some y else None)"
  by (induction xs) auto

lemma map_mapEmplace:
  "map_ok m \<Longrightarrow> map_of (mapEmplace k v m) = (if map_of m k = None then (map_of m)(k \<mapsto> v) else map_of m)"
  "map_ok m \<Longrightarrow> map_ok (mapEmplace k v m)"
  by (simp_all add: mapEmplace_def map_of_mapSet)

lemma getImport_importFor:
  assumes "lazy_ok lz"
  shows "getImport nm lz = Inr (case importFor lz nm of
    None \<Rightarrow> noImports | Some (i, d) \<Rightarrow> (groups lz ! i)\<lparr>mi_imports := [d]\<rparr>)"
proof (cases "map_of (byLocalName lz) nm")
  case None
  then show ?thesis by (simp add: getImport_def importFor_def)
next
  case (Some i)
  then have "\<exists>d \<in> set (mi_imports (groups lz ! i)). local d = nm"
    using assms by (simp add: lazy_ok_def)
  then obtain d where "List.find (\<lambda>d. local d = nm) (mi_imports (groups lz ! i)) = Some d"
    by (cases "List.find (\<lambda>d. local d = nm) (mi_imports (groups lz ! i))") (auto simp: find_None_iff)
  with Some show ?thesis by (simp add: getImport_def importFor_def)
qed

lemma addImportTo_sel:
  "i < length (groups lz) \<Longrightarrow> groups (addImportTo i def lz) ! j =
     (if j = i then (groups lz ! i)\<lparr>mi_imports := mi_imports (groups lz ! i) @ [def]\<rparr> else groups lz ! j)"
  "length (groups (addImportTo i def lz)) = length (groups lz)"
  "byLocalName (addImportTo i def lz) = mapEmplace (local def) i (byLocalName lz)"
  "byModule (addImportTo i def lz) = byModule lz"
  by (auto simp: addImportTo_def nth_list_update)

lemma addImportTo_ok:
  assumes "lazy_ok lz" and "i < length (groups lz)"
  shows "lazy_ok (addImportTo i def lz)"
proof -
  have ok: "map_ok (byLocalName lz)"
    and reg: "\<And>nm i. map_of (byLocalName lz) nm = Some i \<Longrightarrow> i < length (groups lz) \<and> (\<exists>d \<in> set (mi_imports (groups lz ! i)). local d = nm)"
    and all: "\<And>i d. i < length (groups lz) \<Longrightarrow> d \<in> set (mi_imports (groups lz ! i)) \<Longrightarrow> map_of (byLocalName lz) (local d) \<noteq> None"
    using assms(1) by (auto simp: lazy_ok_def)
  let ?lz = "addImportTo i def lz"
  have grown: "set (mi_imports (groups lz ! j)) \<subseteq> set (mi_imports (groups ?lz ! j))"
    "def \<in> set (mi_imports (groups ?lz ! i))" for j
    using assms(2) by (auto simp: addImportTo_sel)
  have look: "map_of (byLocalName ?lz) nm =
      (if nm = local def \<and> map_of (byLocalName lz) nm = None then Some i else map_of (byLocalName lz) nm)" for nm
    using ok by (auto simp: addImportTo_sel map_mapEmplace)
  show ?thesis unfolding lazy_ok_def
  proof (intro conjI allI impI ballI)
    show "map_ok (byLocalName ?lz)" using ok by (simp add: addImportTo_sel map_mapEmplace)
  next
    fix nm j assume "map_of (byLocalName ?lz) nm = Some j"
    then have "nm = local def \<and> j = i \<or> map_of (byLocalName lz) nm = Some j" by (simp add: look split: if_splits)
    then show "j < length (groups ?lz)" "\<exists>d \<in> set (mi_imports (groups ?lz ! j)). local d = nm"
      using reg [of nm j] grown assms(2) by (auto simp: addImportTo_sel(2))
  next
    fix j d assume j: "j < length (groups ?lz)" and d: "d \<in> set (mi_imports (groups ?lz ! j))"
    then have "d = def \<or> d \<in> set (mi_imports (groups lz ! j))"
      using assms(2) by (auto simp: addImportTo_sel split: if_splits)
    then show "map_of (byLocalName ?lz) (local d) \<noteq> None"
      using all [of j d] j by (auto simp: look addImportTo_sel(2))
  qed
qed

lemma importFor_add:
  assumes "lazy_ok lz" and "i < length (groups lz)"
  shows "importFor (addImportTo i def lz) nm =
    (case importFor lz nm of None \<Rightarrow> if local def = nm then Some (i, def) else None | Some r \<Rightarrow> Some r)"
proof -
  have ok: "map_ok (byLocalName lz)" using assms(1) by (simp add: lazy_ok_def)
  show ?thesis
  proof (cases "map_of (byLocalName lz) nm")
    case (Some j)
    then have "\<exists>d \<in> set (mi_imports (groups lz ! j)). local d = nm" using assms(1) by (simp add: lazy_ok_def)
    then obtain d where d: "List.find (\<lambda>d. local d = nm) (mi_imports (groups lz ! j)) = Some d"
      by (cases "List.find (\<lambda>d. local d = nm) (mi_imports (groups lz ! j))") (auto simp: find_None_iff)
    moreover have "map_of (byLocalName (addImportTo i def lz)) nm = Some j"
      using Some ok by (auto simp: addImportTo_sel map_mapEmplace)
    ultimately show ?thesis using Some assms(2) find_append_Some [OF d]
      by (auto simp: importFor_def addImportTo_sel)
  next
    case None
    then have "\<forall>d \<in> set (mi_imports (groups lz ! i)). local d \<noteq> nm" using assms by (fastforce simp: lazy_ok_def)
    with None ok assms(2) show ?thesis
      by (simp add: importFor_def addImportTo_sel map_mapEmplace find_None_append)
  qed
qed

text \<open>The answer to a request for a name, without the indices.\<close>

definition answer :: "lazyImports \<Rightarrow> string \<Rightarrow> moduleImports option" where
  "answer lz nm = map_option (\<lambda>(i, d). (groups lz ! i)\<lparr>mi_imports := [d]\<rparr>) (importFor lz nm)"

lemma getImport_answer:
  "lazy_ok lz \<Longrightarrow> getImport nm lz = Inr (case answer lz nm of None \<Rightarrow> noImports | Some g \<Rightarrow> g)"
  by (simp add: getImport_importFor answer_def split: option.split)

lemma answer_add:
  assumes "lazy_ok lz" and "i < length (groups lz)"
  shows "answer (addImportTo i def lz) nm = (case answer lz nm of
    None \<Rightarrow> if local def = nm then Some ((groups lz ! i)\<lparr>mi_imports := [def]\<rparr>) else None | Some r \<Rightarrow> Some r)"
  using assms(2) unfolding answer_def importFor_add [OF assms]
  by (auto simp: addImportTo_sel split: option.split)

lemma new_group:
  assumes "lazy_ok lz"
  shows "lazy_ok (lz\<lparr>groups := groups lz @ [\<lparr>mi_module = m, rawSharedLib = r, mi_imports = []\<rparr>], byModule := bm\<rparr>)"
    "answer (lz\<lparr>groups := groups lz @ [\<lparr>mi_module = m, rawSharedLib = r, mi_imports = []\<rparr>], byModule := bm\<rparr>) nm = answer lz nm"
proof -
  have reg: "\<And>nm i. map_of (byLocalName lz) nm = Some i \<Longrightarrow> i < length (groups lz)"
    using assms by (auto simp: lazy_ok_def)
  then have same: "(groups lz @ xs) ! i = groups lz ! i" if "map_of (byLocalName lz) nm = Some i" for nm i xs
    using that by (simp add: nth_append)
  show "lazy_ok (lz\<lparr>groups := groups lz @ [\<lparr>mi_module = m, rawSharedLib = r, mi_imports = []\<rparr>], byModule := bm\<rparr>)"
    using assms unfolding lazy_ok_def by (auto simp: same nth_append less_Suc_eq)
  show "answer (lz\<lparr>groups := groups lz @ [\<lparr>mi_module = m, rawSharedLib = r, mi_imports = []\<rparr>], byModule := bm\<rparr>) nm = answer lz nm"
    by (auto simp: answer_def importFor_def same option.map_comp o_def split: option.split)
qed

lemma add_symbols:
  assumes "lazy_ok lz" and "i < length (groups lz)"
  shows "lazy_ok (fold (addImportTo i) ds lz)" "length (groups (fold (addImportTo i) ds lz)) = length (groups lz)"
    "answer (fold (addImportTo i) ds lz) nm = (case answer lz nm of
      None \<Rightarrow> map_option (\<lambda>d. (groups lz ! i)\<lparr>mi_imports := [d]\<rparr>) (List.find (\<lambda>d. local d = nm) ds) | Some r \<Rightarrow> Some r)"
  using assms
proof (induction ds arbitrary: lz)
  case (Cons d ds)
  case 1
  with Cons(1) show ?case by (simp add: addImportTo_ok addImportTo_sel(2))
next
  case (Cons d ds)
  case 2
  with Cons(2) show ?case by (simp add: addImportTo_ok addImportTo_sel(2))
next
  case (Cons d ds)
  case 3
  with Cons(3) [of "addImportTo i d lz"] show ?case
    by (auto simp: addImportTo_ok addImportTo_sel answer_add split: option.split)
qed (auto split: option.split)

lemma readGroup_answer:
  assumes "lazy_ok lz"
  shows "lazy_ok (readGroup g lz)"
    "answer (readGroup g lz) nm = (case answer lz nm of
      None \<Rightarrow> map_option (\<lambda>d. \<lparr>mi_module = mi_module g, rawSharedLib = False, mi_imports = [d]\<rparr>)
        (List.find (\<lambda>d. local d = nm) (mi_imports g)) | Some r \<Rightarrow> Some r)"
proof -
  let ?lz = "lz\<lparr>groups := groups lz @ [\<lparr>mi_module = mi_module g, rawSharedLib = False, mi_imports = []\<rparr>],
      byModule := mapSet (joinName (mi_module g), False) (length (groups lz)) (byModule lz)\<rparr>"
  note new = new_group [OF assms, where m = "mi_module g" and r = False and
      bm = "mapSet (joinName (mi_module g), False) (length (groups lz)) (byModule lz)"]
  have lt: "length (groups lz) < length (groups ?lz)" by simp
  show "lazy_ok (readGroup g lz)"
    using add_symbols(1) [OF new(1) lt] assms by (simp add: readGroup_def)
  show "answer (readGroup g lz) nm = (case answer lz nm of
      None \<Rightarrow> map_option (\<lambda>d. \<lparr>mi_module = mi_module g, rawSharedLib = False, mi_imports = [d]\<rparr>)
        (List.find (\<lambda>d. local d = nm) (mi_imports g)) | Some r \<Rightarrow> Some r)"
    using add_symbols(3) [OF new(1) lt, of "mi_imports g" nm] new(2) [of nm]
    by (auto simp: readGroup_def split: option.split)
qed

definition entries :: "moduleImports list \<Rightarrow> (moduleImports \<times> importedDef) list" where
  "entries gs = concat (map (\<lambda>g. map (Pair g) (mi_imports g)) gs)"

lemma find_map_Pair: "List.find (\<lambda>(_, d). P d) (map (Pair g) ds) = map_option (Pair g) (List.find P ds)"
  by (induction ds) auto

lemma readGroups_answer:
  assumes "lazy_ok lz"
  shows "lazy_ok (fold readGroup gs lz)"
    "answer (fold readGroup gs lz) nm = (case answer lz nm of
      None \<Rightarrow> map_option (\<lambda>(g, d). \<lparr>mi_module = mi_module g, rawSharedLib = False, mi_imports = [d]\<rparr>)
        (List.find (\<lambda>(_, d). local d = nm) (entries gs)) | Some r \<Rightarrow> Some r)"
  using assms
proof (induction gs arbitrary: lz)
  case (Cons g gs)
  case 1
  with Cons(1) show ?case by (simp add: readGroup_answer)
next
  case (Cons g gs)
  case 2
  with Cons(2) [of "readGroup g lz"] show ?case
    by (simp add: readGroup_answer entries_def find_append find_map_Pair split: option.split)
qed (auto simp: entries_def split: option.split)

section \<open>Collections built by the compiler\<close>

definition addLazyImports :: "(string \<times> bool \<times> importedDef) list \<Rightarrow> lazyImports option" where
  "addLazyImports as = iterM (\<lambda>(m, r, d). addLazyImport m r d) as newLazyImports"

text \<open>The collection after the additions \<open>as\<close>.\<close>

definition holdsAdds :: "(string \<times> bool \<times> importedDef) list \<Rightarrow> lazyImports \<Rightarrow> bool" where
  "holdsAdds as lz \<longleftrightarrow> lazy_ok lz \<and> map_ok (byModule lz) \<and>
     (\<forall>m r i. map_of (byModule lz) (m, r) = Some i \<longrightarrow>
        i < length (groups lz) \<and> parseCanonicalName m = Some (mi_module (groups lz ! i)) \<and> rawSharedLib (groups lz ! i) = r) \<and>
     (\<forall>i < length (groups lz). i \<in> snd ` set (byModule lz)) \<and>
     (\<forall>i < length (groups lz). \<forall>d \<in> set (mi_imports (groups lz ! i)).
        \<exists>m. (m, rawSharedLib (groups lz ! i), d) \<in> set as \<and> parseCanonicalName m = Some (mi_module (groups lz ! i))) \<and>
     (\<forall>nm. answer lz nm = map_option (\<lambda>(m, r, d). \<lparr>mi_module = the (parseCanonicalName m), rawSharedLib = r, mi_imports = [d]\<rparr>)
        (List.find (\<lambda>(_, _, d). local d = nm) as))"

lemma holdsAddsD:
  assumes "holdsAdds as lz"
  shows "lazy_ok lz" "map_ok (byModule lz)"
    "map_of (byModule lz) (m, r) = Some i \<Longrightarrow>
      i < length (groups lz) \<and> parseCanonicalName m = Some (mi_module (groups lz ! i)) \<and> rawSharedLib (groups lz ! i) = r"
    "i < length (groups lz) \<Longrightarrow> i \<in> snd ` set (byModule lz)"
    "i < length (groups lz) \<Longrightarrow> d \<in> set (mi_imports (groups lz ! i)) \<Longrightarrow>
      \<exists>m. (m, rawSharedLib (groups lz ! i), d) \<in> set as \<and> parseCanonicalName m = Some (mi_module (groups lz ! i))"
    "answer lz nm = map_option (\<lambda>(m, r, d). \<lparr>mi_module = the (parseCanonicalName m), rawSharedLib = r, mi_imports = [d]\<rparr>)
        (List.find (\<lambda>(_, _, d). local d = nm) as)"
  using assms unfolding holdsAdds_def by simp_all

lemma holdsAdds_add:
  assumes "holdsAdds as lz" and "i < length (groups lz)" and "parseCanonicalName m = Some (mi_module (groups lz ! i))"
    and "rawSharedLib (groups lz ! i) = r"
  shows "holdsAdds (as @ [(m, r, d)]) (addImportTo i d lz)"
proof -
  note D = holdsAddsD [OF assms(1)]
  let ?lz = "addImportTo i d lz"
  have kept: "mi_module (groups ?lz ! j) = mi_module (groups lz ! j)" "rawSharedLib (groups ?lz ! j) = rawSharedLib (groups lz ! j)"
    "mi_imports (groups ?lz ! j) = (if j = i then mi_imports (groups lz ! i) @ [d] else mi_imports (groups lz ! j))"
    "length (groups ?lz) = length (groups lz)" "byModule ?lz = byModule lz" for j
    using assms(2) by (simp_all add: addImportTo_sel)
  show ?thesis unfolding holdsAdds_def kept
  proof (intro conjI allI impI ballI)
    show "lazy_ok ?lz" by (rule addImportTo_ok [OF D(1) assms(2)])
    show "map_ok (byModule lz)" by (rule D(2))
  next
    fix m r j assume "map_of (byModule lz) (m, r) = Some j"
    from D(3) [OF this] show "j < length (groups lz)" "parseCanonicalName m = Some (mi_module (groups lz ! j))"
      "rawSharedLib (groups lz ! j) = r" by simp_all
  next
    fix j assume "j < length (groups lz)" then show "j \<in> snd ` set (byModule lz)" by (rule D(4))
  next
    fix j e assume j: "j < length (groups lz)" and e: "e \<in> set (if j = i then mi_imports (groups lz ! i) @ [d] else mi_imports (groups lz ! j))"
    show "\<exists>m'. (m', rawSharedLib (groups lz ! j), e) \<in> set (as @ [(m, r, d)]) \<and>
        parseCanonicalName m' = Some (mi_module (groups lz ! j))"
    proof (cases "e \<in> set (mi_imports (groups lz ! j))")
      case True
      from D(5) [OF j True] show ?thesis by auto
    next
      case False
      with e have "j = i" "e = d" by (auto split: if_splits)
      with assms(3,4) show ?thesis by auto
    qed
  next
    fix nm
    show "answer ?lz nm = map_option (\<lambda>(m, r, d). \<lparr>mi_module = the (parseCanonicalName m), rawSharedLib = r, mi_imports = [d]\<rparr>)
        (List.find (\<lambda>(_, _, d). local d = nm) (as @ [(m, r, d)]))"
      unfolding answer_add [OF D(1) assms(2)] D(6) find_append
      using assms(3,4) by (cases "List.find (\<lambda>(_, _, d). local d = nm) as") auto
  qed
qed

lemma holdsAdds_new_group:
  assumes "holdsAdds as lz" and "map_of (byModule lz) (m, r) = None" and "parseCanonicalName m = Some ps"
  shows "holdsAdds as (lz\<lparr>groups := groups lz @ [\<lparr>mi_module = ps, rawSharedLib = r, mi_imports = []\<rparr>],
    byModule := mapEmplace (m, r) (length (groups lz)) (byModule lz)\<rparr>)" (is "holdsAdds as ?lz")
proof -
  note D = holdsAddsD [OF assms(1)]
  note new = new_group [OF D(1), where m = ps and r = r and bm = "mapEmplace (m, r) (length (groups lz)) (byModule lz)"]
  have bm: "map_of (byModule ?lz) k = (if k = (m, r) then Some (length (groups lz)) else map_of (byModule lz) k)"
    "map_ok (byModule ?lz)" for k
    using assms(2) D(2) by (simp_all add: map_mapEmplace)
  have grp: "groups ?lz ! j = (if j = length (groups lz) then \<lparr>mi_module = ps, rawSharedLib = r, mi_imports = []\<rparr> else groups lz ! j)"
    if "j < length (groups ?lz)" for j using that by (auto simp: nth_append)
  show ?thesis unfolding holdsAdds_def
  proof (intro conjI allI impI ballI)
    show "lazy_ok ?lz" by (rule new(1))
    show "map_ok (byModule ?lz)" by (rule bm(2))
  next
    fix m' r' j assume j: "map_of (byModule ?lz) (m', r') = Some j"
    have "j < length (groups ?lz) \<and> parseCanonicalName m' = Some (mi_module (groups ?lz ! j)) \<and> rawSharedLib (groups ?lz ! j) = r'"
    proof (cases "(m', r') = (m, r)")
      case True
      with j assms(3) show ?thesis unfolding bm by (auto simp: nth_append)
    next
      case False
      with j have "map_of (byModule lz) (m', r') = Some j" unfolding bm by (simp only: if_False)
      from D(3) [OF this] show ?thesis by (simp add: nth_append)
    qed
    then show "j < length (groups ?lz)" "parseCanonicalName m' = Some (mi_module (groups ?lz ! j))" "rawSharedLib (groups ?lz ! j) = r'"
      by simp_all
  next
    fix j assume "j < length (groups ?lz)"
    then consider "j < length (groups lz)" | "j = length (groups lz)" by fastforce
    then have "\<exists>k. map_of (byModule ?lz) k = Some j"
    proof cases
      case 1
      from D(4) [OF 1] obtain k where k: "(k, j) \<in> set (byModule lz)" by auto
      then have "map_of (byModule lz) k = Some j" using map_ok_distinct [OF D(2)] by simp
      with assms(2) have "map_of (byModule ?lz) k = Some j" unfolding bm by auto
      then show ?thesis ..
    next
      case 2
      then have "map_of (byModule ?lz) (m, r) = Some j" unfolding bm by simp
      then show ?thesis ..
    qed
    then show "j \<in> snd ` set (byModule ?lz)" by (auto dest!: map_of_SomeD simp: rev_image_eqI)
  next
    fix j e assume j: "j < length (groups ?lz)" and e: "e \<in> set (mi_imports (groups ?lz ! j))"
    then have lt: "j < length (groups lz)" and same: "groups ?lz ! j = groups lz ! j" using grp [OF j] by (auto split: if_splits)
    from D(5) [OF lt] e show "\<exists>m'. (m', rawSharedLib (groups ?lz ! j), e) \<in> set as \<and> parseCanonicalName m' = Some (mi_module (groups ?lz ! j))"
      unfolding same by blast
  next
    fix nm
    show "answer ?lz nm = map_option (\<lambda>(m, r, d). \<lparr>mi_module = the (parseCanonicalName m), rawSharedLib = r, mi_imports = [d]\<rparr>)
        (List.find (\<lambda>(_, _, d). local d = nm) as)"
      unfolding new(2) by (rule D(6))
  qed
qed

lemma addLazyImport_holds:
  assumes "holdsAdds as lz" and "parseCanonicalName m = Some ps"
  shows "\<exists>lz'. addLazyImport m r d lz = Some lz' \<and> holdsAdds (as @ [(m, r, d)]) lz'"
proof (cases "map_of (byModule lz) (m, r)")
  case (Some i)
  from holdsAddsD(3) [OF assms(1) Some] holdsAdds_add [OF assms(1), of i m r d] Some show ?thesis
    by (simp add: addLazyImport_def)
next
  case None
  note new = holdsAdds_new_group [OF assms(1) None assms(2)]
  from holdsAdds_add [OF new, of "length (groups lz)" m r d] assms(2) None show ?thesis
    by (simp add: addLazyImport_def Let_def)
qed

lemma addLazyImports_holds:
  "\<forall>(m, _, _) \<in> set as. parseCanonicalName m \<noteq> None \<Longrightarrow> \<exists>lz. addLazyImports as = Some lz \<and> holdsAdds as lz"
proof (induction as rule: rev_induct)
  case Nil
  show ?case
    by (simp add: addLazyImports_def holdsAdds_def newLazyImports_def lazy_ok_def answer_def importFor_def)
next
  case (snoc x as)
  obtain m r d where x: "x = (m, r, d)" by (cases x)
  from snoc obtain lz ps where "addLazyImports as = Some lz" "holdsAdds as lz" "parseCanonicalName m = Some ps"
    by (auto simp: x)
  with addLazyImport_holds [of as lz m ps r d] show ?case
    by (auto simp: addLazyImports_def iterM_append x)
qed

text \<open>
  C34. A collection built by any sequence of additions answers every request for a name, without
  failing its check: the import found is the first one added under that name, from whatever module,
  with the components of the name of the module and the kind of library it was added with.
\<close>

theorem getImport_first:
  assumes "\<forall>(m, _, _) \<in> set as. parseCanonicalName m \<noteq> None"
  shows "\<exists>lz. addLazyImports as = Some lz \<and> (\<forall>nm. getImport nm lz = Inr (
    case List.find (\<lambda>(_, _, d). local d = nm) as of
      None \<Rightarrow> noImports
    | Some (m, r, d) \<Rightarrow> \<lparr>mi_module = the (parseCanonicalName m), rawSharedLib = r, mi_imports = [d]\<rparr>))"
proof -
  from addLazyImports_holds [OF assms] obtain lz where lz: "addLazyImports as = Some lz" "holdsAdds as lz" by blast
  note D = holdsAddsD [OF lz(2)]
  have "getImport nm lz = Inr (case List.find (\<lambda>(_, _, d). local d = nm) as of
      None \<Rightarrow> noImports
    | Some (m, r, d) \<Rightarrow> \<lparr>mi_module = the (parseCanonicalName m), rawSharedLib = r, mi_imports = [d]\<rparr>)" for nm
    unfolding getImport_answer [OF D(1)] D(6) by (cases "List.find (\<lambda>(_, _, d). local d = nm) as") auto
  with lz(1) show ?thesis by blast
qed

lemma getImport_first_witness:
  "\<exists>lz. addLazyImports [(''a.b'', False, \<lparr>local = ''x'', source = ''x''\<rparr>), (''c'', True, \<lparr>local = ''x'', source = ''y''\<rparr>)] = Some lz \<and>
     getImport ''x'' lz = Inr \<lparr>mi_module = [''a'', ''b''], rawSharedLib = False, mi_imports = [\<lparr>local = ''x'', source = ''x''\<rparr>]\<rparr>"
proof -
  let ?as = "[(''a.b'', False, \<lparr>local = ''x'', source = ''x''\<rparr>), (''c'', True, \<lparr>local = ''x'', source = ''y''\<rparr>)]"
  have names: "parseCanonicalName ''a.b'' = Some [''a'', ''b'']" "parseCanonicalName ''c'' = Some [''c'']"
    by (simp_all add: parseCanonicalName_def)
  then have "\<forall>(m, _, _) \<in> set ?as. parseCanonicalName m \<noteq> None" by simp
  from getImport_first [OF this] show ?thesis using names by auto
qed

text \<open>The groups in the order they are written, and the answers of the collection over them.\<close>

abbreviation written :: "lazyImports \<Rightarrow> moduleImports list" where
  "written lz \<equiv> map (\<lambda>(_, i). groups lz ! i) (byModule lz)"

lemma written_valid:
  assumes "holdsAdds as lz" and "(k, i) \<in> set (byModule lz)"
  shows "i < length (groups lz)"
  using holdsAddsD(3) [OF assms(1), of "fst k" "snd k" i] map_ok_distinct [OF holdsAddsD(2) [OF assms(1)]] assms(2) by simp

lemma answer_written:
  assumes "holdsAdds as lz" and "distinct (map (\<lambda>(_, _, d). local d) as)" and "(g, d) \<in> set (entries (written lz))"
  shows "answer lz (local d) = Some (g\<lparr>mi_imports := [d]\<rparr>)"
proof -
  note D = holdsAddsD [OF assms(1)]
  from assms(3) obtain k i where i: "(k, i) \<in> set (byModule lz)" "g = groups lz ! i" "d \<in> set (mi_imports (groups lz ! i))"
    by (auto simp: entries_def)
  from D(5) [OF written_valid [OF assms(1) i(1)] i(3)] obtain m where
    m: "(m, rawSharedLib g, d) \<in> set as" "parseCanonicalName m = Some (mi_module g)" unfolding i(2) by blast
  have "List.find (\<lambda>(_, _, e). local e = local d) as = Some (m, rawSharedLib g, d)"
    using find_unique [OF assms(2) m(1)] by (simp add: case_prod_unfold)
  with m(2) show ?thesis unfolding D(6) by simp
qed

lemma answer_unwritten:
  assumes "holdsAdds as lz" and "List.find (\<lambda>(_, d). local d = nm) (entries (written lz)) = None"
  shows "answer lz nm = None"
proof (rule ccontr)
  note D = holdsAddsD [OF assms(1)]
  assume "answer lz nm \<noteq> None"
  then obtain i d where *: "importFor lz nm = Some (i, d)" by (auto simp: answer_def)
  then have d: "d \<in> set (mi_imports (groups lz ! i))" "local d = nm" "map_of (byLocalName lz) nm = Some i"
    by (auto simp: importFor_def dest!: find_SomeD split: option.splits)
  with D(1) have "i < length (groups lz)" by (simp add: lazy_ok_def)
  from D(4) [OF this] d(1) have "(groups lz ! i, d) \<in> set (entries (written lz))" by (force simp: entries_def)
  with assms(2) d(2) show False by (auto simp: find_None_iff)
qed

lemma readGroups_written:
  assumes "holdsAdds as lz" and "distinct (map (\<lambda>(_, _, d). local d) as)"
  shows "getImport nm (fold readGroup (written lz) newLazyImports) = map_sum id (\<lambda>g. g\<lparr>rawSharedLib := False\<rparr>) (getImport nm lz)"
proof -
  have empty: "lazy_ok newLazyImports" "answer newLazyImports nm = None" for nm
    by (simp_all add: newLazyImports_def lazy_ok_def answer_def importFor_def)
  note read = readGroups_answer(2) [OF empty(1), of "written lz", unfolded empty(2) option.case]
  have same: "answer (fold readGroup (written lz) newLazyImports) nm = map_option (\<lambda>g. g\<lparr>rawSharedLib := False\<rparr>) (answer lz nm)"
  proof (cases "List.find (\<lambda>(_, d). local d = nm) (entries (written lz))")
    case None
    with answer_unwritten [OF assms(1)] show ?thesis by (simp add: read)
  next
    case (Some e)
    obtain g d where e: "e = (g, d)" by (cases e)
    with Some have "(g, d) \<in> set (entries (written lz))" "local d = nm" by (auto dest: find_SomeD)
    with answer_written [OF assms, of g d] Some e show ?thesis by (auto simp: read)
  qed
  show ?thesis
    unfolding getImport_answer [OF readGroups_answer(1) [OF empty(1)]] getImport_answer [OF holdsAddsD(1) [OF assms(1)]] same
    by (cases "answer lz nm") (simp_all add: noImports_def)
qed

lemma readGroups_serialized:
  assumes "holdsAdds as lz" and "list_all group_ok (groups lz)"
  shows "\<exists>d. optionalFields aliases newLazyImports (newDeserializer (dst (serializeLazy lz newSerializer))) =
    Inr (fold readGroup (written lz) newLazyImports, d)"
proof (rule optionalFields_groups)
  show "list_all group_ok (written lz)" using assms(2) written_valid [OF assms(1)] by (auto simp: list_all_iff)
  show "holds (concat (map encGroupField (written lz))) (newDeserializer (dst (serializeLazy lz newSerializer)))"
    "input (newDeserializer (dst (serializeLazy lz newSerializer))) = concat (map encGroupField (written lz))"
    by (simp_all add: serializeLazy_emit newSerializer_def newDeserializer_def holds_def case_prod_unfold o_def)
qed

text \<open>
  C35. When every name is imported at most once, the collection read back from the meta-data answers
  every request like the one written, except that it takes every module for a crack module: the
  mark of a shared library is not part of the meta-data.
\<close>

theorem lazyImports_roundtrip:
  assumes "\<forall>(m, _, _) \<in> set as. parseCanonicalName m \<noteq> None" and "distinct (map (\<lambda>(_, _, d). local d) as)"
  shows "\<exists>lz. addLazyImports as = Some lz \<and> (list_all group_ok (groups lz) \<longrightarrow>
    (\<exists>lz' d. optionalFields aliases newLazyImports (newDeserializer (dst (serializeLazy lz newSerializer))) = Inr (lz', d) \<and>
      (\<forall>nm. getImport nm lz' = map_sum id (\<lambda>g. g\<lparr>rawSharedLib := False\<rparr>) (getImport nm lz))))"
proof -
  from addLazyImports_holds [OF assms(1)] obtain lz where lz: "addLazyImports as = Some lz" "holdsAdds as lz" by blast
  with readGroups_serialized [OF lz(2), of aliases] readGroups_written [OF lz(2) assms(2)] show ?thesis by blast
qed

lemma lazyImports_roundtrip_witness:
  "\<exists>lz lz' d. addLazyImports [(''m.so'', True, \<lparr>local = ''x'', source = ''y''\<rparr>)] = Some lz \<and>
     optionalFields (\<lambda>_. Inr ()) newLazyImports (newDeserializer (dst (serializeLazy lz newSerializer))) =
       Inr (lz', d :: nat deserializer) \<and>
     getImport ''x'' lz = Inr \<lparr>mi_module = [''m'', ''so''], rawSharedLib = True, mi_imports = [\<lparr>local = ''x'', source = ''y''\<rparr>]\<rparr> \<and>
     getImport ''x'' lz' = Inr \<lparr>mi_module = [''m'', ''so''], rawSharedLib = False, mi_imports = [\<lparr>local = ''x'', source = ''y''\<rparr>]\<rparr>"
proof -
  let ?as = "[(''m.so'', True, \<lparr>local = ''x'', source = ''y''\<rparr>)]"
  have names: "parseCanonicalName ''m.so'' = Some [''m'', ''so'']" by (simp add: parseCanonicalName_def)
  let ?lz = "\<lparr>groups = [\<lparr>mi_module = [''m'', ''so''], rawSharedLib = True, mi_imports = [\<lparr>local = ''x'', source = ''y''\<rparr>]\<rparr>],
    byModule = [((''m.so'', True), 0)], byLocalName = [(''x'', 0)]\<rparr>"
  have lz: "addLazyImports ?as = Some ?lz"
    by (simp add: addLazyImports_def addLazyImport_def newLazyImports_def names addImportTo_def mapEmplace_def)
  let ?d = "\<lparr>local = ''x'', source = ''y''\<rparr>"
  have sym: "length (encSymbol ?d) \<le> 22"
    using length_encUInt [of 10] length_encUInt [of 18] length_encString [of "''x''"] length_encString [of "''y''"]
    by (simp add: encSymbol_def)
  have "length (encGroup (groups ?lz ! 0)) \<le> 60"
    using sym length_encUInt [of 10] length_encUInt [of 18] length_encUInt [of "of_nat (length (encSymbol ?d))"]
      length_encString [of "''m''"] length_encString [of "''so''"]
    by (simp add: encGroup_def encNameField_def encSymbolField_def encBlob_def)
  with sym have "list_all group_ok (groups ?lz)"
    by (simp add: group_ok_def symbol_ok_def string_ok_def blob_ok_def)
  moreover have "\<forall>(m, _, _) \<in> set ?as. parseCanonicalName m \<noteq> None" "distinct (map (\<lambda>(_, _, d). local d) ?as)"
    by (simp_all add: names)
  note lazyImports_roundtrip [OF this, of "\<lambda>_. Inr ()"]
  ultimately obtain lz' and d :: "nat deserializer" where rd:
    "optionalFields (\<lambda>_. Inr ()) newLazyImports (newDeserializer (dst (serializeLazy ?lz newSerializer))) = Inr (lz', d)"
    "\<forall>nm. getImport nm lz' = map_sum id (\<lambda>g. g\<lparr>rawSharedLib := False\<rparr>) (getImport nm ?lz)"
    unfolding lz by blast
  have "getImport ''x'' ?lz = Inr \<lparr>mi_module = [''m'', ''so''], rawSharedLib = True, mi_imports = [\<lparr>local = ''x'', source = ''y''\<rparr>]\<rparr>"
    by (simp add: getImport_def)
  with lz rd show ?thesis by auto
qed

end
