(* ===== verification/Sem_State.thy ===== *)
theory Sem_State
  imports Actions Contexts Toker_Step Lazy_Imports
begin

text \<open>
  What the parser builds: the chain of contexts, the store of definitions, and the state \<open>'c\<close> of the
  builder and of everything else, which is not looked into. The operations of contexts that can make
  code, or load other modules, are actions on this state. The location the context keeps for messages
  is not part of it.
\<close>

section \<open>State\<close>

record 'c sems =
  sem_ctx :: ctx
  sem_store :: store
  sem_rest :: 'c

text \<open>
  Errors: those of the tokenizer, messages at a token and at the current location (without the
  names and types the messages quote), the redefinition of a name, the errors of the context, the
  division by zero of constant folding, and faults of the compiler: a failed check and the use of a
  null pointer.
\<close>

datatype perror =
    LexFailed lexError
  | ErrorAt token string
  | ErrorHere string
  | Redefined token addr
  | AccessDenied accessError
  | LookupFailed nsError
  | DivZero
  | CheckFailed string
  | NullPointer string

type_synonym ('c, 'a) sem = "(perror, 'c sems, 'a) action"

section \<open>Basic actions\<close>

text \<open>\<open>context->ns\<close>\<close>

definition curNs :: "('c, addr) sem" where
  "curNs = returning (\<lambda>s. case sem_ctx s of f # _ \<Rightarrow> ns f | [] \<Rightarrow> None)"

definition nsOr :: "addr option \<Rightarrow> ('c, addr) sem" where
  "nsOr srcNs = (case srcNs of Some n \<Rightarrow> yields n | None \<Rightarrow> curNs)"

definition onStore :: "(store \<Rightarrow> (nsError + 'a \<times> store) option) \<Rightarrow> ('c, 'a) sem" where
  "onStore m s = map_option (\<lambda>r. case r of
     Inl e \<Rightarrow> Inl (LookupFailed e) | Inr (x, h) \<Rightarrow> Inr (x, s\<lparr>sem_store := h\<rparr>)) (m (sem_store s))"

text \<open>\<open>Namespace::lookUp\<close>\<close>

definition nsLookUp :: "string \<Rightarrow> addr \<Rightarrow> ('c, addr option) sem" where
  "nsLookUp nm n = returning (\<lambda>s. lookUp (sem_store s) nm n)"

text \<open>\<open>OverloadDef::createImpl\<close>\<close>

definition makeImpl :: "addr \<Rightarrow> ('c, unit) sem" where
  "makeImpl d s = map_option (\<lambda>r. case r of
     Inl () \<Rightarrow> Inl (CheckFailed ''impl'') | Inr h \<Rightarrow> Inr ((), s\<lparr>sem_store := h\<rparr>)) (createImpl d (sem_store s))"

end
