(* ===== verification/Dependencies.thy ===== *)
theory Dependencies
  imports Namespaces
begin

text \<open>
  The modules a module depends on (\<open>ModuleDef::addDependency\<close> and the members \<open>addDependenciesTo\<close> of
  \<open>VarDef\<close>, \<open>TypeDef\<close>, \<open>FuncDef\<close> and \<open>OverloadDef\<close>): importing a definition makes the module depend on
  every module that a definition reachable from it belongs to. The walk has the set of the types it has
  been at, which is what makes it end.
\<close>

section \<open>Operations\<close>

text \<open>\<open>VarDef::getModule\<close>; \<open>addDependency\<close> of a module that is null uses the null pointer.\<close>

definition moduleOf :: "store \<Rightarrow> addr \<Rightarrow> addr option option" where
  "moduleOf h this = (case owner (cell h this) of None \<Rightarrow> None | Some w \<Rightarrow> getModule h w)"

definition addDependency :: "addr \<Rightarrow> addr option \<Rightarrow> store \<Rightarrow> store option" where
  "addDependency this other h = (case other of
     None \<Rightarrow> None
   | Some m \<Rightarrow> Some (
       if m \<noteq> this \<and> map_of (dependencies (cell h this)) (canonicalName (cell h m)) = None
       then upd this (\<lambda>ob. ob\<lparr>dependencies := mapSet (canonicalName (cell h m)) m (dependencies ob)\<rparr>) h
       else h))"

definition addCompileTimeDependency :: "addr \<Rightarrow> addr \<Rightarrow> store \<Rightarrow> store" where
  "addCompileTimeDependency this other h =
     (if map_of (compileTimeDeps (cell h this)) (canonicalName (cell h other)) = None
      then upd this (\<lambda>ob. ob\<lparr>compileTimeDeps := mapSet (canonicalName (cell h other)) other (compileTimeDeps ob)\<rparr>) h
      else h)"

text \<open>The members, with the recursive calls as an argument\<close>

type_synonym depWalk = "addr \<Rightarrow> store \<times> addr set \<Rightarrow> (store \<times> addr set) option"

definition varDependencies :: "depWalk \<Rightarrow> addr \<Rightarrow> depWalk" where
  "varDependencies rec md this st = (case st of (h, added) \<Rightarrow>
     Option.bind (moduleOf h this) (\<lambda>m. Option.bind (addDependency md m h) (\<lambda>h1.
     case deftype (cell h this) of
       Some t \<Rightarrow> if t \<noteq> this then rec t (h1, added) else Some (h1, added)
     | None \<Rightarrow> Some (h1, added))))"

definition publicDefs :: "store \<Rightarrow> addr \<Rightarrow> addr list" where
  "publicDefs h this = map snd (filter (\<lambda>e. take 2 (fst e) \<noteq> ''__'') (defs (cell h this)))"

definition typeDependencies :: "depWalk \<Rightarrow> addr \<Rightarrow> depWalk" where
  "typeDependencies rec md this st = (case st of (h, added) \<Rightarrow>
     if this \<in> added then Some (h, added)
     else Option.bind (moduleOf h this) (\<lambda>m. Option.bind (addDependency md m h) (\<lambda>h1.
       iterM rec (publicDefs h this) (h1, insert this added))))"

definition funcDependencies :: "depWalk \<Rightarrow> addr \<Rightarrow> depWalk" where
  "funcDependencies rec md this st = (case st of (h, added) \<Rightarrow>
     Option.bind (moduleOf h this) (\<lambda>m. Option.bind (addDependency md m h) (\<lambda>h1.
     case returnType (cell h this) of
       None \<Rightarrow> None
     | Some t \<Rightarrow> Option.bind (rec t (h1, added)) (iterM rec (map snd (args (cell h this)))))))"

definition overloadDependencies :: "depWalk \<Rightarrow> addr \<Rightarrow> depWalk" where
  "overloadDependencies rec md this st = (case st of (h, added) \<Rightarrow> iterM rec (funcs (cell h this)) (h, added))"

lemma dependencies_mono [partial_function_mono]:
  assumes "\<And>x s. mono_option (\<lambda>f. R f x s)"
  shows "mono_option (\<lambda>f. varDependencies (R f) md this st)" "mono_option (\<lambda>f. typeDependencies (R f) md this st)"
    "mono_option (\<lambda>f. funcDependencies (R f) md this st)" "mono_option (\<lambda>f. overloadDependencies (R f) md this st)"
proof -
  obtain h added where st: "st = (h, added)" by (cases st)
  show "mono_option (\<lambda>f. varDependencies (R f) md this st)" unfolding varDependencies_def st prod.case
    by (intro bind_mono option.const_mono, cases "deftype (cell h this)"; cases "deftype (cell h this) = Some this")
      (simp_all add: option.const_mono assms)
  show "mono_option (\<lambda>f. typeDependencies (R f) md this st)" unfolding typeDependencies_def st prod.case
    by (cases "this \<in> added"; simp add: option.const_mono) (intro bind_mono option.const_mono iterM_mono assms)
  show "mono_option (\<lambda>f. funcDependencies (R f) md this st)" unfolding funcDependencies_def st prod.case
    by (intro bind_mono option.const_mono, cases "returnType (cell h this)"; simp add: option.const_mono)
      (intro bind_mono option.const_mono iterM_mono assms)
  show "mono_option (\<lambda>f. overloadDependencies (R f) md this st)" unfolding overloadDependencies_def st prod.case
    by (intro iterM_mono assms)
qed

partial_function (option) addDependenciesTo :: "addr \<Rightarrow> depWalk" where
  "addDependenciesTo md this st = (case kind (cell (fst st) this) of
     TypeObj \<Rightarrow> typeDependencies (addDependenciesTo md) md this st
   | FuncObj \<Rightarrow> funcDependencies (addDependenciesTo md) md this st
   | OverloadObj \<Rightarrow> overloadDependencies (addDependenciesTo md) md this st
   | _ \<Rightarrow> varDependencies (addDependenciesTo md) md this st)"

section \<open>The definitions that are visited\<close>

definition depends :: "store \<Rightarrow> addr \<Rightarrow> addr list" where
  "depends h this = (case kind (cell h this) of
     TypeObj \<Rightarrow> publicDefs h this
   | FuncObj \<Rightarrow> (case returnType (cell h this) of None \<Rightarrow> [] | Some t \<Rightarrow> [t]) @ map snd (args (cell h this))
   | OverloadObj \<Rightarrow> funcs (cell h this)
   | _ \<Rightarrow> (case deftype (cell h this) of Some t \<Rightarrow> if t = this then [] else [t] | None \<Rightarrow> []))"

text \<open>
  What the walk relies on: definitions have modules and types, functions a return type, overloads have
  functions; the definitions reachable are finitely many.
\<close>

definition depNode_ok :: "store \<Rightarrow> addr \<Rightarrow> bool" where
  "depNode_ok h x \<longleftrightarrow>
     (isOverload h x \<longrightarrow> (\<forall>d \<in> set (depends h x). isFunc h d)) \<and>
     (\<not> isOverload h x \<longrightarrow> (\<exists>m. moduleOf h x = Some (Some m))) \<and>
     (isFunc h x \<longrightarrow> returnType (cell h x) \<noteq> None) \<and>
     (\<not> isOverload h x \<and> \<not> isType h x \<longrightarrow> (\<forall>d \<in> set (depends h x). isType h d))"

definition dependable :: "store \<Rightarrow> addr set \<Rightarrow> bool" where
  "dependable h N \<longleftrightarrow> finite N \<and> (\<forall>x \<in> N. depNode_ok h x \<and> set (depends h x) \<subseteq> N)"

text \<open>One step of the walk in terms of the graph\<close>

definition recordModule :: "addr \<Rightarrow> addr \<Rightarrow> store \<Rightarrow> store option" where
  "recordModule md this h = (if isOverload h this then Some h else Option.bind (moduleOf h this) (\<lambda>m. addDependency md m h))"

lemma addDependenciesTo_step:
  assumes "depNode_ok h this"
  shows "addDependenciesTo md this (h, added) =
    (if isType h this \<and> this \<in> added then Some (h, added)
     else Option.bind (recordModule md this h) (\<lambda>h1.
       iterM (addDependenciesTo md) (depends h this) (h1, if isType h this then insert this added else added)))"
proof (cases "isFunc h this")
  case True
  then obtain t where "returnType (cell h this) = Some t" using assms by (auto simp: depNode_ok_def)
  with True show ?thesis
    by (subst addDependenciesTo.simps) (auto simp: funcDependencies_def recordModule_def depends_def split: bind_splits)
next
  case False
  then show ?thesis
    by (subst addDependenciesTo.simps)
      (auto simp: varDependencies_def typeDependencies_def overloadDependencies_def recordModule_def depends_def
        split: bind_splits option.splits kind.splits)
qed

section \<open>The state of the walk\<close>

text \<open>Only the dependencies of the module change.\<close>

abbreviation withDeps :: "addr \<Rightarrow> store \<Rightarrow> (string, addr) stdmap \<Rightarrow> store" where
  "withDeps md h m \<equiv> upd md (\<lambda>ob. ob\<lparr>dependencies := m\<rparr>) h"

lemma getModule_withDeps: "getModule (withDeps md h m) x = getModule h x"
proof -
  have le: "getModule g x = Some r \<Longrightarrow> (\<And>y. kind (cell g' y) = kind (cell g y) \<and> owner (cell g' y) = owner (cell g y) \<and>
      parents (cell g' y) = parents (cell g y)) \<Longrightarrow> getModule g' x = Some r" for g g' x r
  proof (induction arbitrary: g' rule: getModule.raw_induct [rotated 1, consumes 1])
    case (1 f g x r)
    have rec: "f g w = Some r \<Longrightarrow> getModule g' w = Some r" for w by (rule 1(1)) (use 1(3) in simp_all)
    show ?case
      by (subst getModule.simps) (use 1(2) 1(3) rec in \<open>auto split: kind.splits option.splits list.splits\<close>)
  qed
  have same: "kind (cell (withDeps md h m) y) = kind (cell h y) \<and> owner (cell (withDeps md h m) y) = owner (cell h y) \<and>
      parents (cell (withDeps md h m) y) = parents (cell h y)" for y by (simp add: state_simps)
  show ?thesis
    using le [of "withDeps md h m" x _ h] le [of h x _ "withDeps md h m"] same
    by (cases "getModule h x"; cases "getModule (withDeps md h m) x") auto
qed

lemma withDeps_simps [simp]:
  "kind (cell (withDeps md h m) x) = kind (cell h x)" "moduleOf (withDeps md h m) x = moduleOf h x"
  "depends (withDeps md h m) x = depends h x" "canonicalName (cell (withDeps md h m) x) = canonicalName (cell h x)"
  "dependencies (cell (withDeps md h m) md) = m" "withDeps md (withDeps md h m) m' = withDeps md h m'"
proof -
  show "moduleOf (withDeps md h m) x = moduleOf h x"
    by (simp add: moduleOf_def getModule_withDeps state_simps split: option.split)
  show "depends (withDeps md h m) x = depends h x"
  proof -
    have f: "kind (cell (withDeps md h m) x) = kind (cell h x)" "returnType (cell (withDeps md h m) x) = returnType (cell h x)"
      "args (cell (withDeps md h m) x) = args (cell h x)" "funcs (cell (withDeps md h m) x) = funcs (cell h x)"
      "deftype (cell (withDeps md h m) x) = deftype (cell h x)" "defs (cell (withDeps md h m) x) = defs (cell h x)"
      by (simp_all add: state_simps)
    show ?thesis unfolding depends_def publicDefs_def f ..
  qed
  show "withDeps md (withDeps md h m) m' = withDeps md h m'" by (simp add: upd_def fun_eq_iff)
qed (simp_all add: state_simps)

lemma depNode_withDeps [simp]: "depNode_ok (withDeps md h m) x = depNode_ok h x"
proof -
  have "returnType (cell (withDeps md h m) x) = returnType (cell h x)" by (simp add: state_simps)
  then show ?thesis by (simp add: depNode_ok_def)
qed

lemma withDeps_set:
  "upd md (\<lambda>ob. ob\<lparr>dependencies := mapSet k d (dependencies ob)\<rparr>) (withDeps md h m) = withDeps md h (mapSet k d m)"
  by (simp add: upd_def)

text \<open>A definition is recorded when the module has its module among the dependencies.\<close>

definition recorded :: "store \<Rightarrow> addr \<Rightarrow> (string, addr) stdmap \<Rightarrow> addr \<Rightarrow> bool" where
  "recorded h md m x \<longleftrightarrow> (\<not> isOverload h x \<longrightarrow>
     (\<forall>d. moduleOf h x = Some (Some d) \<and> d \<noteq> md \<longrightarrow> map_of m (canonicalName (cell h d)) \<noteq> None))"

definition moduleNames :: "store \<Rightarrow> addr \<Rightarrow> addr set \<Rightarrow> string set" where
  "moduleNames h md X = {canonicalName (cell h d) | x d. x \<in> X \<and> \<not> isOverload h x \<and> moduleOf h x = Some (Some d) \<and> d \<noteq> md}"

inductive covered :: "store \<Rightarrow> addr \<Rightarrow> (string, addr) stdmap \<Rightarrow> addr set \<Rightarrow> addr \<Rightarrow> bool"
  for h md m A where
  covered_type: "isType h x \<Longrightarrow> x \<in> A \<Longrightarrow> covered h md m A x"
| covered_other: "\<not> isType h x \<Longrightarrow> recorded h md m x \<Longrightarrow> (\<And>d. d \<in> set (depends h x) \<Longrightarrow> covered h md m A d) \<Longrightarrow> covered h md m A x"

inductive_cases coveredE: "covered h md m A x"

lemma recorded_mono: "recorded h md m x \<Longrightarrow> dom (map_of m) \<subseteq> dom (map_of m') \<Longrightarrow> recorded h md m' x"
  by (auto simp: recorded_def)

lemma covered_mono:
  "covered h md m A x \<Longrightarrow> A \<subseteq> A' \<Longrightarrow> dom (map_of m) \<subseteq> dom (map_of m') \<Longrightarrow> covered h md m' A' x"
proof (induction rule: covered.induct)
  case (covered_type x)
  then show ?case by (intro covered.covered_type) auto
next
  case (covered_other x)
  show ?case
  proof (rule covered.covered_other [OF covered_other(1)])
    show "recorded h md m' x" by (rule recorded_mono) (rule covered_other)+
    show "covered h md m' A' d" if "d \<in> set (depends h x)" for d by (rule covered_other(4)) (rule that covered_other)+
  qed
qed

text \<open>What a part of the walk does, that visits definitions of \<open>X\<close>.\<close>

definition walked :: "store \<Rightarrow> addr \<Rightarrow> addr set \<Rightarrow> (string, addr) stdmap \<Rightarrow> addr set \<Rightarrow> (string, addr) stdmap \<Rightarrow> addr set \<Rightarrow> bool" where
  "walked h md X m A m' A' \<longleftrightarrow> map_ok m' \<and> A \<subseteq> A' \<and> A' \<subseteq> A \<union> {t \<in> X. isType h t} \<and>
     dom (map_of m) \<subseteq> dom (map_of m') \<and> dom (map_of m') \<subseteq> dom (map_of m) \<union> moduleNames h md X \<and>
     (\<forall>t \<in> A' - A. recorded h md m' t \<and> (\<forall>d \<in> set (depends h t). covered h md m' A' d))"

lemma walkedD:
  assumes "walked h md X m A m' A'"
  shows "map_ok m'" "A \<subseteq> A'" "A' \<subseteq> A \<union> {t \<in> X. isType h t}" "dom (map_of m) \<subseteq> dom (map_of m')"
    "dom (map_of m') \<subseteq> dom (map_of m) \<union> moduleNames h md X"
    "t \<in> A' \<Longrightarrow> t \<notin> A \<Longrightarrow> recorded h md m' t" "t \<in> A' \<Longrightarrow> t \<notin> A \<Longrightarrow> d \<in> set (depends h t) \<Longrightarrow> covered h md m' A' d"
  using assms by (simp_all add: walked_def)

lemma walkedI:
  assumes "map_ok m'" "A \<subseteq> A'" "A' \<subseteq> A \<union> {t \<in> X. isType h t}" "dom (map_of m) \<subseteq> dom (map_of m')"
    "dom (map_of m') \<subseteq> dom (map_of m) \<union> moduleNames h md X"
    "\<And>t. t \<in> A' \<Longrightarrow> t \<notin> A \<Longrightarrow> recorded h md m' t" "\<And>t d. t \<in> A' \<Longrightarrow> t \<notin> A \<Longrightarrow> d \<in> set (depends h t) \<Longrightarrow> covered h md m' A' d"
  shows "walked h md X m A m' A'"
  unfolding walked_def using assms by (intro conjI ballI) auto

lemma walked_refl: "map_ok m \<Longrightarrow> walked h md X m A m A"
  by (rule walkedI) auto

lemma moduleNames_mono: "X \<subseteq> Y \<Longrightarrow> moduleNames h md X \<subseteq> moduleNames h md Y"
  by (auto simp: moduleNames_def)

lemma walked_mono: "walked h md X m A m' A' \<Longrightarrow> X \<subseteq> Y \<Longrightarrow> walked h md Y m A m' A'"
proof (rule walkedI)
  assume w: "walked h md X m A m' A'" and "X \<subseteq> Y"
  note d = walkedD [OF w]
  show "map_ok m'" "A \<subseteq> A'" "dom (map_of m) \<subseteq> dom (map_of m')" by (rule d)+
  show "A' \<subseteq> A \<union> {t \<in> Y. isType h t}" using d(3) \<open>X \<subseteq> Y\<close> by blast
  show "dom (map_of m') \<subseteq> dom (map_of m) \<union> moduleNames h md Y" using d(5) moduleNames_mono [OF \<open>X \<subseteq> Y\<close>] by blast
  fix t assume "t \<in> A'" "t \<notin> A"
  then show "recorded h md m' t" "\<And>d. d \<in> set (depends h t) \<Longrightarrow> covered h md m' A' d" by (rule d(6), rule d(7))
qed

lemma walked_trans:
  assumes "walked h md X m A m1 A1" and "walked h md X m1 A1 m2 A2"
  shows "walked h md X m A m2 A2"
proof (rule walkedI)
  note a = walkedD [OF assms(1)] and b = walkedD [OF assms(2)]
  show "map_ok m2" by (rule b(1))
  show "A \<subseteq> A2" using a(2) b(2) by (rule subset_trans)
  show "dom (map_of m) \<subseteq> dom (map_of m2)" using a(4) b(4) by (rule subset_trans)
  show "A2 \<subseteq> A \<union> {t \<in> X. isType h t}" using a(3) b(3) by blast
  show "dom (map_of m2) \<subseteq> dom (map_of m) \<union> moduleNames h md X" using a(5) b(5) by blast
  fix t assume t: "t \<in> A2" "t \<notin> A"
  show "recorded h md m2 t"
    by (cases "t \<in> A1") (use t a(6) b(4,6) recorded_mono in blast)+
  show "covered h md m2 A2 d" if "d \<in> set (depends h t)" for d
    by (cases "t \<in> A1") (use t that a(7) b(2,4,7) covered_mono in blast)+
qed

definition walks :: "store \<Rightarrow> addr \<Rightarrow> addr \<Rightarrow> (string, addr) stdmap \<Rightarrow> addr set \<Rightarrow> bool" where
  "walks h md x m A \<longleftrightarrow> (\<exists>m' A'. addDependenciesTo md x (withDeps md h m, A) = Some (withDeps md h m', A') \<and>
     walked h md {y. reaches (depends h) x y} m A m' A' \<and> covered h md m' A' x)"

lemma recordModule_walks:
  assumes "depNode_ok h x" and "map_ok m"
  shows "\<exists>m'. recordModule md x (withDeps md h m) = Some (withDeps md h m') \<and> map_ok m' \<and> recorded h md m' x \<and>
    dom (map_of m) \<subseteq> dom (map_of m') \<and> dom (map_of m') \<subseteq> dom (map_of m) \<union> moduleNames h md {x}"
proof (cases "isOverload h x")
  case True
  then show ?thesis using assms(2) by (intro exI [of _ m]) (simp add: recordModule_def recorded_def)
next
  case False
  then obtain d where d: "moduleOf h x = Some (Some d)" using assms(1) by (auto simp: depNode_ok_def)
  show ?thesis
  proof (cases "d \<noteq> md \<and> map_of m (canonicalName (cell h d)) = None")
    case True
    then show ?thesis using False d assms(2)
      by (intro exI [of _ "mapSet (canonicalName (cell h d)) d m"])
        (auto simp: recordModule_def addDependency_def recorded_def moduleNames_def map_simps withDeps_set)
  next
    case none: False
    then show ?thesis using False d assms(2)
      by (intro exI [of _ m]) (auto simp: recordModule_def addDependency_def recorded_def)
  qed
qed

lemma iterM_walks:
  assumes "\<And>d m A. d \<in> set ds \<Longrightarrow> map_ok m \<Longrightarrow> B \<subseteq> A \<Longrightarrow> walks h md d m A" and "map_ok m" and "B \<subseteq> A"
    and "\<And>d. d \<in> set ds \<Longrightarrow> {y. reaches (depends h) d y} \<subseteq> X"
  shows "\<exists>m' A'. iterM (addDependenciesTo md) ds (withDeps md h m, A) = Some (withDeps md h m', A') \<and>
    walked h md X m A m' A' \<and> (\<forall>d \<in> set ds. covered h md m' A' d)"
  using assms
proof (induction ds arbitrary: m A)
  case (Cons d ds)
  from Cons(2) [of d m A] Cons(3,4) obtain m1 A1 where
    one: "addDependenciesTo md d (withDeps md h m, A) = Some (withDeps md h m1, A1)"
      "walked h md {y. reaches (depends h) d y} m A m1 A1" "covered h md m1 A1 d" by (auto simp: walks_def)
  have w: "walked h md X m A m1 A1" by (rule walked_mono [OF one(2)]) (rule Cons(5), simp)
  then have "map_ok m1" "B \<subseteq> A1" using Cons(4) by (auto simp: walked_def)
  with Cons(1) [of m1 A1] Cons(2,5) obtain m2 A2 where
    two: "iterM (addDependenciesTo md) ds (withDeps md h m1, A1) = Some (withDeps md h m2, A2)"
      "walked h md X m1 A1 m2 A2" "\<forall>d \<in> set ds. covered h md m2 A2 d" by auto
  have "covered h md m2 A2 d" using one(3) two(2) covered_mono unfolding walked_def by blast
  then show ?case using one(1) two walked_trans [OF w two(2)] by auto
qed (auto intro: walked_refl)

text \<open>The walk ends: a type is entered once, and between types there is at most a function of an overload.\<close>

definition depRank :: "store \<Rightarrow> addr \<Rightarrow> nat" where
  "depRank h x = (if isType h x then 0 else if isOverload h x then 2 else 1)"

lemma depRank_less:
  "depNode_ok h x \<Longrightarrow> \<not> isType h x \<Longrightarrow> d \<in> set (depends h x) \<Longrightarrow> depRank h d < depRank h x"
  by (cases "isOverload h x") (auto simp: depNode_ok_def depRank_def)

lemma visit_walks:
  assumes ok: "depNode_ok h x" and "map_ok m" and new: "\<not> (isType h x \<and> x \<in> A)"
    and rec: "\<And>d m A'. d \<in> set (depends h x) \<Longrightarrow> map_ok m \<Longrightarrow> (if isType h x then insert x A else A) \<subseteq> A' \<Longrightarrow> walks h md d m A'"
  shows "walks h md x m A"
proof -
  let ?A = "if isType h x then insert x A else A"
  let ?X = "{y. reaches (depends h) x y}"
  from recordModule_walks [OF ok assms(2), of md] obtain m1 where
    m1: "recordModule md x (withDeps md h m) = Some (withDeps md h m1)" "map_ok m1" "recorded h md m1 x"
      "dom (map_of m) \<subseteq> dom (map_of m1)" "dom (map_of m1) \<subseteq> dom (map_of m) \<union> moduleNames h md {x}" by blast
  have sub: "{y. reaches (depends h) d y} \<subseteq> ?X" if "d \<in> set (depends h x)" for d
    using reaches_step [of d "depends h" x] that by blast
  from iterM_walks [of "depends h x" ?A h md m1 ?A ?X, OF rec m1(2) order_refl sub] obtain m' A' where
    it: "iterM (addDependenciesTo md) (depends h x) (withDeps md h m1, ?A) = Some (withDeps md h m', A')"
      "walked h md ?X m1 ?A m' A'" "\<forall>d \<in> set (depends h x). covered h md m' A' d" by blast
  note w = walkedD [OF it(2)]
  have run: "addDependenciesTo md x (withDeps md h m, A) = Some (withDeps md h m', A')"
    using addDependenciesTo_step [of "withDeps md h m" x md A] ok new m1(1) it(1) by auto
  have rec': "recorded h md m' x" by (rule recorded_mono [OF m1(3) w(4)])
  have "moduleNames h md {x} \<subseteq> moduleNames h md ?X" by (rule moduleNames_mono) simp
  have "walked h md ?X m A m' A'"
  proof (rule walkedI)
    show "map_ok m'" by (rule w(1))
    show "A \<subseteq> A'" using w(2) by (auto split: if_splits)
    show "A' \<subseteq> A \<union> {t \<in> ?X. isType h t}" using w(3) by (auto split: if_splits)
    show "dom (map_of m) \<subseteq> dom (map_of m')" using m1(4) w(4) by (rule subset_trans)
    show "dom (map_of m') \<subseteq> dom (map_of m) \<union> moduleNames h md ?X"
      using m1(5) w(5) \<open>moduleNames h md {x} \<subseteq> _\<close> by blast
    fix t assume t: "t \<in> A'" "t \<notin> A"
    show "recorded h md m' t" by (cases "t = x") (use rec' w(6) [of t] t in \<open>auto split: if_splits\<close>)
    show "covered h md m' A' d" if "d \<in> set (depends h t)" for d
      by (cases "t = x") (use it(3) w(7) [of t d] t that in \<open>auto split: if_splits\<close>)
  qed
  moreover have "covered h md m' A' x"
  proof (cases "isType h x")
    case True
    then show ?thesis using w(2) by (intro covered_type) auto
  next
    case False
    show ?thesis by (rule covered_other [OF False rec']) (rule bspec [OF it(3)])
  qed
  ultimately show ?thesis using run unfolding walks_def by blast
qed

lemma addDependenciesTo_walks:
  assumes N: "dependable h N"
  shows "x \<in> N \<Longrightarrow> map_ok m \<Longrightarrow> walks h md x m A"
proof (induction "3 * card (N - A) + depRank h x" arbitrary: x m A rule: less_induct)
  case less
  have ok: "depNode_ok h x" "set (depends h x) \<subseteq> N" "finite N" using N less(2) by (auto simp: dependable_def)
  show ?case
  proof (cases "isType h x \<and> x \<in> A")
    case True
    then have "addDependenciesTo md x (withDeps md h m, A) = Some (withDeps md h m, A)"
      using addDependenciesTo_step [of "withDeps md h m" x md A] ok by simp
    then show ?thesis unfolding walks_def using walked_refl [OF less(3)] True covered_type by blast
  next
    case False
    show ?thesis
    proof (rule visit_walks [OF ok(1) less(3) False])
      fix d and m :: "(string, addr) stdmap" and A' assume d: "d \<in> set (depends h x)" "map_ok m" and A': "(if isType h x then insert x A else A) \<subseteq> A'"
      have fin: "finite (N - A)" using ok(3) by simp
      have "3 * card (N - A') + depRank h d < 3 * card (N - A) + depRank h x"
      proof (cases "isType h x")
        case True
        then have "card (N - A') < card (N - A)" using A' False less(2) by (intro psubset_card_mono fin) auto
        moreover have "depRank h d \<le> 2" by (simp add: depRank_def)
        ultimately show ?thesis by simp
      next
        case no: False
        then have "card (N - A') \<le> card (N - A)" using A' by (intro card_mono fin) auto
        with depRank_less [OF ok(1) no d(1)] show ?thesis by simp
      qed
      then show "walks h md d m A'" using less(1) d ok(2) by blast
    qed
  qed
qed

lemma reachable_covered:
  assumes "reaches (depends h) a x" and "covered h md m A a"
    and "\<And>t. t \<in> A \<Longrightarrow> recorded h md m t \<and> (\<forall>d \<in> set (depends h t). covered h md m A d)"
  shows "covered h md m A x \<and> recorded h md m x"
proof -
  have here: "recorded h md m y" "\<And>d. d \<in> set (depends h y) \<Longrightarrow> covered h md m A d" if "covered h md m A y" for y
    using that assms(3) by (auto elim: coveredE)
  have "(x, a) \<in> (edges (depends h))\<^sup>*" using assms(1) by (simp add: reaches_def)
  then have "covered h md m A x"
    by (induction rule: converse_rtrancl_induct) (use assms(2) here(2) in \<open>auto simp: edges_def\<close>)
  with here(1) show ?thesis by blast
qed

text \<open>
  C9. Importing a definition makes the module depend on all that it needs. The walk returns on every
  finite graph of definitions, types that refer to each other included; it visits exactly the types that
  are reachable, and the modules then known by name as dependencies are those known before and the other
  modules that a reachable definition belongs to. Nothing but the dependencies of the module changes.
\<close>

theorem dependencies_complete:
  assumes "dependable h N" and "a \<in> N" and "map_ok (dependencies (cell h md))"
  shows "\<exists>m. addDependenciesTo md a (h, {}) =
      Some (upd md (\<lambda>ob. ob\<lparr>dependencies := m\<rparr>) h, {t. reaches (depends h) a t \<and> isType h t}) \<and>
    dom (map_of m) = dom (map_of (dependencies (cell h md))) \<union>
      {canonicalName (cell h d) | x d. reaches (depends h) a x \<and> \<not> isOverload h x \<and> moduleOf h x = Some (Some d) \<and> d \<noteq> md}"
proof -
  let ?m = "dependencies (cell h md)"
  have "withDeps md h ?m = h" by (simp add: upd_def)
  with addDependenciesTo_walks [OF assms, of md "{}"] obtain m A where
    run: "addDependenciesTo md a (h, {}) = Some (withDeps md h m, A)" "walked h md {y. reaches (depends h) a y} ?m {} m A"
      "covered h md m A a" by (auto simp: walks_def)
  note w = walkedD [OF run(2)]
  have all: "covered h md m A x \<and> recorded h md m x" if "reaches (depends h) a x" for x
    by (rule reachable_covered [OF that run(3)]) (use w(6,7) in auto)
  have "A = {t. reaches (depends h) a t \<and> isType h t}"
  proof
    show "A \<subseteq> {t. reaches (depends h) a t \<and> isType h t}" using w(3) by auto
    show "{t. reaches (depends h) a t \<and> isType h t} \<subseteq> A" using all by (auto elim: coveredE)
  qed
  moreover have "dom (map_of m) = dom (map_of ?m) \<union> moduleNames h md {y. reaches (depends h) a y}"
  proof
    show "dom (map_of m) \<subseteq> dom (map_of ?m) \<union> moduleNames h md {y. reaches (depends h) a y}" by (rule w(5))
    have "moduleNames h md {y. reaches (depends h) a y} \<subseteq> dom (map_of m)"
      using all by (fastforce simp: moduleNames_def recorded_def)
    then show "dom (map_of ?m) \<union> moduleNames h md {y. reaches (depends h) a y} \<subseteq> dom (map_of m)" using w(4) by blast
  qed
  ultimately show ?thesis using run(1) by (intro exI [of _ m]) (simp add: moduleNames_def)
qed

section \<open>Sample\<close>

text \<open>A class \<open>2\<close> of the module \<open>1\<close>, with a variable of its own type.\<close>

definition linkedClass :: store where
  "linkedClass = \<lparr>cell = (\<lambda>_. blankObj)(0 := newModuleDef ''a'' None, 1 := newModuleDef ''b'' None,
     2 := (newTypeDef None ''Node'' True 0)\<lparr>owner := Some 1, defs := [(''next'', 3)]\<rparr>,
     3 := (newVarDef (Some 2) ''next'')\<lparr>owner := Some 2\<rparr>), nextAddr = 4\<rparr>"

lemmas linkedClass_simps = linkedClass_def newModuleDef_def newTypeDef_def newVarDef_def blankObj_def

lemma linkedClass_ok: "dependable linkedClass {2, 3}" "map_ok (dependencies (cell linkedClass 0))"
  "moduleOf linkedClass 2 = Some (Some 1)" "isType linkedClass 2" "canonicalName (cell linkedClass 1) = ''b''"
proof -
  have "getModule linkedClass 1 = Some (Some 1)" "getModule linkedClass 2 = Some (Some 1)"
    by (subst getModule.simps, simp add: linkedClass_simps)+
  then have m: "moduleOf linkedClass 2 = Some (Some 1)" "moduleOf linkedClass 3 = Some (Some 1)"
    by (simp_all add: moduleOf_def) (simp_all add: linkedClass_simps)
  show "moduleOf linkedClass 2 = Some (Some 1)" by (rule m)
  have d: "depends linkedClass 2 = [3]" "depends linkedClass 3 = [2]"
    by (simp_all add: depends_def publicDefs_def linkedClass_simps)
  show "dependable linkedClass {2, 3}"
    unfolding dependable_def depNode_ok_def by (simp add: d m) (simp add: linkedClass_simps)
  show "map_ok (dependencies (cell linkedClass 0))" "isType linkedClass 2" "canonicalName (cell linkedClass 1) = ''b''"
    by (simp_all add: linkedClass_simps map_ok_def)
qed

lemma dependencies_complete_witness:
  "\<exists>m A. addDependenciesTo 0 2 (linkedClass, {}) = Some (upd 0 (\<lambda>ob. ob\<lparr>dependencies := m\<rparr>) linkedClass, A) \<and>
    2 \<in> A \<and> map_of m ''b'' \<noteq> None"
proof -
  from dependencies_complete [OF linkedClass_ok(1) _ linkedClass_ok(2), of 2] obtain m where
    m: "addDependenciesTo 0 2 (linkedClass, {}) =
      Some (upd 0 (\<lambda>ob. ob\<lparr>dependencies := m\<rparr>) linkedClass, {t. reaches (depends linkedClass) 2 t \<and> isType linkedClass t})"
    "dom (map_of m) = dom (map_of (dependencies (cell linkedClass 0))) \<union> {canonicalName (cell linkedClass d) | x d.
      reaches (depends linkedClass) 2 x \<and> \<not> isOverload linkedClass x \<and> moduleOf linkedClass x = Some (Some d) \<and> d \<noteq> 0}"
    by auto
  have "\<not> isOverload linkedClass 2" using linkedClass_ok(4) by simp
  then have "''b'' \<in> dom (map_of m)" unfolding m(2) using linkedClass_ok(3,5)
    by (intro UnI2 CollectI exI [of _ 2] exI [of _ 1]) simp
  with m(1) linkedClass_ok(4) show ?thesis by blast
qed

end
