(* ===== verification/Action_Rules.thy ===== *)
theory Action_Rules
  imports Actions
begin

text \<open>
  Rules to reason about actions. \<open>keeps R m\<close> says that whenever \<open>m\<close> yields, \<open>R\<close> holds between the states
  before and after; for a preorder \<open>R\<close> the property goes through the sequencing of actions, so it is
  shown of a body by its syntax. \<open>yielding P m Q\<close> is a triple of a precondition, an action and a
  postcondition on the value yielded and the state after.
\<close>

section \<open>Relations that an action keeps\<close>

definition keeps :: "('s \<Rightarrow> 's \<Rightarrow> bool) \<Rightarrow> ('e, 's, 'a) action \<Rightarrow> bool" where
  "keeps R m \<longleftrightarrow> (\<forall>s x s'. m s = Some (Inr (x, s')) \<longrightarrow> R s s')"

lemma keepsI: "(\<And>s x s'. m s = Some (Inr (x, s')) \<Longrightarrow> R s s') \<Longrightarrow> keeps R m"
  by (simp add: keeps_def)

lemma keepsD: "keeps R m \<Longrightarrow> m s = Some (Inr (x, s')) \<Longrightarrow> R s s'"
  by (simp add: keeps_def)

text \<open>The same for one result, as the induction on a recursive action needs it.\<close>

definition keptBy :: "('s \<Rightarrow> 's \<Rightarrow> bool) \<Rightarrow> 's \<Rightarrow> 'e + 'a \<times> 's \<Rightarrow> bool" where
  "keptBy R s r \<longleftrightarrow> (\<forall>x s'. r = Inr (x, s') \<longrightarrow> R s s')"

lemma keeps_keptBy: "keeps R m \<longleftrightarrow> (\<forall>s r. m s = Some r \<longrightarrow> keptBy R s r)"
  by (auto simp: keeps_def keptBy_def)

lemma keptByI: "keeps R m \<Longrightarrow> m s = Some r \<Longrightarrow> keptBy R s r"
  by (simp add: keeps_keptBy)

lemma keeps_keptByI: "(\<And>s r. m s = Some r \<Longrightarrow> keptBy R s r) \<Longrightarrow> keeps R m"
  by (simp add: keeps_keptBy)

lemma keeps_weaken: "keeps R m \<Longrightarrow> (\<And>s s'. R s s' \<Longrightarrow> S s s') \<Longrightarrow> keeps S m"
  by (simp add: keeps_def)

lemma andBind_result:
  assumes "andBind m f s = Some (Inr (y, u))"
  obtains x t where "m s = Some (Inr (x, t))" "f x t = Some (Inr (y, u))"
  using assms that by (cases "m s") (auto simp: andBind_def split: sum.splits)

locale kept =
  fixes R :: "'s \<Rightarrow> 's \<Rightarrow> bool"
  assumes kept_refl: "R s s"
    and kept_trans: "R s t \<Longrightarrow> R t u \<Longrightarrow> R s u"
begin

lemma keeps_bind: "keeps R m \<Longrightarrow> (\<And>x. keeps R (f x)) \<Longrightarrow> keeps R (andBind m f)"
  by (rule keepsI) (erule andBind_result, blast dest: keepsD intro: kept_trans)

lemma keeps_basic: "keeps R (yields x)" "keeps R (throw e)" "keeps R (gets g)" "keeps R (returning p)"
  by (auto simp: keeps_def yields_def throw_def gets_def returning_def kept_refl)

lemma keeps_if: "keeps R m \<Longrightarrow> keeps R n \<Longrightarrow> keeps R (if b then m else n)"
  by simp

lemma keeps_option: "keeps R m \<Longrightarrow> (\<And>x. keeps R (f x)) \<Longrightarrow> keeps R (case p of None \<Rightarrow> m | Some x \<Rightarrow> f x)"
  by (cases p) simp_all

lemma keeps_prod: "(\<And>x y. keeps R (f x y)) \<Longrightarrow> keeps R (case q of (x, y) \<Rightarrow> f x y)"
  by (cases q) simp

lemma keeps_sum: "(\<And>x. keeps R (f x)) \<Longrightarrow> (\<And>y. keeps R (g y)) \<Longrightarrow> keeps R (case q of Inl x \<Rightarrow> f x | Inr y \<Rightarrow> g y)"
  by (cases q) simp_all

lemma keeps_list: "keeps R m \<Longrightarrow> (\<And>x xs. keeps R (f x xs)) \<Longrightarrow> keeps R (case q of [] \<Rightarrow> m | x # xs \<Rightarrow> f x xs)"
  by (cases q) simp_all

lemma keeps_unit: "keeps R m \<Longrightarrow> keeps R (case u of () \<Rightarrow> m)"
  by (simp split: unit.split)

lemma keeps_modifies: "(\<And>s. R s (h s)) \<Longrightarrow> keeps R (modifies h)"
  by (simp add: keeps_def modifies_def)

lemma keeps_applied: "(\<And>s. keeps R (m s)) \<Longrightarrow> keeps R (\<lambda>s. m s s)"
  by (simp add: keeps_def)

lemmas keeps_rules = keeps_bind keeps_basic keeps_if keeps_option keeps_prod keeps_sum keeps_list keeps_unit

end

section \<open>Triples\<close>

definition yielding :: "('s \<Rightarrow> bool) \<Rightarrow> ('e, 's, 'a) action \<Rightarrow> ('a \<Rightarrow> 's \<Rightarrow> bool) \<Rightarrow> bool" where
  "yielding P m Q \<longleftrightarrow> (\<forall>s x s'. P s \<longrightarrow> m s = Some (Inr (x, s')) \<longrightarrow> Q x s')"

lemma yieldingI: "(\<And>s x s'. P s \<Longrightarrow> m s = Some (Inr (x, s')) \<Longrightarrow> Q x s') \<Longrightarrow> yielding P m Q"
  by (simp add: yielding_def)

lemma yieldingD: "yielding P m Q \<Longrightarrow> P s \<Longrightarrow> m s = Some (Inr (x, s')) \<Longrightarrow> Q x s'"
  by (simp add: yielding_def)

lemma yielding_bind: "yielding P m M \<Longrightarrow> (\<And>x. yielding (M x) (f x) Q) \<Longrightarrow> yielding P (andBind m f) Q"
  by (rule yieldingI) (erule andBind_result, blast dest: yieldingD)

lemma yielding_consequence: "yielding P m Q \<Longrightarrow> (\<And>x s. Q x s \<Longrightarrow> Q' x s) \<Longrightarrow> yielding P m Q'"
  by (simp add: yielding_def)

lemma yielding_pre: "yielding P m Q \<Longrightarrow> (\<And>s. P' s \<Longrightarrow> P s) \<Longrightarrow> yielding P' m Q"
  by (auto simp: yielding_def)

lemma yielding_yields: "yielding (Q x) (yields x) Q"
  by (simp add: yielding_def yields_def)

lemma yielding_throw: "yielding P (throw e) Q"
  by (simp add: yielding_def throw_def)

lemma yielding_gets: "yielding P (gets g) (\<lambda>x s. x = g s \<and> P s)"
  by (simp add: yielding_def gets_def)

lemma yielding_returning: "yielding P (returning g) (\<lambda>x s. g s = Some x \<and> P s)"
  by (auto simp: yielding_def returning_def)

lemma yielding_modifies: "yielding P (modifies h) (\<lambda>_ s'. \<exists>s. s' = h s \<and> P s)"
  by (auto simp: yielding_def modifies_def)

lemma yielding_if: "(b \<Longrightarrow> yielding P m Q) \<Longrightarrow> (\<not> b \<Longrightarrow> yielding P n Q) \<Longrightarrow> yielding P (if b then m else n) Q"
  by simp

lemma yielding_option:
  "(p = None \<Longrightarrow> yielding P m Q) \<Longrightarrow> (\<And>x. p = Some x \<Longrightarrow> yielding P (f x) Q) \<Longrightarrow>
    yielding P (case p of None \<Rightarrow> m | Some x \<Rightarrow> f x) Q"
  by (cases p) simp_all

lemma yielding_prod: "(\<And>x y. q = (x, y) \<Longrightarrow> yielding P (f x y) Q) \<Longrightarrow> yielding P (case q of (x, y) \<Rightarrow> f x y) Q"
  by (cases q) simp

lemma yielding_ex: "(\<And>y. yielding (P y) m Q) \<Longrightarrow> yielding (\<lambda>s. \<exists>y. P y s) m Q"
  by (auto simp: yielding_def)

lemma yielding_conj: "(b \<Longrightarrow> yielding P m Q) \<Longrightarrow> yielding (\<lambda>s. b \<and> P s) m Q"
  by (auto simp: yielding_def)

text \<open>An action that keeps a relation keeps the assertions that are closed under it.\<close>

lemma yielding_keeps: "keeps R m \<Longrightarrow> (\<And>s t. P s \<Longrightarrow> R s t \<Longrightarrow> P t) \<Longrightarrow> yielding P m (\<lambda>_. P)"
  by (auto simp: keeps_def yielding_def)

lemma keeps_if_yielding: "(\<And>s0. yielding (R s0) m (\<lambda>_. R s0)) \<Longrightarrow> (\<And>s. R s s) \<Longrightarrow> keeps R m"
  by (auto simp: keeps_def yielding_def)

end
