(* ===== verification/Emit_Import.thy ===== *)
theory Emit_Import
  imports Sem_State Dependencies Action_Rules
begin

text \<open>
  Imports (\<open>Context::emitImport\<close>): the module is found, its code is made to run, and the names that are
  imported are checked and bound in a namespace, one after the other. The same is done for a name that is
  imported lazily when it is first looked up (\<open>Context::maybeLazyImport\<close>). Finding a module, which may
  load it, and the operations of the builder are arguments; \<open>'c\<close> also holds the lazy imports of the modules.
\<close>

record 'c importer =
  \<comment> \<open>\<open>Construct::getModule\<close>, with the canonical name\<close>
  findModule :: "string list \<Rightarrow> ('c, addr option \<times> string) sem"
  \<comment> \<open>\<open>ModuleDef::lazyImports\<close>, which can be null\<close>
  lazyImportsOf :: "addr \<Rightarrow> 'c \<Rightarrow> lazyImports option"
  \<comment> \<open>the builder; an exception is its message\<close>
  importSharedLibrary :: "string \<Rightarrow> (string \<times> string) list \<Rightarrow> ctx \<Rightarrow> addr \<Rightarrow> ('c, string option) sem"
  initializeImport :: "addr \<Rightarrow> (string \<times> string) list \<Rightarrow> ('c, unit) sem"
  registerImportedDef :: "ctx \<Rightarrow> addr \<Rightarrow> ('c, unit) sem"

text \<open>A relation on the states that the operations an import is given keep\<close>

definition importerKeeps :: "('c sems \<Rightarrow> 'c sems \<Rightarrow> bool) \<Rightarrow> 'c importer \<Rightarrow> bool" where
  "importerKeeps R im \<longleftrightarrow> (\<forall>p. keeps R (findModule im p)) \<and>
     (\<forall>nm imps c n. keeps R (importSharedLibrary im nm imps c n)) \<and>
     (\<forall>md imps. keeps R (initializeImport im md imps)) \<and> (\<forall>c d. keeps R (registerImportedDef im c d))"

section \<open>Checks\<close>

text \<open>An error is at the location of the symbol when the caller has the locations.\<close>

definition importError :: "token list option \<Rightarrow> nat \<Rightarrow> string \<Rightarrow> perror" where
  "importError symLocs st msg = (case symLocs of
     None \<Rightarrow> ErrorHere msg
   | Some locs \<Rightarrow> if st < length locs then ErrorAt (locs ! st) msg else CheckFailed ''symLocs'')"

text \<open>\<open>isImportableFrom\<close>, dispatched to the override of overloads\<close>

definition defImportableFrom :: "store \<Rightarrow> addr \<Rightarrow> addr \<Rightarrow> string \<Rightarrow> bool option" where
  "defImportableFrom h d md nm =
     (if isOverload h d then Some (overloadImportableFrom h d md nm) else isImportableFrom h d md nm)"

text \<open>Overloads that are partly of the module have a message of their own.\<close>

definition secondOrderError :: "store \<Rightarrow> addr \<Rightarrow> addr \<Rightarrow> string option" where
  "secondOrderError h md d =
     (if isOverload h d then map_option (\<lambda>r. if snd r then ''does not entirely belong to module'' else ''does not belong to module'')
        (getSecondOrderImports h md d [])
      else Some ''does not belong to module'')"

definition checkImport ::
  "addr \<Rightarrow> addr \<Rightarrow> token list option \<Rightarrow> nat \<Rightarrow> string \<times> string \<Rightarrow> ('c, addr) sem" where
  "checkImport n md symLocs st imp = (case imp of (lname, sname) \<Rightarrow>
     if startsWith (CHR ''_'') sname then throw (importError symLocs st ''Can not import private symbol'')
     else
       andBind (gets (\<lambda>s. lookUpHere (sem_store s) n lname)) (\<lambda>hidden.
       if hidden \<noteq> None then throw (importError symLocs st ''hides existing definition'')
       else
         andBind (returning (\<lambda>s. lookUp (sem_store s) sname md)) (\<lambda>found. case found of
           None \<Rightarrow> throw (importError symLocs st ''is not defined in module'')
         | Some d \<Rightarrow>
             andBind (returning (\<lambda>s. defImportableFrom (sem_store s) d md sname)) (\<lambda>ok.
             if ok then yields d
             else andBind (returning (\<lambda>s. secondOrderError (sem_store s) md d)) (\<lambda>msg.
               throw (importError symLocs st msg))))))"

section \<open>Bindings\<close>

definition bindAlias :: "addr \<Rightarrow> string \<Rightarrow> addr \<Rightarrow> ('c, unit) sem" where
  "bindAlias n nm d = onStore (\<lambda>h. map_option (map_sum id (Pair ())) (addAlias n nm d h))"

definition dependOnDef :: "addr \<Rightarrow> addr \<Rightarrow> ('c, unit) sem" where
  "dependOnDef cur d = onStore (\<lambda>h. map_option (\<lambda>r. Inr ((), fst r)) (addDependenciesTo cur d (h, {})))"

definition dependOnModule :: "addr option \<Rightarrow> addr \<Rightarrow> ('c, unit) sem" where
  "dependOnModule cur md = (case cur of
     None \<Rightarrow> throw (NullPointer ''module'')
   | Some m \<Rightarrow> onStore (\<lambda>h. map_option (\<lambda>h'. Inr ((), h')) (addDependency m (Some md) h)))"

fun bindImports ::
  "'c importer \<Rightarrow> ctx \<Rightarrow> addr \<Rightarrow> addr \<Rightarrow> addr option \<Rightarrow> token list option \<Rightarrow> nat \<Rightarrow> (string \<times> string) list \<Rightarrow> ('c, unit) sem" where
  "bindImports im c n md cur symLocs st [] = yields ()"
| "bindImports im c n md cur symLocs st (imp # imports) =
     andBind (checkImport n md symLocs st imp) (\<lambda>d.
     andBind (registerImportedDef im c d) (\<lambda>_.
     andBind (bindAlias n (fst imp) d) (\<lambda>_.
     andBind (case cur of Some m \<Rightarrow> dependOnDef m d | None \<Rightarrow> yields ()) (\<lambda>_.
     bindImports im c n md cur symLocs (Suc st) imports))))"

section \<open>\<open>emitImport\<close>\<close>

text \<open>
  The context \<open>c\<close> that the import is made through is the current one or one of its parents. The module that
  it belongs to keeps the modules it imports; an annotation may be outside of a module.
\<close>

definition pushImported :: "ctx \<Rightarrow> addr \<Rightarrow> ('c, unit) sem" where
  "pushImported c md = (case getModuleContext c of
     Some (f # _) \<Rightarrow> (case ns f of
       Some m \<Rightarrow> modifies (\<lambda>s. if isModule (sem_store s) m
         then s\<lparr>sem_store := upd m (\<lambda>ob. ob\<lparr>importedModules := importedModules ob @ [md]\<rparr>) (sem_store s)\<rparr> else s)
     | None \<Rightarrow> yields ())
   | _ \<Rightarrow> throw (CheckFailed ''getModuleContext''))"

text \<open>An import for annotations is recorded in the parent of the context.\<close>

definition recordCompileTime :: "ctx \<Rightarrow> string list \<Rightarrow> (string \<times> string) list \<Rightarrow> addr \<Rightarrow> ('c, unit) sem" where
  "recordCompileTime c modPath imports md s = (case c of
     _ # p # _ \<Rightarrow> (let i = length (sem_ctx s) - length c + 1 in case ns p of
       None \<Rightarrow> Some (Inl (NullPointer ''ns''))
     | Some n \<Rightarrow> map_option (\<lambda>m. case m of
         None \<Rightarrow> Inl (NullPointer ''module'')
       | Some a \<Rightarrow> Inr ((), s\<lparr>
           sem_ctx := (sem_ctx s)[i := (sem_ctx s ! i)\<lparr>compileNSImports := compileNSImports (sem_ctx s ! i) @ [(modPath, imports)]\<rparr>],
           sem_store := addCompileTimeDependency a md (sem_store s)\<rparr>)) (getModule (sem_store s) n))
   | _ \<Rightarrow> Some (Inl (NullPointer ''parent'')))"

definition emitImport ::
  "'c importer \<Rightarrow> ctx \<Rightarrow> addr \<Rightarrow> string list \<Rightarrow> (string \<times> string) list \<Rightarrow> bool \<Rightarrow> bool \<Rightarrow> bool \<Rightarrow> token list option \<Rightarrow>
    ('c, addr option) sem" where
  "emitImport im c n modPath imports annotation recordImport rawShared symLocs =
     (if rawShared then (case modPath of
        [] \<Rightarrow> throw (CheckFailed ''moduleName'')
      | nm # _ \<Rightarrow> andBind (importSharedLibrary im nm imports c n) (\<lambda>failure. case failure of
          None \<Rightarrow> yields None
        | Some msg \<Rightarrow> throw (ErrorHere msg)))
      else
        andBind (findModule im modPath) (\<lambda>(found, cname). case found of
          None \<Rightarrow> throw (ErrorHere ''unable to find module'')
        | Some md \<Rightarrow>
            andBind (gets (\<lambda>s. finished (cell (sem_store s) md))) (\<lambda>fin.
            if \<not> fin then throw (ErrorHere ''Attempting to import module recursively'')
            else
              andBind (pushImported c md) (\<lambda>_.
              andBind (if annotation then yields () else initializeImport im md imports) (\<lambda>_.
              andBind (returning (\<lambda>s. getModule (sem_store s) n)) (\<lambda>cur.
              andBind (bindImports im c n md cur symLocs 0 imports) (\<lambda>_.
              andBind (if annotation then yields () else dependOnModule cur md) (\<lambda>_.
              andBind (if annotation \<and> recordImport then recordCompileTime c modPath imports md else yields ()) (\<lambda>_.
              yields (Some md))))))))))"

section \<open>Lazy imports\<close>

text \<open>\<open>ModuleDef::getLazyImport\<close>\<close>

definition getLazyImport :: "'c importer \<Rightarrow> addr \<Rightarrow> string \<Rightarrow> ('c, moduleImports) sem" where
  "getLazyImport im m nm = andBind (gets (\<lambda>s. lazyImportsOf im m (sem_rest s))) (\<lambda>lz. case lz of
     None \<Rightarrow> yields noImports
   | Some z \<Rightarrow> (case getImport nm z of
       Inl _ \<Rightarrow> throw (CheckFailed ''lazy import not found under registered name!'')
     | Inr i \<Rightarrow> yields i))"

text \<open>\<open>maybeLazyImport\<close>, for the context \<open>c\<close>: the import is made there, whatever is being parsed.\<close>

definition maybeLazyImport :: "'c importer \<Rightarrow> ctx \<Rightarrow> string \<Rightarrow> ('c, addr option) sem" where
  "maybeLazyImport im c nm = (case c of
     [] \<Rightarrow> throw (NullPointer ''context'')
   | f # _ \<Rightarrow> (case ns f of
       None \<Rightarrow> yields None
     | Some n \<Rightarrow>
         andBind (gets (\<lambda>s. isModule (sem_store s) n)) (\<lambda>isMod.
         if \<not> isMod then yields None
         else andBind (getLazyImport im n nm) (\<lambda>i.
           if mi_imports i = [] then yields None
           else andBind (emitImport im c n (mi_module i) (map (\<lambda>d. (local d, source d)) (mi_imports i))
               False False (rawSharedLib i) None) (\<lambda>_.
             nsLookUp nm n)))))"

text \<open>\<open>getModuleContext()->getToplevel()\<close>, and the import in it\<close>

definition lookUpLazily :: "'c importer \<Rightarrow> string \<Rightarrow> ('c, addr option) sem" where
  "lookUpLazily im nm = andBind (gets sem_ctx) (\<lambda>c. case getModuleContext c of
     None \<Rightarrow> throw (CheckFailed ''getModuleContext'')
   | Some m \<Rightarrow> (case getToplevel m of
       None \<Rightarrow> yields None
     | Some d \<Rightarrow> maybeLazyImport im d nm))"

end
