(* ===== verification/Context_Lookup.thy ===== *)
theory Context_Lookup
  imports Context_Access Emit_Import
begin

text \<open>
  Names looked up and defined through a context (\<open>model/Context.cc\<close>). A name that is not found is
  imported if the module imports it lazily. When a lookup finds an overload of another namespace, an
  overload is made in the namespace searched, with the overloads of its ancestors as parents, so that
  functions can be added to it.
\<close>

section \<open>Operations\<close>

text \<open>\<open>overloadType\<close> is the class of overloads the construct holds.\<close>

definition replicateOverload ::
  "addr option \<Rightarrow> string \<Rightarrow> addr \<Rightarrow> store \<Rightarrow> (nsError + (addr \<times> store)) option" where
  "replicateOverload overloadType varName srcNs h =
     (case alloc ((newOverloadDef varName)\<lparr>deftype := overloadType\<rparr>) h of (overload, h1) \<Rightarrow>
        map_option (\<lambda>h2. andThen (addDef srcNs overload h2) (\<lambda>h3. Inr (overload, h3)))
          (collectAncestors overload srcNs h1))"

text \<open>The end of a lookup: an overload of another namespace is replicated.\<close>

definition ownOverload ::
  "addr option \<Rightarrow> string \<Rightarrow> addr \<Rightarrow> addr \<Rightarrow> store \<Rightarrow> (nsError + (addr \<times> store)) option" where
  "ownOverload overloadType varName srcNs d h =
     (if isOverload h d \<and> owner (cell h d) \<noteq> Some srcNs then replicateOverload overloadType varName srcNs h
      else Some (Inr (d, h)))"

text \<open>\<open>lookUp(varName, srcNs, lazyImport)\<close>\<close>

definition ctxLookUp :: "'c importer \<Rightarrow> addr option \<Rightarrow> bool \<Rightarrow> string \<Rightarrow> addr \<Rightarrow> ('c, addr option) sem" where
  "ctxLookUp im overloadType lazyImport varName srcNs =
     andBind (nsLookUp varName srcNs) (\<lambda>found.
     andBind (if found = None \<and> lazyImport then lookUpLazily im varName else yields found) (\<lambda>def. case def of
       None \<Rightarrow> yields None
     | Some d \<Rightarrow> andBind (onStore (ownOverload overloadType varName srcNs d)) (\<lambda>d. yields (Some d))))"

definition lookUpNoArgs :: "'c importer \<Rightarrow> addr option \<Rightarrow> string \<Rightarrow> bool \<Rightarrow> addr \<Rightarrow> ('c, addr option) sem" where
  "lookUpNoArgs im overloadType nm acceptAlias srcNs =
     andBind (ctxLookUp im overloadType True nm srcNs) (\<lambda>found. case found of
       None \<Rightarrow> yields None
     | Some ovld \<Rightarrow> andBind (gets (\<lambda>s. isOverload (sem_store s) ovld)) (\<lambda>b.
         if b then returning (\<lambda>s. getNoArgMatch (sem_store s) acceptAlias ovld) else yields None))"

text \<open>
  \<open>lookUp(varName, args, srcNs, allowOverrides)\<close>: a class stands for its \<open>oper new\<close>, which must not
  be inherited.
\<close>

partial_function (option) lookUpCall ::
  "'c importer \<Rightarrow> addr option \<Rightarrow> 'e exprOps \<Rightarrow> string \<Rightarrow> bool \<Rightarrow> addr \<Rightarrow> 'e list \<Rightarrow> ('c, addr option \<times> 'e list) sem" where
  "lookUpCall im overloadType ops varName allowOverrides srcNs vals s =
     andBind (ctxLookUp im overloadType True varName srcNs) (\<lambda>found. case found of
       None \<Rightarrow> yields (None, vals)
     | Some var \<Rightarrow>
         andBind (gets (\<lambda>s. isType (sem_store s) var)) (\<lambda>type.
         if type then
           andBind (lookUpCall im overloadType ops ''oper new'' False var vals) (\<lambda>(operNew, vals').
           andBind (gets (\<lambda>s. case operNew of
               Some f \<Rightarrow> if owner (cell (sem_store s) f) \<noteq> Some var then None else Some f | None \<Rightarrow> None)) (\<lambda>f.
           yields (f, vals')))
         else
           andBind (gets (\<lambda>s. isOverload (sem_store s) var)) (\<lambda>ovld.
           if ovld then returning (\<lambda>s. getMatch ops (sem_store s) allowOverrides var vals)
           else yields (None, vals)))) s"

text \<open>\<open>addDef\<close>: functions are added to the overload of their name.\<close>

definition addToOverload ::
  "addr option \<Rightarrow> addr \<Rightarrow> addr \<Rightarrow> addr option \<Rightarrow> store \<Rightarrow> (nsError + (addr \<times> store)) option" where
  "addToOverload overloadType varDef srcNs found h =
     map_option (\<lambda>q. andThen q (\<lambda>(ovld, h'). Inr (ovld, setOwner varDef srcNs (addFunc ovld varDef h'))))
       (if found \<noteq> None \<and> isOverload h (the found) then Some (Inr (the found, h))
        else replicateOverload overloadType (name (cell h varDef)) srcNs h)"

definition ctxAddDef :: "'c importer \<Rightarrow> addr option \<Rightarrow> addr \<Rightarrow> addr \<Rightarrow> ('c, addr) sem" where
  "ctxAddDef im overloadType varDef srcNs =
     andBind (gets (\<lambda>s. isFunc (sem_store s) varDef)) (\<lambda>func.
     if func then
       andBind (gets (\<lambda>s. name (cell (sem_store s) varDef))) (\<lambda>nm.
       andBind (ctxLookUp im overloadType True nm srcNs) (\<lambda>found.
       onStore (addToOverload overloadType varDef srcNs found)))
     else onStore (\<lambda>h. Some (andThen (addDef srcNs varDef h) (\<lambda>h'. Inr (varDef, h')))))"

text \<open>\<open>insureOverloadPath\<close>; \<open>Inl ()\<close> is the failed assertion.\<close>

definition insureOverloadPath :: "addr \<Rightarrow> addr \<Rightarrow> addr \<Rightarrow> store \<Rightarrow> unit + store" where
  "insureOverloadPath this ancestorNs overload h =
     (case lookUpHere h this (name (cell h overload)) of
        Some l \<Rightarrow>
          if \<not> isOverload h l \<or> hasParent h l overload then Inr h
          else if ancestorNs \<notin> set (parents (cell h this)) then Inl ()
          else Inr (addParent l overload True h)
      | None \<Rightarrow> Inr h)"

section \<open>The parents of a new overload\<close>

text \<open>The nearest overloads of a name in the ancestors of a namespace.\<close>

partial_function (option) inherited :: "store \<Rightarrow> string \<Rightarrow> addr \<Rightarrow> addr list option" where
  "inherited h nm n = concatM (\<lambda>p.
     if take 2 nm = ''__'' \<and> isType h n \<and> isType h p then Some []
     else case lookUpHere h p nm of
       None \<Rightarrow> inherited h nm p
     | Some v \<Rightarrow> Some (if isOverload h v then [v] else [])) (parents (cell h n))"

definition nearest :: "store \<Rightarrow> string \<Rightarrow> addr \<Rightarrow> addr list" where
  "nearest h nm n = the (inherited h nm n)"

lemma inherited_returns:
  assumes "parents_ok h"
  shows "inherited h nm n = Some (nearest h nm n)"
  using assms
proof (induction n rule: types.graph_induct)
  case (node n)
  let ?G = "\<lambda>p. if take 2 nm = ''__'' \<and> isType h n \<and> isType h p then []
     else case lookUpHere h p nm of None \<Rightarrow> nearest h nm p | Some v \<Rightarrow> if isOverload h v then [v] else []"
  have "inherited h nm n = Some (concat (map ?G (parents (cell h n))))"
    by (subst inherited.simps, rule concatM_total) (use node in \<open>auto split: option.split\<close>)
  then show ?case by (simp add: nearest_def)
qed

lemma nearest_unfold:
  assumes "parents_ok h"
  shows "nearest h nm n = concat (map (\<lambda>p. if take 2 nm = ''__'' \<and> isType h n \<and> isType h p then []
     else case lookUpHere h p nm of None \<Rightarrow> nearest h nm p | Some v \<Rightarrow> if isOverload h v then [v] else [])
     (parents (cell h n)))"
proof -
  have "inherited h nm n = Some (concat (map (\<lambda>p. if take 2 nm = ''__'' \<and> isType h n \<and> isType h p then []
     else case lookUpHere h p nm of None \<Rightarrow> nearest h nm p | Some v \<Rightarrow> if isOverload h v then [v] else [])
     (parents (cell h n))))"
    by (subst inherited.simps, rule concatM_total) (auto simp: inherited_returns [OF assms] split: option.split)
  then show ?thesis by (simp add: nearest_def)
qed

text \<open>An overload that no object has as a parent or in its table.\<close>

definition detached :: "addr \<Rightarrow> store \<Rightarrow> bool" where
  "detached o1 h \<longleftrightarrow> (\<forall>n. o1 \<notin> set (parents (cell h n)) \<and> o1 \<notin> snd ` set (defs (cell h n)))"

abbreviation withParents :: "addr \<Rightarrow> addr list \<Rightarrow> store \<Rightarrow> store" where
  "withParents o1 ps h \<equiv> upd o1 (\<lambda>ob. ob\<lparr>parents := parents ob @ ps\<rparr>) h"

lemma withParents_append: "withParents o1 qs (withParents o1 ps h) = withParents o1 (ps @ qs) h"
  by (simp add: upd_def)

lemma collectAncestors_nearest:
  assumes "parents_ok h" and "detached o1 h" and "name (cell h o1) = nm" and "n \<noteq> o1"
  shows "collectAncestors o1 n (withParents o1 qs h) = Some (withParents o1 (qs @ nearest h nm n) h)"
  using assms(1,4)
proof (induction n arbitrary: qs rule: types.graph_induct)
  case (node n)
  let ?h = "\<lambda>qs. withParents o1 qs h"
  let ?G = "\<lambda>p. if take 2 nm = ''__'' \<and> isType h n \<and> isType h p then []
     else case lookUpHere h p nm of None \<Rightarrow> nearest h nm p | Some v \<Rightarrow> if isOverload h v then [v] else []"
  let ?step = "\<lambda>parent g. if take 2 (name (cell g o1)) = ''__'' \<and> isType g n \<and> isType g parent then Some g
         else case lookUpHere g parent (name (cell g o1)) of
           None \<Rightarrow> collectAncestors o1 parent g
         | Some var \<Rightarrow> Some (if isOverload g var then addParent o1 var False g else g)"
  have cells: "kind (cell (?h qs) a) = kind (cell h a)" "name (cell (?h qs) a) = name (cell h a)"
    "defs (cell (?h qs) a) = defs (cell h a)" for qs a by (simp_all add: state_simps)
  have add: "addParent o1 v False (?h qs) = ?h (qs @ [v])" for v qs
    by (simp add: addParent_def upd_def)
  have "iterM ?step ps (?h qs) = Some (?h (qs @ concat (map ?G ps)))" if "set ps \<subseteq> set (parentGraph h n)" for ps qs
    using that
  proof (induction ps arbitrary: qs)
    case (Cons p ps)
    have "p \<noteq> o1" using Cons.prems assms(2) by (auto simp: detached_def parentGraph_def)
    have "?step p (?h qs) = Some (?h (qs @ ?G p))"
      using node(1) [of p qs] Cons.prems \<open>p \<noteq> o1\<close> assms(3)
      by (auto simp: cells lookUpHere_def add split: option.split)
    moreover have "iterM ?step ps (?h (qs @ ?G p)) = Some (?h ((qs @ ?G p) @ concat (map ?G ps)))"
      by (rule Cons.IH) (use Cons.prems in simp)
    ultimately show ?case by (simp only: iterM.simps Option.bind.simps list.map concat.simps append_assoc)
  qed simp
  from this [of "parents (cell h n)" qs] show ?case
    by (subst collectAncestors.simps) (simp add: state_simps nearest_unfold [OF assms(1), of nm n] node(2))
qed

section \<open>What replication keeps\<close>

lemma nearest_cong:
  assumes "parents_ok h" and "parentGraph h' = parentGraph h" and "detached o1 h"
    and "\<And>a. a \<noteq> o1 \<Longrightarrow> cell h' a = cell h a" and "n \<noteq> o1"
  shows "nearest h' nm n = nearest h nm n"
  using assms(1,5)
proof (induction n rule: types.graph_induct)
  case (node n)
  have ok': "parents_ok h'" using assms(1,2) by (simp add: parents_ok_def)
  have "p \<noteq> o1" if "p \<in> set (parents (cell h n))" for p using that assms(3) by (auto simp: detached_def)
  moreover have "v \<noteq> o1" if "lookUpHere h p nm = Some v" for p v
    using that assms(3) by (force simp: detached_def lookUpHere_def dest!: map_of_SomeD)
  ultimately have same: "map (\<lambda>p. if take 2 nm = ''__'' \<and> isType h' n \<and> isType h' p then []
       else case lookUpHere h' p nm of None \<Rightarrow> nearest h' nm p | Some v \<Rightarrow> if isOverload h' v then [v] else []) (parents (cell h n)) =
     map (\<lambda>p. if take 2 nm = ''__'' \<and> isType h n \<and> isType h p then []
       else case lookUpHere h p nm of None \<Rightarrow> nearest h nm p | Some v \<Rightarrow> if isOverload h v then [v] else []) (parents (cell h n))"
    using node assms(4) by (auto simp: lookUpHere_def split: option.split)
  have par: "parents (cell h' n) = parents (cell h n)" using assms(4) [OF node(2)] by simp
  show ?case
    unfolding nearest_unfold [OF assms(1), of nm n] nearest_unfold [OF ok', of nm n] par same by (rule HOL.refl)
qed

lemma nearest_none:
  assumes "parents_ok h" and "lookUp h nm n = Some None"
  shows "nearest h nm n = []"
  using assms
proof (induction n rule: types.graph_induct)
  case (node n)
  have none: "lookUp h nm p = Some None" if "p \<in> set (parents (cell h n))" for p
  proof -
    have "\<forall>b. reaches (parentGraph h) p b \<longrightarrow> lookUpHere h b nm = None"
      using node(2) reaches_step [of p "parentGraph h" n] that
      by (auto simp: lookUp_first [OF assms(1)] types.set_visited [OF assms(1)] find_None_iff
        split: option.splits dest!: find_SomeD)
    then show ?thesis
      by (auto simp: lookUp_first [OF assms(1)] types.set_visited [OF assms(1)] find_None_iff
        split: option.splits dest!: find_SomeD)
  qed
  have "lookUpHere h p nm = None" if "p \<in> set (parents (cell h n))" for p
    using none [OF that] by (subst (asm) lookUp.simps) (auto split: option.splits)
  with none node(1) show ?case by (subst nearest_unfold [OF assms(1)]) (auto split: if_splits)
qed

lemma nearest_first:
  assumes "parents_ok h" and "lookUp h nm n = Some (Some d)" and "lookUpHere h n nm = None"
    and "isOverload h d" and "take 2 nm \<noteq> ''__''"
  shows "\<exists>rest. nearest h nm n = d # rest"
  using assms(1-3)
proof (induction n rule: types.graph_induct)
  case (node n)
  let ?G = "\<lambda>p. case lookUpHere h p nm of None \<Rightarrow> nearest h nm p | Some v \<Rightarrow> if isOverload h v then [v] else []"
  have near: "nearest h nm n = concat (map ?G (parents (cell h n)))"
    by (subst nearest_unfold [OF assms(1)]) (simp add: assms(5))
  have "firstM (lookUp h nm) (parents (cell h n)) = Some (Some d)"
    using node(2,3) by (subst (asm) lookUp.simps) simp
  then have "\<exists>rest. concat (map ?G ps) = d # rest"
    if "set ps \<subseteq> set (parents (cell h n))" "firstM (lookUp h nm) ps = Some (Some d)" for ps using that
  proof (induction ps)
    case (Cons p ps)
    show ?case
    proof (cases "lookUp h nm p")
      case (Some r)
      show ?thesis
      proof (cases r)
        case None
        with Some have no: "lookUp h nm p = Some None" by simp
        then have "lookUpHere h p nm = None" by (subst (asm) lookUp.simps) (auto split: option.splits)
        with Cons no nearest_none [OF assms(1) no] show ?thesis by simp
      next
        case (Some e)
        with Cons.prems \<open>lookUp h nm p = Some r\<close> have e: "lookUp h nm p = Some (Some d)" by simp
        show ?thesis
        proof (cases "lookUpHere h p nm")
          case None
          have "p \<in> set (parents (cell h n))" using Cons.prems by simp
          with node(1) [of p] e None obtain rest where "nearest h nm p = d # rest" by auto
          with None show ?thesis by simp
        next
          case (Some v)
          with e have "v = d" by (subst (asm) lookUp.simps) simp
          with Some assms(4) show ?thesis by simp
        qed
      qed
    qed (use Cons in simp)
  qed simp
  from this [of "parents (cell h n)"] \<open>firstM (lookUp h nm) (parents (cell h n)) = Some (Some d)\<close>
  show ?case unfolding near by simp
qed

text \<open>The store of a new overload without parents, and with the nearest overloads as parents.\<close>

definition allocated :: "store \<Rightarrow> bool" where
  "allocated h \<longleftrightarrow> (\<forall>n. \<forall>p \<in> set (parents (cell h n)). p < nextAddr h)"

lemma fresh_detached:
  assumes "tables_ok h" and "allocated h"
  shows "detached (nextAddr h) h"
  unfolding detached_def
proof (intro allI conjI)
  fix n
  show "nextAddr h \<notin> set (parents (cell h n))" using assms(2) by (auto simp: allocated_def)
  show "nextAddr h \<notin> snd ` set (defs (cell h n))"
    using tables_okD(3) [OF assms(1), of _ n] by (force simp: entry_ok_def)
qed

lemma replicateOverload_store:
  assumes "tables_ok h" and "allocated h" and "parents_ok h" and "n < nextAddr h"
  obtains h' where "replicateOverload ot nm n h = Some (Inr (nextAddr h, h'))"
    "tables_ok h'" "keeps_defs h h'" "allocated h'" "parents_ok h'"
    "parentGraph h' = (parentGraph h)(nextAddr h := nearest h nm n)"
    "\<And>a. a \<noteq> nextAddr h \<Longrightarrow> funcs (cell h' a) = funcs (cell h a) \<and> args (cell h' a) = args (cell h a) \<and>
       flags (cell h' a) = flags (cell h a) \<and> owner (cell h' a) = owner (cell h a)"
    "funcs (cell h' (nextAddr h)) = []" "isOverload h' (nextAddr h)" "owner (cell h' (nextAddr h)) = Some n"
    "lookUpHere h' n nm = Some (nextAddr h)"
proof -
  let ?o = "nextAddr h" and ?ob = "(newOverloadDef nm)\<lparr>deftype := ot\<rparr>"
  let ?h1 = "snd (alloc ?ob h)"
  have cells: "cell ?h1 a = (if a = ?o then ?ob else cell h a)" for a by (simp add: alloc_def)
  have blank: "cell h ?o = blankObj" by (rule tables_okD(1) [OF assms(1)]) simp
  have ob: "parents ?ob = []" "name ?ob = nm" "kind ?ob = OverloadObj" "owner ?ob = None" "defs ?ob = []" "funcs ?ob = []"
    by (simp_all add: newOverloadDef_def blankObj_def)
  have next1: "nextAddr ?h1 = Suc ?o" by (simp add: alloc_def)
  have graph1: "parentGraph ?h1 = parentGraph h"
    using blank ob(1) by (intro ext) (simp add: parentGraph_def cells blankObj_def)
  have ok1: "parents_ok ?h1" using assms(3) graph1 by (simp add: parents_ok_def)
  note det = fresh_detached [OF assms(1,2)]
  have det1: "detached ?o ?h1" using det ob(1,5) by (auto simp: detached_def cells)
  have near: "nearest ?h1 nm n = nearest h nm n"
    by (rule nearest_cong [OF assms(3) graph1 det]) (use assms(4) cells in simp_all)
  let ?h2 = "withParents ?o (nearest h nm n) ?h1"
  have "withParents ?o [] ?h1 = ?h1" by (simp add: upd_def)
  with collectAncestors_nearest [OF ok1 det1 _, of nm n "[]"] near assms(4) cells ob(2)
  have coll: "collectAncestors ?o n ?h1 = Some ?h2" by simp
  have keeps2: "keeps_defs h ?h2"
    unfolding keeps_defs_def by (auto simp: state_simps next1 cells)
  have "funcs (cell ?h2 a) = (if a = ?o then [] else funcs (cell h a))"
    "defs (cell ?h2 a) = (if a = ?o then [] else defs (cell h a))" for a
    using ob by (simp_all add: state_simps cells)
  then have tables2: "tables_ok ?h2"
    by (intro tables_ok_changed [OF assms(1) keeps2])
      (use blank tables_okD(4) [OF assms(1)] next1 in \<open>auto simp: state_simps blankObj_def less_Suc_eq split: if_splits\<close>)
  have isov: "isOverload ?h2 ?o" "owner (cell ?h2 ?o) = None" "name (cell ?h2 ?o) = nm"
    using ob by (simp_all add: state_simps cells)
  then obtain h3 where h3: "addDef n ?o ?h2 = Inr h3" by (auto simp: addDef_def storeDef_def)
  note keeps3 = addDef_keeps [OF tables2 h3]
  have lt: "?o < nextAddr ?h2" "n < nextAddr ?h2" using next1 assms(4) by (simp_all add: state_simps)
  have eqs: "parents (cell h3 a) = parents (cell ?h2 a)" "funcs (cell h3 a) = funcs (cell ?h2 a)"
    "args (cell h3 a) = args (cell ?h2 a)" "flags (cell h3 a) = flags (cell ?h2 a)" "kind (cell h3 a) = kind (cell ?h2 a)"
    "owner (cell h3 a) = (if a = ?o then Some n else owner (cell ?h2 a))" "nextAddr h3 = nextAddr ?h2"
    "defs (cell h3 n) = mapSet nm ?o (defs (cell ?h2 n))" for a
    using h3 isov assms(4)
    by (auto simp: addDef_def storeDef_def setOwner_def state_simps split: if_splits)
  have graph3: "parentGraph h3 = (parentGraph h)(?o := nearest h nm n)"
    by (intro ext) (simp add: parentGraph_def eqs state_simps cells ob)
  have small: "p < ?o" if "p \<in> set (nearest h nm n)" for p
  proof -
    have "\<forall>p \<in> set (nearest h nm m). p < ?o" for m
      using assms(3)
    proof (induction m rule: types.graph_induct)
      case (node m)
      have "v < ?o" if "lookUpHere h p nm = Some v" for v p
        using tables_okD(3) [OF assms(1), of "(nm, v)" p] that
        by (auto simp: lookUpHere_def entry_ok_def dest!: map_of_SomeD)
      with node show ?case
        by (subst nearest_unfold [OF assms(3)]) (auto split: option.splits if_splits)
    qed
    with that show ?thesis by simp
  qed
  show thesis
  proof (rule that [of h3])
    show "replicateOverload ot nm n h = Some (Inr (?o, h3))"
      using coll h3 by (simp add: replicateOverload_def alloc_def)
    show "tables_ok h3" by (rule keeps3(1) [OF lt])
    show "keeps_defs h h3" by (rule keeps_defs_trans [OF keeps2 keeps3(2) [OF lt]])
    show "allocated h3" using assms(2) small ob(1) next1
      by (auto simp: allocated_def eqs state_simps cells less_Suc_eq)
    show "parents_ok h3" unfolding parents_ok_def graph3
      by (rule wf_new_parents) (use assms(3) det small in \<open>auto simp: parents_ok_def detached_def\<close>)
    show "parentGraph h3 = (parentGraph h)(?o := nearest h nm n)" by (rule graph3)
    show "funcs (cell h3 a) = funcs (cell h a) \<and> args (cell h3 a) = args (cell h a) \<and>
       flags (cell h3 a) = flags (cell h a) \<and> owner (cell h3 a) = owner (cell h a)" if "a \<noteq> ?o" for a
      using that by (simp add: eqs state_simps cells)
    show "funcs (cell h3 ?o) = []" "isOverload h3 ?o" "owner (cell h3 ?o) = Some n"
      using ob by (simp_all add: eqs state_simps cells)
    have "map_ok (defs (cell ?h2 n))" by (rule tables_okD(2) [OF tables2])
    then show "lookUpHere h3 n nm = Some ?o" by (simp add: lookUpHere_def eqs map_simps)
  qed
qed

text \<open>The functions of an overload and its ancestors, in the order of the search.\<close>

definition allFuncs :: "store \<Rightarrow> addr \<Rightarrow> addr list" where
  "allFuncs h v = concat (map (funcsOf h) (visited (parentGraph h) v))"

lemma flatten_allFuncs: "parents_ok h \<Longrightarrow> flatten h v = Some (allFuncs h v)"
  unfolding allFuncs_def by (rule types.collect_visited, assumption, unfold parentGraph_def, rule flatten.simps)

text \<open>An overload that is allocated without functions of its own, above others.\<close>

lemma flatten_joined:
  assumes "parents_ok h" and "parents_ok h'" and "allocated h"
    and "parentGraph h' = (parentGraph h)(nextAddr h := ps)"
    and "\<And>a. a \<noteq> nextAddr h \<Longrightarrow> funcs (cell h' a) = funcs (cell h a)" and "funcs (cell h' (nextAddr h)) = []"
  shows "flatten h' (nextAddr h) = Some (concat (map (allFuncs h) ps))"
proof -
  let ?o = "nextAddr h"
  have det: "?o \<notin> set (parents (cell h a))" for a using assms(3) by (auto simp: allocated_def)
  have reach: "b \<noteq> ?o" if "reaches (parentGraph h) v b" "v \<noteq> ?o" for v b
    using that det reaches_last [of "parentGraph h" v b] by auto
  have "?o \<notin> set ps"
    using types.no_self_parent [OF assms(2), of ?o ?o] assms(4) by auto
  then have new: "v \<noteq> ?o" if "v \<in> set ps" for v using that by auto
  have vis: "visited (parentGraph h') v = visited (parentGraph h) v" if "v \<noteq> ?o" for v
    by (rule types.visited_cong [OF assms(1,2)]) (use reach that assms(4) in simp)
  have same: "map (funcsOf h') (visited (parentGraph h) v) = map (funcsOf h) (visited (parentGraph h) v)" if "v \<noteq> ?o" for v
    using assms(5) reach [OF _ that] by (simp add: types.set_visited [OF assms(1)])
  have "flatten h' v = Some (allFuncs h v)" if "v \<noteq> ?o" for v
    by (simp only: flatten_allFuncs [OF assms(2)] allFuncs_def vis [OF that] same [OF that])
  then have "concatM (flatten h') ps = Some (concat (map (allFuncs h) ps))"
    by (intro concatM_total) (use new in simp)
  moreover have "parents (cell h' ?o) = ps" using assms(4) by (metis fun_upd_same parentGraph_def)
  ultimately show ?thesis by (subst flatten.simps) (simp add: assms(6))
qed

lemma find_sigTest:
  assumes "\<And>f. f \<in> set fs \<Longrightarrow> args (cell h' f) = args (cell h f)"
  shows "List.find (sigTest h' sig names) fs = List.find (sigTest h sig names) fs"
  using assms by (induction fs) (auto simp: sigTest_def)


text \<open>A sample: the module 0 defines the overload 3 with the function 2; 1 is a namespace inside it.\<close>

definition sampleTables :: store where
  "sampleTables = \<lparr>cell = (\<lambda>a.
     if a = 0 then (newModuleDef ''m'' None)\<lparr>defs := [(''f'', 3)]\<rparr>
     else if a = 1 then blankObj\<lparr>kind := LocalNS, parents := [0]\<rparr>
     else if a = 2 then (newFuncDef 0 ''f'' [])\<lparr>owner := Some 0\<rparr>
     else if a = 3 then (newOverloadDef ''f'')\<lparr>owner := Some 0, funcs := [2]\<rparr>
     else blankObj), nextAddr = 4\<rparr>"

lemmas sampleTables_simps = sampleTables_def newModuleDef_def newFuncDef_def newOverloadDef_def blankObj_def

lemma sampleTables_ok: "tables_ok sampleTables" "allocated sampleTables" "parents_ok sampleTables"
proof -
  show "tables_ok sampleTables" by (auto simp: tables_ok_def entry_ok_def sampleTables_simps map_ok_def)
  show "allocated sampleTables" by (simp add: allocated_def sampleTables_simps)
  show "parents_ok sampleTables" unfolding parents_ok_def
    by (rule wf_by_rank [where r = id]) (auto simp: sampleTables_simps parentGraph_def split: if_splits)
qed

definition noImporter :: "'c importer" where
  "noImporter = \<lparr>findModule = (\<lambda>_. yields (None, [])), lazyImportsOf = (\<lambda>_ _. None),
     importSharedLibrary = (\<lambda>_ _ _ _. yields None), initializeImport = (\<lambda>_ _. yields ()),
     registerImportedDef = (\<lambda>_ _. yields ())\<rparr>"

definition sampleSems :: "unit sems" where
  "sampleSems = \<lparr>sem_ctx = [], sem_store = sampleTables, sem_rest = ()\<rparr>"


end
