(* ===== verification/Table_Invariant.thy ===== *)
theory Table_Invariant
  imports Context_Lookup Action_Rules
begin

text \<open>
  The invariant of the symbol tables over every sequence of operations: allocation of objects,
  definitions, aliases, removals, lookups and definitions through contexts, imports, lazy ones included,
  and changes of members the invariant does not read, in any order.
\<close>

section \<open>The operations as steps\<close>

text \<open>
  The operations on the store. What is aliased under another name is not a bare function, which no table
  holds; \<open>addUnsafeAlias\<close> is used for types here. The construct uses it for overloads of the built-in
  module too, whose aliases then belong to that module.
\<close>

inductive tableStep :: "store \<Rightarrow> store \<Rightarrow> bool" where
  allocate: "defs ob = [] \<Longrightarrow> funcs ob = [] \<Longrightarrow> owner ob = None \<Longrightarrow> tableStep h (snd (alloc ob h))"
| change: "a < nextAddr h \<Longrightarrow> (\<And>ob. kind (f ob) = kind ob \<and> owner (f ob) = owner ob \<and> name (f ob) = name ob \<and>
    defs (f ob) = defs ob \<and> funcs (f ob) = funcs ob) \<Longrightarrow> tableStep h (upd a f h)"
| define_in: "n < nextAddr h \<Longrightarrow> d < nextAddr h \<Longrightarrow> addDef n d h = Inr h' \<Longrightarrow> tableStep h h'"
| remove_from: "n < nextAddr h \<Longrightarrow> removeDef n d h = Inr h' \<Longrightarrow> tableStep h h'"
| alias_in: "n < nextAddr h \<Longrightarrow> d < nextAddr h \<Longrightarrow> addAlias1 n d h = Some (Inr h') \<Longrightarrow> tableStep h h'"
| alias_as: "n < nextAddr h \<Longrightarrow> d < nextAddr h \<Longrightarrow> \<not> isFunc h d \<Longrightarrow> addAlias n nm d h = Some (Inr h') \<Longrightarrow> tableStep h h'"
| alias_unsafe: "n < nextAddr h \<Longrightarrow> d < nextAddr h \<Longrightarrow> \<not> isFunc h d \<Longrightarrow> \<not> isOverload h d \<Longrightarrow>
    addUnsafeAlias n nm d h = Inr h' \<Longrightarrow> tableStep h h'"
| alias_all: "n < nextAddr h \<Longrightarrow> aliasAll n other h = Some (Inr h') \<Longrightarrow> tableStep h h'"
| own_overload: "n < nextAddr h \<Longrightarrow> ownOverload ot nm n d h = Some (Inr (r, h')) \<Longrightarrow> tableStep h h'"
| add_func: "n < nextAddr h \<Longrightarrow> isFunc h d \<Longrightarrow> addToOverload ot d n found h = Some (Inr (r, h')) \<Longrightarrow> tableStep h h'"

definition emptyStore :: store where
  "emptyStore = \<lparr>cell = (\<lambda>_. blankObj), nextAddr = 0\<rparr>"

section \<open>Every step keeps the invariant\<close>

lemma iterM_relates:
  assumes "\<And>g. R g g" and "\<And>g g' g''. R g g' \<Longrightarrow> R g' g'' \<Longrightarrow> R g g''" and "\<And>x g g'. f x g = Some g' \<Longrightarrow> R g g'"
    and "iterM f xs g = Some g'"
  shows "R g g'"
  using assms(4) by (induction xs arbitrary: g) (auto intro: assms(1,2,3) simp: bind_eq_Some_conv simp del: not_None_eq)

lemma collectAncestors_parents:
  assumes "collectAncestors o1 n h = Some h'"
  shows "\<exists>qs. h' = withParents o1 qs h"
proof (rule collectAncestors.raw_induct [where P = "\<lambda>this n h h'. \<exists>qs. h' = withParents this qs h", OF _ assms])
  fix rec :: "addr \<Rightarrow> addr \<Rightarrow> store \<Rightarrow> store option" and this n h h'
  let ?step = "\<lambda>parent h. if take 2 (name (cell h this)) = ''__'' \<and> isType h n \<and> isType h parent then Some h
         else case lookUpHere h parent (name (cell h this)) of
           None \<Rightarrow> rec this parent h
         | Some var \<Rightarrow> Some (if isOverload h var then addParent this var False h else h)"
  assume rec: "\<And>this n h h'. rec this n h = Some h' \<Longrightarrow> \<exists>qs. h' = withParents this qs h"
    and step: "iterM ?step (parents (cell h n)) h = Some h'"
  have same: "withParents this [] g = g" for g by (simp add: upd_def)
  have one: "\<exists>qs. g' = withParents this qs g" if one: "?step p g = Some g'" for p g g'
  proof -
    consider "g' = g" | "rec this p g = Some g'" | v where "g' = addParent this v False g"
    proof (cases "take 2 (name (cell g this)) = ''__'' \<and> isType g n \<and> isType g p")
      case True
      then have "?step p g = Some g" by (rule if_P)
      with one have "g' = g" by (simp only: option.inject)
      then show thesis by (rule that(1))
    next
      case False
      note one = trans [OF if_not_P [OF False, symmetric] one]
      show thesis
      proof (cases "lookUpHere g p (name (cell g this))")
        case None
        with one have "rec this p g = Some g'" by (simp only: option.case)
        then show thesis by (rule that(2))
      next
        case (Some v)
        show thesis
        proof (cases "isOverload g v")
          case True
          with Some one have "g' = addParent this v False g" by (simp only: option.case if_True option.inject simp_thms)
          then show thesis by (rule that(3))
        next
          case False
          with Some one have "g' = g" by (simp only: option.case if_False option.inject)
          then show thesis by (rule that(1))
        qed
      qed
    qed
    then show ?thesis
    proof cases
      case 1
      with same [of g] show ?thesis by (intro exI [of _ "[]"]) simp
    next
      case 2
      then show ?thesis by (rule rec)
    next
      case (3 v)
      then show ?thesis by (intro exI [of _ "[v]"]) (simp add: addParent_def)
    qed
  qed
  show "\<exists>qs. h' = withParents this qs h"
  proof (rule iterM_relates [OF _ _ _ step, where R = "\<lambda>g g'. \<exists>qs. g' = withParents this qs g"])
    show "\<exists>qs. g = withParents this qs g" for g using same [of g] by (intro exI [of _ "[]"]) simp
    show "\<exists>qs. g'' = withParents this qs g"
      if "\<exists>qs. g' = withParents this qs g" "\<exists>qs. g'' = withParents this qs g'" for g g' g''
    proof -
      from that obtain ps qs where "g' = withParents this ps g" "g'' = withParents this qs g'" by (elim exE)
      then have "g'' = withParents this (ps @ qs) g" by (simp only: withParents_append)
      then show ?thesis by (rule exI)
    qed
    show "\<exists>qs. g' = withParents this qs g" if "?step p g = Some g'" for p g g' using that by (rule one)
  qed
qed

lemma alloc_keeps:
  assumes "tables_ok h" and "defs ob = []" and "\<And>f. f \<in> set (funcs ob) \<Longrightarrow> f < nextAddr h"
  shows "tables_ok (snd (alloc ob h))" "keeps_defs h (snd (alloc ob h))"
proof -
  have cells: "cell (snd (alloc ob h)) a = (if a = nextAddr h then ob else cell h a)"
    "nextAddr (snd (alloc ob h)) = Suc (nextAddr h)" for a by (simp_all add: alloc_def)
  have blank: "cell h (nextAddr h) = blankObj" by (rule tables_okD(1) [OF assms(1)]) simp
  show keeps: "keeps_defs h (snd (alloc ob h))" by (auto simp: keeps_defs_def cells)
  show "tables_ok (snd (alloc ob h))"
    by (rule tables_ok_changed [OF assms(1) keeps])
      (use assms(2,3) blank tables_okD(4) [OF assms(1)] in \<open>auto simp: cells blankObj_def less_Suc_eq split: if_splits\<close>)
qed

lemma upd_keeps:
  assumes "tables_ok h" and "a < nextAddr h"
    and "\<And>ob. kind (f ob) = kind ob \<and> owner (f ob) = owner ob \<and> name (f ob) = name ob \<and> defs (f ob) = defs ob"
    and "\<And>g. g \<in> set (funcs (f (cell h a))) \<Longrightarrow> g < nextAddr h"
  shows "tables_ok (upd a f h)" "keeps_defs h (upd a f h)"
proof -
  show keeps: "keeps_defs h (upd a f h)" using assms(2,3) by (auto simp: keeps_defs_def state_simps)
  show "tables_ok (upd a f h)"
    by (rule tables_ok_changed [OF assms(1) keeps])
      (use assms(3,4) tables_okD(4) [OF assms(1)] in \<open>auto simp: state_simps split: if_splits\<close>)
qed

lemma replicate_keeps:
  assumes "tables_ok h" and "n < nextAddr h" and "replicateOverload ot nm n h = Some (Inr (a, h'))"
  shows "tables_ok h'" "keeps_defs h h'" "a < nextAddr h'"
proof -
  let ?h1 = "snd (alloc ((newOverloadDef nm)\<lparr>deftype := ot\<rparr>) h)"
  from assms(3) obtain h2 where h2: "collectAncestors (nextAddr h) n ?h1 = Some h2"
    "addDef n (nextAddr h) h2 = Inr h'" "a = nextAddr h"
    by (auto simp: replicateOverload_def alloc_def andThen_eq_Inr)
  have next1: "nextAddr ?h1 = Suc (nextAddr h)" by (simp add: alloc_def)
  have k1: "tables_ok ?h1" "keeps_defs h ?h1"
    by (rule alloc_keeps [OF assms(1)]; simp add: newOverloadDef_def blankObj_def)+
  obtain qs where qs: "h2 = withParents (nextAddr h) qs ?h1" using collectAncestors_parents [OF h2(1)] by blast
  have k2: "tables_ok h2" "keeps_defs ?h1 h2"
    unfolding qs using upd_keeps [OF k1(1), of "nextAddr h" "\<lambda>ob. ob\<lparr>parents := parents ob @ qs\<rparr>"] next1
      tables_okD(4) [OF k1(1)] by simp_all
  have lt: "nextAddr h < nextAddr h2" "n < nextAddr h2" using next1 assms(2) by (simp_all add: qs state_simps)
  note k3 = addDef_keeps [OF k2(1) h2(2) lt]
  show "tables_ok h'" by (rule k3(1))
  show "keeps_defs h h'" by (rule keeps_defs_trans [OF keeps_defs_trans [OF k1(2) k2(2)] k3(2)])
  show "a < nextAddr h'" using k3(2) lt(1) h2(3) by (simp add: keeps_defs_def)
qed

lemma ownOverload_keeps:
  assumes "tables_ok h" and "n < nextAddr h" and "ownOverload ot nm n d h = Some (Inr (r, h'))"
  shows "tables_ok h'" "keeps_defs h h'"
  using assms replicate_keeps [OF assms(1,2), of ot nm r h'] by (auto simp: ownOverload_def split: if_splits)

text \<open>A function is added to an overload and owned.\<close>

lemma own_function_keeps:
  assumes "tables_ok h" and "isFunc h f"
  shows "tables_ok (setOwner f n h)"
proof -
  have "entry_ok (setOwner f n h) m e" if "entry_ok h m e" for m e
    using that assms(2) by (auto simp: entry_ok_def state_simps)
  moreover have "f < nextAddr h"
  proof (rule ccontr)
    assume "\<not> f < nextAddr h"
    then have "cell h f = blankObj" using tables_okD(1) [OF assms(1)] by simp
    then show False using assms(2) by (simp add: blankObj_def)
  qed
  ultimately show ?thesis using assms(1) unfolding tables_ok_def
    by (auto simp: state_simps) (simp add: setOwner_def cell_upd)
qed

text \<open>A definition through a context: the function joins its overload, which is replicated on demand.\<close>

lemma addFunc_tables:
  assumes "tables_ok h" and "o1 < nextAddr h" and "f < nextAddr h"
  shows "tables_ok (addFunc o1 f h)" "keeps_defs h (addFunc o1 f h)"
proof -
  have *: "addFunc o1 f h = upd o1 (\<lambda>ob. ob\<lparr>deftype := (if funcs ob = [] then deftype (cell h f) else deftype ob),
      hasImpl := (if funcs ob = [] then hasImpl (cell h f) else hasImpl ob), funcs := funcs ob @ [f]\<rparr>) h"
    by (rule addFunc_def)
  show "tables_ok (addFunc o1 f h)" "keeps_defs h (addFunc o1 f h)"
    unfolding * by (rule upd_keeps [OF assms(1,2)]; use assms(3) tables_okD(4) [OF assms(1)] in auto)+
qed

lemma join_keeps:
  assumes "tables_ok h" and "o1 < nextAddr h" and "isFunc h f"
  shows "tables_ok (setOwner f n (addFunc o1 f h))"
proof (rule own_function_keeps)
  have lt: "f < nextAddr h"
  proof (rule ccontr)
    assume "\<not> f < nextAddr h"
    then have "cell h f = blankObj" using tables_okD(1) [OF assms(1)] by simp
    then show False using assms(3) by (simp add: blankObj_def)
  qed
  note k = addFunc_tables [OF assms(1,2) lt]
  show "tables_ok (addFunc o1 f h)" by (rule k(1))
  show "isFunc (addFunc o1 f h) f" using k(2) lt assms(3) by (simp add: keeps_defs_def)
qed

lemma isFunc_allocated: "tables_ok h \<Longrightarrow> isFunc h f \<Longrightarrow> f < nextAddr h"
  using tables_okD(1) [of h f] by (cases "f < nextAddr h") (simp_all add: blankObj_def)

lemma addToOverload_keeps:
  assumes "tables_ok h" and "n < nextAddr h" and "isFunc h d" and "addToOverload ot d n found h = Some (Inr (r, h'))"
  shows "tables_ok h'" "nextAddr h \<le> nextAddr h'"
proof -
  from assms(4) obtain h2 where h': "h' = setOwner d n (addFunc r d h2)"
    and r: "isOverload h r \<and> h2 = h \<or> replicateOverload ot (name (cell h d)) n h = Some (Inr (r, h2))"
    by (auto simp: addToOverload_def andThen_eq_Inr split: if_splits)
  have h2: "tables_ok h2 \<and> keeps_defs h h2 \<and> r < nextAddr h2"
    using r
  proof
    assume "isOverload h r \<and> h2 = h"
    with assms(1) tables_okD(1) [OF assms(1), of r] show ?thesis by (cases "r < nextAddr h") (simp_all add: blankObj_def)
  next
    assume "replicateOverload ot (name (cell h d)) n h = Some (Inr (r, h2))"
    from replicate_keeps [OF assms(1,2) this] show ?thesis by simp
  qed
  have d: "isFunc h2 d" using h2 isFunc_allocated [OF assms(1,3)] assms(3) by (simp add: keeps_defs_def)
  show "tables_ok h'" unfolding h' using h2 by (intro join_keeps [OF _ _ d]) simp_all
  have "keeps_defs h2 (addFunc r d h2)" using h2 d isFunc_allocated by (intro addFunc_tables(2)) simp_all
  with h2 show "nextAddr h \<le> nextAddr h'" by (simp add: h' keeps_defs_def state_simps)
qed

lemma tableStep_keeps:
  assumes "tableStep h h'" and "tables_ok h"
  shows "tables_ok h'"
  using assms
proof cases
  case (allocate ob)
  then show ?thesis using alloc_keeps(1) [OF assms(2), of ob] by simp
next
  case (change a f)
  have same: "defs (f ob) = defs ob" "funcs (f ob) = funcs ob" "kind (f ob) = kind ob" "owner (f ob) = owner ob"
    "name (f ob) = name ob" for ob
    using change(3) [of ob] by simp_all
  show ?thesis unfolding change(1)
    by (rule upd_keeps(1) [OF assms(2) change(2)]) (use same tables_okD(4) [OF assms(2)] in auto)
next
  case (define_in n d)
  from addDef_keeps(1) [OF assms(2) define_in(3,2,1)] show ?thesis .
next
  case (remove_from n d)
  from removeDef_keeps(1) [OF assms(2) remove_from(2,1)] show ?thesis .
next
  case (alias_in n d)
  from addAlias1_keeps(1) [OF assms(2) alias_in(3,1,2)] show ?thesis .
next
  case (alias_as n d nm)
  from addAlias_keeps(1) [OF assms(2) alias_as(4,1,2,3)] show ?thesis .
next
  case (alias_unsafe n d nm)
  then have h': "h' = bindName n nm d h" and e: "entry_ok h n (nm, d)"
    by (auto simp: addUnsafeAlias_def entry_ok_def split: if_splits)
  show ?thesis unfolding h' by (rule bindName_keeps(1) [OF assms(2) alias_unsafe(1) e])
next
  case (alias_all n other)
  from aliasAll_keeps [OF alias_all(2) assms(2) alias_all(1)] show ?thesis by simp
next
  case (own_overload n ot nm d r)
  from ownOverload_keeps(1) [OF assms(2) own_overload(1,2)] show ?thesis .
next
  case (add_func n d ot found r)
  from addToOverload_keeps(1) [OF assms(2) add_func] show ?thesis .
qed

lemma tableSteps_keep:
  assumes "tableStep\<^sup>*\<^sup>* emptyStore h"
  shows "tables_ok h"
  using assms
proof (induction rule: rtranclp_induct)
  case base
  show ?case by (auto simp: tables_ok_def emptyStore_def blankObj_def)
next
  case (step h h')
  from tableStep_keeps [OF step(2) step.IH] show ?case .
qed

section \<open>Operations through contexts\<close>

text \<open>
  A state is reached when its store is made by steps. Loading a module, and the builder, make definitions
  by such steps.
\<close>

definition reached :: "'c sems \<Rightarrow> bool" where
  "reached s \<longleftrightarrow> tableStep\<^sup>*\<^sup>* emptyStore (sem_store s)"

definition tableRel :: "'c sems \<Rightarrow> 'c sems \<Rightarrow> bool" where
  "tableRel s s' \<longleftrightarrow> (reached s \<longrightarrow> reached s' \<and> keeps_defs (sem_store s) (sem_store s'))"

abbreviation importerTables :: "'c importer \<Rightarrow> bool" where
  "importerTables \<equiv> importerKeeps tableRel"

interpretation tables: kept tableRel
  by unfold_locales (auto simp: tableRel_def intro: keeps_defs_trans)

lemma reached_ok: "reached s \<Longrightarrow> tables_ok (sem_store s)"
  by (simp add: reached_def tableSteps_keep)

lemma reached_step: "reached s \<Longrightarrow> tableStep (sem_store s) (sem_store s') \<Longrightarrow> reached s'"
  unfolding reached_def by (rule rtranclp.rtrancl_into_rtrancl)

lemma tableRelI:
  assumes "reached s \<Longrightarrow> sem_store s' = sem_store s \<or>
    tableStep (sem_store s) (sem_store s') \<and> keeps_defs (sem_store s) (sem_store s')"
  shows "tableRel s s'"
  using assms reached_step [of s s'] by (auto simp: tableRel_def reached_def)

text \<open>The namespaces an operation is given are allocated, and what was defined in an earlier state still is.\<close>

definition ready :: "'c sems \<Rightarrow> addr set \<Rightarrow> 'c sems \<Rightarrow> bool" where
  "ready s0 N s \<longleftrightarrow> reached s \<and> tableRel s0 s \<and> (\<forall>n \<in> N. n < nextAddr (sem_store s))"

lemma ready_rel: "tableRel s s' \<Longrightarrow> ready s0 N s \<Longrightarrow> ready s0 N s'"
  using tables.kept_trans [of s0 s s'] by (auto simp: ready_def tableRel_def keeps_defs_def)

lemma ready_keeps: "keeps tableRel m \<Longrightarrow> yielding (ready s0 N) m (\<lambda>_. ready s0 N)"
  by (erule yielding_keeps) (rule ready_rel)

lemma module_allocated: "reached s \<Longrightarrow> isModule (sem_store s) m \<Longrightarrow> m < nextAddr (sem_store s)"
  using tables_okD(1) [OF reached_ok, of s m] by (cases "m < nextAddr (sem_store s)") (simp_all add: blankObj_def)

lemma type_allocated: "reached s \<Longrightarrow> isType (sem_store s) m \<Longrightarrow> m < nextAddr (sem_store s)"
  using tables_okD(1) [OF reached_ok, of s m] by (cases "m < nextAddr (sem_store s)") (simp_all add: blankObj_def)

lemma getModule_module:
  assumes "getModule h n = Some (Some m)"
  shows "isModule h m"
proof -
  have "isModule h m" if "getModule h n = Some r" "r = Some m" for r
    using that
  proof (induction rule: getModule.raw_induct [rotated 1, consumes 1])
    case (1 rec h n r)
    show ?case using 1(2,3) by (auto split: kind.splits option.splits list.splits intro: 1(1))
  qed
  with assms show ?thesis by blast
qed

lemma change_rel:
  assumes "reached s \<Longrightarrow> a < nextAddr (sem_store s)" and "sem_store s' = upd a f (sem_store s)"
    and "\<And>ob. kind (f ob) = kind ob \<and> owner (f ob) = owner ob \<and> name (f ob) = name ob \<and> defs (f ob) = defs ob \<and> funcs (f ob) = funcs ob"
  shows "tableRel s s'"
proof (rule tableRelI, rule disjI2, rule conjI)
  assume r: "reached s"
  show "tableStep (sem_store s) (sem_store s')" unfolding assms(2) by (rule change [OF assms(1) [OF r] assms(3)])
  show "keeps_defs (sem_store s) (sem_store s')" unfolding assms(2)
    by (rule upd_keeps(2) [OF reached_ok [OF r] assms(1) [OF r]]) (use assms(3) tables_okD(4) [OF reached_ok [OF r]] in auto)
qed

lemma same_rel: "sem_store s' = sem_store s \<Longrightarrow> tableRel s s'"
  by (rule tableRelI) simp

text \<open>What lookups find is in a table.\<close>

lemma firstM_Some: "firstM f xs = Some (Some y) \<Longrightarrow> \<exists>x \<in> set xs. f x = Some (Some y)"
  by (induction xs) (auto simp: bind_eq_Some_conv split: option.splits)

lemma lookUp_in_table:
  assumes "lookUp h nm n = Some (Some d)"
  shows "\<exists>m. lookUpHere h m nm = Some d"
proof -
  have "\<exists>m. lookUpHere h m nm = Some d" if "lookUp h nm n = Some r" "r = Some d" for r
    using that
  proof (induction rule: lookUp.raw_induct [rotated 1, consumes 1])
    case (1 rec h nm n r)
    show ?case
      using 1(2,3) by (auto split: option.splits dest!: firstM_Some intro: 1(1) [OF _ refl])
  qed
  with assms show ?thesis by blast
qed

lemma found_entry:
  assumes "reached s" and "lookUp (sem_store s) nm n = Some (Some d)"
  shows "d < nextAddr (sem_store s)" "\<not> isFunc (sem_store s) d"
proof -
  obtain m where "lookUpHere (sem_store s) m nm = Some d" using lookUp_in_table [OF assms(2)] by blast
  then have "(nm, d) \<in> set (defs (cell (sem_store s) m))" by (simp add: lookUpHere_def map_of_SomeD)
  from tables_okD(3) [OF reached_ok [OF assms(1)] this] show "d < nextAddr (sem_store s)" "\<not> isFunc (sem_store s) d"
    by (simp_all add: entry_ok_def)
qed

section \<open>Imports\<close>

definition importable :: "'c sems \<Rightarrow> addr set \<Rightarrow> addr \<Rightarrow> 'c sems \<Rightarrow> bool" where
  "importable s0 N d s \<longleftrightarrow> ready s0 N s \<and> d < nextAddr (sem_store s) \<and> \<not> isFunc (sem_store s) d"

lemma importable_rel: "tableRel s s' \<Longrightarrow> importable s0 N d s \<Longrightarrow> importable s0 N d s'"
  using ready_rel [of s s' s0 N] by (auto simp: importable_def ready_def tableRel_def keeps_defs_def)

lemma found_importable: "ready s0 N s \<Longrightarrow> lookUp (sem_store s) nm m = Some (Some d) \<Longrightarrow> importable s0 N d s"
  using found_entry [of s nm m d] by (simp add: importable_def ready_def)

lemma tables_checkImport: "yielding (ready s0 N) (checkImport n md locs st imp) (importable s0 N)"
proof -
  obtain lname sname where imp: "imp = (lname, sname)" by (cases imp)
  show ?thesis
    unfolding checkImport_def imp prod.case
    apply (rule yielding_if, rule yielding_throw)
    apply (rule yielding_bind, rule yielding_gets, rule yielding_if, rule yielding_throw)
    apply (rule yielding_bind, rule yielding_returning, rule yielding_option, rule yielding_throw)
    apply (rule yielding_bind, rule yielding_returning, rule yielding_if)
     apply (auto simp: yielding_def yields_def intro: found_importable)[1]
    apply (rule yielding_bind, rule yielding_returning, rule yielding_throw)
    done
qed

lemma onStore_yields:
  assumes "onStore m s = Some (Inr (x, s'))"
  obtains h' where "m (sem_store s) = Some (Inr (x, h'))" "s' = s\<lparr>sem_store := h'\<rparr>"
  using assms that by (cases "m (sem_store s)") (auto simp: onStore_def split: sum.splits)

lemma tables_bindAlias:
  assumes "n \<in> N"
  shows "yielding (importable s0 N d) (bindAlias n nm d) (\<lambda>_. importable s0 N d)"
proof (rule yieldingI)
  fix s x s' assume s: "importable s0 N d s" and "bindAlias n nm d s = Some (Inr (x, s'))"
  then obtain h' where "map_option (map_sum id (Pair ())) (addAlias n nm d (sem_store s)) = Some (Inr (x, h'))"
    and s': "s' = s\<lparr>sem_store := h'\<rparr>" unfolding bindAlias_def by (elim onStore_yields)
  then have h': "addAlias n nm d (sem_store s) = Some (Inr h')"
    by (cases "addAlias n nm d (sem_store s)"; cases "the (addAlias n nm d (sem_store s))") auto
  have r: "reached s" "n < nextAddr (sem_store s)" "d < nextAddr (sem_store s)" "\<not> isFunc (sem_store s) d"
    using s assms by (simp_all add: importable_def ready_def)
  have "tableStep (sem_store s) (sem_store s')" using alias_as [OF r(2-4) h'] s' by simp
  moreover have "keeps_defs (sem_store s) (sem_store s')" using addAlias_keeps(2) [OF reached_ok [OF r(1)] h' r(2-4)] s' by simp
  ultimately have "tableRel s s'" by (intro tableRelI) simp
  then show "importable s0 N d s'" using s by (rule importable_rel)
qed

text \<open>Only the dependencies of the module change.\<close>

lemma withDeps_refl: "withDeps md h (dependencies (cell h md)) = h"
  by (simp add: upd_def)

lemma addDependency_deps:
  assumes "addDependency md m h = Some h'"
  shows "\<exists>ds. h' = withDeps md h ds"
proof (cases m)
  case (Some a)
  show ?thesis
  proof (cases "a \<noteq> md \<and> map_of (dependencies (cell h md)) (canonicalName (cell h a)) = None")
    case True
    with assms Some have "h' = upd md (\<lambda>ob. ob\<lparr>dependencies := mapSet (canonicalName (cell h a)) a (dependencies ob)\<rparr>) h"
      by (simp add: addDependency_def)
    then show ?thesis by (intro exI [of _ "mapSet (canonicalName (cell h a)) a (dependencies (cell h md))"]) (simp add: upd_def)
  next
    case False
    with assms Some have "h' = withDeps md h (dependencies (cell h md))"
      by (simp only: withDeps_refl) (auto simp: addDependency_def)
    then show ?thesis by (rule exI)
  qed
qed (use assms in \<open>simp add: addDependency_def\<close>)

text \<open>What a walk changes of the store and of the types it has seen.\<close>

definition onlyDeps :: "addr \<Rightarrow> store \<times> addr set \<Rightarrow> store \<times> addr set \<Rightarrow> bool" where
  "onlyDeps md st st' \<longleftrightarrow> (\<exists>ds. fst st' = withDeps md (fst st) ds)"

lemma onlyDeps_refl: "onlyDeps md (h, added) (h, added')"
  unfolding onlyDeps_def fst_conv using withDeps_refl [of md h, symmetric] by (rule exI)

lemma onlyDeps_trans: "onlyDeps md st st' \<Longrightarrow> onlyDeps md st' st'' \<Longrightarrow> onlyDeps md st st''"
  by (auto simp: onlyDeps_def)

lemma iterM_deps:
  assumes "\<And>x st st'. f x st = Some st' \<Longrightarrow> onlyDeps md st st'" and "iterM f xs st = Some st'"
  shows "onlyDeps md st st'"
  by (rule iterM_relates [where R = "onlyDeps md", OF _ _ assms])
    (auto simp: split_paired_all intro: onlyDeps_refl onlyDeps_trans)

lemma addDependency_only: "addDependency md m h = Some h1 \<Longrightarrow> onlyDeps md (h, added) (h1, added')"
  unfolding onlyDeps_def fst_conv by (rule addDependency_deps)

lemma dependencies_only:
  assumes "\<And>x st st'. f x st = Some st' \<Longrightarrow> onlyDeps md st st'"
  shows "varDependencies f md d st = Some st' \<Longrightarrow> onlyDeps md st st'"
    "typeDependencies f md d st = Some st' \<Longrightarrow> onlyDeps md st st'"
    "funcDependencies f md d st = Some st' \<Longrightarrow> onlyDeps md st st'"
    "overloadDependencies f md d st = Some st' \<Longrightarrow> onlyDeps md st st'"
proof -
  obtain h added where st: "st = (h, added)" by (cases st)
  note rules = addDependency_only [THEN onlyDeps_trans] addDependency_only assms onlyDeps_refl
    iterM_deps [of f, OF assms]
  show "onlyDeps md st st'" if "varDependencies f md d st = Some st'"
    using that unfolding varDependencies_def st
    by (auto simp: bind_eq_Some_conv split: option.splits if_splits intro: rules)
  show "onlyDeps md st st'" if "typeDependencies f md d st = Some st'"
    using that unfolding typeDependencies_def st
    by (auto simp: bind_eq_Some_conv split: if_splits intro: rules)
  show "onlyDeps md st st'" if "funcDependencies f md d st = Some st'"
  proof -
    from that obtain m t h1 g where *: "addDependency md m h = Some h1" "f t (h1, added) = Some g"
      "iterM f (map snd (args (cell h d))) g = Some st'"
      unfolding funcDependencies_def st by (auto simp: bind_eq_Some_conv split: option.splits)
    show ?thesis unfolding st
      by (rule onlyDeps_trans [OF addDependency_only [OF *(1)] onlyDeps_trans [OF assms [OF *(2)] iterM_deps [of f, OF assms *(3)]]])
  qed
  show "onlyDeps md st st'" if "overloadDependencies f md d st = Some st'"
    using that unfolding overloadDependencies_def st by (auto intro: rules)
qed

lemma addDependenciesTo_only:
  assumes "addDependenciesTo md d st = Some st'"
  shows "onlyDeps md st st'"
  using assms
proof (induction rule: addDependenciesTo.raw_induct [rotated 1, consumes 1])
  case (1 rec md d st st')
  note rules = dependencies_only [of "rec md" md, OF 1(1)]
  show ?case using 1(2) by (auto split: kind.splits intro: rules)
qed

lemma deps_rel:
  assumes "reached s \<Longrightarrow> m < nextAddr (sem_store s)" and "sem_store s' = withDeps m (sem_store s) ds"
  shows "tableRel s s'"
  by (rule change_rel [OF assms]) simp_all

lemma tables_dependOn:
  assumes "m \<in> N"
  shows "yielding (importable s0 N d) (dependOnDef m d') (\<lambda>_. importable s0 N d)"
    "yielding (ready s0 N) (dependOnModule (Some m) md) (\<lambda>_. ready s0 N)"
proof -
  show "yielding (importable s0 N d) (dependOnDef m d') (\<lambda>_. importable s0 N d)"
  proof (rule yieldingI)
    fix s x s' assume s: "importable s0 N d s" and "dependOnDef m d' s = Some (Inr (x, s'))"
    then obtain st where "addDependenciesTo m d' (sem_store s, {}) = Some st" "sem_store s' = fst st"
      unfolding dependOnDef_def by (elim onStore_yields) auto
    with addDependenciesTo_only [of m d' "(sem_store s, {})" st] obtain ds where "sem_store s' = withDeps m (sem_store s) ds"
      by (auto simp: onlyDeps_def)
    then have "tableRel s s'" by (rule deps_rel [rotated 1]) (use s assms in \<open>simp add: importable_def ready_def\<close>)
    then show "importable s0 N d s'" using s by (rule importable_rel)
  qed
  show "yielding (ready s0 N) (dependOnModule (Some m) md) (\<lambda>_. ready s0 N)"
  proof (rule yieldingI)
    fix s x s' assume s: "ready s0 N s" and "dependOnModule (Some m) md s = Some (Inr (x, s'))"
    then obtain h' where "addDependency m (Some md) (sem_store s) = Some h'" "sem_store s' = h'"
      unfolding dependOnModule_def option.case by (elim onStore_yields) auto
    with addDependency_deps [of m "Some md" "sem_store s" h'] obtain ds where "sem_store s' = withDeps m (sem_store s) ds" by auto
    then have "tableRel s s'" by (rule deps_rel [rotated 1]) (use s assms in \<open>simp add: ready_def\<close>)
    then show "ready s0 N s'" using s by (rule ready_rel)
  qed
qed

lemma tables_bindImports:
  assumes im: "importerTables im" and n: "n \<in> N" and cur: "set_option cur \<subseteq> N"
  shows "yielding (ready s0 N) (bindImports im c n md cur locs st imps) (\<lambda>_. ready s0 N)"
proof (induction imps arbitrary: st)
  case (Cons imp imps)
  have reg: "yielding (importable s0 N d) (registerImportedDef im c d') (\<lambda>_. importable s0 N d)" for d d'
    using im by (intro yielding_keeps [of tableRel, OF _ importable_rel]) (simp_all add: importerKeeps_def)
  have dep: "yielding (importable s0 N d) (case cur of None \<Rightarrow> yields () | Some m \<Rightarrow> dependOnDef m d) (\<lambda>_. importable s0 N d)" for d
    using cur tables_dependOn(1) [of _ N s0 d d] by (cases cur) (simp_all add: yielding_def yields_def)
  show ?case unfolding bindImports.simps
    apply (rule yielding_bind, rule tables_checkImport)
    apply (rule yielding_bind, rule reg)
    apply (rule yielding_bind, rule tables_bindAlias, rule n)
    apply (rule yielding_bind, rule dep)
    apply (rule yielding_pre, rule Cons.IH, simp add: importable_def)
    done
qed (simp add: yielding_def yields_def)

lemma tables_pushImported: "keeps tableRel (pushImported c md)"
proof (rule keepsI)
  fix s x s' assume "pushImported c md s = Some (Inr (x, s'))"
  then have "sem_store s' = sem_store s \<or> (\<exists>m. isModule (sem_store s) m \<and>
    sem_store s' = upd m (\<lambda>ob. ob\<lparr>importedModules := importedModules ob @ [md]\<rparr>) (sem_store s))"
    by (auto simp: pushImported_def modifies_def throw_def yields_def split: option.splits list.splits if_splits)
  then show "tableRel s s'"
  proof (elim disjE exE conjE)
    fix m assume m: "isModule (sem_store s) m" and s': "sem_store s' = upd m (\<lambda>ob. ob\<lparr>importedModules := importedModules ob @ [md]\<rparr>) (sem_store s)"
    show "tableRel s s'" by (rule change_rel [OF _ s']) (simp_all add: module_allocated m)
  qed (rule same_rel)
qed

lemma tables_recordCompileTime: "keeps tableRel (recordCompileTime c path imps md)"
proof (rule keepsI)
  fix s x s' assume "recordCompileTime c path imps md s = Some (Inr (x, s'))"
  then obtain n a where a: "getModule (sem_store s) n = Some (Some a)" "sem_store s' = addCompileTimeDependency a md (sem_store s)"
    by (auto simp: recordCompileTime_def Let_def split: option.splits list.splits)
  then have "sem_store s' = sem_store s \<or> sem_store s' = upd a (\<lambda>ob. ob\<lparr>compileTimeDeps :=
      mapSet (canonicalName (cell (sem_store s) md)) md (compileTimeDeps ob)\<rparr>) (sem_store s)"
    by (simp add: addCompileTimeDependency_def split: if_splits)
  then show "tableRel s s'"
  proof
    assume s': "sem_store s' = upd a (\<lambda>ob. ob\<lparr>compileTimeDeps :=
      mapSet (canonicalName (cell (sem_store s) md)) md (compileTimeDeps ob)\<rparr>) (sem_store s)"
    show "tableRel s s'" by (rule change_rel [OF _ s']) (simp_all add: module_allocated getModule_module [OF a(1)])
  qed (rule same_rel)
qed

lemma yields_same: "yielding P (yields x) (\<lambda>_. P)"
  by (simp add: yielding_def yields_def)

lemma tables_emitImport:
  assumes im: "importerTables im" and n: "n \<in> N"
  shows "yielding (ready s0 N) (emitImport im c n path imps ann rec raw locs) (\<lambda>_. ready s0 N)"
proof -
  note law = im [unfolded importerKeeps_def]
  have lib: "yielding (ready s0 N) (importSharedLibrary im nm imps c n) (\<lambda>_. ready s0 N)" for nm
    by (rule ready_keeps) (use law in blast)
  have find: "yielding (ready s0 N) (findModule im path) (\<lambda>_. ready s0 N)"
    by (rule ready_keeps) (use law in blast)
  have init: "yielding (ready s0 N) (if ann then yields () else initializeImport im md imps) (\<lambda>_. ready s0 N)" for md
    by (rule ready_keeps, intro tables.keeps_if tables.keeps_basic) (use law in blast)
  have cur: "yielding (ready s0 N) (returning (\<lambda>s. getModule (sem_store s) n)) (\<lambda>cur. ready s0 (N \<union> set_option cur))"
    by (auto simp: yielding_def returning_def ready_def intro: module_allocated dest: getModule_module)
  have dep: "yielding (ready s0 (N \<union> set_option cur)) (if ann then yields () else dependOnModule cur md) (\<lambda>_. ready s0 (N \<union> set_option cur))"
    for cur md
    by (cases cur) (auto simp: yields_same dependOnModule_def yielding_throw intro: tables_dependOn(2) [unfolded dependOnModule_def option.case])
  have comp: "yielding (ready s0 (N \<union> set_option cur)) (if ann \<and> rec then recordCompileTime c path imps md else yields ()) (\<lambda>_. ready s0 N)"
    for cur md
    by (rule yielding_consequence [OF ready_keeps], intro tables.keeps_if tables.keeps_basic tables_recordCompileTime)
      (simp add: ready_def)
  show ?thesis unfolding emitImport_def
    apply (rule yielding_if)
     apply (cases path; simp only: list.case yielding_throw)
     apply (rule yielding_bind, rule lib, rule yielding_option, rule yielding_yields, rule yielding_throw)
    apply (rule yielding_bind, rule find, rule yielding_prod, rule yielding_option, rule yielding_throw)
    apply (rule yielding_bind, rule ready_keeps, rule tables.keeps_basic, rule yielding_if, rule yielding_throw)
    apply (rule yielding_bind, rule ready_keeps, rule tables_pushImported)
    apply (rule yielding_bind, rule init)
    apply (rule yielding_bind, rule cur)
    apply (rule yielding_bind, rule tables_bindImports, rule im, simp add: n, simp)
    apply (rule yielding_bind, rule dep)
    apply (rule yielding_bind, rule comp, rule yielding_yields)
    done
qed

lemma tables_lookUpLazily:
  assumes im: "importerTables im"
  shows "yielding (ready s0 N) (lookUpLazily im nm) (\<lambda>_. ready s0 N)"
proof -
  have mod: "yielding (\<lambda>s. x = isModule (sem_store s) m \<and> ready s0 N s) (if \<not> x then yields None else k) (\<lambda>_. ready s0 N)"
    if "yielding (ready s0 (insert m N)) k (\<lambda>_. ready s0 (insert m N))" for x m and k :: "('a, addr option) sem"
  proof (cases x)
    case True
    from yielding_consequence [OF that] have "yielding (ready s0 (insert m N)) k (\<lambda>_. ready s0 N)" by (simp add: ready_def)
    then have "yielding (\<lambda>s. x = isModule (sem_store s) m \<and> ready s0 N s) k (\<lambda>_. ready s0 N)"
      by (rule yielding_pre) (use True in \<open>auto simp: ready_def intro: module_allocated\<close>)
    with True show ?thesis by simp
  qed (simp add: yielding_def yields_def)
  have "keeps (\<lambda>s s'. s' = s) (getLazyImport im m nm)" for m
    by (simp add: getLazyImport_def keeps_def yields_def throw_def split: option.split sum.split)
  then have lazy: "yielding P (getLazyImport im m nm) (\<lambda>_. P)" for m P by (rule yielding_keeps) simp
  have maybe: "yielding (ready s0 N) (maybeLazyImport im c nm) (\<lambda>_. ready s0 N)" for c
    unfolding maybeLazyImport_def
    apply (cases c; simp only: list.case yielding_throw)
    apply (rule yielding_option, rule yielding_yields)
    apply (rule yielding_bind, rule yielding_gets, rule mod)
    apply (rule yielding_bind, rule lazy, rule yielding_if, rule yielding_yields)
    apply (rule yielding_bind, rule tables_emitImport [OF im], simp)
    apply (rule ready_keeps, unfold nsLookUp_def, rule tables.keeps_basic)
    done
  show ?thesis unfolding lookUpLazily_def
    apply (rule yielding_bind, rule ready_keeps, rule tables.keeps_basic)
    apply (rule yielding_option, rule yielding_throw, rule yielding_option, rule yielding_yields, rule maybe)
    done
qed

section \<open>Lookups\<close>

lemma tables_ownOverload:
  assumes "n \<in> N"
  shows "yielding (ready s0 N) (onStore (ownOverload ot nm n d)) (\<lambda>_. ready s0 N)"
proof (rule yieldingI)
  fix s x s' assume s: "ready s0 N s" and "onStore (ownOverload ot nm n d) s = Some (Inr (x, s'))"
  then obtain h' where h': "ownOverload ot nm n d (sem_store s) = Some (Inr (x, h'))" "sem_store s' = h'"
    by (elim onStore_yields) simp
  have n: "n < nextAddr (sem_store s)" "reached s" using s assms by (simp_all add: ready_def)
  have "tableRel s s'"
    using own_overload [OF n(1) h'(1)] ownOverload_keeps(2) [OF reached_ok [OF n(2)] n(1) h'(1)] h'(2)
    by (intro tableRelI) simp
  then show "ready s0 N s'" using s by (rule ready_rel)
qed

lemma tables_ctxLookUp:
  assumes "importerTables im" and "n \<in> N"
  shows "yielding (ready s0 N) (ctxLookUp im ot lz nm n) (\<lambda>_. ready s0 N)"
  unfolding ctxLookUp_def
  apply (rule yielding_bind, rule ready_keeps, unfold nsLookUp_def, rule tables.keeps_basic)
  apply (rule yielding_bind, rule yielding_if, rule tables_lookUpLazily [OF assms(1)], rule yields_same)
  apply (rule yielding_option, rule yields_same)
  apply (rule yielding_bind, rule tables_ownOverload [OF assms(2)], rule yields_same)
  done

lemma tables_lookUpNoArgs:
  assumes "importerTables im" and "n \<in> N"
  shows "yielding (ready s0 N) (lookUpNoArgs im ot nm al n) (\<lambda>_. ready s0 N)"
  unfolding lookUpNoArgs_def
  apply (rule yielding_bind, rule tables_ctxLookUp [OF assms], rule yielding_option, rule yields_same)
  apply (rule ready_keeps, intro tables.keeps_rules)
  done

lemma lookUpCall_ready:
  assumes "lookUpCall im ot ops nm ov n vals s = Some r" and "importerTables im" and "ready s0 N s" and "n \<in> N" and "r = Inr (x, s')"
  shows "ready s0 N s'"
  using assms
proof (induction arbitrary: N x s' rule: lookUpCall.raw_induct [rotated 1, consumes 1])
  case (1 rec im ot ops nm ov n vals s r)
  have again: "yielding (ready s0 (insert var N)) (rec im ot ops oper False var vals) (\<lambda>_. ready s0 (insert var N))" for oper var
    by (rule yieldingI) (rule 1(1) [OF _ 1(3) _ _ refl], assumption, simp_all)
  have type: "yielding (\<lambda>s. t = isType (sem_store s) var \<and> ready s0 N s) (if t then m else k) (\<lambda>_. ready s0 N)"
    if "yielding (ready s0 (insert var N)) m (\<lambda>_. ready s0 (insert var N))" "keeps tableRel k" for t var m and k
  proof (cases t)
    case True
    from yielding_consequence [OF that(1)] have "yielding (ready s0 (insert var N)) m (\<lambda>_. ready s0 N)" by (simp add: ready_def)
    then have "yielding (\<lambda>s. t = isType (sem_store s) var \<and> ready s0 N s) m (\<lambda>_. ready s0 N)"
      by (rule yielding_pre) (use True in \<open>auto simp: ready_def intro: type_allocated\<close>)
    with True show ?thesis by simp
  next
    case False
    then show ?thesis by simp (rule yielding_pre [OF ready_keeps [OF that(2)]], simp)
  qed
  let ?body = "andBind (ctxLookUp im ot True nm n) (\<lambda>found. case found of
       None \<Rightarrow> yields (None, vals)
     | Some var \<Rightarrow>
         andBind (gets (\<lambda>s. isType (sem_store s) var)) (\<lambda>type.
         if type then
           andBind (rec im ot ops ''oper new'' False var vals) (\<lambda>(operNew, vals').
           andBind (gets (\<lambda>s. case operNew of
               Some f \<Rightarrow> if owner (cell (sem_store s) f) \<noteq> Some var then None else Some f | None \<Rightarrow> None)) (\<lambda>f.
           yields (f, vals')))
         else
           andBind (gets (\<lambda>s. isOverload (sem_store s) var)) (\<lambda>ovld.
           if ovld then returning (\<lambda>s. getMatch ops (sem_store s) ov var vals)
           else yields (None, vals))))"
  have body: "yielding (ready s0 N) ?body (\<lambda>_. ready s0 N)"
    apply (rule yielding_bind, rule tables_ctxLookUp [OF 1(3,5)], rule yielding_option, rule yields_same)
    apply (rule yielding_bind, rule yielding_gets, rule type)
     apply (rule yielding_bind, rule again, rule yielding_prod, rule ready_keeps, intro tables.keeps_rules)
    apply (intro tables.keeps_rules)
    done
  show ?case by (rule yieldingD [OF body 1(4)]) (use 1(2,6) in simp)
qed

lemma tables_lookUpCall:
  "importerTables im \<Longrightarrow> n \<in> N \<Longrightarrow> yielding (ready s0 N) (lookUpCall im ot ops nm ov n vals) (\<lambda>_. ready s0 N)"
  by (rule yieldingI) (rule lookUpCall_ready [OF _ _ _ _ refl])

lemma tables_ctxAddDef:
  assumes im: "importerTables im" and r: "reached s" and lt: "n < nextAddr (sem_store s)" "d < nextAddr (sem_store s)"
    and m: "ctxAddDef im ot d n s = Some (Inr (x, s'))"
  shows "reached s'"
proof (cases "isFunc (sem_store s) d")
  case False
  with m obtain h' where "addDef n d (sem_store s) = Inr h'" "sem_store s' = h'"
    by (auto simp: ctxAddDef_def andThen_eq_Inr elim!: onStore_yields)
  then show ?thesis using define_in [OF lt] by (intro reached_step [OF r]) simp
next
  case True
  let ?nm = "name (cell (sem_store s) d)"
  from m True obtain found t where t: "ctxLookUp im ot True ?nm n s = Some (Inr (found, t))"
    "onStore (addToOverload ot d n found) t = Some (Inr (x, s'))"
    by (auto simp: ctxAddDef_def elim: andBind_result)
  have "ready s {n} t"
    by (rule yieldingD [OF tables_ctxLookUp [OF im] _ t(1)]) (use r lt in \<open>auto simp: ready_def tables.kept_refl\<close>)
  then have t': "reached t" "n < nextAddr (sem_store t)" "isFunc (sem_store t) d"
    using True r lt by (auto simp: ready_def tableRel_def keeps_defs_def)
  from t(2) obtain h' where "addToOverload ot d n found (sem_store t) = Some (Inr (x, h'))" "sem_store s' = h'"
    by (elim onStore_yields) simp
  then show ?thesis using add_func [OF t'(2,3)] by (intro reached_step [OF t'(1)]) simp
qed

section \<open>What the tables promise\<close>

text \<open>
  The operations through contexts as steps, with what else happens to the chain of contexts and to the
  builder. The arguments of a call are numbered expressions.
\<close>

inductive contextStep :: "'c importer \<Rightarrow> 'c sems \<Rightarrow> 'c sems \<Rightarrow> bool" for im :: "'c importer" where
  on_tables: "tableStep (sem_store s) (sem_store s') \<Longrightarrow> contextStep im s s'"
| elsewhere: "sem_store s' = sem_store s \<Longrightarrow> contextStep im s s'"
| look_up: "n < nextAddr (sem_store s) \<Longrightarrow> ctxLookUp im ot lz nm n s = Some (Inr (r, s')) \<Longrightarrow> contextStep im s s'"
| look_up_plain: "n < nextAddr (sem_store s) \<Longrightarrow> lookUpNoArgs im ot nm al n s = Some (Inr (r, s')) \<Longrightarrow> contextStep im s s'"
| look_up_call: "n < nextAddr (sem_store s) \<Longrightarrow> lookUpCall im ot (ops :: nat exprOps) nm ov n vals s = Some (Inr (q, s')) \<Longrightarrow>
    contextStep im s s'"
| add_def: "n < nextAddr (sem_store s) \<Longrightarrow> d < nextAddr (sem_store s) \<Longrightarrow> ctxAddDef im ot d n s = Some (Inr (a, s')) \<Longrightarrow>
    contextStep im s s'"
| import_names: "n < nextAddr (sem_store s) \<Longrightarrow> emitImport im c n path imps ann rec raw locs s = Some (Inr (r, s')) \<Longrightarrow>
    contextStep im s s'"

lemma contextStep_reached:
  assumes im: "importerTables im" and step: "contextStep im s s'" and r: "reached s"
  shows "reached s'"
proof -
  have start: "ready s {n} s" if "n < nextAddr (sem_store s)" for n
    using that r by (simp add: ready_def tables.kept_refl)
  have fin: "reached s'" if "ready s N s'" for N using that by (simp add: ready_def)
  show ?thesis
    using step
  proof cases
    case on_tables
    then show ?thesis by (rule reached_step [OF r])
  next
    case elsewhere
    with r show ?thesis by (simp add: reached_def)
  next
    case (look_up n ot lz nm r)
    from yieldingD [OF tables_ctxLookUp [OF im, of n "{n}"] start [OF look_up(1)] look_up(2)] show ?thesis by (intro fin) simp
  next
    case (look_up_plain n ot nm al r)
    from yieldingD [OF tables_lookUpNoArgs [OF im, of n "{n}"] start [OF look_up_plain(1)] look_up_plain(2)]
    show ?thesis by (intro fin) simp
  next
    case (look_up_call n ot ops nm ov vals q)
    from yieldingD [OF tables_lookUpCall [OF im, of n "{n}"] start [OF look_up_call(1)] look_up_call(2)]
    show ?thesis by (intro fin) simp
  next
    case (add_def n d ot a)
    then show ?thesis using tables_ctxAddDef [OF im r] by blast
  next
    case (import_names n c path imps ann rec raw locs r)
    from yieldingD [OF tables_emitImport [OF im, of n "{n}"] start [OF import_names(1)] import_names(2)]
    show ?thesis by (intro fin) simp
  qed
qed

text \<open>
  C33. However a program's definitions, aliases, removals, lookups and imports, lazy ones included, are
  interleaved, the tables keep their discipline: what a lookup finds is an allocated, owned definition and
  never a bare function, and an overload that a namespace finds under a name belongs to that namespace and
  has that name, so that functions added to it are never added to an overload of another scope. It is
  assumed that the operations are made in allocated namespaces, that no bare function is aliased and no
  overload by an unsafe alias, and that loading a module changes the tables by such steps.
\<close>

theorem tables_keep_overloads:
  assumes "importerTables im" and "(contextStep im)\<^sup>*\<^sup>* s0 s" and "sem_store s0 = emptyStore"
    and "lookUpHere (sem_store s) n nm = Some d"
  shows "d < nextAddr (sem_store s) \<and> owner (cell (sem_store s) d) \<noteq> None \<and> \<not> isFunc (sem_store s) d \<and>
    (isOverload (sem_store s) d \<longrightarrow> owner (cell (sem_store s) d) = Some n \<and> name (cell (sem_store s) d) = nm)"
proof -
  from assms(2,3) have "reached s"
  proof (induction rule: rtranclp_induct)
    case base
    then show ?case by (simp add: reached_def)
  next
    case (step s s')
    from contextStep_reached [OF assms(1) step(2)] step.IH step.prems show ?case by blast
  qed
  then have ok: "tables_ok (sem_store s)" by (rule reached_ok)
  have "(nm, d) \<in> set (defs (cell (sem_store s) n))" using assms(4) by (auto simp: lookUpHere_def intro: map_of_SomeD)
  from tables_okD(3) [OF ok this] show ?thesis by (simp add: entry_ok_def)
qed

text \<open>A module with one function, defined through its context.\<close>

definition oneFunction :: "unit sems" where
  "oneFunction = \<lparr>sem_ctx = [(newFrame ModuleScope (Some 0) None)\<lparr>toplevel := True\<rparr>],
     sem_store = snd (alloc (newFuncDef 0 ''f'' []) (snd (alloc (newModuleDef ''m'' None) emptyStore))), sem_rest = ()\<rparr>"

lemma noImporter_tables: "importerTables noImporter"
  by (simp add: importerKeeps_def noImporter_def tables.keeps_basic)

lemma oneFunction_defined:
  obtains s where "ctxAddDef noImporter None 1 0 oneFunction = Some (Inr (2, s))" and "lookUpHere (sem_store s) 0 ''f'' = Some 2"
    and "isOverload (sem_store s) 2"
proof -
  have "\<exists>s. ctxAddDef noImporter None 1 0 oneFunction = Some (Inr (2, s)) \<and> lookUpHere (sem_store s) 0 ''f'' = Some 2 \<and>
      isOverload (sem_store s) 2"
    by (simp add: ctxAddDef_def ctxLookUp_def nsLookUp_def returning_def lookUpLazily_def maybeLazyImport_def getLazyImport_def
        noImporter_def onStore_def addToOverload_def noImports_def andBind_def gets_def yields_def newFrame_def
        lookUp.simps lookUpHere_def replicateOverload_def collectAncestors.simps
        addDef_def storeDef_def setOwner_def addFunc_def oneFunction_def emptyStore_def newFuncDef_def newModuleDef_def
        newOverloadDef_def blankObj_def alloc_def upd_def hasInstSlot_def andThen_def)
  then show thesis using that by blast
qed

lemma tables_keep_overloads_witness:
  "\<exists>(s0 :: unit sems) s. (contextStep noImporter)\<^sup>*\<^sup>* s0 s \<and> sem_store s0 = emptyStore \<and> lookUpHere (sem_store s) 0 ''f'' = Some 2 \<and>
     owner (cell (sem_store s) 2) = Some 0 \<and> name (cell (sem_store s) 2) = ''f''"
proof -
  obtain s where s: "ctxAddDef noImporter None 1 0 oneFunction = Some (Inr (2, s))" "lookUpHere (sem_store s) 0 ''f'' = Some 2"
    "isOverload (sem_store s) 2" by (rule oneFunction_defined)
  let ?at = "\<lambda>h. oneFunction\<lparr>sem_store := h\<rparr>"
  let ?h1 = "snd (alloc (newModuleDef ''m'' None) emptyStore)"
  have "contextStep noImporter (?at emptyStore) (?at ?h1)" "contextStep noImporter (?at ?h1) oneFunction"
    by (rule on_tables, simp add: oneFunction_def, rule allocate; simp add: newFuncDef_def newModuleDef_def blankObj_def)+
  moreover have "contextStep noImporter oneFunction s"
    by (rule add_def [OF _ _ s(1)]) (simp_all add: oneFunction_def emptyStore_def alloc_def)
  ultimately have steps: "(contextStep noImporter)\<^sup>*\<^sup>* (?at emptyStore) s" by (metis converse_rtranclp_into_rtranclp rtranclp.rtrancl_refl)
  have start: "sem_store (?at emptyStore) = emptyStore" by simp
  from tables_keep_overloads [OF noImporter_tables steps start s(2)] s(2,3) steps start
  show ?thesis by (intro exI [of _ "?at emptyStore"] exI [of _ s]) simp
qed

end
