(* ===== verification/Type_Order.thy ===== *)
theory Type_Order
  imports Scopes Codec_Objects
begin

text \<open>
  The types of a module in its meta-data: their declarations (\<open>Namespace::serializeTypeDecls\<close>,
  \<open>TypeDef::serializeDecl\<close>), which give every type an id, and the order in which their definitions
  are written (\<open>Namespace::OrderedTypes\<close>), dependencies before dependents.
\<close>

section \<open>Declarations\<close>

definition getMaster :: "store \<Rightarrow> addr \<Rightarrow> addr" where
  "getMaster h m = (case master (cell h m) of Some x \<Rightarrow> x | None \<Rightarrow> m)"

definition isSlave :: "store \<Rightarrow> addr \<Rightarrow> bool" where
  "isSlave h m \<longleftrightarrow> master (cell h m) \<noteq> None"

text \<open>\<open>TypeDef::isSerializable\<close>\<close>

definition isSerializableType :: "store \<Rightarrow> addr \<Rightarrow> bool" where
  "isSerializableType h t \<longleftrightarrow> meta (cell h t) = None \<and>
     (take 6 (name (cell h t)) = '':anonc'' \<or> isSerializable h t)"

text \<open>
  The types a namespace declares, those of the slaves of a module included. \<open>None\<close> is also the failed
  check that no other namespace is defined in it.
\<close>

definition ownTypeDefs :: "store \<Rightarrow> addr \<Rightarrow> addr list" where
  "ownTypeDefs h ns = filter (\<lambda>t. isType h t \<and> owner (cell h t) = Some ns \<and> isSerializableType h t)
     (map snd (defs (cell h ns)))"

definition nestedModules :: "store \<Rightarrow> addr \<Rightarrow> addr list" where
  "nestedModules h ns = (if isModule h ns then slaves (cell h ns) else [])"

partial_function (option) getTypeDefs :: "store \<Rightarrow> addr \<Rightarrow> addr list option" where
  "getTypeDefs h ns =
     (if list_ex (\<lambda>e. isNamespace h (snd e) \<and> \<not> isType h (snd e)) (defs (cell h ns)) then None
      else Option.bind (concatM (getTypeDefs h) (nestedModules h ns)) (\<lambda>nested. Some (ownTypeDefs h ns @ nested)))"

text \<open>\<open>ModuleDef::serializeSlaveRef\<close>, and the part of \<open>serializeDecl\<close> before the nested declarations.\<close>

definition serializeSlaveRef :: "store \<Rightarrow> addr \<Rightarrow> serializer \<Rightarrow> serializer" where
  "serializeSlaveRef h m s =
     (case writeObject m s of (new, s1) \<Rightarrow>
        if new then writeUInt 0 (writeString (canonicalName (cell h m)) s1) else s1)"

definition typeFlags :: "store \<Rightarrow> addr \<Rightarrow> uint" where
  "typeFlags h t =
     (if pointer (cell h t) then 1 else 0) + (if hasVTable (cell h t) then 2 else 0) +
     (if isAbstractClass (cell h t) then 4 else 0) + (if genericInfo (cell h t) then 8 else 0) +
     (if final (cell h t) then 16 else 0) + (if appendage (cell h t) then 32 else 0)"

definition declHead :: "store \<Rightarrow> addr \<Rightarrow> serializer \<Rightarrow> serializer" where
  "declHead h t s =
     (let s1 = writeUInt (typeFlags h t) (writeString (name (cell h t)) s);
          sub = (case owner (cell h t) of
             Some m \<Rightarrow> if isModule h m \<and> isSlave h m then serializeSlaveRef h m (writeUInt 19 (nestedSerializer s1))
               else nestedSerializer s1
           | None \<Rightarrow> nestedSerializer s1)
      in snd (registerObject t (writeBlob (dst sub) (shareObjMap sub s1))))"

partial_function (option) serializeTypeDecls :: "store \<Rightarrow> addr \<Rightarrow> serializer \<Rightarrow> serializer option" where
  "serializeTypeDecls h ns s = Option.bind (getTypeDefs h ns) (\<lambda>ts.
     iterM (\<lambda>t u. if fst (writeObject t u) then serializeTypeDecls h t (declHead h t (snd (writeObject t u)))
        else Some (snd (writeObject t u))) ts (writeUInt (of_nat (length ts)) s))"

section \<open>The order of definitions\<close>

record orderedTypes =
  ordered_types :: "addr list"
  indexed :: "addr set"

definition noTypes :: orderedTypes where
  "noTypes = \<lparr>ordered_types = [], indexed = {}\<rparr>"

text \<open>The type is in another group of modules; \<open>None\<close> is the null dereference for a type without a module.\<close>

definition outsideGroup :: "store \<Rightarrow> addr \<Rightarrow> addr \<Rightarrow> bool option" where
  "outsideGroup h m t = Option.bind (getModule h t) (map_option (\<lambda>md. getMaster h md \<noteq> m))"

partial_function (option) addOrdered :: "store \<Rightarrow> addr \<Rightarrow> addr \<Rightarrow> orderedTypes \<Rightarrow> orderedTypes option" where
  "addOrdered h m t st =
     (if t \<in> indexed st then Some st
      else Option.bind (outsideGroup h m t) (\<lambda>out.
        if out \<or> \<not> isSerializableType h t then Some st
        else Option.bind (iterM (addOrdered h m) (parents (cell h t)) st) (\<lambda>st1.
             Option.bind (case templateType (cell h t) of None \<Rightarrow> Some st1 | Some g \<Rightarrow> addOrdered h m g st1) (\<lambda>st2.
             Some \<lparr>ordered_types = ordered_types st2 @ [t], indexed = insert t (indexed st2)\<rparr>))))"

partial_function (option) getOrderedTypes :: "store \<Rightarrow> addr \<Rightarrow> addr \<Rightarrow> orderedTypes \<Rightarrow> orderedTypes option" where
  "getOrderedTypes h m ns st =
     iterM (\<lambda>t st. Option.bind (addOrdered h m t st) (getOrderedTypes h m t))
       (map snd (filter (\<lambda>e. isType h (snd e) \<and> \<not> isAlias h ns (snd e) (fst e)) (defs (cell h ns)))) st"

text \<open>The array of types \<open>ModuleDef::serialize\<close> writes.\<close>

definition moduleTypes :: "store \<Rightarrow> addr \<Rightarrow> orderedTypes option" where
  "moduleTypes h m = Option.bind (iterM (getOrderedTypes h m) (slaves (cell h m)) noTypes) (getOrderedTypes h m m)"

section \<open>Every declared type has an id\<close>

text \<open>
  The graph of declarations: a namespace and the types it declares. It ends because types are nested
  in each other to a finite depth and slaves have no slaves.
\<close>

definition slaves_ok :: "store \<Rightarrow> bool" where
  "slaves_ok h \<longleftrightarrow> wf (edges (nestedModules h)) \<and> (\<forall>m s. s \<in> set (slaves (cell h m)) \<longrightarrow> isModule h s) \<and>
     (\<forall>ns. isType h ns \<or> isModule h ns \<longrightarrow>
        \<not> list_ex (\<lambda>e. isNamespace h (snd e) \<and> \<not> isType h (snd e)) (defs (cell h ns)))"

interpretation slave_modules: object_graph nestedModules slaves_ok
  by unfold_locales (simp add: slaves_ok_def)

definition typeDefs :: "store \<Rightarrow> addr \<Rightarrow> addr list" where
  "typeDefs h ns = concat (map (ownTypeDefs h) (visited (nestedModules h) ns))"

lemma getTypeDefs_returns:
  assumes "slaves_ok h" and "isType h ns \<or> isModule h ns"
  shows "getTypeDefs h ns = Some (typeDefs h ns)"
  using assms(1) assms(2)
proof (induction ns rule: slave_modules.graph_induct)
  case (node ns)
  have "isModule h s" if "s \<in> set (nestedModules h ns)" for s
    using that assms(1) by (auto simp: slaves_ok_def nestedModules_def split: if_splits)
  then have "concatM (getTypeDefs h) (nestedModules h ns) = Some (concat (map (typeDefs h) (nestedModules h ns)))"
    by (intro concatM_total node) auto
  moreover have "concat (map (typeDefs h) ms) = concat (map (ownTypeDefs h) (concat (map (visited (nestedModules h)) ms)))" for ms
    by (induction ms) (auto simp: typeDefs_def)
  moreover have "\<not> list_ex (\<lambda>e. isNamespace h (snd e) \<and> \<not> isType h (snd e)) (defs (cell h ns))"
    using assms(1) node(2) by (auto simp: slaves_ok_def)
  ultimately show ?case
    by (subst getTypeDefs.simps) (simp add: typeDefs_def [of h ns] slave_modules.visited_unfold [OF assms(1), of ns])
qed

lemma typeDefs_types: "t \<in> set (typeDefs h ns) \<Longrightarrow> isType h t"
  by (auto simp: typeDefs_def ownTypeDefs_def)

definition registered :: "serializer \<Rightarrow> addr \<Rightarrow> bool" where
  "registered s t \<longleftrightarrow> s_objMap s t \<noteq> None"

lemma registered_simps [simp]:
  "registered (emit bs hs s) t = registered s t" "registered (nestedSerializer s) t = registered s t"
  "registered (shareObjMap c s) t = registered c t"
  by (simp_all add: registered_def shareObjMap_def nestedSerializer_def)

definition grows :: "serializer \<Rightarrow> serializer \<Rightarrow> bool" where
  "grows s s' \<longleftrightarrow> (\<forall>t. registered s t \<longrightarrow> registered s' t)"

text \<open>The declarations of a type that has an id were made, unless they are being made (\<open>P\<close>).\<close>

definition closedDecls :: "store \<Rightarrow> addr set \<Rightarrow> serializer \<Rightarrow> bool" where
  "closedDecls h P s \<longleftrightarrow> (\<forall>t. isType h t \<and> registered s t \<and> t \<notin> P \<longrightarrow> (\<forall>u \<in> set (typeDefs h t). registered s u))"

lemma closedDecls_grow:
  assumes "closedDecls h P s" and "grows s s'" and "\<And>t. isType h t \<Longrightarrow> registered s' t \<Longrightarrow> registered s t \<or> t \<in> P"
  shows "closedDecls h P s'"
  using assms unfolding closedDecls_def grows_def by metis

lemma writeObject_ids:
  "fst (writeObject t s) \<longleftrightarrow> \<not> registered s t"
  "registered (snd (writeObject t s)) u \<longleftrightarrow> registered s u \<or> u = t"
  by (auto simp: registered_def writeObject_def Let_def split: option.split)

lemma declHead_ids: "registered (declHead h t s) u \<longleftrightarrow> registered s u \<or> u = t \<or>
    (isModule h u \<and> owner (cell h t) = Some u \<and> isSlave h u)"
proof -
  have reg: "registered (snd (registerObject a s)) u \<longleftrightarrow> registered s u \<or> u = a" for a s
    by (auto simp: registered_def registerObject_def split: option.split)
  have ref: "registered (serializeSlaveRef h m s) u \<longleftrightarrow> registered s u \<or> u = m" for m s
    using writeObject_ids(2) [of m s u] by (auto simp: serializeSlaveRef_def split: prod.split)
  show ?thesis
    by (auto simp: declHead_def reg ref Let_def split: option.splits)
qed

lemma declare_types:
  assumes "\<And>t u u'. t \<in> set ts \<Longrightarrow> rec t u = Some u' \<Longrightarrow> (\<forall>P. closedDecls h P u \<longrightarrow>
      closedDecls h P u' \<and> grows u u' \<and> (\<forall>v \<in> set (typeDefs h t). registered u' v))"
    and "iterM (\<lambda>t u. if fst (writeObject t u) then rec t (declHead h t (snd (writeObject t u)))
        else Some (snd (writeObject t u))) ts s = Some s'"
    and "closedDecls h P s" and "\<forall>t \<in> set ts. isType h t"
  shows "closedDecls h P s' \<and> grows s s' \<and> (\<forall>t \<in> set ts. registered s' t)"
  using assms
proof (induction ts arbitrary: s)
  case Nil
  then show ?case by (simp add: grows_def)
next
  case (Cons t ts)
  let ?u = "snd (writeObject t s)" and ?v = "declHead h t (snd (writeObject t s))"
  have "\<exists>u'. iterM (\<lambda>t u. if fst (writeObject t u) then rec t (declHead h t (snd (writeObject t u)))
        else Some (snd (writeObject t u))) ts u' = Some s' \<and>
      closedDecls h P u' \<and> grows s u' \<and> registered u' t"
  proof (cases "registered s t")
    case True
    then have "grows s ?u" "closedDecls h P ?u"
      using closedDecls_grow [OF Cons.prems(3), of ?u] by (auto simp: grows_def writeObject_ids)
    with True Cons.prems(2) show ?thesis by (intro exI [of _ ?u]) (simp add: writeObject_ids)
  next
    case False
    then obtain u' where u': "rec t ?v = Some u'" and rest: "iterM (\<lambda>t u. if fst (writeObject t u) then rec t (declHead h t (snd (writeObject t u)))
        else Some (snd (writeObject t u))) ts u' = Some s'"
      using Cons.prems(2) by (auto simp: writeObject_ids bind_eq_Some_conv)
    have v: "grows s ?v" "registered ?v t" by (auto simp: grows_def declHead_ids writeObject_ids)
    have "closedDecls h (insert t P) s" using Cons.prems(3) unfolding closedDecls_def by blast
    then have "closedDecls h (insert t P) ?v"
      by (rule closedDecls_grow [OF _ v(1)]) (auto simp: declHead_ids writeObject_ids)
    with Cons.prems(1) [OF _ u'] have fin: "closedDecls h (insert t P) u'" "grows ?v u'" "\<forall>w \<in> set (typeDefs h t). registered u' w"
      by auto
    then have "closedDecls h P u'" by (auto simp: closedDecls_def)
    moreover have "grows s u'" "registered u' t" using v fin(2) by (auto simp: grows_def)
    ultimately show ?thesis using rest by blast
  qed
  then obtain u' where u': "iterM (\<lambda>t u. if fst (writeObject t u) then rec t (declHead h t (snd (writeObject t u)))
        else Some (snd (writeObject t u))) ts u' = Some s'" "closedDecls h P u'" "grows s u'" "registered u' t" by blast
  from Cons.IH [OF Cons.prems(1) u'(1,2)] Cons.prems(4) have "closedDecls h P s' \<and> grows u' s' \<and> (\<forall>t \<in> set ts. registered s' t)"
    by simp
  with u'(3,4) show ?case by (auto simp: grows_def)
qed

lemma serializeTypeDecls_ids:
  assumes "slaves_ok h" and "serializeTypeDecls h ns s = Some s'" and "isType h ns \<or> isModule h ns"
  shows "\<forall>P. closedDecls h P s \<longrightarrow> closedDecls h P s' \<and> grows s s' \<and> (\<forall>t \<in> set (typeDefs h ns). registered s' t)"
proof (rule serializeTypeDecls.raw_induct [where P = "\<lambda>h ns s s'. slaves_ok h \<longrightarrow> isType h ns \<or> isModule h ns \<longrightarrow>
    (\<forall>P. closedDecls h P s \<longrightarrow> closedDecls h P s' \<and> grows s s' \<and> (\<forall>t \<in> set (typeDefs h ns). registered s' t))",
    OF _ assms(2), THEN mp, THEN mp, OF _ assms(1,3)])
  fix rec :: "store \<Rightarrow> addr \<Rightarrow> serializer \<Rightarrow> serializer option" and h ns s s'
  assume rec: "\<And>h ns s s'. rec h ns s = Some s' \<Longrightarrow> slaves_ok h \<longrightarrow> isType h ns \<or> isModule h ns \<longrightarrow>
    (\<forall>P. closedDecls h P s \<longrightarrow> closedDecls h P s' \<and> grows s s' \<and> (\<forall>t \<in> set (typeDefs h ns). registered s' t))"
    and step: "Option.bind (getTypeDefs h ns) (\<lambda>ts. iterM (\<lambda>t u. if fst (writeObject t u) then rec h t (declHead h t (snd (writeObject t u)))
        else Some (snd (writeObject t u))) ts (writeUInt (of_nat (length ts)) s)) = Some s'"
  show "slaves_ok h \<longrightarrow> isType h ns \<or> isModule h ns \<longrightarrow>
    (\<forall>P. closedDecls h P s \<longrightarrow> closedDecls h P s' \<and> grows s s' \<and> (\<forall>t \<in> set (typeDefs h ns). registered s' t))"
  proof (intro impI allI)
    fix P assume ok: "slaves_ok h" "isType h ns \<or> isModule h ns" and closed: "closedDecls h P s"
    let ?s = "writeUInt (of_nat (length (typeDefs h ns))) s"
    have loop: "iterM (\<lambda>t u. if fst (writeObject t u) then rec h t (declHead h t (snd (writeObject t u)))
        else Some (snd (writeObject t u))) (typeDefs h ns) ?s = Some s'"
      using step getTypeDefs_returns [OF ok] by simp
    have "closedDecls h P ?s" using closed by (simp add: closedDecls_def)
    from declare_types [OF _ loop this] rec ok(1) typeDefs_types [of _ h ns]
    have "closedDecls h P s' \<and> grows ?s s' \<and> (\<forall>t \<in> set (typeDefs h ns). registered s' t)" by blast
    then show "closedDecls h P s' \<and> grows s s' \<and> (\<forall>t \<in> set (typeDefs h ns). registered s' t)"
      by (simp add: grows_def)
  qed
qed

text \<open>The declarations of nested types end.\<close>

definition nesting_ok :: "store \<Rightarrow> bool" where
  "nesting_ok h \<longleftrightarrow> slaves_ok h \<and> wf (edges (typeDefs h))"

interpretation nesting: object_graph typeDefs nesting_ok
  by unfold_locales (simp add: nesting_ok_def)

lemma serializeTypeDecls_returns:
  assumes "nesting_ok h" and "isType h ns \<or> isModule h ns"
  shows "\<exists>s'. serializeTypeDecls h ns s = Some s'"
  using assms
proof (induction ns arbitrary: s rule: nesting.graph_induct)
  case (node ns)
  let ?step = "\<lambda>t u. if fst (writeObject t u) then serializeTypeDecls h t (declHead h t (snd (writeObject t u)))
        else Some (snd (writeObject t u))"
  have one: "\<exists>u'. ?step t u = Some u'" if "t \<in> set (typeDefs h ns)" for t u
    using node(1) [OF that] typeDefs_types [OF that] by simp
  have "\<exists>u'. iterM ?step ts u = Some u'" if "set ts \<subseteq> set (typeDefs h ns)" for ts u
    using that
  proof (induction ts arbitrary: u)
    case (Cons t ts)
    from Cons.prems have "t \<in> set (typeDefs h ns)" "set ts \<subseteq> set (typeDefs h ns)" by simp_all
    with one [of t u] obtain u' where "?step t u = Some u'" by blast
    with Cons.IH [OF \<open>set ts \<subseteq> _\<close>, of u'] show ?case by simp
  qed simp
  from this [OF subset_refl] getTypeDefs_returns [OF _ node(2)] assms(1) show ?case
    by (subst serializeTypeDecls.simps) (simp add: nesting_ok_def)
qed

section \<open>Dependencies come first\<close>

definition typeDeps :: "store \<Rightarrow> addr \<Rightarrow> addr list" where
  "typeDeps h t = parents (cell h t) @ (case templateType (cell h t) of None \<Rightarrow> [] | Some g \<Rightarrow> [g])"

text \<open>The types that are written with the module \<open>m\<close>.\<close>

definition inGroup :: "store \<Rightarrow> addr \<Rightarrow> addr \<Rightarrow> bool" where
  "inGroup h m t \<longleftrightarrow> outsideGroup h m t = Some False \<and> isSerializableType h t"

definition deps_ok :: "store \<Rightarrow> bool" where
  "deps_ok h \<longleftrightarrow> wf (edges (typeDeps h)) \<and> (\<forall>t. isType h t \<longrightarrow>
     (\<exists>m. getModule h t = Some (Some m)) \<and> (\<forall>d \<in> set (typeDeps h t). isType h d))"

interpretation deps: object_graph typeDeps deps_ok
  by unfold_locales (simp add: deps_ok_def)

lemma addOrdered_unfold:
  assumes "outsideGroup h m t = Some out"
  shows "addOrdered h m t st = (if t \<in> indexed st \<or> \<not> inGroup h m t then Some st
    else Option.bind (iterM (addOrdered h m) (typeDeps h t) st) (\<lambda>st2.
      Some \<lparr>ordered_types = ordered_types st2 @ [t], indexed = insert t (indexed st2)\<rparr>))"
  by (subst addOrdered.simps)
    (cases "templateType (cell h t)"; cases out; simp add: assms inGroup_def typeDeps_def iterM_append)

text \<open>No type twice, and before every type those it depends on.\<close>

definition in_order :: "store \<Rightarrow> addr \<Rightarrow> addr list \<Rightarrow> bool" where
  "in_order h m ts \<longleftrightarrow> distinct ts \<and> (\<forall>xs t ys. ts = xs @ t # ys \<longrightarrow>
     inGroup h m t \<and> isType h t \<and> (\<forall>d \<in> set (typeDeps h t). inGroup h m d \<longrightarrow> d \<in> set xs))"

definition order_ok :: "store \<Rightarrow> addr \<Rightarrow> orderedTypes \<Rightarrow> bool" where
  "order_ok h m st \<longleftrightarrow> indexed st = set (ordered_types st) \<and> in_order h m (ordered_types st)"

text \<open>What is appended by adding types.\<close>

definition extends :: "orderedTypes \<Rightarrow> orderedTypes \<Rightarrow> addr set \<Rightarrow> bool" where
  "extends st st' S \<longleftrightarrow> (\<exists>ts. ordered_types st' = ordered_types st @ ts \<and> set ts \<subseteq> S)"

lemma extends_refl [simp]: "extends st st S"
  by (simp add: extends_def)

lemma extends_trans: "extends st st' S \<Longrightarrow> extends st' st'' S \<Longrightarrow> extends st st'' S"
  unfolding extends_def by fastforce

lemma extends_mono: "extends st st' S \<Longrightarrow> S \<subseteq> T \<Longrightarrow> extends st st' T"
  unfolding extends_def by blast

lemma extends_indexed: "extends st st' S \<Longrightarrow> order_ok h m st \<Longrightarrow> order_ok h m st' \<Longrightarrow> indexed st \<subseteq> indexed st'"
  by (auto simp: extends_def order_ok_def)

lemma in_order_snoc:
  assumes "in_order h m ts" and "t \<notin> set ts" and "inGroup h m t" and "isType h t"
    and "\<And>d. d \<in> set (typeDeps h t) \<Longrightarrow> inGroup h m d \<Longrightarrow> d \<in> set ts"
  shows "in_order h m (ts @ [t])"
  unfolding in_order_def
proof (intro conjI allI impI)
  show "distinct (ts @ [t])" using assms(1,2) by (simp add: in_order_def)
next
  fix xs u ys assume split: "ts @ [t] = xs @ u # ys"
  have "inGroup h m u \<and> isType h u \<and> (\<forall>d \<in> set (typeDeps h u). inGroup h m d \<longrightarrow> d \<in> set xs)"
  proof (cases ys rule: rev_cases)
    case Nil
    with split assms(3-5) show ?thesis by auto
  next
    case (snoc ys' z)
    with split have "ts = xs @ u # ys'" by simp
    with assms(1) show ?thesis unfolding in_order_def by blast
  qed
  then show "inGroup h m u" "isType h u" "\<forall>d \<in> set (typeDeps h u). inGroup h m d \<longrightarrow> d \<in> set xs" by simp_all
qed

lemma iterM_adds:
  assumes "\<And>t st. t \<in> set ts \<Longrightarrow> order_ok h m st \<Longrightarrow> \<exists>st'. f t st = Some st' \<and> order_ok h m st' \<and>
      extends st st' S \<and> (Q t \<longrightarrow> G t \<subseteq> indexed st')"
    and "order_ok h m st"
  shows "\<exists>st'. iterM f ts st = Some st' \<and> order_ok h m st' \<and> extends st st' S \<and> (\<forall>t \<in> set ts. Q t \<longrightarrow> G t \<subseteq> indexed st')"
  using assms
proof (induction ts arbitrary: st)
  case (Cons t ts)
  from Cons.prems(1) [of t st] Cons.prems(2) obtain st1 where
    st1: "f t st = Some st1" "order_ok h m st1" "extends st st1 S" "Q t \<longrightarrow> G t \<subseteq> indexed st1" by auto
  from Cons.IH [OF Cons.prems(1) st1(2)] obtain st2 where
    st2: "iterM f ts st1 = Some st2" "order_ok h m st2" "extends st1 st2 S" "\<forall>t \<in> set ts. Q t \<longrightarrow> G t \<subseteq> indexed st2" by auto
  from extends_indexed [OF st2(3) st1(2) st2(2)] st1(4) have "Q t \<longrightarrow> G t \<subseteq> indexed st2" by blast
  with st1(1) st2 extends_trans [OF st1(3) st2(3)] show ?case by auto
qed simp

lemma addOrdered_spec:
  assumes "deps_ok h" and "isType h t" and "order_ok h m st"
  shows "\<exists>st'. addOrdered h m t st = Some st' \<and> order_ok h m st' \<and> extends st st' {x. reaches (typeDeps h) t x} \<and>
    (inGroup h m t \<longrightarrow> {t} \<subseteq> indexed st')"
  using assms
proof (induction t arbitrary: st rule: deps.graph_induct)
  case (node t)
  from assms(1) node(2) obtain md where "getModule h t = Some (Some md)" by (auto simp: deps_ok_def)
  then have "outsideGroup h m t = Some (getMaster h md \<noteq> m)" by (simp add: outsideGroup_def)
  note unfold = addOrdered_unfold [OF this, of st]
  show ?case
  proof (cases "t \<in> indexed st \<or> \<not> inGroup h m t")
    case True
    with unfold node(3) show ?thesis by auto
  next
    case False
    have sub: "{x. reaches (typeDeps h) d x} \<subseteq> {x. reaches (typeDeps h) t x \<and> x \<noteq> t}" if "d \<in> set (typeDeps h t)" for d
      using that reaches_step [of d "typeDeps h" t] deps.no_self_parent [OF assms(1) that] by blast
    have dep: "\<exists>st'. addOrdered h m d st = Some st' \<and> order_ok h m st' \<and> extends st st' {x. reaches (typeDeps h) t x \<and> x \<noteq> t} \<and>
        (inGroup h m d \<longrightarrow> {d} \<subseteq> indexed st')" if "d \<in> set (typeDeps h t)" "order_ok h m st" for d st
    proof -
      from assms(1) node(2) that(1) have "isType h d" by (auto simp: deps_ok_def)
      from node(1) [OF that(1) this that(2)] extends_mono [OF _ sub [OF that(1)]] show ?thesis by blast
    qed
    from iterM_adds [where S = "{x. reaches (typeDeps h) t x \<and> x \<noteq> t}" and Q = "inGroup h m" and G = "\<lambda>d. {d}", OF dep node(3)]
    obtain st1 where st1: "iterM (addOrdered h m) (typeDeps h t) st = Some st1" "order_ok h m st1"
      "extends st st1 {x. reaches (typeDeps h) t x \<and> x \<noteq> t}" "\<forall>d \<in> set (typeDeps h t). inGroup h m d \<longrightarrow> {d} \<subseteq> indexed st1"
      by blast
    let ?st = "\<lparr>ordered_types = ordered_types st1 @ [t], indexed = insert t (indexed st1)\<rparr>"
    have new: "t \<notin> set (ordered_types st1)" using st1(3) False node(3) by (auto simp: extends_def order_ok_def)
    have "in_order h m (ordered_types st1 @ [t])"
      by (rule in_order_snoc) (use st1(2,4) new False node(2) in \<open>auto simp: order_ok_def\<close>)
    then have "order_ok h m ?st" using st1(2) by (simp add: order_ok_def)
    moreover have "extends st ?st {x. reaches (typeDeps h) t x}"
      using st1(3) by (auto simp: extends_def)
    moreover have "addOrdered h m t st = Some ?st" using unfold False st1(1) by simp
    ultimately show ?thesis by auto
  qed
qed

text \<open>The types defined in a namespace under their own names.\<close>

definition subTypes :: "store \<Rightarrow> addr \<Rightarrow> addr list" where
  "subTypes h ns = map snd (filter (\<lambda>e. isType h (snd e) \<and> \<not> isAlias h ns (snd e) (fst e)) (defs (cell h ns)))"

definition subTypes_ok :: "store \<Rightarrow> bool" where
  "subTypes_ok h \<longleftrightarrow> wf (edges (subTypes h))"

interpretation subs: object_graph subTypes subTypes_ok
  by unfold_locales (simp add: subTypes_ok_def)

definition groupBelow :: "store \<Rightarrow> addr \<Rightarrow> addr \<Rightarrow> addr set" where
  "groupBelow h m ns = {t. \<exists>u \<in> set (subTypes h ns). reaches (subTypes h) u t \<and> inGroup h m t}"

lemma subTypes_types: "t \<in> set (subTypes h ns) \<Longrightarrow> isType h t"
  by (auto simp: subTypes_def)

lemma getOrderedTypes_spec:
  assumes "subTypes_ok h" and "deps_ok h" and "order_ok h m st"
  shows "\<exists>st'. getOrderedTypes h m ns st = Some st' \<and> order_ok h m st' \<and> extends st st' UNIV \<and> groupBelow h m ns \<subseteq> indexed st'"
  using assms(1,3)
proof (induction ns arbitrary: st rule: subs.graph_induct)
  case (node ns)
  let ?f = "\<lambda>t st. Option.bind (addOrdered h m t st) (getOrderedTypes h m t)"
  have one: "\<exists>st'. ?f t st = Some st' \<and> order_ok h m st' \<and> extends st st' UNIV \<and>
      (True \<longrightarrow> {x. reaches (subTypes h) t x \<and> inGroup h m x} \<subseteq> indexed st')"
    if "t \<in> set (subTypes h ns)" "order_ok h m st" for t st
  proof -
    from addOrdered_spec [OF assms(2) subTypes_types [OF that(1)] that(2)] obtain st1 where
      st1: "addOrdered h m t st = Some st1" "order_ok h m st1" "extends st st1 {x. reaches (typeDeps h) t x}"
        "inGroup h m t \<longrightarrow> {t} \<subseteq> indexed st1" by blast
    from node(1) [OF that(1) st1(2)] obtain st2 where
      st2: "getOrderedTypes h m t st1 = Some st2" "order_ok h m st2" "extends st1 st2 UNIV" "groupBelow h m t \<subseteq> indexed st2" by blast
    have "extends st st2 UNIV" using extends_trans [OF extends_mono [OF st1(3)] st2(3)] by simp
    moreover have "{x. reaches (subTypes h) t x \<and> inGroup h m x} \<subseteq> indexed st2"
    proof
      fix x assume x: "x \<in> {x. reaches (subTypes h) t x \<and> inGroup h m x}"
      then have "x = t \<or> x \<in> groupBelow h m t" using reaches_unfold [of "subTypes h" t x] by (auto simp: groupBelow_def)
      then show "x \<in> indexed st2"
        using x st1(4) st2(4) extends_indexed [OF st2(3) st1(2) st2(2)] by auto
    qed
    ultimately show ?thesis using st1(1) st2(1,2) by simp
  qed
  from iterM_adds [where Q = "\<lambda>_. True" and G = "\<lambda>t. {x. reaches (subTypes h) t x \<and> inGroup h m x}" and S = UNIV, OF one node(2)]
  obtain st' where "iterM ?f (subTypes h ns) st = Some st'" "order_ok h m st'" "extends st st' UNIV"
    "\<forall>t \<in> set (subTypes h ns). {x. reaches (subTypes h) t x \<and> inGroup h m x} \<subseteq> indexed st'" by blast
  then show ?case by (subst getOrderedTypes.simps) (auto simp: subTypes_def [symmetric] groupBelow_def)
qed

lemma moduleTypes_spec:
  assumes "subTypes_ok h" and "deps_ok h"
  shows "\<exists>st. moduleTypes h m = Some st \<and> order_ok h m st \<and> (\<forall>ns \<in> insert m (set (slaves (cell h m))). groupBelow h m ns \<subseteq> indexed st)"
proof -
  have start: "order_ok h m noTypes" by (simp add: order_ok_def noTypes_def in_order_def)
  from iterM_adds [where Q = "\<lambda>_. True" and G = "groupBelow h m" and S = UNIV and f = "getOrderedTypes h m", OF _ start, of "slaves (cell h m)"]
    getOrderedTypes_spec [OF assms]
  obtain st1 where st1: "iterM (getOrderedTypes h m) (slaves (cell h m)) noTypes = Some st1" "order_ok h m st1"
    "\<forall>ns \<in> set (slaves (cell h m)). groupBelow h m ns \<subseteq> indexed st1" by blast
  from getOrderedTypes_spec [OF assms st1(2), of m] obtain st2 where
    st2: "getOrderedTypes h m m st1 = Some st2" "order_ok h m st2" "extends st1 st2 UNIV" "groupBelow h m m \<subseteq> indexed st2" by blast
  from extends_indexed [OF st2(3) st1(2) st2(2)] st1(3) st2(4) have
    "\<forall>ns \<in> insert m (set (slaves (cell h m))). groupBelow h m ns \<subseteq> indexed st2" by blast
  with st1(1) st2(1,2) show ?thesis by (simp add: moduleTypes_def)
qed

section \<open>The types of a module in the meta-data\<close>

text \<open>A type of the group is defined in a module of the group or in a type of the group.\<close>

definition typesStored :: "store \<Rightarrow> addr \<Rightarrow> bool" where
  "typesStored h m \<longleftrightarrow> (\<forall>t. isType h t \<and> inGroup h m t \<longrightarrow> (\<exists>w. owner (cell h t) = Some w \<and>
     t \<in> set (subTypes h w) \<and> (w \<in> insert m (set (slaves (cell h m))) \<or> isType h w \<and> inGroup h m w)))"

lemma typesStoredE:
  assumes "typesStored h m" and "isType h t" and "inGroup h m t"
  obtains w where "owner (cell h t) = Some w" "t \<in> set (subTypes h w)" "w \<in> set (outwards h t)"
    "w \<in> insert m (set (slaves (cell h m))) \<or> isType h w \<and> inGroup h m w"
proof -
  from assms obtain w where w: "owner (cell h t) = Some w" "t \<in> set (subTypes h w)"
    "w \<in> insert m (set (slaves (cell h m))) \<or> isType h w \<and> inGroup h m w" unfolding typesStored_def by blast
  have "w \<in> set (outwards h t)" using w(1) assms(2) by (simp add: outwards_def)
  from that [OF w(1,2) this w(3)] show thesis .
qed

lemma group_registered:
  assumes "owners_ok h" and "typesStored h m" and "slaves_ok h" and "isModule h m" and "closedDecls h {} s"
    and "\<forall>t \<in> set (typeDefs h m). registered s t" and "isType h t" and "inGroup h m t"
  shows "registered s t"
  using assms(1,7,8)
proof (induction t rule: scopes.graph_induct)
  case (node t)
  obtain w where w: "owner (cell h t) = Some w" "t \<in> set (subTypes h w)" "w \<in> set (outwards h t)"
    "w \<in> insert m (set (slaves (cell h m))) \<or> isType h w \<and> inGroup h m w"
    by (rule typesStoredE [OF assms(2) node(2,3)])
  have own: "t \<in> set (ownTypeDefs h w)" using w(1,2) node(2,3) by (auto simp: ownTypeDefs_def subTypes_def inGroup_def)
  have sub: "set (ownTypeDefs h v) \<subseteq> set (typeDefs h u)" if "reaches (nestedModules h) u v" for u v
    using that by (auto simp: typeDefs_def slave_modules.set_visited [OF assms(3)])
  from w(4) show ?case
  proof
    assume "w \<in> insert m (set (slaves (cell h m)))"
    then have "reaches (nestedModules h) m w"
      using assms(4) reaches_step [of w "nestedModules h" m w] by (auto simp: nestedModules_def)
    with sub own assms(6) show ?thesis by blast
  next
    assume type: "isType h w \<and> inGroup h m w"
    from node(1) [OF w(3)] type have "registered s w" by blast
    with assms(5) type have "\<forall>u \<in> set (typeDefs h w). registered s u" unfolding closedDecls_def by blast
    with sub [of w w] own show ?thesis by auto
  qed
qed

lemma group_below:
  assumes "owners_ok h" and "typesStored h m" and "isType h t" and "inGroup h m t"
  shows "\<exists>ns \<in> insert m (set (slaves (cell h m))). t \<in> groupBelow h m ns"
  using assms(1,3,4)
proof (induction t rule: scopes.graph_induct)
  case (node t)
  obtain w where w: "owner (cell h t) = Some w" "t \<in> set (subTypes h w)" "w \<in> set (outwards h t)"
    "w \<in> insert m (set (slaves (cell h m))) \<or> isType h w \<and> inGroup h m w"
    by (rule typesStoredE [OF assms(2) node(2,3)])
  from w(4) show ?case
  proof
    assume "w \<in> insert m (set (slaves (cell h m)))"
    moreover have "t \<in> groupBelow h m w" using w(2) node(3) reaches_refl [of "subTypes h" t] unfolding groupBelow_def by blast
    ultimately show ?thesis by blast
  next
    assume type: "isType h w \<and> inGroup h m w"
    from node(1) [OF w(3)] type obtain ns u where
      u: "ns \<in> insert m (set (slaves (cell h m)))" "u \<in> set (subTypes h ns)" "reaches (subTypes h) u w"
      by (auto simp: groupBelow_def)
    have "reaches (subTypes h) u t"
      by (rule reaches_trans [OF u(3)]) (rule reaches_step [of t], use w(2) in simp_all)
    with u(1,2) node(3) show ?thesis by (auto simp: groupBelow_def)
  qed
qed

text \<open>
  C36. Writing the types of a module to the meta-data: the declarations and the array of type
  definitions are finished; the array has exactly the types written with the module, each once; a type
  comes after the base classes and the generic it is made of when these are written with the module too,
  and each has the id that its declaration gave it, which \<open>TypeDef::serializeDef\<close> checks. The tables of
  modules and types have no namespaces but types, which \<open>getTypeDefs\<close> checks; the graphs of slaves, nested
  types, base classes and owners are acyclic, every type has a module, and a type of the group is in the
  table of its owner, which is a module or a type of the group.
\<close>

theorem module_types_written:
  assumes "isModule h m" and "nesting_ok h" and "subTypes_ok h" and "deps_ok h" and "owners_ok h" and "typesStored h m"
    and "\<forall>t. isType h t \<longrightarrow> s_objMap s t = None"
  shows "\<exists>s' st. serializeTypeDecls h m s = Some s' \<and> moduleTypes h m = Some st \<and>
    distinct (ordered_types st) \<and> set (ordered_types st) = {t. isType h t \<and> inGroup h m t} \<and>
    (\<forall>xs t ys. ordered_types st = xs @ t # ys \<longrightarrow> getObjectId t s' \<noteq> -1 \<and>
       (\<forall>d \<in> set (typeDeps h t). inGroup h m d \<longrightarrow> d \<in> set xs))"
proof -
  have slaves: "slaves_ok h" using assms(2) by (simp add: nesting_ok_def)
  from serializeTypeDecls_returns [OF assms(2), of m s] assms(1) obtain s' where s': "serializeTypeDecls h m s = Some s'" by blast
  from moduleTypes_spec [OF assms(3,4)] obtain st where st: "moduleTypes h m = Some st" "order_ok h m st"
    "\<forall>ns \<in> insert m (set (slaves (cell h m))). groupBelow h m ns \<subseteq> indexed st" by blast
  have "closedDecls h {} s" unfolding closedDecls_def registered_def using assms(7) by metis
  with serializeTypeDecls_ids [OF slaves s'] assms(1) have ids: "closedDecls h {} s'" "\<forall>t \<in> set (typeDefs h m). registered s' t"
    by blast+
  have order: "in_order h m (ordered_types st)" "indexed st = set (ordered_types st)" using st(2) by (simp_all add: order_ok_def)
  have "t \<in> set (ordered_types st)" if "isType h t" "inGroup h m t" for t
    using group_below [OF assms(5,6) that] st(3) order(2) by blast
  moreover have "isType h t \<and> inGroup h m t" if "t \<in> set (ordered_types st)" for t
    using order(1) split_list [OF that] unfolding in_order_def by blast
  ultimately have all: "set (ordered_types st) = {t. isType h t \<and> inGroup h m t}" by blast
  have "getObjectId t s' \<noteq> -1" if "t \<in> set (ordered_types st)" for t
    using group_registered [OF assms(5,6) slaves assms(1) ids, of t] that all
    by (auto simp: registered_def getObjectId_def split: option.split)
  then have "\<forall>xs t ys. ordered_types st = xs @ t # ys \<longrightarrow> getObjectId t s' \<noteq> -1 \<and>
       (\<forall>d \<in> set (typeDeps h t). inGroup h m d \<longrightarrow> d \<in> set xs)"
    using order(1) unfolding in_order_def by auto
  with s' st(1) all order(1) show ?thesis by (auto simp: in_order_def)
qed

text \<open>A module with a class \<open>A\<close> derived from the class \<open>B\<close> after it.\<close>

definition twoClasses :: store where
  "twoClasses = \<lparr>cell = (\<lambda>a.
     if a = 0 then (newModuleDef ''m'' None)\<lparr>defs := [(''A'', 1), (''B'', 2)]\<rparr>
     else if a = 1 then (newTypeDef None ''A'' False 0)\<lparr>owner := Some 0, parents := [2]\<rparr>
     else if a = 2 then (newTypeDef None ''B'' False 0)\<lparr>owner := Some 0\<rparr>
     else blankObj), nextAddr = 3\<rparr>"

lemmas twoClasses_simps = twoClasses_def newModuleDef_def newTypeDef_def blankObj_def

lemma twoClasses_cells: "isModule twoClasses 0" "isType twoClasses t \<longleftrightarrow> t = 1 \<or> t = 2"
  "owner (cell twoClasses t) = (if t = 1 \<or> t = 2 then Some 0 else None)" "templateType (cell twoClasses t) = None"
  "parents (cell twoClasses t) = (if t = 1 then [2] else [])" "slaves (cell twoClasses t) = []"
  "defs (cell twoClasses t) = (if t = 0 then [(''A'', 1), (''B'', 2)] else [])" "meta (cell twoClasses t) = None"
  "isModule twoClasses t \<longleftrightarrow> t = 0" "master (cell twoClasses t) = None"
  "kind (cell twoClasses t) = (if t = 0 then ModuleObj else if t = 1 \<or> t = 2 then TypeObj else VarObj)"
  by (auto simp: twoClasses_simps)

lemma twoClasses_subs: "subTypes twoClasses 0 = [1, 2]"
  by (simp add: subTypes_def isAlias_def twoClasses_simps)

lemma twoClasses_ok: "nesting_ok twoClasses" "subTypes_ok twoClasses" "deps_ok twoClasses" "owners_ok twoClasses"
  "typesStored twoClasses 0"
proof -
  have slaves: "slaves_ok twoClasses" unfolding slaves_ok_def
  proof (intro conjI)
    show "wf (edges (nestedModules twoClasses))"
      by (rule wf_by_rank [where r = id]) (simp add: nestedModules_def twoClasses_cells)
  qed (auto simp: twoClasses_cells isNamespace_def)
  have rank: "wf (edges succ)" if "\<And>a t. t \<in> set (succ a) \<Longrightarrow> a = 0 \<and> t \<noteq> 0" for succ :: "addr \<Rightarrow> addr list"
    by (rule wf_by_rank [where r = "\<lambda>a. if a = 0 then 1 else 0"]) (use that in fastforce)
  have "t \<in> set (typeDefs twoClasses ns) \<Longrightarrow> ns = 0 \<and> t \<noteq> 0" for ns t
  proof -
    assume "t \<in> set (typeDefs twoClasses ns)"
    then obtain v where "reaches (nestedModules twoClasses) ns v" "t \<in> set (ownTypeDefs twoClasses v)"
      by (auto simp: typeDefs_def slave_modules.set_visited [OF slaves])
    moreover have "nestedModules twoClasses = (\<lambda>_. [])" by (auto simp: nestedModules_def twoClasses_cells)
    ultimately have "t \<in> set (ownTypeDefs twoClasses ns)" using reaches_unfold [of "\<lambda>_. []" ns v] by simp
    then show "ns = 0 \<and> t \<noteq> 0" by (auto simp: ownTypeDefs_def twoClasses_cells split: if_splits)
  qed
  with slaves rank show "nesting_ok twoClasses" by (simp add: nesting_ok_def)
  show "subTypes_ok twoClasses" unfolding subTypes_ok_def
    by (rule rank) (auto simp: subTypes_def twoClasses_cells split: if_splits)
  have mods: "getModule twoClasses t = Some (Some 0)" if "isType twoClasses t" for t
    using that by (simp add: getModule.simps twoClasses_cells split: if_splits)
  show "deps_ok twoClasses" unfolding deps_ok_def
  proof (intro conjI allI impI)
    show "wf (edges (typeDeps twoClasses))"
      by (rule wf_by_rank [where r = "\<lambda>a. 3 - a"]) (auto simp: typeDeps_def twoClasses_cells split: if_splits)
  qed (use mods in \<open>auto simp: typeDeps_def twoClasses_cells split: if_splits\<close>)
  show "owners_ok twoClasses" unfolding owners_ok_def
    by (rule wf_by_rank [where r = id]) (auto simp: outwards_def twoClasses_cells split: if_splits)
  show "typesStored twoClasses 0" unfolding typesStored_def
    using twoClasses_subs by (auto simp: twoClasses_cells)
qed

lemma module_types_written_witness:
  "\<exists>s' st. serializeTypeDecls twoClasses 0 (snd (registerObject 0 newSerializer)) = Some s' \<and>
     moduleTypes twoClasses 0 = Some st \<and> set (ordered_types st) = {1, 2} \<and> ordered_types st \<noteq> [1, 2]"
proof -
  have "\<forall>t. isType twoClasses t \<longrightarrow> s_objMap (snd (registerObject 0 newSerializer)) t = None"
    by (auto simp: registerObject_def newSerializer_def twoClasses_cells)
  from module_types_written [OF twoClasses_cells(1) twoClasses_ok this] obtain s' st where
    st: "serializeTypeDecls twoClasses 0 (snd (registerObject 0 newSerializer)) = Some s'" "moduleTypes twoClasses 0 = Some st"
      "set (ordered_types st) = {t. isType twoClasses t \<and> inGroup twoClasses 0 t}"
      "\<And>xs t ys d. ordered_types st = xs @ t # ys \<Longrightarrow> d \<in> set (typeDeps twoClasses t) \<Longrightarrow> inGroup twoClasses 0 d \<Longrightarrow> d \<in> set xs"
    by blast
  have group: "inGroup twoClasses 0 t" if "t = 1 \<or> t = 2" for t
    using that by (auto simp: inGroup_def outsideGroup_def getModule.simps twoClasses_cells getMaster_def
        isSerializableType_def isSerializable_def startsWith_def) (auto simp: twoClasses_simps)
  have "ordered_types st \<noteq> [1, 2]"
    using st(4) [of "[]" 1 "[2]" 2] group by (auto simp: typeDeps_def twoClasses_cells)
  with st(1,2,3) group show ?thesis by (auto simp: twoClasses_cells)
qed

end
