(* ===== verification/Parser_State.thy ===== *)
theory Parser_State
  imports Context_Lookup Toker_Get
begin

text \<open>
  The state of the parser (\<open>parser/Parser.h\<close>) and the operations of the context that it uses to
  give names and operators their meaning. The state has two parts: what is read (the tokenizer and
  the documentation collected) and what is built. Operations on the second part cannot touch the tokens.

  The classes of expressions and the builder are an argument: the record \<open>penv\<close> has a field for
  every virtual member of \<open>Expr\<close>, every constructor and every operation of the context that the
  parser calls and that is not modelled here. Expressions are values of an arbitrary type.
\<close>

section \<open>State\<close>

record 'c pstate =
  ps_toker :: toker
  ps_doc :: string
  ps_nest :: nat
  ps_sem :: "'c sems"

type_synonym ('c, 'a) parser = "(perror, 'c pstate, 'a) action"

text \<open>
  A definition as a reference holds it: one of the store, or the overload made by
  \<open>ExplicitlyScopedDef\<close> to stand for an overload that was named with its scope.
\<close>

datatype vdef = Plain addr | Scoped addr

text \<open>\<open>DerefPtr::cast\<close> and \<open>AttrDerefPtr::cast\<close>, with the definition or the getter.\<close>

datatype derefKind = NoDeref | FieldDeref addr | AttrDeref "addr option"

record ('e, 'c) penv =
  junk :: "toker \<Rightarrow> locals"
  \<comment> \<open>the construct: built-in types, modules to import\<close>
  overloadType :: "addr option"
  voidptrType :: addr
  voidType :: addr
  boolType :: addr
  byteType :: addr
  importer :: "'c importer"
  isGeneric :: "store \<Rightarrow> addr \<Rightarrow> bool"
  constVar :: "store \<Rightarrow> addr \<Rightarrow> bool"
  \<comment> \<open>members of expressions\<close>
  exprs :: "'e exprOps"
  getType :: "'e \<Rightarrow> ('c, addr option) sem"
  isIntConst :: "'e \<Rightarrow> bool"
  isFloatConst :: "'e \<Rightarrow> bool"
  isOtherConst :: "'e \<Rightarrow> bool"
  refDef :: "'e \<Rightarrow> vdef option"
  derefOf :: "'e \<Rightarrow> derefKind"
  foldConstants :: "'e \<Rightarrow> 'e option"
  makeCall :: "'e \<Rightarrow> 'e list \<Rightarrow> ('c, 'e) sem"
  makeAssignment :: "'e \<Rightarrow> 'e \<Rightarrow> ('c, 'e) sem"
  \<comment> \<open>constructors of expressions\<close>
  constValue :: "addr \<Rightarrow> 'e"
  newVarRef :: "vdef \<Rightarrow> 'e"
  newFieldRef :: "'e \<Rightarrow> addr \<Rightarrow> 'e"
  newDeref :: "'e \<Rightarrow> addr \<Rightarrow> 'e"
  newAttrDeref :: "'e \<Rightarrow> addr option \<Rightarrow> addr option \<Rightarrow> 'e"
  newFuncCall :: "addr \<Rightarrow> 'e list \<Rightarrow> 'e option \<Rightarrow> 'e"
  newAssign :: "'e option \<Rightarrow> addr \<Rightarrow> 'e \<Rightarrow> 'e"
  newTernary :: "'e \<Rightarrow> 'e \<Rightarrow> 'e option \<Rightarrow> addr option \<Rightarrow> 'e"
  newSafeNav :: "'e \<Rightarrow> 'e \<Rightarrow> 'e \<Rightarrow> 'e"
  newMulti :: "'e list \<Rightarrow> addr option \<Rightarrow> 'e"
  newNull :: "addr option \<Rightarrow> 'e"
  newInt :: "64 word \<Rightarrow> addr option \<Rightarrow> 'e"
  newUInt :: "64 word \<Rightarrow> 'e"
  newFloat :: "string \<Rightarrow> 'e"
  newSetRegister :: "'e \<Rightarrow> 'e \<Rightarrow> 'e"
  newGetRegister :: "addr option \<Rightarrow> ('c, 'e) sem"
  getStrConst :: "string \<Rightarrow> ('c, 'e) sem"
  \<comment> \<open>other operations of the context and of types\<close>
  emitVarDef :: "addr option \<Rightarrow> token \<Rightarrow> ('c, addr) sem"
  setVarDoc :: "addr \<Rightarrow> string \<Rightarrow> ('c, unit) sem"
  emitConstSequence :: "addr \<Rightarrow> 'e list \<Rightarrow> ('c, 'e) sem"
  getSpecialization :: "addr \<Rightarrow> addr list \<Rightarrow> ('c, addr) sem"
  popErrorContext :: "('c, unit) sem"
  \<comment> \<open>parts of the parser that are not modelled\<close>
  parseAnnotation :: "('c, unit) parser"
  parseFuncDef :: "addr \<Rightarrow> token \<Rightarrow> string \<Rightarrow> ('c, unit) parser"
  parseClassDef :: "('c, addr) parser"

abbreviation exprType :: "('e, 'c) penv \<Rightarrow> 'e \<Rightarrow> addr option" where
  "exprType env \<equiv> valType (exprs env)"

section \<open>Tokens\<close>

text \<open>An operation on the part of the state that is built.\<close>

definition sem :: "('c, 'a) sem \<Rightarrow> ('c, 'a) parser" where
  "sem = onPart ps_sem (\<lambda>p s. s\<lparr>ps_sem := p\<rparr>)"

text \<open>\<open>toker.getToken()\<close> and \<open>toker.putBack(tok)\<close>\<close>

definition rawToken :: "('e, 'c) penv \<Rightarrow> ('c, token) parser" where
  "rawToken env s = Some (case getToken (junk env) (ps_toker s) of
     Inl e \<Rightarrow> Inl (LexFailed e) | Inr (tok, t) \<Rightarrow> Inr (tok, s\<lparr>ps_toker := t\<rparr>))"

definition unread :: "token \<Rightarrow> ('c, unit) parser" where
  "unread tok = modifies (\<lambda>s. s\<lparr>ps_toker := putBack tok (ps_toker s)\<rparr>)"

text \<open>
  \<open>getToken()\<close>: documentation is collected, and annotations, which can occur anywhere, are parsed
  and run.
\<close>

partial_function (option) skipDocs :: "('e, 'c) penv \<Rightarrow> ('c, token) parser" where
  "skipDocs env s = andBind (rawToken env) (\<lambda>tok.
     if tok_is T_doc tok then andBind (modifies (\<lambda>s. s\<lparr>ps_doc := ps_doc s @ tok_data tok\<rparr>)) (\<lambda>_. skipDocs env)
     else yields tok) s"

partial_function (option) skipAnnotations :: "('e, 'c) penv \<Rightarrow> token \<Rightarrow> ('c, token) parser" where
  "skipAnnotations env tok s =
     (if tok_is T_ann tok \<or> tok_is T_popErrCtx tok then
        andBind (if tok_is T_ann tok then parseAnnotation env else sem (popErrorContext env)) (\<lambda>_.
        andBind (skipDocs env) (skipAnnotations env))
      else yields tok) s"

definition nextToken :: "('e, 'c) penv \<Rightarrow> ('c, token) parser" where
  "nextToken env = andBind (skipDocs env) (skipAnnotations env)"

definition unexpected :: "token \<Rightarrow> string \<Rightarrow> ('c, 'a) parser" where
  "unexpected tok msg = throw (ErrorAt tok (''token was not expected at this time, '' @ msg))"

definition consumeDocs :: "('c, string) parser" where
  "consumeDocs s = Some (Inr (ps_doc s, s\<lparr>ps_doc := []\<rparr>))"

section \<open>Names\<close>

text \<open>The three lookups of the context; without a namespace they search the current one.\<close>

definition lookUpDef :: "('e, 'c) penv \<Rightarrow> string \<Rightarrow> addr option \<Rightarrow> ('c, addr option) sem" where
  "lookUpDef env nm srcNs =
     andBind (nsOr srcNs) (ctxLookUp (importer env) (overloadType env) True nm)"

definition lookUpFunc ::
  "('e, 'c) penv \<Rightarrow> string \<Rightarrow> 'e list \<Rightarrow> addr option \<Rightarrow> ('c, addr option \<times> 'e list) sem" where
  "lookUpFunc env nm vals srcNs =
     andBind (nsOr srcNs) (\<lambda>n. lookUpCall (importer env) (overloadType env) (exprs env) nm False n vals)"

definition lookUpPlain :: "('e, 'c) penv \<Rightarrow> string \<Rightarrow> bool \<Rightarrow> addr option \<Rightarrow> ('c, addr option) sem" where
  "lookUpPlain env nm acceptAlias srcNs =
     andBind (nsOr srcNs) (lookUpNoArgs (importer env) (overloadType env) nm acceptAlias)"

definition checkAccess :: "addr \<Rightarrow> string \<Rightarrow> ('c, unit) sem" where
  "checkAccess d nm = andBind (returning (\<lambda>s. checkAccessible (sem_store s) (sem_ctx s) d nm)) (\<lambda>r.
     case r of Inl e \<Rightarrow> throw (AccessDenied e) | Inr () \<Rightarrow> yields ())"

definition usableFrom :: "addr \<Rightarrow> ('c, bool) sem" where
  "usableFrom d = returning (\<lambda>s. isUsableFrom (sem_store s) (sem_ctx s) d)"

text \<open>\<open>isConstant()\<close> and \<open>needsReceiver()\<close>, which the classes of definitions override.\<close>

definition isConstant :: "('e, 'c) penv \<Rightarrow> store \<Rightarrow> addr \<Rightarrow> bool" where
  "isConstant env h d \<longleftrightarrow>
     kind (cell h d) \<in> {FuncObj, OverloadObj, TypeObj, ConstVarObj} \<or> constVar env h d"

definition needsReceiver :: "store \<Rightarrow> addr \<Rightarrow> bool option" where
  "needsReceiver h d = (if isOverload h d then overloadNeedsReceiver h d else Some (hasInstSlot h d))"

section \<open>References\<close>

text \<open>\<open>Context::createVarRef\<close>; the null result for a variable out of reach is \<open>None\<close>.\<close>

definition tryVarRef :: "('e, 'c) penv \<Rightarrow> addr \<Rightarrow> ('c, 'e option) sem" where
  "tryVarRef env d = andBind (returning (\<lambda>s. createVarRef (sem_store s) (sem_ctx s) d)) (\<lambda>a. yields (case a of
     ConstantValue \<Rightarrow> Some (constValue env d)
   | Reference \<Rightarrow> Some (newVarRef env (Plain d))
   | NotAccessible \<Rightarrow> None))"

definition varRef :: "('e, 'c) penv \<Rightarrow> addr \<Rightarrow> ('c, 'e) sem" where
  "varRef env d = andBind (tryVarRef env d) (\<lambda>r. case r of
     None \<Rightarrow> throw (ErrorHere ''Variable is not accessible from within this context.'')
   | Some e \<Rightarrow> yields e)"

text \<open>\<open>Context::makeThisRef\<close> with and without \<open>errorIfMissing\<close>\<close>

definition thisVar :: "('c, addr option) sem" where
  "thisVar = andBind curNs (nsLookUp ''this'')"

definition thisExpr :: "('e, 'c) penv \<Rightarrow> ('c, 'e) sem" where
  "thisExpr env = andBind thisVar (\<lambda>v. case v of
     None \<Rightarrow> throw (ErrorHere ''Instance member may not be used in a static context.'')
   | Some d \<Rightarrow> varRef env d)"

definition tryThisExpr :: "('e, 'c) penv \<Rightarrow> ('c, 'e option) sem" where
  "tryThisExpr env = andBind thisVar (\<lambda>v. case v of None \<Rightarrow> yields None | Some d \<Rightarrow> tryVarRef env d)"

text \<open>\<open>Context::createFieldRef\<close>\<close>

definition fieldRef :: "('e, 'c) penv \<Rightarrow> 'e \<Rightarrow> addr \<Rightarrow> ('c, 'e) sem" where
  "fieldRef env aggregate d =
     andBind (gets (\<lambda>s. owner (cell (sem_store s) d))) (\<lambda>w.
     andBind (gets (\<lambda>s. w \<noteq> None \<and> isType (sem_store s) (the w))) (\<lambda>inType.
     andBind (if inType then returning (\<lambda>s. case exprType env aggregate of
           None \<Rightarrow> None | Some t \<Rightarrow> isDerivedFrom (sem_store s) t (the w)) else yields False) (\<lambda>ok.
     if ok then yields (newFieldRef env aggregate d)
     else throw (ErrorHere ''Variable is not accessible from within this context.''))))"

text \<open>
  The first \<open>Parser::createVarRef\<close>, for a definition. An overload that was named with its scope has
  no functions of its own, so it needs a receiver, and is referred to like every overload.
\<close>

definition defRef :: "('e, 'c) penv \<Rightarrow> 'e option \<Rightarrow> vdef \<Rightarrow> ('c, 'e) sem" where
  "defRef env container var = (case var of
     Scoped d \<Rightarrow>
       if container \<noteq> None then throw (CheckFailed ''Non-null container creating reference for variable'')
       else yields (newVarRef env (Scoped d))
   | Plain d \<Rightarrow>
       andBind (returning (\<lambda>s. needsReceiver (sem_store s) d)) (\<lambda>needs.
       andBind (gets (\<lambda>s. isOverload (sem_store s) d)) (\<lambda>ovld.
       if needs then
         (if ovld then
            (if container \<noteq> None then throw (CheckFailed ''Non-null container creating reference for variable'')
             else varRef env d)
          else andBind (case container of Some e \<Rightarrow> yields e | None \<Rightarrow> thisExpr env) (\<lambda>receiver.
            fieldRef env receiver d))
       else varRef env d)))"

text \<open>The second \<open>Parser::createVarRef\<close>, for a name.\<close>

definition identRef :: "('e, 'c) penv \<Rightarrow> 'e option \<Rightarrow> token \<Rightarrow> string option \<Rightarrow> ('c, 'e option) sem" where
  "identRef env container ident undefinedError =
     andBind (case container of
         None \<Rightarrow> curNs
       | Some e \<Rightarrow> (case exprType env e of None \<Rightarrow> throw (NullPointer ''type'') | Some t \<Rightarrow> yields t)) (\<lambda>varNS.
     andBind (nsLookUp (tok_data ident) varNS) (\<lambda>v. case v of
       None \<Rightarrow> throw (ErrorAt ident (case undefinedError of Some msg \<Rightarrow> msg | None \<Rightarrow> ''Undefined variable''))
     | Some d \<Rightarrow>
         andBind (checkAccess d (tok_data ident)) (\<lambda>_.
         andBind (gets (\<lambda>s. isOverload (sem_store s) d)) (\<lambda>ovld.
         if ovld then
           andBind (returning (\<lambda>s. getSingleFunction (sem_store s) d)) (\<lambda>single.
             if undefinedError \<noteq> None then yields None
             else if single = None then
               throw (ErrorAt ident ''Cannot reference function because there are multiple overloads.'')
             else andBind (makeImpl d) (\<lambda>_. andBind (defRef env container (Plain d)) (\<lambda>e. yields (Some e))))
         else andBind (defRef env container (Plain d)) (\<lambda>e. yields (Some e))))))"

text \<open>\<open>Context::makeAccessor\<close>: the getter and the setter of an attribute.\<close>

definition makeAccessor :: "('e, 'c) penv \<Rightarrow> 'e \<Rightarrow> string \<Rightarrow> ('c, 'e option) sem" where
  "makeAccessor env e nm =
     andBind (lookUpFunc env (''oper .'' @ nm) [] (exprType env e)) (\<lambda>(getter, _).
     andBind (lookUpDef env (''oper .'' @ nm @ ''='') (exprType env e)) (\<lambda>found.
     andBind (gets (\<lambda>s. case found of
         Some d \<Rightarrow> if isOverload (sem_store s) d then Some d else None | None \<Rightarrow> None)) (\<lambda>setter.
     case (if getter \<noteq> None then getter else setter) of
       None \<Rightarrow> yields None
     | Some d \<Rightarrow> andBind (checkAccess d nm) (\<lambda>_. yields (Some (newAttrDeref env e setter getter))))))"

section \<open>Assignments and conditions\<close>

text \<open>\<open>AssignExpr::create\<close>, through \<open>Parser::createAssign\<close>\<close>

definition assignExpr :: "('e, 'c) penv \<Rightarrow> 'e option \<Rightarrow> addr \<Rightarrow> 'e \<Rightarrow> ('c, 'e) sem" where
  "assignExpr env aggregate d val =
     andBind (returning (\<lambda>s. deftype (cell (sem_store s) d))) (\<lambda>t. case convertTo (exprs env) val t of
       None \<Rightarrow> throw (ErrorHere ''Assigning variable from value of another type'')
     | Some v \<Rightarrow> yields (newAssign env aggregate d v))"

definition createAssign :: "('e, 'c) penv \<Rightarrow> 'e option \<Rightarrow> addr \<Rightarrow> 'e \<Rightarrow> ('c, 'e) sem" where
  "createAssign env container d val =
     andBind (gets (\<lambda>s. case owner (cell (sem_store s) d) of
       Some w \<Rightarrow> isType (sem_store s) w | None \<Rightarrow> False)) (\<lambda>inType.
     if inType then
       andBind (case container of Some e \<Rightarrow> yields e | None \<Rightarrow> thisExpr env) (\<lambda>receiver.
         assignExpr env (Some receiver) d val)
     else assignExpr env None d val)"

text \<open>\<open>Context::createTernary\<close>. The type of an expression that has none is a null pointer.\<close>

definition derives :: "addr option \<Rightarrow> addr option \<Rightarrow> ('c, bool) sem" where
  "derives t u = returning (\<lambda>s. case (t, u) of
     (Some a, Some b) \<Rightarrow> isDerivedFrom (sem_store s) a b | _ \<Rightarrow> None)"

definition convertOpt :: "('e, 'c) penv \<Rightarrow> 'e \<Rightarrow> addr option \<Rightarrow> 'e option" where
  "convertOpt env e t = Option.bind t (convertTo (exprs env) e)"

definition createTernary :: "('e, 'c) penv \<Rightarrow> 'e \<Rightarrow> 'e \<Rightarrow> 'e option \<Rightarrow> ('c, 'e) sem" where
  "createTernary env cond trueVal falseVal = (case convertTo (exprs env) cond (boolType env) of
     None \<Rightarrow> throw (ErrorHere ''Condition in ternary operator is not boolean.'')
   | Some boolCond \<Rightarrow>
      (let tt = exprType env trueVal in case falseVal of
         None \<Rightarrow> yields (newTernary env boolCond trueVal None tt)
       | Some fv \<Rightarrow>
          (let ft = exprType env fv in
           if tt = ft then yields (newTernary env boolCond trueVal (Some fv) tt)
           else andBind (derives tt ft) (\<lambda>b. if b then yields (newTernary env boolCond trueVal (Some fv) ft)
           else andBind (derives ft tt) (\<lambda>b. if b then yields (newTernary env boolCond trueVal (Some fv) tt)
           else case convertOpt env fv tt of
             Some fv' \<Rightarrow> yields (newTernary env boolCond trueVal (Some fv') tt)
           | None \<Rightarrow> (case convertOpt env trueVal ft of
               Some tv' \<Rightarrow> yields (newTernary env boolCond tv' (Some fv) ft)
             | None \<Rightarrow> throw (ErrorHere ''Value types in ternary operator are not compatible.'')))))))"

end
