(* ===== verification/Parse_Ops.thy ===== *)
theory Parse_Ops
  imports Parser_State
begin

text \<open>
  What the parser does with the operands of an operator once they are parsed
  (\<open>parser/Parser.cc\<close>): the precedence table, the constants, the functions that implement operators,
  calls of them, and assignments. None of it reads tokens.
\<close>

section \<open>Precedence\<close>

text \<open>
  The table the constructor of \<open>Parser\<close> builds; an \<open>x\<close> marks a prefix operator. The precedences are
  the enumeration \<open>noPrec\<close> (0) to \<open>unaryPrec\<close> (10).
\<close>

definition opPrecMap :: "(string \<times> nat) list" where
  "opPrecMap =
    [(''!x'', 10), (''-x'', 10), (''--x'', 10), (''++x'', 10), (''~x'', 10),
     (''*'', 9), (''/'', 9), (''%'', 9), (''+'', 8), (''<<'', 7), (''>>'', 7), (''-'', 8),
     (''=='', 6), (''!='', 6), (''<'', 6), (''>'', 6), (''<='', 6), (''>='', 6), (''is'', 6),
     (''&'', 5), (''^'', 4), (''|'', 3), (''&&'', 2), (''||'', 1)]"

abbreviation logOrPrec :: nat where "logOrPrec \<equiv> 1"

definition getPrecedence :: "string \<Rightarrow> (perror, 's, nat) action" where
  "getPrecedence oper = (case map_of opPrecMap oper of
     None \<Rightarrow> throw (CheckFailed ''got operator with no precedence'') | Some p \<Rightarrow> yields p)"

section \<open>Constants\<close>

text \<open>
  \<open>strtoull(s, NULL, base)\<close> on the text of a number token, which has digits only: the digits up to
  the first character that is none, and the largest number when the value does not fit.
\<close>

definition digitOf :: "char \<Rightarrow> nat" where
  "digitOf c = (let n = of_char c in
     if isdigit c then n - 48 else if islower c then n - 87 else if isupper c then n - 55 else 36)"

definition strtoull :: "string \<Rightarrow> nat \<Rightarrow> nat" where
  "strtoull s radix = min (2 ^ 64 - 1)
     (foldl (\<lambda>n c. n * radix + digitOf c) 0 (takeWhile (\<lambda>c. digitOf c < radix) s))"

text \<open>\<open>val[i]\<close>, the terminating zero past the last character, as the signed \<open>char\<close> it is.\<close>

definition charAt :: "string \<Rightarrow> nat \<Rightarrow> char" where
  "charAt s i = (if i < length s then s ! i else CHR 0x00)"

definition signedChar :: "char \<Rightarrow> 64 word" where
  "signedChar c = scast (byte_of_char c :: 8 word)"

definition parseConstInt :: "('e, 'c) penv \<Rightarrow> string \<Rightarrow> nat \<Rightarrow> (perror, 's, 'e) action" where
  "parseConstInt env val radix =
     (if charAt val 0 = CHR ''b'' \<and> charAt val 1 = CHR ''/'' then
        (if length val \<noteq> 3 then throw (ErrorHere ''Byte constants from strings must be exactly one byte long.'')
         else yields (newInt env (signedChar (charAt val 2)) (Some (byteType env))))
      else if charAt val 0 = CHR ''i'' \<and> charAt val 1 = CHR ''/'' then
        (if length val < 3 \<or> length val > 10 then
           throw (ErrorHere ''Integer constants from strings must be between one and 8 bytes long'')
         else yields (newInt env (fold (\<lambda>c n. or (push_bit 8 n) (signedChar c)) (drop 2 val) 0) None))
      else if strtoull val radix \<le> 2 ^ 63 - 1 then yields (newInt env (of_nat (strtoull val radix)) None)
      else yields (newUInt env (of_nat (strtoull val radix))))"

text \<open>The constant of a number token; the other tokens have none.\<close>

definition numConst :: "('e, 'c) penv \<Rightarrow> token \<Rightarrow> (perror, 's, 'e) action option" where
  "numConst env tok =
     (if tok_is T_integer tok then Some (parseConstInt env (tok_data tok) 10)
      else if tok_is T_floatLit tok then Some (yields (newFloat env (tok_data tok)))
      else if tok_is T_octalLit tok then Some (parseConstInt env (tok_data tok) 8)
      else if tok_is T_hexLit tok then Some (parseConstInt env (tok_data tok) 16)
      else if tok_is T_binLit tok then Some (parseConstInt env (tok_data tok) 2)
      else None)"

section \<open>Calls of operators\<close>

abbreviation reverseFlag :: "32 word" where "reverseFlag \<equiv> 16"

text \<open>
  \<open>lookUpBinOp\<close>: a method of the left operand, a reversed method of the right operand, a function.
  An integer constant has the weight 1, a float constant 2 and any other value 3; a method is only
  looked for on an operand that is at least as heavy as the other. The lookups can replace the
  arguments by converted ones; the vector they work on is returned.
\<close>

definition weight :: "('e, 'c) penv \<Rightarrow> 'e \<Rightarrow> nat" where
  "weight env e = (if isIntConst env e then 0 else 2) + (if isFloatConst env e then 0 else 1)"

definition lookUpBinOp :: "('e, 'c) penv \<Rightarrow> string \<Rightarrow> 'e \<Rightarrow> 'e \<Rightarrow> ('c, addr option \<times> 'e list) sem" where
  "lookUpBinOp env oper a b =
     andBind (if weight env b \<le> weight env a then
         andBind (getType env a) (lookUpFunc env (''oper '' @ oper) [b])
       else yields (None, [b])) (\<lambda>(func, es). case func of
       Some f \<Rightarrow> yields (Some f, es)
     | None \<Rightarrow>
         andBind (if weight env a \<le> weight env b then
             andBind (getType env b) (lookUpFunc env (''oper r'' @ oper) (es[0 := a]))
           else yields (None, es)) (\<lambda>(func, es). case func of
           Some f \<Rightarrow> yields (Some f, es)
         | None \<Rightarrow> lookUpFunc env (''oper '' @ oper) (es[0 := a] @ [b]) None))"

definition binCall :: "('e, 'c) penv \<Rightarrow> addr \<Rightarrow> 'e list \<Rightarrow> 'e \<Rightarrow> 'e \<Rightarrow> ('c, 'e) sem" where
  "binCall env f es l r = gets (\<lambda>s. newFuncCall env f es
     (if hasFlag (sem_store s) f methodFlag then
        Some (if hasFlag (sem_store s) f reverseFlag then r else l) else None))"

text \<open>\<open>parseBinOp\<close> after the right operand. A division by zero is only warned of.\<close>

definition binOp :: "('e, 'c) penv \<Rightarrow> 'e \<Rightarrow> token \<Rightarrow> 'e \<Rightarrow> ('c, 'e) sem" where
  "binOp env l tok r = andBind (lookUpBinOp env (tok_data tok) l r) (\<lambda>(func, es). case func of
     None \<Rightarrow> throw (ErrorAt tok ''Operator undefined.'')
   | Some f \<Rightarrow> andBind (binCall env f es l r) (\<lambda>e.
       yields (case foldConstants env e of Some e' \<Rightarrow> e' | None \<Rightarrow> e)))"

text \<open>An operator with one operand: a method of the operand, or else a function.\<close>

definition unaryCall :: "('e, 'c) penv \<Rightarrow> string \<Rightarrow> token \<Rightarrow> 'e \<Rightarrow> ('c, 'e) sem" where
  "unaryCall env symbol tok e =
     andBind (andBind (getType env e) (lookUpFunc env symbol [])) (\<lambda>(func, es).
     andBind (case func of
         Some f \<Rightarrow> yields (Some f, es)
       | None \<Rightarrow> lookUpFunc env symbol (es @ [e]) None) (\<lambda>(func, es). case func of
         None \<Rightarrow> throw (ErrorAt tok (symbol @ '' is not defined for type''))
       | Some f \<Rightarrow> gets (\<lambda>s. newFuncCall env f es
           (if hasFlag (sem_store s) f methodFlag then Some e else None))))"

definition foldedExpr :: "('e, 'c) penv \<Rightarrow> 'e \<Rightarrow> (perror, 's, 'e) action" where
  "foldedExpr env e = (case foldConstants env e of None \<Rightarrow> throw DivZero | Some e' \<Rightarrow> yields e')"

definition prefixOp :: "('e, 'c) penv \<Rightarrow> token \<Rightarrow> 'e \<Rightarrow> ('c, 'e) sem" where
  "prefixOp env tok e =
     andBind (unaryCall env (''oper '' @ tok_data tok @
       (if tok_is T_incr tok \<or> tok_is T_decr tok then ''x'' else [])) tok e) (foldedExpr env)"

definition postfixOp :: "('e, 'c) penv \<Rightarrow> 'e \<Rightarrow> token \<Rightarrow> ('c, 'e) sem" where
  "postfixOp env e tok = unaryCall env (''oper x'' @ tok_data tok) tok e"

text \<open>\<open>a !is b\<close> is \<open>!(a is b)\<close>.\<close>

definition notIs :: "('e, 'c) penv \<Rightarrow> token \<Rightarrow> 'e \<Rightarrow> ('c, 'e) sem" where
  "notIs env tok e = andBind (unaryCall env ''oper !'' tok e) (foldedExpr env)"

text \<open>The two index operators.\<close>

definition indexCall :: "('e, 'c) penv \<Rightarrow> string \<Rightarrow> token \<Rightarrow> 'e \<Rightarrow> 'e list \<Rightarrow> ('c, 'e) sem" where
  "indexCall env symbol tok e vals =
     andBind (andBind (getType env e) (lookUpFunc env symbol vals)) (\<lambda>(func, es). case func of
       None \<Rightarrow> throw (ErrorAt tok (symbol @ '' not defined with these arguments.''))
     | Some f \<Rightarrow> yields (newFuncCall env f es (Some e)))"

section \<open>Assignment\<close>

definition assignTo :: "('e, 'c) penv \<Rightarrow> 'e \<Rightarrow> token \<Rightarrow> 'e \<Rightarrow> ('c, 'e) sem" where
  "assignTo env lval tok rval =
     (let noConst = throw (ErrorAt tok ''You cannot assign to a constant, class or function.'') in
      case derefOf env lval of
        AttrDeref _ \<Rightarrow> makeAssignment env lval rval
      | FieldDeref d \<Rightarrow> andBind (gets (\<lambda>s. isConstant env (sem_store s) d)) (\<lambda>c.
          if c then noConst else makeAssignment env lval rval)
      | NoDeref \<Rightarrow> (case refDef env lval of
          Some (Scoped _) \<Rightarrow> noConst
        | Some (Plain d) \<Rightarrow> andBind (gets (\<lambda>s. isConstant env (sem_store s) d)) (\<lambda>c.
            if c then noConst else createAssign env None d rval)
        | None \<Rightarrow>
            if isIntConst env lval \<or> isFloatConst env lval \<or> isOtherConst env lval then noConst
            else throw (ErrorAt tok ''You cannot assign to an expression.'')))"

text \<open>
  \<open>makeAssign\<close>. An augmented assignment calls its own operator when there is one; otherwise it
  assigns what the plain operator, its name without the last character, yields.
\<close>

definition makeAssign :: "('e, 'c) penv \<Rightarrow> 'e \<Rightarrow> token \<Rightarrow> 'e \<Rightarrow> ('c, 'e) sem" where
  "makeAssign env lval tok rval =
     (if isAugAssign tok then
        andBind (lookUpBinOp env (tok_data tok) lval rval) (\<lambda>(func, es). case func of
          Some f \<Rightarrow> binCall env f es lval rval
        | None \<Rightarrow>
            andBind (lookUpBinOp env (butlast (tok_data tok)) lval rval) (\<lambda>(func, es). case func of
              Some f \<Rightarrow> andBind (binCall env f es lval rval) (assignTo env lval tok)
            | None \<Rightarrow> throw (ErrorAt tok ''Neither the operator nor its assignment is defined'')))
      else assignTo env lval tok rval)"

section \<open>Members\<close>

text \<open>\<open>emitOperClass\<close>\<close>

definition operClass :: "('e, 'c) penv \<Rightarrow> 'e \<Rightarrow> token \<Rightarrow> ('c, 'e) sem" where
  "operClass env e tok = andBind (lookUpPlain env ''oper class'' True (exprType env e)) (\<lambda>func. case func of
     None \<Rightarrow> throw (ErrorAt tok ''class operator not defined'')
   | Some f \<Rightarrow> yields (newFuncCall env f [] (Some e)))"

text \<open>
  \<open>wrapInNullCheck(primary, expr)\<close>: for the safe navigation operator the object is evaluated once,
  into a register, and compared to null before the member is used.
\<close>

definition wrapInNullCheck :: "('e, 'c) penv \<Rightarrow> 'e option \<Rightarrow> 'e \<Rightarrow> ('c, 'e) sem" where
  "wrapInNullCheck env primary e = (case primary of
     None \<Rightarrow> yields e
   | Some p \<Rightarrow> andBind (lookUpFunc env ''oper is'' [p, newNull env (exprType env p)] None) (\<lambda>(func, es).
       case func of
         None \<Rightarrow> throw (ErrorHere ''Expression can not be used for safe navigation operator'')
       | Some f \<Rightarrow> yields (newSafeNav env (newFuncCall env f es None) (newNull env (exprType env e)) e)))"

text \<open>\<open>checkForExternalOverload\<close>, \<open>checkForRedefine\<close> and the last part of \<open>parseDefine\<close>\<close>

definition overloadRef :: "('e, 'c) penv \<Rightarrow> store \<Rightarrow> 'e \<Rightarrow> addr option" where
  "overloadRef env h e = (case refDef env e of
     Some (Scoped d) \<Rightarrow> Some d
   | Some (Plain d) \<Rightarrow> if isOverload h d then Some d else None
   | None \<Rightarrow> None)"

definition checkForExternalOverload :: "('e, 'c) penv \<Rightarrow> 'e \<Rightarrow> ('c, unit) sem" where
  "checkForExternalOverload env val = andBind (gets (\<lambda>s. overloadRef env (sem_store s) val)) (\<lambda>r. case r of
     None \<Rightarrow> yields ()
   | Some ovld \<Rightarrow> andBind curNs (\<lambda>n. andBind (returning (\<lambda>s. isImportedIn (sem_store s) n ovld)) (\<lambda>b.
       if b then throw (ErrorHere
         ''You can not use the ':=' operator on a value that is an imported overload.'')
       else yields ())))"

definition checkForRedefine :: "token \<Rightarrow> addr \<Rightarrow> ('c, unit) sem" where
  "checkForRedefine tok d = andBind curNs (\<lambda>n. andBind (gets sem_store) (\<lambda>h.
     if isOverload h d \<and> funcs (cell h d) = [] then yields ()
     else if owner (cell h d) = Some n then throw (Redefined tok d) else yields ()))"

definition defineVar :: "('e, 'c) penv \<Rightarrow> token \<Rightarrow> 'e \<Rightarrow> ('c, addr) sem" where
  "defineVar env ident val =
     andBind (checkForExternalOverload env val) (\<lambda>_.
     if derefOf env val = AttrDeref None then
       throw (ErrorHere ''Cannot create a variable from attribute with no getter.'')
     else emitVarDef env (exprType env val) ident)"

text \<open>
  \<open>convertTypeRef\<close>, and \<open>TypeDef::getFuncDef\<close>, which finds the constructor of a class. The caller's
  argument vector is passed on by reference.
\<close>

definition convertTypeRef :: "('e, 'c) penv \<Rightarrow> 'e \<Rightarrow> ('c, addr option) sem" where
  "convertTypeRef env e = gets (\<lambda>s. case refDef env e of
     Some (Plain d) \<Rightarrow> if isType (sem_store s) d then Some d else None | _ \<Rightarrow> None)"

definition constructorOf :: "('e, 'c) penv \<Rightarrow> addr \<Rightarrow> 'e list \<Rightarrow> ('c, addr \<times> 'e list) sem" where
  "constructorOf env t vals = andBind (lookUpFunc env ''oper new'' vals (Some t)) (\<lambda>(func, es).
     andBind (gets sem_store) (\<lambda>h. case func of
       None \<Rightarrow> throw (ErrorHere ''No constructor with these argument types'')
     | Some f \<Rightarrow> if returnType (cell h f) \<noteq> Some t then
           throw (ErrorHere ''No constructor with these argument types'')
         else yields (f, es)))"

end
