(* ===== verification/Parse_Expr.thy ===== *)
theory Parse_Expr
  imports Parse_Ops
begin

text \<open>
  The recursive descent over expressions (\<open>parser/Parser.cc\<close>). The functions of the parser call each
  other, so there is one recursive function, \<open>parse\<close>, over the calls: a value of \<open>task\<close> is a call
  with its arguments, or a loop of a function with its local variables, and \<open>result\<close> is what the
  calls return. The bodies are separate definitions that take the recursive function as the argument
  \<open>rec\<close>. A call that does not return is \<open>None\<close>.
\<close>

section \<open>Calls\<close>

datatype 'e result =
    RExpr 'e
  | RExprs "'e list"
  | RDef addr
  | RTypes "addr list"
  | ROper string string
  | RDot 'e "addr option"
  | RPrimary "'e option" "addr option" token

text \<open>
  The loops: \<open>SecondaryLoop\<close> has whether the expression still is the one the primary was parsed to,
  the identifier of the primary, the precedence, the expression and the token read;
  \<open>MethodArgs\<close> and \<open>ConstSequence\<close> the values parsed and the token read; \<open>IStringLoop\<close> the
  \<open>SetRegister\<close> expression, the register and the calls made; \<open>PrimaryLoop\<close> the expression, its type and
  the sole identifier.
\<close>

datatype 'e task =
    Expression nat
  | Secondary "'e option" token nat
  | SecondaryLoop bool token nat 'e token
  | MethodArgs ttype "'e list" token
  | ConstSequence addr "'e list" token
  | IStringLoop 'e 'e "'e list"
  | Typeof
  | Specializer "addr list"
  | AnyDefLoop addr "addr option"
  | TypeSpec
  | Primary
  | PrimaryLoop 'e "addr option" token

type_synonym ('e, 'c) calls = "'e task \<Rightarrow> ('c, 'e result) parser"

definition wrongResult :: "('c, 'a) parser" where
  "wrongResult = throw (CheckFailed ''result of another call'')"

definition exprOf :: "('e, 'c) calls \<Rightarrow> 'e task \<Rightarrow> ('c, 'e) parser" where
  "exprOf rec t = andBind (rec t) (\<lambda>r. case r of RExpr e \<Rightarrow> yields e | _ \<Rightarrow> wrongResult)"

definition exprsOf :: "('e, 'c) calls \<Rightarrow> 'e task \<Rightarrow> ('c, 'e list) parser" where
  "exprsOf rec t = andBind (rec t) (\<lambda>r. case r of RExprs es \<Rightarrow> yields es | _ \<Rightarrow> wrongResult)"

definition defOf :: "('e, 'c) calls \<Rightarrow> 'e task \<Rightarrow> ('c, addr) parser" where
  "defOf rec t = andBind (rec t) (\<lambda>r. case r of RDef d \<Rightarrow> yields d | _ \<Rightarrow> wrongResult)"

definition typesOf :: "('e, 'c) calls \<Rightarrow> 'e task \<Rightarrow> ('c, addr list) parser" where
  "typesOf rec t = andBind (rec t) (\<lambda>r. case r of RTypes ts \<Rightarrow> yields ts | _ \<Rightarrow> wrongResult)"

definition primaryOf :: "('e, 'c) calls \<Rightarrow> 'e task \<Rightarrow> ('c, 'e option \<times> addr option \<times> token) parser" where
  "primaryOf rec t = andBind (rec t) (\<lambda>r. case r of RPrimary e ty ident \<Rightarrow> yields (e, ty, ident) | _ \<Rightarrow> wrongResult)"

lemma mono_results [partial_function_mono]:
  assumes "\<And>s. mono_option (\<lambda>f. R f t s)"
  shows "mono_option (\<lambda>f. exprOf (R f) t s)" "mono_option (\<lambda>f. exprsOf (R f) t s)"
    "mono_option (\<lambda>f. defOf (R f) t s)" "mono_option (\<lambda>f. typesOf (R f) t s)"
    "mono_option (\<lambda>f. primaryOf (R f) t s)"
  unfolding exprOf_def exprsOf_def defOf_def typesOf_def primaryOf_def
  by (rule mono_andBind assms option.const_mono)+

definition endToken :: token where
  "endToken = mkToken T_end [] None"

section \<open>Arguments\<close>

text \<open>\<open>parseMethodArgs\<close>: a comma after an argument is skipped, but is not needed.\<close>

definition methodArgsBody :: "('e, 'c) penv \<Rightarrow> ('e, 'c) calls \<Rightarrow> ttype \<Rightarrow> 'e list \<Rightarrow> token \<Rightarrow> ('c, 'e list) parser" where
  "methodArgsBody env rec closer vals tok =
     (if tok_type tok = closer then yields vals
      else andBind (unread tok) (\<lambda>_.
        andBind (exprOf rec (Expression 0)) (\<lambda>arg.
        andBind (nextToken env) (\<lambda>tok.
        andBind (if tok_is T_comma tok then nextToken env else yields tok) (\<lambda>tok.
        exprsOf rec (MethodArgs closer (vals @ [arg]) tok))))))"

definition parseMethodArgs :: "('e, 'c) penv \<Rightarrow> ('e, 'c) calls \<Rightarrow> ttype \<Rightarrow> 'e list \<Rightarrow> ('c, 'e list) parser" where
  "parseMethodArgs env rec closer vals =
     andBind (nextToken env) (\<lambda>tok. exprsOf rec (MethodArgs closer vals tok))"

text \<open>\<open>parseConstSequence\<close>: here the comma is needed.\<close>

definition constSequenceBody ::
  "('e, 'c) penv \<Rightarrow> ('e, 'c) calls \<Rightarrow> addr \<Rightarrow> 'e list \<Rightarrow> token \<Rightarrow> ('c, 'e) parser" where
  "constSequenceBody env rec containerType elems tok =
     (if tok_is T_rbracket tok then sem (emitConstSequence env containerType elems)
      else andBind (unread tok) (\<lambda>_.
        andBind (exprOf rec (Expression 0)) (\<lambda>elem.
        andBind (nextToken env) (\<lambda>tok.
        andBind (if tok_is T_comma tok then nextToken env
          else if \<not> tok_is T_rbracket tok then unexpected tok ''Expected comma or right bracket after element''
          else yields tok) (\<lambda>tok.
        exprOf rec (ConstSequence containerType (elems @ [elem]) tok))))))"

definition parseConstSequence :: "('e, 'c) penv \<Rightarrow> ('e, 'c) calls \<Rightarrow> addr \<Rightarrow> ('c, 'e) parser" where
  "parseConstSequence env rec containerType =
     andBind (nextToken env) (\<lambda>tok. exprOf rec (ConstSequence containerType [] tok))"

text \<open>\<open>parseConstructor\<close>\<close>

definition parseConstructor :: "('e, 'c) penv \<Rightarrow> ('e, 'c) calls \<Rightarrow> addr \<Rightarrow> ttype \<Rightarrow> ('c, 'e) parser" where
  "parseConstructor env rec t closer =
     andBind (parseMethodArgs env rec closer []) (\<lambda>vals.
     andBind (sem (constructorOf env t vals)) (\<lambda>(f, es). yields (newFuncCall env f es None)))"

text \<open>The index operators \<open>a[i]\<close> and \<open>a[i] = v\<close>, after the left bracket.\<close>

definition parseIndex :: "('e, 'c) penv \<Rightarrow> ('e, 'c) calls \<Rightarrow> 'e \<Rightarrow> token \<Rightarrow> ('c, 'e) parser" where
  "parseIndex env rec e tok =
     andBind (parseMethodArgs env rec T_rbracket []) (\<lambda>vals.
     andBind (nextToken env) (\<lambda>tok2.
     if tok_is T_assign tok2 then
       andBind (exprOf rec (Expression 0)) (\<lambda>v. sem (indexCall env ''oper []='' tok e (vals @ [v])))
     else andBind (unread tok2) (\<lambda>_. sem (indexCall env ''oper []'' tok e vals))))"

section \<open>Types\<close>

text \<open>\<open>parseTypeof\<close>: the expression is parsed in an inert context.\<close>

definition typeofBody :: "('e, 'c) penv \<Rightarrow> ('e, 'c) calls \<Rightarrow> ('c, addr) parser" where
  "typeofBody env rec =
     andBind (nextToken env) (\<lambda>tok.
     if \<not> isLParen tok then unexpected tok ''Expected parenthesized expression after typeof keyword.''
     else andBind (gets (\<lambda>s. sem_ctx (ps_sem s))) (\<lambda>outer.
       andBind (sem curNs) (\<lambda>n.
       andBind (sem (\<lambda>s. Some (case createSubContext InertScope (Some n) None (compileNS (hd outer)) outer (sem_store s) of
           Inl _ \<Rightarrow> Inl (CheckFailed ''missing namespace'')
         | Inr (c, h) \<Rightarrow> Inr ((), s\<lparr>sem_ctx := c, sem_store := h\<rparr>)))) (\<lambda>_.
       andBind (exprOf rec (Expression 0)) (\<lambda>e.
       andBind (nextToken env) (\<lambda>tok.
       if \<not> isRParen tok then unexpected tok ''Expected closing paren after typeof expression.''
       else andBind (sem (modifies (\<lambda>s. s\<lparr>sem_ctx := tl (sem_ctx s)\<rparr>))) (\<lambda>_. case exprType env e of
         None \<Rightarrow> throw (NullPointer ''type'') | Some t \<Rightarrow> yields t)))))))"

text \<open>\<open>parseSpecializer(lbrack, typeDef)\<close> and its loop over the types\<close>

definition specializerBody :: "('e, 'c) penv \<Rightarrow> ('e, 'c) calls \<Rightarrow> addr list \<Rightarrow> ('c, addr list) parser" where
  "specializerBody env rec types =
     andBind (defOf rec TypeSpec) (\<lambda>subType.
     andBind (nextToken env) (\<lambda>tok.
     if tok_is T_rbracket tok then yields (types @ [subType])
     else if \<not> tok_is T_comma tok then throw (ErrorAt tok ''comma expected in specializer list.'')
     else typesOf rec (Specializer (types @ [subType]))))"

definition parseSpecializer :: "('e, 'c) penv \<Rightarrow> ('e, 'c) calls \<Rightarrow> token \<Rightarrow> addr \<Rightarrow> ('c, addr) parser" where
  "parseSpecializer env rec lbrack typeDef =
     andBind (gets (\<lambda>s. isGeneric env (sem_store (ps_sem s)) typeDef)) (\<lambda>ok.
     if \<not> ok then throw (ErrorAt lbrack ''You cannot specialize non-generic type'')
     else andBind (typesOf rec (Specializer [])) (\<lambda>types. sem (getSpecialization env typeDef types)))"

text \<open>
  \<open>parseAnyDef\<close>. A member that is not a class is a null namespace for what follows, and its access
  is only checked when its name begins with an underscore.
\<close>

definition castType :: "addr \<Rightarrow> ('c, addr option) parser" where
  "castType d = gets (\<lambda>s. if isType (sem_store (ps_sem s)) d then Some d else None)"

definition anyDefBody :: "('e, 'c) penv \<Rightarrow> ('e, 'c) calls \<Rightarrow> addr \<Rightarrow> addr option \<Rightarrow> ('c, addr) parser" where
  "anyDefBody env rec var type =
     andBind (nextToken env) (\<lambda>tok.
     andBind (if tok_is T_lbracket tok then
         (case type of
            None \<Rightarrow> throw (ErrorAt tok ''not a generic type.'')
          | Some t \<Rightarrow> andBind (gets (\<lambda>s. isGeneric env (sem_store (ps_sem s)) t)) (\<lambda>ok.
              if \<not> ok then throw (ErrorAt tok ''not a generic type.'')
              else andBind (parseSpecializer env rec tok t) (\<lambda>u. yields (u, Some u))))
       else andBind (unread tok) (\<lambda>_. yields (var, type))) (\<lambda>(var, type).
     andBind (nextToken env) (\<lambda>tok.
     if tok_is T_dot tok \<or> tok_is T_scoping tok then
       andBind (nextToken env) (\<lambda>ident.
       if \<not> isIdent ident then throw (ErrorAt ident ''Identifier expected.'')
       else (case type of
           None \<Rightarrow> throw (NullPointer ''ns'')
         | Some t \<Rightarrow> andBind (sem (nsLookUp (tok_data ident) t)) (\<lambda>found. case found of
             None \<Rightarrow> throw (ErrorAt ident ''Identifier is not a member'')
           | Some d \<Rightarrow>
               andBind (castType d) (\<lambda>type.
               andBind (case type of
                   Some u \<Rightarrow> sem (checkAccess u (tok_data ident))
                 | None \<Rightarrow> if startsWith (CHR ''_'') (tok_data ident) then throw (NullPointer ''type'') else yields ()) (\<lambda>_.
               defOf rec (AnyDefLoop d type))))))
     else andBind (unread tok) (\<lambda>_. yields var))))"

definition parseAnyDef :: "('e, 'c) penv \<Rightarrow> ('e, 'c) calls \<Rightarrow> ('c, addr) parser" where
  "parseAnyDef env rec =
     andBind (nextToken env) (\<lambda>tok.
     if tok_is T_typeofKw tok then
       andBind (defOf rec Typeof) (\<lambda>t. defOf rec (AnyDefLoop t (Some t)))
     else if \<not> isIdent tok then unexpected tok ''name expected''
     else andBind (sem (lookUpDef env (tok_data tok) None)) (\<lambda>found. case found of
         None \<Rightarrow> throw (ErrorAt tok ''Undefined name'')
       | Some d \<Rightarrow>
           andBind (castType d) (\<lambda>type.
           andBind (sem (checkAccess d (tok_data tok))) (\<lambda>_.
           defOf rec (AnyDefLoop d type)))))"

text \<open>\<open>parseTypeSpec\<close>\<close>

definition typeSpecBody :: "('e, 'c) penv \<Rightarrow> ('e, 'c) calls \<Rightarrow> ('c, addr) parser" where
  "typeSpecBody env rec =
     andBind (parseAnyDef env rec) (\<lambda>d.
     andBind (castType d) (\<lambda>type.
     andBind (gets (\<lambda>s. isGeneric env (sem_store (ps_sem s)) d)) (\<lambda>generic.
     if type = None then throw (ErrorHere ''not a type.'')
     else if generic then throw (ErrorHere ''Generic type must be specialized to be used.'')
     else yields d)))"

section \<open>Members\<close>

text \<open>\<open>parseScoping(ns, var, lastName)\<close>: the definition found, the last name, whether there was one\<close>

partial_function (option) scopingLoop ::
  "('e, 'c) penv \<Rightarrow> addr \<Rightarrow> vdef option \<Rightarrow> token \<Rightarrow> bool \<Rightarrow> token \<Rightarrow> ('c, vdef option \<times> token \<times> bool) parser" where
  "scopingLoop env n var lastName got tok s =
     (if tok_is T_scoping tok then
        andBind (nextToken env) (\<lambda>ident.
        if \<not> isIdent ident then throw (ErrorAt ident ''identifier expected following scoping operator.'')
        else andBind (sem (nsLookUp (tok_data ident) n)) (\<lambda>found. case found of
            None \<Rightarrow> throw (ErrorAt ident ''Identifier is not a member'')
          | Some d \<Rightarrow>
              andBind (sem (checkAccess d (tok_data ident))) (\<lambda>_.
              andBind (gets (\<lambda>s. isOverload (sem_store (ps_sem s)) d)) (\<lambda>ovld.
              andBind (gets (\<lambda>s. isNamespace (sem_store (ps_sem s)) d)) (\<lambda>isNs.
              if ovld then yields (Some (Scoped d), ident, True)
              else if \<not> isNs then yields (Some (Plain d), ident, True)
              else andBind (nextToken env) (scopingLoop env d (Some (Plain d)) ident True))))))
      else andBind (unread tok) (\<lambda>_. yields (var, lastName, got))) s"

definition parseScoping :: "('e, 'c) penv \<Rightarrow> addr \<Rightarrow> ('c, vdef option \<times> token \<times> bool) parser" where
  "parseScoping env n = andBind (nextToken env) (scopingLoop env n None endToken False)"

text \<open>\<open>parseOperSpec\<close>: the name of an operator after the keyword \<open>oper\<close>, and the name its access is checked by\<close>

definition operSymbol :: "token \<Rightarrow> bool" where
  "operSymbol tok \<longleftrightarrow> tok_type tok \<in> {T_minus, T_tilde, T_bang, T_eq, T_ne, T_lt, T_le, T_ge, T_gt,
      T_plus, T_slash, T_asterisk, T_percent} \<or> isAugAssign tok \<or>
    (isIdent tok \<and> tok_data tok \<in> {''init'', ''release'', ''bind'', ''del'', ''call''})"

definition parseOperSpec :: "('e, 'c) penv \<Rightarrow> ('e, 'c) calls \<Rightarrow> ('c, string \<times> string) parser" where
  "parseOperSpec env rec =
     andBind (nextToken env) (\<lambda>tok. let ident = (if isIdent tok then tok_data tok else []) in
     if operSymbol tok then yields (''oper '' @ tok_data tok, tok_data tok)
     else if tok_is T_incr tok \<or> tok_is T_decr tok then
       andBind (nextToken env) (\<lambda>tok2.
       if \<not> isIdent tok2 \<or> tok_data tok2 \<noteq> ''x'' then unexpected tok2 ''expected an x after oper''
       else yields (''oper '' @ tok_data tok @ ''x'', ''x''))
     else if tok_is T_dot tok then
       andBind (nextToken env) (\<lambda>attr.
       if \<not> isIdent attr then unexpected attr ''Identifier expected after oper .''
       else andBind (nextToken env) (\<lambda>tok2.
         if tok_is T_assign tok2 then yields (''oper .'' @ tok_data attr @ ''='', tok_data attr)
         else andBind (unread tok2) (\<lambda>_. yields (''oper .'' @ tok_data attr, tok_data attr))))
     else if ident = ''x'' then
       andBind (nextToken env) (\<lambda>tok.
       if tok_is T_incr tok \<or> tok_is T_decr tok then yields (''oper x'' @ tok_data tok, ''x'')
       else unexpected tok ''Expected an increment or decrement operator after oper x.'')
     else if tok_is T_lbracket tok then
       andBind (nextToken env) (\<lambda>tok.
       if \<not> tok_is T_rbracket tok then throw (ErrorAt tok ''Expected right bracket in oper ['')
       else andBind (nextToken env) (\<lambda>tok.
         if tok_is T_assign tok then yields (''oper []='', ''x'')
         else andBind (unread tok) (\<lambda>_. yields (''oper []'', ''x''))))
     else if ident = ''to'' \<or> ident = ''from'' then
       andBind (defOf rec TypeSpec) (\<lambda>t.
       andBind (gets (\<lambda>s. getFullName (sem_store (ps_sem s)) t)) (\<lambda>nm.
       yields (''oper '' @ ident @ '' '' @ nm, ''x'')))
     else if ident = ''r'' then
       andBind (nextToken env) (\<lambda>tok.
       if isBinOp tok then yields (''oper r'' @ tok_data tok, ''x'')
       else throw (ErrorAt tok ''Expected a binary operator after reverse designator''))
     else unexpected tok ''expected legal operator name or symbol.'')"

text \<open>
  \<open>parsePostDot(expr, type, isSafeNav)\<close>: the member of an object after the dot. Yields the new
  expression and type. With the safe navigation operator, \<open>primary\<close> is the expression that stores the
  object in a register and \<open>e\<close> the register.
\<close>

definition newScopedDef :: "addr \<Rightarrow> ('c, addr) sem" where
  "newScopedDef d s = (case alloc ((newOverloadDef (name (cell (sem_store s) d)))\<lparr>
       owner := owner (cell (sem_store s) d), hasImpl := hasImpl (cell (sem_store s) d),
       deftype := deftype (cell (sem_store s) d)\<rparr>) (sem_store s) of
     (a, h) \<Rightarrow> Some (Inr (a, s\<lparr>sem_store := h\<rparr>)))"

definition memberRef ::
  "('e, 'c) penv \<Rightarrow> 'e \<Rightarrow> addr option \<Rightarrow> 'e option \<Rightarrow> token \<Rightarrow> string \<Rightarrow> string \<Rightarrow> ('c, 'e \<times> addr option) sem" where
  "memberRef env e type primary tok nm access = (case exprType env e of
     None \<Rightarrow> throw (NullPointer ''type'')
   | Some t \<Rightarrow> andBind (nsLookUp nm t) (\<lambda>found. case found of
       Some d \<Rightarrow>
         andBind (gets (\<lambda>s. isType (sem_store s) d)) (\<lambda>class.
         andBind (if class then varRef env d else yields (newDeref env e d)) (\<lambda>r.
         andBind (wrapInNullCheck env primary r) (\<lambda>w.
         andBind (checkAccess d access) (\<lambda>_. yields (w, if class then Some d else None)))))
     | None \<Rightarrow> andBind (makeAccessor env e nm) (\<lambda>accessor. case accessor of
         Some deref \<Rightarrow> yields (deref, type)
       | None \<Rightarrow> (case type of
           None \<Rightarrow> throw (ErrorAt tok ''Instance has no such member'')
         | Some ty \<Rightarrow> andBind (nsLookUp nm ty) (\<lambda>found. case found of
             None \<Rightarrow> throw (ErrorAt tok ''Type object has no such member, nor does the type itself.'')
           | Some d \<Rightarrow> andBind (usableFrom d) (\<lambda>usable.
               if \<not> usable then throw (ErrorAt tok ''Instance member is not usable from this context.'')
               else andBind (gets (\<lambda>s. isOverload (sem_store s) d)) (\<lambda>ovld.
                 andBind (gets (\<lambda>s. isType (sem_store s) d)) (\<lambda>class.
                 andBind (if ovld then newScopedDef d else yields d) (\<lambda>def.
                 andBind (if ovld then yields (newVarRef env (Scoped d)) else varRef env d) (\<lambda>r.
                 andBind (wrapInNullCheck env primary r) (\<lambda>w.
                 andBind (checkAccess def access) (\<lambda>_. yields (w, if class then Some d else None)))))))))))))"

definition parsePostDot ::
  "('e, 'c) penv \<Rightarrow> ('e, 'c) calls \<Rightarrow> 'e \<Rightarrow> addr option \<Rightarrow> bool \<Rightarrow> ('c, 'e \<times> addr option) parser" where
  "parsePostDot env rec expr type isSafeNav =
     andBind (nextToken env) (\<lambda>tok.
     andBind (if isSafeNav then
         andBind (sem (newGetRegister env (exprType env expr))) (\<lambda>reg. yields (Some (newSetRegister env reg expr), reg))
       else yields (None, expr)) (\<lambda>(primary, e).
     if tok_is T_classKw tok then
       andBind (sem (operClass env e tok)) (\<lambda>c.
       andBind (sem (wrapInNullCheck env primary c)) (\<lambda>w. yields (w, type)))
     else
       andBind (if isIdent tok then yields (tok_data tok, tok_data tok)
         else if tok_is T_operKw tok then parseOperSpec env rec
         else throw (ErrorAt tok ''Identifier or oper expected after .'')) (\<lambda>(nm, access).
       sem (memberRef env e type primary tok nm access))))"

section \<open>Primaries\<close>

text \<open>\<open>parsePrimary\<close>, which is called at \<open>typeof\<close> or an identifier, and its loop\<close>

definition primaryLoopBody ::
  "('e, 'c) penv \<Rightarrow> ('e, 'c) calls \<Rightarrow> 'e \<Rightarrow> addr option \<Rightarrow> token \<Rightarrow> ('c, 'e option \<times> addr option \<times> token) parser" where
  "primaryLoopBody env rec e type soleIdent =
     andBind (nextToken env) (\<lambda>tok.
     if tok_is T_scoping tok then
       andBind (unread tok) (\<lambda>_.
       andBind (case type of Some t \<Rightarrow> yields t | None \<Rightarrow> sem curNs) (\<lambda>n.
       andBind (parseScoping env n) (\<lambda>(found, lastName, _). case found of
         None \<Rightarrow> throw (NullPointer ''def'')
       | Some var \<Rightarrow>
           andBind (case var of Plain d \<Rightarrow> castType d | Scoped _ \<Rightarrow> yields None) (\<lambda>type.
           andBind (sem (defRef env None var)) (\<lambda>e.
           primaryOf rec (PrimaryLoop e type endToken))))))
     else if tok_is T_dot tok then
       andBind (parsePostDot env rec e type False) (\<lambda>(e, type). primaryOf rec (PrimaryLoop e type endToken))
     else if tok_is T_lbracket tok then
       andBind (sem (convertTypeRef env e)) (\<lambda>generic. case generic of
         Some g \<Rightarrow>
           andBind (parseSpecializer env rec tok g) (\<lambda>t.
           andBind (sem (varRef env t)) (\<lambda>e.
           primaryOf rec (PrimaryLoop e (Some t) endToken)))
       | None \<Rightarrow> andBind (parseIndex env rec e tok) (\<lambda>e. primaryOf rec (PrimaryLoop e type endToken)))
     else if tok_is T_quest tok then
       andBind (nextToken env) (\<lambda>tok2.
       if tok_is T_dot tok2 then
         andBind (parsePostDot env rec e type True) (\<lambda>(e, type). primaryOf rec (PrimaryLoop e type endToken))
       else
         andBind (unread tok2) (\<lambda>_.
         andBind (unread tok) (\<lambda>_. yields (Some e, type, soleIdent))))
     else andBind (unread tok) (\<lambda>_. yields (Some e, type, soleIdent)))"

text \<open>
  What an identifier stands for: the definition found, unless it is about to be defined; then an
  attribute of \<open>this\<close>. Yields the expression, null for an unknown name, whether it stands for the
  definition, and the type.
\<close>

definition identPrimary ::
  "('e, 'c) penv \<Rightarrow> token \<Rightarrow> addr option \<Rightarrow> bool \<Rightarrow> ('c, 'e option \<times> bool \<times> addr option) sem" where
  "identPrimary env tok found isDefine =
     andBind (if isDefine then
         andBind (case found of Some d \<Rightarrow> checkForRedefine tok d | None \<Rightarrow> yields ()) (\<lambda>_. yields None)
       else yields found) (\<lambda>def. case def of
       Some d \<Rightarrow>
         andBind (checkAccess d (tok_data tok)) (\<lambda>_.
         andBind (gets (\<lambda>s. if isType (sem_store s) d then Some d else None)) (\<lambda>type.
         andBind (defRef env None (Plain d)) (\<lambda>e. yields (Some e, True, type))))
     | None \<Rightarrow>
         andBind (returning (\<lambda>s. isMethod (sem_ctx s))) (\<lambda>inMethod.
         andBind (if inMethod then tryThisExpr env else yields None) (\<lambda>this.
         andBind (case this of Some e \<Rightarrow> makeAccessor env e (tok_data tok) | None \<Rightarrow> yields None) (\<lambda>e.
         yields (e, False, None)))))"

definition primaryBody ::
  "('e, 'c) penv \<Rightarrow> ('e, 'c) calls \<Rightarrow> ('c, 'e option \<times> addr option \<times> token) parser" where
  "primaryBody env rec =
     andBind (nextToken env) (\<lambda>tok.
     if tok_is T_typeofKw tok then
       andBind (defOf rec Typeof) (\<lambda>t.
       andBind (sem (varRef env t)) (\<lambda>e.
       primaryOf rec (PrimaryLoop e (Some t) endToken)))
     else if isIdent tok then
       andBind (sem (lookUpDef env (tok_data tok) None)) (\<lambda>found.
       andBind (nextToken env) (\<lambda>tok2.
       andBind (unread tok2) (\<lambda>_.
       andBind (sem (identPrimary env tok found (tok_is T_define tok2))) (\<lambda>(e, isDef, type). case e of
         None \<Rightarrow> yields (None, None, tok)
       | Some e \<Rightarrow> primaryOf rec (PrimaryLoop e type (if isDef then tok else endToken))))))
     else throw (CheckFailed ''primary at another token''))"

end
