(* ===== verification/Parse_Rec.thy ===== *)
theory Parse_Rec
  imports Parse_Expr
begin

text \<open>
  The rest of the descent over expressions (\<open>parser/Parser.cc\<close>): definitions of variables,
  interpolated strings, the suffixes of an expression, expressions, and the recursive function that
  ties the calls together.
\<close>

section \<open>Definitions and interpolated strings\<close>

text \<open>\<open>parseDefine(ident)\<close>\<close>

definition parseDefine :: "('e, 'c) penv \<Rightarrow> ('e, 'c) calls \<Rightarrow> token \<Rightarrow> ('c, 'e) parser" where
  "parseDefine env rec ident =
     andBind (exprOf rec (Expression 0)) (\<lambda>val.
     andBind (sem (defineVar env ident val)) (\<lambda>var.
     andBind consumeDocs (\<lambda>docs.
     andBind (sem (setVarDoc env var docs)) (\<lambda>_.
     sem (createAssign env None var val)))))"

text \<open>
  \<open>parseIString(expr)\<close>: the formatter is stored in a register; its functions \<open>enter\<close>, \<open>format\<close> for
  every part and \<open>leave\<close> are called in turn.
\<close>

definition resumeIString :: "('c, unit) parser" where
  "resumeIString s = Some (case continueIString (ps_toker s) of
     Inl e \<Rightarrow> Inl (LexFailed e) | Inr t \<Rightarrow> Inr ((), s\<lparr>ps_toker := t\<rparr>))"

definition callOn :: "('e, 'c) penv \<Rightarrow> 'e \<Rightarrow> addr \<Rightarrow> 'e list \<Rightarrow> ('c, 'e) sem" where
  "callOn env reg f vals = gets (\<lambda>s. newFuncCall env f vals
     (if hasFlag (sem_store s) f methodFlag then Some reg else None))"

definition leaveIString :: "('e, 'c) penv \<Rightarrow> 'e \<Rightarrow> 'e \<Rightarrow> 'e list \<Rightarrow> ('c, 'e) sem" where
  "leaveIString env formatter reg seq =
     andBind (lookUpPlain env ''leave'' True (exprType env reg)) (\<lambda>func.
     andBind (case func of
         Some f \<Rightarrow> callOn env reg f []
       | None \<Rightarrow> yields reg) (\<lambda>e.
     let t = exprType env e in
     createTernary env formatter (newMulti env (seq @ [e]) t)
       (if t \<noteq> Some (voidType env) then Some (newNull env t) else None)))"

definition formatPart :: "('e, 'c) penv \<Rightarrow> 'e \<Rightarrow> token \<Rightarrow> 'e \<Rightarrow> ('c, 'e) sem" where
  "formatPart env reg tok arg =
     andBind (lookUpFunc env ''format'' [arg] (exprType env reg)) (\<lambda>(func, es). case func of
       None \<Rightarrow> throw (ErrorAt tok ''No format method exists for objects of type'')
     | Some f \<Rightarrow> callOn env reg f es)"

definition istringLoopBody :: "('e, 'c) penv \<Rightarrow> ('e, 'c) calls \<Rightarrow> 'e \<Rightarrow> 'e \<Rightarrow> 'e list \<Rightarrow> ('c, 'e) parser" where
  "istringLoopBody env rec formatter reg seq =
     andBind (nextToken env) (\<lambda>tok.
     if isIstrEnd tok then sem (leaveIString env formatter reg seq)
     else if isString tok \<and> tok_data tok = [] then exprOf rec (IStringLoop formatter reg seq)
     else
       andBind (if isString tok then
           andBind (sem (getStrConst env (tok_data tok))) (\<lambda>e. yields (e, tok))
         else if isIdent tok then
           andBind (sem (identRef env None tok None)) (\<lambda>r. case r of
             None \<Rightarrow> throw (NullPointer ''arg'')
           | Some e \<Rightarrow> andBind resumeIString (\<lambda>_. yields (e, tok)))
         else if isLParen tok then
           andBind (exprOf rec (Expression 0)) (\<lambda>e.
           andBind (nextToken env) (\<lambda>tok2.
           if \<not> isRParen tok2 then unexpected tok2 ''expected a right paren''
           else andBind resumeIString (\<lambda>_. yields (e, tok2))))
         else unexpected tok ''expected an identifer or a parenthesized expression after the $ in an interpolated string'')
       (\<lambda>(arg, tok).
       andBind (sem (formatPart env reg tok arg)) (\<lambda>call.
       exprOf rec (IStringLoop formatter reg (seq @ [call])))))"

definition enterIString :: "('e, 'c) penv \<Rightarrow> 'e \<Rightarrow> ('c, 'e \<times> 'e \<times> 'e list) sem" where
  "enterIString env e =
     andBind (newGetRegister env (exprType env e)) (\<lambda>reg.
     andBind (lookUpPlain env ''enter'' True (exprType env e)) (\<lambda>func. case func of
       None \<Rightarrow> yields (newSetRegister env reg e, reg, [])
     | Some f \<Rightarrow>
         andBind (callOn env reg f []) (\<lambda>call.
         andBind (gets (\<lambda>s. returnType (cell (sem_store s) f))) (\<lambda>t.
         if t \<noteq> Some (voidType env) then
           andBind (newGetRegister env t) (\<lambda>reg2.
           yields (newSetRegister env reg e, reg2, [newSetRegister env reg2 call]))
         else yields (newSetRegister env reg e, reg, [call])))))"

definition parseIString :: "('e, 'c) penv \<Rightarrow> ('e, 'c) calls \<Rightarrow> 'e \<Rightarrow> ('c, 'e) parser" where
  "parseIString env rec e =
     andBind (sem (enterIString env e)) (\<lambda>(formatter, reg, seq). exprOf rec (IStringLoop formatter reg seq))"

section \<open>Suffixes\<close>

text \<open>\<open>parseTernary\<close> and \<open>parseBinOp\<close>\<close>

definition parseTernary :: "('e, 'c) penv \<Rightarrow> ('e, 'c) calls \<Rightarrow> 'e \<Rightarrow> ('c, 'e) parser" where
  "parseTernary env rec cond =
     andBind (exprOf rec (Expression 0)) (\<lambda>trueVal.
     andBind (nextToken env) (\<lambda>tok.
     if \<not> tok_is T_colon tok then unexpected tok ''expected colon.''
     else andBind (exprOf rec (Expression 0)) (\<lambda>falseVal.
       sem (createTernary env cond trueVal (Some falseVal)))))"

definition parseBinOp :: "('e, 'c) penv \<Rightarrow> ('e, 'c) calls \<Rightarrow> 'e \<Rightarrow> token \<Rightarrow> nat \<Rightarrow> ('c, 'e) parser" where
  "parseBinOp env rec e tok precedence =
     andBind (exprOf rec (Expression precedence)) (\<lambda>rhs. sem (binOp env e tok rhs))"

text \<open>
  The loop of \<open>parseSecondary\<close>. \<open>go\<close> is its next round, after the next token is read; \<open>stop\<close> its end,
  which puts the token back.
\<close>

definition noGetter :: "('e, 'c) penv \<Rightarrow> 'e \<Rightarrow> ('c, unit) parser" where
  "noGetter env e = (if derefOf env e = AttrDeref None
     then throw (ErrorHere ''Attempt to evaluate attribute with no getter.'') else yields ())"

definition secondaryLoopBody ::
  "('e, 'c) penv \<Rightarrow> ('e, 'c) calls \<Rightarrow> bool \<Rightarrow> token \<Rightarrow> nat \<Rightarrow> 'e \<Rightarrow> token \<Rightarrow> ('c, 'e) parser" where
  "secondaryLoopBody env rec same ident precedence expr tok =
     (let stop = andBind (unread tok) (\<lambda>_. yields expr);
          go = (\<lambda>e. andBind (nextToken env) (\<lambda>tok. exprOf rec (SecondaryLoop False ident precedence e tok))) in
      if tok_is T_dot tok then
        andBind (noGetter env expr) (\<lambda>_.
        andBind (parsePostDot env rec expr None False) (\<lambda>(e, _). go e))
      else if tok_is T_scoping tok then
        (case refDef env expr of
           None \<Rightarrow> throw (NullPointer ''varRef'')
         | Some (Scoped _) \<Rightarrow> throw (ErrorAt tok ''The scoping operator can only follow a namespace.'')
         | Some (Plain d) \<Rightarrow>
             andBind (gets (\<lambda>s. isNamespace (sem_store (ps_sem s)) d)) (\<lambda>isNs.
             if \<not> isNs then throw (ErrorAt tok ''The scoping operator can only follow a namespace.'')
             else andBind (unread tok) (\<lambda>_.
               andBind (parseScoping env d) (\<lambda>(found, _, _). case found of
                 None \<Rightarrow> throw (NullPointer ''var'')
               | Some var \<Rightarrow>
                   andBind (case var of Plain v \<Rightarrow> sem (usableFrom v) | Scoped _ \<Rightarrow> yields True) (\<lambda>usable.
                   if \<not> usable then throw (ErrorAt tok ''Instance member is not usable from this context.'')
                   else andBind (case var of Plain v \<Rightarrow> sem (varRef env v) | Scoped _ \<Rightarrow> yields (newVarRef env var)) go)))))
      else if tok_is T_lbracket tok then
        andBind (sem (convertTypeRef env expr)) (\<lambda>generic. case generic of
          Some g \<Rightarrow>
            andBind (parseSpecializer env rec tok g) (\<lambda>t.
            andBind (nextToken env) (\<lambda>tok.
            if isLParen tok then andBind (parseConstructor env rec t T_rparen) go
            else andBind (sem (varRef env t)) (\<lambda>e. exprOf rec (SecondaryLoop False ident precedence e tok))))
        | None \<Rightarrow> andBind (parseIndex env rec expr tok) go)
      else if isLParen tok then
        andBind (parseMethodArgs env rec T_rparen []) (\<lambda>vals. andBind (sem (makeCall env expr vals)) go)
      else if tok_is T_incr tok \<or> tok_is T_decr tok then andBind (sem (postfixOp env expr tok)) go
      else if isBinOp tok then
        andBind (getPrecedence (tok_data tok)) (\<lambda>newPrec.
        if newPrec \<le> precedence then stop else andBind (parseBinOp env rec expr tok newPrec) go)
      else if isIstrBegin tok then andBind (parseIString env rec expr) go
      else if tok_is T_quest tok then
        andBind (nextToken env) (\<lambda>tok2.
        if tok_is T_dot tok2 then
          andBind (noGetter env expr) (\<lambda>_.
          andBind (parsePostDot env rec expr None True) (\<lambda>(e, _). go e))
        else andBind (unread tok2) (\<lambda>_.
          if logOrPrec \<le> precedence then stop else andBind (parseTernary env rec expr) go))
      else if tok_is T_bang tok then
        andBind (rawToken env) (\<lambda>tok2.
        if tok_is T_isKw tok2 then
          andBind (getPrecedence (tok_data tok2)) (\<lambda>newPrec.
          if newPrec \<le> precedence then stop
          else andBind (parseBinOp env rec expr tok2 newPrec) (\<lambda>e. andBind (sem (notIs env tok e)) go))
        else andBind (sem (convertTypeRef env expr)) (\<lambda>type. case type of
            None \<Rightarrow> throw (ErrorAt tok ''Exclamation point can not follow a non-type expression'')
          | Some t \<Rightarrow>
              if \<not> tok_is T_lbracket tok2 then throw (ErrorAt tok2 ''Sequence initializer expected after type!'')
              else andBind (parseConstSequence env rec t) go))
      else if tok_is T_assign tok \<or> isAugAssign tok then
        andBind (exprOf rec (Expression 0)) (\<lambda>val. andBind (sem (makeAssign env expr tok val)) go)
      else if tok_is T_define tok then
        (if \<not> same \<or> isEnd ident then throw (ErrorAt tok ''The define operator can not be used here.'')
         else andBind (sem (lookUpDef env (tok_data ident) None)) (\<lambda>existing.
           andBind (sem (case existing of Some d \<Rightarrow> checkForRedefine ident d | None \<Rightarrow> yields ())) (\<lambda>_.
           parseDefine env rec ident)))
      else stop)"

definition secondaryBody :: "('e, 'c) penv \<Rightarrow> ('e, 'c) calls \<Rightarrow> 'e option \<Rightarrow> token \<Rightarrow> nat \<Rightarrow> ('c, 'e) parser" where
  "secondaryBody env rec primary ident precedence =
     andBind (nextToken env) (\<lambda>tok. case primary of
       None \<Rightarrow> if \<not> tok_is T_define tok then throw (ErrorAt ident ''Unknown identifier'')
         else parseDefine env rec ident
     | Some e \<Rightarrow> exprOf rec (SecondaryLoop True ident precedence e tok))"

section \<open>Expressions\<close>

text \<open>String constants that follow each other are concatenated.\<close>

partial_function (option) stringsLoop :: "('e, 'c) penv \<Rightarrow> string \<Rightarrow> token \<Rightarrow> ('c, string) parser" where
  "stringsLoop env acc tok s =
     (if isString tok then andBind (nextToken env) (stringsLoop env (acc @ tok_data tok))
      else andBind (unread tok) (\<lambda>_. yields acc)) s"

text \<open>A lambda: an anonymous function is defined and referred to.\<close>

fun decimal :: "nat \<Rightarrow> string" where
  "decimal n = (if n < 10 then [] else decimal (n div 10)) @ [char_of (48 + n mod 10)]"

definition parseLambda :: "('e, 'c) penv \<Rightarrow> ('e, 'c) calls \<Rightarrow> token \<Rightarrow> ('c, 'e) parser" where
  "parseLambda env rec tok =
     andBind (defOf rec TypeSpec) (\<lambda>returnType.
     andBind (modifies (\<lambda>s. s\<lparr>ps_nest := Suc (ps_nest s)\<rparr>)) (\<lambda>_.
     andBind (gets (\<lambda>s. '':anonf'' @ decimal (ps_nest s))) (\<lambda>nm.
     andBind (nextToken env) (\<lambda>tok2.
     if \<not> isLParen tok2 then unexpected tok2 ''Parenthesis expected for lambda parameter list''
     else
       andBind (parseFuncDef env returnType (mkToken T_ident nm (tok_loc tok)) nm) (\<lambda>_.
       andBind (sem (lookUpDef env nm None)) (\<lambda>found. case found of
         None \<Rightarrow> throw (NullPointer ''ovldDef'')
       | Some d \<Rightarrow> andBind (sem (returning (\<lambda>s. getSingleFunction (sem_store s) d))) (\<lambda>f. case f of
           None \<Rightarrow> throw (NullPointer ''funcDef'')
         | Some f \<Rightarrow> sem (varRef env f))))))))"

definition prefixToken :: "token \<Rightarrow> bool" where
  "prefixToken tok \<longleftrightarrow> tok_type tok \<in> {T_bang, T_minus, T_tilde, T_decr, T_incr}"

definition expressionAt :: "('e, 'c) penv \<Rightarrow> ('e, 'c) calls \<Rightarrow> nat \<Rightarrow> token \<Rightarrow> ('c, 'e) parser" where
  "expressionAt env rec precedence tok =
     (let secondary = (\<lambda>e. exprOf rec (Secondary (Some e) endToken precedence)) in
      if tok_is T_nullKw tok then secondary (newNull env (Some (voidptrType env)))
      else if isLParen tok then
        andBind (exprOf rec (Expression 0)) (\<lambda>e.
        andBind (nextToken env) (\<lambda>tok.
        if \<not> isRParen tok then unexpected tok ''expected a right paren'' else secondary e))
      else if tok_is T_typeofKw tok then
        andBind (defOf rec Typeof) (\<lambda>t. andBind (sem (varRef env t)) secondary)
      else if isIdent tok then
        andBind (unread tok) (\<lambda>_.
        andBind (primaryOf rec Primary) (\<lambda>(e, _, ident). exprOf rec (Secondary e ident precedence)))
      else if isString tok then
        andBind (stringsLoop env [] tok) (\<lambda>str. andBind (sem (getStrConst env str)) secondary)
      else if isIstrBegin tok then
        throw (ErrorAt tok ''Interpolated strings may not be used as expressions.'')
      else if numConst env tok \<noteq> (None :: ('c, 'e) parser option) then andBind (the (numConst env tok)) secondary
      else if tok_is T_plus tok then
        andBind (nextToken env) (\<lambda>tok. case numConst env tok of
          Some m \<Rightarrow> andBind m secondary
        | None \<Rightarrow> unexpected tok ''unexpected unary +'')
      else if prefixToken tok then
        andBind (getPrecedence (tok_data tok @ ''x'')) (\<lambda>prec.
        andBind (exprOf rec (Expression prec)) (\<lambda>operand.
        andBind (sem (prefixOp env tok operand)) secondary))
      else if tok_is T_lambdaKw tok then andBind (parseLambda env rec tok) secondary
      else if tok_is T_classKw tok then
        andBind (parseClassDef env) (\<lambda>t. sem (defRef env None (Plain t)))
      else if tok_is T_lcurly tok then unexpected tok ''blocks as expressions are not supported yet''
      else unexpected tok ''expected an expression'')"

definition expressionBody :: "('e, 'c) penv \<Rightarrow> ('e, 'c) calls \<Rightarrow> nat \<Rightarrow> ('c, 'e) parser" where
  "expressionBody env rec precedence = andBind (nextToken env) (expressionAt env rec precedence)"

section \<open>The recursion\<close>

definition asExpr :: "('c, 'e) parser \<Rightarrow> ('c, 'e result) parser" where
  "asExpr m = andBind m (\<lambda>e. yields (RExpr e))"

definition runTask :: "('e, 'c) penv \<Rightarrow> ('e, 'c) calls \<Rightarrow> ('e, 'c) calls" where
  "runTask env rec task = (case task of
     Expression p \<Rightarrow> asExpr (expressionBody env rec p)
   | Secondary e ident p \<Rightarrow> asExpr (secondaryBody env rec e ident p)
   | SecondaryLoop same ident p e tok \<Rightarrow> asExpr (secondaryLoopBody env rec same ident p e tok)
   | MethodArgs closer vals tok \<Rightarrow> andBind (methodArgsBody env rec closer vals tok) (\<lambda>es. yields (RExprs es))
   | ConstSequence t elems tok \<Rightarrow> asExpr (constSequenceBody env rec t elems tok)
   | IStringLoop formatter reg seq \<Rightarrow> asExpr (istringLoopBody env rec formatter reg seq)
   | Typeof \<Rightarrow> andBind (typeofBody env rec) (\<lambda>t. yields (RDef t))
   | Specializer types \<Rightarrow> andBind (specializerBody env rec types) (\<lambda>ts. yields (RTypes ts))
   | AnyDefLoop var type \<Rightarrow> andBind (anyDefBody env rec var type) (\<lambda>d. yields (RDef d))
   | TypeSpec \<Rightarrow> andBind (typeSpecBody env rec) (\<lambda>d. yields (RDef d))
   | Primary \<Rightarrow> andBind (primaryBody env rec) (\<lambda>(e, type, ident). yields (RPrimary e type ident))
   | PrimaryLoop e type ident \<Rightarrow>
       andBind (primaryLoopBody env rec e type ident) (\<lambda>(e, type, ident). yields (RPrimary e type ident)))"


text \<open>Every body is monotone in the calls it makes, so the recursion is well defined.\<close>

lemmas mono_rules = mono_andBind mono_if_applied mono_option_applied mono_prod_applied mono_results
  option.const_mono

lemma mono_args [partial_function_mono]:
  assumes "\<And>t s. mono_option (\<lambda>f. R f t s)"
  shows "mono_option (\<lambda>f. methodArgsBody env (R f) closer vals tok s)"
    "mono_option (\<lambda>f. parseMethodArgs env (R f) closer vals s)"
    "mono_option (\<lambda>f. constSequenceBody env (R f) ct vals tok s)"
    "mono_option (\<lambda>f. parseConstSequence env (R f) ct s)"
  unfolding methodArgsBody_def parseMethodArgs_def constSequenceBody_def parseConstSequence_def
  by (rule mono_rules assms)+

lemma mono_types [partial_function_mono]:
  assumes "\<And>t s. mono_option (\<lambda>f. R f t s)"
  shows "mono_option (\<lambda>f. parseConstructor env (R f) t closer s)"
    "mono_option (\<lambda>f. parseIndex env (R f) e tok s)"
    "mono_option (\<lambda>f. typeofBody env (R f) s)"
    "mono_option (\<lambda>f. specializerBody env (R f) ts s)"
    "mono_option (\<lambda>f. parseSpecializer env (R f) tok t s)"
  unfolding parseConstructor_def parseIndex_def typeofBody_def specializerBody_def parseSpecializer_def
  by (rule mono_rules mono_args assms)+

lemma mono_defs [partial_function_mono]:
  assumes "\<And>t s. mono_option (\<lambda>f. R f t s)"
  shows "mono_option (\<lambda>f. anyDefBody env (R f) var ty s)"
    "mono_option (\<lambda>f. parseAnyDef env (R f) s)"
    "mono_option (\<lambda>f. parseOperSpec env (R f) s)"
  unfolding anyDefBody_def parseAnyDef_def parseOperSpec_def Let_def
  by (rule mono_rules mono_types assms)+

lemma mono_typeSpec [partial_function_mono]:
  assumes "\<And>t s. mono_option (\<lambda>f. R f t s)"
  shows "mono_option (\<lambda>f. typeSpecBody env (R f) s)"
    "mono_option (\<lambda>f. parsePostDot env (R f) e ty safe s)"
  unfolding typeSpecBody_def parsePostDot_def
  by (rule mono_rules mono_defs assms)+

lemma mono_primary [partial_function_mono]:
  assumes "\<And>t s. mono_option (\<lambda>f. R f t s)"
  shows "mono_option (\<lambda>f. primaryLoopBody env (R f) e ty ident s)"
    "mono_option (\<lambda>f. primaryBody env (R f) s)"
  unfolding primaryLoopBody_def primaryBody_def
  by (rule mono_rules mono_types mono_typeSpec assms)+

lemma mono_strings [partial_function_mono]:
  assumes "\<And>t s. mono_option (\<lambda>f. R f t s)"
  shows "mono_option (\<lambda>f. parseDefine env (R f) tok s)"
    "mono_option (\<lambda>f. istringLoopBody env (R f) e reg seq s)"
    "mono_option (\<lambda>f. parseIString env (R f) e s)"
    "mono_option (\<lambda>f. parseTernary env (R f) e s)"
    "mono_option (\<lambda>f. parseBinOp env (R f) e tok p s)"
    "mono_option (\<lambda>f. parseLambda env (R f) tok s)"
  unfolding parseDefine_def istringLoopBody_def parseIString_def parseTernary_def parseBinOp_def parseLambda_def
  by (rule mono_rules assms)+

lemma mono_vdef_applied:
  "(\<And>d. mono_option (\<lambda>f. F f d s)) \<Longrightarrow> (\<And>d. mono_option (\<lambda>f. G f d s)) \<Longrightarrow>
    mono_option (\<lambda>f. (case v of Plain d \<Rightarrow> F f d | Scoped d \<Rightarrow> G f d) s)"
  by (cases v) simp_all

lemma mono_secondary [partial_function_mono]:
  assumes "\<And>t s. mono_option (\<lambda>f. R f t s)"
  shows "mono_option (\<lambda>f. secondaryLoopBody env (R f) same ident p e tok s)"
    "mono_option (\<lambda>f. secondaryBody env (R f) e' ident p s)"
  unfolding secondaryLoopBody_def secondaryBody_def Let_def
  by (rule mono_rules mono_vdef_applied mono_args mono_types mono_typeSpec mono_strings assms)+

lemma mono_expression [partial_function_mono]:
  assumes "\<And>t s. mono_option (\<lambda>f. R f t s)"
  shows "mono_option (\<lambda>f. expressionBody env (R f) p s)"
  unfolding expressionBody_def expressionAt_def Let_def
  by (rule mono_rules mono_strings assms)+

lemma mono_calls [partial_function_mono]:
  assumes "\<And>t s. mono_option (\<lambda>f. R f t s)"
  shows "mono_option (\<lambda>f. runTask env (R f) task s)"
  unfolding runTask_def asExpr_def
  by (cases task; simp only: task.case)
    (rule mono_rules mono_args mono_types mono_defs mono_typeSpec mono_primary mono_strings mono_secondary
      mono_expression assms)+

partial_function (option) parse :: "('e, 'c) penv \<Rightarrow> ('e, 'c) calls" where
  "parse env task s = runTask env (parse env) task s"

text \<open>\<open>parseExpression(precedence)\<close>\<close>

definition parseExpression :: "('e, 'c) penv \<Rightarrow> nat \<Rightarrow> ('c, 'e) parser" where
  "parseExpression env precedence = exprOf (parse env) (Expression precedence)"

end
