(* ===== verification/Parse_Tree.thy ===== *)
theory Parse_Tree
  imports Parse_Rec
begin

text \<open>
  The expressions of the language as trees: what the operators, their precedences and associativity
  and the calls mean, apart from how the parser reads them. A tree keeps its tokens. \<open>elab\<close> is
  the meaning of a tree, the operations made for it in their order. \<open>fits p t\<close> says that the tree can
  be written without further parentheses where only operators that bind stronger than \<open>p\<close> are
  taken, and \<open>ends tok t\<close> that it ends before the token \<open>tok\<close>.
\<close>

section \<open>Trees\<close>

datatype tree =
    Const token
  | Signed token token
  | Strings "token list"
  | Ident token
  | Paren token tree token
  | Prefix token tree
  | Postfix tree token
  | Binary tree token tree
  | Ternary tree token tree token tree
  | Assign tree token tree
  | Call tree token args
and args =
    Close token
  | Arg tree "token option" args

primrec toks :: "tree \<Rightarrow> token list" and argToks :: "args \<Rightarrow> token list" where
  "toks (Const tok) = [tok]"
| "toks (Signed sign tok) = [sign, tok]"
| "toks (Strings ts) = ts"
| "toks (Ident tok) = [tok]"
| "toks (Paren lp t rp) = lp # toks t @ [rp]"
| "toks (Prefix oper t) = oper # toks t"
| "toks (Postfix t oper) = toks t @ [oper]"
| "toks (Binary l oper r) = toks l @ oper # toks r"
| "toks (Ternary c quest a colon b) = toks c @ quest # toks a @ colon # toks b"
| "toks (Assign l oper r) = toks l @ oper # toks r"
| "toks (Call f lp as) = toks f @ lp # argToks as"
| "argToks (Close rp) = [rp]"
| "argToks (Arg t comma as) = toks t @ (case comma of None \<Rightarrow> [] | Some c \<Rightarrow> [c]) @ argToks as"

section \<open>Meaning\<close>

definition elabConst :: "('e, 'c) penv \<Rightarrow> token \<Rightarrow> ('c, 'e) sem" where
  "elabConst env tok =
     (if tok_is T_nullKw tok then yields (newNull env (Some (voidptrType env))) else the (numConst env tok))"

definition elabIdent :: "('e, 'c) penv \<Rightarrow> token \<Rightarrow> ('c, 'e \<times> token) sem" where
  "elabIdent env tok =
     andBind (lookUpDef env (tok_data tok) None) (\<lambda>found.
     andBind (identPrimary env tok found False) (\<lambda>(e, isDef, _). case e of
       None \<Rightarrow> throw (ErrorAt tok ''Unknown identifier'')
     | Some x \<Rightarrow> yields (x, if isDef then tok else endToken)))"

primrec elab :: "('e, 'c) penv \<Rightarrow> tree \<Rightarrow> ('c, 'e) sem" and
  elabArgs :: "('e, 'c) penv \<Rightarrow> args \<Rightarrow> ('c, 'e list) sem" where
  "elab env (Const tok) = elabConst env tok"
| "elab env (Signed sign tok) = the (numConst env tok)"
| "elab env (Strings ts) = getStrConst env (concat (map tok_data ts))"
| "elab env (Ident tok) = andBind (elabIdent env tok) (\<lambda>(e, _). yields e)"
| "elab env (Paren lp t rp) = elab env t"
| "elab env (Prefix oper t) = andBind (elab env t) (prefixOp env oper)"
| "elab env (Postfix t oper) = andBind (elab env t) (\<lambda>e. postfixOp env e oper)"
| "elab env (Binary l oper r) =
     andBind (elab env l) (\<lambda>a. andBind (elab env r) (binOp env a oper))"
| "elab env (Ternary c quest a colon b) =
     andBind (elab env c) (\<lambda>cond. andBind (elab env a) (\<lambda>x. andBind (elab env b) (\<lambda>y.
       createTernary env cond x (Some y))))"
| "elab env (Assign l oper r) =
     andBind (elab env l) (\<lambda>a. andBind (elab env r) (makeAssign env a oper))"
| "elab env (Call f lp as) = andBind (elab env f) (\<lambda>e. andBind (elabArgs env as) (makeCall env e))"
| "elabArgs env (Close rp) = yields []"
| "elabArgs env (Arg t comma as) =
     andBind (elab env t) (\<lambda>e. andBind (elabArgs env as) (\<lambda>es. yields (e # es)))"

section \<open>Syntax\<close>

definition precOf :: "token \<Rightarrow> nat option" where
  "precOf tok = (if isBinOp tok then map_of opPrecMap (tok_data tok) else None)"

text \<open>A token at which the loop for the suffixes of an expression stops.\<close>

definition stops :: "nat \<Rightarrow> token \<Rightarrow> bool" where
  "stops p tok \<longleftrightarrow> tok_type tok \<notin> {T_dot, T_scoping, T_lbracket, T_lparen, T_incr, T_decr, T_istrBegin,
      T_bang, T_assign, T_define} \<and> \<not> isAugAssign tok \<and>
    (isBinOp tok \<longrightarrow> (\<exists>q \<le> p. precOf tok = Some q)) \<and> (tok_is T_quest tok \<longrightarrow> logOrPrec \<le> p)"

fun ends :: "token \<Rightarrow> tree \<Rightarrow> bool" where
  "ends tok (Strings ts) \<longleftrightarrow> \<not> isString tok"
| "ends tok (Ident _) \<longleftrightarrow> tok_type tok \<notin> {T_define, T_scoping, T_dot, T_lbracket}"
| "ends tok (Prefix oper t) \<longleftrightarrow> stops 10 tok \<and> ends tok t"
| "ends tok (Binary l oper r) \<longleftrightarrow> stops (the (precOf oper)) tok \<and> ends tok r"
| "ends tok (Ternary c quest a colon b) \<longleftrightarrow> stops 0 tok \<and> ends tok b"
| "ends tok (Assign l oper r) \<longleftrightarrow> stops 0 tok \<and> ends tok r"
| "ends tok t \<longleftrightarrow> True"

definition isConst :: "token \<Rightarrow> bool" where
  "isConst tok \<longleftrightarrow> tok_type tok \<in> {T_integer, T_floatLit, T_octalLit, T_hexLit, T_binLit}"

definition unaryToken :: "token \<Rightarrow> bool" where
  "unaryToken tok \<longleftrightarrow> prefixToken tok \<and> map_of opPrecMap (tok_data tok @ ''x'') = Some 10"

fun firstArg :: "args \<Rightarrow> token" where
  "firstArg (Close rp) = rp"
| "firstArg (Arg t _ _) = hd (toks t)"

primrec fits :: "tree \<Rightarrow> nat \<Rightarrow> bool" and argsFit :: "args \<Rightarrow> bool" where
  "fits (Const tok) p \<longleftrightarrow> tok_is T_nullKw tok \<or> isConst tok"
| "fits (Signed sign tok) p \<longleftrightarrow> tok_is T_plus sign \<and> isConst tok"
| "fits (Strings ts) p \<longleftrightarrow> ts \<noteq> [] \<and> list_all isString ts"
| "fits (Ident tok) p \<longleftrightarrow> isIdent tok"
| "fits (Paren lp t rp) p \<longleftrightarrow> isLParen lp \<and> isRParen rp \<and> fits t 0"
| "fits (Prefix oper t) p \<longleftrightarrow> unaryToken oper \<and> fits t 10"
| "fits (Postfix t oper) p \<longleftrightarrow> (tok_is T_incr oper \<or> tok_is T_decr oper) \<and> fits t p \<and> ends oper t"
| "fits (Binary l oper r) p \<longleftrightarrow>
     (\<exists>q > p. precOf oper = Some q \<and> fits r q) \<and> fits l p \<and> ends oper l"
| "fits (Ternary c quest a colon b) p \<longleftrightarrow>
     p = 0 \<and> tok_is T_quest quest \<and> tok_is T_colon colon \<and> fits c 0 \<and> ends quest c \<and> fits a 0 \<and> fits b 0"
| "fits (Assign l oper r) p \<longleftrightarrow> (tok_is T_assign oper \<or> isAugAssign oper) \<and> fits l p \<and> ends oper l \<and> fits r 0"
| "fits (Call f lp as) p \<longleftrightarrow> isLParen lp \<and> fits f p \<and> ends lp f \<and> argsFit as"
| "argsFit (Close rp) \<longleftrightarrow> isRParen rp"
| "argsFit (Arg t comma as) \<longleftrightarrow> fits t 0 \<and> argsFit as \<and> (case comma of
     Some c \<Rightarrow> tok_is T_comma c | None \<Rightarrow> stops 0 (firstArg as) \<and> ends (firstArg as) t)"

text \<open>Closing tokens and commas end every tree.\<close>

definition closing :: "token \<Rightarrow> bool" where
  "closing tok \<longleftrightarrow> tok_type tok \<in> {T_rparen, T_colon, T_comma, T_rbracket, T_semi, T_rcurly, T_end}"

lemma tok_is_type: "tok_is tt tok \<longleftrightarrow> tok_type tok = tt"
  by (simp add: tok_is_def)

lemma closing_stops: "closing tok \<Longrightarrow> stops p tok"
  by (auto simp: closing_def stops_def isBinOp_def isAugAssign_def tok_is_def)

lemma closing_ends: "closing tok \<Longrightarrow> ends tok t"
  by (induction tok t rule: ends.induct) (auto simp: closing_stops closing_def tok_is_def)

text \<open>The first token of a tree.\<close>

definition starts :: "token \<Rightarrow> bool" where
  "starts tok \<longleftrightarrow> tok_type tok \<in> {T_nullKw, T_plus, T_string, T_ident, T_lparen} \<or> isConst tok \<or> prefixToken tok"

lemma toks_starts: "fits t p \<Longrightarrow> toks t \<noteq> [] \<and> starts (hd (toks t))"
proof (induction t arbitrary: p rule: tree.induct [where ?P2.0 = "\<lambda>_. True"])
  case (Strings ts)
  then show ?case by (cases ts) (auto simp: starts_def tok_is_def)
next
  case (Prefix oper t)
  then show ?case by (auto simp: starts_def unaryToken_def)
next
  case (Postfix t oper)
  then have "toks t \<noteq> [] \<and> starts (hd (toks t))" using Postfix.IH [of p] by simp
  then show ?case by simp
next
  case (Binary l oper r)
  then have "toks l \<noteq> [] \<and> starts (hd (toks l))" using Binary.IH(1) [of p] by simp
  then show ?case by simp
next
  case (Ternary c quest a colon b)
  then have "toks c \<noteq> [] \<and> starts (hd (toks c))" using Ternary.IH(1) [of 0] by simp
  then show ?case by simp
next
  case (Assign l oper r)
  then have "toks l \<noteq> [] \<and> starts (hd (toks l))" using Assign.IH(1) [of p] by simp
  then show ?case by simp
next
  case (Call f lp as)
  then have "toks f \<noteq> [] \<and> starts (hd (toks f))" using Call.IH(1) [of p] by simp
  then show ?case by simp
qed (auto simp: starts_def tok_is_def)

end
