(* ===== verification/Parse_Follow.thy ===== *)
theory Parse_Follow
  imports Parse_Tree
begin

text \<open>
  Reading tokens that are known. \<open>streams\<close> says which tokens a tokenizer will return, and \<open>does\<close>
  that a computation of the parser, started with one tokenizer, is another one started with another:
  the steps of the parser are followed by rewriting one into the next while the tokens are used up.
\<close>

section \<open>Streams of tokens\<close>

definition plain :: "token \<Rightarrow> bool" where
  "plain tok \<longleftrightarrow> tok_type tok \<notin> {T_doc, T_ann, T_popErrCtx, T_istrBegin}"

primrec streams :: "(toker \<Rightarrow> locals) \<Rightarrow> token list \<Rightarrow> toker \<Rightarrow> toker \<Rightarrow> bool" where
  "streams jk [] t t' \<longleftrightarrow> t' = t"
| "streams jk (tok # ts) t t' \<longleftrightarrow> plain tok \<and>
     (\<exists>u. getToken jk t = Inr (tok, u) \<and> tk_state u = st_none \<and> streams jk ts u t')"

lemma streams_putBack:
  assumes "streams jk ts u t'" and "plain tok" and "tk_state u = st_none"
  shows "streams jk (tok # ts) (putBack tok u) t'"
  using assms getToken_putBack [of u tok jk] by (simp add: plain_def tok_is_def)

section \<open>Actions on the part that is built\<close>

lemma andBind_yields [simp]: "andBind m yields = m"
proof
  fix s show "andBind m yields s = m s"
    by (cases "m s") (auto simp: andBind_def yields_def split: sum.split)
qed

lemma sem_simps [simp]: "sem (yields x) = yields x" "sem (throw e) = throw e"
  by (simp_all add: fun_eq_iff sem_def onPart_def yields_def throw_def)

lemma sem_andBind: "sem (andBind m f) = andBind (sem m) (\<lambda>x. sem (f x))"
proof
  fix s :: "'a pstate"
  show "sem (andBind m f) s = andBind (sem m) (\<lambda>x. sem (f x)) s"
  proof (cases "m (ps_sem s)")
    case (Some r)
    then show ?thesis
    proof (cases r)
      case (Inr q)
      then obtain x p where q: "m (ps_sem s) = Some (Inr (x, p))" using Some by (cases q) auto
      show ?thesis
      proof (cases "f x p")
        case (Some r')
        with q show ?thesis by (cases r') (auto simp: sem_def onPart_def andBind_def)
      qed (use q in \<open>simp add: sem_def onPart_def andBind_def\<close>)
    qed (simp add: sem_def onPart_def andBind_def)
  qed (simp add: sem_def onPart_def andBind_def)
qed

section \<open>Steps\<close>

definition does :: "toker \<Rightarrow> ('c, 'a) parser \<Rightarrow> toker \<Rightarrow> ('c, 'a) parser \<Rightarrow> bool" where
  "does t m t' m' \<longleftrightarrow> (\<forall>s. ps_toker s = t \<longrightarrow> m s = m' (s\<lparr>ps_toker := t'\<rparr>))"

lemma does_refl: "does t m t m"
  by (auto simp: does_def)

lemma does_trans [trans]: "does t m t' m' \<Longrightarrow> does t' m' t'' m'' \<Longrightarrow> does t m t'' m''"
  unfolding does_def by (metis (no_types, lifting) pstate.select_convs(1) pstate.surjective
      pstate.update_convs(1))

lemma does_bind: "does t m t' m' \<Longrightarrow> does t (andBind m k) t' (andBind m' k)"
  by (simp add: does_def andBind_def)

lemma does_sem:
  fixes m :: "('c, 'x) sem"
  assumes "\<And>e. does u (k e) u' (k' e)"
  shows "does u (andBind (sem m) k) u' (andBind (sem m) k')"
  unfolding does_def
proof (intro allI impI)
  fix s :: "'c pstate" assume s: "ps_toker s = u"
  have eq: "k x (s\<lparr>ps_sem := p\<rparr>) = k' x (s\<lparr>ps_toker := u', ps_sem := p\<rparr>)" for x p
    using assms [of x] s by (cases s) (simp add: does_def)
  show "andBind (sem m) k s = andBind (sem m) k' (s\<lparr>ps_toker := u'\<rparr>)"
  proof (cases "m (ps_sem s)")
    case (Some r)
    then show ?thesis
      by (cases r) (auto simp: andBind_def sem_def onPart_def eq)
  qed (simp add: andBind_def sem_def onPart_def)
qed

lemma does_unread: "does u (andBind (unread tok) k) (putBack tok u) (k ())"
  by (auto simp: does_def unread_def)

text \<open>
  The next token of a stream, read by the parser or straight from the tokenizer. \<open>past env t\<close> is the
  tokenizer after it.
\<close>

definition past :: "('e, 'c) penv \<Rightarrow> toker \<Rightarrow> toker" where
  "past env t = (case getToken (junk env) t of Inl _ \<Rightarrow> t | Inr (_, u) \<Rightarrow> u)"

lemma stream_next:
  assumes "streams (junk env) (tok # ts) t t'"
  shows "streams (junk env) ts (past env t) t'" "tk_state (past env t) = st_none" "plain tok"
    "getToken (junk env) t = Inr (tok, past env t)"
  using assms by (auto simp: past_def)

lemma stream_back:
  "streams (junk env) (tok # ts) t t' \<Longrightarrow> streams (junk env) (tok # ts) (putBack tok (past env t)) t'"
  using stream_next(1-3) [of env tok ts t t'] streams_putBack by auto

lemma does_raw:
  assumes "streams (junk env) (tok # ts) t t'"
  shows "does t (andBind (rawToken env) k) (past env t) (k tok)"
  using stream_next(4) [OF assms] by (auto simp: does_def rawToken_def andBind_returns)

lemma does_next:
  assumes "streams (junk env) (tok # ts) t t'"
  shows "does t (andBind (nextToken env) k) (past env t) (k tok)"
proof -
  note u = stream_next [OF assms]
  have "nextToken env s = Some (Inr (tok, s\<lparr>ps_toker := past env t\<rparr>))" if "ps_toker s = t" for s
  proof -
    have "skipDocs env s = Some (Inr (tok, s\<lparr>ps_toker := past env t\<rparr>))"
      using that u by (subst skipDocs.simps) (simp add: rawToken_def andBind_returns plain_def tok_is_def yields_def)
    then show ?thesis
      using u(3) by (simp add: nextToken_def andBind_returns skipAnnotations.simps plain_def tok_is_def yields_def)
  qed
  then show ?thesis by (simp add: does_def andBind_returns)
qed

lemma does_step: "does t m u m' \<Longrightarrow> m' = m'' \<Longrightarrow> does t m u m''"
  by simp

declare streams.simps(2) [simp del]

section \<open>The calls\<close>

lemma parse_calls: "parse env task = runTask env (parse env) task"
  by (rule ext) (rule parse.simps)

lemma exprOf_asExpr: "andBind (asExpr m) (\<lambda>r. case r of RExpr e \<Rightarrow> yields e | _ \<Rightarrow> wrongResult) = m"
  by (simp add: asExpr_def andBind_assoc)

lemma exprOf_parse:
  "exprOf (parse env) (Expression p) = expressionBody env (parse env) p"
  "exprOf (parse env) (Secondary e ident p) = secondaryBody env (parse env) e ident p"
  "exprOf (parse env) (SecondaryLoop same ident p x tok) = secondaryLoopBody env (parse env) same ident p x tok"
  unfolding exprOf_def parse_calls [of env "Expression p"] parse_calls [of env "Secondary e ident p"]
    parse_calls [of env "SecondaryLoop same ident p x tok"] runTask_def task.case
  by (rule exprOf_asExpr)+

lemma exprsOf_parse:
  "exprsOf (parse env) (MethodArgs closer vals tok) = methodArgsBody env (parse env) closer vals tok"
  unfolding exprsOf_def parse_calls [of env "MethodArgs closer vals tok"] runTask_def task.case
  by (simp add: andBind_assoc)

lemma primaryOf_parse:
  "primaryOf (parse env) Primary = primaryBody env (parse env)"
  "primaryOf (parse env) (PrimaryLoop x type ident) = primaryLoopBody env (parse env) x type ident"
  unfolding primaryOf_def parse_calls [of env Primary] parse_calls [of env "PrimaryLoop x type ident"]
    runTask_def task.case
  by (simp_all add: andBind_assoc split_def)

end
