(* ===== verification/Parse_Correct.thy ===== *)
theory Parse_Correct
  imports Parse_Follow
begin

text \<open>
  The parser reads the tokens of a tree as that tree. For every construct there is a lemma that says
  which branch the functions of the parser take at its first token.
\<close>

section \<open>Branches\<close>

abbreviation expr :: "('e, 'c) penv \<Rightarrow> nat \<Rightarrow> ('c, 'e) parser" where
  "expr env p \<equiv> exprOf (parse env) (Expression p)"

abbreviation suffixAt :: "('e, 'c) penv \<Rightarrow> bool \<Rightarrow> token \<Rightarrow> nat \<Rightarrow> 'e \<Rightarrow> token \<Rightarrow> ('c, 'e) parser" where
  "suffixAt env same ident p e tok \<equiv> exprOf (parse env) (SecondaryLoop same ident p e tok)"

abbreviation suffixes :: "('e, 'c) penv \<Rightarrow> bool \<Rightarrow> token \<Rightarrow> nat \<Rightarrow> 'e \<Rightarrow> ('c, 'e) parser" where
  "suffixes env same ident p e \<equiv> andBind (nextToken env) (suffixAt env same ident p e)"

text \<open>Operators with two operands are told apart from everything else the loop looks for.\<close>

lemma binOp_type:
  "isBinOp tok \<Longrightarrow> tok_type tok \<notin> {T_dot, T_scoping, T_lbracket, T_lparen, T_incr, T_decr, T_istrBegin,
      T_quest, T_bang, T_assign, T_define}"
  by (auto simp: isBinOp_def)

lemma augAssign_type:
  "isAugAssign tok \<Longrightarrow> tok_type tok \<notin> {T_dot, T_scoping, T_lbracket, T_lparen, T_incr, T_decr, T_istrBegin,
      T_quest, T_bang, T_assign, T_define} \<and> \<not> isBinOp tok"
  by (auto simp: isAugAssign_def isBinOp_def)

lemma precOf_Some: "precOf tok = Some q \<longleftrightarrow> isBinOp tok \<and> map_of opPrecMap (tok_data tok) = Some q"
  by (simp add: precOf_def)

lemma getPrecedence_Some: "map_of opPrecMap s = Some q \<Longrightarrow> getPrecedence s = yields q"
  by (simp add: getPrecedence_def)

lemmas branch_simps = secondaryLoopBody_def Let_def tok_is_def

lemma suffix_stop:
  assumes "stops p tok" and "\<not> tok_is T_quest tok"
  shows "suffixAt env same ident p e tok = andBind (unread tok) (\<lambda>_. yields e)"
proof (cases "isBinOp tok")
  case True
  then obtain q where q: "q \<le> p" "map_of opPrecMap (tok_data tok) = Some q"
    using assms(1) by (auto simp: stops_def precOf_Some)
  with True binOp_type [OF True] show ?thesis
    by (subst exprOf_parse(3)) (simp add: branch_simps getPrecedence_Some)
next
  case False
  with assms show ?thesis by (subst exprOf_parse(3)) (simp add: branch_simps stops_def)
qed

lemma suffix_binary:
  assumes "precOf tok = Some q" and "p < q"
  shows "suffixAt env same ident p e tok =
    andBind (expr env q) (\<lambda>rhs. andBind (sem (binOp env e tok rhs)) (suffixes env False ident p))"
  using assms binOp_type [of tok]
  by (subst exprOf_parse(3)) (simp add: branch_simps precOf_Some getPrecedence_Some parseBinOp_def andBind_assoc)

lemma suffix_postfix:
  assumes "tok_is T_incr tok \<or> tok_is T_decr tok"
  shows "suffixAt env same ident p e tok = andBind (sem (postfixOp env e tok)) (suffixes env False ident p)"
  using assms by (subst exprOf_parse(3)) (auto simp: branch_simps)

lemma suffix_call:
  assumes "isLParen tok"
  shows "suffixAt env same ident p e tok = andBind (parseMethodArgs env (parse env) T_rparen [])
    (\<lambda>vals. andBind (sem (makeCall env e vals)) (suffixes env False ident p))"
  using assms by (subst exprOf_parse(3)) (simp add: branch_simps)

lemma suffix_assign:
  assumes "tok_is T_assign tok \<or> isAugAssign tok"
  shows "suffixAt env same ident p e tok =
    andBind (expr env 0) (\<lambda>val. andBind (sem (makeAssign env e tok val)) (suffixes env False ident p))"
  using assms augAssign_type [of tok] by (subst exprOf_parse(3)) (auto simp: branch_simps isBinOp_def)

lemma suffix_quest:
  assumes "tok_is T_quest tok"
  shows "suffixAt env same ident p e tok = andBind (nextToken env) (\<lambda>tok2.
    if tok_is T_dot tok2 then andBind (noGetter env e) (\<lambda>_.
      andBind (parsePostDot env (parse env) e None True) (\<lambda>(x, _). suffixes env False ident p x))
    else andBind (unread tok2) (\<lambda>_.
      if logOrPrec \<le> p then andBind (unread tok) (\<lambda>_. yields e)
      else andBind (parseTernary env (parse env) e) (suffixes env False ident p)))"
  using assms by (subst exprOf_parse(3)) (simp add: branch_simps isBinOp_def)

text \<open>The first token of an expression.\<close>

lemma secondary_suffixes:
  "exprOf (parse env) (Secondary (Some e) ident p) = suffixes env True ident p e"
  by (subst exprOf_parse(2)) (simp add: secondaryBody_def)

lemma const_type: "isConst tok \<Longrightarrow> tok_type tok \<notin>
    {T_nullKw, T_lparen, T_typeofKw, T_ident, T_string, T_istrBegin}"
  by (auto simp: isConst_def)

lemma numConst_sem:
  assumes "isConst tok"
  shows "(numConst env tok :: ('c, 'e) parser option) = Some (sem (the (numConst env tok)))"
  using assms by (auto simp: isConst_def numConst_def parseConstInt_def tok_is_def)

lemma at_null: "tok_is T_nullKw tok \<Longrightarrow>
    expressionAt env (parse env) p tok = suffixes env True endToken p (newNull env (Some (voidptrType env)))"
  by (simp add: expressionAt_def tok_is_def secondary_suffixes Let_def)

lemma at_paren: "isLParen tok \<Longrightarrow> expressionAt env (parse env) p tok =
    andBind (expr env 0) (\<lambda>e. andBind (nextToken env) (\<lambda>tok.
      if \<not> isRParen tok then unexpected tok ''expected a right paren'' else suffixes env True endToken p e))"
  by (simp add: expressionAt_def tok_is_def secondary_suffixes Let_def)

lemma at_ident: "isIdent tok \<Longrightarrow> expressionAt env (parse env) p tok =
    andBind (unread tok) (\<lambda>_. andBind (primaryOf (parse env) Primary) (\<lambda>(e, _, ident).
      exprOf (parse env) (Secondary e ident p)))"
  by (simp add: expressionAt_def tok_is_def Let_def)

lemma at_string: "isString tok \<Longrightarrow> expressionAt env (parse env) p tok =
    andBind (stringsLoop env [] tok) (\<lambda>str. andBind (sem (getStrConst env str)) (suffixes env True endToken p))"
  by (simp add: expressionAt_def tok_is_def secondary_suffixes Let_def)

lemma at_prefix: "unaryToken tok \<Longrightarrow> expressionAt env (parse env) p tok =
    andBind (expr env 10) (\<lambda>x. andBind (sem (prefixOp env tok x)) (suffixes env True endToken p))"
  by (auto simp: expressionAt_def tok_is_def secondary_suffixes Let_def unaryToken_def prefixToken_def
      numConst_def getPrecedence_Some)

lemma at_const:
  assumes "isConst tok"
  shows "expressionAt env (parse env) p tok =
    andBind (sem (the (numConst env tok))) (suffixes env True endToken p)"
  using const_type [OF assms]
  by (simp add: expressionAt_def tok_is_def secondary_suffixes Let_def numConst_sem [OF assms])

lemma at_plus:
  assumes "tok_is T_plus tok"
  shows "expressionAt env (parse env) p tok = andBind (nextToken env) (\<lambda>tok. case numConst env tok of
     Some m \<Rightarrow> andBind m (suffixes env True endToken p) | None \<Rightarrow> unexpected tok ''unexpected unary +'')"
  using assms by (simp add: expressionAt_def tok_is_def secondary_suffixes Let_def numConst_def cong: option.case_cong)

section \<open>Identifiers\<close>

text \<open>A question mark is followed by another token than a dot.\<close>

definition questOk :: "token \<Rightarrow> token list \<Rightarrow> bool" where
  "questOk tok ts \<longleftrightarrow> (tok_is T_quest tok \<longrightarrow> (\<exists>tok2 ts'. ts = tok2 # ts' \<and> \<not> tok_is T_dot tok2))"

lemma primary_ends:
  assumes st: "streams (junk env) (tok # ts) t t'"
    and tok: "tok_type tok \<notin> {T_scoping, T_dot, T_lbracket}" and q: "questOk tok ts"
  shows "\<exists>u. streams (junk env) (tok # ts) u t' \<and> (\<forall>x type ident k.
    does t (andBind (primaryOf (parse env) (PrimaryLoop x type ident)) k) u (k (Some x, type, ident)))"
proof (cases "tok_is T_quest tok")
  case False
  have "does t (andBind (primaryOf (parse env) (PrimaryLoop x type ident)) k)
      (past env t) (andBind (unread tok) (\<lambda>_. k (Some x, type, ident)))" for x type ident k
    by (subst primaryOf_parse(2), unfold primaryLoopBody_def andBind_assoc, rule does_step [OF does_next [OF st]])
      (use False tok in \<open>simp add: tok_is_def andBind_assoc\<close>)
  then show ?thesis using stream_back [OF st] does_trans [OF _ does_unread] by blast
next
  case True
  then obtain tok2 ts' where ts: "ts = tok2 # ts'" "\<not> tok_is T_dot tok2" using q by (auto simp: questOk_def)
  note st2 = stream_next(1) [OF st, unfolded ts(1)]
  let ?u1 = "past env t"
  let ?u2 = "past env ?u1"
  let ?u = "putBack tok (putBack tok2 ?u2)"
  have "does t (andBind (primaryOf (parse env) (PrimaryLoop x type ident)) k) ?u (k (Some x, type, ident))" for x type ident k
  proof -
    have "does t (andBind (primaryOf (parse env) (PrimaryLoop x type ident)) k)
        ?u1 (andBind (nextToken env) (\<lambda>tok2. andBind (if tok_is T_dot tok2 then
           andBind (parsePostDot env (parse env) x type True) (\<lambda>(e, type). primaryOf (parse env) (PrimaryLoop e type endToken))
         else andBind (unread tok2) (\<lambda>_. andBind (unread tok) (\<lambda>_. yields (Some x, type, ident)))) k))"
      by (subst primaryOf_parse(2), unfold primaryLoopBody_def andBind_assoc, rule does_step [OF does_next [OF st]])
        (use True in \<open>simp add: tok_is_def andBind_assoc\<close>)
    also have "does ?u1 \<dots> ?u2 (andBind (unread tok2) (\<lambda>_. andBind (unread tok) (\<lambda>_. k (Some x, type, ident))))"
      by (rule does_step [OF does_next [OF st2]]) (use ts in \<open>simp add: andBind_assoc\<close>)
    also have "does ?u2 \<dots> (putBack tok2 ?u2) (andBind (unread tok) (\<lambda>_. k (Some x, type, ident)))"
      by (rule does_unread)
    also have "does (putBack tok2 ?u2) \<dots> ?u (k (Some x, type, ident))" by (rule does_unread)
    finally show ?thesis .
  qed
  moreover have "streams (junk env) (tok # ts) ?u t'"
    unfolding ts(1) by (rule streams_putBack [OF stream_back [OF st2] stream_next(3) [OF st]])
      (use stream_next(2) [OF st2] in \<open>simp add: putBack_def\<close>)
  ultimately show ?thesis by blast
qed

lemma expr_at:
  assumes "streams (junk env) (tok # ts) t t'"
  shows "does t (expr env p) (past env t) (expressionAt env (parse env) p tok)"
  by (subst exprOf_parse(1), unfold expressionBody_def, rule does_next [OF assms])

lemma does_throw: "does t (throw e) u (throw e)"
  by (simp add: does_def throw_def)

lemma ident_unknown:
  assumes st: "streams (junk env) (tok # ts) t t'" and "\<not> tok_is T_define tok"
  shows "does t (exprOf (parse env) (Secondary None ident p)) u (throw (ErrorAt ident ''Unknown identifier''))"
proof -
  have "does t (exprOf (parse env) (Secondary None ident p)) (past env t)
      (throw (ErrorAt ident ''Unknown identifier''))"
    by (subst exprOf_parse(2), unfold secondaryBody_def, rule does_step [OF does_next [OF st]])
      (use assms(2) in simp)
  then show ?thesis using does_throw does_trans by blast
qed

text \<open>The rest of an identifier once it is looked up, as the parser does it and as it should be.\<close>

definition primaryThen :: "('e, 'c) penv \<Rightarrow> token \<Rightarrow> nat \<Rightarrow> 'e option \<times> bool \<times> addr option \<Rightarrow> ('c, 'e) parser" where
  "primaryThen env nm p = (\<lambda>(e, isDef, type). andBind (case e of
       None \<Rightarrow> yields (None, None, nm)
     | Some e \<Rightarrow> primaryOf (parse env) (PrimaryLoop e type (if isDef then nm else endToken)))
     (\<lambda>(e, _, ident). exprOf (parse env) (Secondary e ident p)))"

definition identThen :: "('e, 'c) penv \<Rightarrow> token \<Rightarrow> nat \<Rightarrow> 'e option \<times> bool \<times> addr option \<Rightarrow> ('c, 'e) parser" where
  "identThen env nm p = (\<lambda>(e, isDef, _). case e of
       None \<Rightarrow> throw (ErrorAt nm ''Unknown identifier'')
     | Some x \<Rightarrow> suffixes env True (if isDef then nm else endToken) p x)"

lemma identThen_sem:
  "identThen env nm p = (\<lambda>r. andBind (sem (case r of (e, isDef, _) \<Rightarrow> case e of
       None \<Rightarrow> throw (ErrorAt nm ''Unknown identifier'')
     | Some x \<Rightarrow> yields (x, if isDef then nm else endToken))) (\<lambda>(e, ident). suffixes env True ident p e))"
  by (auto simp: fun_eq_iff identThen_def split: option.split)

lemma ident_primary:
  fixes env :: "('e, 'c) penv"
  assumes st: "streams (junk env) (tok # ts) t t'" and "ends tok (Ident nm)" and "questOk tok ts"
  shows "\<exists>u. streams (junk env) (tok # ts) u t' \<and> (\<forall>found.
    does t (andBind (nextToken env) (\<lambda>tok2. andBind (unread tok2) (\<lambda>_.
        andBind (sem (identPrimary env nm found (tok_is T_define tok2))) (primaryThen env nm p))))
      u (andBind (sem (identPrimary env nm found False)) (identThen env nm p)))"
proof -
  let ?t1 = "putBack tok (past env t)"
  have tok: "tok_type tok \<notin> {T_scoping, T_dot, T_lbracket}" "\<not> tok_is T_define tok"
    using assms(2) by (auto simp: tok_is_def)
  note st1 = stream_back [OF st]
  obtain u where u: "streams (junk env) (tok # ts) u t'" and
    ends: "\<And>x type ident (k :: 'e option \<times> addr option \<times> token \<Rightarrow> ('c, 'e) parser).
      does ?t1 (andBind (primaryOf (parse env) (PrimaryLoop x type ident)) k) u (k (Some x, type, ident))"
    using primary_ends [OF st1 tok(1) assms(3)] by blast
  have prim: "does ?t1 (andBind (primaryOf (parse env) (PrimaryLoop x type ident))
        (\<lambda>(e, _, ident). exprOf (parse env) (Secondary e ident p))) u (suffixes env True ident p x)" for x type ident
    by (rule does_step [OF ends]) (simp add: secondary_suffixes)
  have rest: "does ?t1 (primaryThen env nm p r) u (identThen env nm p r)" for r
    using prim ident_unknown [OF st1 tok(2)]
    by (cases r; cases "fst r") (auto simp: primaryThen_def identThen_def)
  have "does t (andBind (nextToken env) (\<lambda>tok2. andBind (unread tok2) (\<lambda>_.
        andBind (sem (identPrimary env nm found (tok_is T_define tok2))) (primaryThen env nm p))))
      u (andBind (sem (identPrimary env nm found False)) (identThen env nm p))" for found
  proof -
    have "does t (andBind (nextToken env) (\<lambda>tok2. andBind (unread tok2) (\<lambda>_.
        andBind (sem (identPrimary env nm found (tok_is T_define tok2))) (primaryThen env nm p))))
      (past env t) (andBind (unread tok) (\<lambda>_.
        andBind (sem (identPrimary env nm found False)) (primaryThen env nm p)))"
      by (rule does_step [OF does_next [OF st]]) (use tok(2) in simp)
    also have "does (past env t) \<dots> ?t1 (andBind (sem (identPrimary env nm found False)) (primaryThen env nm p))"
      by (rule does_unread)
    also have "does ?t1 \<dots> u (andBind (sem (identPrimary env nm found False)) (identThen env nm p))"
      by (rule does_sem) (rule rest)
    finally show ?thesis .
  qed
  with u show ?thesis by blast
qed

lemma follow_ident:
  fixes env :: "('e, 'c) penv"
  assumes st: "streams (junk env) (nm # tok # ts) t t'" and nm: "isIdent nm"
    and "ends tok (Ident nm)" and "questOk tok ts"
  shows "\<exists>u. streams (junk env) (tok # ts) u t' \<and>
    does t (expr env p) u (andBind (sem (elabIdent env nm)) (\<lambda>(e, ident). suffixes env True ident p e))"
proof -
  let ?t1 = "putBack nm (past env t)"
  note st1 = stream_back [OF st]
  let ?K = "andBind (primaryOf (parse env) Primary) (\<lambda>(e, _, ident). exprOf (parse env) (Secondary e ident p))"
  obtain u where u: "streams (junk env) (tok # ts) u t'" and
    rest: "\<And>found. does (past env ?t1) (andBind (nextToken env) (\<lambda>tok2. andBind (unread tok2) (\<lambda>_.
        andBind (sem (identPrimary env nm found (tok_is T_define tok2))) (primaryThen env nm p))))
      u (andBind (sem (identPrimary env nm found False)) (identThen env nm p))"
    using ident_primary [OF stream_next(1) [OF st1] assms(3,4)] by blast
  have "does t (expr env p) (past env t) (andBind (unread nm) (\<lambda>_. ?K))"
    using expr_at [OF st, of p] by (simp only: at_ident [OF nm])
  also have "does (past env t) \<dots> ?t1 ?K" by (rule does_unread)
  also have "does ?t1 \<dots> (past env ?t1) (andBind (sem (lookUpDef env (tok_data nm) None)) (\<lambda>found.
      andBind (nextToken env) (\<lambda>tok2. andBind (unread tok2) (\<lambda>_.
        andBind (sem (identPrimary env nm found (tok_is T_define tok2))) (primaryThen env nm p)))))"
    by (subst primaryOf_parse(1), unfold primaryBody_def andBind_assoc, rule does_step [OF does_next [OF st1]])
      (use nm in \<open>simp add: tok_is_def andBind_assoc primaryThen_def split_def\<close>)
  also have "does (past env ?t1) \<dots> u (andBind (sem (lookUpDef env (tok_data nm) None)) (\<lambda>found.
      andBind (sem (identPrimary env nm found False)) (identThen env nm p)))"
    by (rule does_sem) (rule rest)
  also have "andBind (sem (lookUpDef env (tok_data nm) None)) (\<lambda>found.
      andBind (sem (identPrimary env nm found False)) (identThen env nm p)) =
    andBind (sem (elabIdent env nm)) (\<lambda>(e, ident). suffixes env True ident p e)"
    by (simp add: elabIdent_def sem_andBind andBind_assoc identThen_sem)
  finally show ?thesis using u by blast
qed

end
