(* ===== verification/Parse_Trees.thy ===== *)
theory Parse_Trees
  imports Parse_Correct
begin

text \<open>
  The main induction: at the tokens of a tree the parser makes the tree's meaning and stops at the
  token after it.
\<close>

section \<open>Meaning with the loop's variables\<close>

text \<open>
  Besides the expression, the loop over suffixes keeps whether it has seen one and the identifier the
  expression began with.
\<close>

definition extendTop ::
  "('c, 'e \<times> bool \<times> token) sem \<Rightarrow> ('e \<Rightarrow> ('c, 'e) sem) \<Rightarrow> ('c, 'e \<times> bool \<times> token) sem" where
  "extendTop m g = andBind m (\<lambda>(e, _, ident). andBind (g e) (\<lambda>x. yields (x, False, ident)))"

fun elabTop :: "('e, 'c) penv \<Rightarrow> tree \<Rightarrow> ('c, 'e \<times> bool \<times> token) sem" where
  "elabTop env (Ident tok) = andBind (elabIdent env tok) (\<lambda>(e, ident). yields (e, True, ident))"
| "elabTop env (Postfix t oper) = extendTop (elabTop env t) (\<lambda>e. postfixOp env e oper)"
| "elabTop env (Binary l oper r) = extendTop (elabTop env l) (\<lambda>a. andBind (elab env r) (binOp env a oper))"
| "elabTop env (Ternary c quest a colon b) = extendTop (elabTop env c) (\<lambda>cond.
     andBind (elab env a) (\<lambda>x. andBind (elab env b) (\<lambda>y. createTernary env cond x (Some y))))"
| "elabTop env (Assign l oper r) = extendTop (elabTop env l) (\<lambda>a. andBind (elab env r) (makeAssign env a oper))"
| "elabTop env (Call f lp as) = extendTop (elabTop env f) (\<lambda>e. andBind (elabArgs env as) (makeCall env e))"
| "elabTop env t = andBind (elab env t) (\<lambda>e. yields (e, True, endToken))"

lemma extendTop_fst:
  "andBind (extendTop m g) (\<lambda>r. yields (fst r)) = andBind (andBind m (\<lambda>r. yields (fst r))) g"
  by (simp add: extendTop_def andBind_assoc split_def)

lemma elabTop_fst: "andBind (elabTop env t) (\<lambda>r. yields (fst r)) = elab env t"
  by (induction env t rule: elabTop.induct) (simp_all add: extendTop_fst andBind_assoc split_def)

definition loopOn :: "('e, 'c) penv \<Rightarrow> nat \<Rightarrow> 'e \<times> bool \<times> token \<Rightarrow> ('c, 'e) parser" where
  "loopOn env p = (\<lambda>(e, same, ident). suffixes env same ident p e)"

definition follows :: "('e, 'c) penv \<Rightarrow> nat \<Rightarrow> tree \<Rightarrow> bool" where
  "follows env p x \<longleftrightarrow> (\<forall>tok ts t t'. ends tok x \<longrightarrow> questOk tok ts \<longrightarrow>
     streams (junk env) (toks x @ tok # ts) t t' \<longrightarrow>
     (\<exists>u. streams (junk env) (tok # ts) u t' \<and> does t (expr env p) u (andBind (sem (elabTop env x)) (loopOn env p))))"

lemma followsD:
  "follows env p x \<Longrightarrow> ends tok x \<Longrightarrow> questOk tok ts \<Longrightarrow> streams (junk env) (toks x @ tok # ts) t t' \<Longrightarrow>
    \<exists>u. streams (junk env) (tok # ts) u t' \<and> does t (expr env p) u (andBind (sem (elabTop env x)) (loopOn env p))"
  by (simp add: follows_def)

section \<open>The end of an expression\<close>

lemma loop_stops:
  assumes st: "streams (junk env) (tok # ts) t t'" and stop: "stops p tok" and q: "questOk tok ts"
  shows "\<exists>u. streams (junk env) (tok # ts) u t' \<and> (\<forall>r. does t (loopOn env p r) u (yields (fst r)))"
proof (cases "tok_is T_quest tok")
  case False
  have "does t (loopOn env p r) (putBack tok (past env t)) (yields (fst r))" for r
  proof -
    obtain e same ident where r: "r = (e, same, ident)" by (cases r)
    have "does t (loopOn env p r) (past env t) (andBind (unread tok) (\<lambda>_. yields e))"
      unfolding r loopOn_def prod.case
      by (rule does_step [OF does_next [OF st]]) (rule suffix_stop [OF stop False])
    also have "does (past env t) \<dots> (putBack tok (past env t)) (yields e)" by (rule does_unread)
    finally show ?thesis by (simp add: r)
  qed
  with stream_back [OF st] show ?thesis by blast
next
  case True
  then obtain tok2 ts' where ts: "ts = tok2 # ts'" "\<not> tok_is T_dot tok2" using q by (auto simp: questOk_def)
  note st2 = stream_next(1) [OF st, unfolded ts(1)]
  have p: "logOrPrec \<le> p" using stop True by (simp add: stops_def)
  let ?u1 = "past env t"
  let ?u2 = "past env ?u1"
  let ?u = "putBack tok (putBack tok2 ?u2)"
  have "does t (loopOn env p r) ?u (yields (fst r))" for r
  proof -
    obtain e same ident where r: "r = (e, same, ident)" by (cases r)
    have "does t (loopOn env p r) ?u1 (suffixAt env same ident p e tok)"
      using does_next [OF st, of "suffixAt env same ident p e"] by (simp add: r loopOn_def)
    also have "does ?u1 \<dots> ?u2 (andBind (unread tok2) (\<lambda>_. andBind (unread tok) (\<lambda>_. yields e)))"
      unfolding suffix_quest [OF True] by (rule does_step [OF does_next [OF st2]]) (use ts p in simp)
    also have "does ?u2 \<dots> (putBack tok2 ?u2) (andBind (unread tok) (\<lambda>_. yields e))" by (rule does_unread)
    also have "does (putBack tok2 ?u2) \<dots> ?u (yields e)" by (rule does_unread)
    finally show ?thesis by (simp add: r)
  qed
  moreover have "streams (junk env) (tok # ts) ?u t'"
    unfolding ts(1) by (rule streams_putBack [OF stream_back [OF st2] stream_next(3) [OF st]])
      (use stream_next(2) [OF st2] in \<open>simp add: putBack_def\<close>)
  ultimately show ?thesis by blast
qed

lemma parsed:
  assumes "follows env p x" and "stops p tok" and "ends tok x" and "questOk tok ts"
    and "streams (junk env) (toks x @ tok # ts) t t'"
  shows "\<exists>u. streams (junk env) (tok # ts) u t' \<and> does t (expr env p) u (sem (elab env x))"
proof -
  obtain u where u: "streams (junk env) (tok # ts) u t'"
      "does t (expr env p) u (andBind (sem (elabTop env x)) (loopOn env p))"
    using followsD [OF assms(1,3-5)] by blast
  obtain w where w: "streams (junk env) (tok # ts) w t'" "\<And>r. does u (loopOn env p r) w (yields (fst r))"
    using loop_stops [OF u(1) assms(2,4)] by blast
  have "does u (andBind (sem (elabTop env x)) (loopOn env p)) w (andBind (sem (elabTop env x)) (\<lambda>r. yields (fst r)))"
    by (rule does_sem) (rule w(2))
  also have "andBind (sem (elabTop env x)) (\<lambda>r. yields (fst r)) = sem (elab env x)"
    by (simp add: elabTop_fst [symmetric] sem_andBind split_def)
  finally show ?thesis using w(1) does_trans [OF u(2)] by blast
qed

lemma closing_questOk: "closing tok \<Longrightarrow> questOk tok ts"
  by (auto simp: closing_def questOk_def tok_is_def)

lemma parsed_closing:
  assumes "follows env 0 x" and "closing tok" and "streams (junk env) (toks x @ tok # ts) t t'"
  shows "\<exists>u. streams (junk env) (tok # ts) u t' \<and> does t (expr env 0) u (sem (elab env x))"
  using parsed [OF assms(1) closing_stops [OF assms(2)] closing_ends [OF assms(2)]
      closing_questOk [OF assms(2)] assms(3)] .

section \<open>Suffixes\<close>

lemma follows_extend:
  assumes left: "follows env p l" and ends: "ends oper l" "questOk oper ts1"
    and st: "streams (junk env) (toks l @ oper # ts1) t t'"
    and step: "\<And>u. streams (junk env) ts1 u t' \<Longrightarrow> \<exists>w. streams (junk env) ts w t' \<and>
      (\<forall>e same ident. does u (suffixAt env same ident p e oper) w (andBind (sem (g e)) (suffixes env False ident p)))"
  shows "\<exists>w. streams (junk env) ts w t' \<and>
    does t (expr env p) w (andBind (sem (extendTop (elabTop env l) g)) (loopOn env p))"
proof -
  obtain u where u: "streams (junk env) (oper # ts1) u t'"
      "does t (expr env p) u (andBind (sem (elabTop env l)) (loopOn env p))"
    using followsD [OF left ends st] by blast
  obtain w where w: "streams (junk env) ts w t'"
    and nxt: "\<And>e same ident. does (past env u) (suffixAt env same ident p e oper) w
      (andBind (sem (g e)) (suffixes env False ident p))"
    using step [OF stream_next(1) [OF u(1)]] by blast
  have "does u (loopOn env p r) w (case r of (e, _, ident) \<Rightarrow> andBind (sem (g e)) (suffixes env False ident p))" for r
    using does_trans [OF does_next [OF u(1), of "suffixAt env (fst (snd r)) (snd (snd r)) p (fst r)"] nxt]
    by (simp add: loopOn_def split_def)
  then have "does u (andBind (sem (elabTop env l)) (loopOn env p)) w (andBind (sem (elabTop env l))
      (\<lambda>r. case r of (e, _, ident) \<Rightarrow> andBind (sem (g e)) (suffixes env False ident p)))"
    by (rule does_sem)
  also have "andBind (sem (elabTop env l)) (\<lambda>r. case r of (e, _, ident) \<Rightarrow> andBind (sem (g e)) (suffixes env False ident p)) =
      andBind (sem (extendTop (elabTop env l) g)) (loopOn env p)"
    by (simp add: extendTop_def sem_andBind andBind_assoc loopOn_def split_def)
  finally show ?thesis using w does_trans [OF u(2)] by blast
qed

end
