(* ===== verification/Parse_Main.thy ===== *)
theory Parse_Main
  imports Parse_Trees
begin

text \<open>
  The parser of expressions implements the meaning of trees: the induction over trees, one lemma for
  every construct.
\<close>

section \<open>Heads\<close>

lemma head_form:
  "andBind (sem m) (suffixes env True endToken p) =
   andBind (sem (andBind m (\<lambda>e. yields (e, True, endToken)))) (loopOn env p)"
  by (simp add: sem_andBind andBind_assoc loopOn_def)

lemma follows_const:
  assumes "fits (Const c) p"
  shows "follows env p (Const c)"
  unfolding follows_def
proof (intro allI impI)
  fix tok ts t t' assume "streams (junk env) (toks (Const c) @ tok # ts) t t'"
  then have st: "streams (junk env) (c # tok # ts) t t'" by simp
  have "expressionAt env (parse env) p c = andBind (sem (elabConst env c)) (suffixes env True endToken p)"
  proof (cases "tok_is T_nullKw c")
    case True
    then show ?thesis by (simp add: at_null elabConst_def)
  next
    case False
    with assms show ?thesis by (simp add: at_const elabConst_def)
  qed
  then have "expressionAt env (parse env) p c = andBind (sem (elabTop env (Const c))) (loopOn env p)"
    by (simp add: head_form)
  with expr_at [OF st, of p]
  have "does t (expr env p) (past env t) (andBind (sem (elabTop env (Const c))) (loopOn env p))" by (simp only:)
  with stream_next(1) [OF st]
  show "\<exists>u. streams (junk env) (tok # ts) u t' \<and>
      does t (expr env p) u (andBind (sem (elabTop env (Const c))) (loopOn env p))" by blast
qed

lemma follows_signed:
  assumes "fits (Signed sign c) p"
  shows "follows env p (Signed sign c)"
  unfolding follows_def
proof (intro allI impI)
  fix tok ts t t' assume "streams (junk env) (toks (Signed sign c) @ tok # ts) t t'"
  then have st: "streams (junk env) (sign # c # tok # ts) t t'" by simp
  note st1 = stream_next(1) [OF st]
  have plus: "tok_is T_plus sign" and c: "isConst c" using assms by simp_all
  have "does t (expr env p) (past env t) (andBind (nextToken env) (\<lambda>tok. case numConst env tok of
     Some m \<Rightarrow> andBind m (suffixes env True endToken p) | None \<Rightarrow> unexpected tok ''unexpected unary +''))"
    using expr_at [OF st, of p] by (simp only: at_plus [OF plus])
  also have "does (past env t) \<dots> (past env (past env t)) (andBind (sem (the (numConst env c))) (suffixes env True endToken p))"
    by (rule does_step [OF does_next [OF st1]]) (simp add: numConst_sem [OF c])
  finally show "\<exists>u. streams (junk env) (tok # ts) u t' \<and>
      does t (expr env p) u (andBind (sem (elabTop env (Signed sign c))) (loopOn env p))"
    using stream_next(1) [OF st1] by (auto simp: head_form)
qed

lemma stringsLoop_eq: "stringsLoop env acc tok =
    (if isString tok then andBind (nextToken env) (stringsLoop env (acc @ tok_data tok))
     else andBind (unread tok) (\<lambda>_. yields acc))"
  by (rule ext) (rule stringsLoop.simps)

lemma strings_read:
  assumes "\<not> isString tok"
  shows "list_all isString ss \<Longrightarrow> streams (junk env) (ss @ tok # ts) t t' \<Longrightarrow>
    \<exists>u. streams (junk env) (tok # ts) u t' \<and>
      does t (andBind (nextToken env) (stringsLoop env acc)) u (yields (acc @ concat (map tok_data ss)))"
proof (induction ss arbitrary: acc t)
  case Nil
  then have st: "streams (junk env) (tok # ts) t t'" by simp
  have "does t (andBind (nextToken env) (stringsLoop env acc)) (past env t) (andBind (unread tok) (\<lambda>_. yields acc))"
    by (rule does_step [OF does_next [OF st]]) (simp add: stringsLoop_eq [of env acc tok] assms)
  also have "does (past env t) \<dots> (putBack tok (past env t)) (yields acc)" by (rule does_unread)
  finally show ?case using stream_back [OF st] by auto
next
  case (Cons c ss)
  then have st: "streams (junk env) (c # ss @ tok # ts) t t'" by simp
  have "does t (andBind (nextToken env) (stringsLoop env acc)) (past env t)
      (andBind (nextToken env) (stringsLoop env (acc @ tok_data c)))"
    by (rule does_step [OF does_next [OF st]]) (use Cons.prems in \<open>simp add: stringsLoop_eq [of env acc c]\<close>)
  moreover obtain u where "streams (junk env) (tok # ts) u t'"
    "does (past env t) (andBind (nextToken env) (stringsLoop env (acc @ tok_data c))) u
      (yields ((acc @ tok_data c) @ concat (map tok_data ss)))"
    using Cons.IH [OF _ stream_next(1) [OF st], of "acc @ tok_data c"] Cons.prems(1)
    unfolding list.pred_inject(2) by blast
  ultimately show ?case using does_trans by (simp del: streams.simps) blast
qed

lemma follows_strings:
  fixes env :: "('e, 'c) penv"
  assumes "fits (Strings ss) p"
  shows "follows env p (Strings ss)"
  unfolding follows_def
proof (intro allI impI)
  fix tok ts t t'
  assume no: "ends tok (Strings ss)" and "streams (junk env) (toks (Strings ss) @ tok # ts) t t'"
  moreover obtain c cs where ss: "ss = c # cs" "isString c" "list_all isString cs"
    using assms by (cases ss) auto
  ultimately have st: "streams (junk env) (c # cs @ tok # ts) t t'" by simp
  let ?K = "\<lambda>str. andBind (sem (getStrConst env str)) (suffixes env True endToken p)"
  obtain u where u: "streams (junk env) (tok # ts) u t'"
    "does (past env t) (andBind (nextToken env) (stringsLoop env (tok_data c))) u
      (yields (tok_data c @ concat (map tok_data cs)))"
    using strings_read [OF _ ss(3) stream_next(1) [OF st], of "tok_data c"] no
    unfolding ends.simps by blast
  have "does t (expr env p) (past env t) (andBind (stringsLoop env [] c) ?K)"
    using expr_at [OF st, of p] by (simp only: at_string [OF ss(2)])
  also have "andBind (stringsLoop env [] c) ?K = andBind (andBind (nextToken env) (stringsLoop env (tok_data c))) ?K"
    by (simp add: stringsLoop_eq [of env "[]" c] ss(2))
  also have "does (past env t) \<dots> u (andBind (yields (tok_data c @ concat (map tok_data cs))) ?K)"
    by (rule does_bind [OF u(2)])
  finally show "\<exists>u. streams (junk env) (tok # ts) u t' \<and>
      does t (expr env p) u (andBind (sem (elabTop env (Strings ss))) (loopOn env p))"
    using u(1) by (auto simp: head_form ss)
qed

lemma follows_ident:
  assumes "fits (Ident nm) p"
  shows "follows env p (Ident nm)"
  unfolding follows_def
proof (intro allI impI)
  fix tok ts t t'
  assume a: "ends tok (Ident nm)" "questOk tok ts" "streams (junk env) (toks (Ident nm) @ tok # ts) t t'"
  have nm: "isIdent nm" using assms by simp
  have "andBind (sem (elabIdent env nm)) (\<lambda>(e, ident). suffixes env True ident p e) =
      andBind (sem (elabTop env (Ident nm))) (loopOn env p)"
    by (simp add: sem_andBind andBind_assoc loopOn_def split_def)
  then show "\<exists>u. streams (junk env) (tok # ts) u t' \<and>
      does t (expr env p) u (andBind (sem (elabTop env (Ident nm))) (loopOn env p))"
    using follow_ident [OF _ nm a(1,2), of env t t' p] a(3) by simp
qed

lemma follows_paren:
  assumes "fits (Paren lp x rp) p" and x: "follows env 0 x"
  shows "follows env p (Paren lp x rp)"
  unfolding follows_def
proof (intro allI impI)
  fix tok ts t t' assume "streams (junk env) (toks (Paren lp x rp) @ tok # ts) t t'"
  then have st: "streams (junk env) (lp # toks x @ rp # tok # ts) t t'" by simp
  have lp: "isLParen lp" and rp: "isRParen rp" using assms(1) by simp_all
  have closing: "closing rp" using rp by (simp add: closing_def tok_is_def)
  let ?K = "\<lambda>e. andBind (nextToken env) (\<lambda>tok.
      if \<not> isRParen tok then unexpected tok ''expected a right paren'' else suffixes env True endToken p e)"
  obtain u where u: "streams (junk env) (rp # tok # ts) u t'" "does (past env t) (expr env 0) u (sem (elab env x))"
    using parsed_closing [OF x closing stream_next(1) [OF st]] by blast
  have "does t (expr env p) (past env t) (andBind (expr env 0) ?K)"
    using expr_at [OF st, of p] by (simp only: at_paren [OF lp])
  also have "does (past env t) \<dots> u (andBind (sem (elab env x)) ?K)" by (rule does_bind [OF u(2)])
  also have "does u \<dots> (past env u) (andBind (sem (elab env x)) (suffixes env True endToken p))"
    by (rule does_sem) (rule does_step [OF does_next [OF u(1)]], simp add: rp)
  finally show "\<exists>u. streams (junk env) (tok # ts) u t' \<and>
      does t (expr env p) u (andBind (sem (elabTop env (Paren lp x rp))) (loopOn env p))"
    using stream_next(1) [OF u(1)] by (auto simp: head_form)
qed

lemma follows_prefix:
  assumes "fits (Prefix oper x) p" and x: "follows env 10 x"
  shows "follows env p (Prefix oper x)"
  unfolding follows_def
proof (intro allI impI)
  fix tok ts t t'
  assume a: "ends tok (Prefix oper x)" "questOk tok ts" "streams (junk env) (toks (Prefix oper x) @ tok # ts) t t'"
  then have st: "streams (junk env) (oper # toks x @ tok # ts) t t'" by simp
  have un: "unaryToken oper" using assms(1) by simp
  let ?K = "\<lambda>e. andBind (sem (prefixOp env oper e)) (suffixes env True endToken p)"
  obtain u where u: "streams (junk env) (tok # ts) u t'" "does (past env t) (expr env 10) u (sem (elab env x))"
    using parsed [OF x _ _ a(2) stream_next(1) [OF st]] a(1) by auto
  have "does t (expr env p) (past env t) (andBind (expr env 10) ?K)"
    using expr_at [OF st, of p] by (simp only: at_prefix [OF un])
  also have "does (past env t) \<dots> u (andBind (sem (elab env x)) ?K)" by (rule does_bind [OF u(2)])
  also have "andBind (sem (elab env x)) ?K =
      andBind (sem (andBind (elab env x) (prefixOp env oper))) (suffixes env True endToken p)"
    by (simp add: sem_andBind andBind_assoc)
  finally show "\<exists>u. streams (junk env) (tok # ts) u t' \<and>
      does t (expr env p) u (andBind (sem (elabTop env (Prefix oper x))) (loopOn env p))"
    using u(1) by (auto simp: head_form)
qed

section \<open>Suffixes\<close>

lemma follows_postfix:
  assumes f: "fits (Postfix x oper) p" and x: "follows env p x"
  shows "follows env p (Postfix x oper)"
  unfolding follows_def
proof (intro allI impI)
  fix tok ts t t' assume "streams (junk env) (toks (Postfix x oper) @ tok # ts) t t'"
  then have st: "streams (junk env) (toks x @ oper # tok # ts) t t'" by simp
  have oper: "tok_is T_incr oper \<or> tok_is T_decr oper" and ends: "ends oper x" using f by simp_all
  have q: "questOk oper (tok # ts)" using oper by (auto simp: questOk_def tok_is_def)
  have "\<exists>u. streams (junk env) (tok # ts) u t' \<and>
      does t (expr env p) u (andBind (sem (extendTop (elabTop env x) (\<lambda>e. postfixOp env e oper))) (loopOn env p))"
    by (rule follows_extend [OF x ends q st]) (use suffix_postfix [OF oper] does_refl in metis)
  then show "\<exists>u. streams (junk env) (tok # ts) u t' \<and>
      does t (expr env p) u (andBind (sem (elabTop env (Postfix x oper))) (loopOn env p))" by simp
qed

lemma operand_step:
  assumes r: "follows env q r" and a: "stops q tok" "ends tok r" "questOk tok ts"
    and st: "streams (junk env) (toks r @ tok # ts) u t'"
  shows "\<exists>w. streams (junk env) (tok # ts) w t' \<and> (\<forall>e ident.
    does u (andBind (expr env q) (\<lambda>y. andBind (sem (f e y)) (suffixes env False ident p)))
      w (andBind (sem (andBind (elab env r) (f e))) (suffixes env False ident p)))"
proof -
  obtain w where w: "streams (junk env) (tok # ts) w t'" "does u (expr env q) w (sem (elab env r))"
    using parsed [OF r a st] by blast
  have "does u (andBind (expr env q) (\<lambda>y. andBind (sem (f e y)) (suffixes env False ident p)))
      w (andBind (sem (andBind (elab env r) (f e))) (suffixes env False ident p))" for e ident
    by (rule does_step [OF does_bind [OF w(2)]]) (simp add: sem_andBind andBind_assoc)
  with w(1) show ?thesis by blast
qed

lemma follows_operand:
  assumes at: "\<And>same ident e. suffixAt env same ident p e oper =
      andBind (expr env q) (\<lambda>y. andBind (sem (f e y)) (suffixes env False ident p))"
    and l: "follows env p l" and endl: "ends oper l" and qu: "\<not> tok_is T_quest oper" and r: "follows env q r"
    and x: "toks x = toks l @ oper # toks r" "elabTop env x = extendTop (elabTop env l) (\<lambda>e. andBind (elab env r) (f e))"
      "\<And>tok. ends tok x \<Longrightarrow> stops q tok \<and> ends tok r"
  shows "follows env p x"
  unfolding follows_def
proof (intro allI impI)
  fix tok ts t t'
  assume a: "ends tok x" "questOk tok ts" "streams (junk env) (toks x @ tok # ts) t t'"
  then have st: "streams (junk env) (toks l @ oper # toks r @ tok # ts) t t'" by (simp add: x(1))
  have "questOk oper (toks r @ tok # ts)" using qu by (simp add: questOk_def)
  from l endl this st show "\<exists>u. streams (junk env) (tok # ts) u t' \<and>
      does t (expr env p) u (andBind (sem (elabTop env x)) (loopOn env p))"
    unfolding x(2)
  proof (rule follows_extend)
    fix u assume "streams (junk env) (toks r @ tok # ts) u t'"
    then obtain w where w: "streams (junk env) (tok # ts) w t'"
      and go: "\<And>e ident. does u (andBind (expr env q) (\<lambda>y. andBind (sem (f e y)) (suffixes env False ident p)))
        w (andBind (sem (andBind (elab env r) (f e))) (suffixes env False ident p))"
      using operand_step [OF r, of tok ts u t' f p] x(3) [OF a(1)] a(2) by auto
    from go have "does u (suffixAt env same ident p e oper)
        w (andBind (sem (andBind (elab env r) (f e))) (suffixes env False ident p))" for e same ident
      by (simp only: at)
    with w show "\<exists>w. streams (junk env) (tok # ts) w t' \<and> (\<forall>e same ident. does u (suffixAt env same ident p e oper)
        w (andBind (sem (andBind (elab env r) (f e))) (suffixes env False ident p)))" by blast
  qed
qed

lemma follows_binary:
  assumes q: "precOf oper = Some q" "p < q" and l: "follows env p l" "ends oper l" and r: "follows env q r"
  shows "follows env p (Binary l oper r)"
  by (rule follows_operand [OF suffix_binary [OF q] l _ r])
    (use q(1) binOp_type [of oper] in \<open>auto simp: precOf_Some tok_is_def\<close>)

lemma follows_assign:
  assumes oper: "tok_is T_assign oper \<or> isAugAssign oper" and l: "follows env p l" "ends oper l"
    and r: "follows env 0 r"
  shows "follows env p (Assign l oper r)"
  by (rule follows_operand [OF suffix_assign [OF oper] l _ r])
    (use oper augAssign_type [of oper] in \<open>auto simp: tok_is_def\<close>)

lemma starts_type: "starts tok \<Longrightarrow> tok_type tok \<notin> {T_dot, T_rparen, T_comma, T_quest, T_colon}"
  by (auto simp: starts_def isConst_def prefixToken_def)

lemma ternary_step:
  assumes quest: "tok_is T_quest oper" and colon: "tok_is T_colon colon"
    and a: "follows env 0 a" "fits a 0" and b: "follows env 0 b"
    and e: "stops 0 tok" "ends tok b" "questOk tok ts"
    and st: "streams (junk env) (toks a @ colon # toks b @ tok # ts) u t'"
  shows "\<exists>w. streams (junk env) (tok # ts) w t' \<and> (\<forall>e same ident.
    does u (suffixAt env same ident 0 e oper) w (andBind (sem (andBind (elab env a) (\<lambda>x.
      andBind (elab env b) (\<lambda>y. createTernary env e x (Some y))))) (suffixes env False ident 0)))"
proof -
  obtain h as where h: "toks a = h # as" "\<not> tok_is T_dot h"
    using toks_starts [OF a(2)] starts_type [of "hd (toks a)"] by (cases "toks a") (auto simp: tok_is_def)
  let ?t1 = "putBack h (past env u)"
  have st1: "streams (junk env) (toks a @ colon # toks b @ tok # ts) ?t1 t'"
    using stream_back [of env h "as @ colon # toks b @ tok # ts" u t'] st by (simp only: h(1) append_Cons)
  have "closing colon" using colon by (simp add: closing_def tok_is_def)
  from parsed_closing [OF a(1) this st1] obtain v where
    v: "streams (junk env) (colon # toks b @ tok # ts) v t'" "does ?t1 (expr env 0) v (sem (elab env a))" by blast
  obtain w where w: "streams (junk env) (tok # ts) w t'" "does (past env v) (expr env 0) w (sem (elab env b))"
    using parsed [OF b e stream_next(1) [OF v(1)]] by blast
  have "does u (suffixAt env same ident 0 e oper) w (andBind (sem (andBind (elab env a) (\<lambda>x.
      andBind (elab env b) (\<lambda>y. createTernary env e x (Some y))))) (suffixes env False ident 0))" for e same ident
  proof -
    let ?B = "\<lambda>x. andBind (expr env 0) (\<lambda>y. andBind (sem (createTernary env e x (Some y))) (suffixes env False ident 0))"
    let ?K = "\<lambda>x. andBind (nextToken env) (\<lambda>tok. andBind (if \<not> tok_is T_colon tok then unexpected tok ''expected colon.''
        else andBind (expr env 0) (\<lambda>y. sem (createTernary env e x (Some y)))) (suffixes env False ident 0))"
    have "does u (suffixAt env same ident 0 e oper) (past env u)
        (andBind (unread h) (\<lambda>_. andBind (parseTernary env (parse env) e) (suffixes env False ident 0)))"
      unfolding suffix_quest [OF quest]
      by (rule does_step [OF does_next [OF st [unfolded h(1) append_Cons]]]) (simp add: h(2))
    also have "does (past env u) \<dots> ?t1 (andBind (expr env 0) ?K)"
      by (rule does_step [OF does_unread]) (simp add: parseTernary_def andBind_assoc)
    also have "does ?t1 \<dots> v (andBind (sem (elab env a)) ?K)" by (rule does_bind [OF v(2)])
    also have "does v \<dots> (past env v) (andBind (sem (elab env a)) ?B)"
      by (rule does_sem) (rule does_step [OF does_next [OF v(1)]], simp add: colon andBind_assoc)
    also have "does (past env v) \<dots> w (andBind (sem (elab env a)) (\<lambda>x. andBind (sem (elab env b))
        (\<lambda>y. andBind (sem (createTernary env e x (Some y))) (suffixes env False ident 0))))"
      by (rule does_sem) (rule does_bind [OF w(2)])
    finally show ?thesis by (simp add: sem_andBind andBind_assoc)
  qed
  with w(1) show ?thesis by blast
qed

lemma follows_ternary:
  assumes f: "fits (Ternary c oper a colon b) p" and c: "follows env 0 c"
    and a: "follows env 0 a" and b: "follows env 0 b"
  shows "follows env p (Ternary c oper a colon b)"
  unfolding follows_def
proof (intro allI impI)
  fix tok ts t t'
  assume e: "ends tok (Ternary c oper a colon b)" "questOk tok ts"
    "streams (junk env) (toks (Ternary c oper a colon b) @ tok # ts) t t'"
  then have st: "streams (junk env) (toks c @ oper # toks a @ colon # toks b @ tok # ts) t t'" by simp
  have p: "p = 0" "tok_is T_quest oper" "tok_is T_colon colon" "ends oper c" "fits a 0" using f by simp_all
  have q: "questOk oper (toks a @ colon # toks b @ tok # ts)"
    using toks_starts [OF p(5)] starts_type [of "hd (toks a)"] by (cases "toks a") (auto simp: questOk_def tok_is_def)
  have "\<exists>u. streams (junk env) (tok # ts) u t' \<and> does t (expr env 0) u (andBind (sem (extendTop (elabTop env c)
      (\<lambda>cond. andBind (elab env a) (\<lambda>x. andBind (elab env b) (\<lambda>y. createTernary env cond x (Some y)))))) (loopOn env 0))"
    using e(1,2) by (intro follows_extend [OF c p(4) q st] ternary_step [OF p(2,3) a p(5) b]) simp_all
  then show "\<exists>u. streams (junk env) (tok # ts) u t' \<and>
      does t (expr env p) u (andBind (sem (elabTop env (Ternary c oper a colon b))) (loopOn env p))"
    by (simp add: p(1))
qed

section \<open>Calls\<close>

lemma closer_closing: "isRParen rp \<Longrightarrow> closing rp"
  by (simp add: closing_def tok_is_def)

text \<open>The arguments of a call, from the token after the left parenthesis on.\<close>

abbreviation restArgs :: "('e, 'c) penv \<Rightarrow> 'e list \<Rightarrow> ('c, 'e list) parser" where
  "restArgs env vals \<equiv> andBind (nextToken env) (\<lambda>tok. exprsOf (parse env) (MethodArgs T_rparen vals tok))"

definition argsFollow :: "('e, 'c) penv \<Rightarrow> args \<Rightarrow> bool" where
  "argsFollow env as \<longleftrightarrow> (\<forall>ts t t'. streams (junk env) (argToks as @ ts) t t' \<longrightarrow>
     (\<exists>u. streams (junk env) ts u t' \<and>
       (\<forall>vals. does t (restArgs env vals) u (sem (andBind (elabArgs env as) (\<lambda>es. yields (vals @ es)))))))"

lemma args_close:
  assumes rp: "isRParen rp"
  shows "argsFollow env (Close rp)"
  unfolding argsFollow_def
proof (intro allI impI)
  fix ts t t' assume "streams (junk env) (argToks (Close rp) @ ts) t t'"
  then have st: "streams (junk env) (rp # ts) t t'" by simp
  have "does t (restArgs env vals) (past env t) (yields vals)" for vals
    by (rule does_step [OF does_next [OF st]], subst exprsOf_parse)
      (use rp in \<open>simp add: methodArgsBody_def tok_is_def\<close>)
  with stream_next(1) [OF st] show "\<exists>u. streams (junk env) ts u t' \<and>
      (\<forall>vals. does t (restArgs env vals) u (sem (andBind (elabArgs env (Close rp)) (\<lambda>es. yields (vals @ es)))))"
    by auto
qed

text \<open>After an argument, with or without a comma.\<close>

definition afterArg :: "('e, 'c) penv \<Rightarrow> 'e list \<Rightarrow> ('c, 'e list) parser" where
  "afterArg env vals = andBind (nextToken env) (\<lambda>tok.
     andBind (if tok_is T_comma tok then nextToken env else yields tok) (\<lambda>tok.
     exprsOf (parse env) (MethodArgs T_rparen vals tok)))"

lemma after_comma:
  assumes c: "tok_is T_comma c" and st: "streams (junk env) (c # ts) t t'"
  shows "does t (afterArg env vals) (past env t) (restArgs env vals)"
  unfolding afterArg_def by (rule does_step [OF does_next [OF st]]) (simp add: c)

lemma after_none:
  assumes c: "\<not> tok_is T_comma c" and st: "streams (junk env) (c # ts) t t'"
    and d: "does t (restArgs env vals) u m"
  shows "does t (afterArg env vals) u m"
proof -
  have "does t (afterArg env vals) (past env t) (exprsOf (parse env) (MethodArgs T_rparen vals c))"
    unfolding afterArg_def by (rule does_step [OF does_next [OF st]]) (simp add: c)
  moreover have "does t (restArgs env vals) (past env t) (exprsOf (parse env) (MethodArgs T_rparen vals c))"
    by (rule does_next [OF st])
  ultimately show ?thesis using d by (simp add: does_def)
qed

lemma args_arg:
  assumes x: "follows env 0 x" "fits x 0" and as: "argsFollow env as" "argsFit as"
    and c: "case comma of Some c \<Rightarrow> tok_is T_comma c | None \<Rightarrow> stops 0 (firstArg as) \<and> ends (firstArg as) x"
  shows "argsFollow env (Arg x comma as)"
  unfolding argsFollow_def
proof (intro allI impI)
  fix ts t t' assume "streams (junk env) (argToks (Arg x comma as) @ ts) t t'"
  then have st: "streams (junk env) (toks x @ (case comma of None \<Rightarrow> [] | Some c \<Rightarrow> [c]) @ argToks as @ ts) t t'" by simp
  obtain h hs where h: "toks x = h # hs" "\<not> isRParen h"
    using toks_starts [OF x(2)] starts_type [of "hd (toks x)"] by (cases "toks x") (auto simp: tok_is_def)
  let ?t1 = "putBack h (past env t)"
  let ?rest = "(case comma of None \<Rightarrow> [] | Some c \<Rightarrow> [c]) @ argToks as @ ts"
  have st1: "streams (junk env) (toks x @ ?rest) ?t1 t'"
    using stream_back [of env h "hs @ ?rest" t t'] st by (simp only: h(1) append_Cons)
  have "\<exists>v w. streams (junk env) ts w t' \<and> does ?t1 (expr env 0) v (sem (elab env x)) \<and>
      (\<forall>vals. does v (afterArg env vals) w (sem (andBind (elabArgs env as) (\<lambda>es. yields (vals @ es)))))"
  proof (cases comma)
    case (Some cm)
    then have cm: "tok_is T_comma cm" "closing cm" using c by (auto simp: closing_def tok_is_def)
    obtain v where v: "streams (junk env) (cm # argToks as @ ts) v t'" "does ?t1 (expr env 0) v (sem (elab env x))"
      using parsed_closing [OF x(1) cm(2)] st1 Some by fastforce
    obtain w where w: "streams (junk env) ts w t'"
      "\<And>vals. does (past env v) (restArgs env vals) w (sem (andBind (elabArgs env as) (\<lambda>es. yields (vals @ es))))"
      using as(1) stream_next(1) [OF v(1)] unfolding argsFollow_def by blast
    have "does v (afterArg env vals) w (sem (andBind (elabArgs env as) (\<lambda>es. yields (vals @ es))))" for vals
      by (rule does_trans [OF after_comma [OF cm(1) v(1)] w(2)])
    with v w show ?thesis by blast
  next
    case None
    obtain k ks where k: "argToks as @ ts = k # ks" "k = firstArg as" "\<not> tok_is T_comma k" "\<not> tok_is T_quest k"
      using as(2) toks_starts starts_type by (cases as) (fastforce simp: tok_is_def neq_Nil_conv)+
    obtain v where v: "streams (junk env) (k # ks) v t'" "does ?t1 (expr env 0) v (sem (elab env x))"
      using parsed [OF x(1), of k ks ?t1 t'] c st1 None k by (auto simp: questOk_def)
    obtain w where w: "streams (junk env) ts w t'"
      "\<And>vals. does v (restArgs env vals) w (sem (andBind (elabArgs env as) (\<lambda>es. yields (vals @ es))))"
      using as(1) v(1) unfolding argsFollow_def k(1) [symmetric] by blast
    have "does v (afterArg env vals) w (sem (andBind (elabArgs env as) (\<lambda>es. yields (vals @ es))))" for vals
      by (rule after_none [OF k(3) v(1) w(2)])
    with v w show ?thesis by blast
  qed
  then obtain v w where w: "streams (junk env) ts w t'" and v: "does ?t1 (expr env 0) v (sem (elab env x))"
    and go: "\<And>vals. does v (afterArg env vals) w (sem (andBind (elabArgs env as) (\<lambda>es. yields (vals @ es))))" by blast
  have "does t (restArgs env vals) w (sem (andBind (elabArgs env (Arg x comma as)) (\<lambda>es. yields (vals @ es))))" for vals
  proof -
    have "does t (restArgs env vals) (past env t) (andBind (unread h) (\<lambda>_.
        andBind (expr env 0) (\<lambda>e. afterArg env (vals @ [e]))))"
      by (rule does_step [OF does_next [OF st [unfolded h(1) append_Cons]]], subst exprsOf_parse)
        (use h(2) in \<open>simp add: methodArgsBody_def tok_is_def afterArg_def\<close>)
    also have "does (past env t) \<dots> ?t1 (andBind (expr env 0) (\<lambda>e. afterArg env (vals @ [e])))" by (rule does_unread)
    also have "does ?t1 \<dots> v (andBind (sem (elab env x)) (\<lambda>e. afterArg env (vals @ [e])))" by (rule does_bind [OF v])
    also have "does v \<dots> w (andBind (sem (elab env x)) (\<lambda>e. sem (andBind (elabArgs env as) (\<lambda>es. yields ((vals @ [e]) @ es)))))"
      by (rule does_sem) (rule go)
    finally show ?thesis by (simp add: sem_andBind andBind_assoc)
  qed
  with w show "\<exists>u. streams (junk env) ts u t' \<and> (\<forall>vals. does t (restArgs env vals) u
      (sem (andBind (elabArgs env (Arg x comma as)) (\<lambda>es. yields (vals @ es)))))" by blast
qed

lemma follows_call:
  assumes lp: "isLParen lp" and f: "follows env p f" "ends lp f" and as: "argsFollow env as"
  shows "follows env p (Call f lp as)"
  unfolding follows_def
proof (intro allI impI)
  fix tok ts t t' assume "streams (junk env) (toks (Call f lp as) @ tok # ts) t t'"
  then have st: "streams (junk env) (toks f @ lp # argToks as @ tok # ts) t t'" by simp
  have q: "questOk lp (argToks as @ tok # ts)" using lp by (simp add: questOk_def tok_is_def)
  have "\<exists>u. streams (junk env) (tok # ts) u t' \<and> does t (expr env p) u (andBind
      (sem (extendTop (elabTop env f) (\<lambda>e. andBind (elabArgs env as) (makeCall env e)))) (loopOn env p))"
  proof (rule follows_extend [OF f q st])
    fix u assume "streams (junk env) (argToks as @ tok # ts) u t'"
    with as obtain w where w: "streams (junk env) (tok # ts) w t'"
      and "does u (restArgs env []) w (sem (andBind (elabArgs env as) (\<lambda>es. yields ([] @ es))))"
      unfolding argsFollow_def by blast
    then have go: "does u (restArgs env []) w (sem (elabArgs env as))" by simp
    have "does u (suffixAt env same ident p e lp)
        w (andBind (sem (andBind (elabArgs env as) (makeCall env e))) (suffixes env False ident p))" for e same ident
      unfolding suffix_call [OF lp] parseMethodArgs_def
      by (rule does_step [OF does_bind [OF go]]) (simp add: sem_andBind andBind_assoc)
    with w show "\<exists>w. streams (junk env) (tok # ts) w t' \<and> (\<forall>e same ident. does u (suffixAt env same ident p e lp)
        w (andBind (sem (andBind (elabArgs env as) (makeCall env e))) (suffixes env False ident p)))" by blast
  qed
  then show "\<exists>u. streams (junk env) (tok # ts) u t' \<and>
      does t (expr env p) u (andBind (sem (elabTop env (Call f lp as))) (loopOn env p))" by simp
qed

section \<open>All trees\<close>

lemma fits_follows:
  "fits x p \<Longrightarrow> follows env p x" "argsFit as \<Longrightarrow> argsFollow env as"
proof (induction x and as arbitrary: p)
  case (Binary l oper r)
  then show ?case using follows_binary by fastforce
next
  case (Ternary c quest a colon b)
  then show ?case using follows_ternary [OF Ternary.prems, of env] Ternary.IH by simp
next
  case (Prefix oper x)
  then show ?case using follows_prefix [OF Prefix.prems, of env] by simp
next
  case (Paren lp x rp)
  then show ?case using follows_paren [OF Paren.prems, of env] by simp
next
  case (Postfix x oper)
  then show ?case using follows_postfix [OF Postfix.prems, of env] by simp
next
  case (Assign l oper r)
  then show ?case by (simp add: follows_assign)
next
  case (Call f lp as)
  then show ?case by (simp add: follows_call)
next
  case (Close rp)
  then show ?case by (simp add: args_close)
next
  case (Arg x comma as)
  then show ?case by (simp add: args_arg)
qed (simp_all add: follows_const follows_signed follows_strings follows_ident del: fits.simps)

end
