(* ===== verification/Parse_Spec.thy ===== *)
theory Parse_Spec
  imports Parse_Main Toker_Round
begin

text \<open>
  What the parser of expressions promises: it makes the meaning of the tree that the precedences give,
  and every tree can be written with parentheses so that it is read back.
\<close>

section \<open>Parsing a tree\<close>

text \<open>The outcome of the parser when it reads a tree with the meaning \<open>m\<close> and stops with the tokenizer \<open>u\<close>.\<close>

definition outcomeOf :: "('c, 'e) sem \<Rightarrow> 'c pstate \<Rightarrow> toker \<Rightarrow> (perror + 'e \<times> 'c pstate) option" where
  "outcomeOf m s u = (case m (ps_sem s) of
     None \<Rightarrow> None
   | Some (Inl e) \<Rightarrow> Some (Inl e)
   | Some (Inr (x, p)) \<Rightarrow> Some (Inr (x, s\<lparr>ps_toker := u, ps_sem := p\<rparr>)))"

lemma does_sem_outcome:
  assumes "does (ps_toker s) m u (sem a)"
  shows "m s = outcomeOf a s u"
proof -
  have "m s = sem a (s\<lparr>ps_toker := u\<rparr>)" using assms by (simp add: does_def)
  also have "\<dots> = outcomeOf a s u"
  proof (cases "a (ps_sem s)")
    case (Some r)
    then show ?thesis by (cases r) (auto simp: sem_def onPart_def outcomeOf_def)
  qed (simp add: sem_def onPart_def outcomeOf_def)
  finally show ?thesis .
qed

lemma parse_fits:
  assumes "fits x p" and "ends tok x" and "stops p tok" and "questOk tok ts"
    and "streams (junk env) (toks x @ tok # ts) (ps_toker s) t'"
  shows "\<exists>u. streams (junk env) (tok # ts) u t' \<and> parseExpression env p s = outcomeOf (elab env x) s u"
  using parsed [OF fits_follows(1) [OF assms(1)] assms(3,2,4,5)] does_sem_outcome
  unfolding parseExpression_def by blast

text \<open>
  C37. The parser of expressions implements the precedence table: when the next tokens are those of a
  tree that fits the precedence \<open>p\<close> (operators on its left spine bind stronger than \<open>p\<close>, every right
  operand fits the precedence of its operator, and every operand ends where its operator begins),
  followed by a token at which an expression of this precedence stops, then \<open>parseExpression(p)\<close> makes
  exactly the operations of the tree, in their order: it returns the tree's meaning, or the error the
  first failing operation raises, and the token that follows is the next one to be read. Operators of
  the same precedence are grouped from the left; assignments take everything to their right, whatever
  precedence stands to their left. The table is the one of the code: equality and comparison have one
  precedence, and assignment has none, where the manual has the precedences of C.
\<close>

theorem parse_tree:
  assumes "fits x p" and "ends tok x" and "stops p tok" and "questOk tok ts"
    and "streams (junk env) (toks x @ tok # ts) (ps_toker s) t'"
  shows "\<exists>u. streams (junk env) (tok # ts) u t' \<and> parseExpression env p s = (case elab env x (ps_sem s) of
     None \<Rightarrow> None
   | Some (Inl e) \<Rightarrow> Some (Inl e)
   | Some (Inr (e, p)) \<Rightarrow> Some (Inr (e, s\<lparr>ps_toker := u, ps_sem := p\<rparr>)))"
  using parse_fits [OF assms] unfolding outcomeOf_def .

section \<open>Writing a tree\<close>

definition enclose :: "tree \<Rightarrow> tree" where
  "enclose x = Paren (mkToken T_lparen ''('' None) x (mkToken T_rparen '')'' None)"

text \<open>A left operand before its operator, and a right operand of the precedence \<open>q\<close>.\<close>

definition leftOf :: "token \<Rightarrow> tree \<Rightarrow> tree" where
  "leftOf oper x = (if ends oper x then x else enclose x)"

definition rightOf :: "nat \<Rightarrow> tree \<Rightarrow> tree" where
  "rightOf q x = (if fits x q then x else enclose x)"

primrec written :: "tree \<Rightarrow> tree" and writtenArgs :: "args \<Rightarrow> args" where
  "written (Const tok) = Const tok"
| "written (Signed sign tok) = Signed sign tok"
| "written (Strings ts) = Strings ts"
| "written (Ident tok) = Ident tok"
| "written (Paren lp x rp) = Paren lp (written x) rp"
| "written (Prefix oper x) = Prefix oper (rightOf 10 (written x))"
| "written (Postfix x oper) = Postfix (leftOf oper (written x)) oper"
| "written (Binary l oper r) = Binary (leftOf oper (written l)) oper (rightOf (the (precOf oper)) (written r))"
| "written (Ternary c quest a colon b) = Ternary (leftOf quest (written c)) quest (written a) colon (written b)"
| "written (Assign l oper r) = Assign (leftOf oper (written l)) oper (written r)"
| "written (Call f lp as) = Call (leftOf lp (written f)) lp (writtenArgs as)"
| "writtenArgs (Close rp) = Close rp"
| "writtenArgs (Arg x comma as) =
     Arg (written x) (case comma of None \<Rightarrow> Some (mkToken T_comma '','' None) | Some c \<Rightarrow> Some c) (writtenArgs as)"

text \<open>Trees whose tokens are of the right kinds.\<close>

primrec wellFormed :: "tree \<Rightarrow> bool" and argsWellFormed :: "args \<Rightarrow> bool" where
  "wellFormed (Const tok) \<longleftrightarrow> tok_is T_nullKw tok \<or> isConst tok"
| "wellFormed (Signed sign tok) \<longleftrightarrow> tok_is T_plus sign \<and> isConst tok"
| "wellFormed (Strings ts) \<longleftrightarrow> ts \<noteq> [] \<and> list_all isString ts"
| "wellFormed (Ident tok) \<longleftrightarrow> isIdent tok"
| "wellFormed (Paren lp x rp) \<longleftrightarrow> isLParen lp \<and> isRParen rp \<and> wellFormed x"
| "wellFormed (Prefix oper x) \<longleftrightarrow> unaryToken oper \<and> wellFormed x"
| "wellFormed (Postfix x oper) \<longleftrightarrow> (tok_is T_incr oper \<or> tok_is T_decr oper) \<and> wellFormed x"
| "wellFormed (Binary l oper r) \<longleftrightarrow> (\<exists>q > 0. precOf oper = Some q) \<and> wellFormed l \<and> wellFormed r"
| "wellFormed (Ternary c quest a colon b) \<longleftrightarrow>
     tok_is T_quest quest \<and> tok_is T_colon colon \<and> wellFormed c \<and> wellFormed a \<and> wellFormed b"
| "wellFormed (Assign l oper r) \<longleftrightarrow> (tok_is T_assign oper \<or> isAugAssign oper) \<and> wellFormed l \<and> wellFormed r"
| "wellFormed (Call f lp as) \<longleftrightarrow> isLParen lp \<and> wellFormed f \<and> argsWellFormed as"
| "argsWellFormed (Close rp) \<longleftrightarrow> isRParen rp"
| "argsWellFormed (Arg x comma as) \<longleftrightarrow>
     wellFormed x \<and> argsWellFormed as \<and> (case comma of None \<Rightarrow> True | Some c \<Rightarrow> tok_is T_comma c)"

lemma enclose_simps [simp]:
  "fits (enclose x) p = fits x 0" "ends tok (enclose x)" "elab env (enclose x) = elab env x"
  by (simp_all add: enclose_def tok_is_def)

lemma leftOf_simps:
  "fits x p \<Longrightarrow> fits x 0 \<Longrightarrow> fits (leftOf oper x) p" "ends oper (leftOf oper x)" "elab env (leftOf oper x) = elab env x"
  by (simp_all add: leftOf_def)

lemma rightOf_simps:
  "fits x 0 \<Longrightarrow> fits (rightOf q x) q" "elab env (rightOf q x) = elab env x"
  by (simp_all add: rightOf_def)

lemma written_fits:
  "wellFormed x \<Longrightarrow> fits (written x) 0" "argsWellFormed as \<Longrightarrow> argsFit (writtenArgs as)"
proof (induction x and as)
  case (Arg x comma as)
  then show ?case by (cases comma) (simp_all add: tok_is_def)
qed (auto simp: leftOf_simps rightOf_simps)

lemma written_elab:
  "elab env (written x) = elab env x" "elabArgs env (writtenArgs as) = elabArgs env as"
  by (induction x and as) (simp_all add: leftOf_simps rightOf_simps)

text \<open>
  C38. Round trip: every tree can be written down so that it is read back. \<open>written\<close> puts parentheses
  around a left operand that would not end before its operator and around a right operand with an
  operator that does not bind stronger, and nothing else; for the tokens of the result, followed by
  a closing token, a comma or a semicolon, the parser makes the meaning of the original tree. The
  precedences are those of the code, as in C37.
\<close>

theorem written_parses:
  assumes "wellFormed x" and "closing tok"
    and "streams (junk env) (toks (written x) @ tok # ts) (ps_toker s) t'"
  shows "\<exists>u. streams (junk env) (tok # ts) u t' \<and> parseExpression env 0 s = (case elab env x (ps_sem s) of
     None \<Rightarrow> None
   | Some (Inl e) \<Rightarrow> Some (Inl e)
   | Some (Inr (e, p)) \<Rightarrow> Some (Inr (e, s\<lparr>ps_toker := u, ps_sem := p\<rparr>)))"
  using parse_fits [OF written_fits(1) [OF assms(1)] closing_ends [OF assms(2)] closing_stops [OF assms(2)]
      closing_questOk [OF assms(2)] assms(3)]
  unfolding outcomeOf_def written_elab .

section \<open>Sample\<close>

text \<open>An environment whose expressions are texts, and the tokens of \<open>1 + 2 * 3;\<close> put back in a tokenizer.\<close>

definition sampleOps :: "string exprOps" where
  "sampleOps = \<lparr>valType = (\<lambda>_. Some 1), isAdaptive = (\<lambda>_. False), convertTo = (\<lambda>e _. Some e)\<rparr>"

definition sampleEnv :: "(string, 'c) penv" where
  "sampleEnv = \<lparr>junk = (\<lambda>_. blankLocals), overloadType = None, voidptrType = 2, voidType = 3, boolType = 4,
     byteType = 5, importer = noImporter, isGeneric = (\<lambda>_ _. False), constVar = (\<lambda>_ _. False),
     exprs = sampleOps, getType = (\<lambda>_. yields (Some 1)), isIntConst = (\<lambda>_. True), isFloatConst = (\<lambda>_. False),
     isOtherConst = (\<lambda>_. False), refDef = (\<lambda>_. None), derefOf = (\<lambda>_. NoDeref), foldConstants = Some,
     makeCall = (\<lambda>e es. yields (e @ ''('' @ concat es @ '')'')), makeAssignment = (\<lambda>a b. yields (a @ ''='' @ b)),
     constValue = (\<lambda>_. ''c''), newVarRef = (\<lambda>_. ''v''), newFieldRef = (\<lambda>e _. e), newDeref = (\<lambda>e _. e),
     newAttrDeref = (\<lambda>e _ _. e), newFuncCall = (\<lambda>_ es _. ''('' @ concat es @ '')''),
     newAssign = (\<lambda>_ _ e. ''v='' @ e), newTernary = (\<lambda>c a b _. c @ ''?'' @ a @ '':'' @ (case b of None \<Rightarrow> [] | Some e \<Rightarrow> e)),
     newSafeNav = (\<lambda>c a b. c @ a @ b), newMulti = (\<lambda>es _. concat es), newNull = (\<lambda>_. ''null''),
     newInt = (\<lambda>_ _. ''i''), newUInt = (\<lambda>_. ''u''), newFloat = (\<lambda>s. s), newSetRegister = (\<lambda>r e. r @ e),
     newGetRegister = (\<lambda>_. yields ''r''), getStrConst = yields, emitVarDef = (\<lambda>_ _. yields 0),
     setVarDoc = (\<lambda>_ _. yields ()), emitConstSequence = (\<lambda>_ es. yields (concat es)),
     getSpecialization = (\<lambda>t _. yields t), popErrorContext = yields (), parseAnnotation = yields (),
     parseFuncDef = (\<lambda>_ _ _. yields ()), parseClassDef = yields 0\<rparr>"

lemma sampleEnv_junk [simp]: "junk sampleEnv = (\<lambda>_. blankLocals)"
  by (simp add: sampleEnv_def)

lemma streams_pushed:
  assumes "tk_state t = st_none"
  shows "list_all plain ts \<Longrightarrow> streams jk ts (foldr putBack ts t) t"
proof (induction ts)
  case (Cons tok ts)
  have "tk_state (foldr putBack ts t) = st_none"
    using assms by (induction ts) (simp_all add: putBack_def)
  with Cons show ?case by (simp add: streams_putBack)
qed simp

definition num :: "string \<Rightarrow> tree" where
  "num s = Const (mkToken T_integer s None)"

definition sum3 :: tree where
  "sum3 = Binary (num ''1'') (mkToken T_plus ''+'' None) (Binary (num ''2'') (mkToken T_asterisk ''*'' None) (num ''3''))"

definition semiToken :: token where
  "semiToken = mkToken T_semi '';'' None"

definition sampleState :: "tree \<Rightarrow> unit pstate" where
  "sampleState x = \<lparr>ps_toker = foldr putBack (toks x @ [semiToken]) (sampleToker []), ps_doc = [], ps_nest = 0,
     ps_sem = \<lparr>sem_ctx = [newFrame ModuleScope (Some 0) None],
       sem_store = \<lparr>cell = (\<lambda>_. blankObj), nextAddr = 10\<rparr>, sem_rest = ()\<rparr>\<rparr>"

lemma sampleState_streams:
  "list_all plain (toks x) \<Longrightarrow> streams (junk sampleEnv) (toks x @ semiToken # []) (ps_toker (sampleState x)) (sampleToker [])"
  using streams_pushed [of "sampleToker []" "toks x @ [semiToken]" "\<lambda>_. blankLocals"]
  by (simp add: sampleState_def semiToken_def plain_def sampleToker_def newToker_def blankToker_def)

lemmas sum3_simps = sum3_def num_def semiToken_def isConst_def precOf_def isBinOp_def opPrecMap_def
  plain_def stops_def isAugAssign_def tok_is_def questOk_def

lemma parse_tree_witness:
  "\<exists>u. streams (junk sampleEnv) [semiToken] u (sampleToker []) \<and>
     parseExpression sampleEnv 0 (sampleState sum3) = outcomeOf (elab sampleEnv sum3) (sampleState sum3) u"
  using parse_tree [of sum3 0 semiToken "[]" sampleEnv "sampleState sum3" "sampleToker []"] sampleState_streams [of sum3]
  unfolding outcomeOf_def by (simp add: sum3_simps)

text \<open>The tree \<open>(1 + 2) * 3\<close> has no parentheses; they are written.\<close>

definition product3 :: tree where
  "product3 = Binary (Binary (num ''1'') (mkToken T_plus ''+'' None) (num ''2'')) (mkToken T_asterisk ''*'' None) (num ''3'')"

lemma written_parses_witness:
  "map tok_data (toks (written product3)) = [''('', ''1'', ''+'', ''2'', '')'', ''*'', ''3''] \<and>
   (\<exists>u. streams (junk sampleEnv) [semiToken] u (sampleToker []) \<and>
     parseExpression sampleEnv 0 (sampleState (written product3)) =
       outcomeOf (elab sampleEnv product3) (sampleState (written product3)) u)"
proof
  have w: "written product3 = Binary (enclose (Binary (num ''1'') (mkToken T_plus ''+'' None) (num ''2'')))
      (mkToken T_asterisk ''*'' None) (num ''3'')"
    by (simp add: product3_def leftOf_def rightOf_def sum3_simps)
  then show "map tok_data (toks (written product3)) = [''('', ''1'', ''+'', ''2'', '')'', ''*'', ''3'']"
    by (simp add: enclose_def num_def)
  show "\<exists>u. streams (junk sampleEnv) [semiToken] u (sampleToker []) \<and>
     parseExpression sampleEnv 0 (sampleState (written product3)) =
       outcomeOf (elab sampleEnv product3) (sampleState (written product3)) u"
    using written_parses [of product3 semiToken sampleEnv "[]" "sampleState (written product3)" "sampleToker []"]
      sampleState_streams [of "written product3"]
    unfolding outcomeOf_def w by (simp add: product3_def sum3_simps closing_def enclose_def)
qed

section \<open>Deviations\<close>

text \<open>Every operator the tokenizer returns has a precedence.\<close>

lemma opTable_ranked:
  "list_all (\<lambda>(s, tt). isBinOp (mkToken tt s None) \<longrightarrow> (case map_of opPrecMap s of Some q \<Rightarrow> 0 < q | None \<Rightarrow> False)) opTable"
  by code_simp

lemma operators_ranked:
  assumes "map_of opTable (tok_data tok) = Some (tok_type tok) \<or> (tok_type tok = T_isKw \<and> tok_data tok = ''is'')"
    and "isBinOp tok"
  shows "\<exists>q > 0. precOf tok = Some q"
  using assms(1)
proof
  assume "map_of opTable (tok_data tok) = Some (tok_type tok)"
  then have "(tok_data tok, tok_type tok) \<in> set opTable" by (rule map_of_SomeD)
  moreover have "isBinOp (mkToken (tok_type tok) (tok_data tok) None)" using assms(2) by (simp add: isBinOp_def)
  ultimately show ?thesis using opTable_ranked assms(2) unfolding list_all_iff
    by (fastforce simp: precOf_def split: option.splits)
qed (use assms(2) in \<open>simp add: precOf_def opPrecMap_def\<close>)

text \<open>
  The operator \<open>!is\<close>: where it does not bind strong enough, the exclamation point is put back but the
  keyword that follows is lost.
\<close>

lemma not_is_lost:
  assumes st: "streams (junk env) (bang # kw # ts) t t'" and "tok_is T_bang bang"
    and "tok_is T_isKw kw" "tok_data kw = ''is''" and "6 \<le> p"
  shows "\<exists>u. streams (junk env) (bang # ts) u t' \<and> (\<forall>same ident e. does t (suffixes env same ident p e) u (yields e))"
proof -
  note st1 = stream_next(1) [OF st]
  let ?u = "putBack bang (past env (past env t))"
  have "does t (suffixes env same ident p e) ?u (yields e)" for same ident e
  proof -
    have "does t (suffixes env same ident p e) (past env t) (suffixAt env same ident p e bang)" by (rule does_next [OF st])
    also have "does (past env t) \<dots> (past env (past env t)) (andBind (unread bang) (\<lambda>_. yields e))"
      by (subst exprOf_parse(3), unfold secondaryLoopBody_def Let_def)
        (use assms(2-5) in \<open>simp add: tok_is_def isBinOp_def does_step [OF does_raw [OF st1]]
          getPrecedence_def opPrecMap_def\<close>)
    also have "does (past env (past env t)) \<dots> ?u (yields e)" by (rule does_unread)
    finally show ?thesis .
  qed
  moreover have "streams (junk env) (bang # ts) ?u t'"
    by (rule streams_putBack [OF stream_next(1) [OF st1] stream_next(3) [OF st] stream_next(2) [OF st1]])
  ultimately show ?thesis by blast
qed

text \<open>
  Safe navigation to an attribute with a getter or a setter: the expression that stores the object in
  the register, and the comparison to null, are dropped, so the accessor is applied to a register that
  is never set.
\<close>

lemma safe_accessor_unset:
  assumes "exprType env reg = Some t" and "nsLookUp nm t s = Some (Inr (None, s))"
    and "makeAccessor env reg nm s = Some (Inr (Some deref, s'))"
  shows "memberRef env reg type (Some setRegister) tok nm access s = Some (Inr ((deref, type), s'))"
  using assms by (simp add: memberRef_def andBind_def yields_def)

text \<open>An integer constant written as a string: a byte above 127 overwrites the bytes before it.\<close>

lemma int_string_sign:
  "parseConstInt env [CHR ''i'', CHR ''/'', CHR 0x01, CHR 0x80] 10 = yields (newInt env (- 128) None)"
  by (simp add: parseConstInt_def charAt_def signedChar_def byte_of_char_def)

end
