(* ===== verification/Toker_End.thy ===== *)
theory Toker_End
  imports Toker_Get
begin

text \<open>
  The end token. It is only made at the end of the input, so it is the last one: once \<open>getToken()\<close>
  has returned it, nothing else is returned, unless the parser puts tokens back.
\<close>

section \<open>The scanner does not make it\<close>

text \<open>The token types kept in the locals, in the states that use them.\<close>

definition typed :: "tstate \<Rightarrow> locals \<Rightarrow> bool" where
  "typed st l \<longleftrightarrow>
     (st \<in> {st_string, st_strEscapeChar, st_strEscapedIndentedNewline, st_strOctal, st_strHex,
        st_digram, st_ltgt, st_postaug} \<longrightarrow> t1 l \<noteq> T_end) \<and>
     (st \<in> {st_digram, st_ltgt, st_postaug} \<longrightarrow> t2 l \<noteq> T_end) \<and> (st = st_ltgt \<longrightarrow> t3 l \<noteq> T_end)"

definition typedOut :: "outcome \<Rightarrow> bool" where
  "typedOut r = (case r of
     Loop l t \<Rightarrow> typed (tk_state t) l
   | Return tok t \<Rightarrow> tok_type tok \<noteq> T_end
   | Throw e \<Rightarrow> True)"

lemma typedOut_simps [simp]:
  "typedOut (Loop l t) \<longleftrightarrow> typed (tk_state t) l"
  "typedOut (ret tt d t) \<longleftrightarrow> tt \<noteq> T_end"
  "typedOut (abort tt d msg t)"
  "typedOut (Throw e)"
  by (simp_all add: typedOut_def ret_eq abort_def)

lemma map_of_keyword: "map_of keywordTable d = Some tt \<Longrightarrow> tt \<noteq> T_end"
  by (auto simp: keywordTable_def split: if_splits)

lemma typedOut_rules:
  "(\<And>u. tk_state u = tk_state t \<Longrightarrow> typedOut (k u)) \<Longrightarrow> typedOut (unget ch t k)"
  "(\<And>s. typedOut (f (l\<lparr>symchars := s\<rparr>))) \<Longrightarrow> typedOut (setSym i ch l f)"
  "(\<And>s n. typedOut (f (l\<lparr>sci := n, symchars := s\<rparr>))) \<Longrightarrow> typedOut (pushSym ch l f)"
  "typedOut (fixIdent d t)"
  "(b \<Longrightarrow> typedOut x) \<Longrightarrow> (\<not> b \<Longrightarrow> typedOut y) \<Longrightarrow> typedOut (if b then x else y)"
  by (auto simp: typedOut_def unget_def setSym_def pushSym_def fixIdent_def map_of_keyword ret_eq
      ungetChar_def Let_def split: option.splits prod.splits if_splits)

lemma typed_locals [simp]:
  "typed st (out s l) = typed st l" "typed st (l\<lparr>buf := x\<rparr>) = typed st l" "typed st (l\<lparr>terminator := c\<rparr>) = typed st l"
  "typed st (l\<lparr>symchars := ss\<rparr>) = typed st l" "typed st (l\<lparr>sci := n\<rparr>) = typed st l"
  "typed st (l\<lparr>codeChar := b\<rparr>) = typed st l" "typed st (l\<lparr>codeLen := k\<rparr>) = typed st l"
  by (simp_all add: typed_def out_def)

lemma typed_free [simp]:
  "typed st_none l" "typed st_ident l" "typed st_comment l" "typed st_plus l" "typed st_minus l" "typed st_amp l"
  "typed st_pipe l" "typed st_slash l" "typed st_period l" "typed st_zero l" "typed st_number l" "typed st_strint l"
  "typed st_rawStr l" "typed st_indentStr l" "typed st_ccomment l" "typed st_ccomment2 l" "typed st_istr l"
  "typed st_istrEscapeChar l" "typed st_istrHex l" "typed st_istrOctal l" "typed st_istrEscapedIndentedNewline l"
  "typed st_rawStrBody l" "typed st_rawStrEscape l" "typed st_octal l" "typed st_hex l" "typed st_binary l"
  "typed st_float l" "typed st_intdot l" "typed st_exponent l" "typed st_exponent2 l" "typed st_exponent3 l"
  "typed st_interpNone l"
  by (simp_all add: typed_def)

lemma step_ident_typed: "tk_state t = st_ident \<Longrightarrow> typedOut (step_ident ch l t)"
  unfolding step_ident_def by (intro typedOut_rules; simp)

lemma step_interpNone_typed: "typedOut (step_interpNone ch l t)"
  unfolding step_interpNone_def Let_def by (intro typedOut_rules; simp add: typed_def)

lemma step_names_typed:
  "typedOut (step_indentStr ch l t)" "typedOut (step_rawStr ch l t)" "typedOut (step_strint ch l t)"
  "typedOut (step_none ch l t)"
proof -
  show i: "typedOut (step_indentStr ch l t)" for l t
    unfolding step_indentStr_def by (intro typedOut_rules; simp add: typed_def step_ident_typed)
  show r: "typedOut (step_rawStr ch l t)" for l t
    unfolding step_rawStr_def by (intro typedOut_rules; simp add: i)
  show "typedOut (step_strint ch l t)"
    unfolding step_strint_def by (intro typedOut_rules; simp add: r typed_def)
  show "typedOut (step_none ch l t)"
    unfolding step_none_def by (intro typedOut_rules; simp add: step_interpNone_typed)
qed

lemma step_oper_typed:
  "doubled \<noteq> T_end \<Longrightarrow> augmented \<noteq> T_end \<Longrightarrow> single \<noteq> T_end \<Longrightarrow>
   typedOut (step_oper op doubled augmented single ch l t)"
  unfolding step_oper_def Let_def by (intro typedOut_rules; simp)

lemma step_symbols_typed:
  "typed st_digram l \<Longrightarrow> typedOut (step_digram ch l t)"
  "typed st_ltgt l \<Longrightarrow> typedOut (step_ltgt ch l t)"
  "typed st_postaug l \<Longrightarrow> typedOut (step_postaug ch l t)"
  unfolding step_digram_def step_ltgt_def step_postaug_def Let_def
  by (intro typedOut_rules; simp add: typed_def)+

lemma step_string_typed: "tk_state t = st_string \<Longrightarrow> typed st_string l \<Longrightarrow> typedOut (step_string ch l t)"
  unfolding step_string_def Let_def
  by (intro typedOut_rules; auto simp: typed_def split: prod.splits)

lemma step_escapes_typed:
  assumes "typed (tk_state t) l" and "interp \<or> t1 l \<noteq> T_end"
  shows "typedOut (step_escape interp ch l t)" "typedOut (step_escapedNewline interp ch l t)"
    "typedOut (step_strOctal interp ch l t)" "typedOut (step_strHex interp ch l t)"
  using assms unfolding step_escape_def step_escapedNewline_def step_strOctal_def step_strHex_def Let_def
  by (((intro typedOut_rules)?; auto simp: typed_def base_def Let_def split: option.splits))+

lemma step_others_typed:
  assumes "typed (tk_state t) l"
  shows "typedOut (step_slash ch l t)" "typedOut (step_comment ch l t)" "typedOut (step_ccomment ch l t)"
    "typedOut (step_ccomment2 ch l t)" "typedOut (step_rawStrBody ch l t)" "typedOut (step_rawStrEscape ch l t)"
    "typedOut (step_istr ch l t)" "typedOut (step_zero ch l t)" "typedOut (step_period ch l t)"
    "typedOut (step_number ch l t)" "typedOut (step_intdot ch l t)" "typedOut (step_float ch l t)"
    "typedOut (step_exponent ch l t)" "typedOut (step_exponent2 ch l t)" "typedOut (step_exponent3 ch l t)"
  using assms
  unfolding step_slash_def step_comment_def step_ccomment_def step_ccomment2_def step_rawStrBody_def
    step_rawStrEscape_def step_istr_def step_zero_def step_period_def step_number_def step_intdot_def
    step_float_def step_exponent_def step_exponent2_def step_exponent3_def Let_def
  by (((intro typedOut_rules)?; simp))+

lemma step_radix_typed:
  "tt \<noteq> T_end \<Longrightarrow> typed (tk_state t) l \<Longrightarrow> typedOut (step_radix digit msg tt ch l t)"
  unfolding step_radix_def by (intro typedOut_rules; simp)

lemma step_typed:
  assumes "typed (tk_state t) l"
  shows "typedOut (step ch l t)"
  using assms
  by (cases "tk_state t"; simp add: step_def step_ident_typed step_interpNone_typed step_names_typed
      step_oper_typed step_amp_def step_pipe_def step_minus_def step_plus_def step_symbols_typed step_string_typed
      step_escapes_typed step_others_typed step_radix_typed step_binary_def step_octal_def step_hex_def)
    (auto simp: step_escapes_typed typed_def)

section \<open>It is made at the end\<close>

definition exhausted :: "toker \<Rightarrow> bool" where
  "exhausted t \<longleftrightarrow> remaining t = 0 \<and> tk_state t = st_none"

lemma readLoop_end:
  "typed (tk_state t) l \<Longrightarrow> readLoop l t = Inr (tok, t') \<Longrightarrow> isEnd tok \<Longrightarrow> exhausted t'"
proof (induction l t rule: readLoop.induct)
  case (1 l t)
  show ?case
  proof (cases "getChar t")
    case (Pair r ta)
    show ?thesis
    proof (cases r)
      case None
      with Pair 1(3,4) show ?thesis
        using getChar_None [of t ta]
        by (auto simp: readLoop.simps [of l t] atEnd_def ret_eq abort_def tok_is_def remaining_def
            exhausted_def split: if_splits)
    next
      case (Some ch)
      with Pair have get: "getChar t = (Some ch, ta)" by simp
      have sp: "typedOut (step ch l ta)"
        using 1(2) getChar_Some(6) [OF get] by (simp add: step_typed)
      show ?thesis
      proof (cases "step ch l ta")
        case (Loop lb tb)
        with 1 get sp show ?thesis by (simp add: readLoop.simps [of l t])
      next
        case (Return tok2 t2)
        with 1(3,4) get sp show ?thesis by (auto simp: readLoop.simps [of l t] typedOut_def tok_is_def)
      next
        case (Throw e)
        with 1(3) get show ?thesis by (simp add: readLoop.simps [of l t])
      qed
    qed
  qed
qed

lemma readToken_end:
  assumes "readToken junk t = Inr (tok, t')" and "isEnd tok"
  shows "exhausted t'"
proof -
  have st: "restState (tk_state t)" using assms(1) by (simp add: readToken_def split: if_splits)
  then have "typed (tk_state t) l" for l by (auto simp: restState_def)
  then show ?thesis
    using readLoop_end [OF _ assms(1) [unfolded readToken_eq [OF st]] assms(2)] by simp
qed

lemma readToken_exhausted:
  assumes "exhausted t"
  shows "\<exists>tok u. readToken junk t = Inr (tok, u) \<and> isEnd tok \<and> exhausted u"
proof -
  define l where "l = junk\<lparr>sci := 0, buf := []\<rparr>"
  define ta where "ta = t\<lparr>currentStartCol := getEndCol (lastLoc t) + 1\<rparr>"
  have ta: "remaining ta = 0" "tk_state ta = st_none"
    using assms by (simp_all add: ta_def exhausted_def remaining_def)
  then obtain tb where tb: "getChar ta = (None, tb)"
    using getChar_Some(1) [of ta] by (cases "getChar ta"; cases "fst (getChar ta)") auto
  have eq: "readToken junk t = finish (atEnd l tb)"
    using assms tb by (simp add: readToken_eq exhausted_def l_def ta_def readLoop.simps)
  then obtain tok u where r: "readToken junk t = Inr (tok, u)" "isEnd tok"
    using getChar_None(3) [OF tb] ta by (simp add: atEnd_def ret_eq tok_is_def)
  with readToken_end show ?thesis by blast
qed

text \<open>Reading does not touch the tokens put back.\<close>

lemma ungetChar_tokens: "ungetChar ch t = Some u \<Longrightarrow> tokens u = tokens t"
  by (auto simp: ungetChar_def Let_def split: if_splits)

lemma sameInput_tokens: "sameInput t u \<Longrightarrow> tokens u = tokens t"
  by (simp add: sameInput_def)

lemma readLoop_tokens: "readLoop l t = Inr (tok, t') \<Longrightarrow> tokens t' = tokens t"
proof (induction l t rule: readLoop.induct)
  case (1 l t)
  show ?case
  proof (cases "getChar t")
    case (Pair r ta)
    show ?thesis
    proof (cases r)
      case None
      with Pair 1(2) show ?thesis
        using getChar_None(5) [of t ta]
        by (auto simp: readLoop.simps [of l t] atEnd_def ret_eq abort_def getLocation_def Let_def split: if_splits)
    next
      case (Some ch)
      with Pair have get: "getChar t = (Some ch, ta)" by simp
      note sp = step_post [of ta l ch]
      note keep = getChar_Some(7) [OF get] sameInput_tokens ungetChar_tokens
      show ?thesis
      proof (cases "step ch l ta")
        case (Loop lb tb)
        with 1(1) [OF Pair [symmetric] Some] 1(2) get have "tokens t' = tokens tb" by (simp add: readLoop.simps [of l t])
        with sp Loop keep show ?thesis by (auto simp: stepPost_def dest!: sameInput_tokens ungetChar_tokens)
      next
        case (Return tok2 t2)
        with sp 1(2) get keep show ?thesis
          by (auto simp: readLoop.simps [of l t] stepPost_def dest!: sameInput_tokens ungetChar_tokens)
      next
        case (Throw e)
        with 1(2) get show ?thesis by (simp add: readLoop.simps [of l t])
      qed
    qed
  qed
qed

lemma readToken_tokens: "readToken junk t = Inr (tok, t') \<Longrightarrow> tokens t' = tokens t"
  using readLoop_tokens [of "junk\<lparr>sci := 0, buf := []\<rparr>" "t\<lparr>currentStartCol := getEndCol (lastLoc t) + 1\<rparr>" tok t']
  by (cases "restState (tk_state t)") (auto simp: readToken_eq, auto simp: readToken_def)

section \<open>It is the last token\<close>

lemma batch_ends:
  "batch junk parens toks t = Inr (toks', t') \<Longrightarrow> \<not> isEnd (last toks) \<or> exhausted t \<Longrightarrow>
   tokens t' = tokens t \<and> (\<exists>more. toks' = toks @ more \<and> (\<forall>x\<in>set (butlast more). \<not> isEnd x) \<and>
     (more \<noteq> [] \<longrightarrow> isEnd (last more) \<longrightarrow> exhausted t') \<and>
     length more + remaining t' \<le> remaining t + (if more \<noteq> [] \<and> isEnd (last more) then 1 else 0))"
proof (induction junk parens toks t rule: batch.induct)
  case (1 junk parens toks t)
  show ?case
  proof (cases "isIstrEnd (last toks) \<or> isEnd (last toks)")
    case True
    with 1(2) show ?thesis by (auto simp: batch.simps)
  next
    case False
    with 1(2) obtain parens' u tok v where tr: "track parens (last toks) t = Inr (parens', u)"
      and r: "readToken (junk u) u = Inr (tok, v)" and b: "batch junk parens' (toks @ [tok]) v = Inr (toks', t')"
      by (auto simp: batch.simps [of junk parens toks t] andThen_eq_Inr)
    have "remaining u = remaining t" "tokens u = tokens t" using track_cases [OF tr] by (auto simp: remaining_def)
    with readToken_remaining [OF r] have less: "remaining v \<le> remaining t" "isEnd tok \<or> remaining v < remaining t"
      and same: "tokens v = tokens t"
      using readToken_tokens [OF r] by auto
    have ends: "\<not> isEnd (last (toks @ [tok])) \<or> exhausted v" using readToken_end [OF r] by auto
    show ?thesis
    proof (cases "isEnd tok")
      case True
      with b have "toks' = toks @ [tok]" "t' = v" by (auto simp: batch.simps)
      with True ends less same show ?thesis by (auto intro!: exI [of _ "[tok]"])
    next
      case tok: False
      from 1(1) [OF False tr refl r refl b ends] obtain more where
        more: "tokens t' = tokens v" "toks' = (toks @ [tok]) @ more" "\<forall>x\<in>set (butlast more). \<not> isEnd x"
          "more \<noteq> [] \<longrightarrow> isEnd (last more) \<longrightarrow> exhausted t'"
          "length more + remaining t' \<le> remaining v + (if more \<noteq> [] \<and> isEnd (last more) then 1 else 0)"
        by blast
      with tok less show ?thesis
        using same by (intro conjI exI [of _ "tok # more"]) (auto split: if_splits)
    qed
  qed
qed

text \<open>A token that is not the end token brings the tokenizer nearer to the end of its input.\<close>

definition ahead :: "toker \<Rightarrow> nat" where
  "ahead t = 2 * remaining t + length (tokens t)"

text \<open>The end token is waiting only when nothing else is.\<close>

definition endLast :: "toker \<Rightarrow> bool" where
  "endLast t \<longleftrightarrow> (\<forall>x\<in>set (tl (tokens t)). \<not> isEnd x) \<and>
     (tokens t \<noteq> [] \<and> isEnd (hd (tokens t)) \<longrightarrow> remaining t = 0 \<and> (tk_state t = st_none \<or> tk_state t = st_istr))"

lemma getToken_pop:
  assumes "tokens t \<noteq> []" and "getToken jk t = Inr (tok, u)"
  shows "tokens t = tokens u @ [tok]" "remaining u = remaining t"
    "tk_state u = (if tk_state t = st_istr \<and> \<not> isString tok \<and> \<not> isIstrBegin tok then st_none
       else if isIstrBegin tok then st_istr else tk_state t)"
  using assms by (auto simp: getToken_def Let_def remaining_def)

lemma getToken_read:
  assumes "tokens t = []" and "getToken jk t = Inr (tok, u)"
  shows "tokens u = [] \<and> readToken (jk t) t = Inr (tok, u) \<or>
    \<not> isEnd tok \<and> (\<exists>more. tokens u = rev more \<and> (\<forall>x\<in>set (butlast more). \<not> isEnd x) \<and>
      (more \<noteq> [] \<longrightarrow> isEnd (last more) \<longrightarrow> exhausted u) \<and> 2 * remaining u + length more < 2 * remaining t)"
proof -
  obtain x v where r: "readToken (jk t) t = Inr (x, v)" using assms by (auto simp: getToken_def andThen_eq_Inr)
  have v: "tokens v = []" using readToken_tokens [OF r] assms(1) by simp
  show ?thesis
  proof (cases "indentedString v \<and> isIstrBegin x")
    case False
    with assms r v show ?thesis by (auto simp: getToken_def)
  next
    case True
    with assms r obtain toks w where b: "batch jk 0 [x] v = Inr (toks, w)"
      by (auto simp: getToken_def andThen_eq_Inr)
    have noEnd: "\<not> isEnd x" using True by (simp add: tok_is_def)
    from batch_ends [OF b] noEnd obtain more where more: "toks = x # more" "tokens w = []"
        "\<forall>y\<in>set (butlast more). \<not> isEnd y" "more \<noteq> [] \<longrightarrow> isEnd (last more) \<longrightarrow> exhausted w"
        "length more + remaining w \<le> remaining v + (if more \<noteq> [] \<and> isEnd (last more) then 1 else 0)"
      using v by auto
    define w' where "w' = evaluateTokens toks w"
    have w': "sameInput w w'" "tk_state w' = tk_state w" "tokens w' = []"
      using more(2) evaluateTokens_sel(1) [of w toks w] by (simp_all add: w'_def sameInput_def)
    have eq: "tok = fixToken w' x" "u = w'\<lparr>tokens := rev (map (fixToken w') more)\<rparr>"
      using assms r b True more(1) w'(3) by (auto simp: getToken_def w'_def Let_def)
    have "2 * remaining w + length more < 2 * remaining t"
      using readToken_remaining(2) [OF r] noEnd more(5) by (cases more) (auto split: if_splits)
    moreover have "remaining u = remaining w" "exhausted u = exhausted w"
      using w' sameInput_remaining [OF w'(1)] by (auto simp: eq(2) remaining_def exhausted_def)
    moreover have "tok_type tok = tok_type x" by (simp add: eq)
    ultimately show ?thesis
      using more noEnd
      by (intro disjI2 conjI exI [of _ "map (fixToken w') more"])
         (auto simp: eq(2) tok_is_def last_map map_butlast [symmetric] split: if_splits)
  qed
qed

lemma getToken_ahead:
  assumes "getToken jk t = Inr (tok, u)" and "\<not> isEnd tok"
  shows "ahead u < ahead t"
proof (cases "tokens t = []")
  case True
  with getToken_read [OF True assms(1)] readToken_remaining [of "jk t" t tok u] assms(2)
  show ?thesis by (auto simp: ahead_def)
next
  case False
  with getToken_pop [OF False assms(1)] show ?thesis by (simp add: ahead_def)
qed

lemma getToken_endLast:
  assumes "endLast t" and "getToken jk t = Inr (tok, u)"
  shows "endLast u" and "isEnd tok \<Longrightarrow> tokens u = [] \<and> exhausted u"
proof -
  have "endLast u \<and> (isEnd tok \<longrightarrow> tokens u = [] \<and> exhausted u)"
  proof (cases "tokens t = []")
    case True
    from getToken_read [OF True assms(2)] show ?thesis
    proof
      assume "tokens u = [] \<and> readToken (jk t) t = Inr (tok, u)"
      then show ?thesis using readToken_end [of "jk t" t tok u] by (auto simp: endLast_def)
    next
      assume "\<not> isEnd tok \<and> (\<exists>more. tokens u = rev more \<and> (\<forall>x\<in>set (butlast more). \<not> isEnd x) \<and>
        (more \<noteq> [] \<longrightarrow> isEnd (last more) \<longrightarrow> exhausted u) \<and> 2 * remaining u + length more < 2 * remaining t)"
      then obtain more where "\<not> isEnd tok" "tokens u = rev more" "\<forall>x\<in>set (butlast more). \<not> isEnd x"
        "more \<noteq> [] \<longrightarrow> isEnd (last more) \<longrightarrow> exhausted u" by auto
      then show ?thesis
        by (cases more rule: rev_cases) (auto simp: endLast_def exhausted_def)
    qed
  next
    case False
    note pop = getToken_pop [OF False assms(2)]
    show ?thesis
    proof (cases "tokens u = []")
      case True
      with pop assms(1) show ?thesis
        by (auto simp: endLast_def exhausted_def tok_is_def)
    next
      case more: False
      with pop(1) assms(1) have "\<not> isEnd tok" by (cases "tokens u") (auto simp: endLast_def)
      moreover have "endLast u" using more pop assms(1) by (cases "tokens u") (auto simp: endLast_def)
      ultimately show ?thesis by simp
    qed
  qed
  then show "endLast u" "isEnd tok \<Longrightarrow> tokens u = [] \<and> exhausted u" by auto
qed

lemma getToken_exhausted:
  assumes "tokens t = []" and "exhausted t"
  shows "\<exists>tok u. getToken jk t = Inr (tok, u) \<and> isEnd tok \<and> tokens u = [] \<and> exhausted u"
proof -
  obtain tok u where r: "readToken (jk t) t = Inr (tok, u)" "isEnd tok" "exhausted u"
    using readToken_exhausted [OF assms(2)] by blast
  with assms(1) readToken_tokens [OF r(1)] show ?thesis
    by (auto simp: getToken_def tok_is_def)
qed

end
