(* ===== verification/Record_Generic.thy ===== *)
theory Record_Generic
  imports Toker_End Parser_State Generic_Serial
begin

text \<open>
  How the parser records the body of a generic class (\<open>Parser::recordBlock\<close>, \<open>recordIStr\<close> and
  \<open>parseGenericParms\<close>). The state is the tokenizer and the body of the generic, to which every token
  read is added.
\<close>

section \<open>The functions\<close>

type_synonym 'a recorder = "(perror, toker \<times> token list, 'a) action"

text \<open>\<open>toker.getToken()\<close> and \<open>generic->addToken(tok)\<close>\<close>

definition takeRecorded :: "(toker \<Rightarrow> locals) \<Rightarrow> token recorder" where
  "takeRecorded jk = (\<lambda>(t, body). Some (case getToken jk t of
     Inl e \<Rightarrow> Inl (LexFailed e) | Inr (tok, u) \<Rightarrow> Inr (tok, (u, body @ [tok]))))"

definition resumeRecorded :: "unit recorder" where
  "resumeRecorded = (\<lambda>(t, body). Some (case continueIString t of
     Inl e \<Rightarrow> Inl (LexFailed e) | Inr u \<Rightarrow> Inr ((), (u, body))))"

text \<open>There is no test for the end of the file.\<close>

partial_function (option) recordIStr :: "(toker \<Rightarrow> locals) \<Rightarrow> int \<Rightarrow> unit recorder" where
  "recordIStr jk depth s =
     andBind (takeRecorded jk) (\<lambda>tok.
       if isLParen tok then recordIStr jk (depth + 1)
       else if isRParen tok then
         if depth - 1 = 0 then andBind resumeRecorded (\<lambda>_. recordIStr jk 0) else recordIStr jk (depth - 1)
       else if isIdent tok \<and> depth = 0 then andBind resumeRecorded (\<lambda>_. recordIStr jk depth)
       else if isIstrEnd tok then yields ()
       else recordIStr jk depth) s"

text \<open>The message for a premature end also quotes where the block starts, which is left out.\<close>

partial_function (option) recordBlock :: "(toker \<Rightarrow> locals) \<Rightarrow> nat \<Rightarrow> unit recorder" where
  "recordBlock jk bracketCount s =
     (if bracketCount = 0 then yields ()
      else andBind (takeRecorded jk) (\<lambda>tok.
        if tok_is T_lcurly tok then recordBlock jk (bracketCount + 1)
        else if tok_is T_rcurly tok then recordBlock jk (bracketCount - 1)
        else if isIstrBegin tok then andBind (recordIStr jk 0) (\<lambda>_. recordBlock jk bracketCount)
        else if isEnd tok then throw (ErrorAt tok ''Premature end of file'')
        else recordBlock jk bracketCount)) s"

text \<open>\<open>parseGenericParms\<close>; what is no identifier is skipped without a message.\<close>

definition addParm :: "token \<Rightarrow> string list \<Rightarrow> string list" where
  "addParm tok names = (if isIdent tok then names @ [tok_data tok] else names)"

partial_function (option) genericParmsLoop :: "('e, 'c) penv \<Rightarrow> string list \<Rightarrow> token \<Rightarrow> ('c, string list) parser" where
  "genericParmsLoop env names tok s =
     (andBind (nextToken env) (\<lambda>tok2.
        if tok_is T_rbracket tok2 then yields (addParm tok names)
        else if \<not> tok_is T_comma tok2 then unexpected tok2 ''comma or closing bracket expected in generic parameter list.''
        else andBind (nextToken env) (genericParmsLoop env (addParm tok names)))) s"

definition parseGenericParms :: "('e, 'c) penv \<Rightarrow> ('c, string list) parser" where
  "parseGenericParms env = andBind (nextToken env) (genericParmsLoop env [])"

section \<open>Replaying a recorded body\<close>

text \<open>Where the recorder is: in a block, or in an interpolated string of the block.\<close>

datatype place = InBlock nat | InString int nat

text \<open>The place after a token.\<close>

fun placeAfter :: "place \<Rightarrow> token \<Rightarrow> place" where
  "placeAfter (InBlock n) tok =
     (if tok_is T_lcurly tok then InBlock (n + 1)
      else if tok_is T_rcurly tok then InBlock (n - 1)
      else if isIstrBegin tok then InString 0 n
      else InBlock n)"
| "placeAfter (InString d n) tok =
     (if isLParen tok then InString (d + 1) n
      else if isRParen tok then InString (d - 1) n
      else if isIstrEnd tok then InBlock n
      else InString d n)"

text \<open>The sequences of tokens that are a body from a place on: the block closes with the last token.\<close>

fun isBody :: "place \<Rightarrow> token list \<Rightarrow> bool" where
  "isBody p [] \<longleftrightarrow> p = InBlock 0"
| "isBody p (tok # toks) \<longleftrightarrow> p \<noteq> InBlock 0 \<and> (isEnd tok \<longrightarrow> (\<exists>d n. p = InString d n)) \<and> isBody (placeAfter p tok) toks"

text \<open>The recorder from a place on.\<close>

definition recordFrom :: "(toker \<Rightarrow> locals) \<Rightarrow> place \<Rightarrow> unit recorder" where
  "recordFrom jk p = (case p of
     InBlock n \<Rightarrow> recordBlock jk n
   | InString d n \<Rightarrow> andBind (recordIStr jk d) (\<lambda>_. recordBlock jk n))"


text \<open>The state of the tokenizer after it returned a token that was put back.\<close>

definition stateAfter :: "tstate \<Rightarrow> token \<Rightarrow> tstate" where
  "stateAfter st tok = (if st = st_istr \<and> \<not> isString tok \<and> \<not> isIstrBegin tok then st_none
     else if isIstrBegin tok then st_istr else st)"

lemma takeRecorded_putBack:
  "takeRecorded jk (putBack tok t, acc) = Some (Inr (tok, (goto (stateAfter (tk_state t) tok) t, acc @ [tok])))"
  by (auto simp: takeRecorded_def getToken_def putBack_def Let_def stateAfter_def)

definition rests :: "place \<Rightarrow> toker \<Rightarrow> bool" where
  "rests p t \<longleftrightarrow> tk_state t = st_none \<or> (tk_state t = st_istr \<and> (\<exists>d n. p = InString d n))"

lemma foldr_putBack_state:
  "tk_state (foldr putBack toks t) = tk_state t"
  "goto s (foldr putBack toks t) = foldr putBack toks (goto s t)"
  by (simp_all add: foldr_putBack)

text \<open>One token, read at any place. Tokens after which the string goes on are followed by \<open>continueIString\<close>.\<close>

fun resumesAt :: "place \<Rightarrow> token \<Rightarrow> bool" where
  "resumesAt (InBlock n) tok \<longleftrightarrow> False"
| "resumesAt (InString d n) tok \<longleftrightarrow> (isRParen tok \<and> d = 1) \<or> (isIdent tok \<and> d = 0)"

fun inBlock :: "place \<Rightarrow> bool" where
  "inBlock (InBlock n) \<longleftrightarrow> True"
| "inBlock (InString d n) \<longleftrightarrow> False"

lemma recordFrom_done: "recordFrom jk (InBlock 0) s = Some (Inr ((), s))"
  by (simp add: recordFrom_def recordBlock.simps yields_def)

lemma recordFrom_step:
  assumes "p \<noteq> InBlock 0"
  shows "recordFrom jk p s = andBind (takeRecorded jk) (\<lambda>tok.
    if isEnd tok \<and> inBlock p then throw (ErrorAt tok ''Premature end of file'')
    else andBind (if resumesAt p tok then resumeRecorded else yields ()) (\<lambda>_. recordFrom jk (placeAfter p tok))) s"
proof (cases p)
  case (InBlock n)
  show ?thesis unfolding InBlock recordFrom_def place.case
    by (subst recordBlock.simps) (use assms InBlock in \<open>auto intro!: andBind_cong simp: tok_is_def\<close>)
next
  case (InString d n)
  show ?thesis unfolding InString recordFrom_def place.case
    by (subst ext [OF recordIStr.simps], unfold andBind_assoc, rule andBind_cong [OF refl])
       (auto simp: andBind_assoc tok_is_def)
qed

lemma replay_body:
  "isBody p toks \<Longrightarrow> rests p t \<Longrightarrow>
   recordFrom jk p (foldr putBack toks t, acc) = Some (Inr ((), (goto st_none t, acc @ toks)))"
proof (induction toks arbitrary: p t acc)
  case Nil
  then show ?case
    by (auto simp: rests_def recordFrom_def recordBlock.simps yields_def)
next
  case (Cons tok toks)
  define st where "st = (if resumesAt p tok then st_istr else stateAfter (tk_state t) tok)"
  have resume: "resumesAt p tok \<Longrightarrow> stateAfter (tk_state t) tok = st_none"
    and rest: "rests (placeAfter p tok) (goto st t)"
    using Cons.prems(2)
    by (cases p; auto simp: rests_def stateAfter_def st_def tok_is_def)+
  have "recordFrom jk p (foldr putBack (tok # toks) t, acc) =
      recordFrom jk (placeAfter p tok) (foldr putBack toks (goto st t), acc @ [tok])"
    using Cons.prems(1) resume
    by (auto simp: recordFrom_step andBind_def takeRecorded_putBack resumeRecorded_def foldr_putBack_state
        continueIString_def st_def yields_def elim: inBlock.elims)
  with Cons show ?case using rest by simp
qed

text \<open>What is recorded is a body.\<close>

lemma takeRecorded_snd: "takeRecorded jk s = Some (Inr (tok, s')) \<Longrightarrow> snd s' = snd s @ [tok]"
  by (auto simp: takeRecorded_def split: sum.splits prod.splits)

lemma resumeRecorded_snd: "resumeRecorded s = Some (Inr (x, s')) \<Longrightarrow> snd s' = snd s"
  by (auto simp: resumeRecorded_def split: sum.splits prod.splits)

lemma andBind_Some:
  "andBind m f s = Some (Inr y) \<longleftrightarrow> (\<exists>x s'. m s = Some (Inr (x, s')) \<and> f x s' = Some (Inr y))"
  by (cases "m s") (auto simp: andBind_def split: sum.splits)

definition closesString :: "int \<Rightarrow> token list \<Rightarrow> bool" where
  "closesString d toks \<longleftrightarrow> (\<forall>n rest. isBody (InBlock n) rest \<longrightarrow> isBody (InString d n) (toks @ rest))"

lemma recordIStr_body:
  "recordIStr jk d s = Some r \<Longrightarrow>
   (\<forall>t'. r = Inr ((), t') \<longrightarrow> (\<exists>toks. snd t' = snd s @ toks \<and> closesString d toks))"
proof (induction rule: recordIStr.raw_induct [rotated 1, consumes 1])
  case (1 f jk d s r)
  have go: "\<exists>toks. snd t' = snd s @ toks \<and> closesString d toks"
    if "snd s' = snd s @ [tok]" "f jk d' s' = Some (Inr ((), t'))" "\<not> isIstrEnd tok"
      "\<And>n. placeAfter (InString d n) tok = InString d' n" for tok s' d' t'
    using 1(1) [OF that(2)] that(1,3,4) by (auto simp: closesString_def)
  show ?case
  proof (intro allI impI)
    fix t' assume "r = Inr ((), t')"
    with 1(2) obtain tok s' where take: "takeRecorded jk s = Some (Inr (tok, s'))"
      and k: "(if isLParen tok then f jk (d + 1)
         else if isRParen tok then if d - 1 = 0 then andBind resumeRecorded (\<lambda>_. f jk 0) else f jk (d - 1)
         else if isIdent tok \<and> d = 0 then andBind resumeRecorded (\<lambda>_. f jk d)
         else if isIstrEnd tok then yields () else f jk d) s' = Some (Inr ((), t'))"
      by (auto simp: andBind_Some)
    note snd = takeRecorded_snd [OF take]
    show "\<exists>toks. snd t' = snd s @ toks \<and> closesString d toks"
    proof (cases "isIstrEnd tok")
      case True
      with k snd have "snd t' = snd s @ [tok]" by (auto simp: tok_is_def yields_def)
      with True show ?thesis by (auto simp: closesString_def tok_is_def intro!: exI [of _ "[tok]"])
    next
      case False
      then obtain d' s1 where "snd s1 = snd s'" "f jk d' s1 = Some (Inr ((), t'))"
        "\<And>n. placeAfter (InString d n) tok = InString d' n"
        using k by (auto simp: andBind_Some tok_is_def dest!: resumeRecorded_snd split: if_splits)
      with go False snd show ?thesis by metis
    qed
  qed
qed

lemma recordBlock_body:
  assumes "recordBlock jk n s = Some r"
  shows "\<forall>t'. r = Inr ((), t') \<longrightarrow> (\<exists>toks. snd t' = snd s @ toks \<and> isBody (InBlock n) toks)"
  using assms
proof (induction rule: recordBlock.raw_induct [rotated 1, consumes 1])
  case (1 f jk n s r)
  have go: "\<exists>toks. snd t' = snd s @ toks \<and> isBody (InBlock n) toks"
    if "snd s' = snd s @ toks1" "f jk n' s' = Some (Inr ((), t'))"
      "\<And>toks. isBody (InBlock n') toks \<Longrightarrow> isBody (InBlock n) (toks1 @ toks)" for toks1 s' n' t'
    using 1(1) [OF that(2)] that(1,3) by auto
  show ?case
  proof (intro allI impI)
    fix t' assume r: "r = Inr ((), t')"
    show "\<exists>toks. snd t' = snd s @ toks \<and> isBody (InBlock n) toks"
    proof (cases "n = 0")
      case True
      with 1(2) r show ?thesis by (auto simp: yields_def)
    next
      case False
      with 1(2) r obtain tok s' where take: "takeRecorded jk s = Some (Inr (tok, s'))"
        and k: "(if tok_is T_lcurly tok then f jk (n + 1)
           else if tok_is T_rcurly tok then f jk (n - 1)
           else if isIstrBegin tok then andBind (recordIStr jk 0) (\<lambda>_. f jk n)
           else if isEnd tok then throw (ErrorAt tok ''Premature end of file'')
           else f jk n) s' = Some (Inr ((), t'))"
        by (auto simp: andBind_Some)
      note snd = takeRecorded_snd [OF take]
      show ?thesis
      proof (cases "isIstrBegin tok")
        case True
        with k obtain s1 where s1: "recordIStr jk 0 s' = Some (Inr ((), s1))" "f jk n s1 = Some (Inr ((), t'))"
          by (auto simp: andBind_Some tok_is_def)
        with recordIStr_body [OF s1(1)] obtain toks where "snd s1 = snd s @ (tok # toks)" "closesString 0 toks"
          using snd by auto
        then show ?thesis
          using go [OF _ s1(2), of "tok # toks"] True False by (auto simp: closesString_def tok_is_def)
      next
        case no: False
        with k False obtain n' where "f jk n' s' = Some (Inr ((), t'))"
          "placeAfter (InBlock n) tok = InBlock n'" "\<not> isEnd tok"
          by (auto simp: throw_def tok_is_def split: if_splits)
        with go [OF snd, of n' t'] False show ?thesis by auto
      qed
    qed
  qed
qed

section \<open>Returning\<close>

text \<open>
  A recorder that tests for the end of the file everywhere, with two messages. It returns for every
  tokenizer: a token that is not the end token brings the end nearer.
\<close>

abbreviation endsInString :: string where
  "endsInString \<equiv> ''End of file in an interpolated string''"

function recordChecked :: "(toker \<Rightarrow> locals) \<Rightarrow> place \<Rightarrow> toker \<Rightarrow> token list \<Rightarrow> perror + unit \<times> toker \<times> token list" where
  "recordChecked jk p t acc =
     (if p = InBlock 0 then Inr ((), (t, acc))
      else case getToken jk t of
        Inl e \<Rightarrow> Inl (LexFailed e)
      | Inr (tok, u) \<Rightarrow>
          if isEnd tok then Inl (ErrorAt tok (if inBlock p then ''Premature end of file'' else endsInString))
          else if resumesAt p tok then (case continueIString u of
              Inl e \<Rightarrow> Inl (LexFailed e)
            | Inr v \<Rightarrow> recordChecked jk (placeAfter p tok) v (acc @ [tok]))
          else recordChecked jk (placeAfter p tok) u (acc @ [tok]))"
  by pat_completeness auto
termination
proof (relation "measure (\<lambda>(jk, p, t, acc). ahead t)", simp, goal_cases)
  case (1 jk p t acc x tok u v)
  then have "ahead v = ahead u"
    by (auto simp: continueIString_def ahead_def remaining_def split: if_splits)
  with 1 show ?case using getToken_ahead [of jk t tok u] by simp
next
  case (2 jk p t acc x tok u)
  then show ?case using getToken_ahead [of jk t tok u] by simp
qed

declare recordChecked.simps [simp del]

lemma recordFrom_read:
  assumes "p \<noteq> InBlock 0"
  shows "recordFrom jk p (t, acc) = (case getToken jk t of
     Inl e \<Rightarrow> Some (Inl (LexFailed e))
   | Inr (tok, u) \<Rightarrow>
       if isEnd tok \<and> inBlock p then Some (Inl (ErrorAt tok ''Premature end of file''))
       else if resumesAt p tok then (case continueIString u of
           Inl e \<Rightarrow> Some (Inl (LexFailed e))
         | Inr v \<Rightarrow> recordFrom jk (placeAfter p tok) (v, acc @ [tok]))
       else recordFrom jk (placeAfter p tok) (u, acc @ [tok]))"
  by (auto simp: recordFrom_step [OF assms] andBind_def takeRecorded_def resumeRecorded_def throw_def yields_def
      split: sum.splits)

text \<open>At the end of the input the string is never left.\<close>

lemma recordIStr_endless:
  assumes "recordIStr jk d s = Some r"
  shows "\<not> (tokens (fst s) = [] \<and> exhausted (fst s))"
  using assms
proof (induction rule: recordIStr.raw_induct [rotated 1, consumes 1])
  case (1 f jk d s r)
  show ?case
  proof
    assume "tokens (fst s) = [] \<and> exhausted (fst s)"
    then obtain tok u where u: "getToken jk (fst s) = Inr (tok, u)" "isEnd tok" "tokens u = []" "exhausted u"
      using getToken_exhausted by blast
    with 1(2) have "f jk d (u, snd s @ [tok]) = Some r"
      by (cases s) (auto simp: andBind_def takeRecorded_def tok_is_def)
    from 1(1) [OF this] u show False by simp
  qed
qed

lemma recordFrom_endless:
  assumes "tokens t = []" and "exhausted t"
  shows "recordFrom jk (InString d n) (t, acc) = None"
  using recordIStr_endless [of jk d "(t, acc)"] assms
  by (cases "recordIStr jk d (t, acc)") (simp_all add: recordFrom_def andBind_def)

lemma recordFrom_checked:
  "endLast t \<Longrightarrow> recordFrom jk p (t, acc) =
     (case recordChecked jk p t acc of
        Inl (ErrorAt tok msg) \<Rightarrow> if msg = endsInString then None else Some (Inl (ErrorAt tok msg))
      | r \<Rightarrow> Some r)"
proof (induction jk p t acc rule: recordChecked.induct)
  case (1 jk p t acc)
  show ?case
  proof (cases "p = InBlock 0")
    case True
    then show ?thesis by (simp add: recordFrom_done recordChecked.simps)
  next
    case False
    show ?thesis
    proof (cases "getToken jk t")
      case (Inl e)
      with False show ?thesis by (simp add: recordFrom_read recordChecked.simps [of jk p])
    next
      case (Inr r)
      then obtain tok u where u: "getToken jk t = Inr (tok, u)" by (cases r) auto
      note keep = getToken_endLast [OF 1(3) u]
      show ?thesis
      proof (cases "isEnd tok")
        case True
        with keep have "recordFrom jk q (u, acc @ [tok]) = None" if "\<not> inBlock q" for q
          using that by (cases q) (simp_all add: recordFrom_endless)
        moreover have "\<not> resumesAt p tok" "\<not> inBlock p \<Longrightarrow> \<not> inBlock (placeAfter p tok)"
          using True by (cases p; simp add: tok_is_def)+
        ultimately show ?thesis
          using u True False by (simp add: recordFrom_read recordChecked.simps [of jk p])
      next
        case tok: False
        show ?thesis
        proof (cases "resumesAt p tok")
          case True
          show ?thesis
          proof (cases "continueIString u")
            case (Inl e)
            with u tok True False show ?thesis by (simp add: recordFrom_read recordChecked.simps [of jk p] continueIString_def split: if_splits)
          next
            case (Inr v)
            then have "endLast v" using keep by (auto simp: continueIString_def endLast_def remaining_def split: if_splits)
            with 1(1) [OF False u refl tok True Inr] u tok True False Inr show ?thesis
              by (simp add: recordFrom_read recordChecked.simps [of jk p])
          qed
        next
          case go: False
          with 1(2) [OF False u refl tok go keep(1)] u tok False show ?thesis
            by (simp add: recordFrom_read recordChecked.simps [of jk p])
        qed
      qed
    qed
  qed
qed

section \<open>The theorems\<close>

text \<open>
  C39. Recording the body of a generic returns exactly when the input does not end within an
  interpolated string: then it never does, because \<open>recordIStr()\<close>, unlike \<open>recordBlock()\<close>, does not look
  for the end of the file. Otherwise the result is the one of the recorder that looks for the end
  everywhere, which is total: the body, a parse error, or the message that the file ends too early.
  (\<open>endLast\<close>: no end token has been put back.)
\<close>

theorem recordBlock_returns:
  assumes "endLast t"
  shows "recordBlock jk n (t, acc) = (case recordChecked jk (InBlock n) t acc of
     Inl (ErrorAt tok msg) \<Rightarrow> if msg = endsInString then None else Some (Inl (ErrorAt tok msg))
   | r \<Rightarrow> Some r)"
  using recordFrom_checked [OF assms, of jk "InBlock n"] by (simp add: recordFrom_def)

definition openString :: toker where
  "openString = sampleToker ''x = `hi $(f''"

declare recordIStr.simps [code] recordBlock.simps [code] recordChecked.simps [code]

lemma openString_checked:
  "(case recordChecked (\<lambda>_. blankLocals) (InBlock 1) openString [] of
      Inl (ErrorAt tok msg) \<Rightarrow> msg = endsInString | _ \<Rightarrow> False)"
  by code_simp

lemma recordBlock_returns_witness: "recordBlock (\<lambda>_. blankLocals) 1 (openString, []) = None"
proof -
  have "endLast openString"
    by (simp add: endLast_def openString_def sampleToker_def newToker_def blankToker_def)
  from recordBlock_returns [OF this, of "\<lambda>_. blankLocals" 1 "[]"] openString_checked show ?thesis
    by (auto split: sum.splits perror.splits)
qed

text \<open>
  C40. Recording is undone by replaying: when the body recorded from one tokenizer is put back into
  any other one in its normal state, by \<open>Generic::replay()\<close>, and recorded again, the same body is recorded,
  the interpolated strings in it included, and the tokenizer is left as it was.
\<close>

theorem record_replay:
  assumes "recordBlock jk n (t, []) = Some (Inr ((), (t', body g)))" and "tk_state u = st_none"
  shows "recordBlock jk' n (replay g u, []) = Some (Inr ((), (u, body g)))"
proof -
  have "isBody (InBlock n) (body g)" using recordBlock_body [OF assms(1)] by simp
  from replay_body [OF this, of u jk' "[]"] assms(2) show ?thesis
    by (simp add: recordFrom_def rests_def replay_def foldr_conv_fold)
qed

definition istrBody :: toker where
  "istrBody = sampleToker ''x = `hi $name $(f(1))!`; {} } y''"

lemma istrBody_recorded:
  "(case recordBlock (\<lambda>_. blankLocals) 1 (istrBody, []) of
      Some (Inr (_, (_, toks))) \<Rightarrow> map tok_type toks =
        [T_ident, T_assign, T_istrBegin, T_string, T_ident, T_string, T_lparen, T_ident, T_lparen, T_integer,
         T_rparen, T_rparen, T_string, T_istrEnd, T_semi, T_lcurly, T_rcurly, T_rcurly]
    | _ \<Rightarrow> False)"
  by code_simp

lemma record_replay_witness:
  "\<exists>t toks. recordBlock (\<lambda>_. blankLocals) 1 (istrBody, []) = Some (Inr ((), (t, toks))) \<and> length toks = 18 \<and>
     recordBlock (\<lambda>_. blankLocals) 1 (replay (sampleGeneric\<lparr>body := toks\<rparr>) (sampleToker ''z''), []) =
       Some (Inr ((), (sampleToker ''z'', toks)))"
proof -
  obtain t toks where r: "recordBlock (\<lambda>_. blankLocals) 1 (istrBody, []) = Some (Inr ((), (t, toks)))"
    and types: "map tok_type toks =
        [T_ident, T_assign, T_istrBegin, T_string, T_ident, T_string, T_lparen, T_ident, T_lparen, T_integer,
         T_rparen, T_rparen, T_string, T_istrEnd, T_semi, T_lcurly, T_rcurly, T_rcurly]"
    using istrBody_recorded by (auto split: option.splits sum.splits)
  have "length toks = 18" using arg_cong [OF types, of length] by simp
  moreover have "tk_state (sampleToker ''z'') = st_none"
    by (simp add: sampleToker_def newToker_def blankToker_def)
  ultimately show ?thesis
    using r record_replay [of "\<lambda>_. blankLocals" 1 istrBody t "sampleGeneric\<lparr>body := toks\<rparr>" "sampleToker ''z''"
        "\<lambda>_. blankLocals"] by simp
qed

text \<open>
  \<open>recordIStr()\<close> ends at the first end of a string. When the expression in a string has a string of its
  own, what follows in the outer string is recorded as code.
\<close>

lemma nested_string_ends:
  "isIstrEnd tok \<Longrightarrow> getToken jk t = Inr (tok, u) \<Longrightarrow> recordIStr jk d (t, acc) = Some (Inr ((), (u, acc @ [tok])))"
  by (subst recordIStr.simps) (simp add: andBind_def takeRecorded_def tok_is_def yields_def)

end
