(* ===== verification/Parse_Keeps.thy ===== *)
theory Parse_Keeps
  imports Parse_Rec Action_Rules
begin

text \<open>
  What the parser of expressions keeps: a preorder on the states that the operations it is given keep,
  that does not look at the store and survives an inner context, is kept by every call of the recursive
  descent. The relation is the parameter of a locale.
\<close>

section \<open>The relation on the states of the parser\<close>

definition semRel :: "('c sems \<Rightarrow> 'c sems \<Rightarrow> bool) \<Rightarrow> 'c pstate \<Rightarrow> 'c pstate \<Rightarrow> bool" where
  "semRel R s t \<longleftrightarrow> R (ps_sem s) (ps_sem t)"

text \<open>The operations an expression parser is given.\<close>

definition envKeeps :: "('c sems \<Rightarrow> 'c sems \<Rightarrow> bool) \<Rightarrow> ('e, 'c) penv \<Rightarrow> bool" where
  "envKeeps R env \<longleftrightarrow>
     (\<forall>e. keeps R (getType env e)) \<and> (\<forall>e es. keeps R (makeCall env e es)) \<and>
     (\<forall>a b. keeps R (makeAssignment env a b)) \<and> (\<forall>t. keeps R (newGetRegister env t)) \<and>
     (\<forall>v. keeps R (getStrConst env v)) \<and> (\<forall>t tok. keeps R (emitVarDef env t tok)) \<and>
     (\<forall>v d. keeps R (setVarDoc env v d)) \<and> (\<forall>t es. keeps R (emitConstSequence env t es)) \<and>
     (\<forall>d ts. keeps R (getSpecialization env d ts)) \<and> importerKeeps R (importer env) \<and> keeps R (popErrorContext env) \<and>
     keeps (semRel R) (parseAnnotation env) \<and> (\<forall>t tok nm. keeps (semRel R) (parseFuncDef env t tok nm)) \<and>
     keeps (semRel R) (parseClassDef env)"

locale frame_relation = kept R for R :: "'c sems \<Rightarrow> 'c sems \<Rightarrow> bool" +
  assumes keep_store: "R s (s\<lparr>sem_store := h\<rparr>)"
    and keep_scope: "R (s\<lparr>sem_ctx := (newFrame sc n k)\<lparr>ctx_returnType := t\<rparr> # sem_ctx s, sem_store := h\<rparr>) u \<Longrightarrow>
      R s (u\<lparr>sem_ctx := tl (sem_ctx u)\<rparr>)"

sublocale frame_relation \<subseteq> parser: kept "semRel R"
  by unfold_locales (auto simp: semRel_def intro: kept_refl kept_trans)

context frame_relation
begin

lemma keeps_sem: "keeps R m \<Longrightarrow> keeps (semRel R) (sem m)"
  proof (rule keepsI)
  fix s x s' assume "keeps R m" "sem m s = Some (Inr (x, s'))"
  then show "semRel R s s'"
    by (cases "m (ps_sem s)"; cases "the (m (ps_sem s))") (auto simp: sem_def onPart_def semRel_def keeps_def)
qed

lemma keeps_token: "(\<And>s. ps_sem (h s) = ps_sem s) \<Longrightarrow> keeps (semRel R) (modifies h)"
  by (rule parser.keeps_modifies) (simp add: semRel_def kept_refl)

lemma keeps_reading: "keeps (semRel R) (rawToken env)" "keeps (semRel R) (unread tok)"
  "keeps (semRel R) (unexpected tok msg)" "keeps (semRel R) consumeDocs" "keeps (semRel R) resumeIString"
  unfolding unread_def unexpected_def
  by (auto simp: keeps_def rawToken_def consumeDocs_def resumeIString_def modifies_def throw_def semRel_def kept_refl
    split: sum.splits)

lemma keeps_skipDocs: "keeps (semRel R) (skipDocs env)"
proof (rule keeps_keptByI)
  fix s r assume "skipDocs env s = Some r"
  then show "keptBy (semRel R) s r"
  proof (induction rule: skipDocs.raw_induct [rotated 1, consumes 1])
    case (1 skip env s r)
    note IH = keeps_keptByI [OF 1(1)]
    show ?case
      by (rule keptByI [where m = "andBind _ _", OF _ 1(2)]) (intro parser.keeps_rules keeps_reading keeps_token IH, simp)
  qed
qed

lemma keeps_skipAnnotations:
  assumes "keeps R (popErrorContext env)" and "keeps (semRel R) (parseAnnotation env)"
  shows "keeps (semRel R) (skipAnnotations env tok)"
proof (rule keeps_keptByI)
  fix s r assume "skipAnnotations env tok s = Some r"
  then show "keptBy (semRel R) s r"
    using assms
  proof (induction rule: skipAnnotations.raw_induct [rotated 1, consumes 1])
    case (1 skip env tok s r)
    note IH = keeps_keptByI [OF 1(1) [OF _ 1(3,4)]]
    show ?case
      by (rule keptByI [where m = "if _ then _ else _", OF _ 1(2)])
        (intro parser.keeps_rules keeps_skipDocs keeps_sem 1(3,4) IH)
  qed
qed

lemma keeps_nextToken:
  "keeps R (popErrorContext env) \<Longrightarrow> keeps (semRel R) (parseAnnotation env) \<Longrightarrow> keeps (semRel R) (nextToken env)"
  unfolding nextToken_def by (intro parser.keeps_bind keeps_skipDocs keeps_skipAnnotations)

lemma keeps_vdef: "(\<And>d. keeps R (f d)) \<Longrightarrow> (\<And>d. keeps R (g d)) \<Longrightarrow>
    keeps R (case v of Plain d \<Rightarrow> f d | Scoped d \<Rightarrow> g d)"
  by (cases v) simp_all

lemma keeps_derefKind: "keeps R m \<Longrightarrow> (\<And>d. keeps R (f d)) \<Longrightarrow> (\<And>g. keeps R (h g)) \<Longrightarrow>
    keeps R (case v of NoDeref \<Rightarrow> m | FieldDeref d \<Rightarrow> f d | AttrDeref g \<Rightarrow> h g)"
  by (cases v) simp_all

section \<open>Operations of the context\<close>

lemma keeps_onStore: "keeps R (onStore m)"
proof (rule keepsI)
  fix s s' :: "'c sems" and x assume "onStore m s = Some (Inr (x, s'))"
  then show "R s s'"
    by (cases "m (sem_store s)"; cases "the (m (sem_store s))") (auto simp: onStore_def keep_store)
qed

lemma keeps_makeImpl: "keeps R (makeImpl d)"
proof (rule keepsI)
  fix s s' :: "'c sems" and x assume "makeImpl d s = Some (Inr (x, s'))"
  then have "\<exists>h. s' = s\<lparr>sem_store := h\<rparr>"
    unfolding makeImpl_def by (cases "createImpl d (sem_store s)") (simp_all split: sum.splits unit.splits, blast)
  then show "R s s'" using keep_store by blast
qed

text \<open>Imports; those of annotations, which are recorded in the context, aside.\<close>

lemma keeps_importParts:
  "keeps R (checkImport n md locs st imp)" "keeps R (bindAlias n nm d)" "keeps R (dependOnDef m d)"
  "keeps R (dependOnModule cur md)" "keeps R (getLazyImport im m nm)" "keeps R (pushImported c md)"
  unfolding checkImport_def bindAlias_def dependOnDef_def dependOnModule_def getLazyImport_def pushImported_def
  by (intro keeps_rules keeps_onStore keeps_modifies; simp add: keep_store kept_refl)+

lemma keeps_bindImports:
  assumes "importerKeeps R im"
  shows "keeps R (bindImports im c n md cur locs st imps)"
proof (induction imps arbitrary: st)
  case (Cons imp imps)
  have "keeps R (registerImportedDef im c d)" for d using assms by (simp add: importerKeeps_def)
  then show ?case unfolding bindImports.simps by (intro keeps_rules keeps_importParts Cons.IH)
qed (simp add: keeps_basic)

lemma keeps_emitImport:
  assumes "importerKeeps R im"
  shows "keeps R (emitImport im c n path imps False rec raw locs)"
proof -
  have "keeps R (findModule im path)" "keeps R (initializeImport im md imps)" "keeps R (importSharedLibrary im nm imps c n)" for md nm
    using assms by (simp_all add: importerKeeps_def)
  then show ?thesis unfolding emitImport_def simp_thms if_False
    by (intro keeps_rules keeps_importParts keeps_bindImports [OF assms])
qed

lemma keeps_lookUpLazily:
  assumes "importerKeeps R im"
  shows "keeps R (lookUpLazily im nm)"
  unfolding lookUpLazily_def maybeLazyImport_def nsLookUp_def
  by (intro keeps_rules keeps_importParts keeps_emitImport [OF assms])

lemma keeps_contextLookUps:
  assumes "importerKeeps R im"
  shows "keeps R (ctxLookUp im ot lz nm n)" "keeps R (lookUpNoArgs im ot nm al n)"
proof -
  show look: "keeps R (ctxLookUp im ot lz nm n)" for lz nm n
    unfolding ctxLookUp_def nsLookUp_def by (intro keeps_rules keeps_onStore keeps_lookUpLazily [OF assms])
  show "keeps R (lookUpNoArgs im ot nm al n)" unfolding lookUpNoArgs_def by (intro keeps_rules look)
qed

lemma keeps_lookUpCall:
  assumes "importerKeeps R im"
  shows "keeps R (lookUpCall im ot ops nm ov n vals)"
proof (rule keeps_keptByI)
  fix s r assume "lookUpCall im ot ops nm ov n vals s = Some r"
  then show "keptBy R s r"
    using assms
  proof (induction rule: lookUpCall.raw_induct [rotated 1, consumes 1])
    case (1 rec im ot ops nm ov n vals s r)
    note IH = keeps_keptByI [OF 1(1) [OF _ 1(3)]]
    show ?case
      by (rule keptByI [where m = "andBind _ _", OF _ 1(2)]) (intro keeps_rules keeps_contextLookUps 1(3) IH)
  qed
qed

lemma keeps_names: "keeps R curNs" "keeps R (nsOr n)" "keeps R (nsLookUp nm a)" "keeps R (checkAccess d nm)" "keeps R (usableFrom d)"
proof -
  show "keeps R curNs" "keeps R (nsOr n)" for n unfolding curNs_def nsOr_def by (intro keeps_rules)+
  show "keeps R (nsLookUp nm a)" "keeps R (checkAccess d nm)" "keeps R (usableFrom d)"
    unfolding nsLookUp_def checkAccess_def usableFrom_def by (intro keeps_rules)+
qed

lemma envKeeps_importer: "envKeeps R env \<Longrightarrow> importerKeeps R (importer env)"
  by (simp add: envKeeps_def)

lemma keeps_lookups:
  assumes "envKeeps R env"
  shows "keeps R (lookUpDef env nm n)" "keeps R (lookUpFunc env nm vals n)" "keeps R (lookUpPlain env nm acc n)"
  unfolding lookUpDef_def lookUpFunc_def lookUpPlain_def
  by (intro keeps_rules keeps_names keeps_contextLookUps keeps_lookUpCall envKeeps_importer [OF assms])+

lemma keeps_references:
  "keeps R (tryVarRef env d)" "keeps R (varRef env d)" "keeps R thisVar" "keeps R (thisExpr env)"
  "keeps R (tryThisExpr env)" "keeps R (fieldRef env e d)" "keeps R (defRef env c v)" "keeps R (identRef env c ident msg)"
  unfolding identRef_def defRef_def fieldRef_def tryThisExpr_def thisExpr_def thisVar_def varRef_def tryVarRef_def
  by (intro keeps_rules keeps_names keeps_makeImpl keeps_vdef)+

lemma keeps_idents: "envKeeps R env \<Longrightarrow> keeps R (makeAccessor env e nm)"
  unfolding makeAccessor_def by (intro keeps_rules keeps_names keeps_lookups)

lemma keeps_assigns:
  "keeps R (assignExpr env a d val)" "keeps R (createAssign env a d val)" "keeps R (createTernary env c x y)"
  unfolding createAssign_def assignExpr_def createTernary_def derives_def Let_def
  by (intro keeps_rules keeps_names keeps_lookups keeps_references)+

section \<open>Operators\<close>

lemma envKeepsD:
  assumes "envKeeps R env"
  shows "keeps R (getType env e)" "keeps R (makeCall env e es)" "keeps R (makeAssignment env a b)"
    "keeps R (newGetRegister env t)" "keeps R (getStrConst env v)" "keeps R (emitVarDef env t tok)"
    "keeps R (setVarDoc env d v)" "keeps R (emitConstSequence env d es)" "keeps R (getSpecialization env d ts)"
    "keeps (semRel R) (parseFuncDef env d tok nm)" "keeps (semRel R) (parseClassDef env)"
    "keeps (semRel R) (nextToken env)"
  using assms by (simp_all add: envKeeps_def keeps_nextToken)

lemma keeps_binOps:
  assumes "envKeeps R env"
  shows "keeps R (lookUpBinOp env oper a b)" "keeps R (binCall env f es a b)" "keeps R (binOp env a tok b)"
    "keeps R (unaryCall env nm tok a)" "keeps R (prefixOp env tok a)" "keeps R (postfixOp env a tok)"
    "keeps R (notIs env tok a)" "keeps R (indexCall env nm tok a es)"
  unfolding binOp_def prefixOp_def postfixOp_def notIs_def indexCall_def lookUpBinOp_def binCall_def unaryCall_def
    foldedExpr_def
  by (intro keeps_rules keeps_names keeps_lookups [OF assms] envKeepsD [OF assms])+

lemma keeps_checkForRedefine: "keeps R (checkForRedefine tok d)"
  unfolding checkForRedefine_def by (intro keeps_rules keeps_names keeps_lookups)

lemma keeps_members:
  assumes "envKeeps R env"
  shows "keeps R (assignTo env a tok b)" "keeps R (makeAssign env a tok b)" "keeps R (operClass env e tok)"
    "keeps R (wrapInNullCheck env p e)" "keeps R (checkForExternalOverload env e)"
    "keeps R (defineVar env tok e)" "keeps R (convertTypeRef env e)" "keeps R (constructorOf env t es)"
  unfolding makeAssign_def assignTo_def operClass_def wrapInNullCheck_def defineVar_def
    checkForExternalOverload_def convertTypeRef_def constructorOf_def Let_def
  by (intro keeps_rules keeps_names keeps_lookups keeps_assigns keeps_binOps keeps_derefKind keeps_vdef envKeepsD assms)+

lemma keeps_newScopedDef: "keeps R (newScopedDef d)"
  by (rule keepsI) (auto simp: newScopedDef_def keep_store split: prod.splits)

lemma keeps_memberRef: "envKeeps R env \<Longrightarrow> keeps R (memberRef env e t p tok nm acc)"
  unfolding memberRef_def
  by (intro keeps_rules keeps_names keeps_lookups keeps_references keeps_idents keeps_members keeps_newScopedDef)

lemma keeps_identPrimary: "envKeeps R env \<Longrightarrow> keeps R (identPrimary env tok d isDef)"
  unfolding identPrimary_def
  by (intro keeps_checkForRedefine keeps_rules keeps_names keeps_lookups keeps_references keeps_idents keeps_members)

lemma keeps_istrings:
  assumes "envKeeps R env"
  shows "keeps R (callOn env reg f vals)" "keeps R (leaveIString env e reg es)" "keeps R (formatPart env reg tok a)"
    "keeps R (enterIString env e)"
  unfolding leaveIString_def formatPart_def enterIString_def callOn_def Let_def
  by (intro keeps_rules keeps_names keeps_lookups keeps_assigns envKeepsD assms)+

lemmas keeps_sems = keeps_checkForRedefine keeps_names keeps_lookups keeps_references keeps_idents keeps_assigns keeps_binOps keeps_members
  keeps_memberRef keeps_identPrimary keeps_istrings envKeepsD(1-9)

section \<open>Calls\<close>

lemmas keeps_parser = parser.keeps_rules keeps_reading keeps_sem keeps_token

lemma parser_vdef: "(\<And>d. keeps (semRel R) (f d)) \<Longrightarrow> (\<And>d. keeps (semRel R) (g d)) \<Longrightarrow>
    keeps (semRel R) (case v of Plain d \<Rightarrow> f d | Scoped d \<Rightarrow> g d)"
  by (cases v) simp_all

lemma keeps_results:
  assumes "\<And>t. keeps (semRel R) (rec t)"
  shows "keeps (semRel R) (exprOf rec t)" "keeps (semRel R) (exprsOf rec t)" "keeps (semRel R) (defOf rec t)"
    "keeps (semRel R) (typesOf rec t)" "keeps (semRel R) (primaryOf rec t)"
  unfolding exprOf_def exprsOf_def defOf_def typesOf_def primaryOf_def wrongResult_def
  by (rule parser.keeps_bind [OF assms], simp add: parser.keeps_basic split: result.split)+

lemma keeps_args:
  assumes "envKeeps R env" and "\<And>t. keeps (semRel R) (rec t)"
  shows "keeps (semRel R) (methodArgsBody env rec closer vals tok)" "keeps (semRel R) (parseMethodArgs env rec closer vals)"
    "keeps (semRel R) (constSequenceBody env rec t vals tok)" "keeps (semRel R) (parseConstSequence env rec t)"
    "keeps (semRel R) (parseConstructor env rec t closer)" "keeps (semRel R) (parseIndex env rec e tok)"
  unfolding parseConstructor_def parseIndex_def parseMethodArgs_def methodArgsBody_def parseConstSequence_def constSequenceBody_def
  by (intro keeps_parser keeps_results keeps_sems envKeepsD assms)+

text \<open>The context of \<open>typeof\<close> is gone when the call ends.\<close>

definition withinScope :: "'c sems \<Rightarrow> 'c pstate \<Rightarrow> bool" where
  "withinScope s0 u \<longleftrightarrow> (\<exists>t sc n k rt h. R s0 t \<and>
     R (t\<lparr>sem_ctx := (newFrame sc n k)\<lparr>ctx_returnType := rt\<rparr> # sem_ctx t, sem_store := h\<rparr>) (ps_sem u))"

lemma createSubContext_frame:
  "createSubContext sc n nm cns c h = Inr (d, h') \<Longrightarrow>
    \<exists>a k. d = (newFrame sc (Some a) (Some k))\<lparr>ctx_returnType := ctx_returnType (hd c)\<rparr> # c"
  by (auto simp: createSubContext_def Let_def andThen_def split: option.splits scope.splits sum.splits prod.splits)

lemma enter_scope:
  "yielding (\<lambda>s. R s0 (ps_sem s) \<and> sem_ctx (ps_sem s) = c)
    (sem (\<lambda>s. Some (case createSubContext sc n nm cns c (sem_store s) of
       Inl e \<Rightarrow> Inl (err e) | Inr (d, h) \<Rightarrow> Inr ((), s\<lparr>sem_ctx := d, sem_store := h\<rparr>))))
    (\<lambda>_. withinScope s0)"
proof (rule yieldingI)
  fix s x u
  let ?m = "\<lambda>s. Some (case createSubContext sc n nm cns c (sem_store s) of
    Inl e \<Rightarrow> Inl (err e) | Inr (d, h) \<Rightarrow> Inr ((), s\<lparr>sem_ctx := d, sem_store := h\<rparr>))"
  assume s: "R s0 (ps_sem s) \<and> sem_ctx (ps_sem s) = c" and m: "sem ?m s = Some (Inr (x, u))"
  then obtain d h where d: "createSubContext sc n nm cns c (sem_store (ps_sem s)) = Inr (d, h)"
    "ps_sem u = (ps_sem s)\<lparr>sem_ctx := d, sem_store := h\<rparr>"
    by (auto simp: sem_def onPart_def split: sum.splits)
  from createSubContext_frame [OF d(1)] d(2) s show "withinScope s0 u"
    unfolding withinScope_def by (metis kept_refl)
qed

lemma leave_scope: "yielding (withinScope s0) (sem (modifies (\<lambda>s. s\<lparr>sem_ctx := tl (sem_ctx s)\<rparr>))) (\<lambda>_ s. R s0 (ps_sem s))"
proof (rule yieldingI)
  fix s x u
  assume "withinScope s0 s" and m: "sem (modifies (\<lambda>s. s\<lparr>sem_ctx := tl (sem_ctx s)\<rparr>)) s = Some (Inr (x, u))"
  then obtain t sc n k rt h where "R s0 t"
    "R (t\<lparr>sem_ctx := (newFrame sc n k)\<lparr>ctx_returnType := rt\<rparr> # sem_ctx t, sem_store := h\<rparr>) (ps_sem s)"
    by (auto simp: withinScope_def)
  with keep_scope have "R s0 ((ps_sem s)\<lparr>sem_ctx := tl (sem_ctx (ps_sem s))\<rparr>)" by (blast intro: kept_trans)
  then show "R s0 (ps_sem u)" using m by (auto simp: sem_def onPart_def modifies_def)
qed

lemma withinScope_keeps: "keeps (semRel R) m \<Longrightarrow> yielding (withinScope s0) m (\<lambda>_. withinScope s0)"
  by (rule yielding_keeps, assumption) (unfold semRel_def withinScope_def, blast intro: kept_trans)

lemma keeps_before: "keeps (semRel R) m \<Longrightarrow> yielding (semRel R s0) m (\<lambda>_. semRel R s0)"
  by (erule yielding_keeps) (rule parser.kept_trans)

lemma keeps_typeof:
  assumes "envKeeps R env" and rec: "\<And>t. keeps (semRel R) (rec t)"
  shows "keeps (semRel R) (typeofBody env rec)"
proof (rule keeps_if_yielding)
  fix s0 :: "'c pstate"
  note tok = envKeepsD(12) [OF assms(1)]
  have scoped: "yielding (\<lambda>s. x = sem_ctx (ps_sem s) \<and> semRel R s0 s) (sem curNs)
      (\<lambda>_ s. R (ps_sem s0) (ps_sem s) \<and> sem_ctx (ps_sem s) = x)" for x
    by (rule yieldingI) (auto simp: sem_def onPart_def curNs_def returning_def semRel_def)
  show "yielding (semRel R s0) (typeofBody env rec) (\<lambda>_. semRel R s0)"
    unfolding typeofBody_def unexpected_def
    apply (rule yielding_bind [OF keeps_before [OF tok]], rule yielding_if, rule yielding_throw)
    apply (rule yielding_bind [OF yielding_gets], rule yielding_bind [OF scoped])
    apply (rule yielding_bind [OF enter_scope], rule yielding_bind [OF withinScope_keeps])
     apply (rule keeps_results, rule rec)
    apply (rule yielding_bind [OF withinScope_keeps [OF tok]], rule yielding_if, rule yielding_throw)
    apply (rule yielding_bind [OF leave_scope], unfold semRel_def, rule yielding_option, rule yielding_throw, rule yielding_yields)
    done
qed (rule parser.kept_refl)

lemma keeps_castType: "keeps (semRel R) (castType d)"
  unfolding castType_def by (rule parser.keeps_rules)

lemma keeps_types:
  assumes "envKeeps R env" and "\<And>t. keeps (semRel R) (rec t)"
  shows "keeps (semRel R) (specializerBody env rec ts)" "keeps (semRel R) (parseSpecializer env rec tok t)"
    "keeps (semRel R) (anyDefBody env rec var type)" "keeps (semRel R) (parseAnyDef env rec)"
    "keeps (semRel R) (typeSpecBody env rec)"
  unfolding typeSpecBody_def parseAnyDef_def anyDefBody_def parseSpecializer_def specializerBody_def
  by (intro keeps_castType keeps_parser keeps_sems keeps_results envKeepsD assms)+

lemma keeps_scoping:
  assumes "envKeeps R env"
  shows "keeps (semRel R) (scopingLoop env n var lastName got tok)"
proof (rule keeps_keptByI)
  fix s r assume "scopingLoop env n var lastName got tok s = Some r"
  then show "keptBy (semRel R) s r"
    using assms
  proof (induction rule: scopingLoop.raw_induct [rotated 1, consumes 1])
    case (1 loop env n var lastName got tok s r)
    note IH = keeps_keptByI [OF 1(1) [OF _ 1(3)]]
    show ?case
      by (rule keptByI [where m = "if _ then _ else _", OF _ 1(2)])
        (intro keeps_parser keeps_sems envKeepsD 1(3) IH)
  qed
qed

lemma keeps_parseScoping: "envKeeps R env \<Longrightarrow> keeps (semRel R) (parseScoping env n)"
  unfolding parseScoping_def by (intro parser.keeps_bind keeps_scoping envKeepsD)

lemma keeps_paths:
  assumes "envKeeps R env" and "\<And>t. keeps (semRel R) (rec t)"
  shows "keeps (semRel R) (parseOperSpec env rec)"
    "keeps (semRel R) (parsePostDot env rec e type safe)"
    "keeps (semRel R) (primaryLoopBody env rec e type tok)" "keeps (semRel R) (primaryBody env rec)"
  unfolding primaryBody_def primaryLoopBody_def parsePostDot_def parseOperSpec_def Let_def
  by (intro keeps_castType keeps_parseScoping keeps_parser keeps_sems parser_vdef keeps_results keeps_scoping keeps_args keeps_types envKeepsD assms)+

lemma keeps_strings:
  assumes "envKeeps R env" and "\<And>t. keeps (semRel R) (rec t)"
  shows "keeps (semRel R) (parseDefine env rec tok)" "keeps (semRel R) (istringLoopBody env rec f reg es)"
    "keeps (semRel R) (parseIString env rec e)" "keeps (semRel R) (parseTernary env rec e)"
    "keeps (semRel R) (parseBinOp env rec e tok p)"
  unfolding parseDefine_def istringLoopBody_def parseIString_def parseTernary_def parseBinOp_def
  by (intro keeps_parser keeps_sems keeps_results envKeepsD assms)+

lemma keeps_precedence: "keeps S (getPrecedence oper)" if "kept S"
  unfolding getPrecedence_def by (intro kept.keeps_rules [OF that])

lemma keeps_secondary:
  assumes "envKeeps R env" and "\<And>t. keeps (semRel R) (rec t)"
  shows "keeps (semRel R) (secondaryLoopBody env rec same ident p e tok)" "keeps (semRel R) (secondaryBody env rec e' ident p)"
  unfolding secondaryLoopBody_def secondaryBody_def noGetter_def Let_def
  by (intro keeps_rules keeps_parseScoping keeps_parser keeps_sems parser_vdef keeps_results keeps_args keeps_types keeps_paths keeps_strings
    keeps_precedence parser.kept_axioms envKeepsD assms)+

lemma keeps_numConst: "numConst env tok = Some m \<Longrightarrow> keeps (semRel R) m"
  unfolding numConst_def parseConstInt_def by (auto split: if_splits intro: parser.keeps_basic)

lemma keeps_number:
  fixes n :: "('c, 'e) parser option"
  assumes "n = numConst env tok" and "keeps (semRel R) m" and "\<And>e. keeps (semRel R) (f e)"
  shows "keeps (semRel R) (case n of None \<Rightarrow> m | Some k \<Rightarrow> andBind k f)"
    "keeps (semRel R) (if n \<noteq> None then andBind (the n) f else m)"
proof -
  have "keeps (semRel R) (andBind k f)" if "n = Some k" for k
    using keeps_numConst [of env tok k] that assms(1,3) by (intro parser.keeps_bind) simp_all
  with assms(2) show "keeps (semRel R) (case n of None \<Rightarrow> m | Some k \<Rightarrow> andBind k f)"
    "keeps (semRel R) (if n \<noteq> None then andBind (the n) f else m)"
    by (cases n; simp)+
qed

lemmas keeps_numbers = keeps_number [OF refl]

lemma keeps_stringsLoop:
  assumes "envKeeps R env"
  shows "keeps (semRel R) (stringsLoop env acc tok)"
proof (rule keeps_keptByI)
  fix s r assume "stringsLoop env acc tok s = Some r"
  then show "keptBy (semRel R) s r"
    using assms
  proof (induction rule: stringsLoop.raw_induct [rotated 1, consumes 1])
    case (1 loop env acc tok s r)
    note IH = keeps_keptByI [OF 1(1) [OF _ 1(3)]]
    show ?case
      by (rule keptByI [where m = "if _ then _ else _", OF _ 1(2)])
        (intro keeps_parser envKeepsD 1(3) IH)
  qed
qed

lemma keeps_lambda:
  assumes "envKeeps R env" and "\<And>t. keeps (semRel R) (rec t)"
  shows "keeps (semRel R) (parseLambda env rec tok)"
  unfolding parseLambda_def
  by (intro keeps_parser keeps_rules keeps_sems keeps_results envKeepsD assms) simp

lemma keeps_expression:
  assumes "envKeeps R env" and "\<And>t. keeps (semRel R) (rec t)"
  shows "keeps (semRel R) (expressionBody env rec p)"
  unfolding expressionBody_def expressionAt_def Let_def
  by (intro keeps_numbers keeps_parser keeps_sems keeps_results keeps_precedence parser.kept_axioms keeps_stringsLoop
    keeps_lambda envKeepsD assms)

lemma keeps_runTask:
  assumes "envKeeps R env" and "\<And>t. keeps (semRel R) (rec t)"
  shows "keeps (semRel R) (runTask env rec task)"
  unfolding runTask_def asExpr_def
  by (cases task; simp only: task.case)
    (intro parser.keeps_rules keeps_args keeps_typeof keeps_types keeps_paths keeps_strings keeps_secondary
      keeps_expression assms)+

text \<open>A call of the descent keeps what the operations it is given keep.\<close>

lemma keeps_parse:
  assumes "envKeeps R env"
  shows "keeps (semRel R) (parse env task)"
proof (rule keeps_keptByI)
  fix s r assume "parse env task s = Some r"
  then show "keptBy (semRel R) s r"
    using assms
  proof (induction rule: parse.raw_induct [rotated 1, consumes 1])
    case (1 rec env task s r)
    show ?case
      by (rule keptByI [OF keeps_runTask [OF 1(3) keeps_keptByI [OF 1(1) [OF _ 1(3)]]] 1(2)])
  qed
qed

end

end
