(* ===== verification/Builder_Blocks.thy ===== *)
theory Builder_Blocks
  imports Parser_State
begin

text \<open>
  The control flow the LLVM builder makes (\<open>builder/llvm/LLVMBuilder.cc\<close>): the blocks of conditionals,
  loops and try statements, and the branches between them.

  LLVM itself is an argument: the record \<open>benv\<close> has the operations of \<open>BasicBlock\<close> and \<open>IRBuilder\<close> that
  are used, on a state \<open>'r\<close> that holds the function being built, with blocks of a type \<open>'b\<close>; and the
  emission of expressions and of cleanups.
\<close>

section \<open>State\<close>

text \<open>
  \<open>Branchpoint\<close> with \<open>BBranchpoint\<close>, and \<open>BBuilderContextData\<close> with its \<open>CatchData\<close>, which a context has in
  its builder data. Both are referred to by their index.
\<close>

record 'b branchpoint =
  bp_context :: "ctx option"
  bp_block :: "'b option"
  bp_block2 :: "'b option"
  bp_block3 :: "'b option"

record 'b catchData =
  catches :: "(addr \<times> 'b) list"
  nestedData :: "nat list"
  nonTerminal :: bool

record ('b, 'r) bstate =
  branchpoints :: "'b branchpoint list"
  catchDatas :: "'b catchData list"
  llvm :: 'r

type_synonym ('b, 'r, 'a) emits = "(('b, 'r) bstate, 'a) sem"

record ('b, 'r) irBuilder =
  \<comment> \<open>BasicBlock::Create(lctx, name, func), eraseFromParent()\<close>
  newBlock :: "string \<Rightarrow> 'r \<Rightarrow> 'b \<times> 'r"
  eraseFromParent :: "'b \<Rightarrow> 'r \<Rightarrow> 'r"
  \<comment> \<open>GetInsertBlock(), SetInsertPoint(block)\<close>
  insertBlock :: "'r \<Rightarrow> 'b"
  setInsertPoint :: "'b \<Rightarrow> 'r \<Rightarrow> 'r"
  \<comment> \<open>instructions that end a block; the values are numbers\<close>
  createBr :: "'b \<Rightarrow> 'r \<Rightarrow> 'r"
  createCondBr :: "nat \<Rightarrow> 'b \<Rightarrow> 'b \<Rightarrow> 'r \<Rightarrow> 'r"
  createRet :: "nat \<Rightarrow> 'r \<Rightarrow> 'r"
  createRetVoid :: "'r \<Rightarrow> 'r"
  createSwitch :: "nat \<Rightarrow> 'b \<Rightarrow> 'r \<Rightarrow> 'r"
  createInvoke :: "'b \<Rightarrow> 'b \<Rightarrow> nat \<Rightarrow> 'r \<Rightarrow> 'r"
  createUnreachable :: "'r \<Rightarrow> 'r"
  \<comment> \<open>LLVMBuilder::lastValue\<close>
  lastValue :: "'r \<Rightarrow> nat"
  setLastValue :: "nat \<Rightarrow> 'r \<Rightarrow> 'r"

record ('e, 'b, 'r) benv =
  ir :: "('b, 'r) irBuilder"
  \<comment> \<open>emission of expressions: for its effect, as a condition, as the value returned or thrown\<close>
  emitTransient :: "'e \<Rightarrow> ('b, 'r, unit) emits"
  emitCond :: "'e \<Rightarrow> ('b, 'r, unit) emits"
  emitReturned :: "'e \<Rightarrow> ('b, 'r, unit) emits"
  emitThrown :: "'e \<Rightarrow> ('b, 'r, nat) emits"
  assignReturned :: "'e \<Rightarrow> ('b, 'r, unit) emits"
  \<comment> \<open>cleanups of a context\<close>
  createCleanupFrame :: "('b, 'r, unit) emits"
  closeCleanupFrame :: "('b, 'r, unit) emits"
  closeAllCleanupsStatic :: "ctx \<Rightarrow> ('b, 'r, unit) emits"
  addExceptionCleanup :: "('b, 'r, unit) emits"
  \<comment> \<open>exceptions: the block to unwind to, the cleanups of the contexts up to the function, the selector
    and the object in :exStruct, the selectors that are completed\<close>
  getUnwindBlock :: "('b, 'r, 'b) emits"
  emitUnwindCleanups :: "ctx \<Rightarrow> ('b, 'r, 'b) emits"
  getExceptionSelectorValue :: "('b, 'r, nat) emits"
  emitExceptionObject :: "addr \<Rightarrow> ('b, 'r, 'e) emits"
  fixAllSelectors :: "nat \<Rightarrow> ('b, 'r, unit) emits"

section \<open>Access to the state\<close>

definition onLlvm :: "('r \<Rightarrow> 'a \<times> 'r) \<Rightarrow> ('b, 'r, 'a) emits" where
  "onLlvm f s = (case f (llvm (sem_rest s)) of
     (x, r) \<Rightarrow> Some (Inr (x, s\<lparr>sem_rest := (sem_rest s)\<lparr>llvm := r\<rparr>\<rparr>)))"

definition doLlvm :: "('r \<Rightarrow> 'r) \<Rightarrow> ('b, 'r, unit) emits" where
  "doLlvm f = onLlvm (\<lambda>r. ((), f r))"

definition askLlvm :: "('r \<Rightarrow> 'a) \<Rightarrow> ('b, 'r, 'a) emits" where
  "askLlvm f = onLlvm (\<lambda>r. (f r, r))"

definition createBlock :: "('e, 'b, 'r) benv \<Rightarrow> string \<Rightarrow> ('b, 'r, 'b) emits" where
  "createBlock be nm = onLlvm (newBlock (ir be) nm)"

definition moveTo :: "('e, 'b, 'r) benv \<Rightarrow> 'b \<Rightarrow> ('b, 'r, unit) emits" where
  "moveTo be b = doLlvm (setInsertPoint (ir be) b)"

definition branchTo :: "('e, 'b, 'r) benv \<Rightarrow> 'b \<Rightarrow> ('b, 'r, unit) emits" where
  "branchTo be b = doLlvm (createBr (ir be) b)"

text \<open>A block that is needed: a null pointer otherwise.\<close>

definition existing :: "'b option \<Rightarrow> ('b, 'r, 'b) emits" where
  "existing x = (case x of Some b \<Rightarrow> yields b | None \<Rightarrow> throw (NullPointer ''block''))"

definition newBranchpoint :: "'b branchpoint \<Rightarrow> ('b, 'r, nat) emits" where
  "newBranchpoint bp s = Some (Inr (length (branchpoints (sem_rest s)),
     s\<lparr>sem_rest := (sem_rest s)\<lparr>branchpoints := branchpoints (sem_rest s) @ [bp]\<rparr>\<rparr>))"

definition branchpoint :: "nat \<Rightarrow> ('b, 'r, 'b branchpoint) emits" where
  "branchpoint i = (\<lambda>s. if i < length (branchpoints (sem_rest s)) then Some (Inr (branchpoints (sem_rest s) ! i, s))
     else Some (Inl (NullPointer ''branchpoint'')))"

definition setBranchpoint :: "nat \<Rightarrow> 'b branchpoint \<Rightarrow> ('b, 'r, unit) emits" where
  "setBranchpoint i bp = modifies (\<lambda>s. s\<lparr>sem_rest := (sem_rest s)\<lparr>branchpoints := (branchpoints (sem_rest s))[i := bp]\<rparr>\<rparr>)"

definition curContext :: "('b, 'r, ctx) emits" where
  "curContext = gets sem_ctx"

section \<open>Conditionals\<close>

text \<open>\<open>emitIf\<close>, \<open>labeledIf\<close>, \<open>emitElse\<close>, \<open>emitEndIf\<close>\<close>

definition labeledIf :: "('e, 'b, 'r) benv \<Rightarrow> 'e \<Rightarrow> string \<Rightarrow> string \<Rightarrow> bool \<Rightarrow> ('b, 'r, nat) emits" where
  "labeledIf be cond tLabel fLabel condInCleanupFrame =
     andBind (createBlock be tLabel) (\<lambda>trueBlock.
     andBind (createBlock be fLabel) (\<lambda>falseBlock.
     andBind (if condInCleanupFrame then createCleanupFrame be else yields ()) (\<lambda>_.
     andBind (emitCond be cond) (\<lambda>_.
     andBind (askLlvm (lastValue (ir be))) (\<lambda>condVal.
     andBind (if condInCleanupFrame then closeCleanupFrame be else yields ()) (\<lambda>_.
     andBind (askLlvm (insertBlock (ir be))) (\<lambda>here.
     andBind (newBranchpoint \<lparr>bp_context = None, bp_block = Some falseBlock, bp_block2 = Some here, bp_block3 = None\<rparr>) (\<lambda>pos.
     andBind (doLlvm (setLastValue (ir be) condVal)) (\<lambda>_.
     andBind (doLlvm (createCondBr (ir be) condVal trueBlock falseBlock)) (\<lambda>_.
     andBind (moveTo be trueBlock) (\<lambda>_.
     yields pos)))))))))))"

definition emitIf :: "('e, 'b, 'r) benv \<Rightarrow> 'e \<Rightarrow> ('b, 'r, nat) emits" where
  "emitIf be cond = labeledIf be cond ''true'' ''false'' True"

definition emitElse :: "('e, 'b, 'r) benv \<Rightarrow> nat \<Rightarrow> bool \<Rightarrow> ('b, 'r, unit) emits" where
  "emitElse be pos ended =
     andBind (branchpoint pos) (\<lambda>bp.
     andBind (existing (bp_block bp)) (\<lambda>falseBlock.
     andBind (if ended then yields None
       else andBind (createBlock be ''cond_end'') (\<lambda>b. andBind (branchTo be b) (\<lambda>_. yields (Some b)))) (\<lambda>b.
     andBind (setBranchpoint pos (bp\<lparr>bp_block := b\<rparr>)) (\<lambda>_.
     moveTo be falseBlock))))"

definition emitEndIf :: "('e, 'b, 'r) benv \<Rightarrow> nat \<Rightarrow> bool \<Rightarrow> ('b, 'r, unit) emits" where
  "emitEndIf be pos ended =
     andBind (branchpoint pos) (\<lambda>bp.
     andBind (if ended then yields (bp_block bp)
       else andBind (case bp_block bp of Some b \<Rightarrow> yields b | None \<Rightarrow> createBlock be ''cond_end'') (\<lambda>b.
         andBind (branchTo be b) (\<lambda>_. yields (Some b)))) (\<lambda>b.
     andBind (setBranchpoint pos (bp\<lparr>bp_block := b\<rparr>)) (\<lambda>_.
     case b of Some b \<Rightarrow> moveTo be b | None \<Rightarrow> yields ())))"

section \<open>Loops\<close>

text \<open>
  \<open>emitBeginWhile\<close>, \<open>emitPostLoop\<close>, \<open>emitEndWhile\<close>. The branchpoint of a loop has the block after it, and
  the block that \<open>continue\<close> goes to: the condition, or the code after the body, with the condition third.
\<close>

definition emitBeginWhile :: "('e, 'b, 'r) benv \<Rightarrow> 'e \<Rightarrow> bool \<Rightarrow> ('b, 'r, nat) emits" where
  "emitBeginWhile be cond gotPostBlock =
     andBind (createBlock be ''while_end'') (\<lambda>whileEnd.
     andBind curContext (\<lambda>c.
     andBind (createBlock be ''while_cond'') (\<lambda>whileCond.
     andBind (if gotPostBlock then andBind (createBlock be ''while_post'') (\<lambda>b. yields (b, Some whileCond))
       else yields (whileCond, None)) (\<lambda>(block2, block3).
     andBind (newBranchpoint \<lparr>bp_context = Some c, bp_block = Some whileEnd, bp_block2 = Some block2, bp_block3 = block3\<rparr>) (\<lambda>pos.
     andBind (createBlock be ''while_body'') (\<lambda>whileBody.
     andBind (branchTo be whileCond) (\<lambda>_.
     andBind (moveTo be whileCond) (\<lambda>_.
     andBind (createCleanupFrame be) (\<lambda>_.
     andBind (emitCond be cond) (\<lambda>_.
     andBind (askLlvm (lastValue (ir be))) (\<lambda>condVal.
     andBind (closeCleanupFrame be) (\<lambda>_.
     andBind (doLlvm (setLastValue (ir be) condVal)) (\<lambda>_.
     andBind (doLlvm (createCondBr (ir be) condVal whileBody whileEnd)) (\<lambda>_.
     andBind (moveTo be whileBody) (\<lambda>_.
     yields pos)))))))))))))))"

definition emitEndWhile :: "('e, 'b, 'r) benv \<Rightarrow> nat \<Rightarrow> bool \<Rightarrow> ('b, 'r, unit) emits" where
  "emitEndWhile be pos ended =
     andBind (branchpoint pos) (\<lambda>bp.
     andBind (if ended then yields ()
       else andBind (existing (case bp_block3 bp of Some b \<Rightarrow> Some b | None \<Rightarrow> bp_block2 bp)) (branchTo be)) (\<lambda>_.
     andBind (existing (bp_block bp)) (moveTo be)))"

definition emitPostLoop :: "('e, 'b, 'r) benv \<Rightarrow> nat \<Rightarrow> bool \<Rightarrow> ('b, 'r, unit) emits" where
  "emitPostLoop be pos ended =
     andBind (branchpoint pos) (\<lambda>bp.
     if bp_block3 bp = None then throw (CheckFailed ''attempted to emit undeclared post-loop'')
     else andBind (existing (bp_block2 bp)) (\<lambda>b.
       andBind (if ended then yields () else branchTo be b) (\<lambda>_. moveTo be b)))"

section \<open>Jumps\<close>

text \<open>
  The cleanups of the contexts that a jump leaves: up to the one of the branchpoint, or to the function.
  The chain ends in a null pointer.
\<close>

fun emitCleanupsTo :: "('e, 'b, 'r) benv \<Rightarrow> ctx \<Rightarrow> ctx \<Rightarrow> ('b, 'r, unit) emits" where
  "emitCleanupsTo be outer [] = throw (NullPointer ''parent'')"
| "emitCleanupsTo be outer (f # c) =
     (if sameContext outer (f # c) then yields ()
      else andBind (closeAllCleanupsStatic be (f # c)) (\<lambda>_. emitCleanupsTo be outer c))"

fun emitFunctionCleanups :: "('e, 'b, 'r) benv \<Rightarrow> ctx \<Rightarrow> ('b, 'r, unit) emits" where
  "emitFunctionCleanups be [] = throw (NullPointer ''parent'')"
| "emitFunctionCleanups be (f # c) =
     andBind (closeAllCleanupsStatic be (f # c)) (\<lambda>_.
     if toplevel f then yields ()
     else case c of
       [] \<Rightarrow> throw (NullPointer ''parent'')
     | p # _ \<Rightarrow> if scope p = LocalScope then emitFunctionCleanups be c else yields ())"

definition emitBreak :: "('e, 'b, 'r) benv \<Rightarrow> nat \<Rightarrow> ('b, 'r, unit) emits" where
  "emitBreak be pos =
     andBind (branchpoint pos) (\<lambda>bp. case bp_context bp of
       None \<Rightarrow> throw (NullPointer ''context'')
     | Some outer \<Rightarrow>
         andBind curContext (\<lambda>c.
         andBind (emitCleanupsTo be outer c) (\<lambda>_.
         andBind (existing (bp_block bp)) (branchTo be))))"

definition emitContinue :: "('e, 'b, 'r) benv \<Rightarrow> nat \<Rightarrow> ('b, 'r, unit) emits" where
  "emitContinue be pos =
     andBind (branchpoint pos) (\<lambda>bp. case bp_context bp of
       None \<Rightarrow> throw (NullPointer ''context'')
     | Some outer \<Rightarrow>
         andBind curContext (\<lambda>c.
         andBind (emitCleanupsTo be outer c) (\<lambda>_.
         andBind (existing (bp_block2 bp)) (branchTo be))))"

definition emitReturn :: "('e, 'b, 'r) benv \<Rightarrow> 'e option \<Rightarrow> ('b, 'r, unit) emits" where
  "emitReturn be expr = (case expr of
     Some e \<Rightarrow>
       andBind (emitReturned be e) (\<lambda>_.
       andBind (askLlvm (lastValue (ir be))) (\<lambda>retVal.
       andBind (assignReturned be e) (\<lambda>_.
       andBind curContext (\<lambda>c.
       andBind (emitFunctionCleanups be c) (\<lambda>_.
       doLlvm (createRet (ir be) retVal))))))
   | None \<Rightarrow>
       andBind curContext (\<lambda>c.
       andBind (emitFunctionCleanups be c) (\<lambda>_.
       doLlvm (createRetVoid (ir be)))))"

section \<open>Exceptions\<close>

text \<open>
  \<open>BBuilderContextData::get(&context)->getCatchData()\<close>, for a context of the chain: made when it is first
  asked for.
\<close>

definition emptyCatchData :: "'b catchData" where
  "emptyCatchData = \<lparr>catches = [], nestedData = [], nonTerminal = False\<rparr>"

definition contextData :: "ctx \<Rightarrow> ('b, 'r, nat) emits" where
  "contextData d s =
     (let i = length (sem_ctx s) - length d; k = length (catchDatas (sem_rest s)) in
      if d = [] then Some (Inl (NullPointer ''context''))
      else case builderData (sem_ctx s ! i) of
        Some k \<Rightarrow> Some (Inr (k, s))
      | None \<Rightarrow> Some (Inr (k, s\<lparr>sem_ctx := (sem_ctx s)[i := (sem_ctx s ! i)\<lparr>builderData := Some k\<rparr>],
          sem_rest := (sem_rest s)\<lparr>catchDatas := catchDatas (sem_rest s) @ [emptyCatchData]\<rparr>\<rparr>)))"

definition catchDataOf :: "nat \<Rightarrow> ('b, 'r, 'b catchData) emits" where
  "catchDataOf k = gets (\<lambda>s. catchDatas (sem_rest s) ! k)"

definition setCatchData :: "nat \<Rightarrow> 'b catchData \<Rightarrow> ('b, 'r, unit) emits" where
  "setCatchData k d = modifies (\<lambda>s. s\<lparr>sem_rest := (sem_rest s)\<lparr>catchDatas := (catchDatas (sem_rest s))[k := d]\<rparr>\<rparr>)"

definition emitBeginTry :: "('e, 'b, 'r) benv \<Rightarrow> ('b, 'r, nat) emits" where
  "emitBeginTry be =
     andBind (createBlock be ''catch_switch'') (\<lambda>b.
     newBranchpoint \<lparr>bp_context = None, bp_block = Some b, bp_block2 = None, bp_block3 = None\<rparr>)"

text \<open>\<open>emitCatch\<close> ends the try block or the catch block before.\<close>

definition beginCatches :: "('e, 'b, 'r) benv \<Rightarrow> nat \<Rightarrow> 'b branchpoint \<Rightarrow> bool \<Rightarrow> ('b, 'r, unit) emits" where
  "beginCatches be pos bp ended =
     andBind (createBlock be ''after_try'') (\<lambda>after.
     andBind (setBranchpoint pos (bp\<lparr>bp_block2 := Some after\<rparr>)) (\<lambda>_.
     andBind (if ended then yields () else branchTo be after) (\<lambda>_.
     andBind curContext (\<lambda>c.
     if tl c = [] \<or> Option.bind (getToplevel c) (\<lambda>d. if tl d = [] then None else Some d) = None
     then throw (NullPointer ''parent'')
     else andBind (emitUnwindCleanups be (tl c)) (\<lambda>outerCleanups.
     andBind (existing (bp_block bp)) (\<lambda>b.
     andBind (moveTo be b) (\<lambda>_.
     andBind (getExceptionSelectorValue be) (\<lambda>selVal.
     doLlvm (createSwitch (ir be) selVal outerCleanups)))))))))"

definition emitCatch :: "('e, 'b, 'r) benv \<Rightarrow> nat \<Rightarrow> addr \<Rightarrow> bool \<Rightarrow> ('b, 'r, 'e) emits" where
  "emitCatch be pos catchType ended =
     andBind (branchpoint pos) (\<lambda>bp.
     andBind curContext (\<lambda>c.
     andBind (contextData c) (\<lambda>k.
     andBind (case bp_block2 bp of
         None \<Rightarrow> beginCatches be pos bp ended
       | Some after \<Rightarrow> if ended then yields () else branchTo be after) (\<lambda>_.
     andBind (createBlock be ''catch'') (\<lambda>catchBlock.
     andBind (moveTo be catchBlock) (\<lambda>_.
     andBind (catchDataOf k) (\<lambda>d.
     andBind (setCatchData k (d\<lparr>catches := catches d @ [(catchType, catchBlock)],
       nonTerminal := nonTerminal d \<or> \<not> ended\<rparr>)) (\<lambda>_.
     emitExceptionObject be catchType))))))))"

definition emitEndTry :: "('e, 'b, 'r) benv \<Rightarrow> nat \<Rightarrow> bool \<Rightarrow> ('b, 'r, unit) emits" where
  "emitEndTry be pos ended =
     andBind (branchpoint pos) (\<lambda>bp.
     andBind curContext (\<lambda>c.
     andBind (contextData c) (\<lambda>k.
     andBind (existing (bp_block2 bp)) (\<lambda>after.
     andBind (if ended then yields () else branchTo be after) (\<lambda>_.
     andBind (catchDataOf k) (\<lambda>d0. let d = d0\<lparr>nonTerminal := nonTerminal d0 \<or> \<not> ended\<rparr> in
     andBind (setCatchData k d) (\<lambda>_.
     andBind (if nonTerminal d then moveTo be after else doLlvm (eraseFromParent (ir be) after)) (\<lambda>_.
     case getCatch (tl c) of
       None \<Rightarrow> throw (NullPointer ''outer'')
     | Some outer \<Rightarrow>
         if \<not> toplevel (hd outer) then
           andBind (contextData outer) (\<lambda>k'.
           andBind (catchDataOf k') (\<lambda>e. setCatchData k' (e\<lparr>nestedData := nestedData e @ [k]\<rparr>)))
         else fixAllSelectors be k))))))))"

definition emitThrow :: "('e, 'b, 'r) benv \<Rightarrow> 'e \<Rightarrow> ('b, 'r, unit) emits" where
  "emitThrow be e =
     andBind (createCleanupFrame be) (\<lambda>_.
     andBind (emitThrown be e) (\<lambda>thrown.
     andBind (closeCleanupFrame be) (\<lambda>_.
     andBind (getUnwindBlock be) (\<lambda>unwindBlock.
     andBind (createBlock be ''unreachable'') (\<lambda>unreachableBlock.
     andBind (doLlvm (createInvoke (ir be) unreachableBlock unwindBlock thrown)) (\<lambda>_.
     andBind (moveTo be unreachableBlock) (\<lambda>_.
     doLlvm (createUnreachable (ir be)))))))))"

end
