(* ===== verification/Parse_Stmt.thy ===== *)
theory Parse_Stmt
  imports Parse_Rec Builder_Blocks Module_Names
begin

text \<open>
  Statements (\<open>parser/Parser.cc\<close>: \<open>parseClause\<close>, \<open>parseStatement\<close>, \<open>parseBlock\<close> and the statements they
  parse). A statement yields the terminal context: null when control can reach what follows the
  statement, otherwise the context that control goes to. Statements nest through \<open>parseStatement\<close>,
  \<open>parseBlock\<close> and the loop over the catch clauses, which are the tasks of the recursion. The variable
  \<open>state\<close> of the parser, which only tells an interactive reader where it is, is left out.
\<close>

section \<open>The environment\<close>

datatype event = FuncDefEvent | FuncEnter | FuncLeave | FuncForward | ClassDefEvent | ClassEnter | ClassLeave
  | VariableDefEvent | ExprBegin | ControlStmt | NoCallbacks

text \<open>
  Expressions, the builder, and the parts that are not modelled: the callbacks that annotations have
  registered, typed definitions, aliases, constants, iteration over containers, and the cleanup frames
  of a context.
\<close>

record ('e, 'b, 'r) senv =
  pe :: "('e, ('b, 'r) bstate) penv"
  be :: "('e, 'b, 'r) benv"
  vtableBaseType :: addr
  hasCallbacks :: "event \<Rightarrow> ('b, 'r) bstate sems \<Rightarrow> bool"
  runCallbacks :: "event \<Rightarrow> (('b, 'r) bstate, bool) parser"
  parseDef :: "addr \<Rightarrow> (('b, 'r) bstate, bool) parser"
  parseAlias :: "(('b, 'r) bstate, unit) parser"
  parseConstDef :: "(('b, 'r) bstate, unit) parser"
  expandIteration :: "string \<Rightarrow> bool \<Rightarrow> bool \<Rightarrow> 'e \<Rightarrow> ('b, 'r, 'e \<times> 'e option \<times> 'e option) emits"
  emitExceptionVar :: "addr \<Rightarrow> token \<Rightarrow> 'e \<Rightarrow> ('b, 'r, addr) emits"
  clearCleanups :: "('b, 'r, unit) emits"
  setModuleDoc :: "string \<Rightarrow> ('b, 'r, unit) emits"

type_synonym ('b, 'r, 'a) sparser = "(('b, 'r) bstate, 'a) parser"

datatype stask =
    Block bool event "ctx option"
  | Statement bool
  | CatchClauses nat "ctx option" bool

type_synonym ('b, 'r) scalls = "stask \<Rightarrow> ('b, 'r, ctx option) sparser"

definition expression :: "('e, 'b, 'r) senv \<Rightarrow> ('b, 'r, 'e) sparser" where
  "expression se = parseExpression (pe se) 0"

section \<open>Contexts\<close>

text \<open>\<open>createSubContext\<close> with the scope of the context; the context becomes the current one.\<close>

definition pushContext :: "string option \<Rightarrow> bool \<Rightarrow> ('b, 'r, unit) emits" where
  "pushContext nm sameCNS s = (case sem_ctx s of
     [] \<Rightarrow> Some (Inl (NullPointer ''context''))
   | f # c \<Rightarrow> Some (case createSubContext (scope f) None nm (if sameCNS then compileNS f else None) (f # c) (sem_store s) of
       Inl _ \<Rightarrow> Inl (CheckFailed ''missing namespace'')
     | Inr (d, h) \<Rightarrow> Inr ((), s\<lparr>sem_ctx := d, sem_store := h\<rparr>)))"

text \<open>The end of a \<open>ContextStackFrame\<close>\<close>

definition popContext :: "('b, 'r, unit) emits" where
  "popContext = modifies (\<lambda>s. s\<lparr>sem_ctx := tl (sem_ctx s)\<rparr>)"

definition onFrame :: "(frame \<Rightarrow> frame) \<Rightarrow> ('b, 'r, unit) emits" where
  "onFrame g s = (case sem_ctx s of
     [] \<Rightarrow> Some (Inl (NullPointer ''context''))
   | f # c \<Rightarrow> Some (Inr ((), s\<lparr>sem_ctx := g f # c\<rparr>)))"

definition curFrame :: "('b, 'r, frame) emits" where
  "curFrame s = (case sem_ctx s of
     [] \<Rightarrow> Some (Inl (NullPointer ''context'')) | f # c \<Rightarrow> Some (Inr (f, s)))"

text \<open>A context that may be null: one without frames is.\<close>

definition nonNull :: "ctx \<Rightarrow> ctx option" where
  "nonNull c = (if c = [] then None else Some c)"

section \<open>Clauses\<close>

text \<open>An expression is emitted in a cleanup frame of its own.\<close>

definition emitAlone :: "('e, 'b, 'r) senv \<Rightarrow> 'e \<Rightarrow> ('b, 'r, unit) emits" where
  "emitAlone se e =
     andBind (createCleanupFrame (be se)) (\<lambda>_.
     andBind (emitTransient (be se) e) (\<lambda>_. closeCleanupFrame (be se)))"

text \<open>A semicolon, or what ends the block.\<close>

definition endOfClause :: "('e, 'b, 'r) senv \<Rightarrow> string \<Rightarrow> ('b, 'r, unit) sparser" where
  "endOfClause se msg =
     andBind (nextToken (pe se)) (\<lambda>tok.
     if isEnd tok \<or> tok_is T_rcurly tok then unread tok
     else if \<not> tok_is T_semi tok then unexpected tok msg
     else yields ())"

definition finishClause :: "('e, 'b, 'r) senv \<Rightarrow> 'e \<Rightarrow> ('b, 'r, unit) sparser" where
  "finishClause se e =
     andBind (sem (emitAlone se e)) (\<lambda>_. endOfClause se ''expected semicolon or a block terminator'')"

definition parseClause :: "('e, 'b, 'r) senv \<Rightarrow> bool \<Rightarrow> ('b, 'r, unit) sparser" where
  "parseClause se defsAllowed =
     andBind (nextToken (pe se)) (\<lambda>tok.
     if tok_is T_typeofKw tok \<or> isIdent tok then
       andBind (unread tok) (\<lambda>_.
       andBind (primaryOf (parse (pe se)) Primary) (\<lambda>(e, type, ident).
       let asExpression = andBind (exprOf (parse (pe se)) (Secondary e ident 0)) (finishClause se) in
       case type of
         None \<Rightarrow> asExpression
       | Some t \<Rightarrow>
           andBind (nextToken (pe se)) (\<lambda>tok.
           if isIdent tok \<or> tok_is T_operKw tok then
             (if \<not> defsAllowed then throw (ErrorAt tok ''Definitions are not allowed in this context.'')
              else andBind (unread tok) (\<lambda>_.
                andBind (parseDef se t) (\<lambda>isDef.
                if isDef then yields () else throw (CheckFailed ''parsing a def that was not a def.''))))
           else andBind (unread tok) (\<lambda>_. asExpression))))
     else if tok_is T_aliasKw tok then
       (if \<not> defsAllowed then throw (ErrorAt tok ''Aliasing is not allowed in this context.'') else parseAlias se)
     else if tok_is T_constKw tok then
       (if \<not> defsAllowed then throw (ErrorAt tok ''definition is not allowed in this context'') else parseConstDef se)
     else
       andBind (unread tok) (\<lambda>_.
       andBind (runCallbacks se ExprBegin) (\<lambda>_.
       andBind (expression se) (finishClause se))))"

section \<open>Conditionals and loops\<close>

definition parseIfClause :: "('e, 'b, 'r) senv \<Rightarrow> ('b, 'r) scalls \<Rightarrow> ('b, 'r, ctx option) sparser" where
  "parseIfClause se rec =
     andBind (nextToken (pe se)) (\<lambda>tok.
     andBind (modifies (\<lambda>s. s\<lparr>ps_nest := Suc (ps_nest s)\<rparr>)) (\<lambda>_.
     andBind (gets (\<lambda>s. decimal (ps_nest s))) (\<lambda>nm.
     andBind (sem (pushContext (Some nm) False)) (\<lambda>_.
     andBind (if tok_is T_lcurly tok then rec (Block True NoCallbacks None)
       else andBind (unread tok) (\<lambda>_. rec (Statement False))) (\<lambda>ended.
     andBind (sem popContext) (\<lambda>_. yields ended))))))"

definition parseCondExpr :: "('e, 'b, 'r) senv \<Rightarrow> ('b, 'r, 'e) sparser" where
  "parseCondExpr se =
     andBind (expression se) (\<lambda>e. case convertTo (exprs (pe se)) e (boolType (pe se)) of
       Some cond \<Rightarrow> yields cond
     | None \<Rightarrow> andBind (nextToken (pe se)) (\<lambda>tok. throw (ErrorAt tok ''Condition is not boolean.'')))"

definition parenthesized :: "('e, 'b, 'r) senv \<Rightarrow> string \<Rightarrow> string \<Rightarrow> ('b, 'r, 'e) sparser" where
  "parenthesized se before after =
     andBind (nextToken (pe se)) (\<lambda>tok.
     if \<not> isLParen tok then unexpected tok before
     else andBind (parseCondExpr se) (\<lambda>cond.
       andBind (nextToken (pe se)) (\<lambda>tok.
       if \<not> isRParen tok then unexpected tok after else yields cond)))"

text \<open>The context that an \<open>if\<close> with two terminal branches goes to: the innermost.\<close>

definition innermost :: "ctx \<Rightarrow> ctx \<Rightarrow> ctx" where
  "innermost c d = (if encloses c d then d else c)"

text \<open>The flags an annotation has set in the context of the conditional go to its parent.\<close>

definition absorbFlags :: "('b, 'r, unit) emits" where
  "absorbFlags s = (case sem_ctx s of
     f # p # c \<Rightarrow> Some (Inr ((), s\<lparr>sem_ctx := f # p\<lparr>nextFuncFlags := nextFuncFlags f, nextClassFlags := nextClassFlags f\<rparr> # c\<rparr>))
   | _ \<Rightarrow> Some (Inl (NullPointer ''parent'')))"

definition parseIfStmt :: "('e, 'b, 'r) senv \<Rightarrow> ('b, 'r) scalls \<Rightarrow> ('b, 'r, ctx option) sparser" where
  "parseIfStmt se rec =
     andBind (sem (pushContext None True)) (\<lambda>_.
     andBind (parenthesized se ''expected left paren after if'' ''expected closing paren'') (\<lambda>cond.
     andBind (sem (emitIf (be se) cond)) (\<lambda>pos.
     andBind (parseIfClause se rec) (\<lambda>terminalIf.
     andBind (nextToken (pe se)) (\<lambda>tok.
     andBind (if tok_is T_elseKw tok then
         andBind (sem (emitElse (be se) pos (terminalIf \<noteq> None))) (\<lambda>_.
         andBind (parseIfClause se rec) (\<lambda>terminalElse.
         andBind (sem (emitEndIf (be se) pos (terminalElse \<noteq> None))) (\<lambda>_. yields terminalElse)))
       else
         andBind (unread tok) (\<lambda>_.
         andBind (sem (emitEndIf (be se) pos (terminalIf \<noteq> None))) (\<lambda>_. yields None))) (\<lambda>terminalElse.
     andBind (sem absorbFlags) (\<lambda>_.
     andBind (case (terminalIf, terminalElse) of
         (Some c, Some d) \<Rightarrow> yields (Some (innermost c d))
       | _ \<Rightarrow> andBind (sem curContext) (\<lambda>c. andBind (sem (closeAllCleanupsStatic (be se) c)) (\<lambda>_. yields None))) (\<lambda>ended.
     andBind (sem popContext) (\<lambda>_. yields ended)))))))))"

text \<open>The loops set the targets of \<open>break\<close> and \<open>continue\<close>.\<close>

definition setLoop :: "nat \<Rightarrow> ('b, 'r, unit) emits" where
  "setLoop pos = onFrame (\<lambda>f. f\<lparr>breakBranch := Some pos, continueBranch := Some pos\<rparr>)"

definition parseWhileStmt :: "('e, 'b, 'r) senv \<Rightarrow> ('b, 'r) scalls \<Rightarrow> ('b, 'r, unit) sparser" where
  "parseWhileStmt se rec =
     andBind (sem (pushContext None False)) (\<lambda>_.
     andBind (parenthesized se ''expected left paren after while'' ''expected right paren after conditional expression'') (\<lambda>cond.
     andBind (sem (emitBeginWhile (be se) cond False)) (\<lambda>pos.
     andBind (sem (setLoop pos)) (\<lambda>_.
     andBind (parseIfClause se rec) (\<lambda>ended.
     andBind (sem (emitEndWhile (be se) pos (ended \<noteq> None))) (\<lambda>_.
     sem popContext))))))"

text \<open>
  \<open>parseForStmt\<close>: the head of the loop over a container (\<open>x in\<close>, \<open>x :in\<close>, \<open>x on\<close>, \<open>x :on\<close>), or that of a
  loop like those of C; it yields the condition and what is emitted before and after the body.
\<close>

text \<open>What follows the identifier: whether it defines the variable, and whether the variable is an iterator.\<close>

definition iterationForm :: "('e, 'b, 'r) senv \<Rightarrow> token \<Rightarrow> ('b, 'r, (bool \<times> bool) option) sparser" where
  "iterationForm se tok2 =
     (if tok_is T_inKw tok2 then yields (Some (False, False))
      else if tok_is T_colon tok2 then
        andBind (nextToken (pe se)) (\<lambda>tok3.
        if tok_is T_inKw tok3 then yields (Some (True, False))
        else if tok_is T_onKw tok3 then yields (Some (True, True))
        else andBind (unread tok3) (\<lambda>_. yields None))
      else if tok_is T_onKw tok2 then yields (Some (False, True))
      else yields None)"

definition parseIteration :: "('e, 'b, 'r) senv \<Rightarrow> token \<Rightarrow> bool \<times> bool \<Rightarrow> ('b, 'r, 'e \<times> 'e option \<times> 'e option) sparser" where
  "parseIteration se tok form =
     andBind (expression se) (\<lambda>e.
     andBind (sem (expandIteration se (tok_data tok) (fst form) (snd form) e)) (\<lambda>parts.
     andBind (nextToken (pe se)) (\<lambda>tok.
     if \<not> isRParen tok then unexpected tok ''expected closing parenthesis'' else yields parts)))"

definition parseForClauses :: "('e, 'b, 'r) senv \<Rightarrow> ('b, 'r, 'e \<times> 'e option \<times> 'e option) sparser" where
  "parseForClauses se =
     andBind (nextToken (pe se)) (\<lambda>tok.
     andBind (if \<not> tok_is T_semi tok then andBind (unread tok) (\<lambda>_. parseClause se True) else yields ()) (\<lambda>_.
     andBind (nextToken (pe se)) (\<lambda>tok.
     andBind (if tok_is T_semi tok then
         (case convertTo (exprs (pe se)) (newInt (pe se) 1 None) (boolType (pe se)) of
            None \<Rightarrow> throw (NullPointer ''cond'') | Some cond \<Rightarrow> yields cond)
       else
         andBind (unread tok) (\<lambda>_.
         andBind (parseCondExpr se) (\<lambda>cond.
         andBind (nextToken (pe se)) (\<lambda>tok.
         if \<not> tok_is T_semi tok then unexpected tok ''expected semicolon after condition'' else yields cond)))) (\<lambda>cond.
     andBind (nextToken (pe se)) (\<lambda>tok.
     if isRParen tok then yields (cond, None, None)
     else
       andBind (unread tok) (\<lambda>_.
       andBind (expression se) (\<lambda>afterBody.
       andBind (nextToken (pe se)) (\<lambda>tok.
       if \<not> isRParen tok then unexpected tok ''expected closing parenthesis''
       else yields (cond, None, Some afterBody)))))))))"

definition parseForHead :: "('e, 'b, 'r) senv \<Rightarrow> ('b, 'r, 'e \<times> 'e option \<times> 'e option) sparser" where
  "parseForHead se =
     andBind (nextToken (pe se)) (\<lambda>tok.
     if isIdent tok then
       andBind (nextToken (pe se)) (\<lambda>tok2.
       andBind (iterationForm se tok2) (\<lambda>form. case form of
         Some f \<Rightarrow> parseIteration se tok f
       | None \<Rightarrow>
           andBind (unread tok2) (\<lambda>_.
           andBind (unread tok) (\<lambda>_. parseForClauses se))))
     else andBind (unread tok) (\<lambda>_. parseForClauses se))"

definition parseForStmt :: "('e, 'b, 'r) senv \<Rightarrow> ('b, 'r) scalls \<Rightarrow> ('b, 'r, unit) sparser" where
  "parseForStmt se rec =
     andBind (sem (pushContext None False)) (\<lambda>_.
     andBind (nextToken (pe se)) (\<lambda>tok.
     if \<not> isLParen tok then unexpected tok ''expected left paren after for''
     else
       andBind (parseForHead se) (\<lambda>(cond, beforeBody, afterBody).
       andBind (sem (emitBeginWhile (be se) cond (afterBody \<noteq> None))) (\<lambda>pos.
       andBind (sem (setLoop pos)) (\<lambda>_.
       andBind (case beforeBody of Some e \<Rightarrow> sem (emitAlone se e) | None \<Rightarrow> yields ()) (\<lambda>_.
       andBind (parseIfClause se rec) (\<lambda>ended.
       andBind (case afterBody of
           Some e \<Rightarrow>
             andBind (sem (emitPostLoop (be se) pos (ended \<noteq> None))) (\<lambda>_.
             andBind (sem (emitAlone se e)) (\<lambda>_. yields None))
         | None \<Rightarrow> yields ended) (\<lambda>ended.
       andBind (sem (emitEndWhile (be se) pos (ended \<noteq> None))) (\<lambda>_.
       andBind (sem curContext) (\<lambda>c.
       andBind (sem (closeAllCleanupsStatic (be se) c)) (\<lambda>_.
       sem popContext)))))))))))"

section \<open>Jumps\<close>

text \<open>\<open>break\<close> and \<open>continue\<close>: the context of the branchpoint is the terminal one.\<close>

definition jumpTo :: "('e, 'b, 'r) senv \<Rightarrow> token \<Rightarrow> nat option \<Rightarrow> string \<Rightarrow> (nat \<Rightarrow> ('b, 'r, unit) emits) \<Rightarrow> ('b, 'r, ctx option) sparser" where
  "jumpTo se tok branch msg jump = (case branch of
     None \<Rightarrow> throw (ErrorAt tok msg)
   | Some b \<Rightarrow>
       andBind (sem (jump b)) (\<lambda>_.
       andBind (nextToken (pe se)) (\<lambda>tok.
       andBind (if \<not> tok_is T_semi tok then unread tok else yields ()) (\<lambda>_.
       andBind (sem (branchpoint b)) (\<lambda>bp. case bp_context bp of
         None \<Rightarrow> throw (CheckFailed ''branch->context'')
       | Some c \<Rightarrow> yields (Some c))))))"

definition parseBreak :: "('e, 'b, 'r) senv \<Rightarrow> token \<Rightarrow> ('b, 'r, ctx option) sparser" where
  "parseBreak se tok =
     andBind (sem curContext) (\<lambda>c.
     jumpTo se tok (getBreak c) ''Break can only be used in the body of a while, for or switch statement.'' (emitBreak (be se)))"

definition parseContinue :: "('e, 'b, 'r) senv \<Rightarrow> token \<Rightarrow> ('b, 'r, ctx option) sparser" where
  "parseContinue se tok =
     andBind (sem curContext) (\<lambda>c.
     jumpTo se tok (getContinue c) ''Continue can only be used in the body of a while or for loop.'' (emitContinue (be se)))"

text \<open>\<open>parseReturnStmt\<close>\<close>

definition returnsVoid :: "('e, 'b, 'r) senv \<Rightarrow> ('b, 'r, bool) emits" where
  "returnsVoid se =
     andBind curFrame (\<lambda>f. case ctx_returnType f of
       None \<Rightarrow> throw (NullPointer ''returnType'')
     | Some t \<Rightarrow> returning (\<lambda>s. matches (sem_store s) t (voidType (pe se))))"

definition returnValue :: "('e, 'b, 'r) senv \<Rightarrow> token \<Rightarrow> 'e \<Rightarrow> ('b, 'r, unit) emits" where
  "returnValue se tok e =
     andBind curFrame (\<lambda>f. case convertOpt (pe se) e (ctx_returnType f) of
       None \<Rightarrow> throw (ErrorAt tok ''Invalid return type'')
     | Some v \<Rightarrow>
         if exprType (pe se) v = Some (voidType (pe se)) then
           andBind (emitAlone se v) (\<lambda>_. emitReturn (be se) None)
         else emitReturn (be se) (Some v))"

definition parseReturnStmt :: "('e, 'b, 'r) senv \<Rightarrow> ('b, 'r, unit) sparser" where
  "parseReturnStmt se =
     andBind (nextToken (pe se)) (\<lambda>tok.
     andBind (if isEnd tok \<or> tok_is T_rcurly tok then unread tok else yields ()) (\<lambda>_.
     if tok_is T_semi tok \<or> isEnd tok \<or> tok_is T_rcurly tok then
       andBind (sem (returnsVoid se)) (\<lambda>ok.
       if \<not> ok then throw (ErrorAt tok ''Missing return expression'')
       else sem (emitReturn (be se) None))
     else
       andBind (unread tok) (\<lambda>_.
       andBind (expression se) (\<lambda>e.
       andBind (sem (returnValue se tok e)) (\<lambda>_.
       endOfClause se ''expected semicolon or block terminator'')))))"

definition parseReturn :: "('e, 'b, 'r) senv \<Rightarrow> token \<Rightarrow> ('b, 'r, ctx option) sparser" where
  "parseReturn se tok =
     andBind (sem curFrame) (\<lambda>f.
     if scope f = ModuleScope then throw (ErrorAt tok ''Return statement not allowed in module scope'')
     else
       andBind (parseReturnStmt se) (\<lambda>_.
       andBind (sem curContext) (\<lambda>c. case getToplevel c of
         None \<Rightarrow> throw (NullPointer ''toplevel'')
       | Some t \<Rightarrow> yields (nonNull (tl t)))))"

text \<open>\<open>parseThrowStmt\<close>\<close>

definition parseThrowStmt :: "('e, 'b, 'r) senv \<Rightarrow> ('b, 'r, ctx option) sparser" where
  "parseThrowStmt se =
     andBind (rawToken (pe se)) (\<lambda>tok.
     if tok_is T_semi tok then throw (ErrorAt tok ''Rethrowing exceptions not supported yet.'')
     else
       andBind (unread tok) (\<lambda>_.
       andBind (expression se) (\<lambda>e. case exprType (pe se) e of
         None \<Rightarrow> throw (NullPointer ''type'')
       | Some t \<Rightarrow>
           andBind (sem (returning (\<lambda>s. isDerivedFrom (sem_store s) t (vtableBaseType se)))) (\<lambda>ok.
           if \<not> ok then throw (ErrorAt tok ''Object is not derived from VTableBase.'')
           else
             andBind (rawToken (pe se)) (\<lambda>tok.
             if \<not> tok_is T_semi tok then unexpected tok ''Semicolon expected after throw expression.''
             else
               andBind (sem (emitThrow (be se) e)) (\<lambda>_.
               andBind (sem curContext) (\<lambda>c. case getCatch c of
                 None \<Rightarrow> throw (NullPointer ''catch'')
               | Some d \<Rightarrow> yields (nonNull (if toplevel (hd d) then tl d else d)))))))))"

section \<open>Try statements\<close>

definition setCatch :: "nat option \<Rightarrow> ('b, 'r, unit) emits" where
  "setCatch pos = onFrame (\<lambda>f. f\<lparr>catchBranch := pos\<rparr>)"

definition parseTryStmt :: "('e, 'b, 'r) senv \<Rightarrow> ('b, 'r) scalls \<Rightarrow> ('b, 'r, ctx option) sparser" where
  "parseTryStmt se rec =
     andBind (rawToken (pe se)) (\<lambda>tok.
     if \<not> tok_is T_lcurly tok then unexpected tok ''Curly bracket expected after try.''
     else
       andBind (sem (emitBeginTry (be se))) (\<lambda>pos.
       andBind (sem (pushContext None False)) (\<lambda>_.
       andBind (sem (setCatch (Some pos))) (\<lambda>_.
       andBind (sem (pushContext None False)) (\<lambda>_.
       andBind (rec (Block True NoCallbacks None)) (\<lambda>ended.
       andBind (sem popContext) (\<lambda>_.
       andBind (sem (setCatch None)) (\<lambda>_.
       andBind (rawToken (pe se)) (\<lambda>tok.
       if \<not> tok_is T_catchKw tok then unexpected tok ''catch expected after try block.''
       else
         andBind (rec (CatchClauses pos ended (ended \<noteq> None))) (\<lambda>ended.
         andBind (sem popContext) (\<lambda>_. yields ended)))))))))))"

text \<open>The exception specifier of a catch clause, up to its block.\<close>

definition catchHead :: "('e, 'b, 'r) senv \<Rightarrow> nat \<Rightarrow> bool \<Rightarrow> ('b, 'r, addr \<times> token \<times> 'e) sparser" where
  "catchHead se pos lastWasTerminal =
     andBind (rawToken (pe se)) (\<lambda>tok.
     if \<not> isLParen tok then unexpected tok ''parenthesized catch expression expected after catch keyword.''
     else
       andBind (defOf (parse (pe se)) TypeSpec) (\<lambda>exceptionType.
       andBind (rawToken (pe se)) (\<lambda>varTok.
       if \<not> isIdent varTok then unexpected tok ''variable name expected after exception type.''
       else
         andBind (sem (emitCatch (be se) pos exceptionType lastWasTerminal)) (\<lambda>exceptionObj.
         andBind (rawToken (pe se)) (\<lambda>tok.
         if \<not> isRParen tok then unexpected tok ''closing parenthesis expected after exception variable.''
         else
           andBind (rawToken (pe se)) (\<lambda>tok.
           if \<not> tok_is T_lcurly tok then unexpected tok ''Curly bracket expected after catch clause.''
           else yields (exceptionType, varTok, exceptionObj)))))))"

text \<open>The terminal context of a try statement after one more catch clause.\<close>

definition withCatch :: "ctx option \<Rightarrow> ctx option \<Rightarrow> ctx option" where
  "withCatch ended terminalCatch = (case terminalCatch of
     None \<Rightarrow> None
   | Some d \<Rightarrow> (case ended of
       None \<Rightarrow> None
     | Some c \<Rightarrow> Some (if encloses c d then d else c)))"

definition catchBody :: "('e, 'b, 'r) senv \<Rightarrow> ('b, 'r) scalls \<Rightarrow> nat \<Rightarrow> ctx option \<Rightarrow> bool \<Rightarrow> ('b, 'r, ctx option) sparser" where
  "catchBody se rec pos ended lastWasTerminal =
     andBind (catchHead se pos lastWasTerminal) (\<lambda>(exceptionType, varTok, exceptionObj).
     andBind (sem (pushContext None False)) (\<lambda>_.
     andBind (sem (emitExceptionVar se exceptionType varTok exceptionObj)) (\<lambda>_.
     andBind (sem (addExceptionCleanup (be se))) (\<lambda>_.
     andBind (rec (Block True NoCallbacks None)) (\<lambda>terminalCatch.
     andBind (sem popContext) (\<lambda>_.
     andBind (rawToken (pe se)) (\<lambda>tok.
     if tok_is T_catchKw tok then rec (CatchClauses pos (withCatch ended terminalCatch) (terminalCatch \<noteq> None))
     else
       andBind (unread tok) (\<lambda>_.
       andBind (sem (emitEndTry (be se) pos (terminalCatch \<noteq> None))) (\<lambda>_.
       yields (withCatch ended terminalCatch))))))))))"

section \<open>Imports\<close>

partial_function (option) moduleNameLoop :: "('e, 'b, 'r) senv \<Rightarrow> string list \<Rightarrow> token \<Rightarrow> ('b, 'r, string list) sparser" where
  "moduleNameLoop se parts tok s =
     (andBind (nextToken (pe se)) (\<lambda>tok2.
        if \<not> tok_is T_dot tok2 then andBind (unread tok2) (\<lambda>_. yields (parts @ [tok_data tok]))
        else andBind (nextToken (pe se)) (\<lambda>tok3.
          if \<not> isIdent tok3 then unexpected tok3 ''identifier expected''
          else moduleNameLoop se (parts @ [tok_data tok]) tok3))) s"

definition parseModuleName :: "('e, 'b, 'r) senv \<Rightarrow> string list \<Rightarrow> ('b, 'r, string list) sparser" where
  "parseModuleName se parts = andBind (nextToken (pe se)) (moduleNameLoop se parts)"

text \<open>The package that a relative name starts from; the code reads two parts of the module's name.\<close>

definition relativeBase :: "string list \<Rightarrow> string list option" where
  "relativeBase parts = (case parts of
     [] \<Rightarrow> None
   | p # ps \<Rightarrow> if p \<noteq> [] then Some (butlast parts)
     else (case ps of [] \<Rightarrow> None | q # _ \<Rightarrow> Some (if q = ''main'' then [] else butlast parts)))"

definition importSource :: "('e, 'b, 'r) senv \<Rightarrow> ('b, 'r, string list \<times> bool) sparser" where
  "importSource se =
     andBind (nextToken (pe se)) (\<lambda>tok.
     if isIdent tok then
       andBind (unread tok) (\<lambda>_.
       andBind (parseModuleName se []) (\<lambda>nm. yields (nm, False)))
     else if isString tok then yields ([tok_data tok], True)
     else if tok_is T_dot tok then
       andBind (sem curNs) (\<lambda>n.
       andBind (sem (returning (\<lambda>s. getModule (sem_store s) n))) (\<lambda>m. case m of
         None \<Rightarrow> throw (NullPointer ''module'')
       | Some a \<Rightarrow>
           andBind (sem (gets (\<lambda>s. Option.bind (parseCanonicalName (canonicalName (cell (sem_store s) a))) relativeBase))) (\<lambda>start. case start of
             None \<Rightarrow> throw (CheckFailed ''moduleName'')
           | Some parts \<Rightarrow> andBind (parseModuleName se parts) (\<lambda>nm. yields (nm, False)))))
     else unexpected tok ''expected string constant'')"

text \<open>The symbols, as local and source names, and the tokens their locations are of\<close>

partial_function (option) importSymbols ::
  "('e, 'b, 'r) senv \<Rightarrow> (string \<times> string) list \<Rightarrow> token list \<Rightarrow> ('b, 'r, (string \<times> string) list \<times> token list) sparser" where
  "importSymbols se imps symLocs s =
     (andBind (nextToken (pe se)) (\<lambda>tok.
      if isIdent tok then
        andBind (nextToken (pe se)) (\<lambda>tok2.
        andBind (if tok_is T_assign tok2 then
            andBind (nextToken (pe se)) (\<lambda>tok3.
            if \<not> isIdent tok3 then unexpected tok3 ''Identifier expected in import alias expression''
            else andBind (nextToken (pe se)) (\<lambda>tok4. yields (tok3, tok4)))
          else yields (tok, tok2)) (\<lambda>(original, after).
        if tok_is T_semi after then yields (imps @ [(tok_data tok, tok_data original)], symLocs @ [original])
        else if \<not> tok_is T_comma after then unexpected after ''expected comma or semicolon''
        else importSymbols se (imps @ [(tok_data tok, tok_data original)]) (symLocs @ [original])))
      else if tok_is T_semi tok then yields (imps, symLocs)
      else unexpected tok ''expected identifier or semicolon'')) s"

definition parseImportStmt :: "('e, 'b, 'r) senv \<Rightarrow> addr \<Rightarrow> bool \<Rightarrow> ('b, 'r, addr option) sparser" where
  "parseImportStmt se n annotation =
     andBind (importSource se) (\<lambda>(path, rawSharedLib).
     andBind (importSymbols se [] []) (\<lambda>(imps, symLocs).
     andBind (sem (gets sem_ctx)) (\<lambda>c.
     sem (emitImport (importer (pe se)) c n path imps annotation True rawSharedLib (Some symLocs)))))"

section \<open>Statements and blocks\<close>

definition statementBody :: "('e, 'b, 'r) senv \<Rightarrow> ('b, 'r) scalls \<Rightarrow> bool \<Rightarrow> ('b, 'r, ctx option) sparser" where
  "statementBody se rec defsAllowed =
     (let control = (\<lambda>m. andBind (runCallbacks se ControlStmt) (\<lambda>_. m));
          never = (\<lambda>m. andBind m (\<lambda>_. yields None)) in
     andBind (nextToken (pe se)) (\<lambda>tok.
     if tok_is T_semi tok then control (yields None)
     else if tok_is T_ifKw tok then control (parseIfStmt se rec)
     else if tok_is T_whileKw tok then control (never (parseWhileStmt se rec))
     else if tok_is T_elseKw tok then unexpected tok ''else with no matching if''
     else if tok_is T_returnKw tok then control (parseReturn se tok)
     else if tok_is T_importKw tok then
       control (andBind (sem curNs) (\<lambda>n. andBind (parseImportStmt se n False) (\<lambda>_. yields None)))
     else if tok_is T_classKw tok then
       (if \<not> defsAllowed then throw (ErrorAt tok ''class definitions are not allowed in this context'')
        else andBind (parseClassDef (pe se)) (\<lambda>_. yields None))
     else if tok_is T_breakKw tok then control (parseBreak se tok)
     else if tok_is T_continueKw tok then control (parseContinue se tok)
     else if tok_is T_forKw tok then never (parseForStmt se rec)
     else if tok_is T_throwKw tok then parseThrowStmt se
     else if tok_is T_tryKw tok then parseTryStmt se rec
     else andBind (unread tok) (\<lambda>_. never (parseClause se defsAllowed))))"

text \<open>
  The end of a block: callbacks can put tokens before it, then the block goes on. The cleanups are
  emitted unless control cannot get there, or the block is that of a module.
\<close>

definition blockAgain :: "('e, 'b, 'r) senv \<Rightarrow> event \<Rightarrow> token \<Rightarrow> ('b, 'r, bool) sparser" where
  "blockAgain se closeEvent tok =
     andBind (sem (gets (hasCallbacks se closeEvent))) (\<lambda>has.
     if has then
       andBind (unread tok) (\<lambda>_.
       andBind (runCallbacks se closeEvent) (\<lambda>_.
       andBind (rawToken (pe se)) (\<lambda>tempTok.
       if \<not> tok_is T_rcurly tempTok then andBind (unread tempTok) (\<lambda>_. yields True) else yields False)))
     else yields False)"

definition closeBlock :: "('e, 'b, 'r) senv \<Rightarrow> bool \<Rightarrow> ('b, 'r, unit) emits" where
  "closeBlock se nested =
     andBind curNs (\<lambda>n.
     andBind (gets (\<lambda>s. checkForUnresolvedForwards (sem_store s) n)) (\<lambda>forwards. case forwards of
       Inl _ \<Rightarrow> throw (ErrorHere ''Forward declaration is not defined'')
     | Inr _ \<Rightarrow>
         andBind curFrame (\<lambda>f.
         if \<not> terminal f \<and> nested then andBind curContext (closeAllCleanupsStatic (be se)) else yields ())))"

text \<open>
  The context after a statement is marked when control cannot reach what follows, and the next
  statement is then an error.
\<close>

definition markTerminal :: "ctx option \<Rightarrow> ('b, 'r, ctx option) emits" where
  "markTerminal ended = (case ended of
     None \<Rightarrow> yields None
   | Some c \<Rightarrow>
       andBind curContext (\<lambda>here.
       if \<not> sameContext c here then andBind (onFrame (\<lambda>f. f\<lparr>terminal := True\<rparr>)) (\<lambda>_. yields (Some c))
       else yields None))"

definition blockBody :: "('e, 'b, 'r) senv \<Rightarrow> ('b, 'r) scalls \<Rightarrow> bool \<Rightarrow> event \<Rightarrow> ctx option \<Rightarrow> ('b, 'r, ctx option) sparser" where
  "blockBody se rec nested closeEvent ended =
     andBind (nextToken (pe se)) (\<lambda>tok.
     if tok_is T_rcurly tok \<and> \<not> nested then unexpected tok ''expected statement or end-of-file.''
     else if isEnd tok \<and> nested then unexpected tok ''expected statement or closing brace.''
     else if tok_is T_rcurly tok \<or> isEnd tok then
       andBind (blockAgain se closeEvent tok) (\<lambda>again.
       if again then rec (Block nested closeEvent ended)
       else andBind (sem (closeBlock se nested)) (\<lambda>_. yields ended))
     else
       andBind (unread tok) (\<lambda>_.
       andBind (sem curFrame) (\<lambda>f.
       if terminal f then throw (ErrorAt tok ''unreachable code'')
       else
         andBind (rec (Statement True)) (\<lambda>ended.
         andBind (sem (markTerminal ended)) (\<lambda>ended.
         rec (Block nested closeEvent ended))))))"

section \<open>The recursion\<close>

definition runStmt :: "('e, 'b, 'r) senv \<Rightarrow> ('b, 'r) scalls \<Rightarrow> ('b, 'r) scalls" where
  "runStmt se rec task = (case task of
     Block nested closeEvent ended \<Rightarrow> blockBody se rec nested closeEvent ended
   | Statement defsAllowed \<Rightarrow> statementBody se rec defsAllowed
   | CatchClauses pos ended lastWasTerminal \<Rightarrow> catchBody se rec pos ended lastWasTerminal)"

lemma mono_clause [partial_function_mono]:
  assumes "\<And>t s. mono_option (\<lambda>f. R f t s)"
  shows "mono_option (\<lambda>f. parseIfClause se (R f) s)"
  unfolding parseIfClause_def by (rule mono_rules assms)+

lemma mono_compound [partial_function_mono]:
  assumes "\<And>t s. mono_option (\<lambda>f. R f t s)"
  shows "mono_option (\<lambda>f. parseIfStmt se (R f) s)" "mono_option (\<lambda>f. parseWhileStmt se (R f) s)"
    "mono_option (\<lambda>f. parseForStmt se (R f) s)" "mono_option (\<lambda>f. parseTryStmt se (R f) s)"
    "mono_option (\<lambda>f. catchBody se (R f) pos ended was s)"
  unfolding parseIfStmt_def parseWhileStmt_def parseForStmt_def parseTryStmt_def catchBody_def
  by (rule mono_rules mono_clause assms)+

lemma mono_stmt [partial_function_mono]:
  assumes "\<And>t s. mono_option (\<lambda>f. R f t s)"
  shows "mono_option (\<lambda>f. runStmt se (R f) task s)"
  unfolding runStmt_def blockBody_def statementBody_def Let_def
  by (cases task; simp only: stask.case) (rule mono_rules mono_compound assms)+

partial_function (option) statement :: "('e, 'b, 'r) senv \<Rightarrow> ('b, 'r) scalls" where
  "statement se task s = runStmt se (statement se) task s"

text \<open>
  The body of a function in \<open>parseFuncDef\<close>: when control can reach its end, the function returns there,
  which only a function without a value may do. The cleanups of the block have been emitted by then.
\<close>

definition endsWithoutValue :: "('e, 'b, 'r) senv \<Rightarrow> ('b, 'r, bool) emits" where
  "endsWithoutValue se =
     andBind curFrame (\<lambda>f. case ctx_returnType f of
       None \<Rightarrow> throw (NullPointer ''returnType'')
     | Some t \<Rightarrow> returning (\<lambda>s. matches (sem_store s) (voidType (pe se)) t))"

definition functionBody :: "('e, 'b, 'r) senv \<Rightarrow> token \<Rightarrow> ('b, 'r, unit) sparser" where
  "functionBody se brace =
     andBind (statement se (Block True FuncLeave None)) (\<lambda>terminal. case terminal of
       Some _ \<Rightarrow> yields ()
     | None \<Rightarrow>
         andBind (sem (endsWithoutValue se)) (\<lambda>ok.
         if ok then andBind (sem (clearCleanups se)) (\<lambda>_. sem (emitReturn (be se) None))
         else throw (ErrorAt brace ''missing return statement for non-void function.'')))"

text \<open>\<open>Parser::parse()\<close>: a module\<close>

definition parseModule :: "('e, 'b, 'r) senv \<Rightarrow> ('b, 'r, unit) sparser" where
  "parseModule se =
     andBind (nextToken (pe se)) (\<lambda>tok.
     andBind (if tok_is T_moduleKw tok then
         andBind (nextToken (pe se)) (\<lambda>tok.
         if \<not> tok_is T_semi tok then throw (ErrorAt tok ''Semicolon expected after module token.'')
         else andBind consumeDocs (\<lambda>docs. sem (setModuleDoc se docs)))
       else
         andBind (if tok_is T_importKw tok then andBind consumeDocs (\<lambda>docs. sem (setModuleDoc se docs)) else yields ()) (\<lambda>_.
         unread tok)) (\<lambda>_.
     andBind (statement se (Block False NoCallbacks None)) (\<lambda>_. yields ())))"

end
