(* ===== verification/Block_Flow.thy ===== *)
theory Block_Flow
  imports Builder_Blocks Parse_Keeps
begin

text \<open>
  The blocks the builder makes are well formed: what it relies on in LLVM and in the emission of
  expressions, and what its operations do to the block being filled and to the blocks that wait to be
  filled. A block is filled by appending instructions to it, until an instruction that branches ends it.
\<close>

section \<open>Laws of LLVM\<close>

text \<open>
  What is observed of the state of LLVM: whether every instruction was appended to a block that was not
  ended, the blocks of the function, and which of them are ended.
\<close>

record ('b, 'r) irView =
  iv_sound :: "'r \<Rightarrow> bool"
  iv_known :: "'r \<Rightarrow> 'b set"
  iv_ended :: "'r \<Rightarrow> 'b \<Rightarrow> bool"

definition endsBlock :: "('b, 'r) irBuilder \<Rightarrow> ('b, 'r) irView \<Rightarrow> ('r \<Rightarrow> 'r) \<Rightarrow> bool" where
  "endsBlock I v f \<longleftrightarrow> (\<forall>r. iv_sound v r \<and> insertBlock I r \<in> iv_known v r \<and> \<not> iv_ended v r (insertBlock I r) \<longrightarrow>
     iv_sound v (f r) \<and> insertBlock I (f r) = insertBlock I r \<and> iv_known v (f r) = iv_known v r \<and>
     iv_ended v (f r) = (iv_ended v r)(insertBlock I r := True))"

definition irLaws :: "('b, 'r) irBuilder \<Rightarrow> ('b, 'r) irView \<Rightarrow> bool" where
  "irLaws I v \<longleftrightarrow>
     \<comment> \<open>a new block is another one than the blocks of the function, and is empty\<close>
     (\<forall>nm r b r'. newBlock I nm r = (b, r') \<longrightarrow> b \<notin> iv_known v r \<and> iv_known v r' = insert b (iv_known v r) \<and>
        \<not> iv_ended v r' b \<and> (\<forall>x \<in> iv_known v r. iv_ended v r' x = iv_ended v r x) \<and>
        insertBlock I r' = insertBlock I r \<and> iv_sound v r' = iv_sound v r) \<and>
     \<comment> \<open>filling another block\<close>
     (\<forall>b r. insertBlock I (setInsertPoint I b r) = b \<and> iv_known v (setInsertPoint I b r) = iv_known v r \<and>
        iv_ended v (setInsertPoint I b r) = iv_ended v r \<and> iv_sound v (setInsertPoint I b r) = iv_sound v r) \<and>
     (\<forall>x r. insertBlock I (setLastValue I x r) = insertBlock I r \<and> iv_known v (setLastValue I x r) = iv_known v r \<and>
        iv_ended v (setLastValue I x r) = iv_ended v r \<and> iv_sound v (setLastValue I x r) = iv_sound v r) \<and>
     \<comment> \<open>a block that is removed is no block of the function\<close>
     (\<forall>b r. b \<noteq> insertBlock I r \<longrightarrow> insertBlock I (eraseFromParent I b r) = insertBlock I r \<and>
        iv_known v (eraseFromParent I b r) = iv_known v r - {b} \<and>
        (\<forall>x \<in> iv_known v r - {b}. iv_ended v (eraseFromParent I b r) x = iv_ended v r x) \<and>
        iv_sound v (eraseFromParent I b r) = iv_sound v r) \<and>
     \<comment> \<open>the instructions that end a block\<close>
     (\<forall>b. endsBlock I v (createBr I b)) \<and> (\<forall>x b c. endsBlock I v (createCondBr I x b c)) \<and>
     (\<forall>x. endsBlock I v (createRet I x)) \<and> endsBlock I v (createRetVoid I) \<and>
     (\<forall>x b. endsBlock I v (createSwitch I x b)) \<and> (\<forall>b c x. endsBlock I v (createInvoke I b c x)) \<and>
     endsBlock I v (createUnreachable I)"

section \<open>The state between two operations\<close>

text \<open>
  The part of the frames that control flow depends on, with the flag of their catch data: whether one of
  the blocks of the try statement is not terminal.
\<close>

definition plain :: "frame \<Rightarrow> frame" where
  "plain f = f\<lparr>compileNS := None, ctx_returnType := None, builderData := None, nextFuncFlags := 0,
     nextClassFlags := 0, compileNSImports := []\<rparr>"

definition catchFlag :: "('b, 'r) bstate \<Rightarrow> frame \<Rightarrow> bool" where
  "catchFlag r f = (case builderData f of None \<Rightarrow> False | Some k \<Rightarrow> nonTerminal (catchDatas r ! k))"

definition view :: "('b, 'r) bstate sems \<Rightarrow> (frame \<times> bool) list" where
  "view s = map (\<lambda>f. (plain f, catchFlag (sem_rest s) f)) (sem_ctx s)"

definition dataAt :: "nat \<Rightarrow> nat \<Rightarrow> ('b, 'r) bstate sems \<Rightarrow> bool" where
  "dataAt n k s \<longleftrightarrow> n < length (sem_ctx s) \<and> builderData (rev (sem_ctx s) ! n) = Some k"

text \<open>Frames have different catch data, and the targets of \<open>break\<close> and \<open>continue\<close> are in their frames.\<close>

definition dataOk :: "('b, 'r) bstate sems \<Rightarrow> bool" where
  "dataOk s \<longleftrightarrow> distinct (List.map_filter builderData (sem_ctx s)) \<and>
     (\<forall>k \<in> set (List.map_filter builderData (sem_ctx s)). k < length (catchDatas (sem_rest s)))"

fun branchesOk :: "'b branchpoint list \<Rightarrow> frame list \<Rightarrow> bool" where
  "branchesOk bps [] \<longleftrightarrow> True"
| "branchesOk bps (f # c) \<longleftrightarrow>
     (\<forall>b. breakBranch f = Some b \<or> continueBranch f = Some b \<longrightarrow>
        b < length bps \<and> (\<exists>d. bp_context (bps ! b) = Some d \<and> length d = Suc (length c))) \<and> branchesOk bps c"

definition good :: "('b, 'r) irBuilder \<Rightarrow> ('b, 'r) irView \<Rightarrow> ('b, 'r) bstate sems \<Rightarrow> bool" where
  "good I v s \<longleftrightarrow> iv_sound v (llvm (sem_rest s)) \<and> insertBlock I (llvm (sem_rest s)) \<in> iv_known v (llvm (sem_rest s)) \<and>
     dataOk s \<and> branchesOk (branchpoints (sem_rest s)) (sem_ctx s)"

abbreviation here :: "('b, 'r) irBuilder \<Rightarrow> ('b, 'r) bstate sems \<Rightarrow> 'b" where
  "here I s \<equiv> insertBlock I (llvm (sem_rest s))"

abbreviation known :: "('b, 'r) irView \<Rightarrow> ('b, 'r) bstate sems \<Rightarrow> 'b set" where
  "known v s \<equiv> iv_known v (llvm (sem_rest s))"

abbreviation isEnded :: "('b, 'r) irView \<Rightarrow> ('b, 'r) bstate sems \<Rightarrow> 'b \<Rightarrow> bool" where
  "isEnded v s \<equiv> iv_ended v (llvm (sem_rest s))"

abbreviation bps :: "('b, 'r) bstate sems \<Rightarrow> 'b branchpoint list" where
  "bps s \<equiv> branchpoints (sem_rest s)"

text \<open>
  The state \<open>s\<close> reached from \<open>s0\<close>: the blocks that waited at \<open>s0\<close> still do; the blocks \<open>B\<close> were made since
  and wait, the branchpoints \<open>K\<close> were made since, the frames in \<open>D\<close> have their catch data; \<open>e\<close> tells whether
  the block being filled is ended. The frames are \<open>w\<close>.
\<close>

definition waits :: "('b, 'r) irBuilder \<Rightarrow> ('b, 'r) irView \<Rightarrow> ('b, 'r) bstate sems \<Rightarrow> ('b, 'r) bstate sems \<Rightarrow> bool" where
  "waits I v s0 s \<longleftrightarrow> (\<forall>x \<in> known v s0. x \<in> known v s \<and>
     (x \<noteq> here I s0 \<longrightarrow> x \<noteq> here I s \<and> (isEnded v s x \<longleftrightarrow> isEnded v s0 x)))"

text \<open>Every block that was made since, and the one being filled at \<open>s0\<close>, is ended, but those that wait and the one being filled.\<close>

definition filled :: "('b, 'r) irBuilder \<Rightarrow> ('b, 'r) irView \<Rightarrow> ('b, 'r) bstate sems \<Rightarrow> 'b set \<Rightarrow> ('b, 'r) bstate sems \<Rightarrow> bool" where
  "filled I v s0 B s \<longleftrightarrow> (\<forall>x \<in> known v s. (x \<in> known v s0 \<longrightarrow> x = here I s0) \<and> x \<notin> B \<and> x \<noteq> here I s \<longrightarrow> isEnded v s x)"

definition site :: "('b, 'r) irBuilder \<Rightarrow> ('b, 'r) irView \<Rightarrow> ('b, 'r) bstate sems \<Rightarrow> (frame \<times> bool) list \<Rightarrow> 'b set \<Rightarrow>
    (nat \<rightharpoonup> 'b branchpoint) \<Rightarrow> (nat \<times> nat) set \<Rightarrow> bool \<Rightarrow> ('b, 'r) bstate sems \<Rightarrow> bool" where
  "site I v s0 w B K D e s \<longleftrightarrow> good I v s \<and> view s = w \<and> waits I v s0 s \<and> filled I v s0 B s \<and> (isEnded v s (here I s) \<longleftrightarrow> e) \<and>
     (\<forall>b \<in> B. b \<in> known v s \<and> b \<notin> known v s0 \<and> b \<noteq> here I s \<and> \<not> isEnded v s b) \<and>
     (\<exists>more. bps s = bps s0 @ more) \<and>
     (\<forall>i bp. K i = Some bp \<longrightarrow> length (bps s0) \<le> i \<and> i < length (bps s) \<and> bps s ! i = bp) \<and>
     (\<forall>n k. dataAt n k s0 \<or> (n, k) \<in> D \<longrightarrow> dataAt n k s)"

text \<open>The emission of code fills blocks; other operations leave the block being filled alone.\<close>

definition advances :: "('b, 'r) irBuilder \<Rightarrow> ('b, 'r) irView \<Rightarrow> ('b, 'r) bstate sems \<Rightarrow> ('b, 'r) bstate sems \<Rightarrow> bool" where
  "advances I v s t \<longleftrightarrow> (good I v s \<and> \<not> isEnded v s (here I s) \<longrightarrow> site I v s (view s) {} Map.empty {} False t)"

definition quiet :: "('b, 'r) irBuilder \<Rightarrow> ('b, 'r) irView \<Rightarrow> ('b, 'r) bstate sems \<Rightarrow> ('b, 'r) bstate sems \<Rightarrow> bool" where
  "quiet I v s t \<longleftrightarrow> (good I v s \<longrightarrow> site I v s (view s) {} Map.empty {} (isEnded v s (here I s)) t)"

section \<open>Composition\<close>

lemma site_refl: "good I v s \<Longrightarrow> site I v s (view s) {} Map.empty {} (isEnded v s (here I s)) s"
  by (simp add: site_def waits_def filled_def)

lemma site_trans:
  assumes "site I v s0 w B K D e s" and "site I v s w' B' K' D' e' t"
  shows "site I v s0 w' (B \<union> B') (K ++ K') (D \<union> D') e' t"
proof -
  note a = assms(1) [unfolded site_def] and b = assms(2) [unfolded site_def]
  from a obtain more where m: "bps s = bps s0 @ more" by blast
  from b obtain more' where m': "bps t = bps s @ more'" by blast
  have bt: "b \<in> known v t \<and> b \<notin> known v s0 \<and> b \<noteq> here I t \<and> \<not> isEnded v t b" if "b \<in> B \<union> B'" for b
    using that a b by (auto simp: waits_def)
  have kt: "length (bps s0) \<le> i \<and> i < length (bps t) \<and> bps t ! i = bp" if "(K ++ K') i = Some bp" for i bp
  proof (cases "K' i")
    case None
    then have "K i = Some bp" using that by (auto simp: map_add_def)
    with a have "length (bps s0) \<le> i \<and> i < length (bps s) \<and> bps s ! i = bp" by blast
    with m' show ?thesis by (auto simp: nth_append)
  next
    case (Some y)
    then have "K' i = Some bp" using that by (auto simp: map_add_def)
    with b have "length (bps s) \<le> i \<and> i < length (bps t) \<and> bps t ! i = bp" by blast
    with m show ?thesis by auto
  qed
  have "filled I v s0 (B \<union> B') t" unfolding filled_def
  proof (intro ballI impI)
    fix x assume x: "x \<in> known v t" "(x \<in> known v s0 \<longrightarrow> x = here I s0) \<and> x \<notin> B \<union> B' \<and> x \<noteq> here I t"
    have step: "(x \<in> known v s \<longrightarrow> x = here I s) \<longrightarrow> isEnded v t x" using b x by (simp add: filled_def)
    show "isEnded v t x"
    proof (cases "x \<in> known v s \<and> x \<noteq> here I s")
      case True
      then have "isEnded v s x" using a x(2) by (simp add: filled_def)
      with True b show ?thesis by (auto simp: waits_def)
    qed (use step in blast)
  qed
  moreover have "waits I v s0 t" using a b by (auto simp: waits_def)
  moreover have "\<exists>more. bps t = bps s0 @ more" using m m' by simp
  moreover have "\<forall>n k. dataAt n k s0 \<or> (n, k) \<in> D \<union> D' \<longrightarrow> dataAt n k t" using a b by blast
  moreover have "good I v t" "view t = w'" "isEnded v t (here I t) \<longleftrightarrow> e'" using b by blast+
  ultimately show ?thesis unfolding site_def using bt kt by blast
qed

lemma site_frame:
  assumes "site I v s0 w B K D e s" and "site I v s w' {} Map.empty {} e' t"
  shows "site I v s0 w' B K D e' t"
  using site_trans [OF assms] by simp

lemma siteD:
  assumes "site I v s0 w B K D e s"
  shows "good I v s" "view s = w" "isEnded v s (here I s) \<longleftrightarrow> e" "waits I v s0 s"
  using assms unfolding site_def by blast+

lemma site_less: "site I v s0 w B K D e s \<Longrightarrow> (\<And>i bp. K' i = Some bp \<Longrightarrow> K i = Some bp) \<Longrightarrow> D' \<subseteq> D \<Longrightarrow> site I v s0 w B K' D' e s"
  unfolding site_def by (elim conjE, intro conjI; blast)

lemma site_start:
  "good I v s \<Longrightarrow> isEnded v s (here I s) = e \<Longrightarrow> site I v s (view s) {} Map.empty {} e s"
  using site_refl by blast

lemma advances_site: "advances I v s t \<Longrightarrow> site I v s0 w B K D False s \<Longrightarrow> site I v s0 w B K D False t"
  using site_frame [of I v s0 w B K D False s] siteD(1-3) [of I v s0 w B K D False s] by (simp add: advances_def)

lemma quiet_site: "quiet I v s t \<Longrightarrow> site I v s0 w B K D e s \<Longrightarrow> site I v s0 w B K D e t"
  using site_frame [of I v s0 w B K D e s] siteD(1-3) [of I v s0 w B K D e s] by (simp add: quiet_def)

lemma quiet_advances: "quiet I v s t \<Longrightarrow> advances I v s t"
  by (auto simp: quiet_def advances_def)

lemma yielding_advances:
  "keeps (advances I v) m \<Longrightarrow> yielding (site I v s0 w B K D False) m (\<lambda>_. site I v s0 w B K D False)"
  by (erule yielding_keeps) (rule advances_site)

lemma yielding_quiet:
  "keeps (quiet I v) m \<Longrightarrow> yielding (site I v s0 w B K D e) m (\<lambda>_. site I v s0 w B K D e)"
  by (erule yielding_keeps) (rule quiet_site)

section \<open>Operations on LLVM\<close>

abbreviation withLlvm :: "'r \<Rightarrow> ('b, 'r) bstate sems \<Rightarrow> ('b, 'r) bstate sems" where
  "withLlvm r s \<equiv> s\<lparr>sem_rest := (sem_rest s)\<lparr>llvm := r\<rparr>\<rparr>"

lemma withLlvm_simps [simp]:
  "view (withLlvm r s) = view s" "dataAt n k (withLlvm r s) = dataAt n k s" "dataOk (withLlvm r s) = dataOk s"
  by (simp_all add: view_def catchFlag_def dataAt_def dataOk_def split: option.split)

lemma site_llvm:
  assumes "site I v s0 w B K D e s" and "iv_sound v r" "insertBlock I r \<in> iv_known v r"
    and "\<forall>x \<in> known v s0. x \<in> iv_known v r \<and> (x \<noteq> here I s0 \<longrightarrow> x \<noteq> insertBlock I r \<and> (iv_ended v r x \<longleftrightarrow> isEnded v s0 x))"
    and "iv_ended v r (insertBlock I r) \<longleftrightarrow> e'"
    and "\<forall>b \<in> B'. b \<in> iv_known v r \<and> b \<notin> known v s0 \<and> b \<noteq> insertBlock I r \<and> \<not> iv_ended v r b"
    and "\<forall>x \<in> iv_known v r. (x \<in> known v s0 \<longrightarrow> x = here I s0) \<and> x \<notin> B' \<and> x \<noteq> insertBlock I r \<longrightarrow> iv_ended v r x"
  shows "site I v s0 w B' K D e' (withLlvm r s)"
proof -
  note a = assms(1) [unfolded site_def good_def]
  have "good I v (withLlvm r s)" using a assms(2,3) by (simp add: good_def)
  moreover have "waits I v s0 (withLlvm r s)" using assms(4) by (simp add: waits_def)
  moreover have "isEnded v (withLlvm r s) (here I (withLlvm r s)) \<longleftrightarrow> e'" using assms(5) by simp
  moreover have "filled I v s0 B' (withLlvm r s)" using assms(7) by (simp add: filled_def)
  ultimately show ?thesis unfolding site_def using a assms(6) by simp
qed

lemma site_waiting:
  assumes "site I v s0 w B K D e s"
  shows "iv_sound v (llvm (sem_rest s))" "here I s \<in> known v s" "isEnded v s (here I s) \<longleftrightarrow> e"
    "x \<in> known v s0 \<Longrightarrow> x \<in> known v s" "x \<in> known v s0 \<Longrightarrow> x \<noteq> here I s0 \<Longrightarrow> x \<noteq> here I s"
    "x \<in> known v s0 \<Longrightarrow> x \<noteq> here I s0 \<Longrightarrow> isEnded v s x \<longleftrightarrow> isEnded v s0 x"
    "b \<in> B \<Longrightarrow> b \<in> known v s" "b \<in> B \<Longrightarrow> b \<notin> known v s0" "b \<in> B \<Longrightarrow> b \<noteq> here I s" "b \<in> B \<Longrightarrow> \<not> isEnded v s b"
    "x \<in> known v s \<Longrightarrow> (x \<in> known v s0 \<Longrightarrow> x = here I s0) \<Longrightarrow> x \<notin> B \<Longrightarrow> x \<noteq> here I s \<Longrightarrow> isEnded v s x"
  using assms unfolding site_def good_def waits_def filled_def by blast+

lemma irLawsD:
  assumes "irLaws I v"
  shows "newBlock I nm r = (b, r') \<Longrightarrow> b \<notin> iv_known v r \<and> iv_known v r' = insert b (iv_known v r) \<and>
        \<not> iv_ended v r' b \<and> (\<forall>x \<in> iv_known v r. iv_ended v r' x = iv_ended v r x) \<and>
        insertBlock I r' = insertBlock I r \<and> iv_sound v r' = iv_sound v r"
    "insertBlock I (setInsertPoint I b r) = b" "iv_known v (setInsertPoint I b r) = iv_known v r"
    "iv_ended v (setInsertPoint I b r) = iv_ended v r" "iv_sound v (setInsertPoint I b r) = iv_sound v r"
    "insertBlock I (setLastValue I n r) = insertBlock I r" "iv_known v (setLastValue I n r) = iv_known v r"
    "iv_ended v (setLastValue I n r) = iv_ended v r" "iv_sound v (setLastValue I n r) = iv_sound v r"
    "b \<noteq> insertBlock I r \<Longrightarrow> insertBlock I (eraseFromParent I b r) = insertBlock I r \<and>
        iv_known v (eraseFromParent I b r) = iv_known v r - {b} \<and>
        (\<forall>x \<in> iv_known v r - {b}. iv_ended v (eraseFromParent I b r) x = iv_ended v r x) \<and>
        iv_sound v (eraseFromParent I b r) = iv_sound v r"
    "endsBlock I v (createBr I b)" "endsBlock I v (createCondBr I n b c)" "endsBlock I v (createRet I n)"
    "endsBlock I v (createRetVoid I)" "endsBlock I v (createSwitch I n b)" "endsBlock I v (createInvoke I b c n)"
    "endsBlock I v (createUnreachable I)"
  using assms by (simp_all add: irLaws_def)

lemma doLlvm_Some: "doLlvm f s = Some (Inr (x, t)) \<longleftrightarrow> t = withLlvm (f (llvm (sem_rest s))) s"
  by (auto simp: doLlvm_def onLlvm_def)

text \<open>An instruction that ends the block being filled.\<close>

lemma ends_site:
  assumes "endsBlock I v f"
  shows "yielding (site I v s0 w B K D False) (doLlvm f) (\<lambda>_. site I v s0 w B K D True)"
proof (rule yieldingI)
  fix s x t assume s: "site I v s0 w B K D False s" and "doLlvm f s = Some (Inr (x, t))"
  note at = site_waiting [OF s]
  from assms at(1-3) have f: "iv_sound v (f (llvm (sem_rest s))) \<and> insertBlock I (f (llvm (sem_rest s))) = here I s \<and>
     iv_known v (f (llvm (sem_rest s))) = known v s \<and>
     iv_ended v (f (llvm (sem_rest s))) = (isEnded v s)(here I s := True)"
    by (simp add: endsBlock_def)
  have "site I v s0 w B K D True (withLlvm (f (llvm (sem_rest s))) s)"
    by (rule site_llvm [OF s]) (use f at in auto)
  then show "site I v s0 w B K D True t" using \<open>doLlvm f s = Some (Inr (x, t))\<close> by (simp add: doLlvm_Some)
qed

lemma branchTo_site:
  assumes "irLaws (ir be) v"
  shows "yielding (site (ir be) v s0 w B K D False) (branchTo be b) (\<lambda>_. site (ir be) v s0 w B K D True)"
  unfolding branchTo_def by (rule ends_site [OF irLawsD(11) [OF assms]])

lemma createBlock_site:
  assumes "irLaws (ir be) v"
  shows "yielding (site (ir be) v s0 w B K D e) (createBlock be nm) (\<lambda>b s. b \<notin> B \<and> site (ir be) v s0 w (insert b B) K D e s)"
proof (rule yieldingI)
  fix s b t assume s: "site (ir be) v s0 w B K D e s" and m: "createBlock be nm s = Some (Inr (b, t))"
  then obtain r where r: "newBlock (ir be) nm (llvm (sem_rest s)) = (b, r)" "t = withLlvm r s"
    by (auto simp: createBlock_def onLlvm_def split: prod.splits)
  note at = site_waiting [OF s] and law = irLawsD(1) [OF assms r(1)]
  have "b \<notin> B" using at(7) law by blast
  moreover have "site (ir be) v s0 w (insert b B) K D e t"
    unfolding r(2) by (rule site_llvm [OF s]) (use law at in \<open>auto simp del: withLlvm_simps\<close>)
  ultimately show "b \<notin> B \<and> site (ir be) v s0 w (insert b B) K D e t" by blast
qed

lemma moveTo_site:
  assumes "irLaws (ir be) v" and "b \<in> B"
  shows "yielding (site (ir be) v s0 w B K D True) (moveTo be b) (\<lambda>_. site (ir be) v s0 w (B - {b}) K D False)"
proof (rule yieldingI)
  fix s x t assume s: "site (ir be) v s0 w B K D True s" and m: "moveTo be b s = Some (Inr (x, t))"
  note at = site_waiting [OF s]
  have done_: "\<forall>x \<in> known v s. (x \<in> known v s0 \<longrightarrow> x = here (ir be) s0) \<longrightarrow> x \<notin> B \<longrightarrow> isEnded v s x"
  proof (intro ballI impI)
    fix x assume "x \<in> known v s" "x \<in> known v s0 \<longrightarrow> x = here (ir be) s0" "x \<notin> B"
    then show "isEnded v s x" using at(3) at(11) [of x] by (cases "x = here (ir be) s") simp_all
  qed
  have "site (ir be) v s0 w (B - {b}) K D False (withLlvm (setInsertPoint (ir be) b (llvm (sem_rest s))) s)"
    by (rule site_llvm [OF s]; use at(1-10) assms(2) done_ in \<open>auto simp: irLawsD(2-5) [OF assms(1)]\<close>)
  then show "site (ir be) v s0 w (B - {b}) K D False t" using m by (simp add: moveTo_def doLlvm_Some)
qed

lemma setLastValue_site:
  assumes "irLaws (ir be) v"
  shows "yielding (site (ir be) v s0 w B K D e) (doLlvm (setLastValue (ir be) n)) (\<lambda>_. site (ir be) v s0 w B K D e)"
proof (rule yieldingI)
  fix s x t assume s: "site (ir be) v s0 w B K D e s" and m: "doLlvm (setLastValue (ir be) n) s = Some (Inr (x, t))"
  have "site (ir be) v s0 w B K D e (withLlvm (setLastValue (ir be) n (llvm (sem_rest s))) s)"
    by (rule site_llvm [OF s]) (use site_waiting [OF s] in \<open>auto simp: irLawsD(6-9) [OF assms]\<close>)
  then show "site (ir be) v s0 w B K D e t" using m by (simp add: doLlvm_Some)
qed

lemma erase_site:
  assumes "irLaws (ir be) v" and "b \<in> B"
  shows "yielding (site (ir be) v s0 w B K D e) (doLlvm (eraseFromParent (ir be) b)) (\<lambda>_. site (ir be) v s0 w (B - {b}) K D e)"
proof (rule yieldingI)
  fix s x t assume s: "site (ir be) v s0 w B K D e s" and m: "doLlvm (eraseFromParent (ir be) b) s = Some (Inr (x, t))"
  note at = site_waiting [OF s]
  note law = irLawsD(10) [OF assms(1) at(9) [OF assms(2)]]
  have other: "x \<in> known v s0 \<Longrightarrow> x \<noteq> b" for x using at(8) [OF assms(2)] by blast
  have "site (ir be) v s0 w (B - {b}) K D e (withLlvm (eraseFromParent (ir be) b (llvm (sem_rest s))) s)"
  proof (rule site_llvm [OF s])
    let ?r = "eraseFromParent (ir be) b (llvm (sem_rest s))"
    have same: "iv_ended v ?r x = isEnded v s x" if "x \<in> known v s" "x \<noteq> b" for x using law that by blast
    show "iv_sound v ?r" "insertBlock (ir be) ?r \<in> iv_known v ?r" "iv_ended v ?r (insertBlock (ir be) ?r) \<longleftrightarrow> e"
      using law at(1-3,9) assms(2) same by auto
    show "\<forall>x \<in> known v s0. x \<in> iv_known v ?r \<and>
      (x \<noteq> here (ir be) s0 \<longrightarrow> x \<noteq> insertBlock (ir be) ?r \<and> (iv_ended v ?r x \<longleftrightarrow> isEnded v s0 x))"
      using law at(4-6) other same by auto
    show "\<forall>x \<in> iv_known v ?r. (x \<in> known v s0 \<longrightarrow> x = here (ir be) s0) \<and> x \<notin> B - {b} \<and> x \<noteq> insertBlock (ir be) ?r \<longrightarrow> iv_ended v ?r x"
      using law at(11) same by auto
    show "\<forall>c \<in> B - {b}. c \<in> iv_known v ?r \<and> c \<notin> known v s0 \<and> c \<noteq> insertBlock (ir be) ?r \<and> \<not> iv_ended v ?r c"
      using law at(7-10) same by auto
  qed
  then show "site (ir be) v s0 w (B - {b}) K D e t" using m by (simp add: doLlvm_Some)
qed

lemma ask_site: "yielding (site I v s0 w B K D e) (askLlvm f) (\<lambda>_. site I v s0 w B K D e)"
  by (rule yieldingI) (auto simp: askLlvm_def onLlvm_def)

section \<open>Branchpoints\<close>

lemma branchesOk_append: "branchesOk bs c \<Longrightarrow> branchesOk (bs @ bs') c"
  by (induction c) (auto simp: nth_append)

lemma newBranchpoint_site:
  "yielding (site I v s0 w B K D e) (newBranchpoint bp) (\<lambda>i s. K i = None \<and> site I v s0 w B (K(i \<mapsto> bp)) D e s)"
proof (rule yieldingI)
  fix s i t assume s: "site I v s0 w B K D e s" and m: "newBranchpoint bp s = Some (Inr (i, t))"
  then have i: "i = length (bps s)" and t: "t = s\<lparr>sem_rest := (sem_rest s)\<lparr>branchpoints := bps s @ [bp]\<rparr>\<rparr>"
    by (auto simp: newBranchpoint_def)
  note a = s [unfolded site_def]
  have "K i = None" using a i by (cases "K i") auto
  moreover have "good I v t" using a by (simp add: t good_def dataOk_def branchesOk_append)
  moreover have "view t = w" using a by (auto simp: t view_def catchFlag_def split: option.split)
  moreover have "dataAt n k t = dataAt n k s" for n k by (simp add: t dataAt_def)
  moreover have "\<forall>j x. (K(i \<mapsto> bp)) j = Some x \<longrightarrow> length (bps s0) \<le> j \<and> j < length (bps t) \<and> bps t ! j = x"
  proof (intro allI impI)
    fix j x assume j: "(K(i \<mapsto> bp)) j = Some x"
    show "length (bps s0) \<le> j \<and> j < length (bps t) \<and> bps t ! j = x"
    proof (cases "j = i")
      case True
      then show ?thesis using a j by (auto simp: t i)
    next
      case False
      then have "K j = Some x" using j by simp
      with a have "length (bps s0) \<le> j \<and> j < length (bps s) \<and> bps s ! j = x" by blast
      then show ?thesis by (simp add: t nth_append)
    qed
  qed
  ultimately show "K i = None \<and> site I v s0 w B (K(i \<mapsto> bp)) D e t"
    using a unfolding site_def by (auto simp: t waits_def filled_def)
qed

lemma branchpoint_site:
  assumes "K i = Some bp"
  shows "yielding (site I v s0 w B K D e) (branchpoint i) (\<lambda>x s. x = bp \<and> site I v s0 w B K D e s)"
  by (rule yieldingI) (use assms in \<open>auto simp: branchpoint_def site_def split: if_splits\<close>)

lemma branchesOk_update:
  assumes "branchesOk bs c" and "i < length bs" and "bp_context bp = bp_context (bs ! i)"
  shows "branchesOk (bs[i := bp]) c"
  using assms(1)
proof (induction c)
  case (Cons f c)
  have "bp_context (bs[i := bp] ! b) = bp_context (bs ! b)" for b
    using assms(2,3) by (cases "b = i") simp_all
  with Cons show ?case by simp
qed simp

lemma setBranchpoint_site:
  assumes "K i = Some bp" and "bp_context bp' = bp_context bp"
  shows "yielding (site I v s0 w B K D e) (setBranchpoint i bp') (\<lambda>_. site I v s0 w B (K(i \<mapsto> bp')) D e)"
proof (rule yieldingI)
  fix s x t assume s: "site I v s0 w B K D e s" and m: "setBranchpoint i bp' s = Some (Inr (x, t))"
  then have t: "t = s\<lparr>sem_rest := (sem_rest s)\<lparr>branchpoints := (bps s)[i := bp']\<rparr>\<rparr>"
    by (auto simp: setBranchpoint_def modifies_def)
  note a = s [unfolded site_def]
  from a assms(1) have i: "length (bps s0) \<le> i" "i < length (bps s)" "bps s ! i = bp" by auto
  then have "bp_context bp' = bp_context (bps s ! i)" using assms(2) by simp
  then have "good I v t" using a i(2) by (simp add: t good_def dataOk_def branchesOk_update)
  moreover have "view t = w" using a by (auto simp: t view_def catchFlag_def split: option.split)
  moreover have "dataAt n k t = dataAt n k s" for n k by (simp add: t dataAt_def)
  moreover have "\<forall>j x. (K(i \<mapsto> bp')) j = Some x \<longrightarrow> length (bps s0) \<le> j \<and> j < length (bps t) \<and> bps t ! j = x"
    using a i by (auto simp: t nth_list_update)
  moreover have "\<exists>bs. bps t = bps s0 @ bs" using a i by (auto simp: t list_update_append split: nat.splits)
  ultimately show "site I v s0 w B (K(i \<mapsto> bp')) D e t"
    using a unfolding site_def by (auto simp: t waits_def filled_def)
qed

section \<open>Frames\<close>

lemma site_ctx:
  assumes "site I v s0 w B K D e s" and "dataOk (s\<lparr>sem_ctx := c\<rparr>)" and "branchesOk (bps s) c"
    and "map (\<lambda>f. (plain f, catchFlag (sem_rest s) f)) c = w'"
    and "\<And>n k. dataAt n k s \<Longrightarrow> dataAt n k s0 \<or> (n, k) \<in> D \<Longrightarrow> dataAt n k (s\<lparr>sem_ctx := c\<rparr>)"
  shows "site I v s0 w' B K D e (s\<lparr>sem_ctx := c, sem_store := h\<rparr>)"
proof -
  let ?t = "s\<lparr>sem_ctx := c, sem_store := h\<rparr>"
  note a = assms(1) [unfolded site_def]
  have "dataOk ?t" "\<And>n k. dataAt n k ?t = dataAt n k (s\<lparr>sem_ctx := c\<rparr>)"
    using assms(2) by (simp_all add: dataOk_def dataAt_def)
  then show ?thesis
    using a assms(3-5) unfolding site_def good_def waits_def filled_def by (simp add: view_def)
qed

lemma branchesOk_tl: "branchesOk bs c \<Longrightarrow> branchesOk bs (tl c)"
  by (cases c) simp_all

lemma dataOk_tl: "dataOk s \<Longrightarrow> dataOk (s\<lparr>sem_ctx := tl (sem_ctx s)\<rparr>)"
  by (cases "sem_ctx s") (auto simp: dataOk_def List.map_filter_simps split: option.splits)

lemma site_push:
  assumes "site I v s0 w B K D e s" and "builderData x = None" "breakBranch x = None" "continueBranch x = None"
  shows "site I v s0 ((plain x, False) # w) B K D e (s\<lparr>sem_ctx := x # sem_ctx s, sem_store := h\<rparr>)"
proof (rule site_ctx [OF assms(1)])
  note a = siteD(1,2) [OF assms(1)]
  show "dataOk (s\<lparr>sem_ctx := x # sem_ctx s\<rparr>)"
    using a(1) assms(2) by (simp add: good_def dataOk_def List.map_filter_simps)
  show "branchesOk (bps s) (x # sem_ctx s)" using a(1) assms(3,4) by (simp add: good_def)
  show "map (\<lambda>f. (plain f, catchFlag (sem_rest s) f)) (x # sem_ctx s) = (plain x, False) # w"
    using a(2) assms(2) by (simp add: view_def catchFlag_def)
  show "dataAt n k (s\<lparr>sem_ctx := x # sem_ctx s\<rparr>)" if "dataAt n k s" for n k
    using that by (auto simp: dataAt_def nth_append)
qed

lemma site_pop:
  assumes "site I v s0 (x # w) B K D e s" and "length (sem_ctx s0) \<le> length w" and "\<forall>(n, k) \<in> D. n < length w"
  shows "site I v s0 w B K D e (s\<lparr>sem_ctx := tl (sem_ctx s)\<rparr>)"
proof -
  note a = siteD(1,2) [OF assms(1)]
  from a(2) obtain f c where c: "sem_ctx s = f # c" "w = map (\<lambda>f. (plain f, catchFlag (sem_rest s) f)) c"
    by (auto simp: view_def)
  have "site I v s0 w B K D e (s\<lparr>sem_ctx := tl (sem_ctx s), sem_store := sem_store s\<rparr>)"
  proof (rule site_ctx [OF assms(1)])
    show "dataOk (s\<lparr>sem_ctx := tl (sem_ctx s)\<rparr>)" "branchesOk (bps s) (tl (sem_ctx s))"
      using a(1) by (simp_all add: good_def dataOk_tl branchesOk_tl)
    show "map (\<lambda>f. (plain f, catchFlag (sem_rest s) f)) (tl (sem_ctx s)) = w" using c by simp
    fix n k assume "dataAt n k s" and "dataAt n k s0 \<or> (n, k) \<in> D"
    moreover from this(2) assms(2,3) have "n < length w" by (auto simp: dataAt_def)
    ultimately show "dataAt n k (s\<lparr>sem_ctx := tl (sem_ctx s)\<rparr>)" using c by (auto simp: dataAt_def nth_append)
  qed
  then show ?thesis by simp
qed

lemma site_top:
  assumes "site I v s0 ((x, q) # w) B K D e s" and "sem_ctx s = f # c" and "builderData g = builderData f"
    and "\<And>b. breakBranch g = Some b \<or> continueBranch g = Some b \<Longrightarrow>
      b < length (bps s) \<and> (\<exists>d. bp_context (bps s ! b) = Some d \<and> length d = Suc (length w))"
  shows "site I v s0 ((plain g, q) # w) B K D e (s\<lparr>sem_ctx := g # c\<rparr>)"
proof -
  note a = siteD(1,2) [OF assms(1)]
  have w: "(x, q) # w = map (\<lambda>f. (plain f, catchFlag (sem_rest s) f)) (f # c)" using a(2) assms(2) by (simp add: view_def)
  have "site I v s0 ((plain g, q) # w) B K D e (s\<lparr>sem_ctx := g # c, sem_store := sem_store s\<rparr>)"
  proof (rule site_ctx [OF assms(1)])
    show "dataOk (s\<lparr>sem_ctx := g # c\<rparr>)"
      using a(1) assms(2,3) by (simp add: good_def dataOk_def List.map_filter_simps)
    show "branchesOk (bps s) (g # c)" using a(1) assms(2,4) w by (auto simp: good_def)
    show "map (\<lambda>f. (plain f, catchFlag (sem_rest s) f)) (g # c) = (plain g, q) # w"
      using w assms(3) by (simp add: catchFlag_def)
    show "dataAt n k (s\<lparr>sem_ctx := g # c\<rparr>)" if "dataAt n k s" for n k
      using that assms(2,3) by (auto simp: dataAt_def nth_append nth_Cons')
  qed
  then show ?thesis by simp
qed

section \<open>Expressions\<close>

text \<open>Both relations are preorders that the parser of expressions keeps.\<close>

lemma site_store: "site I v s0 w B K D e s \<Longrightarrow> site I v s0 w B K D e (s\<lparr>sem_store := h\<rparr>)"
  using site_ctx [of I v s0 w B K D e s "sem_ctx s" w h] by (simp add: site_def good_def view_def)

lemma site_scope:
  assumes "good I v s"
    and "site I v (s\<lparr>sem_ctx := (newFrame sc n k)\<lparr>ctx_returnType := t\<rparr> # sem_ctx s, sem_store := h\<rparr>)
      (view (s\<lparr>sem_ctx := (newFrame sc n k)\<lparr>ctx_returnType := t\<rparr> # sem_ctx s, sem_store := h\<rparr>)) {} Map.empty {} e u"
  shows "site I v s (view s) {} Map.empty {} e (u\<lparr>sem_ctx := tl (sem_ctx u)\<rparr>)"
proof -
  let ?x = "(newFrame sc n k)\<lparr>ctx_returnType := t\<rparr>"
  let ?s = "s\<lparr>sem_ctx := ?x # sem_ctx s, sem_store := h\<rparr>"
  have p: "site I v s ((plain ?x, False) # view s) {} Map.empty {} (isEnded v s (here I s)) ?s"
    by (rule site_push [OF site_refl [OF assms(1)]]) (simp_all add: newFrame_def)
  then have w: "view ?s = (plain ?x, False) # view s" by (rule siteD)
  from site_frame [OF p assms(2)] show ?thesis unfolding w
    by (rule site_pop) (simp_all add: view_def)
qed

lemma good_push:
  "good I v s \<Longrightarrow> good I v (s\<lparr>sem_ctx := (newFrame sc n k)\<lparr>ctx_returnType := t\<rparr> # sem_ctx s, sem_store := h\<rparr>)"
  by (rule siteD(1) [OF site_push [OF site_refl]]) (simp_all add: newFrame_def)

lemma advances_trans: "advances I v s t \<Longrightarrow> advances I v t u \<Longrightarrow> advances I v s u"
  unfolding advances_def [of I v s u] by (intro impI, elim conjE) (blast intro: advances_site site_start)

lemma quiet_trans: "quiet I v s t \<Longrightarrow> quiet I v t u \<Longrightarrow> quiet I v s u"
  unfolding quiet_def [of I v s u] by (intro impI) (blast intro: quiet_site site_start)

interpretation advance: frame_relation "advances I v" for I :: "('b, 'r) irBuilder" and v
proof
  fix s t u show "advances I v s s"
    unfolding advances_def by (metis site_refl)
next
  fix s t u assume "advances I v s t" "advances I v t u" then show "advances I v s u"
    by (rule advances_trans)
next
  fix s h show "advances I v s (s\<lparr>sem_store := h\<rparr>)"
    unfolding advances_def by (metis site_refl site_store)
next
  fix s u :: "('b, 'r) bstate sems" and h sc n k t
  let ?s = "s\<lparr>sem_ctx := (newFrame sc n k)\<lparr>ctx_returnType := t\<rparr> # sem_ctx s, sem_store := h\<rparr>"
  assume a: "advances I v ?s u"
  show "advances I v s (u\<lparr>sem_ctx := tl (sem_ctx u)\<rparr>)"
    unfolding advances_def
  proof (intro impI)
    assume s: "good I v s \<and> \<not> isEnded v s (here I s)"
    then have "good I v ?s" by (simp add: good_push)
    with s a have "site I v ?s (view ?s) {} Map.empty {} False u" by (simp add: advances_def)
    with s show "site I v s (view s) {} Map.empty {} False (u\<lparr>sem_ctx := tl (sem_ctx u)\<rparr>)"
      by (intro site_scope) simp_all
  qed
qed

interpretation quietly: frame_relation "quiet I v" for I :: "('b, 'r) irBuilder" and v
proof
  fix s t u show "quiet I v s s"
    unfolding quiet_def by (metis site_refl)
next
  fix s t u assume "quiet I v s t" "quiet I v t u" then show "quiet I v s u"
    by (rule quiet_trans)
next
  fix s h show "quiet I v s (s\<lparr>sem_store := h\<rparr>)"
    unfolding quiet_def by (metis site_refl site_store)
next
  fix s u :: "('b, 'r) bstate sems" and h sc n k t
  let ?s = "s\<lparr>sem_ctx := (newFrame sc n k)\<lparr>ctx_returnType := t\<rparr> # sem_ctx s, sem_store := h\<rparr>"
  assume a: "quiet I v ?s u"
  show "quiet I v s (u\<lparr>sem_ctx := tl (sem_ctx u)\<rparr>)"
    unfolding quiet_def
  proof (intro impI)
    assume s: "good I v s"
    then have "good I v ?s" by (simp add: good_push)
    with a have "site I v ?s (view ?s) {} Map.empty {} (isEnded v s (here I s)) u" by (simp add: quiet_def)
    with s show "site I v s (view s) {} Map.empty {} (isEnded v s (here I s)) (u\<lparr>sem_ctx := tl (sem_ctx u)\<rparr>)"
      by (intro site_scope) simp_all
  qed
qed

end
