(* ===== verification/Builder_Flow.thy ===== *)
theory Builder_Flow
  imports Block_Flow
begin

text \<open>
  What the control flow operations of the builder do to the blocks: every block they make is filled once
  and ended once, and the operations that end a branch do so.
\<close>

section \<open>Laws of the emission of code\<close>

text \<open>
  Code for expressions and cleanups goes from an open block to an open block, possibly another one, and
  leaves the blocks that wait alone; the unwind blocks and the selectors are elsewhere.
\<close>

definition emissionLaws :: "('b, 'r) irView \<Rightarrow> ('e, 'b, 'r) benv \<Rightarrow> bool" where
  "emissionLaws v be \<longleftrightarrow> irLaws (ir be) v \<and>
     (\<forall>e. keeps (advances (ir be) v) (emitTransient be e)) \<and> (\<forall>e. keeps (advances (ir be) v) (emitCond be e)) \<and>
     (\<forall>e. keeps (advances (ir be) v) (emitReturned be e)) \<and> (\<forall>e. keeps (advances (ir be) v) (emitThrown be e)) \<and>
     (\<forall>e. keeps (advances (ir be) v) (assignReturned be e)) \<and>
     keeps (advances (ir be) v) (createCleanupFrame be) \<and> keeps (advances (ir be) v) (closeCleanupFrame be) \<and>
     (\<forall>c. keeps (advances (ir be) v) (closeAllCleanupsStatic be c)) \<and> keeps (advances (ir be) v) (addExceptionCleanup be) \<and>
     keeps (advances (ir be) v) (getExceptionSelectorValue be) \<and>
     (\<forall>t. keeps (advances (ir be) v) (emitExceptionObject be t)) \<and>
     keeps (quiet (ir be) v) (getUnwindBlock be) \<and> (\<forall>c. keeps (quiet (ir be) v) (emitUnwindCleanups be c)) \<and>
     (\<forall>k. keeps (quiet (ir be) v) (fixAllSelectors be k))"

lemma emissionLawsD:
  assumes "emissionLaws v be"
  shows "irLaws (ir be) v"
    "keeps (advances (ir be) v) (emitTransient be e)" "keeps (advances (ir be) v) (emitCond be e)"
    "keeps (advances (ir be) v) (emitReturned be e)" "keeps (advances (ir be) v) (emitThrown be e)"
    "keeps (advances (ir be) v) (assignReturned be e)"
    "keeps (advances (ir be) v) (createCleanupFrame be)" "keeps (advances (ir be) v) (closeCleanupFrame be)"
    "keeps (advances (ir be) v) (closeAllCleanupsStatic be c)" "keeps (advances (ir be) v) (addExceptionCleanup be)"
    "keeps (advances (ir be) v) (getExceptionSelectorValue be)" "keeps (advances (ir be) v) (emitExceptionObject be t)"
    "keeps (quiet (ir be) v) (getUnwindBlock be)" "keeps (quiet (ir be) v) (emitUnwindCleanups be c)"
    "keeps (quiet (ir be) v) (fixAllSelectors be k)"
  using assms by (simp_all add: emissionLaws_def)

text \<open>The rules of the single operations.\<close>

lemma emissions:
  assumes "emissionLaws v be"
  shows "yielding (site (ir be) v s0 w B K D False) (emitTransient be e) (\<lambda>_. site (ir be) v s0 w B K D False)"
    "yielding (site (ir be) v s0 w B K D False) (emitCond be e) (\<lambda>_. site (ir be) v s0 w B K D False)"
    "yielding (site (ir be) v s0 w B K D False) (emitReturned be e) (\<lambda>_. site (ir be) v s0 w B K D False)"
    "yielding (site (ir be) v s0 w B K D False) (emitThrown be e) (\<lambda>_. site (ir be) v s0 w B K D False)"
    "yielding (site (ir be) v s0 w B K D False) (assignReturned be e) (\<lambda>_. site (ir be) v s0 w B K D False)"
    "yielding (site (ir be) v s0 w B K D False) (createCleanupFrame be) (\<lambda>_. site (ir be) v s0 w B K D False)"
    "yielding (site (ir be) v s0 w B K D False) (closeCleanupFrame be) (\<lambda>_. site (ir be) v s0 w B K D False)"
    "yielding (site (ir be) v s0 w B K D False) (closeAllCleanupsStatic be c) (\<lambda>_. site (ir be) v s0 w B K D False)"
    "yielding (site (ir be) v s0 w B K D False) (addExceptionCleanup be) (\<lambda>_. site (ir be) v s0 w B K D False)"
    "yielding (site (ir be) v s0 w B K D False) (getExceptionSelectorValue be) (\<lambda>_. site (ir be) v s0 w B K D False)"
    "yielding (site (ir be) v s0 w B K D False) (emitExceptionObject be t) (\<lambda>_. site (ir be) v s0 w B K D False)"
    "yielding (site (ir be) v s0 w B K D e') (getUnwindBlock be) (\<lambda>_. site (ir be) v s0 w B K D e')"
    "yielding (site (ir be) v s0 w B K D e') (emitUnwindCleanups be c) (\<lambda>_. site (ir be) v s0 w B K D e')"
    "yielding (site (ir be) v s0 w B K D e') (fixAllSelectors be k) (\<lambda>_. site (ir be) v s0 w B K D e')"
    "yielding (site (ir be) v s0 w B K D e') (doLlvm (setLastValue (ir be) n)) (\<lambda>_. site (ir be) v s0 w B K D e')"
    "yielding (site (ir be) v s0 w B K D False) (branchTo be b) (\<lambda>_. site (ir be) v s0 w B K D True)"
    "yielding (site (ir be) v s0 w B K D False) (doLlvm (createCondBr (ir be) n b b')) (\<lambda>_. site (ir be) v s0 w B K D True)"
    "yielding (site (ir be) v s0 w B K D False) (doLlvm (createRet (ir be) n)) (\<lambda>_. site (ir be) v s0 w B K D True)"
    "yielding (site (ir be) v s0 w B K D False) (doLlvm (createRetVoid (ir be))) (\<lambda>_. site (ir be) v s0 w B K D True)"
    "yielding (site (ir be) v s0 w B K D False) (doLlvm (createSwitch (ir be) n b)) (\<lambda>_. site (ir be) v s0 w B K D True)"
    "yielding (site (ir be) v s0 w B K D False) (doLlvm (createInvoke (ir be) b b' n)) (\<lambda>_. site (ir be) v s0 w B K D True)"
    "yielding (site (ir be) v s0 w B K D False) (doLlvm (createUnreachable (ir be))) (\<lambda>_. site (ir be) v s0 w B K D True)"
    "yielding (site (ir be) v s0 w B K D e') (createBlock be nm) (\<lambda>b s. b \<notin> B \<and> site (ir be) v s0 w (insert b B) K D e' s)"
    "yielding (site (ir be) v s0 w B K D e') (askLlvm g) (\<lambda>_. site (ir be) v s0 w B K D e')"
    "yielding (site (ir be) v s0 w B K D e') (newBranchpoint bp) (\<lambda>i s. K i = None \<and> site (ir be) v s0 w B (K(i \<mapsto> bp)) D e' s)"
  by (rule yielding_advances yielding_quiet emissionLawsD [OF assms] setLastValue_site branchTo_site createBlock_site
    ask_site newBranchpoint_site ends_site irLawsD [OF emissionLawsD(1) [OF assms]] emissionLawsD(1) [OF assms])+

lemma curContext_site: "yielding (site I v s0 w B K D e) curContext (\<lambda>c s. length c = length w \<and> site I v s0 w B K D e s)"
  by (rule yieldingI) (auto simp: curContext_def gets_def view_def dest: siteD(2))

lemma existing_site: "yielding (site I v s0 w B K D e) (existing p) (\<lambda>b s. p = Some b \<and> site I v s0 w B K D e s)"
  by (rule yieldingI) (auto simp: existing_def yields_def throw_def split: option.splits)

lemma anyBranchpoint_site: "yielding (site I v s0 w B K D e) (branchpoint i) (\<lambda>_. site I v s0 w B K D e)"
  by (rule yieldingI) (auto simp: branchpoint_def split: if_splits)

section \<open>Conditionals\<close>

lemma site_made:
  "site I v s0 w B (K(i \<mapsto> bp)) D e s \<Longrightarrow> B = set_option (bp_block bp) \<Longrightarrow> P bp \<Longrightarrow>
    \<exists>bp. P bp \<and> site I v s0 w (set_option (bp_block bp)) (K(i \<mapsto> bp)) D e s"
  by blast

lemma emitIf_site:
  assumes L: "emissionLaws v be"
  shows "yielding (site (ir be) v s0 w {} K D False) (emitIf be cond)
    (\<lambda>pos s. \<exists>bp. bp_block bp \<noteq> None \<and> site (ir be) v s0 w (set_option (bp_block bp)) (K(pos \<mapsto> bp)) D False s)"
  unfolding emitIf_def labeledIf_def if_True
  apply (rule yielding_conj yielding_bind emissions [OF L])+
  apply (rule moveTo_site [OF emissionLawsD(1) [OF L]], simp)
  apply (rule yielding_pre [OF yielding_yields])
  apply (rule site_made, assumption; auto)
  done

lemma emitElse_site:
  assumes L: "emissionLaws v be" and "K pos = Some bp" and "bp_block bp \<noteq> None"
  shows "yielding (site (ir be) v s0 w (set_option (bp_block bp)) K D e) (emitElse be pos e)
    (\<lambda>_ s. \<exists>bp'. (bp_block bp' = None \<longleftrightarrow> e) \<and> site (ir be) v s0 w (set_option (bp_block bp')) (K(pos \<mapsto> bp')) D False s)"
proof -
  note ir = emissionLawsD(1) [OF L]
  obtain f where f: "bp_block bp = Some f" using assms(3) by blast
  show ?thesis
  proof (cases e)
    case True
    show ?thesis
      apply (simp only: emitElse_def True if_True andBind_ext)
      apply (rule yielding_bind, rule branchpoint_site, rule assms(2), rule yielding_conj)
      apply (rule yielding_bind, rule existing_site, rule yielding_conj)
      apply (rule yielding_bind, rule setBranchpoint_site, rule assms(2), simp)
      apply (rule yielding_consequence [OF moveTo_site [OF ir]], simp add: f)
      apply (rule site_made, assumption; auto simp: f)
      done
  next
    case False
    show ?thesis
      apply (simp only: emitElse_def False if_False andBind_assoc andBind_ext)
      apply (rule yielding_bind, rule branchpoint_site, rule assms(2), rule yielding_conj)
      apply (rule yielding_bind, rule existing_site, rule yielding_conj)
      apply (rule yielding_bind, rule emissions [OF L], rule yielding_conj)
      apply (rule yielding_bind, rule emissions [OF L])
      apply (rule yielding_bind, rule setBranchpoint_site, rule assms(2), simp)
      apply (rule yielding_consequence [OF moveTo_site [OF ir]], simp add: f)
      apply (rule site_made, assumption; auto simp: f)
      done
  qed
qed

lemma emitEndIf_site:
  assumes L: "emissionLaws v be" and "K pos = Some bp"
  shows "yielding (site (ir be) v s0 w (set_option (bp_block bp)) K D e) (emitEndIf be pos e)
    (\<lambda>_ s. \<exists>K'. site (ir be) v s0 w {} K' D (bp_block bp = None \<and> e) s)"
proof -
  note ir = emissionLawsD(1) [OF L]
  show ?thesis
  proof (cases e)
    case True
    show ?thesis
      apply (simp only: emitEndIf_def True if_True andBind_ext)
      apply (rule yielding_bind, rule branchpoint_site, rule assms(2), rule yielding_conj, hypsubst)
      apply (rule yielding_bind, rule setBranchpoint_site, rule assms(2), simp)
      apply (cases "bp_block bp"; simp)
       apply (rule yielding_pre [OF yielding_yields], rule exI, assumption)
      apply (rule yielding_consequence [OF moveTo_site [OF ir]], simp, rule exI, simp)
      done
  next
    case False
    have move: "yielding (site (ir be) v s0 w {b} (K(pos \<mapsto> bp\<lparr>bp_block := Some b\<rparr>)) D True) (moveTo be b)
        (\<lambda>_ s. \<exists>K'. site (ir be) v s0 w {} K' D False s)" for b
      by (rule yielding_consequence [OF moveTo_site [OF ir]], simp, rule exI, simp)
    show ?thesis
      apply (simp only: emitEndIf_def False if_False andBind_assoc andBind_ext)
      apply (rule yielding_bind, rule branchpoint_site, rule assms(2), rule yielding_conj, hypsubst)
      apply (cases "bp_block bp"; simp)
       apply (rule yielding_bind, rule emissions [OF L])
       apply (rule yielding_conj, rule yielding_bind, rule emissions [OF L])
       apply (rule yielding_bind, rule setBranchpoint_site, rule assms(2), simp, rule move)
      apply (rule yielding_bind, rule emissions [OF L])
      apply (rule yielding_bind, rule setBranchpoint_site, rule assms(2), simp, rule move)
      done
  qed
qed

section \<open>Loops\<close>

text \<open>What the branchpoint of a loop has, and which of its blocks wait.\<close>

definition loopPoint :: "bool \<Rightarrow> nat \<Rightarrow> 'b branchpoint \<Rightarrow> bool" where
  "loopPoint post n bp \<longleftrightarrow> (\<exists>a p c. bp_context bp = Some c \<and> length c = n \<and> bp_block bp = Some a \<and>
     bp_block2 bp = Some p \<and> a \<noteq> p \<and> (post \<longleftrightarrow> bp_block3 bp \<noteq> None))"

definition loopBlocks :: "bool \<Rightarrow> 'b branchpoint \<Rightarrow> 'b set" where
  "loopBlocks post bp = set_option (bp_block bp) \<union> (if post then set_option (bp_block2 bp) else {})"

lemma loop_made:
  "site I v s0 w B (K(i \<mapsto> bp)) D e s \<Longrightarrow> B = loopBlocks post bp \<Longrightarrow> loopPoint post n bp \<Longrightarrow>
    \<exists>bp. loopPoint post n bp \<and> site I v s0 w (loopBlocks post bp) (K(i \<mapsto> bp)) D e s"
  by blast

lemma emitBeginWhile_site:
  assumes L: "emissionLaws v be"
  shows "yielding (site (ir be) v s0 w {} K D False) (emitBeginWhile be cond post)
    (\<lambda>pos s. \<exists>bp. loopPoint post (length w) bp \<and> site (ir be) v s0 w (loopBlocks post bp) (K(pos \<mapsto> bp)) D False s)"
proof (cases post)
  case True
  show ?thesis
    apply (simp only: emitBeginWhile_def True if_True andBind_assoc andBind_ext prod.case)
    apply (rule yielding_conj yielding_bind emissions [OF L] curContext_site)+
     apply (rule moveTo_site [OF emissionLawsD(1) [OF L]], simp)
    apply (rule yielding_conj yielding_bind emissions [OF L])+
    apply (rule moveTo_site [OF emissionLawsD(1) [OF L]], simp)
    apply (rule yielding_pre [OF yielding_yields])
    apply (rule loop_made, assumption; auto simp: loopBlocks_def loopPoint_def)
    done
next
  case False
  show ?thesis
    apply (simp only: emitBeginWhile_def False if_False andBind_assoc andBind_ext prod.case)
    apply (rule yielding_conj yielding_bind emissions [OF L] curContext_site)+
     apply (rule moveTo_site [OF emissionLawsD(1) [OF L]], simp)
    apply (rule yielding_conj yielding_bind emissions [OF L])+
    apply (rule moveTo_site [OF emissionLawsD(1) [OF L]], simp)
    apply (rule yielding_pre [OF yielding_yields])
    apply (rule loop_made, assumption; auto simp: loopBlocks_def loopPoint_def)
    done
qed

lemma branchEnds_site:
  assumes L: "emissionLaws v be"
  shows "yielding (site (ir be) v s0 w B K D e) (if e then yields () else branchTo be b) (\<lambda>_. site (ir be) v s0 w B K D True)"
  by (cases e) (simp_all add: yielding_pre [OF yielding_yields] emissions [OF L])

lemma emitEndWhile_site:
  assumes L: "emissionLaws v be" and "K pos = Some bp" and "loopPoint post n bp"
  shows "yielding (site (ir be) v s0 w (set_option (bp_block bp)) K D e) (emitEndWhile be pos e) (\<lambda>_. site (ir be) v s0 w {} K D False)"
proof -
  from assms(3) obtain a where a: "bp_block bp = Some a" by (auto simp: loopPoint_def)
  have jump: "yielding (site (ir be) v s0 w B K D e) (if e then yields () else andBind (existing p) (branchTo be))
      (\<lambda>_. site (ir be) v s0 w B K D True)" for B p
    by (cases e; simp)
      (rule yielding_pre [OF yielding_yields] yielding_bind existing_site yielding_conj emissions [OF L] | assumption)+
  show ?thesis unfolding emitEndWhile_def
    apply (rule yielding_bind, rule branchpoint_site, rule assms(2), rule yielding_conj)
    apply (rule yielding_bind, rule jump, rule yielding_bind, rule existing_site, rule yielding_conj)
    apply (rule yielding_consequence [OF moveTo_site [OF emissionLawsD(1) [OF L]]]; simp add: a)
    done
qed

lemma emitPostLoop_site:
  assumes L: "emissionLaws v be" and "K pos = Some bp" and "loopPoint True n bp"
  shows "yielding (site (ir be) v s0 w (loopBlocks True bp) K D e) (emitPostLoop be pos e)
    (\<lambda>_. site (ir be) v s0 w (set_option (bp_block bp)) K D False)"
proof -
  from assms(3) obtain a p where a: "bp_block bp = Some a" "bp_block2 bp = Some p" "a \<noteq> p" by (auto simp: loopPoint_def)
  then have eq: "loopBlocks True bp = {a, p}" by (auto simp: loopBlocks_def)
  show ?thesis unfolding emitPostLoop_def eq
    apply (rule yielding_bind, rule branchpoint_site, rule assms(2), rule yielding_conj)
    apply (rule yielding_if, rule yielding_throw)
    apply (rule yielding_bind, rule existing_site, rule yielding_conj)
    apply (rule yielding_bind, rule branchEnds_site [OF L])
    apply (rule yielding_consequence [OF moveTo_site [OF emissionLawsD(1) [OF L]]]; use a(3) in \<open>auto simp: a insert_Diff_if\<close>)
    done
qed

section \<open>Jumps\<close>

lemma keeps_cleanups:
  assumes L: "emissionLaws v be"
  shows "keeps (advances (ir be) v) (emitCleanupsTo be outer c)" "keeps (advances (ir be) v) (emitFunctionCleanups be c)"
proof -
  show "keeps (advances (ir be) v) (emitCleanupsTo be outer c)"
  proof (induction c)
    case (Cons f c)
    show ?case unfolding emitCleanupsTo.simps by (intro advance.keeps_rules emissionLawsD [OF L] Cons)
  qed (simp add: advance.keeps_basic)
  show "keeps (advances (ir be) v) (emitFunctionCleanups be c)"
  proof (induction c)
    case (Cons f c)
    show ?case unfolding emitFunctionCleanups.simps by (intro advance.keeps_rules emissionLawsD [OF L] Cons)
  qed (simp add: advance.keeps_basic)
qed

lemma emitBreak_site:
  assumes L: "emissionLaws v be"
  shows "yielding (site (ir be) v s0 w B K D False) (emitBreak be pos) (\<lambda>_. site (ir be) v s0 w B K D True)"
    "yielding (site (ir be) v s0 w B K D False) (emitContinue be pos) (\<lambda>_. site (ir be) v s0 w B K D True)"
  unfolding emitBreak_def emitContinue_def
  by (rule yielding_bind anyBranchpoint_site yielding_option yielding_throw curContext_site yielding_conj existing_site
    yielding_advances keeps_cleanups [OF L] emissions [OF L])+

lemma emitReturn_site:
  assumes L: "emissionLaws v be"
  shows "yielding (site (ir be) v s0 w B K D False) (emitReturn be x) (\<lambda>_. site (ir be) v s0 w B K D True)"
  unfolding emitReturn_def
  by (rule yielding_bind yielding_option curContext_site yielding_conj yielding_advances keeps_cleanups [OF L] emissions [OF L])+

lemma emitThrow_site:
  assumes L: "emissionLaws v be"
  shows "yielding (site (ir be) v s0 w B K D False) (emitThrow be x) (\<lambda>_. site (ir be) v s0 w B K D True)"
  unfolding emitThrow_def
  apply (rule yielding_conj yielding_bind emissions [OF L])+
   apply (rule moveTo_site [OF emissionLawsD(1) [OF L]], simp)
  apply (simp, rule emissions [OF L])
  done

end
