(* ===== verification/Catch_Flow.thy ===== *)
theory Catch_Flow
  imports Builder_Flow
begin

text \<open>
  The catch data of frames, and what the operations for exceptions do to the blocks.
\<close>

section \<open>Catch data\<close>

lemma map_filter_member: "i < length xs \<Longrightarrow> f (xs ! i) = Some k \<Longrightarrow> k \<in> set (List.map_filter f xs)"
proof -
  have "set (List.map_filter f xs) = {k. \<exists>x \<in> set xs. f x = Some k}"
    by (induction xs) (auto simp: List.map_filter_simps split: option.splits)
  then show "i < length xs \<Longrightarrow> f (xs ! i) = Some k \<Longrightarrow> k \<in> set (List.map_filter f xs)" by force
qed

lemma map_filter_inj:
  "distinct (List.map_filter f xs) \<Longrightarrow> i < length xs \<Longrightarrow> j < length xs \<Longrightarrow> f (xs ! i) = Some k \<Longrightarrow> f (xs ! j) = Some k \<Longrightarrow> i = j"
proof (induction xs arbitrary: i j)
  case (Cons x xs)
  show ?case
    using Cons map_filter_member [of _ xs f k]
    by (cases i; cases j) (auto simp: List.map_filter_simps split: option.splits)
qed simp

lemma map_filter_update_new:
  assumes "i < length xs" and "f (xs ! i) = None" and "f y = Some k"
  shows "set (List.map_filter f (xs[i := y])) = insert k (set (List.map_filter f xs))"
    "distinct (List.map_filter f xs) \<Longrightarrow> k \<notin> set (List.map_filter f xs) \<Longrightarrow> distinct (List.map_filter f (xs[i := y]))"
  using assms
proof (induction xs arbitrary: i)
  case (Cons x xs)
  { case 1 then show ?case using Cons(1) by (cases i) (auto simp: List.map_filter_simps split: option.splits) }
  { case 2 then show ?case using Cons by (cases i) (auto simp: List.map_filter_simps split: option.splits) }
qed simp_all

lemma branchesOk_same:
  "branchesOk bs c \<Longrightarrow> i < length c \<Longrightarrow> branchesOk bs (c[i := (c ! i)\<lparr>builderData := x\<rparr>])"
  by (induction c arbitrary: i) (auto split: nat.splits)

lemma dataAt_iff: "dataAt n k s \<longleftrightarrow> n < length (sem_ctx s) \<and> builderData (sem_ctx s ! (length (sem_ctx s) - Suc n)) = Some k"
  by (auto simp: dataAt_def rev_nth)

lemma dataOkD:
  assumes "dataOk s"
  shows "i < length (sem_ctx s) \<Longrightarrow> builderData (sem_ctx s ! i) = Some k \<Longrightarrow> k < length (catchDatas (sem_rest s))"
    "i < length (sem_ctx s) \<Longrightarrow> j < length (sem_ctx s) \<Longrightarrow> builderData (sem_ctx s ! i) = Some k \<Longrightarrow>
      builderData (sem_ctx s ! j) = Some k \<Longrightarrow> i = j"
  using assms map_filter_member [of i "sem_ctx s" builderData k] map_filter_inj [of builderData "sem_ctx s" i j k]
  unfolding dataOk_def by simp_all

lemma site_length: "site I v s0 w B K D e s \<Longrightarrow> length (sem_ctx s) = length w"
  by (auto simp: view_def dest: siteD(2))

lemma site_data: "site I v s0 w B K D e s \<Longrightarrow> dataAt n k s \<Longrightarrow> site I v s0 w B K (insert (n, k) D) e s"
  unfolding site_def by (elim conjE, intro conjI; (assumption | auto))

lemma contextData_made:
  assumes s: "site I v s0 w B K D e s" and i: "i < length (sem_ctx s)" and none: "builderData (sem_ctx s ! i) = None"
    and t: "t = s\<lparr>sem_ctx := (sem_ctx s)[i := (sem_ctx s ! i)\<lparr>builderData := Some (length (catchDatas (sem_rest s)))\<rparr>],
      sem_rest := (sem_rest s)\<lparr>catchDatas := catchDatas (sem_rest s) @ [emptyCatchData]\<rparr>\<rparr>"
  shows "site I v s0 w B K D e t"
proof -
  let ?k = "length (catchDatas (sem_rest s))"
  let ?f = "(sem_ctx s ! i)\<lparr>builderData := Some ?k\<rparr>"
  note a = s [unfolded site_def good_def]
  have old: "?k \<notin> set (List.map_filter builderData (sem_ctx s))" using a by (auto simp: dataOk_def)
  have "dataOk t" using a old map_filter_update_new [of i "sem_ctx s" builderData ?f ?k, OF i none]
    by (auto simp: dataOk_def t less_Suc_eq)
  moreover have "branchesOk (bps t) (sem_ctx t)" using a i by (simp add: t branchesOk_same)
  moreover have "view t = w"
  proof -
    have "plain ?f = plain (sem_ctx s ! i)" by (simp add: plain_def)
    moreover have "catchFlag (sem_rest t) ?f = catchFlag (sem_rest s) (sem_ctx s ! i)"
      using none by (simp add: t catchFlag_def emptyCatchData_def)
    moreover have "catchFlag (sem_rest t) (sem_ctx s ! j) = catchFlag (sem_rest s) (sem_ctx s ! j)" if "j < length (sem_ctx s)" for j
      using that a dataOkD(1) [of s j] by (auto simp: t catchFlag_def nth_append split: option.splits)
    ultimately have "view t = view s" using i by (intro nth_equalityI) (auto simp: view_def t nth_list_update)
    then show ?thesis using a by simp
  qed
  moreover have "dataAt n k s \<Longrightarrow> dataAt n k t" for n k
    using none i by (cases "i = length (sem_ctx s) - Suc n") (auto simp: dataAt_iff t)
  ultimately show ?thesis using a unfolding site_def good_def waits_def filled_def by (simp add: t)
qed

lemma contextData_site:
  assumes "length d \<le> length w"
  shows "yielding (site I v s0 w B K D e) (contextData d) (\<lambda>k. site I v s0 w B K (insert (length d - 1, k) D) e)"
proof (rule yieldingI)
  fix s k t assume s: "site I v s0 w B K D e s" and m: "contextData d s = Some (Inr (k, t))"
  let ?i = "length (sem_ctx s) - length d"
  from m have "d \<noteq> []" by (auto simp: contextData_def)
  then have i: "?i < length (sem_ctx s)" "length (sem_ctx s) - Suc (length d - 1) = ?i" "length d - 1 < length (sem_ctx s)"
    using assms site_length [OF s] by (cases d; simp)+
  show "site I v s0 w B K (insert (length d - 1, k) D) e t"
  proof (cases "builderData (sem_ctx s ! ?i)")
    case None
    with m \<open>d \<noteq> []\<close> have t: "k = length (catchDatas (sem_rest s))"
      "t = s\<lparr>sem_ctx := (sem_ctx s)[?i := (sem_ctx s ! ?i)\<lparr>builderData := Some (length (catchDatas (sem_rest s)))\<rparr>],
        sem_rest := (sem_rest s)\<lparr>catchDatas := catchDatas (sem_rest s) @ [emptyCatchData]\<rparr>\<rparr>"
      by (auto simp: contextData_def Let_def)
    from contextData_made [OF s i(1) None t(2)] show ?thesis
      by (rule site_data) (use i t in \<open>simp add: dataAt_iff\<close>)
  next
    case (Some j)
    with m \<open>d \<noteq> []\<close> have "t = s" "k = j" by (auto simp: contextData_def Let_def)
    with Some i show ?thesis by (intro site_data) (simp_all add: s dataAt_iff)
  qed
qed

lemma site_dataAt: "site I v s0 w B K D e s \<Longrightarrow> (n, k) \<in> D \<Longrightarrow> dataAt n k s"
  by (simp add: site_def)

lemma catchDataOf_site:
  assumes "(n, k) \<in> D"
  shows "yielding (site I v s0 w B K D e) (catchDataOf k)
    (\<lambda>d s. nonTerminal d = snd (w ! (length w - Suc n)) \<and> site I v s0 w B K D e s)"
proof (rule yieldingI)
  fix s d t assume s: "site I v s0 w B K D e s" and m: "catchDataOf k s = Some (Inr (d, t))"
  then have t: "t = s" "d = catchDatas (sem_rest s) ! k" by (auto simp: catchDataOf_def gets_def)
  from site_dataAt [OF s assms] site_length [OF s]
  have "n < length w" "builderData (sem_ctx s ! (length w - Suc n)) = Some k" by (simp_all add: dataAt_iff)
  then have "snd (view s ! (length w - Suc n)) = nonTerminal d"
    using site_length [OF s] by (simp add: view_def catchFlag_def t)
  then show "nonTerminal d = snd (w ! (length w - Suc n)) \<and> site I v s0 w B K D e t"
    using s siteD(2) [OF s] t by simp
qed

lemma setCatchData_site:
  assumes "(n, k) \<in> D"
  shows "yielding (site I v s0 w B K D e) (setCatchData k d)
    (\<lambda>_. site I v s0 (w[length w - Suc n := (fst (w ! (length w - Suc n)), nonTerminal d)]) B K D e)"
proof (rule yieldingI)
  fix s x t assume s: "site I v s0 w B K D e s" and m: "setCatchData k d s = Some (Inr (x, t))"
  then have t: "t = s\<lparr>sem_rest := (sem_rest s)\<lparr>catchDatas := (catchDatas (sem_rest s))[k := d]\<rparr>\<rparr>"
    by (auto simp: setCatchData_def modifies_def)
  let ?i = "length w - Suc n"
  note a = s [unfolded site_def good_def]
  from site_dataAt [OF s assms] site_length [OF s]
  have n: "n < length w" "builderData (sem_ctx s ! ?i) = Some k" "?i < length (sem_ctx s)" by (auto simp: dataAt_iff)
  then have k: "k < length (catchDatas (sem_rest s))" using a dataOkD(1) by blast
  have "dataOk t" using a by (simp add: t dataOk_def)
  moreover have "view t = w[?i := (fst (w ! ?i), nonTerminal d)]"
  proof (rule nth_equalityI)
    fix j assume "j < length (view t)"
    then have j: "j < length (sem_ctx s)" by (simp add: view_def t)
    have "catchFlag (sem_rest t) (sem_ctx s ! j) = (if j = ?i then nonTerminal d else catchFlag (sem_rest s) (sem_ctx s ! j))"
    proof (cases "j = ?i")
      case False
      have "builderData (sem_ctx s ! j) \<noteq> Some k" using False a dataOkD(2) [of s j ?i k] j n by auto
      then show ?thesis using False by (auto simp: t catchFlag_def nth_list_update split: option.splits)
    qed (use n k in \<open>simp add: t catchFlag_def\<close>)
    then show "view t ! j = w[?i := (fst (w ! ?i), nonTerminal d)] ! j"
      using siteD(2) [OF s] n j by (auto simp: view_def t)
  qed (use siteD(2) [OF s] in \<open>auto simp: view_def t\<close>)
  moreover have "dataAt n k t = dataAt n k s" for n k by (simp add: dataAt_def t)
  ultimately show "site I v s0 (w[?i := (fst (w ! ?i), nonTerminal d)]) B K D e t"
    using a unfolding site_def good_def waits_def filled_def by (simp add: t)
qed

section \<open>Try statements\<close>

lemma emitBeginTry_site:
  assumes L: "emissionLaws v be"
  shows "yielding (site (ir be) v s0 w {} K D e) (emitBeginTry be)
    (\<lambda>pos s. \<exists>b. site (ir be) v s0 w {b} (K(pos \<mapsto> \<lparr>bp_context = None, bp_block = Some b, bp_block2 = None, bp_block3 = None\<rparr>)) D e s)"
  unfolding emitBeginTry_def
  apply (rule yielding_conj yielding_bind emissions [OF L])+
  apply (rule yielding_consequence, rule emissions [OF L], elim conjE, rule exI, assumption)
  done

text \<open>The block of a try statement that waits: the switch before the first clause, then the block after it.\<close>

definition tryBlock :: "'b branchpoint \<Rightarrow> 'b set" where
  "tryBlock bp = set_option (case bp_block2 bp of None \<Rightarrow> bp_block bp | Some a \<Rightarrow> Some a)"

lemma beginCatches_site:
  assumes L: "emissionLaws v be" and "K pos = Some bp" and "bp_block bp = Some b"
  shows "yielding (site (ir be) v s0 w {b} K D e) (beginCatches be pos bp e)
    (\<lambda>_ s. \<exists>a. site (ir be) v s0 w {a} (K(pos \<mapsto> bp\<lparr>bp_block2 := Some a\<rparr>)) D True s)"
proof -
  show ?thesis unfolding beginCatches_def assms(3)
    apply (rule yielding_bind, rule emissions [OF L], rule yielding_conj)
    apply (rule yielding_bind, rule setBranchpoint_site, rule assms(2), simp)
    apply (rule yielding_bind, rule branchEnds_site [OF L])
    apply (rule yielding_bind, rule curContext_site, rule yielding_conj, rule yielding_if, rule yielding_throw)
    apply (rule yielding_bind, rule emissions [OF L])
    apply (rule yielding_bind, rule existing_site, rule yielding_conj, simp only: option.inject)
    apply (rule yielding_bind, rule moveTo_site [OF emissionLawsD(1) [OF L]], simp, simp add: insert_Diff_if)
    apply (rule yielding_bind, rule emissions [OF L])
    apply (rule yielding_consequence, rule emissions [OF L], rule exI, assumption)
    done
qed

lemma try_made:
  "site I v s0 w B (K(i \<mapsto> bp)) D e s \<Longrightarrow> B = tryBlock bp \<Longrightarrow> P bp \<Longrightarrow>
    \<exists>bp. P bp \<and> site I v s0 w (tryBlock bp) (K(i \<mapsto> bp)) D e s"
  by blast

lemma enterCatch_site:
  assumes L: "emissionLaws v be" and "K pos = Some bp" and "bp_block bp \<noteq> None"
  shows "yielding (site (ir be) v s0 w (tryBlock bp) K D e)
    (case bp_block2 bp of None \<Rightarrow> beginCatches be pos bp e | Some a \<Rightarrow> if e then yields () else branchTo be a)
    (\<lambda>_ s. \<exists>bp'. (bp_block bp' \<noteq> None \<and> bp_block2 bp' \<noteq> None) \<and> site (ir be) v s0 w (tryBlock bp') (K(pos \<mapsto> bp')) D True s)"
proof (cases "bp_block2 bp")
  case None
  from assms(3) obtain b where b: "bp_block bp = Some b" by blast
  show ?thesis unfolding tryBlock_def [of bp] None option.case b option.set
    apply (rule yielding_consequence [OF beginCatches_site [where K = K and pos = pos, OF L assms(2) b]], elim exE)
    apply (rule try_made, assumption, simp add: tryBlock_def, simp add: b)
    done
next
  case (Some a)
  have "K(pos \<mapsto> bp) = K" using assms(2) by auto
  then show ?thesis unfolding Some option.case
    by (intro yielding_consequence [OF branchEnds_site [OF L]] exI [of _ bp]) (simp add: Some assms(3))
qed

lemma own_index: "length c = length (y # w) \<Longrightarrow> length c - 1 = length w"
  by simp

lemma catch_made:
  "site I v s0 w (tryBlock bp) (K(i \<mapsto> bp)) D e s \<Longrightarrow> bp_block bp \<noteq> None \<and> bp_block2 bp \<noteq> None \<Longrightarrow>
    \<forall>(n, k) \<in> D. n < m \<Longrightarrow> \<exists>bp D. (bp_block bp \<noteq> None \<and> bp_block2 bp \<noteq> None \<and> (\<forall>(n, k) \<in> D. n < m)) \<and>
      site I v s0 w (tryBlock bp) (K(i \<mapsto> bp)) D e s"
  by blast

lemma emitCatch_site:
  assumes L: "emissionLaws v be" and "K pos = Some bp" and "bp_block bp \<noteq> None" and D: "\<forall>(n, k) \<in> D. n < Suc (length w)"
  shows "yielding (site (ir be) v s0 ((x, q) # w) (tryBlock bp) K D e) (emitCatch be pos t e)
    (\<lambda>_ s. \<exists>bp' D'. (bp_block bp' \<noteq> None \<and> bp_block2 bp' \<noteq> None \<and> (\<forall>(n, k) \<in> D'. n < Suc (length w))) \<and>
       site (ir be) v s0 ((x, q \<or> \<not> e) # w) (tryBlock bp') (K(pos \<mapsto> bp')) D' False s)"
proof -
  have D': "\<forall>(n, k) \<in> insert (length w, j) D. n < Suc (length w)" for j using D by auto
  show ?thesis unfolding emitCatch_def
    apply (rule yielding_bind, rule branchpoint_site, rule assms(2), rule yielding_conj, hypsubst)
    apply (rule yielding_bind, rule curContext_site, rule yielding_conj)
    apply (rule yielding_bind, rule contextData_site, simp, simp only: own_index)
    apply (rule yielding_bind, rule enterCatch_site [where K = K and pos = pos, OF L assms(2,3)], rule yielding_ex, rule yielding_conj)
    apply (rule yielding_bind, rule emissions [OF L], rule yielding_conj)
    apply (rule yielding_bind, rule moveTo_site [OF emissionLawsD(1) [OF L]], simp,
      simp only: Diff_insert_absorb not_False_eq_True)
    apply (rule yielding_bind, rule catchDataOf_site, rule insertI1, rule yielding_conj)
    apply (rule yielding_bind, rule setCatchData_site, rule insertI1)
    apply (rule yielding_consequence, rule emissions [OF L])
    apply (rule catch_made [where K = K and i = pos], simp, assumption, rule D')
    done
qed

lemma getCatch_length: "getCatch c = Some d \<Longrightarrow> length d \<le> length c \<and> d \<noteq> []"
  by (induction c) (auto split: if_splits)

text \<open>The catch data of the outer try statement gets the one of the inner.\<close>

lemma nestData_site:
  assumes "length outer \<le> length w" and "outer \<noteq> []" and D: "\<forall>(n, k) \<in> D. n < length w"
  shows "yielding (site I v s0 w B K D e)
    (andBind (contextData outer) (\<lambda>k'. andBind (catchDataOf k') (\<lambda>d. setCatchData k' (d\<lparr>nestedData := nestedData d @ [k]\<rparr>))))
    (\<lambda>_ s. \<exists>D'. (\<forall>(n, k) \<in> D'. n < length w) \<and> site I v s0 w B K D' e s)"
proof -
  have D': "\<forall>(n, k) \<in> insert (length outer - 1, j) D. n < length w" for j
    using D assms(1,2) by (cases outer) auto
  show ?thesis
    apply (rule yielding_bind, rule contextData_site [OF assms(1)])
    apply (rule yielding_bind, rule catchDataOf_site, rule insertI1, rule yielding_conj)
    apply (rule yielding_consequence, rule setCatchData_site, rule insertI1)
    apply (rule exI, rule conjI, rule D', simp)
    done
qed

lemma closeTry_site:
  assumes L: "emissionLaws v be"
  shows "yielding (site (ir be) v s0 w {a} K D True)
    (if b then moveTo be a else doLlvm (eraseFromParent (ir be) a)) (\<lambda>_. site (ir be) v s0 w {} K D (\<not> b))"
proof (cases b)
  case True
  show ?thesis using True
    by simp (rule yielding_consequence [OF moveTo_site [OF emissionLawsD(1) [OF L]]], simp_all)
next
  case False
  show ?thesis using False
    by simp (rule yielding_consequence [OF erase_site [OF emissionLawsD(1) [OF L]]], simp_all)
qed

lemma emitEndTry_site:
  assumes L: "emissionLaws v be" and "K pos = Some bp" and "bp_block2 bp \<noteq> None" and D: "\<forall>(n, k) \<in> D. n < Suc (length w)"
  shows "yielding (site (ir be) v s0 ((x, q) # w) (tryBlock bp) K D e) (emitEndTry be pos e)
    (\<lambda>_ s. \<exists>q' D'. (\<forall>(n, k) \<in> D'. n < Suc (length w)) \<and> site (ir be) v s0 ((x, q') # w) {} K D' (\<not> q \<and> e) s)"
proof -
  from assms(3) obtain a where a: "bp_block2 bp = Some a" by blast
  have D': "\<forall>(n, k) \<in> insert (length w, j) D. n < length (y # w)" for j y using D by auto
  have flag: "((x, q) # w)[length ((x, q) # w) - Suc (length w) :=
      (fst (((x, q) # w) ! (length ((x, q) # w) - Suc (length w))), b)] = (x, b) # w" for b by simp
  have top: "snd (((x, q) # w) ! (length ((x, q) # w) - Suc (length w))) = q" by simp
  show ?thesis unfolding emitEndTry_def tryBlock_def a option.case option.set Let_def
    apply (rule yielding_bind, rule branchpoint_site, rule assms(2), rule yielding_conj, hypsubst)
    apply (rule yielding_bind, rule curContext_site, rule yielding_conj)
    apply (rule yielding_bind, rule contextData_site, simp, simp only: own_index)
    apply (rule yielding_bind, rule existing_site, rule yielding_conj, simp only: a option.inject)
    apply (rule yielding_bind, rule branchEnds_site [OF L])
    apply (rule yielding_bind, rule catchDataOf_site, rule insertI1, rule yielding_conj, simp only: top)
    apply (rule yielding_bind, rule setCatchData_site, rule insertI1, simp only: flag)
    apply (rule yielding_bind, hypsubst, rule closeTry_site [OF L])
    apply (rule yielding_option, rule yielding_throw, rule yielding_if)
     apply (rule yielding_consequence, rule nestData_site)
        apply (use getCatch_length in force)
       apply (use getCatch_length in blast)
      apply (rule D')
     apply (elim exE conjE, rule exI, rule exI, rule conjI, simp, simp)
    apply (rule yielding_consequence, rule emissions [OF L])
    apply (rule exI, rule exI, rule conjI)
    prefer 2 apply simp
    apply (use D' in simp)
    done
qed

end
