(* ===== verification/Stmt_Keeps.thy ===== *)
theory Stmt_Keeps
  imports Parse_Stmt Catch_Flow
begin

text \<open>
  The parts of statements without blocks of their own: they leave the block being filled open, or do not
  touch it at all. Also the operations on the chain of contexts.
\<close>

section \<open>What statements are given\<close>

text \<open>
  Annotations, callbacks and documentation make no code in the function being parsed; definitions and
  expressions make code like the emission of expressions, and so does an import, which calls the main function
  of the module. The type of a catch clause is read when the block before it can have ended: then it must not
  make code. It would if a lookup in it imports a name lazily, or if it is a \<open>typeof\<close> that makes code.
\<close>

definition quietWhenEnded ::
  "('b, 'r) irBuilder \<Rightarrow> ('b, 'r) irView \<Rightarrow> (('b, 'r) bstate, 'a) parser \<Rightarrow> bool" where
  "quietWhenEnded I v m \<longleftrightarrow> (\<forall>s x t. isEnded v (ps_sem s) (here I (ps_sem s)) \<longrightarrow> m s = Some (Inr (x, t)) \<longrightarrow>
     semRel (quiet I v) s t)"

text \<open>What makes code as emission does, and none in a block that has ended, is quiet.\<close>

lemma quietWhenEnded_quiet:
  assumes "quietWhenEnded I v m" and "keeps (semRel (advances I v)) m"
  shows "keeps (semRel (quiet I v)) m"
proof (rule keepsI)
  fix s x t assume m: "m s = Some (Inr (x, t))"
  from keepsD [OF assms(2) m] have adv: "advances I v (ps_sem s) (ps_sem t)" by (simp add: semRel_def)
  show "semRel (quiet I v) s t"
  proof (cases "isEnded v (ps_sem s) (here I (ps_sem s))")
    case True
    with assms(1) m show ?thesis by (auto simp: quietWhenEnded_def)
  next
    case False
    with adv show ?thesis by (simp add: semRel_def advances_def quiet_def)
  qed
qed

lemma quiet_always: "keeps (semRel (quiet I v)) m \<Longrightarrow> quietWhenEnded I v m"
  by (auto simp: quietWhenEnded_def dest: keepsD)

definition stmtLaws :: "('b, 'r) irView \<Rightarrow> ('e, 'b, 'r) senv \<Rightarrow> bool" where
  "stmtLaws v se \<longleftrightarrow> emissionLaws v (be se) \<and> envKeeps (advances (ir (be se)) v) (pe se) \<and>
     keeps (quiet (ir (be se)) v) (popErrorContext (pe se)) \<and>
     keeps (semRel (quiet (ir (be se)) v)) (parseAnnotation (pe se)) \<and>
     quietWhenEnded (ir (be se)) v (parse (pe se) TypeSpec) \<and>
     (\<forall>ev. keeps (semRel (quiet (ir (be se)) v)) (runCallbacks se ev)) \<and>
     (\<forall>t. keeps (semRel (advances (ir (be se)) v)) (parseDef se t)) \<and>
     keeps (semRel (advances (ir (be se)) v)) (parseAlias se) \<and>
     keeps (semRel (advances (ir (be se)) v)) (parseConstDef se) \<and>
     (\<forall>nm d i e. keeps (advances (ir (be se)) v) (expandIteration se nm d i e)) \<and>
     (\<forall>t tok e. keeps (advances (ir (be se)) v) (emitExceptionVar se t tok e)) \<and>
     keeps (quiet (ir (be se)) v) (clearCleanups se)"

lemma stmtLawsD:
  assumes "stmtLaws v se"
  shows "emissionLaws v (be se)" "envKeeps (advances (ir (be se)) v) (pe se)"
    "keeps (quiet (ir (be se)) v) (popErrorContext (pe se))"
    "keeps (semRel (quiet (ir (be se)) v)) (parseAnnotation (pe se))"
    "quietWhenEnded (ir (be se)) v (parse (pe se) TypeSpec)"
    "keeps (semRel (quiet (ir (be se)) v)) (runCallbacks se ev)"
    "keeps (semRel (advances (ir (be se)) v)) (parseDef se t)"
    "keeps (semRel (advances (ir (be se)) v)) (parseAlias se)"
    "keeps (semRel (advances (ir (be se)) v)) (parseConstDef se)"
    "keeps (advances (ir (be se)) v) (expandIteration se nm d i e)"
    "keeps (advances (ir (be se)) v) (emitExceptionVar se t tok e)"
    "keeps (quiet (ir (be se)) v) (clearCleanups se)"
  using assms by (simp_all add: stmtLaws_def)

section \<open>Quiet parts\<close>

lemma quiet_reading:
  assumes S: "stmtLaws v se"
  shows "keeps (semRel (quiet (ir (be se)) v)) (nextToken (pe se))"
    "keeps (semRel (quiet (ir (be se)) v)) (endOfClause se msg)"
  unfolding endOfClause_def
  by (intro quietly.parser.keeps_rules quietly.keeps_reading quietly.keeps_nextToken stmtLawsD [OF S])+

lemmas quiet_rules = quietly.parser.keeps_rules quietly.keeps_reading quietly.keeps_token quietly.keeps_sem
  quietly.keeps_sems quietly.keeps_rules quiet_reading

lemma quiet_modules:
  assumes S: "stmtLaws v se"
  shows "keeps (semRel (quiet (ir (be se)) v)) (moduleNameLoop se parts tok)"
    "keeps (semRel (quiet (ir (be se)) v)) (importSymbols se imps locs)"
proof -
  show "keeps (semRel (quiet (ir (be se)) v)) (moduleNameLoop se parts tok)"
  proof (rule keeps_keptByI)
    fix s r assume "moduleNameLoop se parts tok s = Some r"
    then show "keptBy (semRel (quiet (ir (be se)) v)) s r"
      using S
    proof (induction rule: moduleNameLoop.raw_induct [rotated 1, consumes 1])
      case (1 loop se parts tok s r)
      note IH = keeps_keptByI [OF 1(1) [OF _ 1(3)]]
      show ?case by (rule keptByI [where m = "andBind _ _", OF _ 1(2)]) (intro quiet_rules 1(3) IH)
    qed
  qed
  show "keeps (semRel (quiet (ir (be se)) v)) (importSymbols se imps locs)"
  proof (rule keeps_keptByI)
    fix s r assume "importSymbols se imps locs s = Some r"
    then show "keptBy (semRel (quiet (ir (be se)) v)) s r"
      using S
    proof (induction rule: importSymbols.raw_induct [rotated 1, consumes 1])
      case (1 loop se imps locs s r)
      note IH = keeps_keptByI [OF 1(1) [OF _ 1(3)]]
      show ?case by (rule keptByI [where m = "andBind _ _", OF _ 1(2)]) (intro quiet_rules 1(3) IH)
    qed
  qed
qed

lemma quiet_imports:
  assumes S: "stmtLaws v se"
  shows "keeps (semRel (quiet (ir (be se)) v)) (parseModuleName se parts)"
    "keeps (semRel (quiet (ir (be se)) v)) (importSource se)"
  unfolding importSource_def parseModuleName_def
  by (intro quiet_rules quiet_modules assms)+

lemma quiet_iterationForm:
  assumes S: "stmtLaws v se"
  shows "keeps (semRel (quiet (ir (be se)) v)) (iterationForm se tok)"
  unfolding iterationForm_def by (intro quiet_rules assms)

lemma quiet_blockAgain:
  assumes S: "stmtLaws v se"
  shows "keeps (semRel (quiet (ir (be se)) v)) (blockAgain se ev tok)"
  unfolding blockAgain_def by (intro quiet_rules stmtLawsD [OF S] assms)

section \<open>Parts that make code\<close>

lemma quiet_makes: "keeps (semRel (quiet I v)) m \<Longrightarrow> keeps (semRel (advances I v)) m"
  by (erule keeps_weaken) (auto simp: semRel_def intro: quiet_advances)

lemma advances_parse: "stmtLaws v se \<Longrightarrow> keeps (semRel (advances (ir (be se)) v)) (parse (pe se) task)"
  by (rule advance.keeps_parse, rule stmtLawsD(2))

lemmas advance_rules = advance.parser.keeps_rules advance.keeps_reading advance.keeps_token advance.keeps_sem
  advance.keeps_sems advance.keeps_rules quiet_reading [THEN quiet_makes] advance.keeps_results advances_parse
  quiet_modules [THEN quiet_makes] quiet_imports [THEN quiet_makes] quiet_iterationForm [THEN quiet_makes]

lemma advances_emitAlone:
  assumes S: "stmtLaws v se"
  shows "keeps (advances (ir (be se)) v) (emitAlone se e)"
  unfolding emitAlone_def by (intro advance.keeps_rules emissionLawsD stmtLawsD(1) [OF S])

lemma advances_clause:
  assumes S: "stmtLaws v se"
  shows "keeps (semRel (advances (ir (be se)) v)) (expression se)"
    "keeps (semRel (advances (ir (be se)) v)) (finishClause se e)"
    "keeps (semRel (advances (ir (be se)) v)) (parseClause se b)"
  unfolding parseClause_def finishClause_def expression_def parseExpression_def Let_def
  by (intro advance_rules advances_emitAlone stmtLawsD [OF S] quiet_makes [OF stmtLawsD(6) [OF S]] assms)+

lemma advances_heads:
  assumes S: "stmtLaws v se"
  shows "keeps (semRel (advances (ir (be se)) v)) (parseCondExpr se)"
    "keeps (semRel (advances (ir (be se)) v)) (parenthesized se m1 m2)"
    "keeps (semRel (advances (ir (be se)) v)) (parseForHead se)"
    "keeps (semRel (advances (ir (be se)) v)) (parseImportStmt se n False)"
  unfolding parseForHead_def parseForClauses_def parseIteration_def parenthesized_def parseCondExpr_def parseImportStmt_def
  by (intro advance_rules advances_clause advance.keeps_emitImport advance.envKeeps_importer stmtLawsD [OF S] assms)+

lemma quiet_typeSpec: "stmtLaws v se \<Longrightarrow> keeps (semRel (quiet (ir (be se)) v)) (parse (pe se) TypeSpec)"
  by (rule quietWhenEnded_quiet [OF stmtLawsD(5) advances_parse])

end
