(* ===== verification/Stmt_Flow.thy ===== *)
theory Stmt_Flow
  imports Stmt_Keeps
begin

text \<open>
  Statements and the blocks of the builder: a statement ends the block being filled exactly when it yields
  a terminal context, so nothing is emitted into a block that is ended, and no block is left open.
\<close>

section \<open>Where control goes\<close>

text \<open>
  The lengths of the contexts that a jump out of a context can go to: those with a branchpoint, and the one
  around the function. A statement can also name a context that is gone, a longer one.
\<close>

fun targets :: "frame list \<Rightarrow> nat set" where
  "targets [] = {}"
| "targets (f # c) =
     (if breakBranch f \<noteq> None \<or> continueBranch f \<noteq> None \<or> catchBranch f \<noteq> None then {Suc (length c)} else {}) \<union>
     (if toplevel f then {length c} else targets c)"

definition leaves :: "frame list \<Rightarrow> ctx option \<Rightarrow> bool" where
  "leaves c t \<longleftrightarrow> (\<forall>d. t = Some d \<longrightarrow> length c < length d \<or> length d \<in> targets c)"

definition inFunction :: "frame list \<Rightarrow> bool" where
  "inFunction c \<longleftrightarrow> (\<exists>g d. getToplevel c = Some (g # d) \<and> d \<noteq> [])"

text \<open>A context in a function whose own frame has no branchpoints: that of a block.\<close>

definition placed :: "frame list \<Rightarrow> bool" where
  "placed c \<longleftrightarrow> inFunction c \<and> (\<exists>f d. c = f # d \<and> breakBranch f = None \<and> continueBranch f = None \<and> catchBranch f = None)"

lemma targets_le: "n \<in> targets c \<Longrightarrow> n \<le> length c"
  by (induction c) (auto split: if_splits)

lemma placed_leaves: "placed c \<Longrightarrow> leaves c (Some d) \<Longrightarrow> length d \<noteq> length c"
proof -
  assume "placed c" and l: "leaves c (Some d)"
  then obtain f da where c: "c = f # da" "breakBranch f = None" "continueBranch f = None" "catchBranch f = None"
    by (auto simp: placed_def)
  have "n \<noteq> Suc (length da)" if "n \<in> targets da" for n using targets_le [OF that] by simp
  with l show "length d \<noteq> length c" by (auto simp: leaves_def c split: if_splits)
qed

lemma leaves_None [simp]: "leaves c None"
  by (simp add: leaves_def)

text \<open>Out of an inner context.\<close>

lemma leaves_inner: "leaves (f # c) t \<Longrightarrow> \<not> toplevel f \<Longrightarrow> leaves c t"
  by (auto simp: leaves_def split: if_splits)

lemma inFunction_inner: "inFunction c \<Longrightarrow> \<not> toplevel f \<Longrightarrow> inFunction (f # c)"
  by (auto simp: inFunction_def)

lemma inFunction_same: "toplevel f = toplevel g \<Longrightarrow> inFunction (f # c) = inFunction (g # c)"
  by (auto simp: inFunction_def)

lemma plain_simps [simp]:
  "scope (plain f) = scope f" "ns (plain f) = ns f" "toplevel (plain f) = toplevel f" "terminal (plain f) = terminal f"
  "breakBranch (plain f) = breakBranch f" "continueBranch (plain f) = continueBranch f"
  "catchBranch (plain f) = catchBranch f"
  by (simp_all add: plain_def)

lemma targets_plain: "targets (map plain c) = targets c"
  by (induction c) simp_all

lemma getToplevel_plain: "getToplevel (map plain c) = map_option (map plain) (getToplevel c)"
  by (induction c) simp_all

lemma inFunction_plain: "inFunction (map plain c) = inFunction c"
proof -
  have "getToplevel c = Some [] \<Longrightarrow> False" by (induction c) (auto split: if_splits)
  then show ?thesis by (auto simp: inFunction_def getToplevel_plain Cons_eq_map_conv)
qed

lemma branches_target:
  "getBreak c = Some b \<or> getContinue c = Some b \<Longrightarrow> branchesOk bs c \<Longrightarrow>
    b < length bs \<and> (\<exists>d. bp_context (bs ! b) = Some d \<and> length d \<in> targets c)"
  by (induction c) (auto split: option.splits if_splits)

lemma catch_target:
  "inFunction c \<Longrightarrow> getCatch c = Some d \<Longrightarrow> \<exists>t. nonNull (if toplevel (hd d) then tl d else d) = Some t \<and> length t \<in> targets c"
proof (induction c)
  case (Cons f c)
  then show ?case
    by (auto simp: inFunction_def nonNull_def split: if_splits)
qed simp

lemma return_target:
  "inFunction c \<Longrightarrow> getToplevel c = Some d \<Longrightarrow> \<exists>t. nonNull (tl d) = Some t \<and> length t \<in> targets c"
proof (induction c)
  case (Cons f c)
  then show ?case by (auto simp: inFunction_def nonNull_def split: if_splits)
qed simp

section \<open>Triples on the states of the parser\<close>

definition at :: "('c sems \<Rightarrow> bool) \<Rightarrow> 'c pstate \<Rightarrow> bool" where
  "at P s \<longleftrightarrow> P (ps_sem s)"

lemma at_sem: "yielding P m Q \<Longrightarrow> yielding (at P) (sem m) (\<lambda>x. at (Q x))"
proof (rule yieldingI)
  fix s x t assume "yielding P m Q" "at P s" "sem m s = Some (Inr (x, t))"
  then show "at (Q x) t"
    by (cases "m (ps_sem s)"; cases "the (m (ps_sem s))") (auto simp: sem_def onPart_def at_def yielding_def)
qed

lemma at_conj: "(b \<Longrightarrow> yielding (at P) m Q) \<Longrightarrow> yielding (at (\<lambda>s. b \<and> P s)) m Q"
  by (auto simp: yielding_def at_def)

lemma at_ex: "(\<And>y. yielding (at (P y)) m Q) \<Longrightarrow> yielding (at (\<lambda>s. \<exists>y. P y s)) m Q"
  by (auto simp: yielding_def at_def)

lemma at_quiet: "keeps (semRel (quiet I v)) m \<Longrightarrow> yielding (at (site I v s0 w B K D e)) m (\<lambda>_. at (site I v s0 w B K D e))"
  by (erule yielding_keeps) (auto simp: at_def semRel_def intro: quiet_site)

lemma at_advances:
  "keeps (semRel (advances I v)) m \<Longrightarrow> yielding (at (site I v s0 w B K D False)) m (\<lambda>_. at (site I v s0 w B K D False))"
  by (erule yielding_keeps) (auto simp: at_def semRel_def intro: advances_site)

lemma at_consequence: "yielding P m (\<lambda>x. at (Q x)) \<Longrightarrow> (\<And>x s. Q x s \<Longrightarrow> Q' x s) \<Longrightarrow> yielding P m (\<lambda>x. at (Q' x))"
  by (auto simp: yielding_def at_def)

lemma at_yields: "(\<And>s. P s \<Longrightarrow> Q x s) \<Longrightarrow> yielding (at P) (yields x) (\<lambda>x. at (Q x))"
  by (simp add: yielding_def at_def yields_def)

text \<open>What holds from every state holds in the middle.\<close>

lemma at_rebase_ex:
  assumes "\<And>s0. length (sem_ctx s0) = length w \<Longrightarrow>
      yielding (at (site I v s0 w {} Map.empty {} e)) m (\<lambda>t. at (\<lambda>s. \<exists>y. P t y \<and> site I v s0 (w' y) {} Map.empty {} (q t) s))"
  shows "yielding (at (site I v s0 w B K D e)) m (\<lambda>t. at (\<lambda>s. \<exists>y. P t y \<and> site I v s0 (w' y) B K D (q t) s))"
proof (rule yieldingI)
  fix s t u assume s: "at (site I v s0 w B K D e) s" and m: "m s = Some (Inr (t, u))"
  then have st: "site I v s0 w B K D e (ps_sem s)" by (simp add: at_def)
  from siteD [OF this] have "site I v (ps_sem s) w {} Map.empty {} e (ps_sem s)" by (metis site_start)
  then have "\<exists>y. P t y \<and> site I v (ps_sem s) (w' y) {} Map.empty {} (q t) (ps_sem u)"
    using yieldingD [OF assms [of "ps_sem s"] _ m] site_length [OF st] by (simp add: at_def)
  then show "at (\<lambda>s. \<exists>y. P t y \<and> site I v s0 (w' y) B K D (q t) s) u" using site_frame [OF st] by (auto simp: at_def)
qed

lemma at_rebase:
  assumes "\<And>s0. length (sem_ctx s0) = length w \<Longrightarrow>
      yielding (at (site I v s0 w {} Map.empty {} e)) m (\<lambda>t. at (\<lambda>s. P t \<and> site I v s0 w' {} Map.empty {} (q t) s))"
  shows "yielding (at (site I v s0 w B K D e)) m (\<lambda>t. at (\<lambda>s. P t \<and> site I v s0 w' B K D (q t) s))"
proof -
  have "yielding (at (site I v s0 w B K D e)) m (\<lambda>t. at (\<lambda>s. \<exists>y :: unit. P t \<and> site I v s0 w' B K D (q t) s))"
    by (rule at_rebase_ex) (simp add: assms)
  then show ?thesis by simp
qed

section \<open>The chain of contexts\<close>

lemma pushContext_site:
  "yielding (site I v s0 w B K D e) (pushContext nm same)
    (\<lambda>_ s. \<exists>x. (\<not> toplevel x \<and> \<not> terminal x \<and> breakBranch x = None \<and> continueBranch x = None \<and> catchBranch x = None) \<and>
       site I v s0 ((x, False) # w) B K D e s)"
proof (rule yieldingI)
  fix s y t assume s: "site I v s0 w B K D e s" and m: "pushContext nm same s = Some (Inr (y, t))"
  then obtain f c d h where d: "createSubContext (scope f) None nm (if same then compileNS f else None) (f # c) (sem_store s) = Inr (d, h)"
    "sem_ctx s = f # c" "t = s\<lparr>sem_ctx := d, sem_store := h\<rparr>"
    by (auto simp: pushContext_def split: list.splits sum.splits)
  from advance.createSubContext_frame [OF d(1)] obtain a k where
    c: "d = (newFrame (scope f) (Some a) (Some k))\<lparr>ctx_returnType := ctx_returnType f\<rparr> # sem_ctx s" using d(2) by auto
  let ?x = "(newFrame (scope f) (Some a) (Some k))\<lparr>ctx_returnType := ctx_returnType f\<rparr>"
  have "site I v s0 ((plain ?x, False) # w) B K D e t"
    unfolding d(3) c by (rule site_push [OF s]) (simp_all add: newFrame_def)
  moreover have "\<not> toplevel (plain ?x) \<and> \<not> terminal (plain ?x) \<and> breakBranch (plain ?x) = None \<and>
      continueBranch (plain ?x) = None \<and> catchBranch (plain ?x) = None" by (simp add: newFrame_def)
  ultimately show "\<exists>x. (\<not> toplevel x \<and> \<not> terminal x \<and> breakBranch x = None \<and> continueBranch x = None \<and> catchBranch x = None) \<and>
       site I v s0 ((x, False) # w) B K D e t" by blast
qed

lemma popContext_site:
  "length (sem_ctx s0) \<le> length w \<Longrightarrow>
    yielding (site I v s0 (y # w) B K {} e) popContext (\<lambda>_. site I v s0 w B K {} e)"
  by (cases y, rule yieldingI) (auto simp: popContext_def modifies_def intro: site_pop)

lemma popContext_data:
  "length (sem_ctx s0) \<le> length w \<Longrightarrow> \<forall>(n, k) \<in> D. n < length w \<Longrightarrow>
    yielding (site I v s0 (y # w) B K D e) popContext (\<lambda>_. site I v s0 w B K D e)"
  by (cases y, rule yieldingI) (auto simp: popContext_def modifies_def intro: site_pop)

lemma topFrame: "site I v s0 ((x, q) # w) B K D e s \<Longrightarrow> \<exists>f c. sem_ctx s = f # c \<and> plain f = x"
  by (auto simp: view_def dest!: siteD(2))

lemma onFrame_site:
  assumes "\<And>f. plain (g f) = h (plain f)" and "\<And>f. builderData (g f) = builderData f"
    and "\<And>b. breakBranch (h x) = Some b \<or> continueBranch (h x) = Some b \<Longrightarrow>
      (breakBranch x = Some b \<or> continueBranch x = Some b) \<or> (\<exists>bp d. K b = Some bp \<and> bp_context bp = Some d \<and> length d = Suc (length w))"
  shows "yielding (site I v s0 ((x, q) # w) B K D e) (onFrame g) (\<lambda>_. site I v s0 ((h x, q) # w) B K D e)"
proof (rule yieldingI)
  fix s y t assume s: "site I v s0 ((x, q) # w) B K D e s" and m: "onFrame g s = Some (Inr (y, t))"
  from topFrame [OF s] obtain f c where f: "sem_ctx s = f # c" "plain f = x" by blast
  have t: "t = s\<lparr>sem_ctx := g f # c\<rparr>" using m f by (simp add: onFrame_def)
  have len: "length c = length w" using site_length [OF s] f by simp
  have same: "breakBranch (g f) = breakBranch (h x)" "continueBranch (g f) = continueBranch (h x)"
    using assms(1) [of f] f(2) plain_simps(5,6) [of "g f"] by simp_all
  have old: "breakBranch f = breakBranch x" "continueBranch f = continueBranch x" using f(2) by auto
  have "site I v s0 ((plain (g f), q) # w) B K D e t" unfolding t
  proof (rule site_top [OF s f(1) assms(2)])
    fix b assume "breakBranch (g f) = Some b \<or> continueBranch (g f) = Some b"
    with assms(3) [of b] same consider "breakBranch x = Some b \<or> continueBranch x = Some b"
      | bp d where "K b = Some bp" "bp_context bp = Some d" "length d = Suc (length w)" by auto
    then show "b < length (bps s) \<and> (\<exists>d. bp_context (bps s ! b) = Some d \<and> length d = Suc (length w))"
    proof cases
      case 1
      have "branchesOk (bps s) (f # c)" using siteD(1) [OF s] f(1) by (simp add: good_def)
      with 1 old len show ?thesis by auto
    next
      case 2
      with s show ?thesis unfolding site_def by auto
    qed
  qed
  then show "site I v s0 ((h x, q) # w) B K D e t" using assms(1) f(2) by simp
qed

lemma curFrame_site:
  "yielding (site I v s0 ((x, q) # w) B K D e) curFrame (\<lambda>f s. plain f = x \<and> site I v s0 ((x, q) # w) B K D e s)"
  by (rule yieldingI) (auto simp: curFrame_def dest: topFrame split: list.splits)

lemma curContext_plain:
  "yielding (site I v s0 w B K D e) curContext (\<lambda>c s. map plain c = map fst w \<and> site I v s0 w B K D e s)"
  by (rule yieldingI) (auto simp: curContext_def gets_def view_def dest: siteD(2))

section \<open>What a statement does\<close>

definition statementFlow :: "('b, 'r) irBuilder \<Rightarrow> ('b, 'r) irView \<Rightarrow> ('b, 'r, ctx option) sparser \<Rightarrow> bool" where
  "statementFlow I v m \<longleftrightarrow> (\<forall>s0 w. length (sem_ctx s0) = length w \<and> placed (map fst w) \<longrightarrow>
     yielding (at (site I v s0 w {} Map.empty {} False)) m
       (\<lambda>t. at (\<lambda>s. leaves (map fst w) t \<and> site I v s0 w {} Map.empty {} (t \<noteq> None) s)))"

definition blockFlow :: "('b, 'r) irBuilder \<Rightarrow> ('b, 'r) irView \<Rightarrow> ctx option \<Rightarrow> ('b, 'r, ctx option) sparser \<Rightarrow> bool" where
  "blockFlow I v ended m \<longleftrightarrow> (\<forall>s0 x q w. length (sem_ctx s0) = Suc (length w) \<and> placed (x # map fst w) \<and>
       (terminal x \<longleftrightarrow> ended \<noteq> None) \<and> leaves (x # map fst w) ended \<longrightarrow>
     yielding (at (site I v s0 ((x, q) # w) {} Map.empty {} (ended \<noteq> None))) m
       (\<lambda>t. at (\<lambda>s. \<exists>y. leaves (x # map fst w) t \<and> site I v s0 ((x\<lparr>terminal := y\<rparr>, q) # w) {} Map.empty {} (t \<noteq> None) s)))"

text \<open>
  The clauses of a try statement: the terminal context so far tells whether a block before the last one goes
  on after the statement, which the catch data has as well.
\<close>

definition clausesStart :: "'b branchpoint \<Rightarrow> ctx option \<Rightarrow> bool \<Rightarrow> bool \<Rightarrow> bool" where
  "clausesStart bp ended was q \<longleftrightarrow> bp_block bp \<noteq> None \<and> (ended = None \<longleftrightarrow> q \<or> \<not> was) \<and> (bp_block2 bp = None \<longrightarrow> \<not> q)"

definition clausesFlow :: "('b, 'r) irBuilder \<Rightarrow> ('b, 'r) irView \<Rightarrow> nat \<Rightarrow> ctx option \<Rightarrow> bool \<Rightarrow> ('b, 'r, ctx option) sparser \<Rightarrow> bool" where
  "clausesFlow I v pos ended was m \<longleftrightarrow> (\<forall>s0 x q w K D bp. length (sem_ctx s0) \<le> length w \<and> \<not> toplevel x \<and>
       placed (x # map fst w) \<and> leaves (map fst w) ended \<and> K pos = Some bp \<and> clausesStart bp ended was q \<and>
       (\<forall>(n, k) \<in> D. n < Suc (length w)) \<longrightarrow>
     yielding (at (site I v s0 ((x, q) # w) (tryBlock bp) K D was)) m
       (\<lambda>t. at (\<lambda>s. \<exists>q'. leaves (map fst w) t \<and> site I v s0 ((x, q') # w) {} Map.empty {} (t \<noteq> None) s)))"

definition flows :: "('b, 'r) irView \<Rightarrow> ('e, 'b, 'r) senv \<Rightarrow> stask \<Rightarrow> ('b, 'r, ctx option) sparser \<Rightarrow> bool" where
  "flows v se task m \<longleftrightarrow> (case task of
     Statement _ \<Rightarrow> statementFlow (ir (be se)) v m
   | Block _ _ ended \<Rightarrow> blockFlow (ir (be se)) v ended m
   | CatchClauses pos ended was \<Rightarrow> clausesFlow (ir (be se)) v pos ended was m)"

lemma use_statement:
  "flows v se (Statement d) m \<Longrightarrow> placed (map fst w) \<Longrightarrow> yielding (at (site (ir (be se)) v s0 w B K D False)) m
    (\<lambda>t. at (\<lambda>s. leaves (map fst w) t \<and> site (ir (be se)) v s0 w B K D (t \<noteq> None) s))"
  by (rule at_rebase) (simp add: flows_def statementFlow_def)

lemma use_block:
  "flows v se (Block n ev ended) m \<Longrightarrow> placed (x # map fst w) \<Longrightarrow> terminal x \<longleftrightarrow> ended \<noteq> None \<Longrightarrow> leaves (x # map fst w) ended \<Longrightarrow>
    yielding (at (site (ir (be se)) v s0 ((x, q) # w) B K D (ended \<noteq> None))) m
    (\<lambda>t. at (\<lambda>s. \<exists>y. leaves (x # map fst w) t \<and> site (ir (be se)) v s0 ((x\<lparr>terminal := y\<rparr>, q) # w) B K D (t \<noteq> None) s))"
  by (rule at_rebase_ex) (simp add: flows_def blockFlow_def)

lemma use_clauses:
  assumes "flows v se (CatchClauses pos ended was) m" and "length (sem_ctx s0) \<le> length w" "\<not> toplevel x"
    "placed (x # map fst w)" "leaves (map fst w) ended" "K pos = Some bp" "clausesStart bp ended was q"
    "\<forall>(n, k) \<in> D. n < Suc (length w)"
  shows "yielding (at (site (ir (be se)) v s0 ((x, q) # w) (tryBlock bp) K D was)) m
    (\<lambda>t. at (\<lambda>s. \<exists>q'. leaves (map fst w) t \<and> site (ir (be se)) v s0 ((x, q') # w) {} Map.empty {} (t \<noteq> None) s))"
  using assms unfolding flows_def stask.case clausesFlow_def by blast

section \<open>Conditionals and loops\<close>

lemma parseIfClause_site:
  fixes v :: "('b, 'r) irView"
  assumes S: "stmtLaws v se" and rec: "\<And>task. flows v se task (rec task)" and w: "inFunction (map fst w)"
  shows "yielding (at (site (ir (be se)) v s0 w B K D False)) (parseIfClause se rec)
    (\<lambda>t. at (\<lambda>s. leaves (map fst w) t \<and> site (ir (be se)) v s0 w B K D (t \<noteq> None) s))"
proof (rule at_rebase)
  fix s0 :: "('b, 'r) bstate sems" assume len: "length (sem_ctx s0) = length w"
  note quiet = at_quiet [OF quiet_reading(1) [OF S]]
  have body: "yielding (at (site (ir (be se)) v s0 ((x, False) # w) {} Map.empty {} False))
      (if tok_is T_lcurly tok then rec (Block True NoCallbacks None) else andBind (unread tok) (\<lambda>_. rec (Statement False)))
      (\<lambda>t. at (\<lambda>s. \<exists>y. leaves (map fst w) t \<and> site (ir (be se)) v s0 (y # w) {} Map.empty {} (t \<noteq> None) s))"
    if x: "\<not> toplevel x \<and> \<not> terminal x \<and> breakBranch x = None \<and> continueBranch x = None \<and> catchBranch x = None" for x tok
  proof -
    have p: "placed (x # map fst w)" using x w by (auto simp: placed_def inFunction_inner)
    have block: "yielding (at (site (ir (be se)) v s0 ((x, False) # w) {} Map.empty {} False)) (rec (Block True NoCallbacks None))
        (\<lambda>t. at (\<lambda>s. \<exists>y. leaves (x # map fst w) t \<and>
          site (ir (be se)) v s0 ((x\<lparr>terminal := y\<rparr>, False) # w) {} Map.empty {} (t \<noteq> None) s))"
      using use_block [OF rec [of "Block True NoCallbacks None"] p, of s0 False "{}" Map.empty "{}"] x by simp
    have stmt: "yielding (at (site (ir (be se)) v s0 ((x, False) # w) {} Map.empty {} False)) (rec (Statement False))
        (\<lambda>t. at (\<lambda>s. leaves (x # map fst w) t \<and> site (ir (be se)) v s0 ((x, False) # w) {} Map.empty {} (t \<noteq> None) s))"
      using use_statement [OF rec [of "Statement False"], of "(x, False) # w"] p by simp
    show ?thesis
      apply (rule yielding_if)
       apply (rule at_consequence [OF block], elim exE conjE, rule exI, rule conjI, erule leaves_inner, simp add: x, assumption)
      apply (rule yielding_bind, rule at_quiet, rule quietly.keeps_reading)
      apply (rule at_consequence [OF stmt], elim conjE, rule exI, rule conjI, erule leaves_inner, simp add: x, assumption)
      done
  qed
  show "yielding (at (site (ir (be se)) v s0 w {} Map.empty {} False)) (parseIfClause se rec)
    (\<lambda>t. at (\<lambda>s. leaves (map fst w) t \<and> site (ir (be se)) v s0 w {} Map.empty {} (t \<noteq> None) s))"
    unfolding parseIfClause_def
    apply (rule yielding_bind, rule quiet)
    apply (rule yielding_bind, rule at_quiet, rule quietly.keeps_token, simp)
    apply (rule yielding_bind, rule at_quiet, rule quietly.parser.keeps_basic)
    apply (rule yielding_bind, rule at_sem, rule pushContext_site, rule at_ex, rule at_conj)
    apply (rule yielding_bind, rule body, assumption, rule at_ex, rule at_conj)
    apply (rule yielding_bind, rule at_sem, rule popContext_site, simp add: len)
    apply (rule at_yields, simp)
    done
qed

lemma absorbFlags_site: "yielding (site I v s0 w B K D e) absorbFlags (\<lambda>_. site I v s0 w B K D e)"
proof (rule yieldingI)
  fix s x t assume s: "site I v s0 w B K D e s" and m: "absorbFlags s = Some (Inr (x, t))"
  then obtain f p c where c: "sem_ctx s = f # p # c"
    "t = s\<lparr>sem_ctx := f # p\<lparr>nextFuncFlags := nextFuncFlags f, nextClassFlags := nextClassFlags f\<rparr> # c\<rparr>"
    by (auto simp: absorbFlags_def split: list.splits)
  let ?p = "p\<lparr>nextFuncFlags := nextFuncFlags f, nextClassFlags := nextClassFlags f\<rparr>"
  note a = siteD(1,2) [OF s]
  have "List.map_filter builderData (f # ?p # c) = List.map_filter builderData (sem_ctx s)"
    by (simp add: c List.map_filter_simps split: option.split)
  then have "dataOk (s\<lparr>sem_ctx := f # ?p # c\<rparr>)" using a by (simp add: good_def dataOk_def)
  then have "site I v s0 w B K D e (s\<lparr>sem_ctx := f # ?p # c, sem_store := sem_store s\<rparr>)"
    by (rule site_ctx [OF s])
      (use a c in \<open>auto simp: good_def view_def plain_def catchFlag_def dataAt_def nth_append nth_Cons'\<close>)
  then show "site I v s0 w B K D e t" using c(2) by simp
qed

lemma innermost_cases: "innermost c d = c \<or> innermost c d = d"
  by (simp add: innermost_def)

lemma at_token:
  assumes "stmtLaws v se"
  shows "yielding (at (site (ir (be se)) v s0 w B K D e)) (nextToken (pe se)) (\<lambda>_. at (site (ir (be se)) v s0 w B K D e))"
    "yielding (at (site (ir (be se)) v s0 w B K D e)) (rawToken (pe se)) (\<lambda>_. at (site (ir (be se)) v s0 w B K D e))"
    "yielding (at (site (ir (be se)) v s0 w B K D e)) (unread tok) (\<lambda>_. at (site (ir (be se)) v s0 w B K D e))"
  by (rule at_quiet quiet_reading(1) [OF assms] quietly.keeps_reading)+

lemma parseIfStmt_site:
  fixes v :: "('b, 'r) irView"
  assumes S: "stmtLaws v se" and rec: "\<And>task. flows v se task (rec task)" and w: "inFunction (map fst w)"
    and len: "length (sem_ctx s0) \<le> length w"
  shows "yielding (at (site (ir (be se)) v s0 w {} Map.empty {} False)) (parseIfStmt se rec)
    (\<lambda>t. at (\<lambda>s. leaves (map fst w) t \<and> site (ir (be se)) v s0 w {} Map.empty {} (t \<noteq> None) s))"
proof -
  note L = stmtLawsD(1) [OF S]
  let ?site = "site (ir (be se)) v s0"
  have ends: "yielding (at (\<lambda>s. \<exists>K'. ?site (y # w) {} K' {} (t1 \<noteq> None \<and> t2 \<noteq> None) s))
      (andBind (sem absorbFlags) (\<lambda>_. andBind (case (t1, t2) of (Some c, Some d) \<Rightarrow> yields (Some (innermost c d))
         | _ \<Rightarrow> andBind (sem curContext) (\<lambda>c. andBind (sem (closeAllCleanupsStatic (be se) c)) (\<lambda>_. yields None))) (\<lambda>ended.
       andBind (sem popContext) (\<lambda>_. yields ended))))
      (\<lambda>t. at (\<lambda>s. leaves (map fst w) t \<and> ?site w {} Map.empty {} (t \<noteq> None) s))"
    if l: "leaves (map fst w) t1" "leaves (map fst w) t2" for y t1 t2
  proof -
    have fin: "leaves (map fst w) t \<and> ?site w {} Map.empty {} (t \<noteq> None) s"
      if "?site w {} K' {} b s" "b = (t \<noteq> None)" "leaves (map fst w) t" for t s K' b
      using that by (auto elim: site_less)
    have close: "yielding (at (?site (y # w) {} K' {} False)) (andBind (sem curContext) (\<lambda>c.
        andBind (sem (closeAllCleanupsStatic (be se) c)) (\<lambda>_. yields None))) (\<lambda>t. at (\<lambda>s. t = None \<and> ?site (y # w) {} K' {} False s))" for K'
      by (rule yielding_bind, rule at_sem, rule curContext_site, rule at_conj, rule yielding_bind, rule at_sem,
        rule emissions [OF L], rule at_yields, simp)
    show ?thesis
      apply (rule at_ex, rule yielding_bind, rule at_sem, rule absorbFlags_site)
      apply (cases t1; cases t2; simp only: prod.case option.case option.distinct not_True_eq_False simp_thms)
      apply (rule yielding_bind, rule close, rule at_conj, rule yielding_bind, rule at_sem, rule popContext_site [OF len], rule at_yields, erule fin, simp, simp)+
      apply (simp only: andBind_ext, rule yielding_bind, rule at_sem, rule popContext_site [OF len], rule at_yields, erule fin, simp)
      using l innermost_cases by (metis leaves_def option.inject)
  qed
  have elsePart: "yielding (at (?site ((x, False) # w) (set_option (bp_block bp)) [pos \<mapsto> bp] {} (t1 \<noteq> None)))
      (if tok_is T_elseKw tok then
         andBind (sem (emitElse (be se) pos (t1 \<noteq> None))) (\<lambda>_.
         andBind (parseIfClause se rec) (\<lambda>t2.
         andBind (sem (emitEndIf (be se) pos (t2 \<noteq> None))) (\<lambda>_. yields t2)))
       else
         andBind (unread tok) (\<lambda>_.
         andBind (sem (emitEndIf (be se) pos (t1 \<noteq> None))) (\<lambda>_. yields None)))
      (\<lambda>t2. at (\<lambda>s. leaves (map fst w) t2 \<and> (\<exists>K'. ?site ((x, False) # w) {} K' {} (t1 \<noteq> None \<and> t2 \<noteq> None) s)))"
    if x: "\<not> toplevel x" and bp: "bp_block bp \<noteq> None" for x bp pos t1 tok
    apply (rule yielding_if)
     apply (rule yielding_bind, rule at_sem, rule emitElse_site [OF L], rule fun_upd_same, rule bp, rule at_ex, rule at_conj)
     apply (rule yielding_bind, rule parseIfClause_site [OF S rec], simp add: inFunction_inner w x, rule at_conj)
     apply (rule yielding_bind, rule at_sem, rule emitEndIf_site [OF L], rule fun_upd_same, rule at_yields)
     apply (rule conjI, rule leaves_inner, simp, simp add: x, simp)
    apply (rule yielding_bind, rule at_token [OF S])
    apply (rule yielding_bind, rule at_sem, rule emitEndIf_site [OF L], rule fun_upd_same, rule at_yields)
    apply (simp add: bp)
    done
  show ?thesis unfolding parseIfStmt_def
    apply (rule yielding_bind, rule at_sem, rule pushContext_site, rule at_ex, rule at_conj)
    apply (rule yielding_bind, rule at_advances, rule advances_heads [OF S])
    apply (rule yielding_bind, rule at_sem, rule emitIf_site [OF L], rule at_ex, rule at_conj)
    apply (rule yielding_bind, rule parseIfClause_site [OF S rec], simp add: inFunction_inner w, rule at_conj)
    apply (rule yielding_bind, rule at_token [OF S])
    apply (rule yielding_bind, rule elsePart, blast, assumption, rule at_conj)
    apply (rule ends, rule leaves_inner, simp, simp, assumption)
    done
qed

lemma setLoop_site:
  assumes "K pos = Some bp" and "loopPoint post (Suc (length w)) bp"
  shows "yielding (site I v s0 ((x, q) # w) B K D e) (setLoop pos)
    (\<lambda>_. site I v s0 ((x\<lparr>breakBranch := Some pos, continueBranch := Some pos\<rparr>, q) # w) B K D e)"
  unfolding setLoop_def
proof (rule onFrame_site [where h = "\<lambda>f. f\<lparr>breakBranch := Some pos, continueBranch := Some pos\<rparr>"])
  show "plain (f\<lparr>breakBranch := Some pos, continueBranch := Some pos\<rparr>) =
      (plain f)\<lparr>breakBranch := Some pos, continueBranch := Some pos\<rparr>" for f by (simp add: plain_def)
qed (use assms in \<open>auto simp: loopPoint_def\<close>)

text \<open>The body of a loop.\<close>

lemma loopBody_site:
  fixes v :: "('b, 'r) irView"
  assumes S: "stmtLaws v se" and rec: "\<And>task. flows v se task (rec task)" and w: "inFunction (map fst w)" and x: "\<not> toplevel x"
  shows "yielding (at (site (ir (be se)) v s0 ((x, False) # w) B K D False)) (parseIfClause se rec)
    (\<lambda>t. at (site (ir (be se)) v s0 ((x, False) # w) B K D (t \<noteq> None)))"
  by (rule at_consequence [OF parseIfClause_site [OF S rec]]) (simp_all add: inFunction_inner w x)

lemma parseWhileStmt_site:
  fixes v :: "('b, 'r) irView"
  assumes S: "stmtLaws v se" and rec: "\<And>task. flows v se task (rec task)" and w: "inFunction (map fst w)"
    and len: "length (sem_ctx s0) \<le> length w"
  shows "yielding (at (site (ir (be se)) v s0 w {} Map.empty {} False)) (parseWhileStmt se rec)
    (\<lambda>_. at (site (ir (be se)) v s0 w {} Map.empty {} False))"
proof -
  note L = stmtLawsD(1) [OF S]
  show ?thesis unfolding parseWhileStmt_def
    apply (rule yielding_bind, rule at_sem, rule pushContext_site, rule at_ex, rule at_conj)
    apply (rule yielding_bind, rule at_advances, rule advances_heads [OF S])
    apply (rule yielding_bind, rule at_sem, rule emitBeginWhile_site [OF L], rule at_ex, rule at_conj)
    apply (rule yielding_bind, rule at_sem, rule setLoop_site, rule fun_upd_same, simp)
    apply (rule yielding_bind, rule loopBody_site [OF S rec w], simp)
    apply (rule yielding_bind, rule at_sem, simp only: loopBlocks_def if_False Un_empty_right,
      rule emitEndWhile_site [OF L], rule fun_upd_same, assumption)
    apply (rule at_consequence [OF at_sem [OF popContext_site [OF len]]])
    apply (erule site_less; simp)
    done
qed

lemma parseForStmt_site:
  fixes v :: "('b, 'r) irView"
  assumes S: "stmtLaws v se" and rec: "\<And>task. flows v se task (rec task)" and w: "inFunction (map fst w)"
    and len: "length (sem_ctx s0) \<le> length w"
  shows "yielding (at (site (ir (be se)) v s0 w {} Map.empty {} False)) (parseForStmt se rec)
    (\<lambda>_. at (site (ir (be se)) v s0 w {} Map.empty {} False))"
proof -
  note L = stmtLawsD(1) [OF S]
  note alone = at_advances [OF advance.keeps_sem [OF advances_emitAlone [OF S]]]
  let ?site = "site (ir (be se)) v s0"
  have after: "yielding (at (?site w1 (loopBlocks (after \<noteq> None) bp) K {} (t \<noteq> None)))
      (case after of
         Some e \<Rightarrow> andBind (sem (emitPostLoop (be se) pos (t \<noteq> None))) (\<lambda>_. andBind (sem (emitAlone se e)) (\<lambda>_. yields None))
       | None \<Rightarrow> yields t)
      (\<lambda>t'. at (?site w1 (set_option (bp_block bp)) K {} (t' \<noteq> None)))"
    if K: "K pos = Some bp" and bp: "loopPoint (after \<noteq> None) n bp" for w1 after bp K t pos n
  proof (cases after)
    case None
    show ?thesis unfolding None option.case by (rule at_yields) (simp add: loopBlocks_def)
  next
    case (Some e)
    show ?thesis unfolding Some option.case
      apply (rule yielding_bind, rule at_sem, simp only: option.distinct not_False_eq_True, rule emitPostLoop_site [OF L], rule K)
       apply (use bp Some in simp)
      apply (rule yielding_bind, rule alone, rule at_yields, simp)
      done
  qed
  have close: "yielding (at (?site (y # w) {} K {} False)) (andBind (sem curContext) (\<lambda>c.
        andBind (sem (closeAllCleanupsStatic (be se) c)) (\<lambda>_. sem popContext))) (\<lambda>_. at (?site w {} Map.empty {} False))" for K y
    apply (rule yielding_bind, rule at_sem, rule curContext_site, rule at_conj, rule yielding_bind, rule at_sem, rule emissions [OF L])
    apply (rule at_consequence [OF at_sem [OF popContext_site [OF len]]])
    apply (erule site_less; simp)
    done
  show ?thesis unfolding parseForStmt_def
    apply (rule yielding_bind, rule at_sem, rule pushContext_site, rule at_ex, rule at_conj)
    apply (rule yielding_bind, rule at_token [OF S], rule yielding_if, simp only: unexpected_def, rule yielding_throw)
    apply (rule yielding_bind, rule at_advances, rule advances_heads [OF S], rule yielding_prod, rule yielding_prod)
    apply (rule yielding_bind, rule at_sem, rule emitBeginWhile_site [OF L], rule at_ex, rule at_conj)
    apply (rule yielding_bind, rule at_sem, rule setLoop_site, rule fun_upd_same, simp)
    apply (rule yielding_bind [where M = "\<lambda>_. at (?site _ _ _ {} False)"], rule yielding_option, rule at_yields, assumption, rule alone)
    apply (rule yielding_bind, rule loopBody_site [OF S rec w], simp)
    apply (rule yielding_bind, rule after, rule fun_upd_same, assumption)
    apply (rule yielding_bind, rule at_sem, rule emitEndWhile_site [OF L], rule fun_upd_same, assumption)
    apply (rule close)
    done
qed

section \<open>Jumps\<close>

lemma jumpTo_site:
  assumes S: "stmtLaws v se"
    and jump: "\<And>b. yielding (site (ir (be se)) v s0 w {} Map.empty {} False) (jump b) (\<lambda>_. site (ir (be se)) v s0 w {} Map.empty {} True)"
    and c: "map plain c = map fst w" and target: "getBreak c = branch \<or> getContinue c = branch"
  shows "yielding (at (site (ir (be se)) v s0 w {} Map.empty {} False)) (jumpTo se tok branch msg jump)
    (\<lambda>t. at (\<lambda>s. leaves (map fst w) t \<and> site (ir (be se)) v s0 w {} Map.empty {} (t \<noteq> None) s))"
proof -
  have found: "yielding (site (ir (be se)) v s0 w {} Map.empty {} True) (branchpoint b)
      (\<lambda>bp s. (\<exists>d. bp_context bp = Some d \<and> length d \<in> targets (map fst w)) \<and> site (ir (be se)) v s0 w {} Map.empty {} True s)"
    if "branch = Some b" for b
  proof (rule yieldingI)
    fix s bp t assume s: "site (ir (be se)) v s0 w {} Map.empty {} True s" and m: "branchpoint b s = Some (Inr (bp, t))"
    then have t: "t = s" "bp = bps s ! b" by (auto simp: branchpoint_def split: if_splits)
    have same: "map plain (sem_ctx s) = map plain c" using siteD(2) [OF s] c by (auto simp: view_def)
    have "getBreak (map plain d) = getBreak d \<and> getContinue (map plain d) = getContinue d" for d
      by (induction d) (auto split: option.split)
    then have "getBreak (sem_ctx s) = Some b \<or> getContinue (sem_ctx s) = Some b" using target that same by metis
    then have "\<exists>d. bp_context bp = Some d \<and> length d \<in> targets (sem_ctx s)"
      using branches_target siteD(1) [OF s] by (auto simp: t good_def)
    then show "(\<exists>d. bp_context bp = Some d \<and> length d \<in> targets (map fst w)) \<and> site (ir (be se)) v s0 w {} Map.empty {} True t"
      using s t same c targets_plain by metis
  qed
  show ?thesis unfolding jumpTo_def
    apply (rule yielding_option, rule yielding_throw)
    apply (rule yielding_bind, rule at_sem, rule jump)
    apply (rule yielding_bind, rule at_token [OF S])
    apply (rule yielding_bind [where M = "\<lambda>_. at (site (ir (be se)) v s0 w {} Map.empty {} True)"])
     apply (rule yielding_if, rule at_token [OF S], rule at_yields, assumption)
    apply (rule yielding_bind, rule at_sem, rule found, assumption, rule at_conj)
    apply (rule yielding_option, rule yielding_throw, rule at_yields)
    apply (auto simp: leaves_def)
    done
qed

lemma parseJump_site:
  assumes S: "stmtLaws v se"
  shows "yielding (at (site (ir (be se)) v s0 w {} Map.empty {} False)) (parseBreak se tok)
      (\<lambda>t. at (\<lambda>s. leaves (map fst w) t \<and> site (ir (be se)) v s0 w {} Map.empty {} (t \<noteq> None) s))"
    "yielding (at (site (ir (be se)) v s0 w {} Map.empty {} False)) (parseContinue se tok)
      (\<lambda>t. at (\<lambda>s. leaves (map fst w) t \<and> site (ir (be se)) v s0 w {} Map.empty {} (t \<noteq> None) s))"
  unfolding parseBreak_def parseContinue_def
  by (rule yielding_bind, rule at_sem, rule curContext_plain, rule at_conj, rule jumpTo_site [OF S], rule emitBreak_site [OF stmtLawsD(1) [OF S]],
    assumption, simp)+

lemma returnValue_site:
  assumes S: "stmtLaws v se"
  shows "yielding (site (ir (be se)) v s0 w B K D False) (returnValue se tok e) (\<lambda>_. site (ir (be se)) v s0 w B K D True)"
proof -
  have frame: "yielding (site I v s0 w B K D e) curFrame (\<lambda>f. site I v s0 w B K D e)" for I e
    by (rule yieldingI) (auto simp: curFrame_def split: list.splits)
  show ?thesis unfolding returnValue_def
    by (rule yielding_bind frame yielding_option yielding_throw yielding_if yielding_advances [OF advances_emitAlone [OF S]]
      emitReturn_site [OF stmtLawsD(1) [OF S]])+
qed

lemma parseReturnStmt_site:
  assumes S: "stmtLaws v se"
  shows "yielding (at (site (ir (be se)) v s0 w B K D False)) (parseReturnStmt se) (\<lambda>_. at (site (ir (be se)) v s0 w B K D True))"
proof -
  have void: "keeps (quiet I v) (returnsVoid se)" for I
    unfolding returnsVoid_def by (intro quietly.keeps_rules) (auto simp: curFrame_def keeps_def intro: quietly.kept_refl split: list.splits)
  show ?thesis unfolding parseReturnStmt_def
    apply (rule yielding_bind, rule at_token [OF S])
    apply (rule yielding_bind [where M = "\<lambda>_. at (site (ir (be se)) v s0 w B K D False)"])
     apply (rule yielding_if, rule at_token [OF S], rule at_yields, assumption)
    apply (rule yielding_if)
     apply (rule yielding_bind, rule at_sem, rule yielding_quiet, rule void)
     apply (rule yielding_if, rule yielding_throw, rule at_sem, rule emitReturn_site [OF stmtLawsD(1) [OF S]])
    apply (rule yielding_bind, rule at_token [OF S])
    apply (rule yielding_bind, rule at_advances, rule advances_clause [OF S])
    apply (rule yielding_bind, rule at_sem, rule returnValue_site [OF S])
    apply (rule at_quiet, rule quiet_reading [OF S])
    done
qed

lemma leaving_site:
  assumes "inFunction (map fst w)"
  shows "yielding (site I v s0 w B K D True) curContext
    (\<lambda>c s. (inFunction c \<and> targets c = targets (map fst w)) \<and> site I v s0 w B K D True s)"
  by (rule yielding_consequence [OF curContext_plain]) (metis assms inFunction_plain targets_plain)

lemma parseReturn_site:
  assumes S: "stmtLaws v se" and w: "inFunction (map fst w)"
  shows "yielding (at (site (ir (be se)) v s0 w {} Map.empty {} False)) (parseReturn se tok)
    (\<lambda>t. at (\<lambda>s. leaves (map fst w) t \<and> site (ir (be se)) v s0 w {} Map.empty {} (t \<noteq> None) s))"
proof -
  have frame: "yielding (site I v s0 w B K D e) curFrame (\<lambda>f. site I v s0 w B K D e)" for I B K D e
    by (rule yieldingI) (auto simp: curFrame_def split: list.splits)
  show ?thesis unfolding parseReturn_def
    apply (rule yielding_bind, rule at_sem, rule frame, rule yielding_if, rule yielding_throw)
    apply (rule yielding_bind, rule parseReturnStmt_site [OF S])
    apply (rule yielding_bind, rule at_sem, rule leaving_site [OF w], rule at_conj)
    apply (rule yielding_option, rule yielding_throw, rule at_yields)
    apply (use return_target in \<open>fastforce simp: leaves_def\<close>)
    done
qed

lemma parseThrowStmt_site:
  assumes S: "stmtLaws v se" and w: "inFunction (map fst w)"
  shows "yielding (at (site (ir (be se)) v s0 w {} Map.empty {} False)) (parseThrowStmt se)
    (\<lambda>t. at (\<lambda>s. leaves (map fst w) t \<and> site (ir (be se)) v s0 w {} Map.empty {} (t \<noteq> None) s))"
proof -
  have derived: "yielding (site I v s0 w B K D e) (returning f) (\<lambda>_. site I v s0 w B K D e)" for I B K D e f
    by (rule yielding_quiet, rule quietly.keeps_basic)
  show ?thesis unfolding parseThrowStmt_def unexpected_def
    apply (rule yielding_bind, rule at_token [OF S], rule yielding_if, rule yielding_throw)
    apply (rule yielding_bind, rule at_token [OF S])
    apply (rule yielding_bind, rule at_advances, rule advances_clause [OF S], rule yielding_option, rule yielding_throw)
    apply (rule yielding_bind, rule at_sem, rule derived, rule yielding_if, rule yielding_throw)
    apply (rule yielding_bind, rule at_token [OF S], rule yielding_if, rule yielding_throw)
    apply (rule yielding_bind, rule at_sem, rule emitThrow_site [OF stmtLawsD(1) [OF S]])
    apply (rule yielding_bind, rule at_sem, rule leaving_site [OF w], rule at_conj)
    apply (rule yielding_option, rule yielding_throw, rule at_yields)
    apply (use catch_target in \<open>fastforce simp: leaves_def\<close>)
    done
qed

section \<open>Try statements\<close>

lemma setCatch_site:
  "yielding (site I v s0 ((x, q) # w) B K D e) (setCatch pos) (\<lambda>_. site I v s0 ((x\<lparr>catchBranch := pos\<rparr>, q) # w) B K D e)"
  unfolding setCatch_def
proof (rule onFrame_site [where h = "\<lambda>f. f\<lparr>catchBranch := pos\<rparr>"])
  show "plain (f\<lparr>catchBranch := pos\<rparr>) = (plain f)\<lparr>catchBranch := pos\<rparr>" for f by (simp add: plain_def)
qed auto

text \<open>A block in a new context.\<close>

lemma innerBlock_site:
  assumes rec: "\<And>task. flows v se task (rec task)" and w: "inFunction (map fst w)" and x: "\<not> toplevel x \<and> \<not> terminal x \<and>
    breakBranch x = None \<and> continueBranch x = None \<and> catchBranch x = None"
  shows "yielding (at (site (ir (be se)) v s0 ((x, False) # w) B K D False)) (rec (Block True NoCallbacks None))
    (\<lambda>t. at (\<lambda>s. \<exists>y. leaves (map fst w) t \<and> site (ir (be se)) v s0 (y # w) B K D (t \<noteq> None) s))"
proof -
  have "placed (x # map fst w)" using x w by (auto simp: placed_def inFunction_inner)
  from use_block [OF rec [of "Block True NoCallbacks None"] this, of s0 False B K D] x
  have "yielding (at (site (ir (be se)) v s0 ((x, False) # w) B K D False)) (rec (Block True NoCallbacks None))
    (\<lambda>t. at (\<lambda>s. \<exists>y. leaves (x # map fst w) t \<and> site (ir (be se)) v s0 ((x\<lparr>terminal := y\<rparr>, False) # w) B K D (t \<noteq> None) s))"
    by simp
  then show ?thesis
    by (rule at_consequence) (elim exE conjE, rule exI, rule conjI, erule leaves_inner, simp add: x, assumption)
qed

lemma parseTryStmt_site:
  fixes v :: "('b, 'r) irView"
  assumes S: "stmtLaws v se" and rec: "\<And>task. flows v se task (rec task)" and w: "inFunction (map fst w)"
    and len: "length (sem_ctx s0) \<le> length w"
  shows "yielding (at (site (ir (be se)) v s0 w {} Map.empty {} False)) (parseTryStmt se rec)
    (\<lambda>t. at (\<lambda>s. leaves (map fst w) t \<and> site (ir (be se)) v s0 w {} Map.empty {} (t \<noteq> None) s))"
proof -
  note L = stmtLawsD(1) [OF S]
  let ?site = "site (ir (be se)) v s0"
  let ?bp = "\<lambda>b. \<lparr>bp_context = None, bp_block = Some b, bp_block2 = None, bp_block3 = None\<rparr>"
  have clauses: "yielding (at (?site ((x, False) # w) {b} [pos \<mapsto> ?bp b] {} (t \<noteq> None)))
      (andBind (rec (CatchClauses pos t (t \<noteq> None))) (\<lambda>ended. andBind (sem popContext) (\<lambda>_. yields ended)))
      (\<lambda>t. at (\<lambda>s. leaves (map fst w) t \<and> ?site w {} Map.empty {} (t \<noteq> None) s))"
    if x: "\<not> toplevel x" "placed (x # map fst w)" and t: "leaves (map fst w) t" for x b pos t
  proof -
    have block: "{b} = tryBlock (?bp b)" by (simp add: tryBlock_def)
    show ?thesis unfolding block
      apply (rule yielding_bind, rule use_clauses [OF rec len x t], rule fun_upd_same, simp add: clausesStart_def, simp)
      apply (rule at_ex, rule at_conj, rule yielding_bind, rule at_sem, rule popContext_site [OF len], rule at_yields, simp)
      done
  qed
  show ?thesis unfolding parseTryStmt_def unexpected_def
    apply (rule yielding_bind, rule at_token [OF S], rule yielding_if, rule yielding_throw)
    apply (rule yielding_bind, rule at_sem, rule emitBeginTry_site [OF L], rule at_ex)
    apply (rule yielding_bind, rule at_sem, rule pushContext_site, rule at_ex, rule at_conj)
    apply (rule yielding_bind, rule at_sem, rule setCatch_site)
    apply (rule yielding_bind, rule at_sem, rule pushContext_site, rule at_ex, rule at_conj)
    apply (rule yielding_bind, rule innerBlock_site [OF rec], simp add: inFunction_inner w, assumption, rule at_ex, rule at_conj)
    apply (rule yielding_bind, rule at_sem, rule popContext_site, simp add: len le_SucI)
    apply (rule yielding_bind, rule at_sem, rule setCatch_site)
    apply (rule yielding_bind, rule at_token [OF S], rule yielding_if, rule yielding_throw)
    apply (rule clauses, simp, simp add: placed_def inFunction_inner w, rule leaves_inner, simp, simp)
    done
qed

text \<open>The catch clauses: the block before ends, and the statement goes on when one of its blocks does.\<close>

lemma withCatch_None: "withCatch t u = None \<longleftrightarrow> t = None \<or> u = None"
  by (auto simp: withCatch_def split: option.split)

lemma withCatch_leaves: "leaves c t \<Longrightarrow> leaves c u \<Longrightarrow> leaves c (withCatch t u)"
  by (auto simp: withCatch_def leaves_def split: option.split)

lemma catchHead_site:
  assumes S: "stmtLaws v se" and "K pos = Some bp" and "bp_block bp \<noteq> None" and D: "\<forall>(n, k) \<in> D. n < Suc (length w)"
  shows "yielding (at (site (ir (be se)) v s0 ((x, q) # w) (tryBlock bp) K D was)) (catchHead se pos was)
    (\<lambda>_. at (\<lambda>s. \<exists>bp' D'. (bp_block bp' \<noteq> None \<and> bp_block2 bp' \<noteq> None \<and> (\<forall>(n, k) \<in> D'. n < Suc (length w))) \<and>
       site (ir (be se)) v s0 ((x, q \<or> \<not> was) # w) (tryBlock bp') (K(pos \<mapsto> bp')) D' False s))"
proof -
  have spec: "keeps (semRel (quiet (ir (be se)) v)) (defOf (parse (pe se)) TypeSpec)"
    unfolding defOf_def wrongResult_def
    by (rule quietly.parser.keeps_bind [OF quiet_typeSpec [OF S]]) (simp add: quietly.parser.keeps_basic split: result.split)
  show ?thesis unfolding catchHead_def unexpected_def
    apply (rule yielding_bind, rule at_token [OF S], rule yielding_if, rule yielding_throw)
    apply (rule yielding_bind, rule at_quiet, rule spec)
    apply (rule yielding_bind, rule at_token [OF S], rule yielding_if, rule yielding_throw)
    apply (rule yielding_bind, rule at_sem, rule emitCatch_site [where K = K and pos = pos, OF stmtLawsD(1) [OF S] assms(2,3) D])
    apply (rule at_ex, rule at_ex, rule at_conj)
    apply (rule yielding_bind, rule at_token [OF S], rule yielding_if, rule yielding_throw)
    apply (rule yielding_bind, rule at_token [OF S], rule yielding_if, rule yielding_throw)
    apply (rule at_yields, blast)
    done
qed

lemma catchBody_flow:
  fixes v :: "('b, 'r) irView"
  assumes S: "stmtLaws v se" and rec: "\<And>task. flows v se task (rec task)"
  shows "clausesFlow (ir (be se)) v pos ended was (catchBody se rec pos ended was)"
  unfolding clausesFlow_def
proof (intro allI impI, elim conjE)
  fix s0 :: "('b, 'r) bstate sems" and x q and D :: "(nat \<times> nat) set" and w :: "(frame \<times> bool) list" and K :: "nat \<rightharpoonup> 'b branchpoint" and bp
  assume len: "length (sem_ctx s0) \<le> length w" and x: "\<not> toplevel x" and p: "placed (x # map fst w)"
    and e: "leaves (map fst w) ended" and K: "K pos = Some bp" and start: "clausesStart bp ended was q"
    and D: "\<forall>(n, k) \<in> D. n < Suc (length w)"
  have block: "bp_block bp \<noteq> None" using start by (simp add: clausesStart_def)
  have p': "inFunction (x # map fst w)" using p by (simp add: placed_def)
  note adv = yielding_advances
  have ended: "withCatch ended t \<noteq> None \<longleftrightarrow> \<not> (q \<or> \<not> was) \<and> t \<noteq> None" for t
    using start by (auto simp: clausesStart_def withCatch_None)
  show "yielding (at (site (ir (be se)) v s0 ((x, q) # w) (tryBlock bp) K D was)) (catchBody se rec pos ended was)
    (\<lambda>t. at (\<lambda>s. \<exists>q'. leaves (map fst w) t \<and> site (ir (be se)) v s0 ((x, q') # w) {} Map.empty {} (t \<noteq> None) s))"
    unfolding catchBody_def
    apply (rule yielding_bind, rule catchHead_site [where K = K and pos = pos, OF S K block D], rule at_ex, rule at_ex, rule at_conj)
    apply (rule yielding_prod, rule yielding_prod)
    apply (rule yielding_bind, rule at_sem, rule pushContext_site, rule at_ex, rule at_conj)
    apply (rule yielding_bind, rule at_sem, rule adv, rule stmtLawsD(11) [OF S])
    apply (rule yielding_bind, rule at_sem, rule adv, rule emissionLawsD(10) [OF stmtLawsD(1) [OF S]])
    apply (rule yielding_bind, rule innerBlock_site [OF rec], simp add: p', assumption, rule at_ex, rule at_conj)
    apply (rule yielding_bind, rule at_sem, rule popContext_data, simp add: len le_SucI, simp)
    apply (rule yielding_bind, rule at_token [OF S], rule yielding_if)
     apply (rule use_clauses [OF rec len x p], rule withCatch_leaves [OF e], rule leaves_inner, simp, rule x, rule fun_upd_same)
      apply (use start in \<open>auto simp: clausesStart_def withCatch_None\<close>)[2]
    apply (rule yielding_bind, rule at_token [OF S])
    apply (rule yielding_bind, rule at_sem, rule emitEndTry_site [OF stmtLawsD(1) [OF S]], rule fun_upd_same, simp, simp)
    apply (rule at_ex, rule at_ex, rule at_conj, rule at_yields)
    apply (rule exI, rule conjI, rule withCatch_leaves [OF e], rule leaves_inner, simp, rule x)
    apply (rule site_less, subst ended, simp, simp_all)
    done
qed

end
