(* ===== verification/Stmt_Blocks.thy ===== *)
theory Stmt_Blocks
  imports Stmt_Flow
begin

text \<open>
  Blocks and statements as the parser composes them, and the recursion: every statement and every block keeps
  the blocks of the function well formed.
\<close>

section \<open>Statements\<close>

lemma control_site:
  assumes S: "stmtLaws v se" and "yielding (at (site (ir (be se)) v s0 w B K D e)) m Q"
  shows "yielding (at (site (ir (be se)) v s0 w B K D e)) (andBind (runCallbacks se ev) (\<lambda>_. m)) Q"
  by (rule yielding_bind, rule at_quiet, rule stmtLawsD(6) [OF S], rule assms(2))

lemma never_site:
  assumes "yielding P m (\<lambda>_. at (site I v s0 w {} Map.empty {} False))"
  shows "yielding P (andBind m (\<lambda>_. yields None)) (\<lambda>t. at (\<lambda>s. leaves c t \<and> site I v s0 w {} Map.empty {} (t \<noteq> None) s))"
  by (rule yielding_bind, rule assms, rule at_yields, simp)

lemma advances_never:
  "keeps (semRel (advances I v)) m \<Longrightarrow> yielding (at (site I v s0 w {} Map.empty {} False)) (andBind m (\<lambda>_. yields None))
    (\<lambda>t. at (\<lambda>s. leaves c t \<and> site I v s0 w {} Map.empty {} (t \<noteq> None) s))"
  by (rule never_site, rule at_advances)

lemma statementBody_flow:
  fixes v :: "('b, 'r) irView"
  assumes S: "stmtLaws v se" and rec: "\<And>task. flows v se task (rec task)"
  shows "statementFlow (ir (be se)) v (statementBody se rec d)"
  unfolding statementFlow_def
proof (intro allI impI, elim conjE)
  fix s0 :: "('b, 'r) bstate sems" and w :: "(frame \<times> bool) list"
  assume l: "length (sem_ctx s0) = length w" and p: "placed (map fst w)"
  have w: "inFunction (map fst w)" using p by (simp add: placed_def)
  have len: "length (sem_ctx s0) \<le> length w" using l by simp
  have ns: "yielding (at (site (ir (be se)) v s0 w {} Map.empty {} False)) (sem curNs) (\<lambda>_. at (site (ir (be se)) v s0 w {} Map.empty {} False))"
    by (intro at_advances advance_rules)
  have classDef: "keeps (semRel (advances (ir (be se)) v)) (parseClassDef (pe se))"
    using stmtLawsD(2) [OF S] by (simp add: envKeeps_def)
  show "yielding (at (site (ir (be se)) v s0 w {} Map.empty {} False)) (statementBody se rec d)
    (\<lambda>t. at (\<lambda>s. leaves (map fst w) t \<and> site (ir (be se)) v s0 w {} Map.empty {} (t \<noteq> None) s))"
    unfolding statementBody_def Let_def unexpected_def
    by (rule yielding_bind, rule at_token [OF S])
      (intro yielding_if yielding_throw control_site [OF S] parseIfStmt_site [OF S rec w len] never_site
        parseWhileStmt_site [OF S rec w len] parseForStmt_site [OF S rec w len] parseReturn_site [OF S w]
        parseJump_site [OF S] parseThrowStmt_site [OF S w] parseTryStmt_site [OF S rec w len]
        yielding_bind [OF ns] at_advances advances_heads(4) [OF S] classDef advances_clause [OF S] yielding_bind [OF at_token(3) [OF S]] at_yields; simp)
qed

section \<open>Blocks\<close>

lemma closeBlock_site:
  assumes S: "stmtLaws v se" and "terminal x \<longleftrightarrow> e"
  shows "yielding (site (ir (be se)) v s0 ((x, q) # w) B K D e) (closeBlock se nested)
    (\<lambda>_. site (ir (be se)) v s0 ((x, q) # w) B K D e)"
proof -
  have ns: "keeps (quiet I v) curNs" for I
    by (intro quiet_rules)
  have cleanups: "yielding (site (ir (be se)) v s0 ((x, q) # w) B K D False) (andBind curContext (closeAllCleanupsStatic (be se)))
      (\<lambda>_. site (ir (be se)) v s0 ((x, q) # w) B K D False)"
    by (rule yielding_bind, rule curContext_site, rule yielding_conj, rule emissions [OF stmtLawsD(1) [OF S]])
  show ?thesis unfolding closeBlock_def
    apply (rule yielding_bind, rule yielding_quiet, rule ns)
    apply (rule yielding_bind, rule yielding_quiet, rule quietly.keeps_basic)
    apply (split sum.split, intro conjI allI impI, rule yielding_throw)
    apply (rule yielding_bind, rule curFrame_site, rule yielding_conj, rule yielding_if)
    using assms(2) cleanups apply auto[1]
    apply (rule yielding_yields)
    done
qed

lemma markTerminal_site:
  assumes "placed (x # map fst w)" and "leaves (x # map fst w) t" and "\<not> terminal x"
  shows "yielding (site I v s0 ((x, q) # w) B K D (t \<noteq> None)) (markTerminal t)
    (\<lambda>t s. (leaves (x # map fst w) t) \<and> site I v s0 ((x\<lparr>terminal := t \<noteq> None\<rparr>, q) # w) B K D (t \<noteq> None) s)"
proof (cases t)
  case None
  have "x\<lparr>terminal := False\<rparr> = x" using assms(3) by simp
  then show ?thesis unfolding None markTerminal_def option.case
    by (intro yielding_pre [OF yielding_yields]) simp
next
  case (Some c)
  have mark: "yielding (site I v s0 ((x, q) # w) B K D True) (onFrame (\<lambda>f. f\<lparr>terminal := True\<rparr>))
      (\<lambda>_. site I v s0 ((x\<lparr>terminal := True\<rparr>, q) # w) B K D True)"
    by (rule onFrame_site [where h = "\<lambda>f. f\<lparr>terminal := True\<rparr>"]) (auto simp: plain_def)
  have other: "\<not> sameContext c d" if "map plain d = x # map fst w" for d
  proof -
    have "length d = length (x # map fst w)" using that by (metis length_map)
    moreover have "length c \<noteq> length (x # map fst w)" using placed_leaves assms(1,2) Some by blast
    ultimately show ?thesis by (auto simp: sameContext_def dest: map_eq_imp_length_eq)
  qed
  show ?thesis unfolding Some markTerminal_def option.case
    apply (simp only: option.distinct not_False_eq_True simp_thms)
    apply (rule yielding_bind, rule curContext_plain, rule yielding_conj, rule yielding_if)
     apply (rule yielding_bind, rule mark, rule yielding_pre [OF yielding_yields])
    using assms(2) Some other by auto
qed

lemma blockBody_flow:
  fixes v :: "('b, 'r) irView"
  assumes S: "stmtLaws v se" and rec: "\<And>task. flows v se task (rec task)"
  shows "blockFlow (ir (be se)) v ended (blockBody se rec nested ev ended)"
  unfolding blockFlow_def
proof (intro allI impI, elim conjE)
  fix s0 :: "('b, 'r) bstate sems" and x q and w :: "(frame \<times> bool) list"
  assume p: "placed (x # map fst w)" and t: "terminal x \<longleftrightarrow> ended \<noteq> None" and l: "leaves (x # map fst w) ended"
  let ?site = "site (ir (be se)) v s0"
  let ?Q = "\<lambda>t. at (\<lambda>s. \<exists>y. leaves (x # map fst w) t \<and> ?site ((x\<lparr>terminal := y\<rparr>, q) # w) {} Map.empty {} (t \<noteq> None) s)"
  have again: "yielding (at (?site ((x\<lparr>terminal := y\<rparr>, q) # w) {} Map.empty {} (t \<noteq> None))) (rec (Block nested ev t)) ?Q"
    if "y \<longleftrightarrow> t \<noteq> None" "leaves (x # map fst w) t" for y t
  proof -
    have same: "placed (x\<lparr>terminal := y\<rparr> # map fst w)" "leaves (x\<lparr>terminal := y\<rparr> # map fst w) = leaves (x # map fst w)"
      using p inFunction_same [of "x\<lparr>terminal := y\<rparr>" x "map fst w"] by (auto simp: placed_def leaves_def fun_eq_iff)
    show ?thesis
      by (rule at_consequence [OF use_block [OF rec [of "Block nested ev t"] same(1)]])
        (use that same(2) in auto)
  qed
  have now: "yielding (at (?site ((x, q) # w) {} Map.empty {} (ended \<noteq> None))) (rec (Block nested ev ended)) ?Q"
  proof -
    have "x\<lparr>terminal := ended \<noteq> None\<rparr> = x" using t [symmetric] by simp
    with again [OF refl l] show ?thesis by simp
  qed
  have stop: "yielding (at (?site ((x, q) # w) {} Map.empty {} (ended \<noteq> None)))
      (andBind (sem (closeBlock se nested)) (\<lambda>_. yields ended)) ?Q"
    apply (rule yielding_bind, rule at_sem, rule closeBlock_site [OF S t], rule at_yields)
    apply (rule exI [of _ "terminal x"])
    using l by simp
  have next_: "yielding (at (?site ((x, q) # w) {} Map.empty {} (ended \<noteq> None)))
      (andBind (rec (Statement True)) (\<lambda>ended. andBind (sem (markTerminal ended)) (\<lambda>ended. rec (Block nested ev ended)))) ?Q"
    if open_: "\<not> terminal x"
  proof -
    have e: "(ended \<noteq> None) = False" using t open_ by simp
    show ?thesis unfolding e
      apply (rule yielding_bind, rule use_statement [OF rec [of "Statement True"]], simp add: p)
      apply (rule at_conj, rule yielding_bind, rule at_sem, rule markTerminal_site [OF p], simp, rule open_)
      apply (rule at_conj, rule again, rule refl, assumption)
      done
  qed
  show "yielding (at (?site ((x, q) # w) {} Map.empty {} (ended \<noteq> None))) (blockBody se rec nested ev ended) ?Q"
    unfolding blockBody_def unexpected_def
    apply (rule yielding_bind, rule at_token [OF S])
    apply (rule yielding_if, rule yielding_throw, rule yielding_if, rule yielding_throw, rule yielding_if)
     apply (rule yielding_bind, rule at_quiet, rule quiet_blockAgain [OF S], rule yielding_if, rule now, rule stop)
    apply (rule yielding_bind, rule at_token [OF S])
    apply (rule yielding_bind, rule at_sem, rule curFrame_site, rule at_conj, rule yielding_if, rule yielding_throw)
    apply (rule next_, auto)
    done
qed

section \<open>The recursion\<close>

lemma runStmt_flows:
  assumes "stmtLaws v se" and "\<And>task. flows v se task (rec task)"
  shows "flows v se task (runStmt se rec task)"
  using blockBody_flow [OF assms] statementBody_flow [OF assms] catchBody_flow [OF assms]
  by (cases task) (simp_all add: flows_def runStmt_def)

text \<open>An action with at most one result: what the others do follows from all of these.\<close>

definition only :: "'s \<Rightarrow> 'x \<Rightarrow> 's \<Rightarrow> 'x option" where
  "only s r = (\<lambda>u. if u = s then Some r else None)"

lemma yielding_only: "yielding P m Q \<longleftrightarrow> (\<forall>s r. m s = Some r \<longrightarrow> yielding P (only s r) Q)"
  by (fastforce simp: yielding_def only_def)

lemma flows_only: "flows v se task m \<longleftrightarrow> (\<forall>s r. m s = Some r \<longrightarrow> flows v se task (only s r))"
  by (cases task; simp only: flows_def stask.case statementFlow_def blockFlow_def clausesFlow_def)
    (subst yielding_only, blast)+

lemma statement_flows:
  assumes S: "stmtLaws v se"
  shows "flows v se task (statement se task)"
proof (subst flows_only, intro allI impI)
  fix s r assume "statement se task s = Some r"
  then show "flows v se task (only s r)"
    using S
  proof (induction rule: statement.raw_induct [rotated 1, consumes 1])
    case (1 rec se task s r)
    have "flows v se task (runStmt se (rec se) task)"
      by (rule runStmt_flows [OF 1(3)], subst flows_only) (use 1(1,3) in blast)
    then show ?case using 1(2) flows_only by blast
  qed
qed

end
