(* ===== verification/Function_Blocks.thy ===== *)
theory Function_Blocks
  imports Stmt_Blocks Parse_Spec
begin

text \<open>
  The blocks of a function after a statement and after the body of the function, in terms of the states
  before and after, and a builder that keeps a list of blocks, with the body of a function for it.
\<close>

section \<open>After a statement\<close>

lemma view_frames: "map fst (view u) = map Block_Flow.plain (sem_ctx u)"
  by (simp add: view_def comp_def)

lemma statement_site:
  assumes S: "stmtLaws v se" and "good (ir (be se)) v (ps_sem p)" and "\<not> isEnded v (ps_sem p) (here (ir (be se)) (ps_sem p))"
    and P: "placed (map Block_Flow.plain (sem_ctx (ps_sem p)))" and m: "statement se (Statement d) p = Some (Inr (t, p'))"
  shows "site (ir (be se)) v (ps_sem p) (view (ps_sem p)) {} Map.empty {} (t \<noteq> None) (ps_sem p')"
proof -
  have w: "map fst (view (ps_sem p)) = map Block_Flow.plain (sem_ctx (ps_sem p))" by (simp add: view_def comp_def)
  have "site (ir (be se)) v (ps_sem p) (view (ps_sem p)) {} Map.empty {} False (ps_sem p)"
    using site_refl [OF assms(2)] assms(3) by simp
  from yieldingD [OF use_statement [OF statement_flows [OF S, of "Statement d"]] _ m] this P show ?thesis
    by (simp add: w at_def)
qed

lemma site_outcome:
  assumes "site I v s0 w {} K D e s"
  shows "iv_sound v (llvm (sem_rest s))" "isEnded v s (here I s) \<longleftrightarrow> e"
    "\<forall>x \<in> known v s0 - {here I s0}. x \<in> known v s \<and> x \<noteq> here I s \<and> (isEnded v s x \<longleftrightarrow> isEnded v s0 x)"
    "\<forall>x \<in> known v s - (known v s0 - {here I s0}). x \<noteq> here I s \<longrightarrow> isEnded v s x"
  using assms unfolding site_def good_def waits_def filled_def by auto

section \<open>After the body of a function\<close>

lemma functionBody_site:
  assumes S: "stmtLaws v se" and "good (ir (be se)) v (ps_sem p)" and "\<not> isEnded v (ps_sem p) (here (ir (be se)) (ps_sem p))"
    and P: "placed (map Block_Flow.plain (sem_ctx (ps_sem p)))" and F: "sem_ctx (ps_sem p) = f # c" "\<not> terminal f"
    and m: "functionBody se brace p = Some (Inr (u, p'))"
  shows "\<exists>w. site (ir (be se)) v (ps_sem p) w {} Map.empty {} True (ps_sem p')"
proof -
  let ?site = "site (ir (be se)) v (ps_sem p)"
  obtain x q w where w: "view (ps_sem p) = (x, q) # w" "x = Block_Flow.plain f" "map fst w = map Block_Flow.plain c"
    using F(1) by (simp add: view_def comp_def)
  have start: "?site ((x, q) # w) {} Map.empty {} False (ps_sem p)"
    using site_refl [OF assms(2)] assms(3) w(1) by simp
  have block: "yielding (at (?site ((x, q) # w) {} Map.empty {} False)) (statement se (stask.Block True FuncLeave None))
      (\<lambda>t. at (\<lambda>s. \<exists>y. leaves (x # map fst w) t \<and> ?site ((x\<lparr>terminal := y\<rparr>, q) # w) {} Map.empty {} (t \<noteq> None) s))"
    using use_block [OF statement_flows [OF S, of "stask.Block True FuncLeave None"], of x w "ps_sem p" q "{}" Map.empty "{}"] P F w by simp
  have void: "keeps (quiet I v) (endsWithoutValue se)" for I
    unfolding endsWithoutValue_def by (intro quietly.keeps_rules) (auto simp: curFrame_def keeps_def intro: quietly.kept_refl split: list.splits)
  have "yielding (at (?site ((x, q) # w) {} Map.empty {} False)) (functionBody se brace)
      (\<lambda>_. at (\<lambda>s. \<exists>w. ?site w {} Map.empty {} True s))"
    unfolding functionBody_def
    apply (rule yielding_bind, rule block, rule at_ex, rule at_conj, rule yielding_option)
     apply (simp only: simp_thms)
     apply (rule yielding_bind, rule at_sem, rule yielding_quiet, rule void, rule yielding_if)
      apply (rule yielding_bind, rule at_sem, rule yielding_quiet, rule stmtLawsD(12) [OF S])
      apply (rule at_consequence, rule at_sem, rule emitReturn_site [OF stmtLawsD(1) [OF S]], rule exI, assumption)
     apply (rule yielding_throw)
    apply (rule at_yields, rule exI, simp)
    done
  from yieldingD [OF this _ m] start show ?thesis by (simp add: at_def)
qed

section \<open>Sample\<close>

text \<open>
  A builder with numbered blocks. A body for it is \<open>return; }\<close>, the tokens put back in a tokenizer, in a
  function of a module. The parts that are not modelled do nothing, or yield what is needed.
\<close>

record sampleIr =
  irBlocks :: "nat list"
  irEnded :: "nat \<Rightarrow> bool"
  irHere :: nat
  irSound :: bool
  irLast :: nat

definition sampleEnd :: "sampleIr \<Rightarrow> sampleIr" where
  "sampleEnd r = r\<lparr>irEnded := (irEnded r)(irHere r := True), irSound := irSound r \<and> \<not> irEnded r (irHere r)\<rparr>"

definition sampleBuilder :: "(nat, sampleIr) irBuilder" where
  "sampleBuilder = \<lparr>newBlock = (\<lambda>_ r. let b = Suc (sum_list (irBlocks r)) in
       (b, r\<lparr>irBlocks := b # irBlocks r, irEnded := (irEnded r)(b := False)\<rparr>)),
     eraseFromParent = (\<lambda>b r. r\<lparr>irBlocks := filter (\<lambda>x. x \<noteq> b) (irBlocks r)\<rparr>),
     insertBlock = irHere, setInsertPoint = (\<lambda>b r. r\<lparr>irHere := b\<rparr>), createBr = (\<lambda>_. sampleEnd),
     createCondBr = (\<lambda>_ _ _. sampleEnd), createRet = (\<lambda>_. sampleEnd), createRetVoid = sampleEnd,
     createSwitch = (\<lambda>_ _. sampleEnd), createInvoke = (\<lambda>_ _ _. sampleEnd), createUnreachable = sampleEnd,
     lastValue = irLast, setLastValue = (\<lambda>x r. r\<lparr>irLast := x\<rparr>)\<rparr>"

definition sampleView :: "(nat, sampleIr) irView" where
  "sampleView = \<lparr>iv_sound = irSound, iv_known = (\<lambda>r. set (irBlocks r)), iv_ended = irEnded\<rparr>"

definition sampleEmission :: "(string, nat, sampleIr) benv" where
  "sampleEmission = \<lparr>ir = sampleBuilder, emitTransient = (\<lambda>_. yields ()), emitCond = (\<lambda>_. yields ()),
     emitReturned = (\<lambda>_. yields ()), emitThrown = (\<lambda>_. yields 0), assignReturned = (\<lambda>_. yields ()),
     createCleanupFrame = yields (), closeCleanupFrame = yields (), closeAllCleanupsStatic = (\<lambda>_. yields ()),
     addExceptionCleanup = yields (), getUnwindBlock = yields 0, emitUnwindCleanups = (\<lambda>_. yields 0),
     getExceptionSelectorValue = yields 0, emitExceptionObject = (\<lambda>_. yields ''x''), fixAllSelectors = (\<lambda>_. yields ())\<rparr>"

definition sampleStmts :: "(string, nat, sampleIr) senv" where
  "sampleStmts = \<lparr>pe = sampleEnv, be = sampleEmission, vtableBaseType = 6, hasCallbacks = (\<lambda>_ _. False),
     runCallbacks = (\<lambda>_. yields False), parseDef = (\<lambda>_. yields False), parseAlias = yields (), parseConstDef = yields (),
     expandIteration = (\<lambda>_ _ _ e. yields (e, None, None)), emitExceptionVar = (\<lambda>_ _ _. yields 0),
     clearCleanups = yields (), setModuleDoc = (\<lambda>_. yields ())\<rparr>"

definition sampleModule :: frame where
  "sampleModule = (newFrame ModuleScope (Some 0) None)\<lparr>toplevel := True\<rparr>"

definition sampleAt :: "token list \<Rightarrow> bool \<Rightarrow> sampleIr \<Rightarrow> (nat, sampleIr) bstate pstate" where
  "sampleAt ts fin r = \<lparr>ps_toker = foldr putBack ts (sampleToker []), ps_doc = [], ps_nest = 0,
     ps_sem = \<lparr>sem_ctx = [(newFrame LocalScope (Some 1) None)\<lparr>toplevel := True, terminal := fin, ctx_returnType := Some 3\<rparr>,
         sampleModule],
       sem_store = \<lparr>cell = (\<lambda>_. blankObj), nextAddr = 10\<rparr>,
       sem_rest = \<lparr>branchpoints = [], catchDatas = [], llvm = r\<rparr>\<rparr>\<rparr>"

definition sampleFunction :: "(nat, sampleIr) bstate pstate" where
  "sampleFunction = sampleAt [mkToken T_returnKw ''return'' None, semiToken, mkToken T_rcurly ''}'' None] False
     \<lparr>irBlocks = [1], irEnded = (\<lambda>_. False), irHere = 1, irSound = True, irLast = 0\<rparr>"

definition returnToken :: token where
  "returnToken = mkToken T_returnKw ''return'' None"

definition braceToken :: token where
  "braceToken = mkToken T_rcurly ''}'' None"

lemma member_le_sum: "x \<in> set xs \<Longrightarrow> x \<le> sum_list (xs :: nat list)"
  by (induction xs) auto

lemma sampleBuilder_laws: "irLaws sampleBuilder sampleView"
proof -
  have "endsBlock sampleBuilder sampleView sampleEnd"
    by (simp add: endsBlock_def sampleBuilder_def sampleView_def sampleEnd_def)
  moreover have "Suc (sum_list xs) \<notin> set xs" for xs :: "nat list"
    using member_le_sum [of "Suc (sum_list xs)" xs] by auto
  ultimately show ?thesis
    by (auto simp: irLaws_def sampleBuilder_def sampleView_def Let_def)
qed

lemma keeps_yields: "(\<And>s. R s s) \<Longrightarrow> keeps R (yields x)"
  by (simp add: keeps_def yields_def)

lemma sampleEnv_keeps: "(\<And>s. R s s) \<Longrightarrow> envKeeps R sampleEnv"
  by (simp add: envKeeps_def sampleEnv_def importerKeeps_def noImporter_def keeps_yields semRel_def)

lemma sampleStmts_parts [simp]:
  "ir (be sampleStmts) = sampleBuilder" "pe sampleStmts = sampleEnv" "be sampleStmts = sampleEmission"
  "runCallbacks sampleStmts ev = yields False" "hasCallbacks sampleStmts ev q = False" "clearCleanups sampleStmts = yields ()"
  "parseDef sampleStmts a = yields False" "parseAlias sampleStmts = yields ()" "parseConstDef sampleStmts = yields ()"
  "expandIteration sampleStmts nm d i e = yields (e, None, None)" "emitExceptionVar sampleStmts a tok e = yields 0"
  "popErrorContext sampleEnv = yields ()"
  "parseAnnotation sampleEnv = yields ()" "voidType sampleEnv = 3" "ir sampleEmission = sampleBuilder"
  "closeAllCleanupsStatic sampleEmission c = yields ()" "createRetVoid sampleBuilder = sampleEnd"
  by (simp_all add: sampleStmts_def sampleEmission_def sampleEnv_def sampleBuilder_def)

lemma sampleStmts_laws: "stmtLaws sampleView sampleStmts"
proof -
  have q: "keeps (quiet sampleBuilder sampleView) (yields x)" "keeps (advances sampleBuilder sampleView) (yields x)"
    "keeps (semRel (quiet sampleBuilder sampleView)) (yields x)" "keeps (semRel (advances sampleBuilder sampleView)) (yields x)" for x
    by (rule keeps_yields, simp add: semRel_def quietly.kept_refl advance.kept_refl)+
  have "emissionLaws sampleView sampleEmission"
    unfolding emissionLaws_def by (simp add: sampleEmission_def q sampleBuilder_laws)
  moreover have "envKeeps (advances sampleBuilder sampleView) sampleEnv" "envKeeps (quiet sampleBuilder sampleView) sampleEnv"
    by (rule sampleEnv_keeps, rule advance.kept_refl, rule sampleEnv_keeps, rule quietly.kept_refl)
  ultimately show ?thesis
    unfolding stmtLaws_def by (simp add: q quietly.keeps_parse quiet_always)
qed

text \<open>Tokens put back are the next ones.\<close>

lemma next_pushed:
  assumes "ps_toker s = putBack tok t" and "plain tok" and "tk_state t = st_none"
  shows "nextToken env s = Some (Inr (tok, s\<lparr>ps_toker := t\<rparr>))"
proof -
  have past: "past env (putBack tok t) = t" using getToken_putBack [of t tok "junk env"] assms by (simp add: past_def plain_def tok_is_def)
  have "streams (junk env) (tok # []) (putBack tok t) t" using assms streams_putBack [of "junk env" "[]" t t tok] by (simp add: streams.simps)
  from does_next [OF this, of yields] have "andBind (nextToken env) yields s = yields tok (s\<lparr>ps_toker := t\<rparr>)"
    using assms(1) by (simp add: does_def past)
  then show ?thesis by (auto simp: andBind_def yields_def split: option.splits sum.splits)
qed

lemma statement_run: "statement se task = runStmt se (statement se) task"
  by (rule ext) (subst statement.simps, rule refl)

lemma sample_toker [simp]: "tk_state (putBack tok t) = tk_state t" "tk_state (sampleToker []) = st_none"
  by (simp_all add: putBack_def sampleToker_def newToker_def)

lemmas sample_tokens = returnToken_def semiToken_def braceToken_def plain_def tok_is_def
lemmas sample_actions = andBind_def runStmt_def next_pushed sem_def onPart_def gets_def returning_def modifies_def yields_def
  curNs_def curFrame_def curContext_def unread_def newFrame_def doLlvm_def onLlvm_def
  checkForUnresolvedForwards_def blankObj_def

lemma sample_return:
  "statement sampleStmts (Statement True) (sampleAt [returnToken, semiToken, braceToken] b r) =
     Some (Inr (Some [sampleModule], sampleAt [braceToken] b (sampleEnd r)))"
  by (subst statement_run)
    (simp add: sample_actions statementBody_def Let_def parseReturn_def parseReturnStmt_def returnsVoid_def emitReturn_def
      emitFunctionCleanups.simps nonNull_def sampleModule_def matches.simps sampleAt_def sample_tokens)

lemma sample_end:
  "statement sampleStmts (stask.Block True FuncLeave (Some c)) (sampleAt [braceToken] True r) =
     Some (Inr (Some c, sampleAt [] True r))"
  by (subst statement_run)
    (simp add: sample_actions blockBody_def blockAgain_def closeBlock_def sampleAt_def sample_tokens)

lemma sample_body:
  "functionBody sampleStmts braceToken (sampleAt [returnToken, semiToken, braceToken] False r) =
     Some (Inr ((), sampleAt [] True (sampleEnd r)))"
proof -
  have "statement sampleStmts (stask.Block True FuncLeave None) (sampleAt [returnToken, semiToken, braceToken] False r) =
      Some (Inr (Some [sampleModule], sampleAt [] True (sampleEnd r)))"
  proof (subst statement_run)
    let ?s = "sampleAt [returnToken, semiToken, braceToken] False r"
    let ?t = "?s\<lparr>ps_toker := putBack semiToken (putBack braceToken (sampleToker []))\<rparr>"
    have read: "nextToken sampleEnv ?s = Some (Inr (returnToken, ?t))" "unread returnToken ?t = Some (Inr ((), ?s))"
      by (simp_all add: next_pushed sampleAt_def sample_tokens unread_def modifies_def)
    have mark: "markTerminal (Some [sampleModule]) (ps_sem (sampleAt [braceToken] False u)) =
        Some (Inr (Some [sampleModule], ps_sem (sampleAt [braceToken] True u)))" for u
      by (simp add: markTerminal_def sameContext_def onFrame_def sample_actions sampleAt_def)
    have same: "sampleAt [braceToken] False u\<lparr>ps_sem := ps_sem (sampleAt [braceToken] True u)\<rparr> = sampleAt [braceToken] True u" for u
      by (simp add: sampleAt_def)
    have open_: "curFrame (ps_sem ?s) = Some (Inr (hd (sem_ctx (ps_sem ?s)), ps_sem ?s))" "\<not> terminal (hd (sem_ctx (ps_sem ?s)))"
      by (simp_all add: curFrame_def sampleAt_def newFrame_def)
    show "runStmt sampleStmts (statement sampleStmts) (stask.Block True FuncLeave None) ?s =
        Some (Inr (Some [sampleModule], sampleAt [] True (sampleEnd r)))"
      by (simp add: runStmt_def blockBody_def andBind_def read open_ sem_def onPart_def sample_return mark same sample_end)
        (simp add: sample_tokens)
  qed
  then show ?thesis by (simp add: functionBody_def andBind_def yields_def)
qed

lemma sample_ok:
  "good sampleBuilder sampleView (ps_sem sampleFunction)"
  "\<not> isEnded sampleView (ps_sem sampleFunction) (here sampleBuilder (ps_sem sampleFunction))"
  "placed (map Block_Flow.plain (sem_ctx (ps_sem sampleFunction)))"
  by (auto simp: good_def dataOk_def sampleBuilder_def sampleView_def sampleFunction_def sampleAt_def sampleModule_def
    newFrame_def placed_def inFunction_def List.map_filter_simps Block_Flow.plain_def)

section \<open>Properties\<close>

text \<open>
  C7. The blocks of a function while statements are parsed, of every kind and nested in any way. A statement
  that begins in an open block and is parsed without an error appends no instruction to a block that is
  ended; it yields a terminal context exactly when the block being filled is ended after it, so the parser
  never takes code for reachable that is not or the other way round; the blocks that waited before the
  statement still wait, as they were; every other block but the one being filled is ended; and the chain
  of contexts is what it was, but for the parts that control flow does not depend on. This
  is for builders and environments that keep \<open>stmtLaws\<close>: LLVM keeps its laws, what the builder emits for
  an expression, a definition or an import leaves the block being filled open and the others as they were,
  and reading the type of a catch clause makes no code when the block before it has ended. The compiler does
  not see to the last: a name in that type that is imported lazily, or a \<open>typeof\<close>, makes code there.
\<close>

theorem statement_blocks:
  assumes "stmtLaws v se" and "good (ir (be se)) v (ps_sem p)"
    and "\<not> isEnded v (ps_sem p) (here (ir (be se)) (ps_sem p))" and "placed (map Block_Flow.plain (sem_ctx (ps_sem p)))"
    and "statement se (Statement defsAllowed) p = Some (Inr (t, p'))"
  shows "iv_sound v (llvm (sem_rest (ps_sem p'))) \<and>
    (isEnded v (ps_sem p') (here (ir (be se)) (ps_sem p')) \<longleftrightarrow> t \<noteq> None) \<and>
    (\<forall>x \<in> known v (ps_sem p) - {here (ir (be se)) (ps_sem p)}. x \<in> known v (ps_sem p') \<and>
       x \<noteq> here (ir (be se)) (ps_sem p') \<and> (isEnded v (ps_sem p') x \<longleftrightarrow> isEnded v (ps_sem p) x)) \<and>
    (\<forall>x \<in> known v (ps_sem p') - (known v (ps_sem p) - {here (ir (be se)) (ps_sem p)}).
       x \<noteq> here (ir (be se)) (ps_sem p') \<longrightarrow> isEnded v (ps_sem p') x) \<and>
    map Block_Flow.plain (sem_ctx (ps_sem p')) = map Block_Flow.plain (sem_ctx (ps_sem p))"
proof -
  note s = statement_site [OF assms]
  have "map Block_Flow.plain (sem_ctx (ps_sem p')) = map Block_Flow.plain (sem_ctx (ps_sem p))"
    using siteD(2) [OF s] view_frames by metis
  with site_outcome [OF s] show ?thesis by blast
qed

lemma statement_blocks_witness:
  "isEnded sampleView (ps_sem (sampleAt [braceToken] False (sampleEnd (llvm (sem_rest (ps_sem sampleFunction))))))
    (here sampleBuilder (ps_sem (sampleAt [braceToken] False (sampleEnd (llvm (sem_rest (ps_sem sampleFunction)))))))"
proof -
  have "statement sampleStmts (Statement True) sampleFunction =
      Some (Inr (Some [sampleModule], sampleAt [braceToken] False (sampleEnd (llvm (sem_rest (ps_sem sampleFunction))))))"
    using sample_return [of False "llvm (sem_rest (ps_sem sampleFunction))"]
    by (simp add: sampleFunction_def sampleAt_def returnToken_def braceToken_def)
  from statement_blocks [OF sampleStmts_laws _ _ _ this] show ?thesis by (simp add: sample_ok)
qed

text \<open>
  C10. The body of a function makes well-formed code: once the body is parsed without an error, with the
  return that is added where control can reach its end, every block made for the function is ended, the
  block being filled included, no instruction was appended to a block after it was ended, and the blocks
  of the functions around it are as they were. The assumptions are those of C7.
\<close>

theorem function_blocks:
  assumes "stmtLaws v se" and "good (ir (be se)) v (ps_sem p)"
    and "\<not> isEnded v (ps_sem p) (here (ir (be se)) (ps_sem p))" and "placed (map Block_Flow.plain (sem_ctx (ps_sem p)))"
    and "sem_ctx (ps_sem p) = f # c" and "\<not> terminal f"
    and "functionBody se brace p = Some (Inr (u, p'))"
  shows "iv_sound v (llvm (sem_rest (ps_sem p'))) \<and>
    (\<forall>x \<in> known v (ps_sem p') - (known v (ps_sem p) - {here (ir (be se)) (ps_sem p)}). isEnded v (ps_sem p') x) \<and>
    (\<forall>x \<in> known v (ps_sem p) - {here (ir (be se)) (ps_sem p)}. x \<in> known v (ps_sem p') \<and>
       (isEnded v (ps_sem p') x \<longleftrightarrow> isEnded v (ps_sem p) x))"
proof -
  from functionBody_site [OF assms] obtain w where s: "site (ir (be se)) v (ps_sem p) w {} Map.empty {} True (ps_sem p')" ..
  note out = site_outcome [OF s]
  have "isEnded v (ps_sem p') x" if "x \<in> known v (ps_sem p') - (known v (ps_sem p) - {here (ir (be se)) (ps_sem p)})" for x
    using out(2) bspec [OF out(4) that] by (cases "x = here (ir (be se)) (ps_sem p')") simp_all
  moreover have "\<forall>x \<in> known v (ps_sem p) - {here (ir (be se)) (ps_sem p)}. x \<in> known v (ps_sem p') \<and>
      (isEnded v (ps_sem p') x \<longleftrightarrow> isEnded v (ps_sem p) x)" using out(3) by simp
  ultimately show ?thesis using out(1) by simp
qed

lemma function_blocks_witness:
  "isEnded sampleView (ps_sem (sampleAt [] True (sampleEnd (llvm (sem_rest (ps_sem sampleFunction)))))) 1"
proof -
  have run: "functionBody sampleStmts braceToken sampleFunction =
      Some (Inr ((), sampleAt [] True (sampleEnd (llvm (sem_rest (ps_sem sampleFunction))))))"
    using sample_body [of "llvm (sem_rest (ps_sem sampleFunction))"]
    by (simp add: sampleFunction_def sampleAt_def returnToken_def braceToken_def)
  have frames: "sem_ctx (ps_sem sampleFunction) =
      (newFrame LocalScope (Some 1) None)\<lparr>toplevel := True, terminal := False, ctx_returnType := Some 3\<rparr> # [sampleModule]"
    by (simp add: sampleFunction_def sampleAt_def)
  have "\<not> terminal ((newFrame LocalScope (Some 1) None)\<lparr>toplevel := True, terminal := False, ctx_returnType := Some 3\<rparr>)" by simp
  note blocks = function_blocks [OF sampleStmts_laws sample_ok [folded sampleStmts_parts(1)] frames this run]
  have one: "1 \<in> known sampleView (ps_sem (sampleAt [] True (sampleEnd (llvm (sem_rest (ps_sem sampleFunction)))))) -
      (known sampleView (ps_sem sampleFunction) - {here (ir (be sampleStmts)) (ps_sem sampleFunction)})"
    by (simp add: sampleFunction_def sampleAt_def sampleView_def sampleEnd_def sampleBuilder_def)
  show ?thesis by (rule bspec [OF conjunct1 [OF conjunct2 [OF blocks]] one])
qed

end
