(* ===== verification/Spec2Isabelle.thy ===== *)
theory Spec2Isabelle
  imports Toker_Round Toker_Indent Tok_Serializer Int_Const VTable_Create Class_Bases Ancestors
    Module_Names Context_Access Context_Lookup Table_Invariant Lazy_Imports Type_Order Actions Parser_State Parse_Ops Parse_Expr Parse_Rec Parse_Tree Parse_Follow Parse_Correct Parse_Trees Parse_Main Parse_Spec Toker_End Record_Generic Action_Rules Parse_Keeps Builder_Blocks Parse_Stmt Block_Flow Builder_Flow Catch_Flow Stmt_Keeps Stmt_Flow Stmt_Blocks Function_Blocks Dependencies
begin

text \<open>
  Crack is a compiler and interpreter for a C-like scripting language, written in C++. This
  development models the parts of it that decide what a program means before machine code is made:
  the tokenizer and the parser (src/parser), the model of the program that the parser builds
  (src/model), the form in which compiled modules are cached (the serialization in src/model and
  src/compiler/TokSerializer.cc), and from the builder (src/builder/llvm) what fixes the layout of
  classes, their virtual function tables and the blocks of a function.

  How the parts interact. \<open>Toker\<close> turns characters into tokens, with a list of tokens put back. \<open>Parser\<close>
  takes tokens and asks the current \<open>Context\<close> for the meaning of names; a context is a link of a
  chain, and each has a \<open>Namespace\<close>, a table of definitions with parents. Definitions are \<open>VarDef\<close>s,
  among them \<open>TypeDef\<close> (classes, with base classes and a vtable), \<open>FuncDef\<close> and \<open>OverloadDef\<close> (the
  functions of a name, with the overloads of enclosing scopes as parents). The parser builds \<open>Expr\<close>
  objects and has the builder emit code for them. A generic class is kept as a list of tokens
  (\<open>Generic\<close>), replayed into a tokenizer for every instance. Modules are written to a cache and read
  back by \<open>Serializer\<close> and \<open>Deserializer\<close>.

  Theories and sources, in the order of the program.

  \<^item> Prelude: lemmas on bytes, lists and results that the other theories share; Graph_Search and
    Preorder: depth-first searches that need not return, on any graph; Std_Map: \<open>std::map\<close>.

  \<^item> Tokens (parser/Token, Location): token types with their persisted codes. Toker_State, Toker_Step,
    Toker_Read, Toker_Get (parser/Toker): the state of the tokenizer, one definition per case of the
    switch in \<open>readToken()\<close>, its loop, \<open>getToken()\<close> with the batch reading of indented I-strings.
    Uninitialised locals are an argument (\<open>junk\<close>), so nothing depends on them. Toker_Spec has what every
    step keeps; Toker_Lang and Toker_Round that a text of lexemes is read back; Toker_Indent the
    indentation of strings; Toker_End that the end token is the last one.

  \<^item> Serial, Codec, Codec_Objects (model/Serializer, Deserializer): reading and writing of integers,
    strings and objects, with the bytes fed to the digest. Imports (model/Import, ImportedDef),
    Generic_Serial (model/Generic), Tok_Serializer (compiler/TokSerializer), Lazy_Imports
    (model/LazyImports), Type_Order (declarations and order of types in the meta-data: model/TypeDef,
    Namespace, ModuleDef).

  \<^item> Int_Const (model/IntConst): conversion and folding of integer constants at their width.

  \<^item> Objects: the definitions as objects in a store addressed by numbers; one record holds the members
    of all classes that are used. Types and Ancestors (model/TypeDef): derivation, base classes, paths.
    Class_Bases (the base list of a class in parser/Parser.cc and builder/llvm/LLVMBuilder.cc).
    VTables, VTable_Layout, VTable_Create (builder/llvm/VTableBuilder, BTypeDef). Module_Names
    (canonical names: model/ModuleDef, TypeDef).

  \<^item> Scopes, Namespaces (model/Namespace, VarDef): lookup, definition, aliases. Overload_Search,
    Overloads, Overload_Select (model/OverloadDef, FuncDef): selection of functions. Contexts and
    Context_Access (model/Context): the chain of contexts, access to names. Dependencies
    (\<open>addDependenciesTo\<close> of every class of definitions, model/ModuleDef): the modules that a module
    depends on.

  \<^item> Actions: computations that may fail or not return. Sem_State: the state that contexts and the parser
    work on. Emit_Import, Context_Lookup, Table_Invariant (model/Context): imports and lazy imports, lookup
    that imports names lazily and replicates overloads, the invariant of the tables. Parser_State, Parse_Ops, Parse_Expr, Parse_Rec
    (parser/Parser): \<open>parseExpression()\<close> and everything it calls. The functions call each other, so
    each takes the recursive calls as an argument, and \<open>parse\<close> is the fixed point. Parse_Tree,
    Parse_Follow, Parse_Correct, Parse_Trees, Parse_Main, Parse_Spec: the trees of expressions and the
    proof that the parser reads them. Record_Generic: recording of generic classes.

  \<^item> Parse_Stmt (parser/Parser): statements, blocks, imports, the body of a function, a module;
    statements call each other through \<open>parseStatement\<close>, \<open>parseBlock\<close> and the loop over catch clauses, and
    \<open>statement\<close> is the fixed point. Builder_Blocks (builder/llvm/LLVMBuilder): the blocks of
    conditionals, loops, jumps and exceptions. Action_Rules and Parse_Keeps: rules for actions, and a
    locale for the relations that the expression parser keeps. Block_Flow, Builder_Flow, Catch_Flow:
    the laws of LLVM, and a triple for every operation of the builder. Stmt_Keeps, Stmt_Flow,
    Stmt_Blocks, Function_Blocks: the same for statements, blocks and functions.

  What the lemmas show. The tokenizer is safe in every state, loses no character, and reads programs
  back. Every serialization modelled is undone by its deserialization, up to what the code drops.
  Constants convert and fold as the integers they stand for. The class hierarchy stays acyclic, a
  class accepted by the parser has a sound layout, its vtables are built and filled without failing an
  assertion. Lookup returns and finds the nearest definition; tables and overloads keep their
  invariant under every operation, and a module depends on the modules of all it imports. The expression parser implements the precedence table. Statements
  end the blocks of a function exactly where the parser thinks that control ends, so every block of a
  function is ended once. Each claim
  C\<open>n\<close> stands before its theorem.

  Parameters. Expressions are values of any type: the record \<open>penv\<close> (Parser_State) has a field for
  every virtual member of \<open>Expr\<close>, every constructor, and every operation of the builder or of parts of
  the parser that are not modelled; \<open>senv\<close> and \<open>benv\<close> have those that statements use, \<open>irBuilder\<close> the
  operations of LLVM. \<open>importer\<close> (Emit_Import) finds modules and
  makes their code run. What is assumed of them (\<open>stmtLaws\<close>, \<open>emissionLaws\<close>, \<open>irLaws\<close>, \<open>importerKeeps\<close>) holds of
  a sample. One assumption is about the compiler itself: the type of a catch clause makes no code when the
  block before it has ended, which fails for a type that is imported lazily. Doubles are their eight bytes. Hash tables are maps.

  Fuel and termination. No definition uses fuel. Loops that end are \<open>fun\<close> or \<open>function\<close> with a measure
  (characters left for the tokenizer, bytes left for the deserializer). Searches through the graph of
  namespaces and the recursion of the parser may run forever and are \<open>partial_function (option)\<close>:
  that they return is proved where it holds (acyclic graphs, inputs that are trees of expressions) and
  refuted where it does not (Record_Generic).

  Not modelled: class definitions and the heads of functions, definitions of variables and the loading of modules; generation of code for expressions and
  of the built-in functions of classes; the cache of modules on disk, with the digests of sources;
  the struct resolver and the linking of modules; the extraction builder (builder/mdl); the
  interface of annotations to the compiler (src/compiler) except its token strings; extensions
  (src/ext, src/opt), the runtime (src/runtime), utilities and tools, which do file, network and
  process input and output; tracing, statistics and messages beyond their kind. Reference counting is
  left out everywhere: objects in the store are never freed.
\<close>

end
